(* ===== verification/Prelude.thy ===== *)
theory Prelude
  imports Main "HOL-Library.Word"
begin

unbundle bit_operations_syntax

text \<open>
  Shared vocabulary of the development: the machine integers of the 32-bit x86 target the
  module is built for, the error values of code that would leave defined behaviour, and the
  generic lemmas on lists and on strict orders that several components use.
\<close>

section \<open>Machine integers\<close>

type_synonym u8 = "8 word"
type_synonym u16 = "16 word"
type_synonym u32 = "32 word"
type_synonym u64 = "64 word"

lemma of_nat_nonzero32: "0 < n \<Longrightarrow> n < 2 ^ 32 \<Longrightarrow> of_nat n \<noteq> (0 :: u32)"
  by (simp add: word_of_nat_eq_0_iff nat_dvd_not_less)

text \<open>Addresses of structures the program links by pointers.\<close>

type_synonym ptr = nat

section \<open>Lists split by a predicate\<close>

text \<open>
  A predicate is downward closed along a list when, of two elements, the earlier one satisfies
  it if the later one does. A binary search descends along such a predicate.
\<close>

definition down_closed :: "('a \<Rightarrow> bool) \<Rightarrow> 'a list \<Rightarrow> bool" where
  "down_closed P xs \<longleftrightarrow> sorted_wrt (\<lambda>a b. P b \<longrightarrow> P a) xs"

lemma down_closed_simps [simp]:
  "down_closed P []"
  "down_closed P (x # xs) \<longleftrightarrow> (\<forall>y\<in>set xs. P y \<longrightarrow> P x) \<and> down_closed P xs"
  by (auto simp: down_closed_def)

lemma down_closed_append [simp]:
  "down_closed P (xs @ ys) \<longleftrightarrow>
    down_closed P xs \<and> down_closed P ys \<and> (\<forall>x\<in>set xs. \<forall>y\<in>set ys. P y \<longrightarrow> P x)"
  by (auto simp: down_closed_def sorted_wrt_append)

lemma takeWhile_all: "\<forall>x\<in>set xs. P x \<Longrightarrow> takeWhile P (xs @ ys) = xs @ takeWhile P ys"
  by (induction xs) auto

lemma dropWhile_all: "\<forall>x\<in>set xs. P x \<Longrightarrow> dropWhile P (xs @ ys) = dropWhile P ys"
  by (induction xs) auto

lemma takeWhile_none: "\<not> P x \<Longrightarrow> takeWhile P (xs @ x # ys) = takeWhile P xs"
  by (induction xs) auto

lemma dropWhile_none: "\<not> P x \<Longrightarrow> dropWhile P (xs @ x # ys) = dropWhile P xs @ x # ys"
  by (induction xs) auto

lemma takeWhile_down_closed: "down_closed P xs \<Longrightarrow> takeWhile P xs = filter P xs"
  by (induction xs) (auto simp: filter_empty_conv)

lemma dropWhile_down_closed: "down_closed P xs \<Longrightarrow> dropWhile P xs = filter (\<lambda>x. \<not> P x) xs"
  by (induction xs) (auto simp: filter_id_conv)

lemma find_append: "find P (xs @ ys) = (case find P xs of Some x \<Rightarrow> Some x | None \<Rightarrow> find P ys)"
  by (induction xs) auto

lemma find_SomeD: "find P xs = Some x \<Longrightarrow> P x \<and> x \<in> set xs"
  by (induction xs) (auto split: if_splits)

section \<open>Strict orders, the contract of a comparison function\<close>

text \<open>
  The trees of the module are ordered by a comparison callback. All their clients rely on is
  that the callback is irreflexive and transitive on the elements they put in; two elements
  neither of which is less than the other are the same key.
\<close>

locale strict_order =
  fixes less :: "'a \<Rightarrow> 'a \<Rightarrow> bool" and ok :: "'a \<Rightarrow> bool"
  assumes irrefl: "ok a \<Longrightarrow> \<not> less a a"
    and trans: "ok b \<Longrightarrow> less a b \<Longrightarrow> less b c \<Longrightarrow> less a c"
begin

lemma asym: "ok a \<Longrightarrow> ok b \<Longrightarrow> less a b \<Longrightarrow> \<not> less b a"
  using irrefl trans by blast

lemma below_down_closed:
  "sorted_wrt less xs \<Longrightarrow> \<forall>x\<in>set xs. ok x \<Longrightarrow> down_closed (\<lambda>y. less y x) xs"
  by (induction xs) (auto intro: trans)

lemma not_above_down_closed:
  "sorted_wrt less xs \<Longrightarrow> \<forall>x\<in>set xs. ok x \<Longrightarrow> down_closed (\<lambda>y. \<not> less x y) xs"
  by (induction xs) (auto intro: trans)

lemma sorted_insert:
  assumes "sorted_wrt less xs" and "\<forall>y\<in>set xs. ok y" and "ok x"
    and "\<forall>y\<in>set xs. less x y \<or> less y x"
  shows "sorted_wrt less (filter (\<lambda>y. less y x) xs @ x # filter (\<lambda>y. \<not> less y x) xs)"
  using assms by (auto simp: sorted_wrt_append sorted_wrt_filter intro: trans)

end

end
