(* ===== verification/Rbtree.thy ===== *)
theory Rbtree
  imports Prelude
begin

text \<open>
  The red-black tree of \<^verbatim>\<open>lib/rbtree.c\<close>, on its heap of nodes with parent
  pointers and one shared sentinel. Every function of the file is here as an operation on the
  heap, assignment by assignment; the loops are \<^theory_text>\<open>partial_function (option)\<close>,
  so that not returning is a value, and \<^theory_text>\<open>Rbtree_Insert\<close>,
  \<^theory_text>\<open>Rbtree_Delete\<close> and \<^theory_text>\<open>Rbtree_Find\<close> show that they return.
\<close>

section \<open>Nodes, the sentinel and the heap\<close>

text \<open>
  A pointer to a \<^verbatim>\<open>struct rbtree_elem\<close> is an address. The address of
  \<^verbatim>\<open>nil_store\<close> is \<open>nil\<close>; \<^verbatim>\<open>NULL\<close>, which the
  searches return and which is not the sentinel, is \<open>None\<close> of an option. The colours are
  the macros \<^verbatim>\<open>_BLACK_\<close> and \<^verbatim>\<open>_RED_\<close>.
\<close>

definition nil :: ptr where
  "nil = 0"

datatype color = Black | Red

text \<open>
  The memory the tree functions touch: each field of \<^verbatim>\<open>struct rbtree_elem\<close> is
  a map from addresses, so that \<open>left s p\<close> is \<^verbatim>\<open>p->left\<close>; \<open>root\<close>
  is the \<^verbatim>\<open>root\<close> field of the \<^verbatim>\<open>struct rbtree\<close> the function
  is given.
\<close>

record rbstate =
  left :: "ptr \<Rightarrow> ptr"
  right :: "ptr \<Rightarrow> ptr"
  parent :: "ptr \<Rightarrow> ptr"
  color :: "ptr \<Rightarrow> color"
  root :: ptr

type_synonym less_func = "ptr \<Rightarrow> ptr \<Rightarrow> bool"

definition set_left :: "ptr \<Rightarrow> ptr \<Rightarrow> rbstate \<Rightarrow> rbstate" where
  "set_left p v s = s\<lparr>left := (left s)(p := v)\<rparr>"

definition set_right :: "ptr \<Rightarrow> ptr \<Rightarrow> rbstate \<Rightarrow> rbstate" where
  "set_right p v s = s\<lparr>right := (right s)(p := v)\<rparr>"

definition set_parent :: "ptr \<Rightarrow> ptr \<Rightarrow> rbstate \<Rightarrow> rbstate" where
  "set_parent p v s = s\<lparr>parent := (parent s)(p := v)\<rparr>"

definition set_color :: "ptr \<Rightarrow> color \<Rightarrow> rbstate \<Rightarrow> rbstate" where
  "set_color p v s = s\<lparr>color := (color s)(p := v)\<rparr>"

lemmas set_defs = set_left_def set_right_def set_parent_def set_color_def

definition rbtree_init :: "rbstate \<Rightarrow> rbstate" where
  "rbtree_init s =
     (let s = set_color nil Black s;
          s = set_parent nil nil s;
          s = set_right nil nil s;
          s = set_left nil nil s
      in s\<lparr>root := nil\<rparr>)"

section \<open>Rotations\<close>

definition leftrotate :: "ptr \<Rightarrow> rbstate \<Rightarrow> rbstate" where
  "leftrotate node s =
     (let rchild = right s node;
          prnt = parent s node;
          s = set_right node (left s rchild) s;
          s = (if left s rchild \<noteq> nil then set_parent (left s rchild) node s else s);
          s = set_parent rchild prnt s;
          s = (if prnt = nil then s\<lparr>root := rchild\<rparr>
               else if node = left s prnt then set_left prnt rchild s
               else set_right prnt rchild s);
          s = set_left rchild node s
      in set_parent node rchild s)"

definition rightrotate :: "ptr \<Rightarrow> rbstate \<Rightarrow> rbstate" where
  "rightrotate node s =
     (let lchild = left s node;
          prnt = parent s node;
          s = set_left node (right s lchild) s;
          s = (if right s lchild \<noteq> nil then set_parent (right s lchild) node s else s);
          s = set_parent lchild prnt s;
          s = (if prnt = nil then s\<lparr>root := lchild\<rparr>
               else if node = left s prnt then set_left prnt lchild s
               else set_right prnt lchild s);
          s = set_right lchild node s
      in set_parent node lchild s)"

section \<open>Insertion\<close>

text \<open>
  The rebalancing loop of \<^verbatim>\<open>rb_insert\<close>. Its \<open>rt0\<close> is the local variable
  \<^verbatim>\<open>root\<close>, which is read once before the loop and not again after a rotation has
  moved the root of the tree.
\<close>

partial_function (option) rb_insert_loop :: "ptr \<Rightarrow> ptr \<Rightarrow> rbstate \<Rightarrow> rbstate option" where
  "rb_insert_loop rt0 node s =
     (if node \<noteq> rt0 \<and> color s (parent s node) = Red then
        let prnt = parent s node in
        if prnt = left s (parent s prnt) then
          let uncle = right s (parent s prnt) in
          if uncle \<noteq> nil \<and> color s uncle = Red then
            let s = set_color prnt Black s;
                s = set_color uncle Black s;
                s = set_color (parent s prnt) Red s
            in rb_insert_loop rt0 (parent s prnt) s
          else
            let turn = (node = right s prnt);
                node = (if turn then prnt else node);
                s = (if turn then leftrotate node s else s);
                prnt = (if turn then parent s node else prnt);
                s = set_color prnt Black s;
                s = set_color (parent s prnt) Red s;
                s = rightrotate (parent s prnt) s
            in rb_insert_loop rt0 node s
        else
          let uncle = left s (parent s prnt) in
          if uncle \<noteq> nil \<and> color s uncle = Red then
            let s = set_color prnt Black s;
                s = set_color uncle Black s;
                s = set_color (parent s prnt) Red s
            in rb_insert_loop rt0 (parent s prnt) s
          else
            let turn = (node = left s prnt);
                node = (if turn then prnt else node);
                s = (if turn then rightrotate node s else s);
                prnt = (if turn then parent s node else prnt);
                s = set_color prnt Black s;
                s = set_color (parent s prnt) Red s;
                s = leftrotate (parent s prnt) s
            in rb_insert_loop rt0 node s
      else Some s)"

definition rb_insert :: "ptr \<Rightarrow> rbstate \<Rightarrow> rbstate option" where
  "rb_insert node s =
     (let rt0 = root s;
          s = set_color node Red s
      in map_option (\<lambda>s. set_color (root s) Black s) (rb_insert_loop rt0 node s))"

text \<open>The descent of \<^verbatim>\<open>node_insert\<close>: the node is hung below the leaf it reaches.\<close>

partial_function (option) node_insert_loop ::
  "less_func \<Rightarrow> ptr \<Rightarrow> ptr \<Rightarrow> rbstate \<Rightarrow> rbstate option" where
  "node_insert_loop lt new_node r s =
     (if lt r new_node then
        if right s r = nil then Some (set_parent new_node r (set_right r new_node s))
        else node_insert_loop lt new_node (right s r) s
      else
        if left s r = nil then Some (set_parent new_node r (set_left r new_node s))
        else node_insert_loop lt new_node (left s r) s)"

definition node_insert :: "less_func \<Rightarrow> ptr \<Rightarrow> rbstate \<Rightarrow> rbstate option" where
  "node_insert lt new_node s =
     (case (if root s = nil then Some (s\<lparr>root := new_node\<rparr>)
            else node_insert_loop lt new_node (root s) s) of
        None \<Rightarrow> None
      | Some s \<Rightarrow> rb_insert new_node s)"

definition rbtree_insert :: "less_func \<Rightarrow> ptr \<Rightarrow> rbstate \<Rightarrow> rbstate option" where
  "rbtree_insert lt elem s =
     (let s = set_parent elem nil s;
          s = set_right elem nil s;
          s = set_left elem nil s;
          s = set_color elem Red s
      in node_insert lt elem s)"

section \<open>Traversal\<close>

partial_function (option) maximum :: "rbstate \<Rightarrow> ptr \<Rightarrow> ptr option" where
  "maximum s r = (if right s r \<noteq> nil then maximum s (right s r) else Some r)"

partial_function (option) minimum :: "rbstate \<Rightarrow> ptr \<Rightarrow> ptr option" where
  "minimum s r = (if left s r \<noteq> nil then minimum s (left s r) else Some r)"

partial_function (option) successor_up :: "rbstate \<Rightarrow> ptr \<Rightarrow> ptr \<Rightarrow> ptr option" where
  "successor_up s node prnt =
     (if prnt \<noteq> nil \<and> node = right s prnt then successor_up s prnt (parent s prnt) else Some prnt)"

definition successor :: "rbstate \<Rightarrow> ptr \<Rightarrow> ptr option" where
  "successor s node =
     (if right s node \<noteq> nil then minimum s (right s node) else successor_up s node (parent s node))"

partial_function (option) predecessor_up :: "rbstate \<Rightarrow> ptr \<Rightarrow> ptr \<Rightarrow> ptr option" where
  "predecessor_up s node prnt =
     (if prnt \<noteq> nil \<and> node = left s prnt then predecessor_up s prnt (parent s prnt) else Some prnt)"

definition predecessor :: "rbstate \<Rightarrow> ptr \<Rightarrow> ptr option" where
  "predecessor s node =
     (if left s node \<noteq> nil then maximum s (left s node) else predecessor_up s node (parent s node))"

text \<open>
  The exported iterators turn the sentinel into \<^verbatim>\<open>NULL\<close>. The outer option is
  termination, the inner one is the pointer that is returned.
\<close>

definition null_if_nil :: "ptr \<Rightarrow> ptr option" where
  "null_if_nil p = (if p = nil then None else Some p)"

definition rbtree_begin :: "rbstate \<Rightarrow> ptr option option" where
  "rbtree_begin s = map_option null_if_nil (minimum s (root s))"

definition rbtree_rbegin :: "rbstate \<Rightarrow> ptr option option" where
  "rbtree_rbegin s = map_option null_if_nil (maximum s (root s))"

definition rbtree_next :: "rbstate \<Rightarrow> ptr \<Rightarrow> ptr option option" where
  "rbtree_next s elem = map_option null_if_nil (successor s elem)"

definition rbtree_prev :: "rbstate \<Rightarrow> ptr \<Rightarrow> ptr option option" where
  "rbtree_prev s elem = map_option null_if_nil (predecessor s elem)"

definition rbtree_end :: "rbstate \<Rightarrow> ptr option" where
  "rbtree_end s = None"

definition rbtree_rend :: "rbstate \<Rightarrow> ptr option" where
  "rbtree_rend s = None"

partial_function (option) height :: "rbstate \<Rightarrow> ptr \<Rightarrow> nat option" where
  "height s r =
     (if r = nil then Some 0
      else Option.bind (height s (left s r)) (\<lambda>hl.
           Option.bind (height s (right s r)) (\<lambda>hr. Some (max hl hr + 1))))"

definition rbtree_height :: "rbstate \<Rightarrow> nat option" where
  "rbtree_height s = height s (root s)"

text \<open>The traversal calls \<^verbatim>\<open>print\<close> on the nodes in this order.\<close>

partial_function (option) inorder_calls :: "rbstate \<Rightarrow> ptr \<Rightarrow> ptr list option" where
  "inorder_calls s r =
     (if r = nil then Some []
      else Option.bind (inorder_calls s (left s r)) (\<lambda>xs.
           Option.bind (inorder_calls s (right s r)) (\<lambda>ys. Some (xs @ r # ys))))"

definition rbtree_inorder :: "rbstate \<Rightarrow> ptr list option" where
  "rbtree_inorder s = inorder_calls s (root s)"

section \<open>Search\<close>

partial_function (option) find_first_equal_entry ::
  "less_func \<Rightarrow> ptr \<Rightarrow> ptr \<Rightarrow> rbstate \<Rightarrow> ptr option" where
  "find_first_equal_entry lt elem r s =
     (case predecessor s r of
        None \<Rightarrow> None
      | Some pred \<Rightarrow>
          if pred = nil \<or> lt pred elem then Some r
          else find_first_equal_entry lt elem pred s)"

partial_function (option) rbtree_find_loop ::
  "less_func \<Rightarrow> ptr \<Rightarrow> ptr \<Rightarrow> rbstate \<Rightarrow> ptr option option" where
  "rbtree_find_loop lt elem r s =
     (if r \<noteq> nil then
        if lt r elem then rbtree_find_loop lt elem (right s r) s
        else if lt elem r then rbtree_find_loop lt elem (left s r) s
        else map_option Some (find_first_equal_entry lt elem r s)
      else Some None)"

definition rbtree_find :: "less_func \<Rightarrow> ptr \<Rightarrow> rbstate \<Rightarrow> ptr option option" where
  "rbtree_find lt elem s = rbtree_find_loop lt elem (root s) s"

partial_function (option) rbtree_find_first_loop ::
  "less_func \<Rightarrow> ptr \<Rightarrow> ptr \<Rightarrow> ptr option \<Rightarrow> rbstate \<Rightarrow> ptr option option" where
  "rbtree_find_first_loop lt elem r ret s =
     (if r \<noteq> nil then
        if lt r elem then rbtree_find_first_loop lt elem (right s r) ret s
        else if lt elem r then rbtree_find_first_loop lt elem (left s r) (Some r) s
        else map_option Some (find_first_equal_entry lt elem r s)
      else Some ret)"

definition rbtree_find_first :: "less_func \<Rightarrow> ptr \<Rightarrow> rbstate \<Rightarrow> ptr option option" where
  "rbtree_find_first lt elem s =
     rbtree_find_first_loop lt elem (root s) (rbtree_end s) s"

section \<open>Deletion\<close>

text \<open>
  The loop of \<^verbatim>\<open>rb_delete_fixup\<close>, with its local variables \<^verbatim>\<open>root\<close>
  (\<open>rt0\<close>, read once), \<^verbatim>\<open>node\<close> and \<^verbatim>\<open>parent\<close>. The result is
  the node the loop ends at, which the caller colours black.
\<close>

partial_function (option) rb_delete_fixup_loop ::
  "ptr \<Rightarrow> ptr \<Rightarrow> ptr \<Rightarrow> rbstate \<Rightarrow> (ptr \<times> rbstate) option" where
  "rb_delete_fixup_loop rt0 node prnt s =
     (if node \<noteq> rt0 \<and> color s node = Black then
        if node = left s prnt then
          let sibling = right s prnt;
              redsib = (color s sibling = Red);
              s = (if redsib then leftrotate prnt (set_color prnt Red (set_color sibling Black s))
                   else s);
              prnt = (if redsib then parent s node else prnt);
              sibling = (if redsib then right s prnt else sibling)
          in if color s (left s sibling) = Black \<and> color s (right s sibling) = Black then
               let s = set_color sibling Red s
               in rb_delete_fixup_loop rt0 prnt (parent s prnt) s
             else
               let outer = (color s (right s sibling) = Black);
                   s = (if outer then rightrotate sibling (set_color sibling Red
                          (set_color (left s sibling) Black s)) else s);
                   prnt = (if outer then parent s node else prnt);
                   sibling = (if outer then right s prnt else sibling);
                   s = set_color sibling (color s prnt) s;
                   s = set_color prnt Black s;
                   s = set_color (right s sibling) Black s;
                   s = leftrotate prnt s
               in rb_delete_fixup_loop rt0 rt0 prnt s
        else
          let sibling = left s prnt;
              redsib = (color s sibling = Red);
              s = (if redsib then rightrotate prnt (set_color prnt Red (set_color sibling Black s))
                   else s);
              prnt = (if redsib then parent s node else prnt);
              sibling = (if redsib then left s prnt else sibling)
          in if color s (left s sibling) = Black \<and> color s (right s sibling) = Black then
               let s = set_color sibling Red s
               in rb_delete_fixup_loop rt0 prnt (parent s prnt) s
             else
               let outer = (color s (left s sibling) = Black);
                   s = (if outer then leftrotate sibling (set_color sibling Red
                          (set_color (right s sibling) Black s)) else s);
                   prnt = (if outer then parent s node else prnt);
                   sibling = (if outer then left s prnt else sibling);
                   s = set_color sibling (color s prnt) s;
                   s = set_color prnt Black s;
                   s = set_color (left s sibling) Black s;
                   s = rightrotate prnt s
               in rb_delete_fixup_loop rt0 rt0 prnt s
      else Some (node, s))"

definition rb_delete_fixup :: "ptr \<Rightarrow> rbstate \<Rightarrow> rbstate option" where
  "rb_delete_fixup node s =
     map_option (\<lambda>(n, s). set_color n Black s)
       (rb_delete_fixup_loop (root s) node (parent s node) s)"

text \<open>\<^verbatim>\<open>rbtree_elem_replace\<close>: \<open>b\<close> takes the place of \<open>a\<close> in the tree.\<close>

definition rbtree_elem_replace :: "ptr \<Rightarrow> ptr \<Rightarrow> rbstate \<Rightarrow> rbstate" where
  "rbtree_elem_replace b a s =
     (let s = set_left b (left s a) s;
          s = set_right b (right s a) s;
          s = set_parent b (parent s a) s;
          s = set_color b (color s a) s;
          s = (if parent s a \<noteq> nil \<and> left s (parent s a) = a then set_left (parent s b) b s else s);
          s = (if parent s a \<noteq> nil \<and> right s (parent s a) = a then set_right (parent s b) b s else s);
          s = (if left s a \<noteq> nil then set_parent (left s b) b s else s);
          s = (if right s a \<noteq> nil then set_parent (right s b) b s else s)
      in if root s = a then s\<lparr>root := b\<rparr> else s)"

definition node_delete :: "ptr \<Rightarrow> rbstate \<Rightarrow> rbstate option" where
  "node_delete node s =
     (case (if left s node = nil \<or> right s node = nil then Some node else successor s node) of
        None \<Rightarrow> None
      | Some delnode \<Rightarrow>
          let child_delnode = (if left s delnode \<noteq> nil then left s delnode else right s delnode);
              prnt = parent s delnode;
              s = set_parent child_delnode prnt s;
              s = (if prnt = nil then s\<lparr>root := child_delnode\<rparr>
                   else if delnode = left s prnt then set_left prnt child_delnode s
                   else set_right prnt child_delnode s)
          in case (if color s delnode = Black then rb_delete_fixup child_delnode s else Some s) of
               None \<Rightarrow> None
             | Some s \<Rightarrow>
                 if delnode \<noteq> node then
                   let s = rbtree_elem_replace delnode node s;
                       s = set_right node nil s;
                       s = set_left node nil s;
                       s = set_parent node nil s
                   in Some s
                 else Some s)"

definition rbtree_delete :: "ptr \<Rightarrow> rbstate \<Rightarrow> rbstate option" where
  "rbtree_delete elem s = node_delete elem s"

end
