(* ===== verification/Rbtree_Shape.thy ===== *)
theory Rbtree_Shape
  imports Rbtree
begin

text \<open>
  The functional reading of the red-black tree: trees labelled with the addresses of their
  nodes, contexts (a path from a position up to the root), the rebalancing of insertion and
  deletion as recursion up a context, and the red-black invariants these keep. Nothing here
  mentions the heap; \<^theory_text>\<open>Rbtree_Insert\<close> and
  \<^theory_text>\<open>Rbtree_Delete\<close> show that the pointer code computes these functions.
\<close>

section \<open>Trees and contexts\<close>

datatype ptree = Tip | Br ptree ptr color ptree

fun inorder :: "ptree \<Rightarrow> ptr list" where
  "inorder Tip = []"
| "inorder (Br l p c r) = inorder l @ p # inorder r"

fun rootp :: "ptree \<Rightarrow> ptr" where
  "rootp Tip = nil"
| "rootp (Br l p c r) = p"

fun color_of :: "ptree \<Rightarrow> color" where
  "color_of Tip = Black"
| "color_of (Br l p c r) = c"

fun paint :: "color \<Rightarrow> ptree \<Rightarrow> ptree" where
  "paint c Tip = Tip"
| "paint c (Br l p _ r) = Br l p c r"

text \<open>
  A frame is a node with one subtree, the other being the hole: \<open>LF p c r\<close> when the hole
  is its left child, \<open>RF l p c\<close> when it is its right child. A context lists the frames from
  the hole up to the root.
\<close>

datatype frame = LF ptr color ptree | RF ptree ptr color

fun frame_ptr :: "frame \<Rightarrow> ptr" where
  "frame_ptr (LF p c r) = p"
| "frame_ptr (RF l p c) = p"

fun frame_col :: "frame \<Rightarrow> color" where
  "frame_col (LF p c r) = c"
| "frame_col (RF l p c) = c"

fun plug :: "frame list \<Rightarrow> ptree \<Rightarrow> ptree" where
  "plug [] t = t"
| "plug (LF p c r # k) t = plug k (Br t p c r)"
| "plug (RF l p c # k) t = plug k (Br l p c t)"

fun cpar :: "frame list \<Rightarrow> ptr" where
  "cpar [] = nil"
| "cpar (f # k) = frame_ptr f"

fun cpre :: "frame list \<Rightarrow> ptr list" where
  "cpre [] = []"
| "cpre (LF p c r # k) = cpre k"
| "cpre (RF l p c # k) = cpre k @ inorder l @ [p]"

fun cpost :: "frame list \<Rightarrow> ptr list" where
  "cpost [] = []"
| "cpost (LF p c r # k) = p # inorder r @ cpost k"
| "cpost (RF l p c # k) = cpost k"

lemma inorder_plug [simp]: "inorder (plug k t) = cpre k @ inorder t @ cpost k"
  by (induction k t rule: plug.induct) auto

lemma inorder_paint [simp]: "inorder (paint c t) = inorder t"
  by (cases t) auto

lemma rootp_paint [simp]: "rootp (paint c t) = rootp t"
  by (cases t) auto

lemma paint_idem [simp]: "paint c (paint d t) = paint c t"
  by (cases t) auto

lemma paint_same: "color_of t = c \<Longrightarrow> paint c t = t"
  by (cases t) auto

lemma color_of_paint_Black [simp]: "color_of (paint Black t) = Black"
  by (cases t) auto

lemma not_Black [simp]: "c \<noteq> Black \<longleftrightarrow> c = Red"
  by (cases c) auto

lemma not_Red [simp]: "c \<noteq> Red \<longleftrightarrow> c = Black"
  by (cases c) auto

lemma plug_snoc: "plug (k @ [f]) t = plug [f] (plug k t)"
  by (induction k t rule: plug.induct) auto

lemma focus_ex: "x \<in> set (inorder t) \<Longrightarrow> \<exists>k a c b. plug k (Br a x c b) = t"
proof (induction t)
  case (Br l p c r)
  consider "x = p" | "x \<in> set (inorder l)" | "x \<in> set (inorder r)" using Br.prems by auto
  then show ?case
  proof cases
    case 1
    then show ?thesis by (intro exI [of _ "[]"]) auto
  next
    case 2
    with Br.IH obtain k a c' b where "plug k (Br a x c' b) = l" by blast
    then have "plug (k @ [LF p c r]) (Br a x c' b) = Br l p c r" by (simp add: plug_snoc)
    then show ?thesis by blast
  next
    case 3
    with Br.IH obtain k a c' b where "plug k (Br a x c' b) = r" by blast
    then have "plug (k @ [RF l p c]) (Br a x c' b) = Br l p c r" by (simp add: plug_snoc)
    then show ?thesis by blast
  qed
qed simp

text \<open>
  The bottom frame of a context is the root node; the root of a red-black tree is black.
\<close>

definition top_black :: "frame list \<Rightarrow> bool" where
  "top_black k \<longleftrightarrow> k = [] \<or> frame_col (last k) = Black"

lemma top_black_simps [simp]:
  "top_black []"
  "top_black [f] \<longleftrightarrow> frame_col f = Black"
  "top_black (f # g # k) \<longleftrightarrow> top_black (g # k)"
  by (auto simp: top_black_def)

lemma top_black_tail: "top_black (f # k) \<Longrightarrow> top_black k"
  by (cases k) auto

lemma color_of_plug: "k \<noteq> [] \<Longrightarrow> color_of (plug k t) = frame_col (last k)"
proof (induction k arbitrary: t)
  case (Cons f k)
  then show ?case by (cases f; cases k) auto
qed simp

section \<open>The red-black invariants\<close>

text \<open>Black height counted on the left, equal black heights, no red node with a red child.\<close>

fun bh :: "ptree \<Rightarrow> nat" where
  "bh Tip = 0"
| "bh (Br l p c r) = bh l + (if c = Black then 1 else 0)"

fun invh :: "ptree \<Rightarrow> bool" where
  "invh Tip = True"
| "invh (Br l p c r) \<longleftrightarrow> bh l = bh r \<and> invh l \<and> invh r"

fun invc :: "ptree \<Rightarrow> bool" where
  "invc Tip = True"
| "invc (Br l p c r) \<longleftrightarrow>
     (c = Red \<longrightarrow> color_of l = Black \<and> color_of r = Black) \<and> invc l \<and> invc r"

definition rb_inv :: "ptree \<Rightarrow> bool" where
  "rb_inv t \<longleftrightarrow> invh t \<and> invc t \<and> color_of t = Black"

text \<open>The same invariants for a context: what it requires of the subtree in its hole.\<close>

fun cinvh :: "frame list \<Rightarrow> nat \<Rightarrow> bool" where
  "cinvh [] n = True"
| "cinvh (LF p c r # k) n \<longleftrightarrow> bh r = n \<and> invh r \<and> cinvh k (n + (if c = Black then 1 else 0))"
| "cinvh (RF l p c # k) n \<longleftrightarrow> bh l = n \<and> invh l \<and> cinvh k (n + (if c = Black then 1 else 0))"

fun cinvc :: "frame list \<Rightarrow> color \<Rightarrow> bool" where
  "cinvc [] d = True"
| "cinvc (LF p c r # k) d \<longleftrightarrow>
     (c = Red \<longrightarrow> d = Black \<and> color_of r = Black) \<and> invc r \<and> cinvc k c"
| "cinvc (RF l p c # k) d \<longleftrightarrow>
     (c = Red \<longrightarrow> d = Black \<and> color_of l = Black) \<and> invc l \<and> cinvc k c"

lemma invh_plug: "invh (plug k t) \<longleftrightarrow> invh t \<and> cinvh k (bh t)"
  by (induction k t rule: plug.induct) auto

lemma invc_plug: "invc (plug k t) \<longleftrightarrow> invc t \<and> cinvc k (color_of t)"
  by (induction k t rule: plug.induct) auto

lemma cinvc_Black: "cinvc k d \<Longrightarrow> cinvc k Black"
  by (cases "(k, d)" rule: cinvc.cases) auto

lemma invh_paint [simp]: "invh (paint c t) = invh t"
  by (cases t) auto

lemma invc_paint_Black: "invc t \<Longrightarrow> invc (paint Black t)"
  by (cases t) auto

lemma bh_paint_Black: "color_of t = Red \<Longrightarrow> bh (paint Black t) = Suc (bh t)"
  by (cases t) auto

lemma rb_inv_top_black: "rb_inv (plug k t) \<Longrightarrow> top_black k"
  by (cases "k = []") (simp_all add: rb_inv_def top_black_def color_of_plug)

text \<open>Height and size: a red-black tree with \<open>n\<close> nodes is at most \<open>2 log (n + 1)\<close> high.\<close>

fun theight :: "ptree \<Rightarrow> nat" where
  "theight Tip = 0"
| "theight (Br l p c r) = max (theight l) (theight r) + 1"

lemma theight_bh:
  "invh t \<Longrightarrow> invc t \<Longrightarrow> theight t \<le> 2 * bh t + (if color_of t = Red then 1 else 0)"
  by (induction t) (auto split: if_splits)

lemma bh_size: "invh t \<Longrightarrow> 2 ^ bh t \<le> length (inorder t) + 1"
  by (induction t) auto

section \<open>Insertion\<close>

text \<open>
  The path to the leaf position where a node is hung: right at the nodes that satisfy \<open>P\<close>
  (those less than the new one), left at the others.
\<close>

fun descend :: "(ptr \<Rightarrow> bool) \<Rightarrow> ptree \<Rightarrow> frame list \<Rightarrow> frame list" where
  "descend P Tip k = k"
| "descend P (Br l p c r) k =
     (if P p then descend P r (RF l p c # k) else descend P l (LF p c r # k))"

lemma plug_descend: "plug (descend P t k) Tip = plug k t"
  by (induction t arbitrary: k) auto

lemma descend_inorder:
  "down_closed P (inorder t) \<Longrightarrow>
     cpre (descend P t k) = cpre k @ takeWhile P (inorder t) \<and>
     cpost (descend P t k) = dropWhile P (inorder t) @ cpost k"
  by (induction t arbitrary: k)
    (auto simp: takeWhile_all dropWhile_all takeWhile_none dropWhile_none)

text \<open>The rebalancing loop of insertion, up from a red node.\<close>

fun ins_fix :: "frame list \<Rightarrow> ptree \<Rightarrow> ptree" where
  "ins_fix (LF p Red r # LF g c u # k) t =
     (if color_of u = Red then ins_fix k (Br (Br t p Black r) g Red (paint Black u))
      else plug k (Br t p Black (Br r g Red u)))"
| "ins_fix (RF l p Red # LF g c u # k) (Br a x d b) =
     (if color_of u = Red then ins_fix k (Br (Br l p Black (Br a x d b)) g Red (paint Black u))
      else plug k (Br (Br l p Red a) x Black (Br b g Red u)))"
| "ins_fix (RF l p Red # RF u g c # k) t =
     (if color_of u = Red then ins_fix k (Br (paint Black u) g Red (Br l p Black t))
      else plug k (Br (Br u g Red l) p Black t))"
| "ins_fix (LF p Red r # RF u g c # k) (Br a x d b) =
     (if color_of u = Red then ins_fix k (Br (paint Black u) g Red (Br (Br a x d b) p Black r))
      else plug k (Br (Br u g Red a) x Black (Br b p Red r)))"
| "ins_fix k t = plug k t"

lemma inorder_ins_fix: "inorder (ins_fix k t) = cpre k @ inorder t @ cpost k"
  by (induction k t rule: ins_fix.induct) auto

lemma invh_ins_fix:
  "invh t \<Longrightarrow> cinvh k (bh t) \<Longrightarrow> color_of t = Red \<Longrightarrow> cinvc k Black \<Longrightarrow> invh (ins_fix k t)"
  by (induction k t rule: ins_fix.induct) (auto simp: invh_plug bh_paint_Black)

lemma invc_plug_black_root:
  "frame_col f = Black \<Longrightarrow> invc t \<Longrightarrow> cinvc [f] Black \<Longrightarrow> invc (paint Black (plug [f] t))"
  by (cases f) auto

lemma invc_ins_fix:
  "invc t \<Longrightarrow> color_of t = Red \<Longrightarrow> cinvc k Black \<Longrightarrow> top_black k \<Longrightarrow>
     invc (paint Black (ins_fix k t))"
  by (induction k t rule: ins_fix.induct)
    (auto simp: invc_plug invc_paint_Black invc_plug_black_root dest: top_black_tail)

text \<open>
  Insertion as a function: hang the node as a red leaf, rebalance, colour the root black.
\<close>

definition ins_at :: "(ptr \<Rightarrow> bool) \<Rightarrow> ptr \<Rightarrow> ptree \<Rightarrow> ptree" where
  "ins_at P x t = paint Black (ins_fix (descend P t []) (Br Tip x Red Tip))"

lemma inorder_ins_at:
  "down_closed P (inorder t) \<Longrightarrow>
     inorder (ins_at P x t) = takeWhile P (inorder t) @ x # dropWhile P (inorder t)"
  by (simp add: ins_at_def inorder_ins_fix descend_inorder)

lemma rb_inv_ins_at:
  assumes "rb_inv t"
  shows "rb_inv (ins_at P x t)"
proof -
  let ?k = "descend P t []"
  have p: "plug ?k Tip = t" by (simp add: plug_descend)
  have "cinvh ?k 0" "cinvc ?k Black"
    using assms invh_plug [of ?k Tip] invc_plug [of ?k Tip] by (simp_all add: p rb_inv_def)
  moreover have "top_black ?k"
    using assms rb_inv_top_black [of ?k Tip] by (simp add: p)
  ultimately show ?thesis
    by (simp add: rb_inv_def ins_at_def invh_ins_fix invc_ins_fix)
qed

section \<open>Deletion\<close>

text \<open>
  One round of the deletion loop with a black sibling \<open>s\<close>: \<open>Inl\<close> when the missing
  black node moves up to the parent, \<open>Inr\<close> when the subtree is repaired.
\<close>

fun redist_l :: "ptr \<Rightarrow> color \<Rightarrow> ptree \<Rightarrow> ptree \<Rightarrow> ptree + ptree" where
  "redist_l p c t (Br sl q d sr) =
     (if color_of sl = Black \<and> color_of sr = Black then Inl (Br t p c (Br sl q Red sr))
      else if color_of sr = Black then
        (case sl of Br a x e b \<Rightarrow> Inr (Br (Br t p Black a) x c (Br b q Black sr))
         | Tip \<Rightarrow> Inr Tip)
      else Inr (Br (Br t p Black sl) q c (paint Black sr)))"
| "redist_l p c t Tip = Inr (Br t p c Tip)"

fun redist_r :: "ptr \<Rightarrow> color \<Rightarrow> ptree \<Rightarrow> ptree \<Rightarrow> ptree + ptree" where
  "redist_r p c (Br sl q d sr) t =
     (if color_of sl = Black \<and> color_of sr = Black then Inl (Br (Br sl q Red sr) p c t)
      else if color_of sl = Black then
        (case sr of Br a x e b \<Rightarrow> Inr (Br (Br sl q Black a) x c (Br b p Black t))
         | Tip \<Rightarrow> Inr Tip)
      else Inr (Br (paint Black sl) q c (Br sr p Black t)))"
| "redist_r p c Tip t = Inr (Br Tip p c t)"

text \<open>
  The whole loop and the final colouring. A red sibling is rotated above the parent first;
  the parent is then red, so the loop ends in that round or in the next test.
\<close>

fun del_fix :: "frame list \<Rightarrow> ptree \<Rightarrow> ptree" where
  "del_fix [] t = paint Black t"
| "del_fix (LF p c s # k) t =
     (if color_of t = Red then plug (LF p c s # k) (paint Black t)
      else case s of
        Br sl q Red sr \<Rightarrow>
          (case redist_l p Red t sl of
             Inl u \<Rightarrow> plug (LF q Black sr # k) (paint Black u)
           | Inr u \<Rightarrow> plug (LF q Black sr # k) u)
      | _ \<Rightarrow> (case redist_l p c t s of Inl u \<Rightarrow> del_fix k u | Inr u \<Rightarrow> plug k u))"
| "del_fix (RF s p c # k) t =
     (if color_of t = Red then plug (RF s p c # k) (paint Black t)
      else case s of
        Br sl q Red sr \<Rightarrow>
          (case redist_r p Red sr t of
             Inl u \<Rightarrow> plug (RF sl q Black # k) (paint Black u)
           | Inr u \<Rightarrow> plug (RF sl q Black # k) u)
      | _ \<Rightarrow> (case redist_r p c s t of Inl u \<Rightarrow> del_fix k u | Inr u \<Rightarrow> plug k u))"

text \<open>Both redistributions keep the nodes in order and restore the invariants.\<close>

lemma redist_l_props:
  assumes "invc s" and "color_of s = Black" and "invh s" and "bh s = Suc (bh t)"
    and "invh t" and "invc t" and "color_of t = Black"
  shows "case redist_l p c t s of
      Inl u \<Rightarrow> inorder u = inorder t @ p # inorder s \<and> invh u \<and> invc (paint Black u) \<and>
        color_of u = c \<and> bh u = bh t + (if c = Black then 1 else 0)
    | Inr u \<Rightarrow> inorder u = inorder t @ p # inorder s \<and> invh u \<and> invc u \<and>
        color_of u = c \<and> bh u = Suc (bh t) + (if c = Black then 1 else 0)"
  using assms
  by (cases "(p, c, t, s)" rule: redist_l.cases)
    (auto simp: invc_paint_Black bh_paint_Black paint_same split: ptree.splits)

lemma redist_r_props:
  assumes "invc s" and "color_of s = Black" and "invh s" and "bh s = Suc (bh t)"
    and "invh t" and "invc t" and "color_of t = Black"
  shows "case redist_r p c s t of
      Inl u \<Rightarrow> inorder u = inorder s @ p # inorder t \<and> invh u \<and> invc (paint Black u) \<and>
        color_of u = c \<and> bh u = bh t + (if c = Black then 1 else 0)
    | Inr u \<Rightarrow> inorder u = inorder s @ p # inorder t \<and> invh u \<and> invc u \<and>
        color_of u = c \<and> bh u = Suc (bh t) + (if c = Black then 1 else 0)"
  using assms
  by (cases "(p, c, s, t)" rule: redist_r.cases)
    (auto simp: invc_paint_Black bh_paint_Black paint_same split: ptree.splits)

text \<open>
  A subtree in the hole lacks one black level: \<open>hole_ok k t\<close> is what holds at the head of
  the deletion loop.
\<close>

definition hole_ok :: "frame list \<Rightarrow> ptree \<Rightarrow> bool" where
  "hole_ok k t \<longleftrightarrow> invh t \<and> invc (paint Black t) \<and> cinvh k (Suc (bh t)) \<and> cinvc k Black \<and> top_black k"

lemma invc_of_paint_Black: "invc (paint Black t) \<Longrightarrow> color_of t = Black \<Longrightarrow> invc t"
  by (cases t) auto

lemma rb_inv_plug:
  "invh t \<Longrightarrow> invc t \<Longrightarrow> cinvh k (bh t) \<Longrightarrow> cinvc k (color_of t) \<Longrightarrow> top_black k \<Longrightarrow>
     (k = [] \<Longrightarrow> color_of t = Black) \<Longrightarrow> rb_inv (plug k t)"
  by (cases "k = []") (auto simp: rb_inv_def invh_plug invc_plug color_of_plug top_black_def)

lemma rb_inv_hole_Red:
  assumes "hole_ok k t" and "color_of t = Red"
  shows "rb_inv (plug k (paint Black t))"
  by (rule rb_inv_plug) (use assms in \<open>auto simp: hole_ok_def bh_paint_Black\<close>)

lemma redist_l_step:
  assumes "hole_ok (LF p c s # k) t" and "color_of t = Black" and "color_of s = Black"
  shows "case redist_l p c t s of
      Inl u \<Rightarrow> inorder u = inorder t @ p # inorder s \<and> hole_ok k u \<and> color_of u = c
    | Inr u \<Rightarrow> inorder u = inorder t @ p # inorder s \<and> rb_inv (plug k u)"
proof -
  have *: "cinvh k (Suc (bh t) + (if c = Black then 1 else 0))" "cinvc k c" "top_black k"
    "k = [] \<Longrightarrow> c = Black"
    using assms by (auto simp: hole_ok_def dest: top_black_tail)
  have "bh s = Suc (bh t)" "invh s" "invc s" "invh t" "invc t"
    using assms by (auto simp: hole_ok_def invc_of_paint_Black)
  from redist_l_props [OF \<open>invc s\<close> assms(3) \<open>invh s\<close> \<open>bh s = Suc (bh t)\<close> \<open>invh t\<close> \<open>invc t\<close> assms(2),
      of p c]
  show ?thesis using *
    by (auto simp: hole_ok_def cinvc_Black intro!: rb_inv_plug split: sum.splits if_splits)
qed

lemma redist_r_step:
  assumes "hole_ok (RF s p c # k) t" and "color_of t = Black" and "color_of s = Black"
  shows "case redist_r p c s t of
      Inl u \<Rightarrow> inorder u = inorder s @ p # inorder t \<and> hole_ok k u \<and> color_of u = c
    | Inr u \<Rightarrow> inorder u = inorder s @ p # inorder t \<and> rb_inv (plug k u)"
proof -
  have *: "cinvh k (Suc (bh t) + (if c = Black then 1 else 0))" "cinvc k c" "top_black k"
    "k = [] \<Longrightarrow> c = Black"
    using assms by (auto simp: hole_ok_def dest: top_black_tail)
  have "bh s = Suc (bh t)" "invh s" "invc s" "invh t" "invc t"
    using assms by (auto simp: hole_ok_def invc_of_paint_Black)
  from redist_r_props [OF \<open>invc s\<close> assms(3) \<open>invh s\<close> \<open>bh s = Suc (bh t)\<close> \<open>invh t\<close> \<open>invc t\<close> assms(2),
      of p c]
  show ?thesis using *
    by (auto simp: hole_ok_def cinvc_Black intro!: rb_inv_plug split: sum.splits if_splits)
qed

text \<open>
  With a red sibling \<open>Br sl q Red sr\<close>, the hole after the first rotation sits below the red
  parent and the black \<open>q\<close>, and its new sibling is black.
\<close>

lemma hole_ok_red_sibling_l:
  assumes "hole_ok (LF p c (Br sl q Red sr) # k) t"
  shows "hole_ok (LF p Red sl # LF q Black sr # k) t" and "color_of sl = Black" and "c = Black"
  using assms by (auto simp: hole_ok_def top_black_def cinvc_Black split: if_splits)

lemma hole_ok_red_sibling_r:
  assumes "hole_ok (RF (Br sl q Red sr) p c # k) t"
  shows "hole_ok (RF sr p Red # RF sl q Black # k) t" and "color_of sr = Black" and "c = Black"
  using assms by (auto simp: hole_ok_def top_black_def cinvc_Black split: if_splits)

theorem del_fix_props:
  "hole_ok k t \<Longrightarrow> inorder (del_fix k t) = cpre k @ inorder t @ cpost k \<and> rb_inv (del_fix k t)"
proof (induction k t rule: del_fix.induct)
  case (1 t)
  then show ?case by (auto simp: hole_ok_def rb_inv_def)
next
  case (2 p c s k t)
  show ?case
  proof (cases "color_of t = Red")
    case True
    then show ?thesis using rb_inv_hole_Red [OF "2.prems"] by simp
  next
    case False
    show ?thesis
    proof (cases "color_of s")
      case Black
      have "\<exists>u. redist_l p c t s = Inl u \<or> redist_l p c t s = Inr u"
        by (cases "redist_l p c t s") auto
      with redist_l_step [OF "2.prems" _ Black] "2.IH" False Black show ?thesis
        by (auto split: ptree.splits color.splits sum.splits)
    next
      case Red
      then obtain sl q sr where s: "s = Br sl q Red sr" by (cases s) auto
      note r = hole_ok_red_sibling_l [OF "2.prems" [unfolded s]]
      show ?thesis
        using redist_l_step [OF r(1) _ r(2)] rb_inv_hole_Red False s
        by (fastforce split: sum.splits)
    qed
  qed
next
  case (3 s p c k t)
  show ?case
  proof (cases "color_of t = Red")
    case True
    then show ?thesis using rb_inv_hole_Red [OF "3.prems"] by simp
  next
    case False
    show ?thesis
    proof (cases "color_of s")
      case Black
      have "\<exists>u. redist_r p c s t = Inl u \<or> redist_r p c s t = Inr u"
        by (cases "redist_r p c s t") auto
      with redist_r_step [OF "3.prems" _ Black] "3.IH" False Black show ?thesis
        by (auto split: ptree.splits color.splits sum.splits)
    next
      case Red
      then obtain sl q sr where s: "s = Br sl q Red sr" by (cases s) auto
      note r = hole_ok_red_sibling_r [OF "3.prems" [unfolded s]]
      show ?thesis
        using redist_r_step [OF r(1) _ r(2)] rb_inv_hole_Red False s
        by (fastforce split: sum.splits)
    qed
  qed
qed

text \<open>
  Taking a node with at most one child out of its context, and the whole deletion: a node with
  two children gives its place to the leftmost node of its right subtree, which is taken out
  instead.
\<close>

definition unlink :: "frame list \<Rightarrow> color \<Rightarrow> ptree \<Rightarrow> ptree" where
  "unlink k c child = (if c = Black then del_fix k child else plug k child)"

fun minpath :: "ptree \<Rightarrow> frame list \<Rightarrow> frame list \<times> ptr \<times> color \<times> ptree" where
  "minpath Tip k = (k, nil, Black, Tip)"
| "minpath (Br Tip p c r) k = (k, p, c, r)"
| "minpath (Br l p c r) k = minpath l (LF p c r # k)"

primrec relabel :: "ptr \<Rightarrow> ptr \<Rightarrow> ptree \<Rightarrow> ptree" where
  "relabel a b Tip = Tip"
| "relabel a b (Br l p c r) = Br (relabel a b l) (if p = a then b else p) c (relabel a b r)"

fun del_at :: "frame list \<Rightarrow> ptree \<Rightarrow> ptree" where
  "del_at k Tip = plug k Tip"
| "del_at k (Br l p c r) =
     (if l = Tip then unlink k c r
      else if r = Tip then unlink k c l
      else let (m, d, dc, dr) = minpath r (RF l p c # k) in relabel p d (unlink m dc dr))"

lemma inorder_relabel [simp]: "inorder (relabel a b t) = map (\<lambda>x. if x = a then b else x) (inorder t)"
  by (induction t) auto

lemma color_of_relabel [simp]: "color_of (relabel a b t) = color_of t"
  by (cases t) auto

lemma bh_relabel [simp]: "bh (relabel a b t) = bh t"
  by (induction t) auto

lemma rb_inv_relabel: "rb_inv t \<Longrightarrow> rb_inv (relabel a b t)"
proof -
  have "invh (relabel a b t) = invh t" by (induction t) auto
  moreover have "invc (relabel a b t) = invc t" by (induction t) auto
  ultimately show "rb_inv t \<Longrightarrow> ?thesis" by (simp add: rb_inv_def)
qed

lemma plug_minpath:
  "t \<noteq> Tip \<Longrightarrow> minpath t k = (m, d, dc, dr) \<Longrightarrow> plug m (Br Tip d dc dr) = plug k t"
  by (induction t k rule: minpath.induct) auto

lemma minpath_inorder:
  "t \<noteq> Tip \<Longrightarrow> minpath t k = (m, d, dc, dr) \<Longrightarrow>
     cpre m = cpre k \<and> d # inorder dr @ cpost m = inorder t @ cpost k"
  by (induction t k rule: minpath.induct) auto

lemma unlink_cases:
  assumes "rb_inv (plug k (Br l p c r))" and "l = Tip \<and> ch = r \<or> r = Tip \<and> ch = l"
  shows "c = Black \<Longrightarrow> hole_ok k ch" and "c = Red \<Longrightarrow> rb_inv (plug k ch)"
proof -
  have inv: "bh l = bh r" "invh l" "invh r" "invc l" "invc r" "cinvc k c"
    "cinvh k (bh l + (if c = Black then 1 else 0))"
    "c = Red \<Longrightarrow> color_of l = Black \<and> color_of r = Black"
    using assms(1) by (auto simp: rb_inv_def invh_plug invc_plug)
  have top: "top_black k" using assms(1) by (rule rb_inv_top_black)
  have "k = [] \<Longrightarrow> c = Black" using assms(1) by (auto simp: rb_inv_def)
  show "hole_ok k ch" if "c = Black"
    using inv top assms(2) that by (auto simp: hole_ok_def invc_paint_Black cinvc_Black)
  show "rb_inv (plug k ch)" if "c = Red"
    by (rule rb_inv_plug)
      (use inv top assms(2) that \<open>k = [] \<Longrightarrow> c = Black\<close> in \<open>auto simp: cinvc_Black\<close>)
qed

lemma unlink_props:
  assumes "rb_inv (plug k (Br l p c r))" and "l = Tip \<and> ch = r \<or> r = Tip \<and> ch = l"
  shows "inorder (unlink k c ch) = cpre k @ inorder ch @ cpost k \<and> rb_inv (unlink k c ch)"
  using unlink_cases [OF assms] del_fix_props [of k ch] by (cases c) (auto simp: unlink_def)

theorem del_at_props:
  assumes rb: "rb_inv (plug k (Br l p c r))" and dist: "distinct (inorder (plug k (Br l p c r)))"
  shows "inorder (del_at k (Br l p c r)) = cpre k @ inorder l @ inorder r @ cpost k"
    and "rb_inv (del_at k (Br l p c r))"
proof -
  have "inorder (del_at k (Br l p c r)) = cpre k @ inorder l @ inorder r @ cpost k \<and>
    rb_inv (del_at k (Br l p c r))"
  proof (cases "l = Tip \<or> r = Tip")
    case True
    with unlink_props [OF rb, of "if l = Tip then r else l"] show ?thesis by auto
  next
    case False
    obtain m d dc dr where m: "minpath r (RF l p c # k) = (m, d, dc, dr)"
      by (cases "minpath r (RF l p c # k)") auto
    have pl: "plug m (Br Tip d dc dr) = plug k (Br l p c r)"
      using plug_minpath [OF _ m] False by simp
    have io: "cpre m = cpre k @ inorder l @ [p]" "d # inorder dr @ cpost m = inorder r @ cpost k"
      using minpath_inorder [OF _ m] False by auto
    have "inorder (unlink m dc dr) = cpre m @ inorder dr @ cpost m" "rb_inv (unlink m dc dr)"
      using unlink_props [of m Tip d dc dr dr] rb by (simp_all add: pl)
    moreover have "map (\<lambda>x. if x = p then d else x) xs = xs" if "p \<notin> set xs" for xs
      using that by (induction xs) auto
    moreover have "p \<notin> set (cpre k)" "p \<notin> set (inorder l)" "p \<notin> set (inorder dr @ cpost m)"
      using dist io(2) by (auto simp del: append_assoc dest!: arg_cong [where f = set])
    ultimately show ?thesis using False io(1)
      by (auto simp: m rb_inv_relabel simp flip: io(2))
  qed
  then show "inorder (del_at k (Br l p c r)) = cpre k @ inorder l @ inorder r @ cpost k"
    and "rb_inv (del_at k (Br l p c r))" by auto
qed

end
