(* ===== verification/Rbtree_Repr.thy ===== *)
theory Rbtree_Repr
  imports Rbtree_Shape
begin

text \<open>
  The heap reading of a tree: what it means that the nodes of a \<open>ptree\<close>, or of a context,
  are laid out in memory with their links, parent links and colours, the frame rules for
  updates elsewhere, and the two rotations as operations on that reading.
\<close>

section \<open>Layout\<close>

fun tree_at :: "rbstate \<Rightarrow> ptr \<Rightarrow> ptree \<Rightarrow> bool" where
  "tree_at s up Tip = True"
| "tree_at s up (Br l p c r) \<longleftrightarrow>
     p \<noteq> nil \<and> left s p = rootp l \<and> right s p = rootp r \<and> parent s p = up \<and> color s p = c \<and>
     tree_at s p l \<and> tree_at s p r"

text \<open>The frames of a context; \<open>x\<close> is the pointer stored where the hole is.\<close>

fun ctx_at :: "rbstate \<Rightarrow> ptr \<Rightarrow> frame list \<Rightarrow> bool" where
  "ctx_at s x [] \<longleftrightarrow> root s = x"
| "ctx_at s x (LF p c r # k) \<longleftrightarrow>
     p \<noteq> nil \<and> left s p = x \<and> right s p = rootp r \<and> parent s p = cpar k \<and> color s p = c \<and>
     tree_at s p r \<and> ctx_at s p k"
| "ctx_at s x (RF l p c # k) \<longleftrightarrow>
     p \<noteq> nil \<and> left s p = rootp l \<and> right s p = x \<and> parent s p = cpar k \<and> color s p = c \<and>
     tree_at s p l \<and> ctx_at s p k"

fun ctx_nodes :: "frame list \<Rightarrow> ptr list" where
  "ctx_nodes [] = []"
| "ctx_nodes (LF p c r # k) = p # inorder r @ ctx_nodes k"
| "ctx_nodes (RF l p c # k) = p # inorder l @ ctx_nodes k"

text \<open>
  The sentinel is black and its child links point to itself. Its parent link is scratch space:
  deletion stores in it.
\<close>

definition nil_ok :: "rbstate \<Rightarrow> bool" where
  "nil_ok s \<longleftrightarrow> left s nil = nil \<and> right s nil = nil \<and> color s nil = Black"

text \<open>A tree with a focus: the subtree \<open>t\<close> in the context \<open>k\<close>.\<close>

definition zip_at :: "rbstate \<Rightarrow> frame list \<Rightarrow> ptree \<Rightarrow> bool" where
  "zip_at s k t \<longleftrightarrow>
     tree_at s (cpar k) t \<and> ctx_at s (rootp t) k \<and> distinct (inorder t @ ctx_nodes k) \<and> nil_ok s"

abbreviation repr :: "rbstate \<Rightarrow> ptree \<Rightarrow> bool" where
  "repr s t \<equiv> zip_at s [] t"

lemma set_ctx_nodes: "set (ctx_nodes k) = set (cpre k) \<union> set (cpost k)"
  by (induction k rule: ctx_nodes.induct) auto

lemma mset_ctx_nodes: "distinct (ctx_nodes k) \<longleftrightarrow> distinct (cpre k @ cpost k)"
  by (induction k rule: ctx_nodes.induct) (auto simp: set_ctx_nodes)

lemma distinct_zip: "distinct (inorder t @ ctx_nodes k) \<longleftrightarrow> distinct (inorder (plug k t))"
  by (auto simp: set_ctx_nodes mset_ctx_nodes)

lemma layout_plug:
  "tree_at s nil (plug k t) \<and> root s = rootp (plug k t) \<longleftrightarrow>
     tree_at s (cpar k) t \<and> ctx_at s (rootp t) k"
proof (induction k t rule: plug.induct)
  case (2 p c r k t)
  show ?case by (simp add: 2) blast
next
  case (3 l p c k t)
  show ?case by (simp add: 3) blast
qed simp

lemma zip_at_plug: "zip_at s k t \<longleftrightarrow> repr s (plug k t)"
proof -
  have r: "repr s u \<longleftrightarrow> (tree_at s nil u \<and> root s = rootp u) \<and> distinct (inorder u) \<and> nil_ok s" for u
    unfolding zip_at_def by (simp only: cpar.simps ctx_at.simps ctx_nodes.simps append_Nil2) blast
  have z: "zip_at s k t \<longleftrightarrow> (tree_at s (cpar k) t \<and> ctx_at s (rootp t) k) \<and>
      distinct (inorder t @ ctx_nodes k) \<and> nil_ok s"
    unfolding zip_at_def by blast
  show ?thesis
    unfolding z r layout_plug distinct_zip by (rule refl)
qed

lemma zip_at_move: "plug k t = plug k' t' \<Longrightarrow> zip_at s k t \<longleftrightarrow> zip_at s k' t'"
  by (simp only: zip_at_plug [of s k t] zip_at_plug [of s k' t'])

lemma zip_at_left: "zip_at s k (Br t p c r) \<longleftrightarrow> zip_at s (LF p c r # k) t"
  by (rule zip_at_move) simp

lemma zip_at_right: "zip_at s k (Br l p c t) \<longleftrightarrow> zip_at s (RF l p c # k) t"
  by (rule zip_at_move) simp

lemma tree_at_nil: "tree_at s up t \<Longrightarrow> nil \<notin> set (inorder t)"
  by (induction t arbitrary: up) auto

lemma ctx_at_nil: "ctx_at s x k \<Longrightarrow> nil \<notin> set (ctx_nodes k)"
  by (induction s x k rule: ctx_at.induct) (auto dest: tree_at_nil)

lemma rootp_in: "t \<noteq> Tip \<Longrightarrow> rootp t \<in> set (inorder t)"
  by (cases t) auto

lemma rootp_notin: "p \<notin> set (inorder t) \<Longrightarrow> p \<noteq> nil \<Longrightarrow> rootp t \<noteq> p \<and> p \<noteq> rootp t"
  by (cases t) auto

lemma rootp_nil_iff: "tree_at s up t \<Longrightarrow> rootp t = nil \<longleftrightarrow> t = Tip"
  by (cases t) auto

lemma cpar_nil_iff: "ctx_at s x k \<Longrightarrow> cpar k = nil \<longleftrightarrow> k = []"
  by (cases "(s, x, k)" rule: ctx_at.cases) auto

lemma cpar_in: "k \<noteq> [] \<Longrightarrow> cpar k \<in> set (ctx_nodes k)"
  by (cases k rule: ctx_nodes.cases) auto

lemma cpar_notin: "p \<notin> set (ctx_nodes k) \<Longrightarrow> p \<noteq> nil \<Longrightarrow> cpar k \<noteq> p \<and> p \<noteq> cpar k"
  by (cases k rule: ctx_nodes.cases) auto

section \<open>Reading after a write, and frame rules\<close>

text \<open>
  The writes stay folded: a state is a sequence of writes, a read runs back through it. These
  rules are all the symbolic execution of the pointer functions needs.
\<close>

lemma read_write [simp]:
  "left (set_left p v s) x = (if x = p then v else left s x)"
  "left (set_right p v s) = left s"
  "left (set_parent p v s) = left s"
  "left (set_color p c s) = left s"
  "right (set_left p v s) = right s"
  "right (set_right p v s) x = (if x = p then v else right s x)"
  "right (set_parent p v s) = right s"
  "right (set_color p c s) = right s"
  "parent (set_left p v s) = parent s"
  "parent (set_right p v s) = parent s"
  "parent (set_parent p v s) x = (if x = p then v else parent s x)"
  "parent (set_color p c s) = parent s"
  "color (set_left p v s) = color s"
  "color (set_right p v s) = color s"
  "color (set_parent p v s) = color s"
  "color (set_color p c s) x = (if x = p then c else color s x)"
  "root (set_left p v s) = root s"
  "root (set_right p v s) = root s"
  "root (set_parent p v s) = root s"
  "root (set_color p c s) = root s"
  by (simp_all add: set_defs)

lemma tree_at_write [simp]:
  "p \<notin> set (inorder t) \<Longrightarrow> tree_at (set_left p v s) up t = tree_at s up t"
  "p \<notin> set (inorder t) \<Longrightarrow> tree_at (set_right p v s) up t = tree_at s up t"
  "p \<notin> set (inorder t) \<Longrightarrow> tree_at (set_parent p v s) up t = tree_at s up t"
  "p \<notin> set (inorder t) \<Longrightarrow> tree_at (set_color p c s) up t = tree_at s up t"
  "tree_at (s\<lparr>root := v\<rparr>) up t = tree_at s up t"
  by (induction t arbitrary: up) auto

lemma ctx_at_write [simp]:
  "p \<notin> set (ctx_nodes k) \<Longrightarrow> ctx_at (set_left p v s) x k = ctx_at s x k"
  "p \<notin> set (ctx_nodes k) \<Longrightarrow> ctx_at (set_right p v s) x k = ctx_at s x k"
  "p \<notin> set (ctx_nodes k) \<Longrightarrow> ctx_at (set_parent p v s) x k = ctx_at s x k"
  "p \<notin> set (ctx_nodes k) \<Longrightarrow> ctx_at (set_color p c s) x k = ctx_at s x k"
  by (induction k arbitrary: x rule: ctx_nodes.induct) auto

lemma nil_ok_write [simp]:
  "p \<noteq> nil \<Longrightarrow> nil_ok (set_left p v s) = nil_ok s"
  "p \<noteq> nil \<Longrightarrow> nil_ok (set_right p v s) = nil_ok s"
  "nil_ok (set_parent p v s) = nil_ok s"
  "p \<noteq> nil \<Longrightarrow> nil_ok (set_color p c s) = nil_ok s"
  "nil_ok (s\<lparr>root := v\<rparr>) = nil_ok s"
  by (auto simp: nil_ok_def)

section \<open>Rotations\<close>

lemma leftrotate_zip:
  assumes "zip_at s k (Br a p c (Br b q d e))"
  shows "zip_at (leftrotate p s) k (Br (Br a p c b) q d e)"
  using assms
  by (cases k rule: ctx_nodes.cases; cases b;
      simp add: zip_at_def leftrotate_def Let_def rootp_notin cong: let_weak_cong; elim conjE; simp)

lemma rightrotate_zip:
  assumes "zip_at s k (Br (Br a p c b) q d e)"
  shows "zip_at (rightrotate q s) k (Br a p c (Br b q d e))"
  using assms
  by (cases k rule: ctx_nodes.cases; cases b;
      simp add: zip_at_def rightrotate_def Let_def rootp_notin cong: let_weak_cong; elim conjE; simp)

end
