(* ===== verification/Rbtree_Insert.thy ===== *)
theory Rbtree_Insert
  imports Rbtree_Repr
begin

text \<open>
  Insertion into the red-black tree on the heap: the rebalancing loop of \<^verbatim>\<open>rb_insert\<close>
  returns and computes \<open>ins_fix\<close>, so \<^verbatim>\<open>rbtree_insert\<close> computes \<open>ins_at\<close>.
\<close>

section \<open>Recolouring at a focus\<close>

lemma color_rootp: "tree_at s up t \<Longrightarrow> nil_ok s \<Longrightarrow> color s (rootp t) = color_of t"
  by (cases t) (auto simp: nil_ok_def)

lemma zip_at_recolor:
  "zip_at s k t \<Longrightarrow> t \<noteq> Tip \<Longrightarrow> zip_at (set_color (rootp t) c s) k (paint c t)"
  by (cases t) (auto simp: zip_at_def)

lemma zip_at_recolor_Br:
  "zip_at s k (Br l p c r) \<Longrightarrow> zip_at (set_color p d s) k (Br l p d r)"
  using zip_at_recolor [of s k "Br l p c r" d] by simp

lemma zip_at_recolor_l:
  "zip_at s k (Br t p c r) \<Longrightarrow> t \<noteq> Tip \<Longrightarrow> zip_at (set_color (rootp t) d s) k (Br (paint d t) p c r)"
  using zip_at_recolor [of s "LF p c r # k" t d]
  by (simp add: zip_at_move [of "LF p c r # k" _ k "Br _ p c r"])

lemma zip_at_recolor_r:
  "zip_at s k (Br l p c t) \<Longrightarrow> t \<noteq> Tip \<Longrightarrow> zip_at (set_color (rootp t) d s) k (Br l p c (paint d t))"
  using zip_at_recolor [of s "RF l p c # k" t d]
  by (simp add: zip_at_move [of "RF l p c # k" _ k "Br l p c _"])

lemma root_in_ctx: "ctx_at s x k \<Longrightarrow> k \<noteq> [] \<Longrightarrow> root s \<in> set (ctx_nodes k)"
proof (induction s x k rule: ctx_at.induct)
  case (2 s x p c r k)
  then show ?case by (cases "k = []") auto
next
  case (3 s x l p c k)
  then show ?case by (cases "k = []") auto
qed simp

lemma zip_at_root:
  assumes "zip_at s k t" and "t \<noteq> Tip"
  shows "rootp t = root s \<longleftrightarrow> k = []"
  using assms root_in_ctx [of s "rootp t" k] rootp_in [of t]
  by (cases "k = []") (auto simp: zip_at_def)

lemma zip_at_root_Br: "zip_at s k (Br l p c r) \<Longrightarrow> p = root s \<longleftrightarrow> k = []"
  using zip_at_root [of s k "Br l p c r"] by simp

text \<open>One round of the loop, on the reading.\<close>

lemma rb_insert_loop_red_LL:
  assumes "zip_at s (LF p Red r # LF g c u # k) (Br a x d b)" and "color_of u = Red"
  shows "\<exists>s1. zip_at s1 k (Br (Br (Br a x d b) p Black r) g Red (paint Black u)) \<and> root s1 = root s \<and>
    rb_insert_loop (root s) x s = rb_insert_loop (root s) g s1"
proof -
  obtain ul q ur where u: "u = Br ul q Red ur" using assms(2) by (cases u) auto
  let ?s1 = "set_color g Red (set_color q Black (set_color p Black s))"
  have z: "zip_at s k (Br (Br (Br a x d b) p Red r) g c u)"
    using assms(1) by (simp add: zip_at_move [of "LF p Red r # LF g c u # k" _ k "Br (Br _ p Red r) g c u"])
  have "zip_at ?s1 k (Br (Br (Br a x d b) p Black r) g Red (paint Black u))"
    using zip_at_recolor_Br [OF zip_at_recolor_r [OF zip_at_recolor_l [OF z, of Black] _, of Black], of Red]
    by (simp add: u)
  moreover have "rb_insert_loop (root s) x s = rb_insert_loop (root s) g ?s1"
    using z zip_at_root_Br [OF assms(1)]
    by (subst rb_insert_loop.simps) (simp add: u zip_at_def Let_def; elim conjE; simp)
  ultimately show ?thesis by (intro exI [of _ ?s1]) simp
qed

lemma rb_insert_loop_red_RL:
  assumes "zip_at s (RF l p Red # LF g c u # k) (Br a x d b)" and "color_of u = Red"
  shows "\<exists>s1. zip_at s1 k (Br (Br l p Black (Br a x d b)) g Red (paint Black u)) \<and> root s1 = root s \<and>
    rb_insert_loop (root s) x s = rb_insert_loop (root s) g s1"
proof -
  obtain ul q ur where u: "u = Br ul q Red ur" using assms(2) by (cases u) auto
  let ?s1 = "set_color g Red (set_color q Black (set_color p Black s))"
  have z: "zip_at s k (Br (Br l p Red (Br a x d b)) g c u)"
    using assms(1) by (simp add: zip_at_move [of "RF l p Red # LF g c u # k" _ k "Br (Br l p Red _) g c u"])
  have "zip_at ?s1 k (Br (Br l p Black (Br a x d b)) g Red (paint Black u))"
    using zip_at_recolor_Br [OF zip_at_recolor_r [OF zip_at_recolor_l [OF z, of Black] _, of Black], of Red]
    by (simp add: u)
  moreover have "rb_insert_loop (root s) x s = rb_insert_loop (root s) g ?s1"
    using z zip_at_root_Br [OF assms(1)]
    by (subst rb_insert_loop.simps) (simp add: u zip_at_def Let_def; elim conjE; simp)
  ultimately show ?thesis by (intro exI [of _ ?s1]) simp
qed

lemma rb_insert_loop_red_RR:
  assumes "zip_at s (RF l p Red # RF u g c # k) (Br a x d b)" and "color_of u = Red"
  shows "\<exists>s1. zip_at s1 k (Br (paint Black u) g Red (Br l p Black (Br a x d b))) \<and> root s1 = root s \<and>
    rb_insert_loop (root s) x s = rb_insert_loop (root s) g s1"
proof -
  obtain ul q ur where u: "u = Br ul q Red ur" using assms(2) by (cases u) auto
  let ?s1 = "set_color g Red (set_color q Black (set_color p Black s))"
  have z: "zip_at s k (Br u g c (Br l p Red (Br a x d b)))"
    using assms(1) by (simp add: zip_at_move [of "RF l p Red # RF u g c # k" _ k "Br u g c (Br l p Red _)"])
  have "zip_at ?s1 k (Br (paint Black u) g Red (Br l p Black (Br a x d b)))"
    using zip_at_recolor_Br [OF zip_at_recolor_l [OF zip_at_recolor_r [OF z, of Black] _, of Black], of Red]
    by (simp add: u)
  moreover have "rb_insert_loop (root s) x s = rb_insert_loop (root s) g ?s1"
    using z zip_at_root_Br [OF assms(1)]
    by (subst rb_insert_loop.simps) (simp add: u zip_at_def Let_def; elim conjE; simp)
  ultimately show ?thesis by (intro exI [of _ ?s1]) simp
qed

lemma rb_insert_loop_red_LR:
  assumes "zip_at s (LF p Red r # RF u g c # k) (Br a x d b)" and "color_of u = Red"
  shows "\<exists>s1. zip_at s1 k (Br (paint Black u) g Red (Br (Br a x d b) p Black r)) \<and> root s1 = root s \<and>
    rb_insert_loop (root s) x s = rb_insert_loop (root s) g s1"
proof -
  obtain ul q ur where u: "u = Br ul q Red ur" using assms(2) by (cases u) auto
  let ?s1 = "set_color g Red (set_color q Black (set_color p Black s))"
  have z: "zip_at s k (Br u g c (Br (Br a x d b) p Red r))"
    using assms(1) by (simp add: zip_at_move [of "LF p Red r # RF u g c # k" _ k "Br u g c (Br _ p Red r)"])
  have "zip_at ?s1 k (Br (paint Black u) g Red (Br (Br a x d b) p Black r))"
    using zip_at_recolor_Br [OF zip_at_recolor_l [OF zip_at_recolor_r [OF z, of Black] _, of Black], of Red]
    by (simp add: u)
  moreover have "rb_insert_loop (root s) x s = rb_insert_loop (root s) g ?s1"
    using z zip_at_root_Br [OF assms(1)]
    by (subst rb_insert_loop.simps) (simp add: u zip_at_def Let_def; elim conjE; simp)
  ultimately show ?thesis by (intro exI [of _ ?s1]) simp
qed


lemma rb_insert_loop_exit:
  assumes "zip_at s k (Br a x d b)" and "k = [] \<or> frame_col (hd k) = Black"
  shows "rb_insert_loop (root s) x s = Some s"
  using assms zip_at_root_Br [OF assms(1)]
  by (subst rb_insert_loop.simps) (cases k rule: ctx_nodes.cases; simp add: zip_at_def)

lemma rb_insert_loop_stop:
  assumes "zip_at s k (Br (Br a x d b) p Black r) \<or> zip_at s k (Br r p Black (Br a x d b))"
  shows "rb_insert_loop rt0 x s = Some s"
  using assms
  by (subst rb_insert_loop.simps) (elim disjE; simp add: zip_at_def)

lemma rb_insert_loop_black_LL:
  assumes "zip_at s (LF p Red r # LF g c u # k) (Br a x d b)" and "color_of u = Black"
  shows "\<exists>s1. zip_at s1 k (Br (Br a x d b) p Black (Br r g Red u)) \<and> rb_insert_loop (root s) x s = Some s1"
proof -
  let ?s1 = "rightrotate g (set_color g Red (set_color p Black s))"
  have z: "zip_at s k (Br (Br (Br a x d b) p Red r) g c u)"
    using assms(1) by (simp add: zip_at_move [of "LF p Red r # LF g c u # k" _ k "Br (Br _ p Red r) g c u"])
  have z1: "zip_at ?s1 k (Br (Br a x d b) p Black (Br r g Red u))"
    using rightrotate_zip [OF zip_at_recolor_Br [OF zip_at_recolor_l [OF z, of Black], of Red, simplified]]
    by simp
  moreover have "rb_insert_loop (root s) x s = rb_insert_loop (root s) x ?s1"
    using z zip_at_root_Br [OF assms(1)] assms(2) color_rootp [of s g u] rootp_notin
    by (subst rb_insert_loop.simps) (simp add: zip_at_def Let_def; elim conjE; simp)
  moreover have "rb_insert_loop (root s) x ?s1 = Some ?s1"
    using z1 by (blast intro: rb_insert_loop_stop)
  ultimately show ?thesis by (intro exI [of _ ?s1]) simp
qed

lemma rb_insert_loop_black_RR:
  assumes "zip_at s (RF l p Red # RF u g c # k) (Br a x d b)" and "color_of u = Black"
  shows "\<exists>s1. zip_at s1 k (Br (Br u g Red l) p Black (Br a x d b)) \<and> rb_insert_loop (root s) x s = Some s1"
proof -
  let ?s1 = "leftrotate g (set_color g Red (set_color p Black s))"
  have z: "zip_at s k (Br u g c (Br l p Red (Br a x d b)))"
    using assms(1) by (simp add: zip_at_move [of "RF l p Red # RF u g c # k" _ k "Br u g c (Br l p Red _)"])
  have z1: "zip_at ?s1 k (Br (Br u g Red l) p Black (Br a x d b))"
    using leftrotate_zip [OF zip_at_recolor_Br [OF zip_at_recolor_r [OF z, of Black], of Red, simplified]]
    by simp
  moreover have "rb_insert_loop (root s) x s = rb_insert_loop (root s) x ?s1"
    using z zip_at_root_Br [OF assms(1)] assms(2) color_rootp [of s g u] rootp_notin
    by (subst rb_insert_loop.simps) (simp add: zip_at_def Let_def; elim conjE; simp)
  moreover have "rb_insert_loop (root s) x ?s1 = Some ?s1"
    using z1 by (blast intro: rb_insert_loop_stop)
  ultimately show ?thesis by (intro exI [of _ ?s1]) simp
qed

lemma rb_insert_loop_black_RL:
  assumes "zip_at s (RF l p Red # LF g c u # k) (Br a x d b)" and "color_of u = Black"
  shows "\<exists>s1. zip_at s1 k (Br (Br l p Red a) x Black (Br b g Red u)) \<and> rb_insert_loop (root s) x s = Some s1"
proof -
  let ?s1 = "rightrotate g (set_color g Red (set_color x Black (leftrotate p s)))"
  have z: "zip_at s k (Br (Br l p Red (Br a x d b)) g c u)"
    using assms(1) by (simp add: zip_at_move [of "RF l p Red # LF g c u # k" _ k "Br (Br l p Red _) g c u"])
  have z0: "zip_at s (LF g c u # k) (Br l p Red (Br a x d b))"
    using z by (simp add: zip_at_move [of "LF g c u # k" _ k "Br _ g c u"])
  have z2: "zip_at (leftrotate p s) k (Br (Br (Br l p Red a) x d b) g c u)"
    using leftrotate_zip [OF z0] by (simp add: zip_at_move [of "LF g c u # k" _ k "Br _ g c u"])
  have z3: "parent (leftrotate p s) p = x \<and> parent (leftrotate p s) x = g"
    using z2 by (simp add: zip_at_def)
  have z1: "zip_at ?s1 k (Br (Br l p Red a) x Black (Br b g Red u))"
    using rightrotate_zip [OF zip_at_recolor_Br [OF zip_at_recolor_l [OF z2, of Black], of Red, simplified]]
    by simp
  moreover have "rb_insert_loop (root s) x s = rb_insert_loop (root s) p ?s1"
    using z zip_at_root_Br [OF assms(1)] assms(2) color_rootp [of s g u] rootp_notin
    by (subst rb_insert_loop.simps) (simp add: zip_at_def Let_def z3; elim conjE; simp)
  moreover have "rb_insert_loop (root s) p ?s1 = Some ?s1"
    using z1 by (blast intro: rb_insert_loop_stop)
  ultimately show ?thesis by (intro exI [of _ ?s1]) simp
qed

lemma rb_insert_loop_black_LR:
  assumes "zip_at s (LF p Red r # RF u g c # k) (Br a x d b)" and "color_of u = Black"
  shows "\<exists>s1. zip_at s1 k (Br (Br u g Red a) x Black (Br b p Red r)) \<and> rb_insert_loop (root s) x s = Some s1"
proof -
  let ?s1 = "leftrotate g (set_color g Red (set_color x Black (rightrotate p s)))"
  have z: "zip_at s k (Br u g c (Br (Br a x d b) p Red r))"
    using assms(1) by (simp add: zip_at_move [of "LF p Red r # RF u g c # k" _ k "Br u g c (Br _ p Red r)"])
  have z0: "zip_at s (RF u g c # k) (Br (Br a x d b) p Red r)"
    using z by (simp add: zip_at_move [of "RF u g c # k" _ k "Br u g c _"])
  have z2: "zip_at (rightrotate p s) k (Br u g c (Br a x d (Br b p Red r)))"
    using rightrotate_zip [OF z0] by (simp add: zip_at_move [of "RF u g c # k" _ k "Br u g c _"])
  have z3: "parent (rightrotate p s) p = x \<and> parent (rightrotate p s) x = g"
    using z2 by (simp add: zip_at_def)
  have z1: "zip_at ?s1 k (Br (Br u g Red a) x Black (Br b p Red r))"
    using leftrotate_zip [OF zip_at_recolor_Br [OF zip_at_recolor_r [OF z2, of Black], of Red, simplified]]
    by simp
  moreover have "rb_insert_loop (root s) x s = rb_insert_loop (root s) p ?s1"
    using z zip_at_root_Br [OF assms(1)] assms(2) color_rootp [of s g u] rootp_notin
    by (subst rb_insert_loop.simps) (simp add: zip_at_def Let_def z3; elim conjE; simp)
  moreover have "rb_insert_loop (root s) p ?s1 = Some ?s1"
    using z1 by (blast intro: rb_insert_loop_stop)
  ultimately show ?thesis by (intro exI [of _ ?s1]) simp
qed

lemma rb_insert_loop_exit_plug:
  assumes "zip_at s k t" and "color_of t = Red" and "k = [] \<or> frame_col (hd k) = Black"
  shows "\<exists>s'. rb_insert_loop (root s) (rootp t) s = Some s' \<and> repr s' (plug k t)"
  using assms rb_insert_loop_exit [of s k] by (cases t) (auto simp flip: zip_at_plug)

theorem rb_insert_loop_zip:
  "zip_at s k t \<Longrightarrow> color_of t = Red \<Longrightarrow> top_black k \<Longrightarrow>
     \<exists>s'. rb_insert_loop (root s) (rootp t) s = Some s' \<and> repr s' (ins_fix k t)"
proof (induction k t arbitrary: s rule: ins_fix.induct)
  case (1 p r g c u k t)
  obtain a x d b where t: "t = Br a x d b" using "1.prems" by (cases t) auto
  show ?case
  proof (cases "color_of u")
    case Red
    from rb_insert_loop_red_LL [OF "1.prems"(1) [unfolded t] Red] "1.IH" "1.prems"(3) Red show ?thesis
      by (fastforce simp: t dest: top_black_tail)
  next
    case Black
    from rb_insert_loop_black_LL [OF "1.prems"(1) [unfolded t] Black] Black show ?thesis
      by (auto simp: t zip_at_plug [of _ k])
  qed
next
  case (2 l p g c u k a x d b)
  show ?case
  proof (cases "color_of u")
    case Red
    from rb_insert_loop_red_RL [OF "2.prems"(1) Red] "2.IH" "2.prems"(3) Red show ?thesis
      by (fastforce dest: top_black_tail)
  next
    case Black
    from rb_insert_loop_black_RL [OF "2.prems"(1) Black] Black show ?thesis
      by (auto simp: zip_at_plug [of _ k])
  qed
next
  case (3 l p u g c k t)
  obtain a x d b where t: "t = Br a x d b" using "3.prems" by (cases t) auto
  show ?case
  proof (cases "color_of u")
    case Red
    from rb_insert_loop_red_RR [OF "3.prems"(1) [unfolded t] Red] "3.IH" "3.prems"(3) Red show ?thesis
      by (fastforce simp: t dest: top_black_tail)
  next
    case Black
    from rb_insert_loop_black_RR [OF "3.prems"(1) [unfolded t] Black] Black show ?thesis
      by (auto simp: t zip_at_plug [of _ k])
  qed
next
  case (4 p r u g c k a x d b)
  show ?case
  proof (cases "color_of u")
    case Red
    from rb_insert_loop_red_LR [OF "4.prems"(1) Red] "4.IH" "4.prems"(3) Red show ?thesis
      by (fastforce dest: top_black_tail)
  next
    case Black
    from rb_insert_loop_black_LR [OF "4.prems"(1) Black] Black show ?thesis
      by (auto simp: zip_at_plug [of _ k])
  qed
qed (auto dest: rb_insert_loop_exit_plug)

text \<open>The descent to the leaf, and the whole insertion.\<close>

lemma hang_right:
  assumes "zip_at s k (Br l p c Tip)" and "x \<notin> set (inorder (plug k (Br l p c Tip)))" and "x \<noteq> nil"
    and "left s x = nil" and "right s x = nil"
  shows "zip_at (set_parent x p (set_right p x s)) (RF l p c # k) (Br Tip x (color s x) Tip)"
proof -
  have "x \<notin> set (ctx_nodes k)" "x \<notin> set (inorder l)" "x \<noteq> p"
    using assms(2) by (auto simp: set_ctx_nodes)
  with assms(1,3-) show ?thesis by (simp add: zip_at_def; elim conjE; simp)
qed

lemma hang_left:
  assumes "zip_at s k (Br Tip p c r)" and "x \<notin> set (inorder (plug k (Br Tip p c r)))" and "x \<noteq> nil"
    and "left s x = nil" and "right s x = nil"
  shows "zip_at (set_parent x p (set_left p x s)) (LF p c r # k) (Br Tip x (color s x) Tip)"
proof -
  have "x \<notin> set (ctx_nodes k)" "x \<notin> set (inorder r)" "x \<noteq> p"
    using assms(2) by (auto simp: set_ctx_nodes)
  with assms(1,3-) show ?thesis by (simp add: zip_at_def; elim conjE; simp)
qed

lemma node_insert_loop_zip:
  assumes "zip_at s k t" and "t \<noteq> Tip" and "x \<notin> set (inorder (plug k t))" and "x \<noteq> nil"
    and "left s x = nil" and "right s x = nil"
  shows "\<exists>s'. node_insert_loop lt x (rootp t) s = Some s' \<and>
    zip_at s' (descend (\<lambda>p. lt p x) t k) (Br Tip x (color s x) Tip)"
  using assms
proof (induction t arbitrary: k)
  case (Br l p c r)
  have ch: "left s p = rootp l" "right s p = rootp r" "rootp l = nil \<longleftrightarrow> l = Tip" "rootp r = nil \<longleftrightarrow> r = Tip"
    using Br.prems(1) by (auto simp: zip_at_def rootp_nil_iff)
  have zl: "zip_at s (LF p c r # k) l" and zr: "zip_at s (RF l p c # k) r"
    using Br.prems(1) by (simp_all add: zip_at_move [of "LF p c r # k" _ k "Br _ p c r"]
        zip_at_move [of "RF l p c # k" _ k "Br l p c _"])
  show ?case
  proof (cases "lt p x")
    case True
    then show ?thesis
      using Br.IH(2) [OF zr] Br.prems hang_right [of s k l p c x] ch
      by (cases "r = Tip") (auto simp: node_insert_loop.simps [of lt x p])
  next
    case False
    then show ?thesis
      using Br.IH(1) [OF zl] Br.prems hang_left [of s k p c r x] ch
      by (cases "l = Tip") (auto simp: node_insert_loop.simps [of lt x p])
  qed
qed simp

lemma rb_insert_zip:
  assumes "zip_at s k (Br l x c r)" and "top_black k"
  shows "\<exists>s'. rb_insert x s = Some s' \<and> repr s' (paint Black (ins_fix k (Br l x Red r)))"
proof -
  have z: "zip_at (set_color x Red s) k (Br l x Red r)"
    using assms(1) by (rule zip_at_recolor_Br)
  obtain s' where s': "rb_insert_loop (root s) x (set_color x Red s) = Some s'"
    "repr s' (ins_fix k (Br l x Red r))"
    using rb_insert_loop_zip [OF z _ assms(2)] by auto
  have "ins_fix k (Br l x Red r) \<noteq> Tip"
    using inorder_ins_fix [of k "Br l x Red r"] by (cases "ins_fix k (Br l x Red r)") auto
  moreover have "root s' = rootp (ins_fix k (Br l x Red r))"
    using s'(2) by (simp add: zip_at_def)
  ultimately show ?thesis
    using zip_at_recolor [OF s'(2)] s'(1) by (auto simp: rb_insert_def Let_def)
qed

lemma zip_at_write_fresh:
  assumes "zip_at s k t" and "x \<notin> set (inorder (plug k t))" and "x \<noteq> nil"
  shows "zip_at (set_left x v s) k t" "zip_at (set_right x v s) k t"
    "zip_at (set_parent x v s) k t" "zip_at (set_color x d s) k t"
proof -
  have "x \<notin> set (inorder t)" "x \<notin> set (ctx_nodes k)"
    using assms(2) by (auto simp: set_ctx_nodes)
  with assms(1,3) show "zip_at (set_left x v s) k t" "zip_at (set_right x v s) k t"
    "zip_at (set_parent x v s) k t" "zip_at (set_color x d s) k t"
    by (simp_all add: zip_at_def)
qed

theorem rbtree_insert_repr:
  assumes rep: "repr s t" and rb: "rb_inv t" and x: "x \<notin> set (inorder t)" "x \<noteq> nil"
  shows "\<exists>s'. rbtree_insert lt x s = Some s' \<and> repr s' (ins_at (\<lambda>p. lt p x) x t)"
proof -
  let ?s = "set_color x Red (set_left x nil (set_right x nil (set_parent x nil s)))"
  have z: "repr ?s t"
    using rep x by (simp add: zip_at_write_fresh)
  have top: "top_black (descend (\<lambda>p. lt p x) t [])"
    using rb rb_inv_top_black [of "descend (\<lambda>p. lt p x) t []" Tip] by (simp add: plug_descend)
  show ?thesis
  proof (cases "t = Tip")
    case True
    have "repr (?s\<lparr>root := x\<rparr>) (Br Tip x Red Tip)"
      using z True x(2) by (simp add: zip_at_def)
    from rb_insert_zip [OF this] show ?thesis
      using True z by (simp add: rbtree_insert_def node_insert_def ins_at_def Let_def zip_at_def)
  next
    case False
    then have nr: "root s \<noteq> nil"
      using rep rootp_nil_iff [of s nil t] by (auto simp: zip_at_def)
    have r: "root s = rootp t" using rep by (simp add: zip_at_def)
    obtain s1 where s1: "node_insert_loop lt x (rootp t) ?s = Some s1"
      "zip_at s1 (descend (\<lambda>p. lt p x) t []) (Br Tip x Red Tip)"
      using node_insert_loop_zip [OF z False, of x lt] x by auto
    from rb_insert_zip [OF s1(2) top] nr r s1(1) show ?thesis
      by (auto simp: rbtree_insert_def node_insert_def ins_at_def Let_def)
  qed
qed

end
