(* ===== verification/Rbtree_Find.thy ===== *)
theory Rbtree_Find
  imports Rbtree_Insert
begin

text \<open>
  The reading functions of the red-black tree: ends, neighbours, traversal, height and the two
  searches, each related to the list of nodes in order.
\<close>

section \<open>Ends and neighbours\<close>

text \<open>The pointer a walk stops at: an element of the list, or the sentinel past its end.\<close>

definition hd_nil :: "ptr list \<Rightarrow> ptr" where
  "hd_nil xs = (case xs of [] \<Rightarrow> nil | x # _ \<Rightarrow> x)"

definition last_nil :: "ptr list \<Rightarrow> ptr" where
  "last_nil xs = (if xs = [] then nil else last xs)"

lemma hd_nil_simps [simp]: "hd_nil [] = nil" "hd_nil (x # xs) = x"
  by (simp_all add: hd_nil_def)

lemma last_nil_simps [simp]: "last_nil [] = nil" "last_nil (xs @ [x]) = x"
  by (simp_all add: last_nil_def)

lemma inorder_Nil [simp]: "inorder t = [] \<longleftrightarrow> t = Tip"
  by (cases t) auto

lemma minimum_inorder:
  "tree_at s up t \<Longrightarrow> t \<noteq> Tip \<Longrightarrow> minimum s (rootp t) = Some (hd_nil (inorder t))"
proof (induction t arbitrary: up)
  case (Br l p c r)
  then show ?case
    by (cases "l = Tip") (auto simp: minimum.simps [of s p] rootp_nil_iff hd_nil_def split: list.split)
qed simp

lemma maximum_inorder:
  "tree_at s up t \<Longrightarrow> t \<noteq> Tip \<Longrightarrow> maximum s (rootp t) = Some (last_nil (inorder t))"
proof (induction t arbitrary: up)
  case (Br l p c r)
  then show ?case
    by (cases "r = Tip") (auto simp: maximum.simps [of s p] rootp_nil_iff last_nil_def)
qed simp

lemma successor_up_zip:
  "zip_at s k t \<Longrightarrow> t \<noteq> Tip \<Longrightarrow> successor_up s (rootp t) (cpar k) = Some (hd_nil (cpost k))"
proof (induction k t rule: plug.induct)
  case (1 t)
  then show ?case by (simp add: successor_up.simps)
next
  case (2 p c r k t)
  have "rootp t \<noteq> rootp r"
    using 2 by (cases t; cases r) (auto simp: zip_at_def)
  with 2 show ?case by (subst successor_up.simps) (simp add: zip_at_def)
next
  case (3 l p c k t)
  have "zip_at s k (Br l p c t)" using zip_at_move [of k "Br l p c t" "RF l p c # k" t] 3 by simp
  from 3(1) [OF this] 3 show ?case by (subst successor_up.simps) (simp add: zip_at_def)
qed

lemma predecessor_up_zip:
  "zip_at s k t \<Longrightarrow> t \<noteq> Tip \<Longrightarrow> predecessor_up s (rootp t) (cpar k) = Some (last_nil (cpre k))"
proof (induction k t rule: plug.induct)
  case (1 t)
  then show ?case by (simp add: predecessor_up.simps)
next
  case (2 p c r k t)
  have "zip_at s k (Br t p c r)" using zip_at_move [of k "Br t p c r" "LF p c r # k" t] 2 by simp
  from 2(1) [OF this] 2 show ?case by (subst predecessor_up.simps) (simp add: zip_at_def)
next
  case (3 l p c k t)
  have "rootp t \<noteq> rootp l"
    using 3 by (cases t; cases l) (auto simp: zip_at_def)
  with 3 show ?case by (subst predecessor_up.simps) (simp add: zip_at_def last_nil_def)
qed

lemma successor_zip:
  assumes "zip_at s k (Br l p c r)"
  shows "successor s p = Some (hd_nil (inorder r @ cpost k))"
proof -
  have rd: "right s p = rootp r" "parent s p = cpar k" "tree_at s p r" "rootp r = nil \<longleftrightarrow> r = Tip"
    using assms by (auto simp: zip_at_def rootp_nil_iff)
  show ?thesis
    using successor_up_zip [OF assms] minimum_inorder [OF rd(3)] rd
    by (cases r; cases "inorder r") (auto simp: successor_def hd_nil_def split: list.splits)
qed

lemma predecessor_zip:
  assumes "zip_at s k (Br l p c r)"
  shows "predecessor s p = Some (last_nil (cpre k @ inorder l))"
proof -
  have rd: "left s p = rootp l" "parent s p = cpar k" "tree_at s p l" "rootp l = nil \<longleftrightarrow> l = Tip"
    using assms by (auto simp: zip_at_def rootp_nil_iff)
  show ?thesis
    using predecessor_up_zip [OF assms] maximum_inorder [OF rd(3)] rd
    by (cases l) (auto simp: predecessor_def last_nil_def)
qed

lemma focus_split:
  assumes "inorder t = xs @ x # ys" and "distinct (inorder t)"
  shows "\<exists>k a c b. plug k (Br a x c b) = t \<and> xs = cpre k @ inorder a \<and> ys = inorder b @ cpost k"
proof -
  obtain k a c b where t: "plug k (Br a x c b) = t"
    using focus_ex [of x t] assms(1) by auto
  then have "(cpre k @ inorder a) @ x # inorder b @ cpost k = xs @ x # ys"
    using assms(1) by auto
  moreover have "x \<notin> set xs" "x \<notin> set ys" using assms by auto
  ultimately have "xs = cpre k @ inorder a \<and> ys = inorder b @ cpost k"
    using append_Cons_eq_iff [of x xs ys "cpre k @ inorder a" "inorder b @ cpost k"] by auto
  with t show ?thesis by blast
qed


lemma neighbours_inorder:
  assumes "repr s t" and "inorder t = xs @ x # ys"
  shows "successor s x = Some (hd_nil ys)" and "predecessor s x = Some (last_nil xs)"
proof -
  have d: "distinct (inorder t)" using assms(1) by (simp add: zip_at_def)
  obtain k a c b where t: "plug k (Br a x c b) = t" "xs = cpre k @ inorder a" "ys = inorder b @ cpost k"
    using focus_split [OF assms(2) d] by blast
  have z: "zip_at s k (Br a x c b)" using assms(1) by (simp add: zip_at_plug [of s k] t(1))
  show "successor s x = Some (hd_nil ys)" and "predecessor s x = Some (last_nil xs)"
    using successor_zip [OF z] predecessor_zip [OF z] by (simp_all only: t(2,3))
qed

lemma repr_nil_notin: "repr s t \<Longrightarrow> nil \<notin> set (inorder t)"
  by (auto simp: zip_at_def dest: tree_at_nil)

theorem rbtree_next_inorder:
  assumes "repr s t" and "inorder t = xs @ x # ys"
  shows "rbtree_next s x = Some (case ys of [] \<Rightarrow> None | y # _ \<Rightarrow> Some y)"
  using neighbours_inorder(1) [OF assms] repr_nil_notin [OF assms(1)] assms(2)
  by (cases ys) (auto simp: rbtree_next_def null_if_nil_def)

theorem rbtree_prev_inorder:
  assumes "repr s t" and "inorder t = xs @ x # ys"
  shows "rbtree_prev s x = Some (if xs = [] then None else Some (last xs))"
  using neighbours_inorder(2) [OF assms] repr_nil_notin [OF assms(1)] assms(2)
  by (cases xs rule: rev_cases) (auto simp: rbtree_prev_def null_if_nil_def)

theorem rbtree_begin_inorder:
  assumes "repr s t"
  shows "rbtree_begin s = Some (case inorder t of [] \<Rightarrow> None | x # _ \<Rightarrow> Some x)"
proof (cases "t = Tip")
  case True
  with assms have "root s = nil" "left s nil = nil" by (simp_all add: zip_at_def nil_ok_def)
  with True show ?thesis by (simp add: rbtree_begin_def minimum.simps null_if_nil_def)
next
  case False
  have "nil \<notin> set (inorder t)" using assms by (auto simp: zip_at_def dest: tree_at_nil)
  with False minimum_inorder [of s nil t] assms show ?thesis
    by (cases "inorder t") (auto simp: rbtree_begin_def zip_at_def null_if_nil_def)
qed

theorem rbtree_rbegin_inorder:
  assumes "repr s t"
  shows "rbtree_rbegin s = Some (if inorder t = [] then None else Some (last (inorder t)))"
proof (cases "t = Tip")
  case True
  with assms have "root s = nil" "right s nil = nil" by (simp_all add: zip_at_def nil_ok_def)
  with True show ?thesis by (simp add: rbtree_rbegin_def maximum.simps null_if_nil_def)
next
  case False
  have "nil \<notin> set (inorder t)" using assms by (auto simp: zip_at_def dest: tree_at_nil)
  then have "last (inorder t) \<noteq> nil" using False last_in_set [of "inorder t"] by force
  with False maximum_inorder [of s nil t] assms show ?thesis
    by (simp add: rbtree_rbegin_def zip_at_def null_if_nil_def last_nil_def)
qed

lemma height_tree: "tree_at s up t \<Longrightarrow> height s (rootp t) = Some (theight t)"
proof (induction t arbitrary: up)
  case Tip
  then show ?case by (simp add: height.simps)
next
  case (Br l p c r)
  then show ?case by (subst height.simps) auto
qed

lemma inorder_calls_tree: "tree_at s up t \<Longrightarrow> inorder_calls s (rootp t) = Some (inorder t)"
proof (induction t arbitrary: up)
  case Tip
  then show ?case by (simp add: inorder_calls.simps)
next
  case (Br l p c r)
  then show ?case by (subst inorder_calls.simps) auto
qed

theorem rbtree_height_repr: "repr s t \<Longrightarrow> rbtree_height s = Some (theight t)"
  using height_tree [of s nil t] by (simp add: rbtree_height_def zip_at_def)

theorem rbtree_inorder_repr: "repr s t \<Longrightarrow> rbtree_inorder s = Some (inorder t)"
  using inorder_calls_tree [of s nil t] by (simp add: rbtree_inorder_def zip_at_def)

text \<open>A red-black tree with \<open>n\<close> nodes is at most \<open>2 log (n + 1)\<close> high.\<close>

lemma theight_log:
  assumes "rb_inv t"
  shows "2 ^ theight t \<le> (length (inorder t) + 1)\<^sup>2"
proof -
  have "theight t \<le> 2 * bh t" using assms theight_bh [of t] by (simp add: rb_inv_def)
  then have "(2::nat) ^ theight t \<le> 2 ^ (2 * bh t)" by (rule power_increasing) simp
  also have "\<dots> = (2 ^ bh t)\<^sup>2" by (simp add: power_mult [symmetric] mult.commute)
  also have "\<dots> \<le> (length (inorder t) + 1)\<^sup>2"
    using bh_size [of t] assms by (intro power_mono) (simp_all add: rb_inv_def)
  finally show ?thesis .
qed

section \<open>Search\<close>

lemma find_first_equal_entry_zip:
  assumes "repr s t" and "inorder t = xs @ x # ys" and "down_closed (\<lambda>p. lt p e) xs"
  shows "find_first_equal_entry lt e x s = Some (hd (dropWhile (\<lambda>p. lt p e) xs @ [x]))"
  using assms(2,3)
proof (induction xs arbitrary: x ys rule: rev_induct)
  case Nil
  have "predecessor s x = Some nil" using neighbours_inorder(2) [OF assms(1) Nil(1)] by simp
  then show ?case by (simp add: find_first_equal_entry.simps)
next
  case (snoc y xs)
  have p: "predecessor s x = Some y" using neighbours_inorder(2) [OF assms(1) snoc.prems(1)] by simp
  have y: "y \<noteq> nil" using assms(1) snoc.prems(1) tree_at_nil [of s nil t] by (auto simp: zip_at_def)
  show ?case
  proof (cases "lt y e")
    case True
    then have "\<forall>z\<in>set xs. lt z e" using snoc.prems(2) by simp
    with True p show ?thesis
      by (subst find_first_equal_entry.simps) (simp add: dropWhile_all)
  next
    case False
    have "hd (dropWhile (\<lambda>p. lt p e) (xs @ [y]) @ [x]) = hd (dropWhile (\<lambda>p. lt p e) xs @ [y])"
      using False by (simp add: dropWhile_none hd_append)
    with False p y snoc show ?thesis
      by (subst find_first_equal_entry.simps) simp
  qed
qed

lemma find_dropWhile: "find P xs = (case dropWhile (\<lambda>x. \<not> P x) xs of [] \<Rightarrow> None | x # _ \<Rightarrow> Some x)"
  by (induction xs) auto

text \<open>
  An element equal to \<open>e\<close> is one that is neither less nor greater. Under the order the tree
  is kept in, the elements less than \<open>e\<close> come first, and those not greater are a prefix.
\<close>

definition search_ordered :: "less_func \<Rightarrow> ptr \<Rightarrow> ptr list \<Rightarrow> bool" where
  "search_ordered lt e xs \<longleftrightarrow>
     down_closed (\<lambda>p. lt p e) xs \<and> down_closed (\<lambda>p. \<not> lt e p) xs \<and> (\<forall>p\<in>set xs. lt p e \<longrightarrow> \<not> lt e p)"

lemma equal_entry:
  assumes "repr s t" and "search_ordered lt e (inorder t)" and "inorder t = xs @ x # ys"
    and "\<not> lt x e" and "\<not> lt e x"
  shows "find_first_equal_entry lt e x s = find (\<lambda>p. \<not> lt p e) (inorder t)"
    and "find (\<lambda>p. \<not> lt p e) (inorder t) = find (\<lambda>p. \<not> lt p e \<and> \<not> lt e p) (inorder t)"
proof -
  have dc: "down_closed (\<lambda>p. lt p e) xs" and le: "\<forall>p\<in>set xs. \<not> lt e p"
    using assms(2-5) by (auto simp: search_ordered_def)
  show "find_first_equal_entry lt e x s = find (\<lambda>p. \<not> lt p e) (inorder t)"
    using find_first_equal_entry_zip [of s t xs x ys lt e, OF assms(1,3) dc] assms(3,4)
    by (cases "dropWhile (\<lambda>p. lt p e) xs") (simp_all add: find_dropWhile dropWhile_none)
  show "find (\<lambda>p. \<not> lt p e) (inorder t) = find (\<lambda>p. \<not> lt p e \<and> \<not> lt e p) (inorder t)"
  proof -
    have "find (\<lambda>p. \<not> lt p e) xs = find (\<lambda>p. \<not> lt p e \<and> \<not> lt e p) xs"
      by (rule find_cong) (use le in auto)
    then show ?thesis using assms(3-5) by (simp add: find_append split: option.split)
  qed
qed

lemma find_absent: "\<forall>x\<in>set xs. \<not> P x \<Longrightarrow> find P xs = None"
  by (simp add: find_None_iff)

lemma find_loop_zip:
  assumes "zip_at s k t" and "search_ordered lt e (inorder (plug k t))"
    and "\<forall>p\<in>set (cpre k). lt p e" and "\<forall>p\<in>set (cpost k). lt e p"
  shows "rbtree_find_loop lt e (rootp t) s =
    Some (find (\<lambda>p. \<not> lt p e \<and> \<not> lt e p) (inorder (plug k t)))"
  using assms
proof (induction t arbitrary: k)
  case Tip
  then show ?case
    by (subst rbtree_find_loop.simps) (auto simp: find_append find_absent)
next
  case (Br l p c r)
  have so: "search_ordered lt e (inorder (plug k (Br l p c r)))" by (rule Br.prems(2))
  have rd: "p \<noteq> nil" "left s p = rootp l" "right s p = rootp r" using Br.prems(1) by (simp_all add: zip_at_def)
  have zl: "zip_at s (LF p c r # k) l" using Br.prems(1) by (simp only: zip_at_left)
  have zr: "zip_at s (RF l p c # k) r" using Br.prems(1) by (simp only: zip_at_right)
  consider "lt p e" | "\<not> lt p e" "lt e p" | "\<not> lt p e" "\<not> lt e p" by blast
  then show ?case
  proof cases
    case 1
    have "\<forall>q\<in>set (cpre (RF l p c # k)). lt q e" using so 1 Br.prems(3) by (auto simp: search_ordered_def)
    with Br.IH(2) [OF zr] so Br.prems(4) 1 rd show ?thesis
      by (subst rbtree_find_loop.simps) simp
  next
    case 2
    have "\<forall>q\<in>set (cpost (LF p c r # k)). lt e q" using so 2 Br.prems(4) by (auto simp: search_ordered_def)
    with Br.IH(1) [OF zl] so Br.prems(3) 2 rd show ?thesis
      by (subst rbtree_find_loop.simps) simp
  next
    case 3
    have rp: "repr s (plug k (Br l p c r))" using Br.prems(1) by (simp add: zip_at_plug [of s k])
    from 3 rd equal_entry [OF rp so, of "cpre k @ inorder l" p "inorder r @ cpost k"] show ?thesis
      by (subst rbtree_find_loop.simps) (auto simp: find_append split: option.split)
  qed
qed

lemma find_first_loop_zip:
  assumes "zip_at s k t" and "search_ordered lt e (inorder (plug k t))"
    and "\<forall>p\<in>set (cpre k). lt p e" and "\<forall>p\<in>set (cpost k). lt e p"
    and "ret = (case cpost k of [] \<Rightarrow> None | p # _ \<Rightarrow> Some p)"
  shows "rbtree_find_first_loop lt e (rootp t) ret s =
    Some (find (\<lambda>p. \<not> lt p e) (inorder (plug k t)))"
  using assms
proof (induction t arbitrary: k ret)
  case Tip
  then have "\<forall>p\<in>set (cpost k). \<not> lt p e" by (auto simp: search_ordered_def)
  with Tip show ?case
    by (subst rbtree_find_first_loop.simps) (cases "cpost k"; simp add: find_append find_absent)
next
  case (Br l p c r)
  have so: "search_ordered lt e (inorder (plug k (Br l p c r)))" by (rule Br.prems(2))
  have rd: "p \<noteq> nil" "left s p = rootp l" "right s p = rootp r" using Br.prems(1) by (simp_all add: zip_at_def)
  have zl: "zip_at s (LF p c r # k) l" using Br.prems(1) by (simp only: zip_at_left)
  have zr: "zip_at s (RF l p c # k) r" using Br.prems(1) by (simp only: zip_at_right)
  consider "lt p e" | "\<not> lt p e" "lt e p" | "\<not> lt p e" "\<not> lt e p" by blast
  then show ?case
  proof cases
    case 1
    have "\<forall>q\<in>set (cpre (RF l p c # k)). lt q e" using so 1 Br.prems(3) by (auto simp: search_ordered_def)
    with Br.IH(2) [OF zr] so Br.prems(4,5) 1 rd show ?thesis
      by (subst rbtree_find_first_loop.simps) simp
  next
    case 2
    have "\<forall>q\<in>set (cpost (LF p c r # k)). lt e q" using so 2 Br.prems(4) by (auto simp: search_ordered_def)
    with Br.IH(1) [OF zl] so Br.prems(3) 2 rd show ?thesis
      by (subst rbtree_find_first_loop.simps) simp
  next
    case 3
    have rp: "repr s (plug k (Br l p c r))" using Br.prems(1) by (simp add: zip_at_plug [of s k])
    from 3 rd equal_entry(1) [OF rp so, of "cpre k @ inorder l" p "inorder r @ cpost k"] show ?thesis
      by (subst rbtree_find_first_loop.simps) (auto simp: find_append split: option.split)
  qed
qed

theorem rbtree_find_repr:
  "repr s t \<Longrightarrow> search_ordered lt e (inorder t) \<Longrightarrow>
     rbtree_find lt e s = Some (find (\<lambda>p. \<not> lt p e \<and> \<not> lt e p) (inorder t))"
  using find_loop_zip [of s "[]" t lt e] by (simp add: rbtree_find_def zip_at_def)

theorem rbtree_find_first_repr:
  "repr s t \<Longrightarrow> search_ordered lt e (inorder t) \<Longrightarrow>
     rbtree_find_first lt e s = Some (find (\<lambda>p. \<not> lt p e) (inorder t))"
  using find_first_loop_zip [of s "[]" t lt e] by (simp add: rbtree_find_first_def rbtree_end_def zip_at_def)

end
