(* ===== verification/Rbtree_Delete.thy ===== *)
theory Rbtree_Delete
  imports Rbtree_Insert
begin

text \<open>
  Deletion from the red-black tree on the heap: the rebalancing loop of
  \<^verbatim>\<open>rb_delete_fixup\<close> returns and computes \<open>del_fix\<close>, unlinking a node with
  one child and moving the successor into the place of a node with two are the list operations
  they should be, and \<^verbatim>\<open>rbtree_delete\<close> computes \<open>del_at\<close>.
\<close>

section \<open>The deletion loop\<close>

lemma last_frame:
  assumes "ctx_at s x k" and "k \<noteq> []"
  shows "root s = frame_ptr (last k) \<and> color s (root s) = frame_col (last k)"
  using assms
proof (induction s x k rule: ctx_at.induct)
  case (2 s x p c r k)
  then show ?case by (cases "k = []") auto
next
  case (3 s x l p c k)
  then show ?case by (cases "k = []") auto
qed simp

lemma set_color_same: "color s x = c \<Longrightarrow> set_color x c s = s"
  by (auto simp: set_defs)

text \<open>A rotation below a node other than the sentinel leaves the sentinel's parent link.\<close>

lemma rotate_parent_nil:
  "zip_at s k (Br a p c (Br b q d e)) \<Longrightarrow> parent (leftrotate p s) nil = parent s nil"
  "zip_at s k (Br (Br a p c b) q d e) \<Longrightarrow> parent (rightrotate q s) nil = parent s nil"
  by (auto simp: zip_at_def leftrotate_def rightrotate_def Let_def)

text \<open>The second half of a round, after a red sibling has been rotated away.\<close>

definition fixup_tail_l ::
  "ptr \<Rightarrow> ptr \<Rightarrow> ptr \<Rightarrow> ptr \<Rightarrow> rbstate \<Rightarrow> (ptr \<times> rbstate) option" where
  "fixup_tail_l rt0 node prnt sibling s =
     (if color s (left s sibling) = Black \<and> color s (right s sibling) = Black then
        let s = set_color sibling Red s
        in rb_delete_fixup_loop rt0 prnt (parent s prnt) s
      else
        let outer = (color s (right s sibling) = Black);
            s = (if outer then rightrotate sibling (set_color sibling Red
                   (set_color (left s sibling) Black s)) else s);
            prnt = (if outer then parent s node else prnt);
            sibling = (if outer then right s prnt else sibling);
            s = set_color sibling (color s prnt) s;
            s = set_color prnt Black s;
            s = set_color (right s sibling) Black s;
            s = leftrotate prnt s
        in rb_delete_fixup_loop rt0 rt0 prnt s)"

definition fixup_tail_r ::
  "ptr \<Rightarrow> ptr \<Rightarrow> ptr \<Rightarrow> ptr \<Rightarrow> rbstate \<Rightarrow> (ptr \<times> rbstate) option" where
  "fixup_tail_r rt0 node prnt sibling s =
     (if color s (left s sibling) = Black \<and> color s (right s sibling) = Black then
        let s = set_color sibling Red s
        in rb_delete_fixup_loop rt0 prnt (parent s prnt) s
      else
        let outer = (color s (left s sibling) = Black);
            s = (if outer then leftrotate sibling (set_color sibling Red
                   (set_color (right s sibling) Black s)) else s);
            prnt = (if outer then parent s node else prnt);
            sibling = (if outer then left s prnt else sibling);
            s = set_color sibling (color s prnt) s;
            s = set_color prnt Black s;
            s = set_color (left s sibling) Black s;
            s = rightrotate prnt s
        in rb_delete_fixup_loop rt0 rt0 prnt s)"

lemma fixup_loop_unfold:
  "rb_delete_fixup_loop rt0 node prnt s =
     (if node \<noteq> rt0 \<and> color s node = Black then
        if node = left s prnt then
          if color s (right s prnt) = Red then
            let s = leftrotate prnt (set_color prnt Red (set_color (right s prnt) Black s))
            in fixup_tail_l rt0 node (parent s node) (right s (parent s node)) s
          else fixup_tail_l rt0 node prnt (right s prnt) s
        else
          if color s (left s prnt) = Red then
            let s = rightrotate prnt (set_color prnt Red (set_color (left s prnt) Black s))
            in fixup_tail_r rt0 node (parent s node) (left s (parent s node)) s
          else fixup_tail_r rt0 node prnt (left s prnt) s
      else Some (node, s))"
  by (subst rb_delete_fixup_loop.simps)
    (cases "color s (right s prnt)"; cases "color s (left s prnt)";
     simp only: fixup_tail_l_def fixup_tail_r_def Let_def refl color.distinct if_True if_False)

lemma fixup_loop_exit: "rb_delete_fixup_loop rt0 rt0 p s = Some (rt0, s)"
  by (simp add: rb_delete_fixup_loop.simps)


lemma fixup_tail_l_up:
  assumes "zip_at s (LF p c (Br sl q Black sr) # k) t" and "color_of sl = Black" and "color_of sr = Black"
  shows "fixup_tail_l rt0 (rootp t) p q s = rb_delete_fixup_loop rt0 p (cpar k) (set_color q Red s) \<and>
    zip_at (set_color q Red s) k (Br (t) p c (Br sl q Red sr))"
proof
  have z: "zip_at s k (Br (t) p c (Br sl q Black sr))"
    using assms(1) by (simp add: zip_at_left)
  then show "zip_at (set_color q Red s) k (Br (t) p c (Br sl q Red sr))"
    using zip_at_recolor_r [OF z, of Red] by simp
  show "fixup_tail_l rt0 (rootp t) p q s = rb_delete_fixup_loop rt0 p (cpar k) (set_color q Red s)"
    using z assms(2,3) color_rootp [of s q sl] color_rootp [of s q sr]
    by (simp add: fixup_tail_l_def zip_at_def)
qed

lemma fixup_tail_l_far:
  assumes "zip_at s (LF p c (Br sl q Black sr) # k) t" and "color_of sr = Red"
  shows "\<exists>s1. fixup_tail_l rt0 (rootp t) p q s = Some (rt0, s1) \<and>
    zip_at s1 k (Br (Br (t) p Black (sl)) q c (paint Black sr)) \<and> color s1 p = Black"
proof -
  obtain fl f fr where f: "sr = Br fl f Red fr" using assms(2) by (cases sr) auto
  let ?s0 = "set_color f Black (set_color p Black (set_color q c s))"
  let ?s1 = "leftrotate p ?s0"
  have z: "zip_at s k (Br (t) p c (Br sl q Black sr))"
    using assms(1) by (simp add: zip_at_left)
  have "zip_at (set_color q c s) k (Br (t) p c (Br sl q c sr))"
    using zip_at_recolor_r [OF z, of c] by simp
  then have "zip_at (set_color p Black (set_color q c s)) k (Br (t) p Black (Br sl q c sr))"
    by (rule zip_at_recolor_Br)
  then have "zip_at ?s0 k (Br (t) p Black (Br sl q c (Br fl f Black fr)))"
    using zip_at_recolor_r [of _ "RF t p Black # k" sl q c sr Black]
    by (simp add: zip_at_right f)
  from leftrotate_zip [OF this]
  have z1: "zip_at ?s1 k (Br (Br (t) p Black (sl)) q c (paint Black sr))"
    by (simp add: f)
  moreover have "fixup_tail_l rt0 (rootp t) p q s = rb_delete_fixup_loop rt0 rt0 p ?s1"
    using z by (simp add: fixup_tail_l_def zip_at_def f Let_def; elim conjE; simp)
  moreover have "color ?s1 p = Black" using z1 by (simp add: zip_at_def)
  ultimately show ?thesis by (simp add: fixup_loop_exit)
qed

lemma fixup_tail_l_near:
  assumes "zip_at s (LF p c (Br sl q Black sr) # k) t" and "sl = Br a x Red b" and "color_of sr = Black"
    and "t = Tip \<Longrightarrow> parent s nil = p"
  shows "\<exists>s1. fixup_tail_l rt0 (rootp t) p q s = Some (rt0, s1) \<and>
    zip_at s1 k (Br (Br (t) p Black (a)) x c (Br (b) q Black (sr))) \<and> color s1 p = Black"
proof -
  let ?s0 = "rightrotate q (set_color q Red (set_color x Black s))"
  let ?s1 = "leftrotate p (set_color q Black (set_color p Black (set_color x c ?s0)))"
  note nr = assms(2)
  have z: "zip_at s k (Br (t) p c (Br sl q Black sr))"
    using assms(1) by (simp add: zip_at_left)
  then have "zip_at s (RF t p c # k) (Br sl q Black sr)" by (simp add: zip_at_right)
  from zip_at_recolor_Br [OF zip_at_recolor_l [OF this, of Black], of Red]
  have zq: "zip_at (set_color q Red (set_color x Black s)) (RF t p c # k) (Br (Br a x Black b) q Red sr)"
    by (simp add: nr)
  from rightrotate_zip [OF this]
  have z0: "zip_at ?s0 k (Br (t) p c (Br a x Black (Br b q Red sr)))"
    by (simp add: zip_at_right)
  have par: "parent ?s0 (rootp t) = p"
    using z0 assms(4) rotate_parent_nil(2) [OF zq] by (cases t) (simp_all add: zip_at_def)
  have rd: "right ?s0 p = x" "color ?s0 p = c" "right ?s0 x = q"
    using z0 by (simp_all add: zip_at_def)
  have "zip_at (set_color x c ?s0) k (Br (t) p c (Br a x c (Br b q Red sr)))"
    using zip_at_recolor_r [OF z0, of c] by simp
  then have "zip_at (set_color p Black (set_color x c ?s0)) k (Br (t) p Black (Br a x c (Br b q Red sr)))"
    by (rule zip_at_recolor_Br)
  then have "zip_at (set_color q Black (set_color p Black (set_color x c ?s0))) k
      (Br (t) p Black (Br a x c (Br b q Black sr)))"
    using zip_at_recolor_r [of _ "RF t p Black # k" "a" x c "Br b q Red sr" Black]
    by (simp add: zip_at_right)
  from leftrotate_zip [OF this]
  have z1: "zip_at ?s1 k (Br (Br (t) p Black (a)) x c (Br (b) q Black (sr)))" .
  moreover have "fixup_tail_l rt0 (rootp t) p q s = rb_delete_fixup_loop rt0 rt0 p ?s1"
  proof -
    have "left s q = rootp sl" "right s q = rootp sr" "color s x = Red" "color s (rootp sr) = Black"
      using z assms(3) nr color_rootp [of s q sr] by (simp_all add: zip_at_def)
    then show ?thesis using par rd nr by (simp add: fixup_tail_l_def Let_def)
  qed
  moreover have "color ?s1 p = Black" using z1 by (simp add: zip_at_def)
  ultimately show ?thesis by (simp add: fixup_loop_exit)
qed

lemma fixup_tail_r_up:
  assumes "zip_at s (RF (Br sl q Black sr) p c # k) t" and "color_of sl = Black" and "color_of sr = Black"
  shows "fixup_tail_r rt0 (rootp t) p q s = rb_delete_fixup_loop rt0 p (cpar k) (set_color q Red s) \<and>
    zip_at (set_color q Red s) k (Br (Br sl q Red sr) p c (t))"
proof
  have z: "zip_at s k (Br (Br sl q Black sr) p c (t))"
    using assms(1) by (simp add: zip_at_right)
  then show "zip_at (set_color q Red s) k (Br (Br sl q Red sr) p c (t))"
    using zip_at_recolor_l [OF z, of Red] by simp
  show "fixup_tail_r rt0 (rootp t) p q s = rb_delete_fixup_loop rt0 p (cpar k) (set_color q Red s)"
    using z assms(2,3) color_rootp [of s q sl] color_rootp [of s q sr]
    by (simp add: fixup_tail_r_def zip_at_def)
qed

lemma fixup_tail_r_far:
  assumes "zip_at s (RF (Br sl q Black sr) p c # k) t" and "color_of sl = Red"
  shows "\<exists>s1. fixup_tail_r rt0 (rootp t) p q s = Some (rt0, s1) \<and>
    zip_at s1 k (Br (paint Black sl) q c (Br (sr) p Black (t))) \<and> color s1 p = Black"
proof -
  obtain fl f fr where f: "sl = Br fl f Red fr" using assms(2) by (cases sl) auto
  let ?s0 = "set_color f Black (set_color p Black (set_color q c s))"
  let ?s1 = "rightrotate p ?s0"
  have z: "zip_at s k (Br (Br sl q Black sr) p c (t))"
    using assms(1) by (simp add: zip_at_right)
  have "zip_at (set_color q c s) k (Br (Br sl q c sr) p c (t))"
    using zip_at_recolor_l [OF z, of c] by simp
  then have "zip_at (set_color p Black (set_color q c s)) k (Br (Br sl q c sr) p Black (t))"
    by (rule zip_at_recolor_Br)
  then have "zip_at ?s0 k (Br (Br (Br fl f Black fr) q c sr) p Black (t))"
    using zip_at_recolor_l [of _ "LF p Black t # k" sl q c sr Black]
    by (simp add: zip_at_left f)
  from rightrotate_zip [OF this]
  have z1: "zip_at ?s1 k (Br (paint Black sl) q c (Br (sr) p Black (t)))"
    by (simp add: f)
  moreover have "fixup_tail_r rt0 (rootp t) p q s = rb_delete_fixup_loop rt0 rt0 p ?s1"
    using z by (simp add: fixup_tail_r_def zip_at_def f Let_def; elim conjE; simp)
  moreover have "color ?s1 p = Black" using z1 by (simp add: zip_at_def)
  ultimately show ?thesis by (simp add: fixup_loop_exit)
qed

lemma fixup_tail_r_near:
  assumes "zip_at s (RF (Br sl q Black sr) p c # k) t" and "sr = Br a x Red b" and "color_of sl = Black"
    and "t = Tip \<Longrightarrow> parent s nil = p"
  shows "\<exists>s1. fixup_tail_r rt0 (rootp t) p q s = Some (rt0, s1) \<and>
    zip_at s1 k (Br (Br (sl) q Black (a)) x c (Br (b) p Black (t))) \<and> color s1 p = Black"
proof -
  let ?s0 = "leftrotate q (set_color q Red (set_color x Black s))"
  let ?s1 = "rightrotate p (set_color q Black (set_color p Black (set_color x c ?s0)))"
  note nr = assms(2)
  have z: "zip_at s k (Br (Br sl q Black sr) p c (t))"
    using assms(1) by (simp add: zip_at_right)
  then have "zip_at s (LF p c t # k) (Br sl q Black sr)" by (simp add: zip_at_left)
  from zip_at_recolor_Br [OF zip_at_recolor_r [OF this, of Black], of Red]
  have zq: "zip_at (set_color q Red (set_color x Black s)) (LF p c t # k) (Br sl q Red (Br a x Black b))"
    by (simp add: nr)
  from leftrotate_zip [OF this]
  have z0: "zip_at ?s0 k (Br (Br (Br sl q Red a) x Black b) p c (t))"
    by (simp add: zip_at_left)
  have par: "parent ?s0 (rootp t) = p"
    using z0 assms(4) rotate_parent_nil(1) [OF zq] by (cases t) (simp_all add: zip_at_def)
  have rd: "left ?s0 p = x" "color ?s0 p = c" "left ?s0 x = q"
    using z0 by (simp_all add: zip_at_def)
  have "zip_at (set_color x c ?s0) k (Br (Br (Br sl q Red a) x c b) p c (t))"
    using zip_at_recolor_l [OF z0, of c] by simp
  then have "zip_at (set_color p Black (set_color x c ?s0)) k (Br (Br (Br sl q Red a) x c b) p Black (t))"
    by (rule zip_at_recolor_Br)
  then have "zip_at (set_color q Black (set_color p Black (set_color x c ?s0))) k
      (Br (Br (Br sl q Black a) x c b) p Black (t))"
    using zip_at_recolor_l [of _ "LF p Black t # k" "Br sl q Red a" x c "b" Black]
    by (simp add: zip_at_left)
  from rightrotate_zip [OF this]
  have z1: "zip_at ?s1 k (Br (Br (sl) q Black (a)) x c (Br (b) p Black (t)))" .
  moreover have "fixup_tail_r rt0 (rootp t) p q s = rb_delete_fixup_loop rt0 rt0 p ?s1"
  proof -
    have "left s q = rootp sl" "right s q = rootp sr" "color s x = Red" "color s (rootp sl) = Black"
      using z assms(3) nr color_rootp [of s q sl] by (simp_all add: zip_at_def)
    then show ?thesis using par rd nr by (simp add: fixup_tail_r_def Let_def)
  qed
  moreover have "color ?s1 p = Black" using z1 by (simp add: zip_at_def)
  ultimately show ?thesis by (simp add: fixup_loop_exit)
qed

lemma hole_not_root:
  assumes "zip_at s k t" and "k \<noteq> []"
  shows "rootp t \<noteq> root s"
proof (cases "t = Tip")
  case True
  have "root s \<in> set (ctx_nodes k)" "nil \<notin> set (ctx_nodes k)"
    using assms root_in_ctx [of s "rootp t" k] ctx_at_nil [of s "rootp t" k] by (simp_all add: zip_at_def)
  with True show ?thesis by auto
next
  case False
  with zip_at_root [OF assms(1)] assms(2) show ?thesis by simp
qed

lemma fixup_tail_l_step:
  assumes "zip_at s (LF p c u # k) t" and "color_of u = Black" and "u \<noteq> Tip"
    and "t = Tip \<Longrightarrow> parent s nil = p"
  shows "case redist_l p c t u of
      Inl v \<Rightarrow> \<exists>s1. fixup_tail_l rt0 (rootp t) p (rootp u) s = rb_delete_fixup_loop rt0 p (cpar k) s1 \<and>
        zip_at s1 k v \<and> root s1 = root s \<and> rootp v = p \<and> color_of v = c
    | Inr v \<Rightarrow> \<exists>s1. fixup_tail_l rt0 (rootp t) p (rootp u) s = Some (rt0, s1) \<and>
        zip_at s1 k v \<and> color s1 p = Black"
proof -
  obtain sl q sr where u: "u = Br sl q Black sr" using assms(2,3) by (cases u) auto
  note z = assms(1) [unfolded u]
  show ?thesis
  proof (cases "color_of sr")
    case Red
    from fixup_tail_l_far [OF z Red, of rt0] Red show ?thesis by (simp add: u)
  next
    case Black
    show ?thesis
    proof (cases "color_of sl")
      case near: Red
      then obtain a x b where n: "sl = Br a x Red b" by (cases sl) auto
      from fixup_tail_l_near [OF z n Black assms(4), of rt0] Black show ?thesis by (simp add: u n)
    next
      case near: Black
      from fixup_tail_l_up [OF z, of rt0] near Black show ?thesis
        by (simp add: u) (metis read_write(20))
    qed
  qed
qed

lemma fixup_red_sibling_l:
  assumes "zip_at s (LF p c (Br sl q Red sr) # k) t" and "color_of t = Black"
    and "t = Tip \<Longrightarrow> parent s nil = p"
  shows "\<exists>s1. zip_at s1 (LF p Red sl # LF q Black sr # k) t \<and> (t = Tip \<longrightarrow> parent s1 nil = p) \<and>
    rb_delete_fixup_loop (root s) (rootp t) p s = fixup_tail_l (root s) (rootp t) p (rootp sl) s1"
proof -
  let ?s0 = "set_color p Red (set_color q Black s)"
  let ?s1 = "leftrotate p ?s0"
  have z: "zip_at s k (Br (t) p c (Br sl q Red sr))" using assms(1) by (simp add: zip_at_left)
  have z0: "zip_at ?s0 k (Br (t) p Red (Br sl q Black sr))"
    using zip_at_recolor_Br [OF zip_at_recolor_r [OF z, of Black], of Red] by simp
  have z1: "zip_at ?s1 (LF p Red sl # LF q Black sr # k) t"
    using leftrotate_zip [OF z0] by (simp add: zip_at_left)
  moreover have pn: "t = Tip \<longrightarrow> parent ?s1 nil = p"
    using rotate_parent_nil(1) [OF z0] assms(3) by simp
  moreover have "rb_delete_fixup_loop (root s) (rootp t) p s = fixup_tail_l (root s) (rootp t) p (rootp sl) ?s1"
  proof -
    have "rootp t \<noteq> root s" by (rule hole_not_root [OF assms(1)]) simp
    moreover have "color s (rootp t) = Black"
      using assms(1,2) color_rootp [of s p t] by (simp add: zip_at_def)
    moreover have "left s p = rootp t" "right s p = q" "color s q = Red" "rootp t \<noteq> q"
      using z by (cases t; simp add: zip_at_def)+
    moreover have "parent ?s1 (rootp t) = p" "right ?s1 p = rootp sl"
      using z1 pn by (cases t; simp add: zip_at_def)+
    ultimately show ?thesis
      by (subst fixup_loop_unfold) (simp add: Let_def)
  qed
  ultimately show ?thesis by blast
qed

lemma fixup_black_sibling_l:
  assumes "zip_at s (LF p c u # k) t" and "color_of t = Black" and "color_of u = Black" and "u \<noteq> Tip"
  shows "rb_delete_fixup_loop (root s) (rootp t) p s = fixup_tail_l (root s) (rootp t) p (rootp u) s"
proof -
  have z: "zip_at s k (Br (t) p c (u))" using assms(1) by (simp add: zip_at_left)
  have "rootp t \<noteq> root s" by (rule hole_not_root [OF assms(1)]) simp
  moreover have "color s (rootp t) = Black" "color s (rootp u) = Black"
    using z assms(2,3) color_rootp [of s p t] color_rootp [of s p u] by (simp_all add: zip_at_def)
  moreover have "left s p = rootp t" "right s p = rootp u"
    using z by (simp_all add: zip_at_def)
  moreover have "rootp t \<noteq> rootp u"
    using z assms(4) by (cases t; cases u) (auto simp: zip_at_def)
  ultimately show ?thesis by (subst fixup_loop_unfold) simp
qed

lemma fixup_tail_r_step:
  assumes "zip_at s (RF u p c # k) t" and "color_of u = Black" and "u \<noteq> Tip"
    and "t = Tip \<Longrightarrow> parent s nil = p"
  shows "case redist_r p c u t of
      Inl v \<Rightarrow> \<exists>s1. fixup_tail_r rt0 (rootp t) p (rootp u) s = rb_delete_fixup_loop rt0 p (cpar k) s1 \<and>
        zip_at s1 k v \<and> root s1 = root s \<and> rootp v = p \<and> color_of v = c
    | Inr v \<Rightarrow> \<exists>s1. fixup_tail_r rt0 (rootp t) p (rootp u) s = Some (rt0, s1) \<and>
        zip_at s1 k v \<and> color s1 p = Black"
proof -
  obtain sl q sr where u: "u = Br sl q Black sr" using assms(2,3) by (cases u) auto
  note z = assms(1) [unfolded u]
  show ?thesis
  proof (cases "color_of sl")
    case Red
    from fixup_tail_r_far [OF z Red, of rt0] Red show ?thesis by (simp add: u)
  next
    case Black
    show ?thesis
    proof (cases "color_of sr")
      case near: Red
      then obtain a x b where n: "sr = Br a x Red b" by (cases sr) auto
      from fixup_tail_r_near [OF z n Black assms(4), of rt0] Black show ?thesis by (simp add: u n)
    next
      case near: Black
      from fixup_tail_r_up [OF z, of rt0] near Black show ?thesis
        by (simp add: u) (metis read_write(20))
    qed
  qed
qed

lemma fixup_red_sibling_r:
  assumes "zip_at s (RF (Br sl q Red sr) p c # k) t" and "color_of t = Black"
    and "t = Tip \<Longrightarrow> parent s nil = p"
  shows "\<exists>s1. zip_at s1 (RF sr p Red # RF sl q Black # k) t \<and> (t = Tip \<longrightarrow> parent s1 nil = p) \<and>
    rb_delete_fixup_loop (root s) (rootp t) p s = fixup_tail_r (root s) (rootp t) p (rootp sr) s1"
proof -
  let ?s0 = "set_color p Red (set_color q Black s)"
  let ?s1 = "rightrotate p ?s0"
  have z: "zip_at s k (Br (Br sl q Red sr) p c (t))" using assms(1) by (simp add: zip_at_right)
  have z0: "zip_at ?s0 k (Br (Br sl q Black sr) p Red (t))"
    using zip_at_recolor_Br [OF zip_at_recolor_l [OF z, of Black], of Red] by simp
  have z1: "zip_at ?s1 (RF sr p Red # RF sl q Black # k) t"
    using rightrotate_zip [OF z0] by (simp add: zip_at_right)
  moreover have pn: "t = Tip \<longrightarrow> parent ?s1 nil = p"
    using rotate_parent_nil(2) [OF z0] assms(3) by simp
  moreover have "rb_delete_fixup_loop (root s) (rootp t) p s = fixup_tail_r (root s) (rootp t) p (rootp sr) ?s1"
  proof -
    have "rootp t \<noteq> root s" by (rule hole_not_root [OF assms(1)]) simp
    moreover have "color s (rootp t) = Black"
      using assms(1,2) color_rootp [of s p t] by (simp add: zip_at_def)
    moreover have "left s p = q" "right s p = rootp t" "color s q = Red" "rootp t \<noteq> q"
      using z by (cases t; simp add: zip_at_def)+
    moreover have "parent ?s1 (rootp t) = p" "left ?s1 p = rootp sr"
      using z1 pn by (cases t; simp add: zip_at_def)+
    ultimately show ?thesis
      by (subst fixup_loop_unfold) (simp add: Let_def)
  qed
  ultimately show ?thesis by blast
qed

lemma fixup_black_sibling_r:
  assumes "zip_at s (RF u p c # k) t" and "color_of t = Black" and "color_of u = Black" and "u \<noteq> Tip"
  shows "rb_delete_fixup_loop (root s) (rootp t) p s = fixup_tail_r (root s) (rootp t) p (rootp u) s"
proof -
  have z: "zip_at s k (Br (u) p c (t))" using assms(1) by (simp add: zip_at_right)
  have "rootp t \<noteq> root s" by (rule hole_not_root [OF assms(1)]) simp
  moreover have "color s (rootp t) = Black" "color s (rootp u) = Black"
    using z assms(2,3) color_rootp [of s p t] color_rootp [of s p u] by (simp_all add: zip_at_def)
  moreover have "left s p = rootp u" "right s p = rootp t"
    using z by (simp_all add: zip_at_def)
  moreover have "rootp t \<noteq> rootp u"
    using z assms(4) by (cases t; cases u) (auto simp: zip_at_def)
  ultimately show ?thesis by (subst fixup_loop_unfold) simp
qed

lemma repr_set_color_same:
  "zip_at s k t \<Longrightarrow> color s x = c \<Longrightarrow> repr (set_color x c s) (plug k t)"
  by (simp add: set_color_same flip: zip_at_plug)

lemma ctx_root_black:
  assumes "zip_at s k t" and "k \<noteq> []" and "top_black k"
  shows "root s = frame_ptr (last k) \<and> color s (frame_ptr (last k)) = Black"
  using assms last_frame [of s "rootp t" k] by (auto simp: zip_at_def top_black_def)

text \<open>The last assignment of the loop's caller colours the old root black, which it is.\<close>

lemma finish_hole:
  assumes "zip_at s (f # k) t" and "top_black (f # k)" and "zip_at s1 k v" and "color s1 (frame_ptr f) = Black"
  shows "repr (set_color (root s) Black s1) (plug k v)"
proof -
  have "color s1 (root s) = Black"
  proof (cases "k = []")
    case True
    with ctx_root_black [OF assms(1) _ assms(2)] assms(4) show ?thesis by simp
  next
    case False
    with ctx_root_black [OF assms(1) _ assms(2)] ctx_root_black [OF assms(3) False top_black_tail [OF assms(2)]]
    show ?thesis by simp
  qed
  from repr_set_color_same [OF assms(3) this] show ?thesis .
qed

lemma finish_hole_red_sibling:
  assumes "zip_at s (f # k) t" and "top_black (f # k)" and "zip_at s1 (g # k) v"
    and "frame_col g = Black" and "color s1 (frame_ptr f) = Black"
  shows "repr (set_color (root s) Black s1) (plug (g # k) v)"
proof -
  have "color s1 (root s) = Black"
  proof (cases "k = []")
    case True
    with ctx_root_black [OF assms(1) _ assms(2)] assms(5) show ?thesis by simp
  next
    case False
    then have "top_black (g # k)" using assms(2) by (cases k) auto
    with False ctx_root_black [OF assms(1) _ assms(2)] ctx_root_black [OF assms(3)]
    show ?thesis by simp
  qed
  from repr_set_color_same [OF assms(3) this] show ?thesis .
qed

lemma fixup_loop_red:
  assumes "zip_at s k t" and "color_of t = Red"
  shows "rb_delete_fixup_loop rt0 (rootp t) p s = Some (rootp t, s) \<and>
    repr (set_color (rootp t) Black s) (plug k (paint Black t))"
proof
  have "color s (rootp t) = Red" using assms color_rootp [of s "cpar k" t] by (simp add: zip_at_def)
  then show "rb_delete_fixup_loop rt0 (rootp t) p s = Some (rootp t, s)"
    by (subst fixup_loop_unfold) simp
  have "t \<noteq> Tip" using assms(2) by auto
  from zip_at_recolor [OF assms(1) this, of Black]
  show "repr (set_color (rootp t) Black s) (plug k (paint Black t))" by (simp flip: zip_at_plug)
qed

lemma fixup_loop_top:
  assumes "repr s t"
  shows "rb_delete_fixup_loop (root s) (rootp t) p s = Some (rootp t, s) \<and>
    repr (set_color (rootp t) Black s) (paint Black t)"
proof -
  have r: "root s = rootp t" using assms by (simp add: zip_at_def)
  have "repr (set_color (rootp t) Black s) (paint Black t)"
  proof (cases "t = Tip")
    case True
    with assms have "color s nil = Black" by (simp add: zip_at_def nil_ok_def)
    with assms True show ?thesis by (simp add: set_color_same)
  next
    case False
    with zip_at_recolor [OF assms False] show ?thesis by simp
  qed
  with r show ?thesis by (simp add: fixup_loop_exit)
qed

lemma fixup_loop_l:
  assumes z: "zip_at s (LF p c u # k) t" and hole: "hole_ok (LF p c u # k) t" and blk: "color_of t = Black"
    and nilp: "t = Tip \<Longrightarrow> parent s nil = p"
  shows "(\<exists>s1 v. rb_delete_fixup_loop (root s) (rootp t) p s = rb_delete_fixup_loop (root s) p (cpar k) s1 \<and>
      zip_at s1 k v \<and> root s1 = root s \<and> rootp v = p \<and> v \<noteq> Tip \<and> hole_ok k v \<and> del_fix (LF p c u # k) t = del_fix k v) \<or>
    (\<exists>n s'. rb_delete_fixup_loop (root s) (rootp t) p s = Some (n, s') \<and>
      repr (set_color n Black s') (del_fix (LF p c u # k) t))"
proof -
  have top: "top_black (LF p c u # k)" and bhu: "bh u = Suc (bh t)" using hole by (simp_all add: hole_ok_def)
  show ?thesis
  proof (cases "color_of u")
    case Black
    have u: "u \<noteq> Tip" using bhu by auto
    have dx: "del_fix (LF p c u # k) t = (case redist_l p c t u of Inl v \<Rightarrow> del_fix k v | Inr v \<Rightarrow> plug k v)"
      using blk Black by (cases u) auto
    note eq = fixup_black_sibling_l [OF z blk Black u]
    show ?thesis
    proof (cases "redist_l p c t u")
      case (Inl v)
      with fixup_tail_l_step [OF z Black u nilp, of "root s"] redist_l_step [OF hole blk Black]
      have "v \<noteq> Tip" by (cases u) (auto split: if_splits ptree.splits)
      moreover obtain s1 where "fixup_tail_l (root s) (rootp t) p (rootp u) s = rb_delete_fixup_loop (root s) p (cpar k) s1"
        "zip_at s1 k v" "root s1 = root s" "rootp v = p"
        using fixup_tail_l_step [OF z Black u nilp, of "root s"] Inl by auto
      moreover have "hole_ok k v" using redist_l_step [OF hole blk Black] Inl by auto
      ultimately show ?thesis using eq dx Inl
        by (intro disjI1 exI [of _ s1] exI [of _ v]) simp
    next
      case (Inr v)
      with fixup_tail_l_step [OF z Black u nilp, of "root s"]
      obtain s1 where "fixup_tail_l (root s) (rootp t) p (rootp u) s = Some (root s, s1)"
        "zip_at s1 k v" "color s1 p = Black" by auto
      then show ?thesis using finish_hole [OF z top, of s1 v] Inr eq dx
        by (intro disjI2 exI [of _ "root s"] exI [of _ s1]) simp
    qed
  next
    case Red
    then obtain sl q sr where u: "u = Br sl q Red sr" by (cases u) auto
    have sib: "color_of sl = Black" "bh sl = Suc (bh t)"
      using hole by (auto simp: u hole_ok_def)
    then have ntip: "sl \<noteq> Tip" by auto
    have dx: "del_fix (LF p c u # k) t = (case redist_l p Red t sl of
        Inl v \<Rightarrow> plug (LF q Black sr # k) (paint Black v) | Inr v \<Rightarrow> plug (LF q Black sr # k) v)"
      using blk by (simp add: u)
    obtain s1 where s1: "zip_at s1 (LF p Red sl # LF q Black sr # k) t" "t = Tip \<Longrightarrow> parent s1 nil = p"
      "rb_delete_fixup_loop (root s) (rootp t) p s = fixup_tail_l (root s) (rootp t) p (rootp sl) s1"
      using fixup_red_sibling_l [OF z [unfolded u] blk nilp] by blast
    note st = fixup_tail_l_step [OF s1(1) sib(1) ntip s1(2), of "root s"]
    show ?thesis
    proof (cases "redist_l p Red t sl")
      case (Inl v)
      with st obtain s2 where s2: "rb_delete_fixup_loop (root s) (rootp t) p s = rb_delete_fixup_loop (root s) p q s2"
        "zip_at s2 (LF q Black sr # k) v" "rootp v = p" "color_of v = Red" using s1(3) by auto
      from fixup_loop_red [OF s2(2,4), of "root s" q] s2(1,3) Inl dx show ?thesis
        by (intro disjI2 exI [of _ p] exI [of _ s2]) simp
    next
      case (Inr v)
      with st obtain s2 where s2: "rb_delete_fixup_loop (root s) (rootp t) p s = Some (root s, s2)"
        "zip_at s2 (LF q Black sr # k) v" "color s2 p = Black" using s1(3) by auto
      from finish_hole_red_sibling [OF z top s2(2)] s2 Inr dx show ?thesis
        by (intro disjI2 exI [of _ "root s"] exI [of _ s2]) simp
    qed
  qed
qed

lemma fixup_loop_r:
  assumes z: "zip_at s (RF u p c # k) t" and hole: "hole_ok (RF u p c # k) t" and blk: "color_of t = Black"
    and nilp: "t = Tip \<Longrightarrow> parent s nil = p"
  shows "(\<exists>s1 v. rb_delete_fixup_loop (root s) (rootp t) p s = rb_delete_fixup_loop (root s) p (cpar k) s1 \<and>
      zip_at s1 k v \<and> root s1 = root s \<and> rootp v = p \<and> v \<noteq> Tip \<and> hole_ok k v \<and> del_fix (RF u p c # k) t = del_fix k v) \<or>
    (\<exists>n s'. rb_delete_fixup_loop (root s) (rootp t) p s = Some (n, s') \<and>
      repr (set_color n Black s') (del_fix (RF u p c # k) t))"
proof -
  have top: "top_black (RF u p c # k)" and bhu: "bh u = Suc (bh t)" using hole by (simp_all add: hole_ok_def)
  show ?thesis
  proof (cases "color_of u")
    case Black
    have u: "u \<noteq> Tip" using bhu by auto
    have dx: "del_fix (RF u p c # k) t = (case redist_r p c u t of Inl v \<Rightarrow> del_fix k v | Inr v \<Rightarrow> plug k v)"
      using blk Black by (cases u) auto
    note eq = fixup_black_sibling_r [OF z blk Black u]
    show ?thesis
    proof (cases "redist_r p c u t")
      case (Inl v)
      with fixup_tail_r_step [OF z Black u nilp, of "root s"] redist_r_step [OF hole blk Black]
      have "v \<noteq> Tip" by (cases u) (auto split: if_splits ptree.splits)
      moreover obtain s1 where "fixup_tail_r (root s) (rootp t) p (rootp u) s = rb_delete_fixup_loop (root s) p (cpar k) s1"
        "zip_at s1 k v" "root s1 = root s" "rootp v = p"
        using fixup_tail_r_step [OF z Black u nilp, of "root s"] Inl by auto
      moreover have "hole_ok k v" using redist_r_step [OF hole blk Black] Inl by auto
      ultimately show ?thesis using eq dx Inl
        by (intro disjI1 exI [of _ s1] exI [of _ v]) simp
    next
      case (Inr v)
      with fixup_tail_r_step [OF z Black u nilp, of "root s"]
      obtain s1 where "fixup_tail_r (root s) (rootp t) p (rootp u) s = Some (root s, s1)"
        "zip_at s1 k v" "color s1 p = Black" by auto
      then show ?thesis using finish_hole [OF z top, of s1 v] Inr eq dx
        by (intro disjI2 exI [of _ "root s"] exI [of _ s1]) simp
    qed
  next
    case Red
    then obtain sl q sr where u: "u = Br sl q Red sr" by (cases u) auto
    have sib: "color_of sr = Black" "bh sr = Suc (bh t)"
      using hole by (auto simp: u hole_ok_def)
    then have ntip: "sr \<noteq> Tip" by auto
    have dx: "del_fix (RF u p c # k) t = (case redist_r p Red sr t of
        Inl v \<Rightarrow> plug (RF sl q Black # k) (paint Black v) | Inr v \<Rightarrow> plug (RF sl q Black # k) v)"
      using blk by (simp add: u)
    obtain s1 where s1: "zip_at s1 (RF sr p Red # RF sl q Black # k) t" "t = Tip \<Longrightarrow> parent s1 nil = p"
      "rb_delete_fixup_loop (root s) (rootp t) p s = fixup_tail_r (root s) (rootp t) p (rootp sr) s1"
      using fixup_red_sibling_r [OF z [unfolded u] blk nilp] by blast
    note st = fixup_tail_r_step [OF s1(1) sib(1) ntip s1(2), of "root s"]
    show ?thesis
    proof (cases "redist_r p Red sr t")
      case (Inl v)
      with st obtain s2 where s2: "rb_delete_fixup_loop (root s) (rootp t) p s = rb_delete_fixup_loop (root s) p q s2"
        "zip_at s2 (RF sl q Black # k) v" "rootp v = p" "color_of v = Red" using s1(3) by auto
      from fixup_loop_red [OF s2(2,4), of "root s" q] s2(1,3) Inl dx show ?thesis
        by (intro disjI2 exI [of _ p] exI [of _ s2]) simp
    next
      case (Inr v)
      with st obtain s2 where s2: "rb_delete_fixup_loop (root s) (rootp t) p s = Some (root s, s2)"
        "zip_at s2 (RF sl q Black # k) v" "color s2 p = Black" using s1(3) by auto
      from finish_hole_red_sibling [OF z top s2(2)] s2 Inr dx show ?thesis
        by (intro disjI2 exI [of _ "root s"] exI [of _ s2]) simp
    qed
  qed
qed

theorem rb_delete_fixup_loop_zip:
  "zip_at s k t \<Longrightarrow> hole_ok k t \<Longrightarrow> (t = Tip \<Longrightarrow> parent s nil = cpar k) \<Longrightarrow>
     \<exists>n s'. rb_delete_fixup_loop (root s) (rootp t) (cpar k) s = Some (n, s') \<and>
       repr (set_color n Black s') (del_fix k t)"
proof (induction "length k" arbitrary: k t s)
  case 0
  with fixup_loop_top [of s t] show ?case by auto
next
  case (Suc m)
  show ?case
  proof (cases "color_of t")
    case Red
    with fixup_loop_red [OF Suc.prems(1) Red, of "root s" "cpar k"] Suc.hyps(2) show ?thesis
      by (cases "(k, t)" rule: del_fix.cases) auto
  next
    case Black
    from Suc.hyps(2) obtain f k' where k: "k = f # k'" by (cases k) auto
    show ?thesis
    proof (cases f)
      case (LF p c u)
      from fixup_loop_l [of s p c u k' t] Suc Black k LF show ?thesis by fastforce
    next
      case (RF u p c)
      from fixup_loop_r [of s u p c k' t] Suc Black k RF show ?thesis by fastforce
    qed
  qed
qed

section \<open>Taking a node out\<close>

text \<open>The code of \<^verbatim>\<open>node_delete\<close> that links the only child of a node to its parent.\<close>

definition unhook :: "ptr \<Rightarrow> ptr \<Rightarrow> rbstate \<Rightarrow> rbstate" where
  "unhook delnode child s =
     (let prnt = parent s delnode;
          s = set_parent child prnt s
      in if prnt = nil then s\<lparr>root := child\<rparr>
         else if delnode = left s prnt then set_left prnt child s
         else set_right prnt child s)"

lemma set_parent_nil [simp]:
  "tree_at (set_parent nil v s) up t = tree_at s up t"
  "ctx_at (set_parent nil v s) x k = ctx_at s x k"
proof -
  show tree: "tree_at (set_parent nil v s) up t = tree_at s up t" for up t
    by (induction t arbitrary: up) auto
  show "ctx_at (set_parent nil v s) x k = ctx_at s x k"
    by (induction k arbitrary: x rule: ctx_nodes.induct) (auto simp: tree)
qed

lemma unhook_zip_r:
  assumes "zip_at s k (Br Tip p c r)"
  shows "zip_at (unhook p (rootp r) s) k r \<and> (r = Tip \<longrightarrow> parent (unhook p (rootp r) s) nil = cpar k)"
  using assms
  by (cases k rule: ctx_nodes.cases; cases r;
      simp add: zip_at_def unhook_def Let_def rootp_notin cong: let_weak_cong; elim conjE; simp)

lemma unhook_zip_l:
  assumes "zip_at s k (Br l p c Tip)"
  shows "zip_at (unhook p (rootp l) s) k l \<and> (l = Tip \<longrightarrow> parent (unhook p (rootp l) s) nil = cpar k)"
  using assms
  by (cases k rule: ctx_nodes.cases; cases l;
      simp add: zip_at_def unhook_def Let_def rootp_notin cong: let_weak_cong; elim conjE; simp)

definition replace_links :: "ptr \<Rightarrow> ptr \<Rightarrow> rbstate \<Rightarrow> rbstate" where
  "replace_links b a s =
     (let s = (if parent s a \<noteq> nil \<and> left s (parent s a) = a then set_left (parent s b) b s else s);
          s = (if parent s a \<noteq> nil \<and> right s (parent s a) = a then set_right (parent s b) b s else s);
          s = (if left s a \<noteq> nil then set_parent (left s b) b s else s);
          s = (if right s a \<noteq> nil then set_parent (right s b) b s else s)
      in if root s = a then s\<lparr>root := b\<rparr> else s)"

lemma replace_links_root:
  assumes "zip_at s [] (Br a x c b)" and "d \<notin> set (inorder (Br a x c b))" and "d \<noteq> nil"
    and "left s d = rootp a" "right s d = rootp b" "parent s d = nil" "color s d = c"
  shows "zip_at (replace_links d x s) [] (Br a d c b)"
  using assms
  by (cases a; cases b;
      simp add: zip_at_def replace_links_def Let_def rootp_notin cong: let_weak_cong; elim conjE; simp)

lemma replace_links_left:
  assumes "zip_at s (LF p e r # k) (Br a x c b)" and "d \<notin> set (inorder (plug (LF p e r # k) (Br a x c b)))" and "d \<noteq> nil"
    and "left s d = rootp a" "right s d = rootp b" "parent s d = p" "color s d = c"
  shows "zip_at (replace_links d x s) (LF p e r # k) (Br a d c b)"
proof -
  have d: "d \<notin> set (ctx_nodes k)" "d \<notin> set (inorder r)" "d \<notin> set (inorder a)" "d \<notin> set (inorder b)" "d \<noteq> x" "d \<noteq> p"
    using assms(2) by (auto simp: set_ctx_nodes)
  have r: "root s \<noteq> x" using zip_at_root [OF assms(1)] by simp
  show ?thesis
    using assms(1,3-) d r
    by (cases a; cases b;
      simp add: zip_at_def replace_links_def Let_def rootp_notin cong: let_weak_cong; elim conjE; simp)
qed

lemma replace_links_right:
  assumes "zip_at s (RF r p e # k) (Br a x c b)" and "d \<notin> set (inorder (plug (RF r p e # k) (Br a x c b)))" and "d \<noteq> nil"
    and "left s d = rootp a" "right s d = rootp b" "parent s d = p" "color s d = c"
  shows "zip_at (replace_links d x s) (RF r p e # k) (Br a d c b)"
proof -
  have d: "d \<notin> set (ctx_nodes k)" "d \<notin> set (inorder r)" "d \<notin> set (inorder a)" "d \<notin> set (inorder b)" "d \<noteq> x" "d \<noteq> p"
    using assms(2) by (auto simp: set_ctx_nodes)
  have r: "root s \<noteq> x" using zip_at_root [OF assms(1)] by simp
  show ?thesis
    using assms(1,3-) d r
    by (cases a; cases b;
      simp add: zip_at_def replace_links_def Let_def rootp_notin cong: let_weak_cong; elim conjE; simp)
qed

lemma elem_replace_zip:
  assumes "zip_at s k (Br a x c b)" and "d \<notin> set (inorder (plug k (Br a x c b)))" and "d \<noteq> nil"
  shows "zip_at (rbtree_elem_replace d x s) k (Br a d c b)"
proof -
  let ?s = "set_color d (color s x) (set_parent d (parent s x) (set_right d (right s x) (set_left d (left s x) s)))"
  have dx: "d \<noteq> x" using assms(2) by auto
  have z: "zip_at ?s k (Br a x c b)"
    using assms by (simp add: zip_at_write_fresh)
  have rd: "left s x = rootp a" "right s x = rootp b" "parent s x = cpar k" "color s x = c"
    using assms(1) by (simp_all add: zip_at_def)
  have eq: "rbtree_elem_replace d x s = replace_links d x ?s"
    using dx by (simp add: rbtree_elem_replace_def replace_links_def Let_def cong: let_weak_cong)
  show ?thesis
    using replace_links_root [of ?s a x c b d] replace_links_left [of ?s _ _ _ _ a x c b d]
      replace_links_right [of ?s _ _ _ _ a x c b d] z assms(2,3) rd
    unfolding eq by (cases k rule: ctx_nodes.cases) simp_all
qed

lemma relabel_notin: "x \<notin> set (inorder t) \<Longrightarrow> relabel x d t = t"
  by (induction t) auto

lemma relabel_plug:
  "x \<notin> set (ctx_nodes k) \<Longrightarrow> relabel x d (plug k t) = plug k (relabel x d t)"
  by (induction k t rule: plug.induct) (auto simp: relabel_notin)

lemma elem_replace_repr:
  assumes "repr s u" and "x \<in> set (inorder u)" and "d \<notin> set (inorder u)" and "d \<noteq> nil"
  shows "repr (rbtree_elem_replace d x s) (relabel x d u)"
proof -
  obtain k a c b where u: "plug k (Br a x c b) = u" using focus_ex [OF assms(2)] by blast
  have z: "zip_at s k (Br a x c b)" using assms(1) by (simp add: zip_at_plug [of s k] u)
  have "x \<notin> set (ctx_nodes k)" "x \<notin> set (inorder a)" "x \<notin> set (inorder b)"
    using z by (auto simp: zip_at_def)
  then have "relabel x d u = plug k (Br a d c b)"
    by (simp flip: u add: relabel_plug relabel_notin)
  with elem_replace_zip [OF z, of d] assms(3,4) show ?thesis
    by (simp add: u flip: zip_at_plug)
qed

lemma minimum_zip:
  "zip_at s k t \<Longrightarrow> t \<noteq> Tip \<Longrightarrow> minpath t k = (m, d, dc, dr) \<Longrightarrow>
     minimum s (rootp t) = Some d \<and> zip_at s m (Br Tip d dc dr)"
proof (induction t k rule: minpath.induct)
  case (2 p c r k)
  then show ?case by (subst minimum.simps) (simp add: zip_at_def)
next
  case (3 a x e b p c r k)
  then have "left s p = x" "x \<noteq> nil" by (auto simp: zip_at_def)
  with 3 show ?case
    by (simp add: minimum.simps [of s p] zip_at_left)
qed simp

lemma unlink_zip:
  assumes z: "zip_at s k (Br l p c r)" and rb: "rb_inv (plug k (Br l p c r))"
    and ch: "l = Tip \<and> ch = r \<or> r = Tip \<and> ch = l"
  shows "\<exists>s'. (if c = Black then rb_delete_fixup (rootp ch) (unhook p (rootp ch) s)
      else Some (unhook p (rootp ch) s)) = Some s' \<and> repr s' (unlink k c ch)"
proof -
  have zs: "zip_at (unhook p (rootp ch) s) k ch" "ch = Tip \<Longrightarrow> parent (unhook p (rootp ch) s) nil = cpar k"
    using ch unhook_zip_r [of s k p c r] unhook_zip_l [of s k l p c] z by auto
  show ?thesis
  proof (cases "c = Black")
    case True
    have "parent (unhook p (rootp ch) s) (rootp ch) = cpar k"
      using zs by (cases ch) (auto simp: zip_at_def)
    with rb_delete_fixup_loop_zip [OF zs(1) unlink_cases(1) [OF rb ch True] zs(2)] True show ?thesis
      by (fastforce simp: rb_delete_fixup_def unlink_def)
  next
    case False
    with zs(1) show ?thesis by (simp add: unlink_def flip: zip_at_plug)
  qed
qed

lemma color_unhook: "color (unhook d ch s) = color s"
  by (simp add: unhook_def Let_def)

lemma node_delete_unhook:
  "node_delete x s =
     (case (if left s x = nil \<or> right s x = nil then Some x else successor s x) of
        None \<Rightarrow> None
      | Some d \<Rightarrow>
          let ch = (if left s d \<noteq> nil then left s d else right s d)
          in case (if color (unhook d ch s) d = Black then rb_delete_fixup ch (unhook d ch s)
                   else Some (unhook d ch s)) of
               None \<Rightarrow> None
             | Some s \<Rightarrow>
                 if d \<noteq> x then
                   Some (set_parent x nil (set_left x nil (set_right x nil (rbtree_elem_replace d x s))))
                 else Some s)"
  unfolding node_delete_def unhook_def Let_def by (rule refl)

lemma node_delete_one:
  assumes "left s x = nil \<or> right s x = nil" and "(if left s x \<noteq> nil then left s x else right s x) = ch"
  shows "node_delete x s =
    (if color s x = Black then rb_delete_fixup ch (unhook x ch s) else Some (unhook x ch s))"
  unfolding node_delete_unhook
  by (simp add: assms color_unhook split: option.split)

lemma node_delete_two:
  assumes "\<not> (left s x = nil \<or> right s x = nil)" and "successor s x = Some d" and "d \<noteq> x"
    and "(if left s d \<noteq> nil then left s d else right s d) = ch"
    and "(if color s d = Black then rb_delete_fixup ch (unhook d ch s) else Some (unhook d ch s)) = Some s1"
  shows "node_delete x s =
    Some (set_parent x nil (set_left x nil (set_right x nil (rbtree_elem_replace d x s1))))"
  unfolding node_delete_unhook
  by (simp only: assms if_False option.case Let_def color_unhook) (simp add: assms(3))

theorem rbtree_delete_repr:
  assumes rep: "repr s (plug k (Br l x c r))" and rb: "rb_inv (plug k (Br l x c r))"
  shows "\<exists>s'. rbtree_delete x s = Some s' \<and> repr s' (del_at k (Br l x c r))"
proof -
  have z: "zip_at s k (Br l x c r)" using rep by (simp add: zip_at_plug [of s k])
  have rd: "left s x = rootp l" "right s x = rootp r" "color s x = c"
    "rootp l = nil \<longleftrightarrow> l = Tip" "rootp r = nil \<longleftrightarrow> r = Tip"
    using z by (auto simp: zip_at_def rootp_nil_iff)
  show ?thesis
  proof (cases "l = Tip \<or> r = Tip")
    case True
    define ch where "ch = (if l = Tip then r else l)"
    have ch: "l = Tip \<and> ch = r \<or> r = Tip \<and> ch = l" using True by (auto simp: ch_def)
    have "(if left s x \<noteq> nil then left s x else right s x) = rootp ch"
      using rd by (auto simp: ch_def)
    moreover have "del_at k (Br l x c r) = unlink k c ch" using ch by (auto simp: ch_def)
    moreover have "left s x = nil \<or> right s x = nil" using rd True by auto
    ultimately show ?thesis
      using unlink_zip [OF z rb ch] rd(3) node_delete_one [of s x "rootp ch"]
      by (simp add: rbtree_delete_def)
  next
    case False
    obtain m d dc dr where m: "minpath r (RF l x c # k) = (m, d, dc, dr)"
      by (cases "minpath r (RF l x c # k)") auto
    have zr: "zip_at s (RF l x c # k) r" using z by (simp add: zip_at_right)
    have mn: "minimum s (rootp r) = Some d" and zm: "zip_at s m (Br Tip d dc dr)"
      using minimum_zip [OF zr _ m] False by auto
    have pl: "plug m (Br Tip d dc dr) = plug k (Br l x c r)"
      using plug_minpath [OF _ m] False by simp
    have rdd: "left s d = nil" "right s d = rootp dr" "color s d = dc" "d \<noteq> nil"
      using zm by (simp_all add: zip_at_def)
    obtain s1 where s1: "(if dc = Black then rb_delete_fixup (rootp dr) (unhook d (rootp dr) s)
        else Some (unhook d (rootp dr) s)) = Some s1" "repr s1 (unlink m dc dr)"
      using unlink_zip [OF zm, of dr] rb by (auto simp: pl)
    have io: "inorder (unlink m dc dr) = cpre m @ inorder dr @ cpost m"
      using unlink_props [of m Tip d dc dr dr] rb by (simp add: pl)
    have dist: "distinct (inorder (plug m (Br Tip d dc dr)))" using zm distinct_zip [of "Br Tip d dc dr" m] by (simp add: zip_at_def)
    have dn: "d \<notin> set (inorder (unlink m dc dr))" using dist by (auto simp: io)
    have "cpre m = cpre (RF l x c # k)" using minpath_inorder [OF _ m] False by simp
    then have xin: "x \<in> set (inorder (unlink m dc dr))" by (simp add: io)
    have xd: "d \<noteq> x" using dn xin by auto
    have z2: "repr (rbtree_elem_replace d x s1) (relabel x d (unlink m dc dr))"
      by (rule elem_replace_repr [OF s1(2) xin dn rdd(4)])
    have "x \<notin> set (inorder (relabel x d (unlink m dc dr)))" using xd by auto
    moreover have "x \<noteq> nil" using z by (simp add: zip_at_def)
    ultimately have "repr (set_parent x nil (set_left x nil (set_right x nil (rbtree_elem_replace d x s1))))
        (relabel x d (unlink m dc dr))"
      using z2 by (simp add: zip_at_write_fresh)
    moreover have "del_at k (Br l x c r) = relabel x d (unlink m dc dr)"
      using False m by simp
    moreover have "successor s x = Some d" using mn rd False by (simp add: successor_def)
    ultimately show ?thesis
      using node_delete_two [of s x d "rootp dr" s1] s1(1) rdd rd xd False
      by (simp add: rbtree_delete_def)
  qed
qed

end
