(* ===== verification/Rbtree_Spec.thy ===== *)
theory Rbtree_Spec
  imports Rbtree_Find Rbtree_Delete
begin

text \<open>
  What the red-black tree promises its clients, stated once as an interface over ordered lists
  of nodes and discharged by the heap functions of \<^theory_text>\<open>Rbtree\<close>.
\<close>

section \<open>The interface\<close>

lemma sorted_search_ordered:
  assumes "strict_order lt ok" and "sorted_wrt lt xs" and "\<forall>p\<in>set xs. ok p" and "ok e"
  shows "search_ordered lt e xs"
proof -
  have "\<forall>p\<in>set xs. lt p e \<longrightarrow> \<not> lt e p"
    using strict_order.asym [OF assms(1)] assms(3,4) by blast
  then show ?thesis
    using strict_order.below_down_closed [OF assms(1-3)] strict_order.not_above_down_closed [OF assms(1-3)]
    by (simp add: search_ordered_def)
qed

text \<open>
  A store holds a list of nodes. \<open>lt\<close> is the comparison callback: it need not be a total
  order, elements that compare neither way are duplicates and are kept.
\<close>

locale ordered_store =
  fixes lt :: less_func
    and holds :: "'s \<Rightarrow> ptr list \<Rightarrow> bool"
    and ins :: "ptr \<Rightarrow> 's \<Rightarrow> 's option"
    and del :: "ptr \<Rightarrow> 's \<Rightarrow> 's option"
    and find_eq :: "ptr \<Rightarrow> 's \<Rightarrow> ptr option option"
    and find_ge :: "ptr \<Rightarrow> 's \<Rightarrow> ptr option option"
  assumes holds_nodes: "holds s xs \<Longrightarrow> distinct xs \<and> nil \<notin> set xs"
    and ins_holds: "holds s xs \<Longrightarrow> x \<notin> set xs \<Longrightarrow> x \<noteq> nil \<Longrightarrow> down_closed (\<lambda>p. lt p x) xs \<Longrightarrow>
      \<exists>s'. ins x s = Some s' \<and>
        holds s' (takeWhile (\<lambda>p. lt p x) xs @ x # dropWhile (\<lambda>p. lt p x) xs)"
    and del_holds: "holds s (xs @ x # ys) \<Longrightarrow> \<exists>s'. del x s = Some s' \<and> holds s' (xs @ ys)"
    and find_eq_holds: "holds s xs \<Longrightarrow> search_ordered lt e xs \<Longrightarrow>
      find_eq e s = Some (find (\<lambda>p. \<not> lt p e \<and> \<not> lt e p) xs)"
    and find_ge_holds: "holds s xs \<Longrightarrow> search_ordered lt e xs \<Longrightarrow>
      find_ge e s = Some (find (\<lambda>p. \<not> lt p e) xs)"
begin

text \<open>
  The client's view when the keys are pairwise comparable: inserting keeps the list sorted, and
  an element is found after its insertion and is gone after its deletion.
\<close>

lemma ins_sorted:
  assumes h: "holds s xs" and ord: "strict_order lt ok" and srt: "sorted_wrt lt xs"
    and okx: "\<forall>p\<in>set xs. ok p" "ok x" and cmp: "\<forall>p\<in>set xs. lt p x \<or> lt x p" and x: "x \<noteq> nil"
  shows "\<exists>s' ys. ins x s = Some s' \<and> holds s' ys \<and> sorted_wrt lt ys \<and> set ys = insert x (set xs) \<and>
    find_eq x s' = Some (Some x)"
proof -
  have dc: "down_closed (\<lambda>p. lt p x) xs" by (rule strict_order.below_down_closed [OF ord srt okx(1)])
  have xn: "x \<notin> set xs" using cmp okx strict_order.irrefl [OF ord] by blast
  let ?ys = "filter (\<lambda>p. lt p x) xs @ x # filter (\<lambda>p. \<not> lt p x) xs"
  have tw: "takeWhile (\<lambda>p. lt p x) xs @ x # dropWhile (\<lambda>p. lt p x) xs = ?ys"
    using dc by (simp add: takeWhile_down_closed dropWhile_down_closed)
  obtain s' where s': "ins x s = Some s'" "holds s' ?ys"
    using ins_holds [OF h xn x dc] unfolding tw by blast
  have ss: "sorted_wrt lt ?ys" using strict_order.sorted_insert [OF ord srt okx(1) okx(2)] cmp by blast
  have oky: "\<forall>p\<in>set ?ys. ok p" using okx by auto
  have so: "search_ordered lt x ?ys" by (rule sorted_search_ordered [OF ord ss oky okx(2)])
  have "find (\<lambda>p. \<not> lt p x \<and> \<not> lt x p) ?ys = Some x"
    using cmp strict_order.irrefl [OF ord okx(2)] find_absent [of "filter (\<lambda>p. lt p x) xs" "\<lambda>p. \<not> lt p x \<and> \<not> lt x p"]
    by (simp add: find_append)
  with find_eq_holds [OF s'(2) so] s' ss show ?thesis
    by (intro exI [of _ s'] exI [of _ ?ys]) auto
qed

lemma del_gone:
  assumes h: "holds s (xs @ x # ys)" and ord: "strict_order lt ok" and srt: "sorted_wrt lt (xs @ x # ys)"
    and okx: "\<forall>p\<in>set (xs @ x # ys). ok p"
  shows "\<exists>s'. del x s = Some s' \<and> holds s' (xs @ ys) \<and> find_eq x s' = Some None"
proof -
  obtain s' where s': "del x s = Some s'" "holds s' (xs @ ys)"
    using del_holds [OF h] by blast
  have ss: "sorted_wrt lt (xs @ ys)" using srt by (simp add: sorted_wrt_append)
  have oky: "\<forall>p\<in>set (xs @ ys). ok p" using okx by auto
  have so: "search_ordered lt x (xs @ ys)" by (rule sorted_search_ordered [OF ord ss oky]) (use okx in simp)
  have "find (\<lambda>p. \<not> lt p x \<and> \<not> lt x p) (xs @ ys) = None"
    using srt by (intro find_absent) (auto simp: sorted_wrt_append)
  with find_eq_holds [OF s'(2) so] s' show ?thesis by auto
qed

end

section \<open>The heap functions meet it\<close>

definition rbtree_holds :: "rbstate \<Rightarrow> ptr list \<Rightarrow> bool" where
  "rbtree_holds s xs \<longleftrightarrow> (\<exists>t. repr s t \<and> rb_inv t \<and> inorder t = xs)"

lemma rbtree_init_holds: "rbtree_holds (rbtree_init s) []"
  unfolding rbtree_holds_def
  by (rule exI [of _ Tip]) (simp add: zip_at_def rbtree_init_def Let_def nil_ok_def rb_inv_def)

lemma rbtree_insert_holds:
  assumes "rbtree_holds s xs" and "x \<notin> set xs" and "x \<noteq> nil" and "down_closed (\<lambda>p. lt p x) xs"
  shows "\<exists>s'. rbtree_insert lt x s = Some s' \<and>
    rbtree_holds s' (takeWhile (\<lambda>p. lt p x) xs @ x # dropWhile (\<lambda>p. lt p x) xs)"
proof -
  obtain t where t: "repr s t" "rb_inv t" "inorder t = xs" using assms(1) by (auto simp: rbtree_holds_def)
  obtain s' where "rbtree_insert lt x s = Some s'" "repr s' (ins_at (\<lambda>p. lt p x) x t)"
    using rbtree_insert_repr [OF t(1,2), of x lt] assms(2,3) t(3) by blast
  with rb_inv_ins_at [OF t(2)] inorder_ins_at [of "\<lambda>p. lt p x" t x] assms(4) t(3)
  show ?thesis unfolding rbtree_holds_def by blast
qed

lemma rbtree_delete_holds:
  assumes "rbtree_holds s (xs @ x # ys)"
  shows "\<exists>s'. rbtree_delete x s = Some s' \<and> rbtree_holds s' (xs @ ys)"
proof -
  obtain t where t: "repr s t" "rb_inv t" "inorder t = xs @ x # ys"
    using assms by (auto simp: rbtree_holds_def)
  have d: "distinct (inorder t)" using t(1) by (simp add: zip_at_def)
  obtain k a c b where k: "plug k (Br a x c b) = t" "xs = cpre k @ inorder a" "ys = inorder b @ cpost k"
    using focus_split [OF t(3) d] by blast
  obtain s' where s': "rbtree_delete x s = Some s'" "repr s' (del_at k (Br a x c b))"
    using rbtree_delete_repr [of s k a x c b] t(1,2) by (auto simp: k(1))
  have rb: "rb_inv (plug k (Br a x c b))" and dd: "distinct (inorder (plug k (Br a x c b)))"
    using t(2) d by (simp_all only: k(1))
  from del_at_props [OF rb dd] s' k(2,3) show ?thesis
    unfolding rbtree_holds_def by (intro exI [of _ s'] conjI exI [of _ "del_at k (Br a x c b)"]) auto
qed

interpretation rbt: ordered_store lt rbtree_holds "rbtree_insert lt" rbtree_delete
  "\<lambda>e s. rbtree_find lt e s" "\<lambda>e s. rbtree_find_first lt e s" for lt
proof (unfold_locales)
  show "distinct xs \<and> nil \<notin> set xs" if "rbtree_holds s xs" for s xs
    using that repr_nil_notin by (auto simp: rbtree_holds_def zip_at_def)
  show "\<exists>s'. rbtree_insert lt x s = Some s' \<and>
      rbtree_holds s' (takeWhile (\<lambda>p. lt p x) xs @ x # dropWhile (\<lambda>p. lt p x) xs)"
    if "rbtree_holds s xs" "x \<notin> set xs" "x \<noteq> nil" "down_closed (\<lambda>p. lt p x) xs" for s xs x
    using that by (rule rbtree_insert_holds)
  show "\<exists>s'. rbtree_delete x s = Some s' \<and> rbtree_holds s' (xs @ ys)"
    if "rbtree_holds s (xs @ x # ys)" for s xs x ys
    using that by (rule rbtree_delete_holds)
  show "rbtree_find lt e s = Some (find (\<lambda>p. \<not> lt p e \<and> \<not> lt e p) xs)"
    if "rbtree_holds s xs" "search_ordered lt e xs" for s xs e
    using that rbtree_find_repr by (auto simp: rbtree_holds_def)
  show "rbtree_find_first lt e s = Some (find (\<lambda>p. \<not> lt p e) xs)"
    if "rbtree_holds s xs" "search_ordered lt e xs" for s xs e
    using that rbtree_find_first_repr by (auto simp: rbtree_holds_def)
qed

end
