(* ===== verification/Rbtree_Props.thy ===== *)
theory Rbtree_Props
  imports Rbtree_Spec
begin

text \<open>The properties of the red-black tree, each with a concrete heap on which it applies.\<close>

section \<open>A heap to apply the properties to\<close>

text \<open>Three nodes, 1 and 3 red below 2, and the same heap with an empty tree.\<close>

definition heap123 :: rbstate where
  "heap123 = \<lparr>left = (\<lambda>_. nil)(2 := 1), right = (\<lambda>_. nil)(2 := 3), parent = (\<lambda>_. nil)(1 := 2, 3 := 2),
     color = (\<lambda>_. Black)(1 := Red, 3 := Red), root = 2\<rparr>"

lemma heap123_holds: "rbtree_holds heap123 [1, 2, 3]"
proof -
  let ?t = "Br (Br Tip 1 Red Tip) 2 Black (Br Tip 3 Red Tip)"
  have "repr heap123 ?t" by (simp add: zip_at_def heap123_def nil_ok_def nil_def)
  moreover have "rb_inv ?t" by (simp add: rb_inv_def)
  ultimately show ?thesis unfolding rbtree_holds_def by (intro exI [of _ ?t]) simp
qed

lemma strict_order_nat: "strict_order ((<) :: nat \<Rightarrow> nat \<Rightarrow> bool) (\<lambda>_. True)"
  by unfold_locales auto

section \<open>Properties\<close>

text \<open>
  C1. On the heap, inserting a new node into a tree kept sorted by the comparison callback
  returns, keeps the tree a red-black tree sorted by the callback, adds exactly that node, and
  the node is then found.
\<close>

theorem rbtree_insert_correct:
  assumes "rbtree_holds s xs" and "strict_order lt ok" and "sorted_wrt lt xs"
    and "\<forall>p\<in>set xs. ok p" and "ok x" and "\<forall>p\<in>set xs. lt p x \<or> lt x p" and "x \<noteq> nil"
  shows "\<exists>s' ys. rbtree_insert lt x s = Some s' \<and> rbtree_holds s' ys \<and> sorted_wrt lt ys \<and>
    set ys = insert x (set xs) \<and> rbtree_find lt x s' = Some (Some x)"
  using rbt.ins_sorted [OF assms] .

theorem rbtree_insert_correct_witness:
  "\<exists>s' ys. rbtree_insert (<) 5 heap123 = Some s' \<and> rbtree_holds s' ys \<and> sorted_wrt (<) ys \<and>
    set ys = insert 5 (set [1, 2, 3]) \<and> rbtree_find (<) 5 s' = Some (Some 5)"
  by (rule rbtree_insert_correct [OF heap123_holds strict_order_nat]) (simp_all add: nil_def)

text \<open>
  C2. On the heap, deleting a node of a tree returns, whatever its number of children; the tree
  that is left is a red-black tree of exactly the other nodes in their order, and the node is no
  longer found.
\<close>

theorem rbtree_delete_correct:
  assumes "rbtree_holds s (xs @ x # ys)" and "strict_order lt ok" and "sorted_wrt lt (xs @ x # ys)"
    and "\<forall>p\<in>set (xs @ x # ys). ok p"
  shows "\<exists>s'. rbtree_delete x s = Some s' \<and> rbtree_holds s' (xs @ ys) \<and> rbtree_find lt x s' = Some None"
  using rbt.del_gone [OF assms] .

theorem rbtree_delete_correct_witness:
  "\<exists>s'. rbtree_delete 2 heap123 = Some s' \<and> rbtree_holds s' ([1] @ [3]) \<and> rbtree_find (<) 2 s' = Some None"
  by (rule rbtree_delete_correct [OF _ strict_order_nat]) (use heap123_holds in simp_all)

text \<open>
  C3. The lower-bound search returns the first node, in order, that is not less than the key,
  and NULL when there is none; the exact search returns the first of the nodes equal to the key.
\<close>

theorem rbtree_search_correct:
  assumes "rbtree_holds s xs" and "strict_order lt ok" and "sorted_wrt lt xs"
    and "\<forall>p\<in>set xs. ok p" and "ok e"
  shows "rbtree_find_first lt e s = Some (find (\<lambda>p. \<not> lt p e) xs) \<and>
    rbtree_find lt e s = Some (find (\<lambda>p. \<not> lt p e \<and> \<not> lt e p) xs)"
  using rbt.find_ge_holds rbt.find_eq_holds assms sorted_search_ordered [OF assms(2-5)] by auto

theorem rbtree_search_correct_witness:
  "rbtree_find_first (<) 3 heap123 = Some (Some 3) \<and> rbtree_find (<) 7 heap123 = Some None"
  using rbtree_search_correct [OF heap123_holds strict_order_nat, of 3]
    rbtree_search_correct [OF heap123_holds strict_order_nat, of 7] by simp

text \<open>
  C4. Iteration visits the nodes in order in both directions and ends with NULL: the node after
  and the node before an element are its neighbours in the list of the tree's nodes.
\<close>

theorem rbtree_iteration:
  assumes "rbtree_holds s (xs @ x # ys)"
  shows "rbtree_next s x = Some (case ys of [] \<Rightarrow> None | y # _ \<Rightarrow> Some y) \<and>
    rbtree_prev s x = Some (if xs = [] then None else Some (last xs)) \<and>
    rbtree_begin s = Some (Some (hd (xs @ [x])))"
proof -
  obtain t where t: "repr s t" "inorder t = xs @ x # ys" using assms by (auto simp: rbtree_holds_def)
  show ?thesis
    using rbtree_next_inorder [OF t] rbtree_prev_inorder [OF t] rbtree_begin_inorder [OF t(1)] t(2)
    by (cases xs) simp_all
qed

theorem rbtree_iteration_witness:
  "rbtree_next heap123 2 = Some (Some 3) \<and> rbtree_prev heap123 2 = Some (Some 1) \<and>
   rbtree_begin heap123 = Some (Some 1)"
  using rbtree_iteration [of heap123 "[1]" 2 "[3]"] heap123_holds by simp

text \<open>
  C5. The height of a tree of \<open>n\<close> nodes is at most \<open>2 log (n + 1)\<close>, and the in-order traversal
  calls back every node once, in order: both recursions return.
\<close>

theorem rbtree_balanced:
  assumes "rbtree_holds s xs"
  shows "\<exists>h. rbtree_height s = Some h \<and> 2 ^ h \<le> (length xs + 1)\<^sup>2 \<and> rbtree_inorder s = Some xs"
  using assms rbtree_height_repr rbtree_inorder_repr theight_log by (fastforce simp: rbtree_holds_def)

theorem rbtree_balanced_witness:
  "\<exists>h. rbtree_height heap123 = Some h \<and> 2 ^ h \<le> (length [1, 2, 3 :: ptr] + 1)\<^sup>2 \<and>
    rbtree_inorder heap123 = Some [1, 2, 3]"
  using rbtree_balanced [OF heap123_holds] .

end
