(* ===== verification/Malloc.thy ===== *)
theory Malloc
  imports Prelude
begin

text \<open>
  Memory of the module (\<^verbatim>\<open>mem/malloc.c\<close>, \<^verbatim>\<open>mem/vaddr.h\<close>): the page
  allocator over \<^verbatim>\<open>__vmalloc\<close>, and the pools of sixty chunks from which
  translation blocks, their code and their edges are cut. Addresses and sizes are 32-bit words
  and wrap as the code's do.
\<close>

section \<open>Pages\<close>

text \<open>\<^verbatim>\<open>mem/vaddr.h\<close>; \<open>uintptr_t\<close> is 32 bits wide.\<close>

definition BITMASK :: "nat \<Rightarrow> nat \<Rightarrow> u32" where
  "BITMASK shift cnt = push_bit shift (push_bit cnt 1 - 1)"

definition PGBITS :: nat where "PGBITS = 12"
definition PGSIZE :: u32 where "PGSIZE = push_bit PGBITS 1"
definition PGMASK :: u32 where "PGMASK = BITMASK 0 PGBITS"
definition LPGBITS :: nat where "LPGBITS = 22"
definition LPGMASK :: u32 where "LPGMASK = BITMASK 0 LPGBITS"

definition pg_ofs :: "u32 \<Rightarrow> u32" where
  "pg_ofs va = va AND PGMASK"

definition lpg_ofs :: "u32 \<Rightarrow> u32" where
  "lpg_ofs va = va AND LPGMASK"

definition pg_no :: "u32 \<Rightarrow> u32" where
  "pg_no va = drop_bit PGBITS va"

definition pg_round_up :: "u32 \<Rightarrow> u32" where
  "pg_round_up va = (va + PGSIZE - 1) AND NOT PGMASK"

definition pg_round_down :: "u32 \<Rightarrow> u32" where
  "pg_round_down va = va AND NOT PGMASK"

section \<open>The page allocator\<close>

text \<open>
  What the allocator changes: the bytes it clears and the pages it marks reserved (a page is
  named by its number). \<^verbatim>\<open>__vmalloc\<close> is a parameter \<open>vm\<close>: the address it returns
  for a sz, 0 when it fails. A negative \<^verbatim>\<open>int sz\<close> enters no loop.
\<close>

record vm_state =
  vm_mem :: "u32 \<Rightarrow> u8"
  vm_reserved :: "u32 list"

function reserve_pages :: "u32 \<Rightarrow> int \<Rightarrow> u32 list \<Rightarrow> u32 list" where
  "reserve_pages temp sz r =
     (if sz > 0 then reserve_pages (temp + 4096) (sz - 4096) (pg_no temp # r) else r)"
  by auto
termination by (relation "measure (\<lambda>(_, sz, _). nat sz)") auto

declare reserve_pages.simps [simp del]

function clear_pages :: "u32 \<Rightarrow> int \<Rightarrow> u32 list \<Rightarrow> u32 list" where
  "clear_pages temp sz r =
     (if sz > 0 then clear_pages (temp + 4096) (sz - 4096) (remove1 (pg_no temp) r) else r)"
  by auto
termination by (relation "measure (\<lambda>(_, sz, _). nat sz)") auto

declare clear_pages.simps [simp del]

definition page_align :: "int \<Rightarrow> int" where
  "page_align sz = (sz + 4095) div 4096 * 4096"

definition btalloc :: "(int \<Rightarrow> u32) \<Rightarrow> int \<Rightarrow> vm_state \<Rightarrow> u32 \<times> vm_state" where
  "btalloc vm sz st =
     (let sz = page_align sz;
          addr = vm sz
      in if addr = 0 then (0, st)
         else (addr, st\<lparr>vm_mem := (\<lambda>a. if uint (a - addr) < sz then 0 else vm_mem st a),
                       vm_reserved := reserve_pages addr sz (vm_reserved st)\<rparr>))"

definition btfree :: "u32 \<Rightarrow> int \<Rightarrow> vm_state \<Rightarrow> vm_state" where
  "btfree ptr sz st =
     (if ptr = 0 then st
      else st\<lparr>vm_reserved := clear_pages ptr sz (vm_reserved st)\<rparr>)"

section \<open>Pools and chunks\<close>

definition POOL_TC :: nat where "POOL_TC = 0"
definition POOL_EDGE :: nat where "POOL_EDGE = 1"
definition POOL_KMALLOC :: nat where "POOL_KMALLOC = 2"
definition MAX_CHUNK :: nat where "MAX_CHUNK = 60"
definition MAX_POOL_PAGES :: nat where "MAX_POOL_PAGES = 64"

lemmas pool_defs = POOL_TC_def POOL_EDGE_def POOL_KMALLOC_def MAX_CHUNK_def MAX_POOL_PAGES_def

record chunk_info =
  chunk_start :: u32
  chunk_end :: u32
  chunk_cur :: u32

record malloc_info =
  pool_range :: "(nat \<times> nat) list"
  cinfo :: "chunk_info list"

text \<open>
  \<^verbatim>\<open>malloc_from_pool\<close>: the loop over the chunks of the pool. \<open>None\<close> is the
  \<^verbatim>\<open>BUG()\<close> of a full pool.
\<close>

function malloc_loop :: "malloc_info \<Rightarrow> nat \<Rightarrow> nat \<Rightarrow> u32 \<Rightarrow> (u32 \<times> malloc_info) option" where
  "malloc_loop info i e sz =
     (if i < e then
        let c = cinfo info ! i in
        if chunk_cur c + sz \<le> chunk_end c then
          Some (chunk_cur c, info\<lparr>cinfo := (cinfo info)[i := c\<lparr>chunk_cur := chunk_cur c + sz\<rparr>]\<rparr>)
        else malloc_loop info (i + 1) e sz
      else None)"
  by auto
termination by (relation "measure (\<lambda>(_, i, e, _). e - i)") auto

declare malloc_loop.simps [simp del]

definition malloc_from_pool :: "malloc_info \<Rightarrow> nat \<Rightarrow> u32 \<Rightarrow> (u32 \<times> malloc_info) option" where
  "malloc_from_pool info pool sz =
     malloc_loop info (fst (pool_range info ! pool)) (snd (pool_range info ! pool)) sz"

text \<open>
  \<^verbatim>\<open>pool_alloc_pages\<close>: \<open>vms\<close> lists what the successive calls of
  \<^verbatim>\<open>__vmalloc\<close> return. When one fails the chunks filled so far stay as they are.
\<close>

fun pool_alloc_pages :: "(int \<Rightarrow> u32) list \<Rightarrow> nat \<Rightarrow> malloc_info \<Rightarrow> vm_state \<Rightarrow> bool \<times> malloc_info \<times> vm_state" where
  "pool_alloc_pages [] i info st = (True, info, st)"
| "pool_alloc_pages (vm # vms) i info st =
     (let (p, st) = btalloc vm (int MAX_POOL_PAGES * 4096) st in
      if p = 0 then (False, info, st)
      else pool_alloc_pages vms (i + 1)
        (info\<lparr>cinfo := (cinfo info)[i := \<lparr>chunk_start = p,
           chunk_end = p + of_nat (MAX_POOL_PAGES * 4096) - 16, chunk_cur = p\<rparr>]\<rparr>) st)"

fun addr_to_chunk_from :: "chunk_info list \<Rightarrow> nat \<Rightarrow> u32 \<Rightarrow> int" where
  "addr_to_chunk_from [] i addr = -1"
| "addr_to_chunk_from (c # cs) i addr =
     (if addr \<ge> chunk_start c \<and> addr < chunk_end c then int i else addr_to_chunk_from cs (i + 1) addr)"

definition addr_to_chunk :: "malloc_info \<Rightarrow> u32 \<Rightarrow> int" where
  "addr_to_chunk info addr = addr_to_chunk_from (cinfo info) 0 addr"

definition addr_to_pool :: "malloc_info \<Rightarrow> u32 \<Rightarrow> int" where
  "addr_to_pool info addr =
     (let chunk_id = addr_to_chunk info addr in
      if chunk_id \<ge> 0 \<and> chunk_id < 24 then int POOL_TC
      else if chunk_id \<ge> 24 \<and> chunk_id < 40 then int POOL_EDGE
      else -1)"

definition malloc_uninit :: "malloc_info \<Rightarrow> vm_state \<Rightarrow> vm_state" where
  "malloc_uninit info st =
     foldl (\<lambda>st c. btfree (chunk_start c) (int MAX_POOL_PAGES * 4096) st) st (cinfo info)"

definition init_pool_range :: "malloc_info \<Rightarrow> malloc_info" where
  "init_pool_range info =
     info\<lparr>pool_range := (pool_range info)[POOL_TC := (0, 24), POOL_EDGE := (24, 40), POOL_KMALLOC := (40, 60)]\<rparr>"

definition malloc_init :: "(int \<Rightarrow> u32) list \<Rightarrow> malloc_info \<Rightarrow> vm_state \<Rightarrow> bool \<times> malloc_info \<times> vm_state" where
  "malloc_init vms info st =
     (case pool_alloc_pages vms 0 info st of
        (False, info, st) \<Rightarrow> (False, info, st)
      | (True, info, st) \<Rightarrow> (True, init_pool_range info, st))"

section \<open>The invariant of the pools\<close>

text \<open>
  Each chunk has its cursor between its ends, chunks do not overlap, and the pools are the
  three ranges of chunks that \<^verbatim>\<open>init_pool_range\<close> sets.
\<close>

definition chunk_ok :: "chunk_info \<Rightarrow> bool" where
  "chunk_ok c \<longleftrightarrow> chunk_start c \<le> chunk_cur c \<and> chunk_cur c \<le> chunk_end c"

definition chunk_addrs :: "chunk_info \<Rightarrow> nat set" where
  "chunk_addrs c = {unat (chunk_start c)..<unat (chunk_end c)}"

definition used_addrs :: "chunk_info \<Rightarrow> nat set" where
  "used_addrs c = {unat (chunk_start c)..<unat (chunk_cur c)}"

definition pool_ok :: "malloc_info \<Rightarrow> bool" where
  "pool_ok info \<longleftrightarrow> length (cinfo info) = MAX_CHUNK \<and> pool_range info = [(0, 24), (24, 40), (40, 60)] \<and>
     (\<forall>c\<in>set (cinfo info). chunk_ok c) \<and>
     (\<forall>i<MAX_CHUNK. \<forall>j<MAX_CHUNK. i \<noteq> j \<longrightarrow> chunk_addrs (cinfo info ! i) \<inter> chunk_addrs (cinfo info ! j) = {})"

text \<open>The addresses handed out of a pool so far, and of all pools.\<close>

definition pool_used :: "malloc_info \<Rightarrow> nat \<Rightarrow> nat set" where
  "pool_used info pool =
     (\<Union>i\<in>{fst (pool_range info ! pool)..<snd (pool_range info ! pool)}. used_addrs (cinfo info ! i))"

definition all_used :: "malloc_info \<Rightarrow> nat set" where
  "all_used info = (\<Union>c\<in>set (cinfo info). used_addrs c)"

text \<open>
  The test \<open>chunk_cur + size \<le> chunk_end\<close> is done on wrapped words. A request is plain when the
  sum does not wrap in any chunk; the module's requests are far smaller than the space above
  the kernel's \<^verbatim>\<open>vmalloc\<close> area.
\<close>

definition plain_request :: "malloc_info \<Rightarrow> u32 \<Rightarrow> bool" where
  "plain_request info sz \<longleftrightarrow> (\<forall>c\<in>set (cinfo info). unat (chunk_end c) + unat sz < 2 ^ 32)"

text \<open>The loop takes the first chunk with room.\<close>

lemma from_step:
  "(\<forall>k. i \<le> k \<and> k < e \<longrightarrow> P k) \<longleftrightarrow> (i < e \<longrightarrow> P i \<and> (\<forall>k. i + 1 \<le> k \<and> k < e \<longrightarrow> P k))"
  for i e :: nat
proof
  assume r: "i < e \<longrightarrow> P i \<and> (\<forall>k. i + 1 \<le> k \<and> k < e \<longrightarrow> P k)"
  have "P k" if "i \<le> k" "k < e" for k
    using r that by (cases "k = i") auto
  then show "\<forall>k. i \<le> k \<and> k < e \<longrightarrow> P k" by blast
qed auto

lemma malloc_loop_Some:
  "malloc_loop info i e sz = Some (p, info') \<Longrightarrow>
     \<exists>j. i \<le> j \<and> j < e \<and> p = chunk_cur (cinfo info ! j) \<and>
       chunk_cur (cinfo info ! j) + sz \<le> chunk_end (cinfo info ! j) \<and>
       (\<forall>k. i \<le> k \<and> k < j \<longrightarrow> \<not> chunk_cur (cinfo info ! k) + sz \<le> chunk_end (cinfo info ! k)) \<and>
       info' = info\<lparr>cinfo := (cinfo info)[j := (cinfo info ! j)\<lparr>chunk_cur := chunk_cur (cinfo info ! j) + sz\<rparr>]\<rparr>"
proof (induction info i e sz rule: malloc_loop.induct)
  case (1 info i e sz)
  show ?case
  proof (cases "i < e \<and> chunk_cur (cinfo info ! i) + sz \<le> chunk_end (cinfo info ! i)")
    case True
    then show ?thesis
      using "1.prems" by (intro exI [of _ i]) (auto simp: malloc_loop.simps [of info i] Let_def)
  next
    case False
    then have lt: "i < e" and no: "\<not> chunk_cur (cinfo info ! i) + sz \<le> chunk_end (cinfo info ! i)"
      and rec: "malloc_loop info (i + 1) e sz = Some (p, info')"
      using "1.prems" by (auto simp: malloc_loop.simps [of info i] Let_def split: if_splits)
    from "1.IH" [OF lt refl no rec] obtain j where j: "i + 1 \<le> j" "j < e" "p = chunk_cur (cinfo info ! j)"
      "chunk_cur (cinfo info ! j) + sz \<le> chunk_end (cinfo info ! j)"
      "\<forall>k. i + 1 \<le> k \<and> k < j \<longrightarrow> \<not> chunk_cur (cinfo info ! k) + sz \<le> chunk_end (cinfo info ! k)"
      "info' = info\<lparr>cinfo := (cinfo info)[j := (cinfo info ! j)\<lparr>chunk_cur := chunk_cur (cinfo info ! j) + sz\<rparr>]\<rparr>"
      by blast
    then show ?thesis using no from_step [of i j "\<lambda>k. \<not> chunk_cur (cinfo info ! k) + sz \<le> chunk_end (cinfo info ! k)"]
      by (intro exI [of _ j]) auto
  qed
qed

lemma malloc_loop_None:
  "malloc_loop info i e sz = None \<longleftrightarrow>
     (\<forall>k. i \<le> k \<and> k < e \<longrightarrow> \<not> chunk_cur (cinfo info ! k) + sz \<le> chunk_end (cinfo info ! k))"
proof (induction info i e sz rule: malloc_loop.induct)
  case (1 info i e sz)
  show ?case
  proof (cases "i < e \<and> \<not> chunk_cur (cinfo info ! i) + sz \<le> chunk_end (cinfo info ! i)")
    case True
    with "1.IH" [OF _ refl] show ?thesis
      by (subst malloc_loop.simps, subst from_step) (simp add: Let_def)
  next
    case False
    then show ?thesis by (subst malloc_loop.simps, subst from_step) (auto simp: Let_def)
  qed
qed

lemma unat_add_plain: "unat a + unat b < 2 ^ 32 \<Longrightarrow> unat (a + b) = unat a + unat b" for a b :: u32
  by (simp add: unat_word_ariths)


lemma nth_update: "xs[j := y] ! i = (if i = j \<and> j < length xs then y else xs ! i)"
  by (cases "j < length xs") (auto simp: list_update_beyond)

lemma nth_update_set: "i < length xs \<Longrightarrow> set (xs[i := y]) \<subseteq> insert y (set xs)"
  by (simp add: set_update_subset_insert)

text \<open>One allocation, on the invariant.\<close>

lemma malloc_from_pool_alloc:
  assumes ok: "pool_ok info" and pool: "pool < 3" and plain: "plain_request info sz"
    and res: "malloc_from_pool info pool sz = Some (p, info')"
  obtains j where "fst (pool_range info ! pool) \<le> j" "j < snd (pool_range info ! pool)" "j < MAX_CHUNK"
    "p = chunk_cur (cinfo info ! j)"
    "unat (chunk_cur (cinfo info ! j) + sz) = unat (chunk_cur (cinfo info ! j)) + unat sz"
    "unat (chunk_cur (cinfo info ! j)) + unat sz \<le> unat (chunk_end (cinfo info ! j))"
    "info' = info\<lparr>cinfo := (cinfo info)[j := (cinfo info ! j)\<lparr>chunk_cur := chunk_cur (cinfo info ! j) + sz\<rparr>]\<rparr>"
proof -
  obtain j where j: "fst (pool_range info ! pool) \<le> j" "j < snd (pool_range info ! pool)"
    "p = chunk_cur (cinfo info ! j)" "chunk_cur (cinfo info ! j) + sz \<le> chunk_end (cinfo info ! j)"
    "info' = info\<lparr>cinfo := (cinfo info)[j := (cinfo info ! j)\<lparr>chunk_cur := chunk_cur (cinfo info ! j) + sz\<rparr>]\<rparr>"
    using malloc_loop_Some res unfolding malloc_from_pool_def by blast
  have len: "length (cinfo info) = 60" and pr: "pool_range info = [(0, 24), (24, 40), (40, 60)]"
    using ok by (simp_all add: pool_ok_def pool_defs)
  have "pool = 0 \<or> pool = 1 \<or> pool = 2" using pool by auto
  then have j60: "j < 60" using j(2) pr by auto
  then have mem: "cinfo info ! j \<in> set (cinfo info)" using len by simp
  then have le: "chunk_cur (cinfo info ! j) \<le> chunk_end (cinfo info ! j)"
    using ok by (auto simp: pool_ok_def chunk_ok_def)
  have "unat (chunk_end (cinfo info ! j)) + unat sz < 2 ^ 32"
    using plain mem by (simp add: plain_request_def)
  with le have eq: "unat (chunk_cur (cinfo info ! j) + sz) = unat (chunk_cur (cinfo info ! j)) + unat sz"
    by (intro unat_add_plain) (simp add: word_le_nat_alt)
  with j(4) have "unat (chunk_cur (cinfo info ! j)) + unat sz \<le> unat (chunk_end (cinfo info ! j))"
    by (simp add: word_le_nat_alt)
  with j j60 eq show thesis by (intro that [of j]) (simp_all add: pool_defs)
qed

lemma pool_ok_update:
  assumes ok: "pool_ok info" and j: "j < MAX_CHUNK"
    and cur: "chunk_cur (cinfo info ! j) \<le> c" "c \<le> chunk_end (cinfo info ! j)"
  shows "pool_ok (info\<lparr>cinfo := (cinfo info)[j := (cinfo info ! j)\<lparr>chunk_cur := c\<rparr>]\<rparr>)"
proof -
  let ?c' = "(cinfo info ! j)\<lparr>chunk_cur := c\<rparr>"
  have len: "length (cinfo info) = MAX_CHUNK" using ok by (simp add: pool_ok_def)
  have addrs: "chunk_addrs ((cinfo info)[j := ?c'] ! i) = chunk_addrs (cinfo info ! i)" if "i < MAX_CHUNK" for i
    using that j len by (cases "i = j") (auto simp: chunk_addrs_def)
  have "cinfo info ! j \<in> set (cinfo info)" using j len by simp
  then have "chunk_ok ?c'" using ok cur by (auto simp: pool_ok_def chunk_ok_def)
  moreover have "set ((cinfo info)[j := ?c']) \<subseteq> insert ?c' (set (cinfo info))"
    by (rule set_update_subset_insert)
  ultimately show ?thesis
    using ok addrs unfolding pool_ok_def by (simp add: len) blast
qed

theorem malloc_from_pool_ok:
  assumes ok: "pool_ok info" and pool: "pool < 3" and plain: "plain_request info sz"
    and res: "malloc_from_pool info pool sz = Some (p, info')"
  shows "pool_ok info'"
    and "pool_range info' = pool_range info" and "plain_request info' n \<longleftrightarrow> plain_request info n"
    and "{unat p..<unat p + unat sz} \<subseteq> pool_used info' pool"
    and "all_used info' = all_used info \<union> {unat p..<unat p + unat sz}"
    and "{unat p..<unat p + unat sz} \<inter> all_used info = {}"
proof -
  obtain j where j: "fst (pool_range info ! pool) \<le> j" "j < snd (pool_range info ! pool)" "j < MAX_CHUNK"
    "p = chunk_cur (cinfo info ! j)"
    "unat (chunk_cur (cinfo info ! j) + sz) = unat (chunk_cur (cinfo info ! j)) + unat sz"
    "unat (chunk_cur (cinfo info ! j)) + unat sz \<le> unat (chunk_end (cinfo info ! j))"
    "info' = info\<lparr>cinfo := (cinfo info)[j := (cinfo info ! j)\<lparr>chunk_cur := chunk_cur (cinfo info ! j) + sz\<rparr>]\<rparr>"
    by (rule malloc_from_pool_alloc [OF assms])
  have len: "length (cinfo info) = MAX_CHUNK" using ok by (simp add: pool_ok_def)
  let ?cj = "cinfo info ! j"
  have cj: "chunk_ok ?cj" using ok j(3) len by (simp add: pool_ok_def)
  show "pool_ok info'"
    unfolding j(7)
    by (rule pool_ok_update [OF ok j(3)]) (use j(5,6) in \<open>simp_all add: word_le_nat_alt\<close>)
  show "pool_range info' = pool_range info" by (simp add: j(7))
  have ends: "chunk_end ` set (cinfo info') = chunk_end ` set (cinfo info)"
  proof -
    have "map chunk_end (cinfo info') = map chunk_end (cinfo info)"
      using j(3) len by (auto simp: j(7) list_eq_iff_nth_eq nth_list_update)
    then show ?thesis by (metis set_map)
  qed
  show "plain_request info' n \<longleftrightarrow> plain_request info n"
    using ends unfolding plain_request_def by (metis (no_types, lifting) image_iff)
  have uj: "used_addrs (cinfo info' ! j) = used_addrs ?cj \<union> {unat p..<unat p + unat sz}"
    using cj j(3,4,5) len by (auto simp: j(7) used_addrs_def chunk_ok_def word_le_nat_alt)
  have other: "cinfo info' ! i = cinfo info ! i" if "i \<noteq> j" for i
    using that by (simp add: j(7))
  show "{unat p..<unat p + unat sz} \<subseteq> pool_used info' pool"
    using uj j(1,2) by (auto simp: pool_used_def j(7))
  have all: "all_used i = (\<Union>k<MAX_CHUNK. used_addrs (cinfo i ! k))" if "length (cinfo i) = MAX_CHUNK" for i
    using that by (auto simp: all_used_def set_conv_nth)
  have len': "length (cinfo info') = MAX_CHUNK" by (simp add: j(7) len)
  show "all_used info' = all_used info \<union> {unat p..<unat p + unat sz}"
  proof -
    have "used_addrs (cinfo info' ! k) =
        used_addrs (cinfo info ! k) \<union> (if k = j then {unat p..<unat p + unat sz} else {})" for k
      using uj other [of k] by auto
    then show ?thesis
      unfolding all [OF len] all [OF len'] using j(3) by (auto split: if_splits)
  qed
  show "{unat p..<unat p + unat sz} \<inter> all_used info = {}"
  proof -
    have "{unat p..<unat p + unat sz} \<inter> used_addrs (cinfo info ! k) = {}" if "k < MAX_CHUNK" for k
    proof (cases "k = j")
      case True
      then show ?thesis by (auto simp: used_addrs_def j(4))
    next
      case False
      have "{unat p..<unat p + unat sz} \<subseteq> chunk_addrs ?cj"
        using cj j(4,6) by (auto simp: chunk_addrs_def chunk_ok_def word_le_nat_alt)
      moreover have "used_addrs (cinfo info ! k) \<subseteq> chunk_addrs (cinfo info ! k)"
      proof -
        have "chunk_ok (cinfo info ! k)" using ok that len by (simp add: pool_ok_def)
        then show ?thesis by (auto simp: used_addrs_def chunk_addrs_def chunk_ok_def word_le_nat_alt)
      qed
      moreover have "chunk_addrs ?cj \<inter> chunk_addrs (cinfo info ! k) = {}"
        using ok False that j(3) by (simp add: pool_ok_def)
      ultimately show ?thesis by blast
    qed
    then show ?thesis unfolding all [OF len] by blast
  qed
qed

lemma malloc_plain_end:
  assumes "pool_ok info" and "pool < 3" and "plain_request info sz"
    and "malloc_from_pool info pool sz = Some (p, info')"
  shows "unat p + unat sz < 2 ^ 32"
proof -
  obtain j where j: "j < MAX_CHUNK" "p = chunk_cur (cinfo info ! j)"
    "unat (chunk_cur (cinfo info ! j)) + unat sz \<le> unat (chunk_end (cinfo info ! j))"
    using malloc_from_pool_alloc [OF assms] by metis
  moreover have "unat (chunk_end (cinfo info ! j)) < 2 ^ 32" using unsigned_less [of "chunk_end (cinfo info ! j)", where 'a = nat] by simp
  ultimately show ?thesis by simp
qed

section \<open>Which pool an address belongs to\<close>

lemma addr_to_chunk_from_hit:
  "i < length cs \<Longrightarrow> addr \<ge> chunk_start (cs ! i) \<Longrightarrow> addr < chunk_end (cs ! i) \<Longrightarrow>
     (\<forall>j<i. \<not> (addr \<ge> chunk_start (cs ! j) \<and> addr < chunk_end (cs ! j))) \<Longrightarrow>
     addr_to_chunk_from cs n addr = int (n + i)"
proof (induction cs arbitrary: i n)
  case (Cons c cs)
  show ?case
  proof (cases i)
    case 0
    with Cons.prems show ?thesis by simp
  next
    case (Suc k)
    have "\<not> (addr \<ge> chunk_start c \<and> addr < chunk_end c)" using Cons.prems(4) Suc by (auto dest: spec [of _ 0])
    moreover have "\<forall>j<k. \<not> (addr \<ge> chunk_start (cs ! j) \<and> addr < chunk_end (cs ! j))"
      using Cons.prems(4) Suc by (metis Suc_mono nth_Cons_Suc)
    ultimately show ?thesis using Cons.IH [of k "n + 1"] Cons.prems Suc by (simp only: addr_to_chunk_from.simps) simp
  qed
qed simp

lemma addr_to_chunk_pool:
  assumes "pool_ok info" and "j < MAX_CHUNK" and "unat addr \<in> chunk_addrs (cinfo info ! j)"
  shows "addr_to_chunk info addr = int j"
proof -
  have len: "length (cinfo info) = MAX_CHUNK" using assms(1) by (simp add: pool_ok_def)
  have "\<not> (addr \<ge> chunk_start (cinfo info ! k) \<and> addr < chunk_end (cinfo info ! k))" if "k < j" for k
  proof
    assume "addr \<ge> chunk_start (cinfo info ! k) \<and> addr < chunk_end (cinfo info ! k)"
    then have "unat addr \<in> chunk_addrs (cinfo info ! k)"
      by (simp add: chunk_addrs_def word_le_nat_alt word_less_nat_alt)
    moreover have "chunk_addrs (cinfo info ! k) \<inter> chunk_addrs (cinfo info ! j) = {}"
      using assms(1,2) that by (simp add: pool_ok_def)
    ultimately show False using assms(3) by blast
  qed
  with addr_to_chunk_from_hit [of j "cinfo info" addr 0] assms(2,3) len show ?thesis
    by (simp add: addr_to_chunk_def chunk_addrs_def word_le_nat_alt word_less_nat_alt)
qed

theorem addr_to_pool_alloc:
  assumes "pool_ok info" and "pool < 3" and "plain_request info sz"
    and "malloc_from_pool info pool sz = Some (p, info')"
    and "unat p \<le> unat addr" and "unat addr < unat p + unat sz"
  shows "addr_to_pool info' addr = (if pool = POOL_KMALLOC then -1 else int pool)"
proof -
  obtain j where j: "fst (pool_range info ! pool) \<le> j" "j < snd (pool_range info ! pool)" "j < MAX_CHUNK"
    "p = chunk_cur (cinfo info ! j)"
    "unat (chunk_cur (cinfo info ! j)) + unat sz \<le> unat (chunk_end (cinfo info ! j))"
    "info' = info\<lparr>cinfo := (cinfo info)[j := (cinfo info ! j)\<lparr>chunk_cur := chunk_cur (cinfo info ! j) + sz\<rparr>]\<rparr>"
    using malloc_from_pool_alloc [OF assms(1-4)] by metis
  have ok': "pool_ok info'" by (rule malloc_from_pool_ok(1) [OF assms(1-4)])
  have len: "length (cinfo info) = MAX_CHUNK" using assms(1) by (simp add: pool_ok_def)
  have "chunk_ok (cinfo info ! j)" using assms(1) j(3) len by (simp add: pool_ok_def)
  then have "unat addr \<in> chunk_addrs (cinfo info' ! j)"
    using assms(5,6) j len by (simp add: chunk_addrs_def chunk_ok_def word_le_nat_alt)
  from addr_to_chunk_pool [OF ok' j(3) this] have c: "addr_to_chunk info' addr = int j" .
  have pr: "pool_range info = [(0, 24), (24, 40), (40, 60)]" using assms(1) by (simp add: pool_ok_def)
  have "pool = 0 \<or> pool = 1 \<or> pool = 2" using assms(2) by auto
  then show ?thesis
    using c j(1,2) pr by (auto simp: addr_to_pool_def pool_defs)
qed

text \<open>Allocation moves cursors only, so it does not change which chunk an address is in.\<close>

lemma addr_to_chunk_from_cong:
  "map chunk_start cs = map chunk_start cs' \<Longrightarrow> map chunk_end cs = map chunk_end cs' \<Longrightarrow>
     addr_to_chunk_from cs i addr = addr_to_chunk_from cs' i addr"
proof (induction cs i addr arbitrary: cs' rule: addr_to_chunk_from.induct)
  case (2 c cs i addr)
  then obtain d ds where "cs' = d # ds" "chunk_start d = chunk_start c" "chunk_end d = chunk_end c"
    "map chunk_start cs = map chunk_start ds" "map chunk_end cs = map chunk_end ds"
    by (cases cs') auto
  with "2.IH" [of ds] show ?case by simp
qed simp

lemma addr_to_pool_same:
  assumes "malloc_from_pool info pool sz = Some (p, info')"
  shows "addr_to_pool info' addr = addr_to_pool info addr"
proof -
  obtain j where "info' = info\<lparr>cinfo := (cinfo info)[j := (cinfo info ! j)\<lparr>chunk_cur := chunk_cur (cinfo info ! j) + sz\<rparr>]\<rparr>"
    using malloc_loop_Some assms unfolding malloc_from_pool_def by blast
  then have "addr_to_chunk info' addr = addr_to_chunk info addr"
    unfolding addr_to_chunk_def
    by (intro addr_to_chunk_from_cong) (auto simp: list_eq_iff_nth_eq nth_update)
  then show ?thesis by (simp add: addr_to_pool_def)
qed

section \<open>Initialisation\<close>

definition fresh_chunk :: "u32 \<Rightarrow> chunk_info" where
  "fresh_chunk p = \<lparr>chunk_start = p, chunk_end = p + 262144 - 16, chunk_cur = p\<rparr>"

lemma pool_alloc_pages_all:
  "(\<forall>vm\<in>set vms. vm 262144 \<noteq> 0) \<Longrightarrow> i + length vms \<le> length (cinfo info) \<Longrightarrow>
     \<exists>info' st'. pool_alloc_pages vms i info st = (True, info', st') \<and> pool_range info' = pool_range info \<and>
       cinfo info' = take i (cinfo info) @ map (\<lambda>vm. fresh_chunk (vm 262144)) vms @ drop (i + length vms) (cinfo info)"
proof (induction vms arbitrary: i info st)
  case (Cons vm vms)
  let ?info = "info\<lparr>cinfo := (cinfo info)[i := fresh_chunk (vm 262144)]\<rparr>"
  obtain st1 where st1: "btalloc vm (int MAX_POOL_PAGES * 4096) st = (vm 262144, st1)"
    using Cons.prems(1) by (auto simp: btalloc_def page_align_def MAX_POOL_PAGES_def Let_def)
  have i: "i < length (cinfo info)" using Cons.prems(2) by simp
  have "take (i + 1) (cinfo ?info) = take i (cinfo info) @ [fresh_chunk (vm 262144)]"
    using i by (simp add: take_Suc_conv_app_nth)
  moreover have "drop (i + 1 + length vms) (cinfo ?info) = drop (i + length (vm # vms)) (cinfo info)"
    using i by simp
  moreover have "pool_alloc_pages (vm # vms) i info st = pool_alloc_pages vms (i + 1) ?info st1"
    using Cons.prems(1) st1 by (simp add: fresh_chunk_def MAX_POOL_PAGES_def)
  ultimately show ?case using Cons.IH [of "i + 1" ?info st1] Cons.prems by simp
qed simp

lemma pool_alloc_pages_fail:
  "\<exists>vm\<in>set vms. vm 262144 = 0 \<Longrightarrow> fst (pool_alloc_pages vms i info st) = False"
  by (induction vms arbitrary: i info st)
    (auto simp: btalloc_def page_align_def MAX_POOL_PAGES_def Let_def split: prod.split)

text \<open>The areas sixty calls return: none null, none wrapping around, pairwise disjoint.\<close>

definition good_areas :: "(int \<Rightarrow> u32) list \<Rightarrow> bool" where
  "good_areas vms \<longleftrightarrow> length vms = 60 \<and>
     (\<forall>i<60. (vms ! i) 262144 \<noteq> 0 \<and> unat ((vms ! i) 262144) + 262144 \<le> 2 ^ 32) \<and>
     (\<forall>i<60. \<forall>j<60. i \<noteq> j \<longrightarrow> unat ((vms ! i) 262144) + 262144 \<le> unat ((vms ! j) 262144) \<or>
        unat ((vms ! j) 262144) + 262144 \<le> unat ((vms ! i) 262144))"

lemma fresh_chunk_end:
  "unat p + 262144 \<le> 2 ^ 32 \<Longrightarrow> unat (chunk_end (fresh_chunk p)) = unat p + 262128"
proof -
  assume a: "unat p + 262144 \<le> 2 ^ 32"
  have "chunk_end (fresh_chunk p) = p + 262128" by (simp add: fresh_chunk_def)
  moreover have "unat (p + 262128) = unat p + unat (262128 :: u32)"
    by (rule unat_add_plain) (use a in simp)
  ultimately show ?thesis by simp
qed

theorem malloc_init_all:
  assumes good: "good_areas vms" and len: "length (cinfo info) = 60" "length (pool_range info) = 3"
  shows "\<exists>info' st'. malloc_init vms info st = (True, info', st') \<and> pool_ok info' \<and> all_used info' = {} \<and>
     cinfo info' = map (\<lambda>vm. fresh_chunk (vm 262144)) vms"
proof -
  have nz: "\<forall>vm\<in>set vms. vm 262144 \<noteq> 0" and l: "length vms = 60"
    using good by (auto simp: good_areas_def in_set_conv_nth)
  obtain info1 st1 where i1: "pool_alloc_pages vms 0 info st = (True, info1, st1)" "pool_range info1 = pool_range info"
    "cinfo info1 = map (\<lambda>vm. fresh_chunk (vm 262144)) vms"
    using pool_alloc_pages_all [OF nz, of 0 info st] l len by auto
  let ?i = "init_pool_range info1"
  have ci: "cinfo ?i = map (\<lambda>vm. fresh_chunk (vm 262144)) vms" by (simp add: init_pool_range_def i1)
  obtain a b c where "pool_range info = [a, b, c]"
    using len(2) by (auto simp: length_Suc_conv numeral_3_eq_3)
  then have pr: "pool_range ?i = [(0, 24), (24, 40), (40, 60)]"
    by (simp add: init_pool_range_def i1 pool_defs)
  have ends: "unat (chunk_end (fresh_chunk ((vms ! i) 262144))) = unat ((vms ! i) 262144) + 262128" if "i < 60" for i
    using good that fresh_chunk_end by (simp add: good_areas_def)
  have "chunk_ok c" if c: "c \<in> set (cinfo ?i)" for c
  proof -
    obtain i where "i < 60" "c = fresh_chunk ((vms ! i) 262144)"
      using c l by (auto simp: ci in_set_conv_nth)
    with ends [of i] show ?thesis by (simp add: chunk_ok_def word_le_nat_alt) (simp add: fresh_chunk_def)
  qed
  moreover have "chunk_addrs (cinfo ?i ! i) \<inter> chunk_addrs (cinfo ?i ! j) = {}"
    if ij: "i < MAX_CHUNK" "j < MAX_CHUNK" "i \<noteq> j" for i j
  proof -
    have i: "i < 60" and j: "j < 60" using ij by (simp_all add: pool_defs)
    have "unat ((vms ! i) 262144) + 262144 \<le> unat ((vms ! j) 262144) \<or>
        unat ((vms ! j) 262144) + 262144 \<le> unat ((vms ! i) 262144)"
      using good i j ij(3) unfolding good_areas_def by blast
    then show ?thesis
      using ends [OF i] ends [OF j] i j l by (auto simp: chunk_addrs_def ci) (auto simp: fresh_chunk_def)
  qed
  ultimately have ok: "pool_ok ?i"
    unfolding pool_ok_def using pr l by (simp add: ci pool_defs)
  have "all_used ?i = {}" by (auto simp: all_used_def ci used_addrs_def fresh_chunk_def)
  with ok i1(1) ci show ?thesis by (simp add: malloc_init_def)
qed

section \<open>What the allocator promises\<close>

text \<open>
  A client sees a state in which some addresses are in use; an allocation returns a block that
  was free and makes it used. Blocks are never given back.
\<close>

locale allocator =
  fixes alloc :: "'s \<Rightarrow> nat \<Rightarrow> u32 \<Rightarrow> (u32 \<times> 's) option"
    and inv :: "'s \<Rightarrow> bool" and fits :: "'s \<Rightarrow> u32 \<Rightarrow> bool" and used :: "'s \<Rightarrow> nat set"
  assumes alloc_inv: "inv s \<Longrightarrow> p < 3 \<Longrightarrow> fits s n \<Longrightarrow> alloc s p n = Some (a, s') \<Longrightarrow>
      inv s' \<and> (\<forall>m. fits s' m = fits s m)"
    and alloc_used: "inv s \<Longrightarrow> p < 3 \<Longrightarrow> fits s n \<Longrightarrow> alloc s p n = Some (a, s') \<Longrightarrow>
      used s' = used s \<union> {unat a..<unat a + unat n} \<and> {unat a..<unat a + unat n} \<inter> used s = {}"

text \<open>A sequence of requests, each a pool and a size; the blocks are returned in order.\<close>

fun alloc_all :: "('s \<Rightarrow> nat \<Rightarrow> u32 \<Rightarrow> (u32 \<times> 's) option) \<Rightarrow> (nat \<times> u32) list \<Rightarrow> 's \<Rightarrow> (u32 list \<times> 's) option" where
  "alloc_all al [] s = Some ([], s)"
| "alloc_all al ((p, n) # rs) s =
     (case al s p n of None \<Rightarrow> None
      | Some (a, s) \<Rightarrow> map_option (\<lambda>(bs, s). (a # bs, s)) (alloc_all al rs s))"

lemma addr_to_pool_alloc_all:
  "alloc_all malloc_from_pool rs info = Some (bs, info') \<Longrightarrow> addr_to_pool info' addr = addr_to_pool info addr"
  by (induction rs arbitrary: info bs) (auto split: option.splits simp: addr_to_pool_same)

definition block :: "u32 \<Rightarrow> u32 \<Rightarrow> nat set" where
  "block a n = {unat a..<unat a + unat n}"

context allocator
begin

lemma alloc_all_blocks:
  "inv s \<Longrightarrow> \<forall>(p, n)\<in>set rs. p < 3 \<and> fits s n \<Longrightarrow> alloc_all alloc rs s = Some (bs, s') \<Longrightarrow>
     inv s' \<and> length bs = length rs \<and>
     used s' = used s \<union> (\<Union>i<length rs. block (bs ! i) (snd (rs ! i))) \<and>
     (\<forall>i<length rs. block (bs ! i) (snd (rs ! i)) \<inter> used s = {}) \<and>
     (\<forall>i<length rs. \<forall>j<i. block (bs ! i) (snd (rs ! i)) \<inter> block (bs ! j) (snd (rs ! j)) = {})"
proof (induction rs arbitrary: s bs)
  case (Cons r rs)
  obtain p n where r: "r = (p, n)" by (cases r)
  obtain a s1 bs1 where a: "alloc s p n = Some (a, s1)" "alloc_all alloc rs s1 = Some (bs1, s')" "bs = a # bs1"
    using Cons.prems(3) by (auto simp: r split: option.splits)
  have inv1: "inv s1" "\<forall>m. fits s1 m = fits s m" "used s1 = used s \<union> block a n" "block a n \<inter> used s = {}"
    using alloc_inv [OF Cons.prems(1) _ _ a(1)] alloc_used [OF Cons.prems(1) _ _ a(1)] Cons.prems(2)
    by (auto simp: r block_def)
  have rest: "\<forall>(p, n)\<in>set rs. p < 3 \<and> fits s1 n" using Cons.prems(2) inv1(2) by auto
  note ih = Cons.IH [OF inv1(1) rest a(2)]
  let ?B = "\<lambda>i. block (bs ! i) (snd ((r # rs) ! i))"
  have B: "?B 0 = block a n" "\<And>i. ?B (Suc i) = block (bs1 ! i) (snd (rs ! i))" by (simp_all add: a(3) r)
  have "(\<Union>i<length (r # rs). ?B i) = ?B 0 \<union> (\<Union>i<length rs. ?B (Suc i))"
    by (simp add: lessThan_Suc_eq_insert_0)
  then have "used s' = used s \<union> (\<Union>i<length (r # rs). ?B i)"
    unfolding B using ih inv1(3) by auto
  moreover have "?B i \<inter> used s = {}" if "i < length (r # rs)" for i
    using that ih inv1(3,4) B by (cases i) fastforce+
  moreover have "?B i \<inter> ?B j = {}" if "i < length (r # rs)" "j < i" for i j
  proof -
    obtain i' where i': "i = Suc i'" using \<open>j < i\<close> by (cases i) auto
    show ?thesis
    proof (cases j)
      case 0
      have "?B (Suc i') \<inter> used s1 = {}" using ih that(1) i' B by simp
      with inv1(3) 0 i' B show ?thesis by auto
    next
      case (Suc j')
      then show ?thesis using ih that i' unfolding i' Suc B by simp
    qed
  qed
  ultimately show ?case using ih a(3) by simp
qed simp

end

interpretation pools: allocator malloc_from_pool pool_ok plain_request all_used
proof (unfold_locales)
  show "pool_ok s' \<and> (\<forall>m. plain_request s' m = plain_request s m)"
    if "pool_ok s" "p < 3" "plain_request s n" "malloc_from_pool s p n = Some (a, s')" for s p n a s'
    using malloc_from_pool_ok(1,3) [OF that] by blast
  show "all_used s' = all_used s \<union> {unat a..<unat a + unat n} \<and> {unat a..<unat a + unat n} \<inter> all_used s = {}"
    if "pool_ok s" "p < 3" "plain_request s n" "malloc_from_pool s p n = Some (a, s')" for s p n a s'
    using malloc_from_pool_ok(5,6) [OF that] by blast
qed

text \<open>The blocks of a sequence of requests are attributed to the pools they were cut from.\<close>

lemma addr_to_pool_blocks:
  assumes "pool_ok info" and "\<forall>(p, n)\<in>set rs. p < 3 \<and> plain_request info n"
    and "alloc_all malloc_from_pool rs info = Some (bs, info')"
    and "i < length rs" and "unat addr \<in> block (bs ! i) (snd (rs ! i))"
  shows "addr_to_pool info' addr = (if fst (rs ! i) = POOL_KMALLOC then -1 else int (fst (rs ! i)))"
  using assms
proof (induction rs arbitrary: info bs i)
  case (Cons r rs)
  obtain p n where r: "r = (p, n)" by (cases r)
  obtain a info1 bs1 where a: "malloc_from_pool info p n = Some (a, info1)"
    "alloc_all malloc_from_pool rs info1 = Some (bs1, info')" "bs = a # bs1"
    using Cons.prems(3) by (auto simp: r split: option.splits)
  have pn: "p < 3" "plain_request info n" using Cons.prems(2) by (auto simp: r)
  note one = malloc_from_pool_ok [OF Cons.prems(1) pn a(1)]
  have rest: "\<forall>(p, n)\<in>set rs. p < 3 \<and> plain_request info1 n" using Cons.prems(2) one(3) by auto
  show ?case
  proof (cases i)
    case 0
    then show ?thesis
      using addr_to_pool_alloc [OF Cons.prems(1) pn a(1), of addr] addr_to_pool_alloc_all [OF a(2)] Cons.prems(5)
      by (simp add: a(3) r block_def)
  next
    case (Suc k)
    with Cons.IH [OF one(1) rest a(2), of k] Cons.prems(4,5) show ?thesis by (simp add: a(3))
  qed
qed simp

end
