(* ===== verification/Tb.thy ===== *)
theory Tb
  imports Rbtree_Spec Malloc
begin

text \<open>
  Translation blocks (\<^verbatim>\<open>peep/tb.c\<close>, \<^verbatim>\<open>peep/tb.h\<close>): their allocation from
  the pools, the tree that finds the block an address of the translation cache lies in, and the
  two maps between guest instruction addresses and cache addresses inside a block.
\<close>

section \<open>Blocks\<close>

text \<open>
  \<^verbatim>\<open>struct tb_t\<close>. The boundary arrays are lists; a read past their end is unspecified,
  as it is in the code. The embedded tree elements are not fields: a block is named by a node
  pointer, and \<open>tbs p\<close> is the block that \<^verbatim>\<open>rbtree_entry\<close> finds at node \<open>p\<close>.
\<close>

record tb_t =
  eip_virt :: u32
  end_eip :: u32
  edge_len :: u32
  code_len :: u32
  num_insns :: nat
  num_jumps :: nat
  tc_ptr :: u32
  edge_ptr :: u32
  eip_boundaries :: "u16 list"
  tc_boundaries :: "u16 list"
  jump_boundaries :: "u16 list"
  alignment :: u32

type_synonym tb_map = "ptr \<Rightarrow> tb_t"

definition tc_less :: "tb_map \<Rightarrow> ptr \<Rightarrow> ptr \<Rightarrow> bool" where
  "tc_less tbs a b \<longleftrightarrow>
     tc_ptr (tbs a) + ucast (tc_boundaries (tbs a) ! num_insns (tbs a)) \<le> tc_ptr (tbs b)"

definition tb_init :: "rbstate \<Rightarrow> rbstate" where
  "tb_init rb = rbtree_init rb"

text \<open>
  \<^verbatim>\<open>tb_find\<close> compares with a block on its stack, at \<open>loc\<close>, of which it sets three
  fields.
\<close>

definition tb_probe :: "ptr \<Rightarrow> u32 \<Rightarrow> tb_map \<Rightarrow> tb_map" where
  "tb_probe loc a tbs = tbs(loc := (tbs loc)\<lparr>num_insns := 0, tc_boundaries := [1], tc_ptr := a\<rparr>)"

definition tb_find :: "ptr \<Rightarrow> tb_map \<Rightarrow> rbstate \<Rightarrow> u32 \<Rightarrow> ptr option option" where
  "tb_find loc tbs rb a = rbtree_find (tc_less (tb_probe loc a tbs)) loc rb"

definition tb_add :: "tb_map \<Rightarrow> rbstate \<Rightarrow> ptr \<Rightarrow> rbstate option" where
  "tb_add tbs rb tb = rbtree_insert (tc_less tbs) tb rb"

text \<open>The search of \<^verbatim>\<open>tb_tc_ptr_to_eip_virt\<close> through the instructions of a block.\<close>

function tc_to_eip_loop :: "tb_t \<Rightarrow> u32 \<Rightarrow> nat \<Rightarrow> u32" where
  "tc_to_eip_loop tb a i =
     (if i < num_insns tb then
        if a \<ge> tc_ptr tb + ucast (tc_boundaries tb ! i) \<and> a < tc_ptr tb + ucast (tc_boundaries tb ! (i + 1))
        then (if i = 0 then eip_virt tb else eip_virt tb + ucast (eip_boundaries tb ! (i - 1)))
        else tc_to_eip_loop tb a (i + 1)
      else 0)"
  by auto
termination by (relation "measure (\<lambda>(tb, _, i). num_insns tb - i)") auto

declare tc_to_eip_loop.simps [simp del]

definition tb_tc_ptr_to_eip_virt :: "ptr \<Rightarrow> tb_map \<Rightarrow> rbstate \<Rightarrow> u32 \<Rightarrow> u32 option" where
  "tb_tc_ptr_to_eip_virt loc tbs rb a =
     (case tb_find loc tbs rb a of
        None \<Rightarrow> None
      | Some None \<Rightarrow> Some 0
      | Some (Some p) \<Rightarrow> Some (tc_to_eip_loop (tbs p) a 0))"

function eip_to_tc_loop :: "tb_t \<Rightarrow> u32 \<Rightarrow> nat \<Rightarrow> u32" where
  "eip_to_tc_loop tb e i =
     (if i < num_insns tb then
        if e < eip_virt tb + ucast (eip_boundaries tb ! i) then
          let prev_eip = (if i = 0 then eip_virt tb else eip_virt tb + ucast (eip_boundaries tb ! (i - 1)))
          in tc_ptr tb + ucast (tc_boundaries tb ! i) + (e - prev_eip)
        else eip_to_tc_loop tb e (i + 1)
      else 0)"
  by auto
termination by (relation "measure (\<lambda>(tb, _, i). num_insns tb - i)") auto

declare eip_to_tc_loop.simps [simp del]

definition eip_virt_to_tc_ptr :: "tb_t \<Rightarrow> u32 \<Rightarrow> u32" where
  "eip_virt_to_tc_ptr tb e = eip_to_tc_loop tb e 0"

section \<open>Allocation\<close>

text \<open>A request of size 0 gets NULL; \<open>None\<close> is \<^verbatim>\<open>BUG()\<close>.\<close>

definition tb_kmalloc :: "malloc_info \<Rightarrow> u32 \<Rightarrow> nat \<Rightarrow> (u32 \<times> malloc_info) option" where
  "tb_kmalloc info sz pool = (if sz = 0 then Some (0, info) else malloc_from_pool info pool sz)"

definition sizeof_tb :: u32 where
  "sizeof_tb = 80"

lemma align4:
  "unat a + 3 < 2 ^ 32 \<Longrightarrow> unat ((a + 3) AND NOT 3) = (unat a + 3) div 4 * 4 \<and> ((a + 3) AND NOT 3) AND 3 = 0 \<and>
     ((a + 3) AND NOT 3) - a = (((a + 3) AND NOT 3) - a) AND 3" for a :: u32
proof -
  assume a: "unat a + 3 < 2 ^ 32"
  let ?p = "(a + 3) AND NOT 3"
  have m3: "(3 :: u32) = mask 2" by (simp add: mask_eq_decr_exp)
  have p: "?p = push_bit 2 (drop_bit 2 (a + 3))"
    unfolding m3 by (auto simp: bit_eq_iff bit_simps) (simp_all add: numeral_2_eq_2 Suc_diff_Suc)
  have u: "unat (a + 3) = unat a + 3" using a by (subst unat_add_plain) simp_all
  have up: "unat ?p = (unat a + 3) div 4 * 4"
    using a by (subst p, subst unsigned_push_bit_eq, subst unsigned_drop_bit_eq)
      (simp add: drop_bit_eq_div push_bit_eq_mult u take_bit_nat_eq_self)
  have "?p AND 3 = 0" unfolding m3 by (auto simp: bit_eq_iff bit_simps)
  moreover have "unat (?p - a) < 4"
    using up a by (subst unat_sub) (simp_all add: word_le_nat_alt)
  then have "?p - a = take_bit 2 (?p - a)"
    by (intro word_unat_eq_iff [THEN iffD2]) (simp add: unsigned_take_bit_eq take_bit_nat_eq_self)
  then have "?p - a = (?p - a) AND 3" by (simp add: m3 take_bit_eq_mask)
  ultimately show ?thesis using up by simp
qed

definition alloc_a_tb :: "malloc_info \<Rightarrow> tb_t \<Rightarrow> (u32 \<times> tb_t \<times> malloc_info) option" where
  "alloc_a_tb info tb =
     (case tb_kmalloc info (sizeof_tb + 3) POOL_KMALLOC of
        None \<Rightarrow> None
      | Some (a, info) \<Rightarrow>
          let p = (a + 3) AND NOT 3 in Some (p, tb\<lparr>alignment := (p - a) AND 3\<rparr>, info))"

text \<open>
  The arrays are given room for their entries; the memory of the pools is cleared when its pages
  are allocated and handed out once, so they start as zeros.
\<close>

definition tb_malloc :: "malloc_info \<Rightarrow> tb_t \<Rightarrow> (tb_t \<times> malloc_info) option" where
  "tb_malloc info tb =
     (let tb = tb\<lparr>num_jumps := 0\<rparr> in
      case tb_kmalloc info (code_len tb) POOL_TC of None \<Rightarrow> None | Some (a, info) \<Rightarrow>
      let tb = tb\<lparr>tc_ptr := a\<rparr> in
      case tb_kmalloc info (edge_len tb) POOL_EDGE of None \<Rightarrow> None | Some (a, info) \<Rightarrow>
      let tb = tb\<lparr>edge_ptr := a\<rparr> in
      case tb_kmalloc info (of_nat ((num_insns tb + 1) * 2)) POOL_KMALLOC of None \<Rightarrow> None | Some (a, info) \<Rightarrow>
      let tb = tb\<lparr>tc_boundaries := replicate (num_insns tb + 1) 0\<rparr> in
      case tb_kmalloc info (of_nat (num_insns tb * 2)) POOL_KMALLOC of None \<Rightarrow> None | Some (a, info) \<Rightarrow>
      Some (tb\<lparr>eip_boundaries := replicate (num_insns tb) 0\<rparr>, info))"

section \<open>Recorded jumps\<close>

fun search_offset_loop :: "u16 list \<Rightarrow> u16 \<Rightarrow> nat \<Rightarrow> bool" where
  "search_offset_loop js off 0 = False"
| "search_offset_loop js off (Suc n) = (search_offset_loop js off n \<or> js ! n = off)"

definition search_offset :: "tb_t \<Rightarrow> u16 \<Rightarrow> bool" where
  "search_offset tb off = search_offset_loop (jump_boundaries tb) off (num_jumps tb)"

lemma search_offset_take: "n \<le> length js \<Longrightarrow> search_offset_loop js off n \<longleftrightarrow> off \<in> set (take n js)"
  by (induction n) (auto simp: take_Suc_conv_app_nth)

lemma search_offset_set: "search_offset_loop js off (length js) \<longleftrightarrow> off \<in> set js"
  by (simp add: search_offset_take)

definition tb_add_jump :: "malloc_info \<Rightarrow> tb_t \<Rightarrow> u16 \<Rightarrow> (tb_t \<times> malloc_info) option" where
  "tb_add_jump info tb off =
     (if \<not> search_offset tb off then
        case tb_kmalloc info (of_nat ((num_jumps tb + 1) * 2)) POOL_KMALLOC of
          None \<Rightarrow> None
        | Some (a, info) \<Rightarrow>
            let jmp_arr = take (num_jumps tb) (jump_boundaries tb) @ [off]
            in Some (tb\<lparr>num_jumps := num_jumps tb + 1, jump_boundaries := jmp_arr\<rparr>, info)
      else Some (tb, info))"

section \<open>Well-formed blocks\<close>

text \<open>
  The offset at which instruction \<open>i\<close> starts in the guest code; the end of the last one is the
  length of the block. Offsets of both arrays increase and do not wrap past the top of memory.
\<close>

definition eip_off :: "tb_t \<Rightarrow> nat \<Rightarrow> nat" where
  "eip_off tb i = (if i = 0 then 0 else unat (eip_boundaries tb ! (i - 1)))"

definition tc_off :: "tb_t \<Rightarrow> nat \<Rightarrow> nat" where
  "tc_off tb i = unat (tc_boundaries tb ! i)"

definition tb_wf :: "tb_t \<Rightarrow> bool" where
  "tb_wf tb \<longleftrightarrow> num_insns tb > 0 \<and> length (eip_boundaries tb) = num_insns tb \<and>
     length (tc_boundaries tb) = num_insns tb + 1 \<and> tc_off tb 0 = 0 \<and>
     (\<forall>i<num_insns tb. eip_off tb i < eip_off tb (i + 1) \<and> tc_off tb i < tc_off tb (i + 1)) \<and>
     unat (eip_virt tb) + eip_off tb (num_insns tb) < 2 ^ 32 \<and>
     unat (tc_ptr tb) + tc_off tb (num_insns tb) < 2 ^ 32"

definition insn_start :: "tb_t \<Rightarrow> nat \<Rightarrow> u32" where
  "insn_start tb i = eip_virt tb + of_nat (eip_off tb i)"

lemma off_mono:
  fixes f :: "nat \<Rightarrow> nat"
  assumes step: "\<forall>i<n. f i < (f (i + 1) :: nat)" and ij: "i < j" "j \<le> n"
  shows "f i < f j"
proof -
  have "i + Suc d \<le> n \<Longrightarrow> f i < f (i + Suc d)" for d
  proof (induction d)
    case 0
    then show ?case using step by simp
  next
    case (Suc d)
    then have "f (i + Suc d) < f (i + Suc d + 1)" using step by simp
    with Suc show ?case by simp
  qed
  from this [of "j - i - 1"] ij show ?thesis by simp
qed

lemma tb_wf_mono:
  assumes "tb_wf tb"
  shows "i < j \<Longrightarrow> j \<le> num_insns tb \<Longrightarrow> eip_off tb i < eip_off tb j \<and> tc_off tb i < tc_off tb j"
  using assms off_mono [of "num_insns tb" "eip_off tb" i j] off_mono [of "num_insns tb" "tc_off tb" i j]
  by (auto simp: tb_wf_def)

lemma tb_wf_mono_le:
  assumes "tb_wf tb" and "i \<le> j" and "j \<le> num_insns tb"
  shows "eip_off tb i \<le> eip_off tb j \<and> tc_off tb i \<le> tc_off tb j"
  using tb_wf_mono [OF assms(1), of i j] assms(2,3) by (cases "i = j") auto

lemma unat_ucast16 [simp]: "unat (ucast (w :: u16) :: u32) = unat w"
  by transfer (simp add: take_bit_int_less_exp take_bit_tightened_less_eq_int)

lemma eip_boundary:
  assumes "tb_wf tb" and "i < num_insns tb"
  shows "unat (eip_virt tb + ucast (eip_boundaries tb ! i)) = unat (eip_virt tb) + eip_off tb (i + 1)"
proof -
  have "eip_off tb (i + 1) \<le> eip_off tb (num_insns tb)"
    using tb_wf_mono_le [OF assms(1), of "i + 1" "num_insns tb"] assms(2) by simp
  with assms(1) show ?thesis
    by (subst unat_add_plain) (auto simp: tb_wf_def eip_off_def)
qed

lemma tc_boundary:
  assumes "tb_wf tb" and "i \<le> num_insns tb"
  shows "unat (tc_ptr tb + ucast (tc_boundaries tb ! i)) = unat (tc_ptr tb) + tc_off tb i"
proof -
  have "tc_off tb i \<le> tc_off tb (num_insns tb)"
    using tb_wf_mono_le [OF assms(1,2)] by simp
  with assms(1) show ?thesis
    by (subst unat_add_plain) (auto simp: tb_wf_def tc_off_def)
qed

lemma insn_start_unat:
  assumes "tb_wf tb" and "i \<le> num_insns tb"
  shows "unat (insn_start tb i) = unat (eip_virt tb) + eip_off tb i"
proof -
  have le: "eip_off tb i \<le> eip_off tb (num_insns tb)"
    using tb_wf_mono_le [OF assms(1,2)] by simp
  have "eip_off tb i < 2 ^ 32" using le assms(1) by (auto simp: tb_wf_def)
  then have "unat (of_nat (eip_off tb i) :: u32) = eip_off tb i"
    by (simp add: unat_of_nat take_bit_nat_eq_self)
  with le assms(1) show ?thesis
    unfolding insn_start_def by (subst unat_add_plain) (auto simp: tb_wf_def)
qed

lemma insn_start_code: "insn_start tb i = (if i = 0 then eip_virt tb else eip_virt tb + ucast (eip_boundaries tb ! (i - 1)))"
  by (simp add: insn_start_def eip_off_def)

text \<open>Inside instruction \<open>i\<close> of the cache, the map back gives the start of guest instruction \<open>i\<close>.\<close>

theorem tc_to_eip_loop_insn:
  assumes wf: "tb_wf tb" and i: "i < num_insns tb"
    and a: "unat (tc_ptr tb) + tc_off tb i \<le> unat a" "unat a < unat (tc_ptr tb) + tc_off tb (i + 1)"
    and j: "j \<le> i"
  shows "tc_to_eip_loop tb a j = insn_start tb i"
  using j
proof (induction "i - j" arbitrary: j)
  case 0
  then have "j = i" by simp
  then show ?case
    using tc_boundary [OF wf, of i] tc_boundary [OF wf, of "i + 1"] i a insn_start_code [of tb i]
    by (subst tc_to_eip_loop.simps) (simp add: word_le_nat_alt word_less_nat_alt)
next
  case (Suc d)
  then have ji: "j < i" by simp
  have "tc_off tb (j + 1) \<le> tc_off tb i" using tb_wf_mono_le [OF wf, of "j + 1" i] ji i by simp
  then have "\<not> a < tc_ptr tb + ucast (tc_boundaries tb ! (j + 1))"
    using tc_boundary [OF wf, of "j + 1"] ji i a(1) by (simp add: word_less_nat_alt)
  with Suc(1) [of "j + 1"] Suc(2) ji i show ?case
    by (subst tc_to_eip_loop.simps) simp
qed

text \<open>Inside guest instruction \<open>i\<close>, the map forward keeps the distance to its start.\<close>

theorem eip_to_tc_loop_insn:
  assumes wf: "tb_wf tb" and i: "i < num_insns tb"
    and e: "unat (eip_virt tb) + eip_off tb i \<le> unat e" "unat e < unat (eip_virt tb) + eip_off tb (i + 1)"
    and j: "j \<le> i"
  shows "eip_to_tc_loop tb e j = tc_ptr tb + ucast (tc_boundaries tb ! i) + (e - insn_start tb i)"
  using j
proof (induction "i - j" arbitrary: j)
  case 0
  then have "j = i" by simp
  then show ?case
    using eip_boundary [OF wf i] i e insn_start_code [of tb i]
    by (subst eip_to_tc_loop.simps) (simp add: word_less_nat_alt Let_def)
next
  case (Suc d)
  then have ji: "j < i" by simp
  have "eip_off tb (j + 1) \<le> eip_off tb i" using tb_wf_mono_le [OF wf, of "j + 1" i] ji i by simp
  then have "\<not> e < eip_virt tb + ucast (eip_boundaries tb ! j)"
    using eip_boundary [OF wf, of j] ji i e(1) by (simp add: word_less_nat_alt)
  with Suc(1) [of "j + 1"] Suc(2) ji i show ?case
    by (subst eip_to_tc_loop.simps) simp
qed

theorem eip_tc_roundtrip:
  assumes wf: "tb_wf tb" and i: "i < num_insns tb"
  shows "eip_virt_to_tc_ptr tb (insn_start tb i) = tc_ptr tb + ucast (tc_boundaries tb ! i)"
    and "tc_to_eip_loop tb (eip_virt_to_tc_ptr tb (insn_start tb i)) 0 = insn_start tb i"
proof -
  have "eip_off tb i < eip_off tb (i + 1)" "tc_off tb i < tc_off tb (i + 1)"
    using wf i by (auto simp: tb_wf_def)
  with insn_start_unat [OF wf, of i] i
  show 1: "eip_virt_to_tc_ptr tb (insn_start tb i) = tc_ptr tb + ucast (tc_boundaries tb ! i)"
    unfolding eip_virt_to_tc_ptr_def by (subst eip_to_tc_loop_insn [OF wf i]) simp_all
  show "tc_to_eip_loop tb (eip_virt_to_tc_ptr tb (insn_start tb i)) 0 = insn_start tb i"
    unfolding 1
    by (rule tc_to_eip_loop_insn [OF wf i])
      (use tc_boundary [OF wf, of i] i \<open>tc_off tb i < tc_off tb (i + 1)\<close> in simp_all)
qed

end
