(* ===== verification/Jumptable2.thy ===== *)
theory Jumptable2
  imports Tb
begin

text \<open>
  The two search trees of translation blocks: \<^verbatim>\<open>peep/jumptable2.c\<close>, keyed by guest
  addresses, and the tree of \<^verbatim>\<open>peep/tb.c\<close>, keyed by cache addresses. Both are clients
  of the red-black tree through its interface.
\<close>

section \<open>The table of guest addresses\<close>

definition tb_less :: "tb_map \<Rightarrow> ptr \<Rightarrow> ptr \<Rightarrow> bool" where
  "tb_less tbs a b \<longleftrightarrow> end_eip (tbs a) < eip_virt (tbs b)"

definition jumptable2_init :: "rbstate \<Rightarrow> rbstate" where
  "jumptable2_init rb = rbtree_init rb"

definition jumptable2_add :: "tb_map \<Rightarrow> rbstate \<Rightarrow> ptr \<Rightarrow> rbstate option" where
  "jumptable2_add tbs rb tb = rbtree_insert (tb_less tbs) tb rb"

definition eip_probe :: "ptr \<Rightarrow> u32 \<Rightarrow> tb_map \<Rightarrow> tb_map" where
  "eip_probe loc e tbs = tbs(loc := (tbs loc)\<lparr>eip_virt := e, end_eip := e\<rparr>)"

definition jumptable2_find :: "ptr \<Rightarrow> tb_map \<Rightarrow> rbstate \<Rightarrow> u32 \<Rightarrow> ptr option option" where
  "jumptable2_find loc tbs rb e = rbtree_find (tb_less (eip_probe loc e tbs)) loc rb"

definition jumptable2_remove :: "rbstate \<Rightarrow> ptr \<Rightarrow> rbstate option" where
  "jumptable2_remove rb tb = rbtree_delete tb rb"

text \<open>The comparison is a strict order on the blocks that do not end before they start.\<close>

definition eip_range_ok :: "tb_map \<Rightarrow> ptr \<Rightarrow> bool" where
  "eip_range_ok tbs p \<longleftrightarrow> eip_virt (tbs p) \<le> end_eip (tbs p)"

interpretation eip_order: strict_order "tb_less tbs" "eip_range_ok tbs" for tbs
  by unfold_locales (auto simp: tb_less_def eip_range_ok_def)

text \<open>The instructions that start in a block.\<close>

definition covers :: "tb_t \<Rightarrow> u32 \<Rightarrow> bool" where
  "covers tb e \<longleftrightarrow> eip_virt tb \<le> e \<and> e \<le> end_eip tb"

text \<open>
  The table holds blocks that may overlap: translation from a new address runs on until a
  terminating instruction and may reach instructions another block starts with. It is kept in
  the order of the blocks' first instructions, with their last instructions not decreasing.
\<close>

definition jt2_ok :: "tb_map \<Rightarrow> rbstate \<Rightarrow> ptr list \<Rightarrow> bool" where
  "jt2_ok tbs rb xs \<longleftrightarrow> rbtree_holds rb xs \<and> (\<forall>p\<in>set xs. eip_range_ok tbs p) \<and>
     sorted_wrt (\<lambda>a b. eip_virt (tbs a) < eip_virt (tbs b) \<and> end_eip (tbs a) \<le> end_eip (tbs b)) xs"

lemma eip_search_ordered:
  assumes "sorted_wrt (\<lambda>a b. eip_virt (tbs a) < eip_virt (tbs b) \<and> end_eip (tbs a) \<le> end_eip (tbs b)) xs"
    and "\<forall>p\<in>set xs. eip_range_ok tbs p" and "loc \<notin> set xs"
  shows "search_ordered (tb_less (eip_probe loc e tbs)) loc xs"
proof -
  let ?lt = "tb_less (eip_probe loc e tbs)"
  have lt: "?lt p loc \<longleftrightarrow> end_eip (tbs p) < e" "?lt loc p \<longleftrightarrow> e < eip_virt (tbs p)" if "p \<in> set xs" for p
    using that assms(3) by (auto simp: tb_less_def eip_probe_def)
  have "down_closed (\<lambda>p. ?lt p loc) xs" "down_closed (\<lambda>p. \<not> ?lt loc p) xs"
    unfolding down_closed_def
    by (rule sorted_wrt_mono_rel [OF _ assms(1)], use lt in force)+
  moreover have "\<not> ?lt loc p" if "p \<in> set xs" "?lt p loc" for p
    using lt [OF that(1)] that assms(2) by (auto simp: eip_range_ok_def)
  ultimately show ?thesis by (auto simp: search_ordered_def)
qed

theorem jumptable2_find_first:
  assumes "jt2_ok tbs rb xs" and "loc \<notin> set xs"
  shows "jumptable2_find loc tbs rb e = Some (find (\<lambda>p. covers (tbs p) e) xs)"
proof -
  let ?lt = "tb_less (eip_probe loc e tbs)"
  have so: "search_ordered ?lt loc xs"
    using eip_search_ordered assms by (simp add: jt2_ok_def)
  have "find (\<lambda>p. \<not> ?lt p loc \<and> \<not> ?lt loc p) xs = find (\<lambda>p. covers (tbs p) e) xs"
    using assms(2) by (intro find_cong) (auto simp: tb_less_def eip_probe_def covers_def)
  with rbt.find_eq_holds [OF _ so] assms(1) show ?thesis
    by (simp add: jumptable2_find_def jt2_ok_def)
qed

lemma find_least:
  "find P xs = Some p \<Longrightarrow> sorted_wrt (\<lambda>a b. f a \<le> f b) xs \<Longrightarrow> p \<in> set xs \<and> P p \<and> (\<forall>q\<in>set xs. P q \<longrightarrow> f p \<le> f q)"
  for f :: "'a \<Rightarrow> 'b::order"
  by (induction xs) (auto split: if_splits)

text \<open>
  Adding a block for an address no block covers keeps the table, when the new block does not
  run further than the blocks that start after it.
\<close>

theorem jumptable2_add_ok:
  assumes ok: "jt2_ok tbs rb xs" and new: "x \<notin> set xs" "x \<noteq> nil" "eip_range_ok tbs x"
    and uncovered: "\<forall>p\<in>set xs. \<not> covers (tbs p) (eip_virt (tbs x))"
    and ends: "\<forall>p\<in>set xs. eip_virt (tbs x) < eip_virt (tbs p) \<longrightarrow> end_eip (tbs x) \<le> end_eip (tbs p)"
  shows "\<exists>rb' ys. jumptable2_add tbs rb x = Some rb' \<and> jt2_ok tbs rb' ys \<and> set ys = insert x (set xs)"
proof -
  have srt: "sorted_wrt (\<lambda>a b. eip_virt (tbs a) < eip_virt (tbs b) \<and> end_eip (tbs a) \<le> end_eip (tbs b)) xs"
    and rng: "\<forall>p\<in>set xs. eip_range_ok tbs p" and rb: "rbtree_holds rb xs"
    using ok by (auto simp: jt2_ok_def)
  let ?P = "\<lambda>p. tb_less tbs p x"
  have dc: "down_closed ?P xs"
    unfolding down_closed_def by (rule sorted_wrt_mono_rel [OF _ srt]) (auto simp: tb_less_def)
  let ?ys = "filter ?P xs @ x # filter (\<lambda>p. \<not> ?P p) xs"
  obtain rb' where rb': "rbtree_insert (tb_less tbs) x rb = Some rb'" "rbtree_holds rb' ?ys"
    using rbt.ins_holds [of rb xs x "tb_less tbs", OF rb new(1,2) dc] dc
    by (auto simp: takeWhile_down_closed dropWhile_down_closed)
  have after: "eip_virt (tbs x) < eip_virt (tbs p)" if "p \<in> set xs" "\<not> ?P p" for p
    using uncovered that by (auto simp: covers_def tb_less_def not_le not_less)
  have before: "eip_virt (tbs p) < eip_virt (tbs x) \<and> end_eip (tbs p) \<le> end_eip (tbs x)"
    if "p \<in> set xs" "?P p" for p
    using that rng new(3) by (auto simp: tb_less_def eip_range_ok_def)
  have cross: "eip_virt (tbs p) < eip_virt (tbs q) \<and> end_eip (tbs p) \<le> end_eip (tbs q)"
    if "p \<in> set xs" "?P p" "q \<in> set xs" "\<not> ?P q" for p q
    using before [OF that(1,2)] after [OF that(3,4)] ends that(3) by fastforce
  have "sorted_wrt (\<lambda>a b. eip_virt (tbs a) < eip_virt (tbs b) \<and> end_eip (tbs a) \<le> end_eip (tbs b)) ?ys"
    using srt before after ends cross by (auto simp: sorted_wrt_append sorted_wrt_filter)
  then have "jt2_ok tbs rb' ?ys" using rb'(2) rng new(3) by (auto simp: jt2_ok_def)
  with rb'(1) show ?thesis
    by (intro exI [of _ rb'] exI [of _ ?ys]) (auto simp: jumptable2_add_def)
qed

theorem jumptable2_remove_ok:
  assumes "jt2_ok tbs rb (xs @ x # ys)"
  shows "\<exists>rb'. jumptable2_remove rb x = Some rb' \<and> jt2_ok tbs rb' (xs @ ys)"
  using rbt.del_holds [of rb xs x ys] assms
  by (auto simp: jt2_ok_def jumptable2_remove_def sorted_wrt_append)

lemma jumptable2_init_ok: "jt2_ok tbs (jumptable2_init rb) []"
  by (simp add: jt2_ok_def jumptable2_init_def rbtree_init_holds)

section \<open>The tree of cache addresses\<close>

definition tc_size :: "tb_t \<Rightarrow> nat" where
  "tc_size tb = unat (tc_boundaries tb ! num_insns tb)"

definition tc_range_ok :: "tb_map \<Rightarrow> ptr \<Rightarrow> bool" where
  "tc_range_ok tbs p \<longleftrightarrow> tc_size (tbs p) > 0 \<and> unat (tc_ptr (tbs p)) + tc_size (tbs p) < 2 ^ 32"

lemma tc_end_unat:
  "tc_range_ok tbs p \<Longrightarrow> unat (tc_ptr (tbs p) + ucast (tc_boundaries (tbs p) ! num_insns (tbs p))) =
     unat (tc_ptr (tbs p)) + tc_size (tbs p)"
  by (subst unat_add_plain) (auto simp: tc_range_ok_def tc_size_def)

lemma tc_less_unat:
  "tc_range_ok tbs a \<Longrightarrow> tc_less tbs a b \<longleftrightarrow> unat (tc_ptr (tbs a)) + tc_size (tbs a) \<le> unat (tc_ptr (tbs b))"
  by (simp add: tc_less_def word_le_nat_alt tc_end_unat)

interpretation tc_order: strict_order "tc_less tbs" "tc_range_ok tbs" for tbs
proof (unfold_locales)
  show "\<not> tc_less tbs a a" if "tc_range_ok tbs a" for a
    using that by (simp add: tc_less_unat) (simp add: tc_range_ok_def)
  show "tc_less tbs a c" if "tc_range_ok tbs b" "tc_less tbs a b" "tc_less tbs b c" for a b c
  proof -
    have "tc_ptr (tbs b) \<le> tc_ptr (tbs c)"
      using that(1,3) by (simp add: tc_less_unat word_le_nat_alt)
    with that(2) show ?thesis by (simp add: tc_less_def)
  qed
qed

definition in_cache_of :: "tb_t \<Rightarrow> u32 \<Rightarrow> bool" where
  "in_cache_of tb a \<longleftrightarrow> unat (tc_ptr tb) \<le> unat a \<and> unat a < unat (tc_ptr tb) + tc_size tb"

definition tc_tree_ok :: "tb_map \<Rightarrow> rbstate \<Rightarrow> ptr list \<Rightarrow> bool" where
  "tc_tree_ok tbs rb xs \<longleftrightarrow> rbtree_holds rb xs \<and> (\<forall>p\<in>set xs. tc_range_ok tbs p) \<and> sorted_wrt (tc_less tbs) xs"

theorem tb_find_first:
  assumes ok: "tc_tree_ok tbs rb xs" and loc: "loc \<notin> set xs" and a: "unat a + 1 < 2 ^ 32"
  shows "tb_find loc tbs rb a = Some (find (\<lambda>p. in_cache_of (tbs p) a) xs)"
proof -
  let ?t = "tb_probe loc a tbs"
  have probe: "tc_range_ok ?t loc"
    using a by (simp add: tc_range_ok_def tb_probe_def tc_size_def)
  have rng: "\<forall>p\<in>set xs. tc_range_ok ?t p"
    using ok loc by (auto simp: tc_tree_ok_def tc_range_ok_def tb_probe_def)
  have "sorted_wrt (tc_less ?t) xs"
  proof (rule sorted_wrt_mono_rel)
    show "sorted_wrt (tc_less tbs) xs" using ok by (simp add: tc_tree_ok_def)
    show "tc_less ?t p q" if "p \<in> set xs" "q \<in> set xs" "tc_less tbs p q" for p q
      using that loc by (auto simp: tc_less_def tb_probe_def)
  qed
  then have so: "search_ordered (tc_less ?t) loc xs"
    by (rule sorted_search_ordered [OF tc_order.strict_order_axioms _ rng probe])
  have "find (\<lambda>p. \<not> tc_less ?t p loc \<and> \<not> tc_less ?t loc p) xs = find (\<lambda>p. in_cache_of (tbs p) a) xs"
  proof (rule find_cong [OF refl])
    fix p assume p: "p \<in> set xs"
    then have "p \<noteq> loc" using loc by auto
    have "tc_less ?t loc p \<longleftrightarrow> unat a + 1 \<le> unat (tc_ptr (tbs p))"
      using tc_less_unat [OF probe] \<open>p \<noteq> loc\<close> by (simp add: tb_probe_def tc_size_def)
    moreover have "tc_less ?t p loc \<longleftrightarrow> unat (tc_ptr (tbs p)) + tc_size (tbs p) \<le> unat a"
      using tc_less_unat [of ?t p loc] rng p \<open>p \<noteq> loc\<close> by (simp add: tb_probe_def)
    ultimately show "(\<not> tc_less ?t p loc \<and> \<not> tc_less ?t loc p) = in_cache_of (tbs p) a"
      by (auto simp: in_cache_of_def)
  qed
  with rbt.find_eq_holds [OF _ so] ok show ?thesis
    by (simp add: tb_find_def tc_tree_ok_def)
qed

text \<open>At most one block holds an address, and inside it at most one instruction.\<close>

lemma sorted_wrt_pair:
  "sorted_wrt R xs \<Longrightarrow> p \<in> set xs \<Longrightarrow> q \<in> set xs \<Longrightarrow> p \<noteq> q \<Longrightarrow> R p q \<or> R q p"
  by (induction xs) auto

lemma cached_unique:
  assumes "tc_tree_ok tbs rb xs" and "p \<in> set xs" and "q \<in> set xs"
    and "in_cache_of (tbs p) a" and "in_cache_of (tbs q) a"
  shows "p = q"
proof (rule ccontr)
  assume "p \<noteq> q"
  then have "tc_less tbs p q \<or> tc_less tbs q p"
    using sorted_wrt_pair assms(1-3) by (fastforce simp: tc_tree_ok_def)
  moreover have "tc_range_ok tbs p" "tc_range_ok tbs q" using assms(1-3) by (auto simp: tc_tree_ok_def)
  ultimately show False using assms(4,5) by (auto simp: tc_less_unat in_cache_of_def)
qed

lemma find_the:
  "p \<in> set xs \<Longrightarrow> P p \<Longrightarrow> \<forall>q\<in>set xs. q \<noteq> p \<longrightarrow> \<not> P q \<Longrightarrow> find P xs = Some p"
  by (induction xs) auto

lemma tb_find_cached:
  assumes "tc_tree_ok tbs rb xs" and "loc \<notin> set xs" and "unat a + 1 < 2 ^ 32"
    and "p \<in> set xs" and "in_cache_of (tbs p) a"
  shows "tb_find loc tbs rb a = Some (Some p)"
proof -
  have "find (\<lambda>p. in_cache_of (tbs p) a) xs = Some p"
  proof (rule find_the [of _ _ "\<lambda>p. in_cache_of (tbs p) a", OF assms(4,5)], intro ballI impI)
    show "\<not> in_cache_of (tbs q) a" if "q \<in> set xs" "q \<noteq> p" for q
      using cached_unique [OF assms(1) that(1) assms(4) _ assms(5)] that(2) by blast
  qed
  then show ?thesis using tb_find_first [OF assms(1-3)] by simp
qed

lemma insn_in_cache:
  assumes "tb_wf tb" and "i < num_insns tb"
    and "unat (tc_ptr tb) + tc_off tb i \<le> unat a" and "unat a < unat (tc_ptr tb) + tc_off tb (i + 1)"
  shows "in_cache_of tb a"
  using tb_wf_mono_le [OF assms(1), of "i + 1" "num_insns tb"] assms(2-4)
  by (simp add: in_cache_of_def tc_size_def tc_off_def)

lemma in_cache_insn:
  assumes "tb_wf tb" and "in_cache_of tb a"
  shows "\<exists>i<num_insns tb. unat (tc_ptr tb) + tc_off tb i \<le> unat a \<and> unat a < unat (tc_ptr tb) + tc_off tb (i + 1)"
proof -
  let ?P = "\<lambda>i. unat a < unat (tc_ptr tb) + tc_off tb i"
  have "?P (num_insns tb)" using assms(2) by (simp add: in_cache_of_def tc_size_def tc_off_def)
  moreover have "\<not> ?P 0" using assms by (simp add: in_cache_of_def tb_wf_def)
  ultimately obtain i where "i < num_insns tb" "\<not> ?P i" "?P (i + 1)"
    using ex_least_nat_less [of ?P "num_insns tb"] by (metis Suc_eq_plus1 order_refl)
  then show ?thesis by (auto simp: not_less)
qed

lemma insn_unique:
  assumes "tb_wf tb" and "i < num_insns tb" and "j < num_insns tb"
    and "unat (tc_ptr tb) + tc_off tb i \<le> unat a" and "unat a < unat (tc_ptr tb) + tc_off tb (i + 1)"
    and "unat (tc_ptr tb) + tc_off tb j \<le> unat a" and "unat a < unat (tc_ptr tb) + tc_off tb (j + 1)"
  shows "j = i"
proof (rule ccontr)
  assume "j \<noteq> i"
  then consider "i + 1 \<le> j" | "j + 1 \<le> i" by linarith
  then show False
    using tb_wf_mono_le [OF assms(1), of "i + 1" j] tb_wf_mono_le [OF assms(1), of "j + 1" i] assms(2-7)
    by cases auto
qed

lemma disjoint_ranges:
  fixes a b :: nat
  assumes "{a..<a + m} \<inter> {b..<b + n} = {}" and "0 < m" and "0 < n"
  shows "a + m \<le> b \<or> b + n \<le> a"
proof (rule ccontr)
  assume "\<not> ?thesis"
  with assms(2,3) have "max a b \<in> {a..<a + m} \<inter> {b..<b + n}" by auto
  with assms(1) show False by blast
qed

text \<open>Blocks cut from the pool do not overlap, so at most one of them is found.\<close>

theorem tb_add_ok:
  assumes ok: "tc_tree_ok tbs rb xs" and new: "x \<notin> set xs" "x \<noteq> nil" "tc_range_ok tbs x"
    and disj: "\<forall>p\<in>set xs. {unat (tc_ptr (tbs x))..<unat (tc_ptr (tbs x)) + tc_size (tbs x)} \<inter>
      {unat (tc_ptr (tbs p))..<unat (tc_ptr (tbs p)) + tc_size (tbs p)} = {}"
  shows "\<exists>rb' ys. tb_add tbs rb x = Some rb' \<and> tc_tree_ok tbs rb' ys \<and> set ys = insert x (set xs)"
proof -
  have rng: "\<forall>p\<in>set xs. tc_range_ok tbs p" using ok by (simp add: tc_tree_ok_def)
  have "\<forall>p\<in>set xs. tc_less tbs p x \<or> tc_less tbs x p"
  proof
    fix p assume p: "p \<in> set xs"
    have "tc_size (tbs x) > 0" "tc_size (tbs p) > 0" using rng p new(3) by (auto simp: tc_range_ok_def)
    with disjoint_ranges [of "unat (tc_ptr (tbs x))" "tc_size (tbs x)" "unat (tc_ptr (tbs p))" "tc_size (tbs p)"] disj p
    have "unat (tc_ptr (tbs x)) + tc_size (tbs x) \<le> unat (tc_ptr (tbs p)) \<or>
        unat (tc_ptr (tbs p)) + tc_size (tbs p) \<le> unat (tc_ptr (tbs x))"
      by blast
    then show "tc_less tbs p x \<or> tc_less tbs x p"
      using tc_less_unat [of tbs x p] tc_less_unat [of tbs p x] new(3) rng p by auto
  qed
  with rbt.ins_sorted [OF _ tc_order.strict_order_axioms _ rng new(3) _ new(2)] ok
  obtain rb' ys where "rbtree_insert (tc_less tbs) x rb = Some rb'" "rbtree_holds rb' ys"
    "sorted_wrt (tc_less tbs) ys" "set ys = insert x (set xs)"
    unfolding tc_tree_ok_def by blast
  with rng new(3) show ?thesis
    by (intro exI [of _ rb'] exI [of _ ys]) (simp add: tb_add_def tc_tree_ok_def)
qed

lemma tb_init_ok: "tc_tree_ok tbs (tb_init rb) []"
  by (simp add: tc_tree_ok_def tb_init_def rbtree_init_holds)

end
