(* ===== verification/Jumptable1.thy ===== *)
theory Jumptable1
  imports Prelude
begin

text \<open>
  The per-cpu table of indirect jump targets (\<^verbatim>\<open>peep/jumptable1.c\<close>): 4096 slots
  indexed by the low bits of the guest address, each addition pushing the slot's old entry into
  the next slots, up to three of them. The generated code probes these four slots
  (\<^verbatim>\<open>SEARCH_HASH_TABLE\<close> in \<^verbatim>\<open>peep/peeptab_defs.h\<close>).
\<close>

section \<open>The table\<close>

definition JUMPTABLE1_SIZE :: nat where "JUMPTABLE1_SIZE = 4096"
definition JUMPTABLE1_MASK :: u32 where "JUMPTABLE1_MASK = of_nat JUMPTABLE1_SIZE - 1"

text \<open>
  The table of one cpu is the concatenation of four per-cpu areas, of 1024, 1024, 1024 and 1028
  entries; \<open>jt c\<close> is the table of cpu \<open>c\<close>. An entry holds the cache address above the guest
  address.
\<close>

definition jt_index :: "u32 \<Rightarrow> nat" where
  "jt_index eip = unat (eip AND JUMPTABLE1_MASK)"

definition jt_entry :: "u32 \<Rightarrow> u32 \<Rightarrow> u64" where
  "jt_entry eip tc = push_bit 32 (ucast tc) OR ucast eip"

definition jumptable1_add_cpu :: "u32 \<Rightarrow> u32 \<Rightarrow> u64 list \<Rightarrow> u64 list" where
  "jumptable1_add_cpu eip tc jumptable =
     (let indx = jt_index eip;
          prev_val1 = jumptable ! indx;
          jumptable =
            (if prev_val1 \<noteq> 0 then
               let prev_val2 = jumptable ! (indx + 1);
                   jumptable =
                     (if prev_val2 \<noteq> 0 then
                        let prev_val3 = jumptable ! (indx + 2);
                            jumptable = (if prev_val3 \<noteq> 0 then jumptable[indx + 3 := prev_val3] else jumptable)
                        in jumptable[indx + 2 := prev_val2]
                      else jumptable)
               in jumptable[indx + 1 := prev_val1]
             else jumptable)
      in jumptable[indx := jt_entry eip tc])"

definition jumptable1_add :: "nat \<Rightarrow> u32 \<Rightarrow> u32 \<Rightarrow> (nat \<Rightarrow> u64 list) \<Rightarrow> nat \<Rightarrow> u64 list" where
  "jumptable1_add cpu eip tc jt = jt(cpu := jumptable1_add_cpu eip tc (jt cpu))"

text \<open>\<^verbatim>\<open>clear_jumptable1\<close> clears the first 4096 entries of each table.\<close>

fun clear_jumptable1 :: "nat \<Rightarrow> (nat \<Rightarrow> u64 list) \<Rightarrow> nat \<Rightarrow> u64 list" where
  "clear_jumptable1 0 jt = jt"
| "clear_jumptable1 (Suc n) jt =
     (let jt = clear_jumptable1 n jt
      in jt(n := replicate JUMPTABLE1_SIZE 0 @ drop JUMPTABLE1_SIZE (jt n)))"

section \<open>Allocation\<close>

text \<open>
  The four areas must follow one another. \<open>areas\<close> lists the addresses \<^verbatim>\<open>__alloc_percpu\<close>
  returns, 0 for a failure; \<open>at\<close> is the address of cpu 0's copy of an area. The result is success
  and the areas still allocated: on failure all of them have been freed again.
\<close>

definition continuous_blocks :: "u32 \<Rightarrow> u32 \<Rightarrow> u32 \<Rightarrow> bool" where
  "continuous_blocks addr1 addr2 sz \<longleftrightarrow> addr1 + sz = addr2"

definition alloc_jumptable1 :: "u32 \<times> u32 \<times> u32 \<times> u32 \<Rightarrow> (u32 \<Rightarrow> u32) \<Rightarrow> bool \<times> u32 list" where
  "alloc_jumptable1 areas at =
     (case areas of (a, b, c, d) \<Rightarrow>
      if a = 0 then (False, [])
      else if b = 0 then (False, remove1 a [a])
      else if \<not> continuous_blocks (at a) (at b) (1024 * 8) then (False, remove1 a (remove1 b [a, b]))
      else if c = 0 then (False, remove1 a (remove1 b [a, b]))
      else if \<not> continuous_blocks (at b) (at c) (1024 * 8) then
        (False, remove1 a (remove1 b (remove1 c [a, b, c])))
      else if d = 0 then (False, remove1 a (remove1 b (remove1 c [a, b, c])))
      else if \<not> continuous_blocks (at c) (at d) (1024 * 8) then
        (False, remove1 a (remove1 b (remove1 c (remove1 d [a, b, c, d]))))
      else (True, [a, b, c, d]))"

definition free_jumptable1 :: "u32 \<times> u32 \<times> u32 \<times> u32 \<Rightarrow> u32 list \<Rightarrow> u32 list" where
  "free_jumptable1 areas l =
     (case areas of (a, b, c, d) \<Rightarrow> remove1 d (remove1 c (remove1 b (remove1 a l))))"

lemma alloc_jumptable1_failed: "\<not> fst (alloc_jumptable1 areas at) \<Longrightarrow> snd (alloc_jumptable1 areas at) = []"
  by (cases areas) (auto simp: alloc_jumptable1_def split: if_splits)

lemma alloc_jumptable1_success:
  "fst (alloc_jumptable1 (a, b, c, d) at) \<Longrightarrow>
     continuous_blocks (at a) (at b) 8192 \<and> continuous_blocks (at b) (at c) 8192 \<and>
     continuous_blocks (at c) (at d) 8192 \<and> snd (alloc_jumptable1 (a, b, c, d) at) = [a, b, c, d]"
  by (auto simp: alloc_jumptable1_def split: if_splits)

lemma alloc_jumptable1_layout:
  assumes "fst (alloc_jumptable1 (a, b, c, d) at)"
  shows "at b = at a + 1024 * 8 \<and> at c = at a + 2048 * 8 \<and> at d = at a + 3072 * 8 \<and>
     free_jumptable1 (a, b, c, d) (snd (alloc_jumptable1 (a, b, c, d) at)) = []"
proof -
  note s = alloc_jumptable1_success [OF assms]
  have "at b = at a + 8192" "at c = at b + 8192" "at d = at c + 8192"
    using s by (auto simp: continuous_blocks_def)
  then have "at b = at a + 8192 \<and> at c = at a + 16384 \<and> at d = at a + 24576" by simp
  moreover have "free_jumptable1 (a, b, c, d) [a, b, c, d] = []" by (simp add: free_jumptable1_def)
  ultimately show ?thesis using s by simp
qed

section \<open>What an addition does\<close>

definition jt_len :: nat where "jt_len = 3 * 1024 + 1028"

lemma jt_index_bound: "jt_index eip < 4096"
proof -
  have "eip AND JUMPTABLE1_MASK = take_bit 12 eip"
    by (simp add: JUMPTABLE1_MASK_def JUMPTABLE1_SIZE_def take_bit_eq_mask mask_eq_decr_exp)
  moreover have "unat (take_bit 12 eip) < 2 ^ 12"
    using take_bit_nat_less_exp [of 12 "unat eip"] by (simp add: unsigned_take_bit_eq)
  ultimately show ?thesis by (simp add: jt_index_def)
qed

lemma jumptable1_add_length: "length (jumptable1_add_cpu eip tc jt) = length jt"
  by (simp add: jumptable1_add_cpu_def Let_def)

lemma jumptable1_add_in_bounds:
  "length jt = jt_len \<Longrightarrow> jt_index eip + 3 < length jt"
  using jt_index_bound [of eip] by (simp add: jt_len_def)

text \<open>
  The four slots of an address after an addition: the new entry first, then the old ones up to
  and without the first empty one, in their order; the last one falls out when all are full.
\<close>

definition probe :: "nat \<Rightarrow> u64 list \<Rightarrow> u64 list" where
  "probe i jt = map (\<lambda>k. jt ! (i + k)) [0, 1, 2, 3]"

lemma takeWhile4: "takeWhile P (map f [0, 1, 2, 3 :: nat]) =
   (if P (f 0) then f 0 # (if P (f 1) then f 1 # (if P (f 2) then f 2 # (if P (f 3) then [f 3] else []) else []) else []) else [])"
  by simp

theorem jumptable1_add_probe:
  assumes "length jt = jt_len"
  shows "takeWhile (\<lambda>v. v \<noteq> 0) (probe (jt_index eip) jt) = olds \<Longrightarrow>
    take (Suc (min 3 (length olds))) (probe (jt_index eip) (jumptable1_add_cpu eip tc jt)) = jt_entry eip tc # take 3 olds"
    and "\<forall>k. k < jt_index eip \<or> jt_index eip + 3 < k \<longrightarrow> jumptable1_add_cpu eip tc jt ! k = jt ! k"
proof -
  have b: "jt_index eip + 3 < length jt" by (rule jumptable1_add_in_bounds [OF assms])
  show "\<forall>k. k < jt_index eip \<or> jt_index eip + 3 < k \<longrightarrow> jumptable1_add_cpu eip tc jt ! k = jt ! k"
    by (auto simp: jumptable1_add_cpu_def Let_def)
  show "takeWhile (\<lambda>v. v \<noteq> 0) (probe (jt_index eip) jt) = olds \<Longrightarrow>
    take (Suc (min 3 (length olds))) (probe (jt_index eip) (jumptable1_add_cpu eip tc jt)) = jt_entry eip tc # take 3 olds"
    using b by (auto simp: probe_def jumptable1_add_cpu_def Let_def nth_list_update split: if_splits)
qed

lemma jt_entry_fields: "ucast (jt_entry eip tc) = eip" "ucast (drop_bit 32 (jt_entry eip tc)) = tc"
  by (auto simp: jt_entry_def bit_eq_iff bit_simps dest: bit_imp_le_length)

text \<open>
  The new entry is zero only for address 0 and cache address 0; the slots past the first 4096 are
  not cleared.
\<close>

lemma jt_entry_nonzero: "tc \<noteq> 0 \<Longrightarrow> jt_entry eip tc \<noteq> 0"
  using jt_entry_fields(2) [of eip tc] by auto

lemma clear_jumptable1_slots:
  "\<forall>c<n. length (jt c) = jt_len \<Longrightarrow> c < n \<Longrightarrow>
     (\<forall>k<4096. clear_jumptable1 n jt c ! k = 0) \<and> drop 4096 (clear_jumptable1 n jt c) = drop 4096 (jt c)"
proof (induction n)
  case (Suc n)
  show ?case
  proof (cases "c = n")
    case True
    have "clear_jumptable1 n jt n = jt n"
    proof -
      have "m \<le> n \<Longrightarrow> clear_jumptable1 m jt n = jt n" for m by (induction m) (auto simp: Let_def)
      then show ?thesis by simp
    qed
    with True Suc.prems show ?thesis by (simp add: Let_def JUMPTABLE1_SIZE_def nth_append)
  next
    case False
    with Suc show ?thesis by (simp add: Let_def)
  qed
qed simp

end
