(* ===== verification/Tb_Props.thy ===== *)
theory Tb_Props
  imports Rbtree_Props Jumptable2 Jumptable1
begin

text \<open>
  The properties of the allocator, of translation blocks and of the tables that find them, each
  applied at a concrete memory layout.
\<close>

section \<open>A memory layout to apply the properties to\<close>

definition demo_areas :: "(int \<Rightarrow> u32) list" where
  "demo_areas = map (\<lambda>i _. of_nat ((i + 1) * 262144)) [0..<60]"

definition empty_pools :: malloc_info where
  "empty_pools = \<lparr>pool_range = replicate 3 (0, 0),
     cinfo = replicate 60 \<lparr>chunk_start = 0, chunk_end = 0, chunk_cur = 0\<rparr>\<rparr>"

definition demo_vm :: vm_state where
  "demo_vm = \<lparr>vm_mem = (\<lambda>_. 0), vm_reserved = []\<rparr>"

definition demo_pools :: malloc_info where
  "demo_pools = fst (snd (malloc_init demo_areas empty_pools demo_vm))"

lemma demo_area: "i < 60 \<Longrightarrow> unat ((demo_areas ! i) 262144) = (i + 1) * 262144"
  by (simp add: demo_areas_def unat_of_nat take_bit_nat_eq_self del: of_nat_mult of_nat_add)

lemma demo_areas_good: "good_areas demo_areas"
proof -
  have nz: "(demo_areas ! i) 262144 \<noteq> 0" if "i < 60" for i
    using demo_area [OF that] by auto
  have "(i + 1) * 262144 + 262144 \<le> (j + 1) * 262144 \<or> (j + 1) * 262144 + 262144 \<le> (i + 1) * 262144"
    if "i \<noteq> j" for i j :: nat
  proof (cases "i < j")
    case True
    then have "(i + 2) * 262144 \<le> (j + 1) * 262144" by (intro mult_le_mono1) simp
    then show ?thesis by simp
  next
    case False
    then have "(j + 2) * 262144 \<le> (i + 1) * 262144" using that by (intro mult_le_mono1) simp
    then show ?thesis by simp
  qed
  with nz show ?thesis
    unfolding good_areas_def by (auto simp: demo_area) (simp_all add: demo_areas_def)
qed

lemma demo_pools_ok: "pool_ok demo_pools" "all_used demo_pools = {}"
  "cinfo demo_pools = map (\<lambda>vm. fresh_chunk (vm 262144)) demo_areas"
proof -
  obtain i s where "malloc_init demo_areas empty_pools demo_vm = (True, i, s)" "pool_ok i" "all_used i = {}"
      "cinfo i = map (\<lambda>vm. fresh_chunk (vm 262144)) demo_areas"
    using malloc_init_all [OF demo_areas_good, of empty_pools demo_vm] by (auto simp: empty_pools_def)
  then show "pool_ok demo_pools" "all_used demo_pools = {}"
    "cinfo demo_pools = map (\<lambda>vm. fresh_chunk (vm 262144)) demo_areas" by (simp_all add: demo_pools_def)
qed

lemma demo_plain: "unat sz < 2 ^ 31 \<Longrightarrow> plain_request demo_pools sz"
proof -
  assume sz: "unat sz < 2 ^ 31"
  have "unat (chunk_end c) < 2 ^ 31" if c: "c \<in> set (cinfo demo_pools)" for c
  proof -
    obtain i where i: "i < 60" "c = fresh_chunk ((demo_areas ! i) 262144)"
      using c demo_areas_good by (auto simp: demo_pools_ok(3) in_set_conv_nth good_areas_def)
    have "unat (chunk_end c) = (i + 1) * 262144 + 262128"
      unfolding i(2) using fresh_chunk_end [of "(demo_areas ! i) 262144"] demo_area [OF i(1)] i(1) by simp
    with i(1) show ?thesis by simp
  qed
  with sz show ?thesis by (fastforce simp: plain_request_def)
qed

lemma demo_chunk: "i < 60 \<Longrightarrow> cinfo demo_pools ! i = fresh_chunk (of_nat ((i + 1) * 262144))"
  by (simp add: demo_pools_ok(3) demo_areas_def)

lemma demo_range: "pool_range demo_pools = [(0, 24), (24, 40), (40, 60)]"
  using demo_pools_ok(1) by (simp add: pool_ok_def)

lemma demo_alloc:
  "malloc_from_pool demo_pools 0 64 = Some (262144, demo_pools\<lparr>cinfo := (cinfo demo_pools)[0 := (fresh_chunk 262144)\<lparr>chunk_cur := 262208\<rparr>]\<rparr>)"
  using demo_chunk [of 0]
  by (simp add: malloc_from_pool_def demo_range malloc_loop.simps [of _ 0] fresh_chunk_def)

section \<open>The pools\<close>

text \<open>
  C6. When sixty calls of the kernel's allocator return disjoint areas, initialisation succeeds
  with empty pools that satisfy the pool invariant, and any sequence of requests that is then
  served gets blocks no two of which overlap, the invariant still holding.
\<close>

theorem malloc_blocks_disjoint:
  assumes "good_areas vms" and "length (cinfo info) = 60" and "length (pool_range info) = 3"
  shows "\<exists>info1 st1. malloc_init vms info st = (True, info1, st1) \<and> pool_ok info1 \<and> all_used info1 = {} \<and>
    (\<forall>rs bs info2. (\<forall>(p, n)\<in>set rs. p < 3 \<and> plain_request info1 n) \<and>
       alloc_all malloc_from_pool rs info1 = Some (bs, info2) \<longrightarrow>
       pool_ok info2 \<and> length bs = length rs \<and>
       all_used info2 = (\<Union>i<length rs. block (bs ! i) (snd (rs ! i))) \<and>
       (\<forall>i<length rs. \<forall>j<i. block (bs ! i) (snd (rs ! i)) \<inter> block (bs ! j) (snd (rs ! j)) = {}))"
proof -
  obtain info1 st1 where i1: "malloc_init vms info st = (True, info1, st1)" "pool_ok info1" "all_used info1 = {}"
    using malloc_init_all [OF assms] by blast
  show ?thesis
  proof (intro exI [of _ info1] exI [of _ st1] conjI allI impI)
    fix rs bs info2
    assume "(\<forall>(p, n)\<in>set rs. p < 3 \<and> plain_request info1 n) \<and> alloc_all malloc_from_pool rs info1 = Some (bs, info2)"
    then have "\<forall>(p, n)\<in>set rs. p < 3 \<and> plain_request info1 n" "alloc_all malloc_from_pool rs info1 = Some (bs, info2)"
      by simp_all
    note b = pools.alloc_all_blocks [OF i1(2) this]
    show "pool_ok info2" "length bs = length rs"
      "all_used info2 = (\<Union>i<length rs. block (bs ! i) (snd (rs ! i)))" using b i1(3) by simp_all
    show "block (bs ! i) (snd (rs ! i)) \<inter> block (bs ! j) (snd (rs ! j)) = {}" if "i < length rs" "j < i" for i j
      using b that by simp
  qed (use i1 in simp_all)
qed

theorem malloc_blocks_disjoint_witness:
  "\<exists>info1 st1. malloc_init demo_areas empty_pools demo_vm = (True, info1, st1) \<and> pool_ok info1"
proof -
  have "length (cinfo empty_pools) = 60" "length (pool_range empty_pools) = 3" by (simp_all add: empty_pools_def)
  from malloc_blocks_disjoint [OF demo_areas_good this] show ?thesis by meson
qed

text \<open>
  After any sequence of served requests, an address in a block cut from the pool of translated
  code or of edge code is attributed to that pool, an address in a block of the third pool to none.
\<close>

theorem addr_to_pool_correct:
  assumes "pool_ok info" and "\<forall>(p, n)\<in>set rs. p < 3 \<and> plain_request info n"
    and "alloc_all malloc_from_pool rs info = Some (bs, info')"
    and "i < length rs" and "unat addr \<in> block (bs ! i) (snd (rs ! i))"
  shows "addr_to_pool info' addr = (if fst (rs ! i) = POOL_KMALLOC then -1 else int (fst (rs ! i)))"
  by (rule addr_to_pool_blocks [OF assms])

theorem addr_to_pool_correct_witness:
  "addr_to_pool (snd (the (alloc_all malloc_from_pool [(0, 64)] demo_pools))) 262150 = 0"
proof -
  let ?i = "demo_pools\<lparr>cinfo := (cinfo demo_pools)[0 := (fresh_chunk 262144)\<lparr>chunk_cur := 262208\<rparr>]\<rparr>"
  have a: "alloc_all malloc_from_pool [(0, 64)] demo_pools = Some ([262144], ?i)" by (simp add: demo_alloc)
  have "addr_to_pool ?i 262150 = (if fst ([(0 :: nat, 64 :: u32)] ! 0) = POOL_KMALLOC then -1 else int (fst ([(0 :: nat, 64 :: u32)] ! 0)))"
    by (rule addr_to_pool_correct [OF demo_pools_ok(1) _ a]) (simp_all add: demo_plain block_def)
  then show ?thesis unfolding a by (simp add: pool_defs)
qed

section \<open>Blocks to apply the properties to\<close>

text \<open>Block \<open>n\<close> has two instructions, of 2 and 5 bytes, translated to 10 and 20 bytes.\<close>

definition demo_tb :: "ptr \<Rightarrow> tb_t" where
  "demo_tb n = \<lparr>eip_virt = of_nat (100 * n), end_eip = of_nat (100 * n + 2), edge_len = 16, code_len = 30,
     num_insns = 2, num_jumps = 0, tc_ptr = of_nat (1000 * n), edge_ptr = of_nat (1000 * n + 500),
     eip_boundaries = [2, 7], tc_boundaries = [0, 10, 30], jump_boundaries = [], alignment = 0\<rparr>"

lemma demo_tc_tree: "tc_tree_ok demo_tb heap123 [1, 2, 3]"
  using heap123_holds by (simp add: tc_tree_ok_def tc_range_ok_def tc_size_def demo_tb_def tc_less_def)

lemma demo_jt2: "jt2_ok demo_tb heap123 [1, 2, 3]"
  using heap123_holds by (simp add: jt2_ok_def eip_range_ok_def demo_tb_def)

lemma demo_tb_wf: "tb_wf (demo_tb 2)"
  by (simp add: tb_wf_def demo_tb_def eip_off_def tc_off_def less_2_cases_iff)

section \<open>From cache addresses to guest addresses and back\<close>

text \<open>
  C7. A fault inside the translation of a guest instruction is mapped to the address of that
  instruction: the tree finds the one block the cache address lies in and the search of its
  boundaries the instruction. An address in no block gives 0.
\<close>

theorem tc_ptr_to_eip_correct:
  assumes "tc_tree_ok tbs rb xs" and "loc \<notin> set xs" and "unat a + 1 < 2 ^ 32"
    and "\<forall>p\<in>set xs. tb_wf (tbs p)"
  shows "(\<forall>p\<in>set xs. \<forall>i<num_insns (tbs p). unat (tc_ptr (tbs p)) + tc_off (tbs p) i \<le> unat a \<and>
        unat a < unat (tc_ptr (tbs p)) + tc_off (tbs p) (i + 1) \<longrightarrow>
        tb_tc_ptr_to_eip_virt loc tbs rb a = Some (insn_start (tbs p) i)) \<and>
    ((\<forall>p\<in>set xs. \<not> in_cache_of (tbs p) a) \<longrightarrow> tb_tc_ptr_to_eip_virt loc tbs rb a = Some 0)"
proof (intro conjI ballI allI impI)
  fix p i
  assume p: "p \<in> set xs" and i: "i < num_insns (tbs p)"
    and a: "unat (tc_ptr (tbs p)) + tc_off (tbs p) i \<le> unat a \<and> unat a < unat (tc_ptr (tbs p)) + tc_off (tbs p) (i + 1)"
  have wf: "tb_wf (tbs p)" using assms(4) p by blast
  have "in_cache_of (tbs p) a" using insn_in_cache [OF wf i] a by blast
  then show "tb_tc_ptr_to_eip_virt loc tbs rb a = Some (insn_start (tbs p) i)"
    using tb_find_cached [OF assms(1-3) p] tc_to_eip_loop_insn [OF wf i, of a 0] a
    by (simp add: tb_tc_ptr_to_eip_virt_def)
next
  assume "\<forall>p\<in>set xs. \<not> in_cache_of (tbs p) a"
  then have "find (\<lambda>p. in_cache_of (tbs p) a) xs = None" by (simp add: find_None_iff)
  then show "tb_tc_ptr_to_eip_virt loc tbs rb a = Some 0"
    using tb_find_first [OF assms(1-3)] by (simp add: tb_tc_ptr_to_eip_virt_def)
qed

theorem tc_ptr_to_eip_correct_witness:
  "tb_tc_ptr_to_eip_virt 9 demo_tb heap123 2015 = Some 202"
proof -
  have wf: "\<forall>p\<in>set [1, 2, 3]. tb_wf (demo_tb p)"
    by (simp add: tb_wf_def demo_tb_def eip_off_def tc_off_def less_2_cases_iff)
  have "insn_start (demo_tb 2) 1 = 202" by (simp add: demo_tb_def insn_start_def eip_off_def)
  moreover have "unat (tc_ptr (demo_tb 2)) + tc_off (demo_tb 2) 1 \<le> unat (2015 :: u32) \<and>
      unat (2015 :: u32) < unat (tc_ptr (demo_tb 2)) + tc_off (demo_tb 2) (1 + 1)"
    by (simp add: demo_tb_def tc_off_def)
  moreover have "2 \<in> set [1, 2, 3 :: ptr]" "1 < num_insns (demo_tb 2)" by (simp_all add: demo_tb_def)
  ultimately show ?thesis
    using tc_ptr_to_eip_correct [OF demo_tc_tree _ _ wf, of 9 2015] by fastforce
qed

text \<open>
  The map from guest to cache addresses sends the start of every instruction of a block to the
  start of its translation, and mapping that address back through the tree gives the start of the
  instruction again.
\<close>

theorem eip_tc_roundtrip_tree:
  assumes "tc_tree_ok tbs rb xs" and "loc \<notin> set xs" and "p \<in> set xs" and "tb_wf (tbs p)" and "i < num_insns (tbs p)"
  shows "eip_virt_to_tc_ptr (tbs p) (insn_start (tbs p) i) = tc_ptr (tbs p) + ucast (tc_boundaries (tbs p) ! i) \<and>
    tb_tc_ptr_to_eip_virt loc tbs rb (eip_virt_to_tc_ptr (tbs p) (insn_start (tbs p) i)) = Some (insn_start (tbs p) i)"
proof -
  let ?a = "tc_ptr (tbs p) + ucast (tc_boundaries (tbs p) ! i)"
  note e = eip_tc_roundtrip [OF assms(4,5)]
  have u: "unat ?a = unat (tc_ptr (tbs p)) + tc_off (tbs p) i"
    using tc_boundary [OF assms(4), of i] assms(5) by simp
  have lt: "tc_off (tbs p) i < tc_off (tbs p) (i + 1)" using assms(4,5) by (simp add: tb_wf_def)
  have inc: "in_cache_of (tbs p) ?a" by (rule insn_in_cache [OF assms(4,5)]) (use u lt in simp_all)
  have "tc_range_ok tbs p" using assms(1,3) by (simp add: tc_tree_ok_def)
  then have "unat ?a + 1 < 2 ^ 32" using inc by (simp add: tc_range_ok_def in_cache_of_def)
  from tb_find_cached [OF assms(1,2) this assms(3) inc] e show ?thesis
    by (simp add: tb_tc_ptr_to_eip_virt_def)
qed

theorem eip_tc_roundtrip_tree_witness:
  "tb_tc_ptr_to_eip_virt 9 demo_tb heap123 (eip_virt_to_tc_ptr (demo_tb 2) 202) = Some 202"
proof -
  have "insn_start (demo_tb 2) 1 = 202" by (simp add: demo_tb_def insn_start_def eip_off_def)
  moreover have "2 \<in> set [1, 2, 3 :: ptr]" "9 \<notin> set [1, 2, 3 :: ptr]" "1 < num_insns (demo_tb 2)"
    by (simp_all add: demo_tb_def)
  ultimately show ?thesis
    using eip_tc_roundtrip_tree [OF demo_tc_tree _ _ demo_tb_wf, of 9 1] by metis
qed

text \<open>
  C8. Adding a block whose code overlaps no other block's returns and keeps the tree; afterwards
  every address in the code of the new block or of an old one is found to lie in that block.
\<close>

theorem tb_add_then_find:
  assumes "tc_tree_ok tbs rb xs" and "x \<notin> set xs" and "x \<noteq> nil" and "tc_range_ok tbs x"
    and "\<forall>p\<in>set xs. block (tc_ptr (tbs x)) (ucast (tc_boundaries (tbs x) ! num_insns (tbs x))) \<inter>
      block (tc_ptr (tbs p)) (ucast (tc_boundaries (tbs p) ! num_insns (tbs p))) = {}"
  shows "\<exists>rb' ys. tb_add tbs rb x = Some rb' \<and> tc_tree_ok tbs rb' ys \<and> set ys = insert x (set xs) \<and>
    (\<forall>p loc a. p \<in> insert x (set xs) \<and> loc \<notin> insert x (set xs) \<and> in_cache_of (tbs p) a \<longrightarrow>
       tb_find loc tbs rb' a = Some (Some p))"
proof -
  have "\<forall>p\<in>set xs. {unat (tc_ptr (tbs x))..<unat (tc_ptr (tbs x)) + tc_size (tbs x)} \<inter>
      {unat (tc_ptr (tbs p))..<unat (tc_ptr (tbs p)) + tc_size (tbs p)} = {}"
    using assms(5) by (simp add: block_def tc_size_def)
  from tb_add_ok [OF assms(1-4) this] obtain rb' ys
    where r: "tb_add tbs rb x = Some rb'" "tc_tree_ok tbs rb' ys" "set ys = insert x (set xs)" by blast
  have "tb_find loc tbs rb' a = Some (Some p)"
    if "p \<in> set ys" "loc \<notin> set ys" "in_cache_of (tbs p) a" for p loc a
  proof -
    have "tc_range_ok tbs p" using r(2) that(1) by (simp add: tc_tree_ok_def)
    then have "unat a + 1 < 2 ^ 32" using that(3) by (simp add: tc_range_ok_def in_cache_of_def)
    from tb_find_cached [OF r(2) that(2) this that(1,3)] show ?thesis .
  qed
  with r show ?thesis by (intro exI [of _ rb'] exI [of _ ys]) simp
qed

theorem tb_add_then_find_witness:
  "\<exists>rb' ys. tb_add demo_tb heap123 5 = Some rb' \<and> tc_tree_ok demo_tb rb' ys \<and> set ys = {5, 1, 2, 3}"
proof -
  have new: "5 \<notin> set [1, 2, 3 :: ptr]" "(5 :: ptr) \<noteq> nil" "tc_range_ok demo_tb 5"
    by (simp_all add: nil_def tc_range_ok_def tc_size_def demo_tb_def)
  have "\<forall>p\<in>set [1, 2, 3]. block (tc_ptr (demo_tb 5)) (ucast (tc_boundaries (demo_tb 5) ! num_insns (demo_tb 5))) \<inter>
      block (tc_ptr (demo_tb p)) (ucast (tc_boundaries (demo_tb p) ! num_insns (demo_tb p))) = {}"
    by (simp add: block_def demo_tb_def)
  from tb_add_then_find [OF demo_tc_tree new this] show ?thesis by (elim exE conjE) (intro exI conjI; simp)
qed

section \<open>The table of guest addresses\<close>

text \<open>
  C10. Looking up a guest address finds the block that covers it which starts first, NULL when
  none covers it, even though blocks may overlap.
\<close>

theorem jumptable2_find_correct:
  assumes "jt2_ok tbs rb xs" and "loc \<notin> set xs"
  shows "(\<forall>p. jumptable2_find loc tbs rb e = Some (Some p) \<longrightarrow> p \<in> set xs \<and> covers (tbs p) e \<and>
      (\<forall>q\<in>set xs. covers (tbs q) e \<longrightarrow> eip_virt (tbs p) \<le> eip_virt (tbs q))) \<and>
    (jumptable2_find loc tbs rb e = Some None \<longleftrightarrow> (\<forall>p\<in>set xs. \<not> covers (tbs p) e)) \<and>
    jumptable2_find loc tbs rb e \<noteq> None"
proof -
  note f = jumptable2_find_first [OF assms, of e]
  have srt: "sorted_wrt (\<lambda>a b. eip_virt (tbs a) \<le> eip_virt (tbs b)) xs"
    using assms(1) unfolding jt2_ok_def by (elim conjE) (erule sorted_wrt_mono_rel [rotated], auto)
  have "p \<in> set xs \<and> covers (tbs p) e \<and> (\<forall>q\<in>set xs. covers (tbs q) e \<longrightarrow> eip_virt (tbs p) \<le> eip_virt (tbs q))"
    if "find (\<lambda>p. covers (tbs p) e) xs = Some p" for p
    using that srt by (rule find_least)
  with f show ?thesis by (auto simp: find_None_iff)
qed

theorem jumptable2_find_correct_witness: "jumptable2_find 9 demo_tb heap123 201 = Some (Some 2)"
proof -
  have "\<not> (\<forall>p\<in>set [1, 2, 3]. \<not> covers (demo_tb p) 201)" by (simp add: covers_def demo_tb_def)
  with jumptable2_find_correct [OF demo_jt2, of 9 201] obtain p
    where "jumptable2_find 9 demo_tb heap123 201 = Some (Some p)" "p \<in> set [1, 2, 3]" "covers (demo_tb p) 201"
    by (cases "jumptable2_find 9 demo_tb heap123 201") auto
  then show ?thesis by (auto simp: covers_def demo_tb_def)
qed

text \<open>
  C11. A block translated for an address that no block covers, and that ends no later than the
  blocks after it, can be added: afterwards some block is found for exactly the addresses that were
  covered before or are covered by the new block. Removing a block again, whatever block it is,
  leaves exactly the others.
\<close>

theorem jumptable2_update_correct:
  assumes "jt2_ok tbs rb xs" and "x \<notin> set xs" and "x \<noteq> nil" and "eip_range_ok tbs x"
    and "\<forall>p\<in>set xs. \<not> covers (tbs p) (eip_virt (tbs x))"
    and "\<forall>p\<in>set xs. eip_virt (tbs x) < eip_virt (tbs p) \<longrightarrow> end_eip (tbs x) \<le> end_eip (tbs p)"
  shows "\<exists>rb' ys. jumptable2_add tbs rb x = Some rb' \<and> jt2_ok tbs rb' ys \<and> set ys = insert x (set xs) \<and>
    (\<forall>e loc. loc \<notin> set ys \<longrightarrow> (jumptable2_find loc tbs rb' e = Some None \<longleftrightarrow>
        (\<forall>p\<in>set xs. \<not> covers (tbs p) e) \<and> \<not> covers (tbs x) e)) \<and>
    (\<forall>p\<in>set ys. \<exists>rb'' zs. jumptable2_remove rb' p = Some rb'' \<and> jt2_ok tbs rb'' zs \<and> set zs = set ys - {p})"
proof -
  obtain rb' ys where r: "jumptable2_add tbs rb x = Some rb'" "jt2_ok tbs rb' ys" "set ys = insert x (set xs)"
    using jumptable2_add_ok [OF assms] by blast
  have f: "jumptable2_find loc tbs rb' e = Some None \<longleftrightarrow> (\<forall>p\<in>set xs. \<not> covers (tbs p) e) \<and> \<not> covers (tbs x) e"
    if "loc \<notin> set ys" for e loc
    using jumptable2_find_first [OF r(2) that, of e] r(3) by (auto simp: find_None_iff)
  have d: "\<exists>rb'' zs. jumptable2_remove rb' p = Some rb'' \<and> jt2_ok tbs rb'' zs \<and> set zs = set ys - {p}"
    if "p \<in> set ys" for p
  proof -
    obtain us vs where ys: "ys = us @ p # vs" using split_list [OF \<open>p \<in> set ys\<close>] by blast
    have "p \<notin> set us \<union> set vs" using r(2) by (auto simp: jt2_ok_def ys sorted_wrt_append)
    then show ?thesis using jumptable2_remove_ok [of tbs rb' us p vs] r(2) ys by fastforce
  qed
  show ?thesis using r f d by (intro exI [of _ rb'] exI [of _ ys]) simp
qed

theorem jumptable2_update_correct_witness:
  "\<exists>rb' ys. jumptable2_add demo_tb heap123 5 = Some rb' \<and> jt2_ok demo_tb rb' ys \<and> set ys = {5, 1, 2, 3}"
proof -
  have new: "5 \<notin> set [1, 2, 3 :: ptr]" "(5 :: ptr) \<noteq> nil" "eip_range_ok demo_tb 5"
    "\<forall>p\<in>set [1, 2, 3]. \<not> covers (demo_tb p) (eip_virt (demo_tb 5))"
    "\<forall>p\<in>set [1, 2, 3]. eip_virt (demo_tb 5) < eip_virt (demo_tb p) \<longrightarrow> end_eip (demo_tb 5) \<le> end_eip (demo_tb p)"
    by (simp_all add: nil_def eip_range_ok_def covers_def demo_tb_def)
  from jumptable2_update_correct [OF demo_jt2 new] show ?thesis by (elim exE conjE) (intro exI conjI; simp)
qed

section \<open>Allocation of a block\<close>

lemma alloc_a_tb_block:
  assumes "pool_ok info" and "plain_request info (sizeof_tb + 3)" and "alloc_a_tb info tb = Some (p, tb', info')"
  obtains a where "malloc_from_pool info POOL_KMALLOC (sizeof_tb + 3) = Some (a, info')" "a = p - alignment tb'"
    "p AND 3 = 0" "block p sizeof_tb \<subseteq> block a (sizeof_tb + 3)" "tb' = tb\<lparr>alignment := alignment tb'\<rparr>"
proof -
  obtain a where a: "malloc_from_pool info POOL_KMALLOC (sizeof_tb + 3) = Some (a, info')"
    "p = (a + 3) AND NOT 3" "tb' = tb\<lparr>alignment := (p - a) AND 3\<rparr>"
    using assms(3) by (auto simp: alloc_a_tb_def tb_kmalloc_def sizeof_tb_def Let_def split: option.splits)
  have top: "unat a + 83 < 2 ^ 32"
    using malloc_plain_end [OF assms(1) _ assms(2) a(1)] by (simp add: pool_defs sizeof_tb_def)
  have p: "unat p = (unat a + 3) div 4 * 4" "p AND 3 = 0" "(p - a) AND 3 = p - a"
    using align4 [of a] top a(2) by auto
  have "block p sizeof_tb \<subseteq> block a (sizeof_tb + 3)"
    using p(1) by (auto simp: block_def sizeof_tb_def)
  with a p show thesis by (intro that [of a]) simp_all
qed

text \<open>
  The descriptor of a block is aligned to four bytes inside the memory allocated for it, its
  alignment field gives the allocated address back, and the memory was free.
\<close>

theorem alloc_a_tb_aligned:
  assumes "pool_ok info" and "plain_request info (sizeof_tb + 3)" and "alloc_a_tb info tb = Some (p, tb', info')"
  shows "p AND 3 = 0 \<and> pool_ok info' \<and>
    block p sizeof_tb \<subseteq> all_used info' - all_used info \<and>
    malloc_from_pool info POOL_KMALLOC (sizeof_tb + 3) = Some (p - alignment tb', info')"
proof -
  obtain a where a: "malloc_from_pool info POOL_KMALLOC (sizeof_tb + 3) = Some (a, info')" "a = p - alignment tb'"
    "p AND 3 = 0" "block p sizeof_tb \<subseteq> block a (sizeof_tb + 3)"
    using alloc_a_tb_block [OF assms] by metis
  note m = malloc_from_pool_ok [OF assms(1) _ assms(2) a(1)]
  have "block p sizeof_tb \<subseteq> all_used info' - all_used info"
  proof -
    have sub: "block p sizeof_tb \<subseteq> {unat a..<unat a + unat (sizeof_tb + 3)}" using a(4) unfolding block_def [of a] .
    have "POOL_KMALLOC < 3" by (simp add: pool_defs)
    note u = m(5) [OF this] m(6) [OF this]
    have "block p sizeof_tb \<inter> all_used info = {}" using sub u(2) by (meson disjoint_iff subsetD)
    then show ?thesis using sub u(1) by (simp add: Diff_eq disjoint_eq_subset_Compl le_supI2)
  qed
  then show ?thesis using m(1) a by (simp add: pool_defs)
qed

theorem alloc_a_tb_aligned_witness:
  "\<exists>p tb' info'. alloc_a_tb demo_pools (demo_tb 1) = Some (p, tb', info') \<and> p AND 3 = 0 \<and> pool_ok info'"
proof -
  have "\<exists>r. malloc_from_pool demo_pools 2 83 = Some r"
    using demo_chunk [of 40] by (simp add: malloc_from_pool_def demo_range malloc_loop.simps [of _ 40] fresh_chunk_def)
  then obtain p tb' info' where a: "alloc_a_tb demo_pools (demo_tb 1) = Some (p, tb', info')"
    by (auto simp: alloc_a_tb_def tb_kmalloc_def sizeof_tb_def pool_defs Let_def)
  have "plain_request demo_pools (sizeof_tb + 3)" by (rule demo_plain) (simp add: sizeof_tb_def)
  from alloc_a_tb_aligned [OF demo_pools_ok(1) this a] a show ?thesis by blast
qed

text \<open>
  C9. The code and the edge code of a block come from memory that was free, are disjoint, and
  the pool of an address in them tells code from edge code.
\<close>

theorem tb_malloc_code:
  assumes "pool_ok info" and "0 < code_len tb" and "0 < edge_len tb" and "0 < num_insns tb"
    and "plain_request info (code_len tb)" and "plain_request info (edge_len tb)"
    and "plain_request info (of_nat ((num_insns tb + 1) * 2))" and "plain_request info (of_nat (num_insns tb * 2))"
    and "num_insns tb < 2 ^ 16" and "tb_malloc info tb = Some (tb', info')"
  shows "pool_ok info' \<and>
    block (tc_ptr tb') (code_len tb) \<inter> block (edge_ptr tb') (edge_len tb) = {} \<and>
    (block (tc_ptr tb') (code_len tb) \<union> block (edge_ptr tb') (edge_len tb)) \<inter> all_used info = {} \<and>
    (\<forall>a. unat a \<in> block (tc_ptr tb') (code_len tb) \<longrightarrow> addr_to_pool info' a = int POOL_TC) \<and>
    (\<forall>a. unat a \<in> block (edge_ptr tb') (edge_len tb) \<longrightarrow> addr_to_pool info' a = int POOL_EDGE)"
proof -
  let ?rs = "[(0 :: nat, code_len tb), (1, edge_len tb), (2, of_nat ((num_insns tb + 1) * 2)), (2, of_nat (num_insns tb * 2))]"
  have nz: "of_nat ((num_insns tb + 1) * 2) \<noteq> (0 :: u32)" "of_nat (num_insns tb * 2) \<noteq> (0 :: u32)"
    using assms(4,9) by (intro of_nat_nonzero32; simp)+
  then obtain b c where al: "alloc_all malloc_from_pool ?rs info = Some ([tc_ptr tb', edge_ptr tb', b, c], info')"
    using assms(2,3,10) unfolding tb_malloc_def tb_kmalloc_def
    by (auto simp: Let_def pool_defs simp del: of_nat_mult of_nat_add of_nat_Suc split: option.splits if_splits)
  have rs: "\<forall>(p, n)\<in>set ?rs. p < 3 \<and> plain_request info n" using assms(5-8) by simp
  note b = pools.alloc_all_blocks [OF assms(1) rs al]
  note free = b [THEN conjunct2, THEN conjunct2, THEN conjunct2, THEN conjunct1, THEN spec]
  note disj = b [THEN conjunct2, THEN conjunct2, THEN conjunct2, THEN conjunct2, THEN spec, THEN mp, THEN spec, THEN mp]
  have "block (tc_ptr tb') (code_len tb) \<inter> block (edge_ptr tb') (edge_len tb) = {}"
    using disj [of 1 0] by (simp add: Int_commute)
  moreover have "(block (tc_ptr tb') (code_len tb) \<union> block (edge_ptr tb') (edge_len tb)) \<inter> all_used info = {}"
    using free [of 0] free [of 1] by (simp add: Int_Un_distrib2)
  ultimately show ?thesis
    using b addr_to_pool_blocks [OF assms(1) rs al, of 0] addr_to_pool_blocks [OF assms(1) rs al, of 1]
    by (simp add: pool_defs)
qed

theorem tb_malloc_code_witness:
  "\<exists>tb' info'. tb_malloc demo_pools (demo_tb 1) = Some (tb', info') \<and> pool_ok info' \<and>
    block (tc_ptr tb') 30 \<inter> block (edge_ptr tb') 16 = {}"
proof -
  have len: "length (cinfo demo_pools) = 60" using demo_pools_ok(1) by (simp add: pool_ok_def pool_defs)
  have "tb_malloc demo_pools (demo_tb 1) \<noteq> None"
    using demo_chunk [of 0] demo_chunk [of 24] demo_chunk [of 40] len
    by (simp add: tb_malloc_def tb_kmalloc_def demo_tb_def pool_defs malloc_from_pool_def demo_range fresh_chunk_def
        malloc_loop.simps [of _ 0] malloc_loop.simps [of _ 24] malloc_loop.simps [of _ 40])
  then obtain tb' info' where m: "tb_malloc demo_pools (demo_tb 1) = Some (tb', info')" by auto
  have f: "code_len (demo_tb 1) = 30" "edge_len (demo_tb 1) = 16" "num_insns (demo_tb 1) = 2" by (simp_all add: demo_tb_def)
  have "plain_request demo_pools (code_len (demo_tb 1))" "plain_request demo_pools (edge_len (demo_tb 1))"
    "plain_request demo_pools (of_nat ((num_insns (demo_tb 1) + 1) * 2))" "plain_request demo_pools (of_nat (num_insns (demo_tb 1) * 2))"
    by (rule demo_plain, simp only: f, simp)+
  from tb_malloc_code [OF demo_pools_ok(1) _ _ _ this _ m] m f show ?thesis by auto
qed

section \<open>The jumps of a block\<close>

text \<open>
  The recorded jump targets of a block stay free of duplicates: adding one returns when the
  pool has room, an offset that is already there changes nothing, and afterwards exactly the old
  offsets and the new one are found.
\<close>

theorem tb_add_jump_correct:
  assumes "length (jump_boundaries tb) = num_jumps tb" and "distinct (jump_boundaries tb)"
    and "tb_add_jump info tb off = Some (tb', info')"
  shows "length (jump_boundaries tb') = num_jumps tb' \<and> distinct (jump_boundaries tb') \<and>
    (\<forall>o'. search_offset tb' o' \<longleftrightarrow> search_offset tb o' \<or> o' = off) \<and>
    (search_offset tb off \<longrightarrow> tb' = tb \<and> info' = info)"
proof -
  have s: "search_offset t o' \<longleftrightarrow> o' \<in> set (jump_boundaries t)" if "length (jump_boundaries t) = num_jumps t" for t :: tb_t and o'
    using search_offset_set [of "jump_boundaries t" o'] that by (simp add: search_offset_def)
  show ?thesis
    using assms s [OF assms(1)] s [of tb'] by (auto simp: tb_add_jump_def Let_def split: if_splits option.splits)
qed

theorem tb_add_jump_correct_witness:
  "\<exists>tb' info'. tb_add_jump demo_pools (demo_tb 1) 7 = Some (tb', info') \<and> search_offset tb' 7 \<and> \<not> search_offset tb' 8"
proof -
  have "tb_add_jump demo_pools (demo_tb 1) 7 \<noteq> None"
    using demo_chunk [of 40]
    by (simp add: tb_add_jump_def search_offset_def tb_kmalloc_def demo_tb_def pool_defs malloc_from_pool_def demo_range fresh_chunk_def
        malloc_loop.simps [of _ 40])
  then obtain tb' info' where a: "tb_add_jump demo_pools (demo_tb 1) 7 = Some (tb', info')" by auto
  have "\<not> search_offset (demo_tb 1) 8" by (simp add: search_offset_def demo_tb_def)
  with tb_add_jump_correct [OF _ _ a] a show ?thesis by (simp add: demo_tb_def)
qed

section \<open>The table of indirect jumps\<close>



text \<open>
  The four areas of the table are one contiguous array on success, freeing them releases
  all of them, and when any allocation fails or is not adjacent nothing is left allocated.
\<close>

theorem alloc_jumptable1_all_or_nothing:
  "case alloc_jumptable1 (a, b, c, d) at of (success, areas) \<Rightarrow>
    if success then at b = at a + 1024 * 8 \<and> at c = at a + 2048 * 8 \<and> at d = at a + 3072 * 8 \<and>
      free_jumptable1 (a, b, c, d) areas = []
    else areas = []"
  using alloc_jumptable1_layout [of a b c d at] alloc_jumptable1_failed [of "(a, b, c, d)" at]
  by (auto split: prod.split)

end
