(* ===== verification/Utils.thy ===== *)
theory Utils
  imports Prelude
begin

text \<open>
  String helpers (\<^verbatim>\<open>lib/utils.c\<close>, \<^verbatim>\<open>lib/ctype.h\<close>). A C string is the list
  of its characters without the terminator; a pointer into a string is the suffix it points to.
  \<open>long\<close> and \<open>int\<close> are 32 bits wide on the target.
\<close>

section \<open>Character classes\<close>

text \<open>Characters as the integers the macros of \<^verbatim>\<open>ctype.h\<close> take; the terminator is 0.\<close>

definition ch :: "char \<Rightarrow> int" where
  "ch c = int (of_char c)"

definition hd0 :: "string \<Rightarrow> int" where
  "hd0 s = (case s of [] \<Rightarrow> 0 | c # _ \<Rightarrow> ch c)"

definition islower :: "int \<Rightarrow> bool" where "islower c \<longleftrightarrow> c \<ge> 97 \<and> c \<le> 122"
definition isupper :: "int \<Rightarrow> bool" where "isupper c \<longleftrightarrow> c \<ge> 65 \<and> c \<le> 90"
definition isalpha :: "int \<Rightarrow> bool" where "isalpha c \<longleftrightarrow> islower c \<or> isupper c"
definition isdigit :: "int \<Rightarrow> bool" where "isdigit c \<longleftrightarrow> c \<ge> 48 \<and> c \<le> 57"
definition isalnum :: "int \<Rightarrow> bool" where "isalnum c \<longleftrightarrow> isalpha c \<or> isdigit c"
definition isxdigit :: "int \<Rightarrow> bool" where
  "isxdigit c \<longleftrightarrow> isdigit c \<or> (c \<ge> 97 \<and> c \<le> 102) \<or> (c \<ge> 65 \<and> c \<le> 70)"
definition isspace :: "int \<Rightarrow> bool" where
  "isspace c \<longleftrightarrow> c = 32 \<or> c = 12 \<or> c = 10 \<or> c = 13 \<or> c = 9 \<or> c = 11"
definition isblank :: "int \<Rightarrow> bool" where "isblank c \<longleftrightarrow> c = 32 \<or> c = 9"
definition isgraph :: "int \<Rightarrow> bool" where "isgraph c \<longleftrightarrow> c > 32 \<and> c < 127"
definition isprint :: "int \<Rightarrow> bool" where "isprint c \<longleftrightarrow> c \<ge> 32 \<and> c < 127"
definition iscntrl :: "int \<Rightarrow> bool" where "iscntrl c \<longleftrightarrow> (c \<ge> 0 \<and> c < 32) \<or> c = 127"
definition isascii :: "int \<Rightarrow> bool" where "isascii c \<longleftrightarrow> c \<ge> 0 \<and> c < 128"
definition ispunct :: "int \<Rightarrow> bool" where
  "ispunct c \<longleftrightarrow> isprint c \<and> \<not> isalnum c \<and> \<not> isspace c"
definition tolower :: "int \<Rightarrow> int" where "tolower c = (if isupper c then c - 65 + 97 else c)"
definition toupper :: "int \<Rightarrow> int" where "toupper c = (if islower c then c - 97 + 65 else c)"

lemmas ctype_defs = islower_def isupper_def isalpha_def isdigit_def isalnum_def isxdigit_def
  isspace_def isblank_def isgraph_def isprint_def iscntrl_def isascii_def ispunct_def

section \<open>Prefixes\<close>

text \<open>\<^verbatim>\<open>strstart\<close>: what follows the prefix, when it is one.\<close>

fun strstart :: "string \<Rightarrow> string \<Rightarrow> string option" where
  "strstart p [] = Some p"
| "strstart [] (q # qs) = None"
| "strstart (p # ps) (q # qs) = (if p \<noteq> q then None else strstart ps qs)"

definition starts :: "string \<Rightarrow> string \<Rightarrow> bool" where
  "starts s p \<longleftrightarrow> strstart s p \<noteq> None"

lemma strstart_Some: "strstart s p = Some r \<longleftrightarrow> s = p @ r"
  by (induction s p rule: strstart.induct) auto

lemma starts_append: "starts s p \<longleftrightarrow> (\<exists>r. s = p @ r)"
  by (auto simp: starts_def strstart_Some)

section \<open>Numbers\<close>

definition LONG_MAX :: int where "LONG_MAX = 2 ^ 31 - 1"
definition LONG_MIN :: int where "LONG_MIN = - (2 ^ 31)"

text \<open>C division and remainder, which round towards zero.\<close>

definition cdiv :: "int \<Rightarrow> int \<Rightarrow> int" where
  "cdiv a b = (if (a < 0) = (b < 0) then \<bar>a\<bar> div \<bar>b\<bar> else - (\<bar>a\<bar> div \<bar>b\<bar>))"

definition crem :: "int \<Rightarrow> int \<Rightarrow> int" where
  "crem a b = a - cdiv a b * b"

text \<open>The value of a digit or letter; \<open>None\<close> ends the number.\<close>

definition digit_of :: "int \<Rightarrow> int option" where
  "digit_of c =
     (if isdigit c then Some (c - 48)
      else if isalpha c then Some (c - (if isupper c then 65 - 10 else 97 - 10))
      else None)"

text \<open>
  The loop of \<^verbatim>\<open>strtol\<close>: \<open>any\<close> is 0 before the first digit, 1 after it and -1 once the
  number is out of range, when further digits are only skipped.
\<close>

fun strtol_loop :: "bool \<Rightarrow> int \<Rightarrow> int \<Rightarrow> int \<Rightarrow> int \<Rightarrow> int \<Rightarrow> string \<Rightarrow> int \<times> int \<times> string" where
  "strtol_loop neg base cutoff cutlim acc any [] = (acc, any, [])"
| "strtol_loop neg base cutoff cutlim acc any (x # r) =
     (case digit_of (ch x) of
        None \<Rightarrow> (acc, any, x # r)
      | Some c \<Rightarrow>
          if c \<ge> base then (acc, any, x # r)
          else if any < 0 then strtol_loop neg base cutoff cutlim acc any r
          else if neg then
            if acc < cutoff \<or> (acc = cutoff \<and> c > cutlim)
            then strtol_loop neg base cutoff cutlim LONG_MIN (-1) r
            else strtol_loop neg base cutoff cutlim (acc * base - c) 1 r
          else
            if acc > cutoff \<or> (acc = cutoff \<and> c > cutlim)
            then strtol_loop neg base cutoff cutlim LONG_MAX (-1) r
            else strtol_loop neg base cutoff cutlim (acc * base + c) 1 r)"

text \<open>The result with the suffix that \<^verbatim>\<open>endptr\<close> is set to.\<close>

definition strtol :: "string \<Rightarrow> int \<Rightarrow> int \<times> string" where
  "strtol nptr base =
     (let s = dropWhile (\<lambda>x. isspace (ch x)) nptr;
          neg = (hd0 s = 45);
          s = (if neg \<or> hd0 s = 43 then tl s else s);
          hex = ((base = 0 \<or> base = 16) \<and> hd0 s = 48 \<and> (hd0 (tl s) = 120 \<or> hd0 (tl s) = 88));
          s = (if hex then tl (tl s) else s);
          base = (if hex then 16 else base);
          base = (if base = 0 then (if hd0 s = 48 then 8 else 10) else base);
          cutoff = (if neg then LONG_MIN else LONG_MAX);
          cutlim = crem cutoff base;
          cutoff = cdiv cutoff base;
          cutoff = (if neg \<and> cutlim > 0 then cutoff + 1 else cutoff);
          cutlim = (if neg then - (if cutlim > 0 then cutlim - base else cutlim) else cutlim);
          (acc, any, rest) = strtol_loop neg base cutoff cutlim 0 0 s
      in (acc, if any \<noteq> 0 then rest else nptr))"

definition strtoll :: "string \<Rightarrow> int \<Rightarrow> int \<times> string" where
  "strtoll nptr base = strtol nptr base"

text \<open>\<^verbatim>\<open>atoi\<close> accumulates the negated value in 32 bits.\<close>

fun atoi_loop :: "u32 \<Rightarrow> string \<Rightarrow> u32" where
  "atoi_loop v [] = v"
| "atoi_loop v (x # r) = (if isdigit (ch x) then atoi_loop (v * 10 - of_int (ch x - 48)) r else v)"

definition atoi :: "string \<Rightarrow> int" where
  "atoi s =
     (let s = dropWhile (\<lambda>x. isspace (ch x)) s;
          negative = (hd0 s \<noteq> 43 \<and> hd0 s = 45);
          s = (if hd0 s = 43 \<or> hd0 s = 45 then tl s else s);
          v = atoi_loop 0 s
      in sint (if \<not> negative then - v else v))"

section \<open>Replacing text\<close>

text \<open>The first occurrence of a text, as the number of characters before it.\<close>

fun strstr :: "string \<Rightarrow> string \<Rightarrow> nat option" where
  "strstr s p =
     (if starts s p then Some 0
      else case s of [] \<Rightarrow> None | _ # r \<Rightarrow> map_option Suc (strstr r p))"

declare strstr.simps [simp del]

text \<open>
  The buffer holds \<open>pre @ s\<close>, the search goes on at \<open>s\<close>. \<open>None\<close> is a loop that never ends;
  a replacement that no longer fits the buffer of \<open>n\<close> bytes, which the code does not check,
  is \<open>Overrun\<close>.
\<close>

datatype text_buf = Text string | Overrun

partial_function (option) replace_loop :: "string \<Rightarrow> string \<Rightarrow> nat \<Rightarrow> string \<Rightarrow> string \<Rightarrow> text_buf option" where
  "replace_loop pat rep n pre s =
     (case strstr s pat of
        None \<Rightarrow> Some (Text (pre @ s))
      | Some i \<Rightarrow>
          let pre = pre @ take i s @ rep; s = drop (i + length pat) s
          in if length (pre @ s) < n then replace_loop pat rep n pre s else Some Overrun)"

fun replace_patterns :: "(string \<times> string) list \<Rightarrow> nat \<Rightarrow> string \<Rightarrow> text_buf option" where
  "replace_patterns [] n s = Some (Text s)"
| "replace_patterns ((p, r) # prs) n s =
     (case replace_loop p r n [] s of
        None \<Rightarrow> None
      | Some Overrun \<Rightarrow> Some Overrun
      | Some (Text s) \<Rightarrow> replace_patterns prs n s)"

text \<open>\<^verbatim>\<open>strlcpy\<close> and \<^verbatim>\<open>strlcat\<close>: the new text of the destination and the result.\<close>

definition strlcpy :: "string \<Rightarrow> string \<Rightarrow> nat \<Rightarrow> string \<times> nat" where
  "strlcpy dst src n =
     (let src_len = length src in
      (if n > 0 then take (if src_len < n - 1 then src_len else n - 1) src else dst, src_len))"

definition strlcat :: "string \<Rightarrow> string \<Rightarrow> nat \<Rightarrow> string \<times> nat" where
  "strlcat dst src n =
     (let src_len = length src; dst_len = length dst in
      (if n > 0 \<and> dst_len < n then
         let copy_cnt = n - dst_len - 1;
             copy_cnt = (if src_len < copy_cnt then src_len else copy_cnt)
         in dst @ take copy_cnt src
       else dst, src_len + dst_len))"

definition make_string_replacements :: "nat \<Rightarrow> string \<Rightarrow> (string \<times> string) list \<Rightarrow> text_buf option" where
  "make_string_replacements out_size s prs = replace_patterns prs out_size (fst (strlcpy [] s out_size))"

fun is_whitespace :: "string \<Rightarrow> bool" where
  "is_whitespace [] = True"
| "is_whitespace (x # r) =
     (if ch x \<noteq> 32 \<and> ch x \<noteq> 9 \<and> ch x \<noteq> 1 then False else is_whitespace r)"

section \<open>Facts\<close>

lemma strlcpy_fits: "n > 0 \<Longrightarrow> fst (strlcpy dst src n) = take (n - 1) src \<and> length (fst (strlcpy dst src n)) < n"
  by (auto simp: strlcpy_def Let_def)

lemma strlcat_fits:
  "length dst < n \<Longrightarrow> fst (strlcat dst src n) = take (n - 1) (dst @ src) \<and> length (fst (strlcat dst src n)) < n"
  by (auto simp: strlcat_def Let_def)

text \<open>
  \<^verbatim>\<open>strtol\<close> clamps: a run of digits that ends the number has the value they denote, or the
  nearest end of the range.
\<close>

definition digits_of :: "int \<Rightarrow> string \<Rightarrow> bool" where
  "digits_of base ds \<longleftrightarrow> (\<forall>x\<in>set ds. \<exists>d. digit_of (ch x) = Some d \<and> 0 \<le> d \<and> d < base)"

definition number_ends :: "int \<Rightarrow> string \<Rightarrow> bool" where
  "number_ends base r \<longleftrightarrow> (case r of [] \<Rightarrow> True | x # _ \<Rightarrow> (case digit_of (ch x) of None \<Rightarrow> True | Some d \<Rightarrow> d \<ge> base))"

fun digits_val :: "int \<Rightarrow> int \<Rightarrow> string \<Rightarrow> int" where
  "digits_val base a [] = a"
| "digits_val base a (x # ds) = digits_val base (a * base + the (digit_of (ch x))) ds"

lemma digits_of_Cons [simp]:
  "digits_of base (x # ds) \<longleftrightarrow> (\<exists>d. digit_of (ch x) = Some d \<and> 0 \<le> d \<and> d < base) \<and> digits_of base ds"
  by (auto simp: digits_of_def)

lemma strtol_loop_end: "number_ends base r \<Longrightarrow> strtol_loop neg base cutoff cutlim acc any r = (acc, any, r)"
  by (cases r) (auto simp: number_ends_def split: option.splits)

lemma strtol_loop_skip:
  "digits_of base ds \<Longrightarrow> number_ends base r \<Longrightarrow>
     strtol_loop neg base cutoff cutlim acc (-1) (ds @ r) = (acc, -1, r)"
  by (induction ds) (auto simp: strtol_loop_end)

lemma digits_val_ge:
  "digits_of base ds \<Longrightarrow> 2 \<le> base \<Longrightarrow> 0 \<le> a \<Longrightarrow> a \<le> digits_val base a ds"
proof (induction ds arbitrary: a)
  case (Cons x ds)
  then obtain d where d: "digit_of (ch x) = Some d" "0 \<le> d" by auto
  have "a * 1 \<le> a * base" using Cons.prems by (intro mult_left_mono) auto
  then have "a \<le> a * base + d" using d by simp
  with Cons d show ?case by (auto intro: order_trans)
qed simp

lemma over_cutoff:
  fixes M base acc d :: int
  assumes "2 \<le> base" and "0 \<le> d" and "d < base"
  shows "acc > M div base \<or> (acc = M div base \<and> d > M mod base) \<longleftrightarrow> acc * base + d > M"
proof -
  define q m where "q = M div base" and "m = M mod base"
  have M: "M = q * base + m" and m: "0 \<le> m" "m < base"
    using assms(1) by (auto simp: q_def m_def)
  have "acc > q \<or> (acc = q \<and> d > m) \<longleftrightarrow> acc * base + d > M"
  proof -
    consider "acc < q" | "acc = q" | "acc > q" by linarith
    then show ?thesis
    proof cases
      case 1
      then have "(acc + 1) * base \<le> q * base" using assms(1) by (intro mult_right_mono) auto
      then have "acc * base + base \<le> q * base" by (simp add: distrib_right)
      then show ?thesis using 1 M m assms by linarith
    next
      case 2
      then show ?thesis using M by auto
    next
      case 3
      then have "(q + 1) * base \<le> acc * base" using assms(1) by (intro mult_right_mono) auto
      then have "q * base + base \<le> acc * base" by (simp add: distrib_right)
      then show ?thesis using 3 M m assms by linarith
    qed
  qed
  then show ?thesis by (simp add: q_def m_def)
qed

lemma strtol_loop_pos:
  "digits_of base ds \<Longrightarrow> number_ends base r \<Longrightarrow> 2 \<le> base \<Longrightarrow> 0 \<le> acc \<Longrightarrow> acc \<le> LONG_MAX \<Longrightarrow> 0 \<le> any \<Longrightarrow>
     ds \<noteq> [] \<or> any = 1 \<Longrightarrow>
     \<exists>any'. any' \<noteq> 0 \<and> strtol_loop False base (LONG_MAX div base) (LONG_MAX mod base) acc any (ds @ r) =
       (min (digits_val base acc ds) LONG_MAX, any', r)"
proof (induction ds arbitrary: acc any)
  case Nil
  then show ?case by (auto simp: strtol_loop_end)
next
  case (Cons x ds)
  then obtain d where d: "digit_of (ch x) = Some d" "0 \<le> d" "d < base" by auto
  note oc = over_cutoff [OF Cons.prems(3) d(2,3), of LONG_MAX acc]
  show ?case
  proof (cases "acc * base + d > LONG_MAX")
    case True
    have "acc * base + d \<le> digits_val base acc (x # ds)"
      using digits_val_ge [of base ds "acc * base + d"] Cons.prems d by simp
    with True oc Cons.prems d strtol_loop_skip [of base ds r] show ?thesis
      by (intro exI [of _ "-1"]) (simp add: min_def)
  next
    case False
    have "0 \<le> acc * base + d" using Cons.prems d by simp
    from Cons.IH [OF _ Cons.prems(2,3) this, of 1] False oc Cons.prems d show ?thesis
      by auto
  qed
qed

lemma digit_no_space: "digit_of c = Some d \<Longrightarrow> \<not> isspace c \<and> c \<noteq> 45 \<and> c \<noteq> 43"
  by (auto simp: digit_of_def ctype_defs split: if_splits)

lemma strtol_loop_neg:
  "digits_of base ds \<Longrightarrow> number_ends base r \<Longrightarrow> 2 \<le> base \<Longrightarrow> acc \<le> 0 \<Longrightarrow> LONG_MIN \<le> acc \<Longrightarrow> 0 \<le> any \<Longrightarrow>
     ds \<noteq> [] \<or> any = 1 \<Longrightarrow>
     \<exists>any'. any' \<noteq> 0 \<and> strtol_loop True base (- (2 ^ 31 div base)) (2 ^ 31 mod base) acc any (ds @ r) =
       (max (- digits_val base (- acc) ds) LONG_MIN, any', r)"
proof (induction ds arbitrary: acc any)
  case Nil
  then show ?case by (auto simp: strtol_loop_end)
next
  case (Cons x ds)
  then obtain d where d: "digit_of (ch x) = Some d" "0 \<le> d" "d < base" by auto
  have oc: "acc < - (2 ^ 31 div base) \<or> (acc = - (2 ^ 31 div base) \<and> d > 2 ^ 31 mod base) \<longleftrightarrow> - acc * base + d > 2 ^ 31"
    using over_cutoff [OF Cons.prems(3) d(2,3), of "2 ^ 31" "- acc"] by linarith
  show ?case
  proof (cases "- acc * base + d > 2 ^ 31")
    case True
    have "(0 :: int) \<le> 2 ^ 31" by simp
    with True have "0 \<le> - acc * base + d" by simp
    then have "- acc * base + d \<le> digits_val base (- acc) (x # ds)"
      using digits_val_ge [of base ds "- acc * base + d"] Cons.prems d by simp
    with True oc Cons.prems d strtol_loop_skip [of base ds r] show ?thesis
      by (intro exI [of _ "-1"]) (simp add: max_def LONG_MIN_def)
  next
    case False
    have "acc * base \<le> 0" using Cons.prems by (simp add: mult_nonpos_nonneg)
    then have "acc * base - d \<le> 0" "LONG_MIN \<le> acc * base - d" using False d by (simp_all add: LONG_MIN_def)
    from Cons.IH [OF _ Cons.prems(2,3) this, of 1] False oc Cons.prems d show ?thesis
      by (auto simp: algebra_simps)
  qed
qed

text \<open>The limits \<^verbatim>\<open>strtol\<close> computes with C's division.\<close>

lemma limits:
  "2 \<le> base \<Longrightarrow> cdiv LONG_MAX base = LONG_MAX div base \<and> crem LONG_MAX base = LONG_MAX mod base \<and>
     cdiv LONG_MIN base = - (2 ^ 31 div base) \<and> crem LONG_MIN base = - (2 ^ 31 mod base)"
  by (auto simp: cdiv_def crem_def LONG_MAX_def LONG_MIN_def minus_div_mult_eq_mod algebra_simps)

text \<open>An optional sign.\<close>

definition sign_of :: "string \<Rightarrow> bool" where
  "sign_of sg \<longleftrightarrow> sg = [] \<or> sg = ''+'' \<or> sg = ''-''"

definition blanks :: "string \<Rightarrow> bool" where
  "blanks ws \<longleftrightarrow> (\<forall>x\<in>set ws. isspace (ch x))"

definition clamp :: "int \<Rightarrow> int" where
  "clamp v = max LONG_MIN (min v LONG_MAX)"

lemma dropWhile_blanks: "blanks ws \<Longrightarrow> dropWhile (\<lambda>x. isspace (ch x)) (ws @ s) = dropWhile (\<lambda>x. isspace (ch x)) s"
  by (induction ws) (auto simp: blanks_def)

text \<open>
  The base in which the digits are read: a leading \<^verbatim>\<open>0x\<close> is accepted for the bases 0 and 16, and
  base 0 stands for 8 when the digits start with a zero and for 10 otherwise.
\<close>

definition hex_mark :: "string \<Rightarrow> bool" where
  "hex_mark px \<longleftrightarrow> px = ''0x'' \<or> px = ''0X''"

definition radix :: "int \<Rightarrow> string \<Rightarrow> string \<Rightarrow> int \<Rightarrow> bool" where
  "radix base px body b \<longleftrightarrow>
     (hex_mark px \<and> (base = 0 \<or> base = 16) \<and> b = 16) \<or>
     (px = [] \<and> \<not> ((base = 0 \<or> base = 16) \<and> hex_mark (take 2 body)) \<and>
      b = (if base = 0 then if hd0 body = 48 then 8 else 10 else base))"

lemma ch_inject: "ch c = ch d \<longleftrightarrow> c = d"
  by (simp add: ch_def)

lemma hex_mark_hd0:
  "hex_mark (take 2 s) \<longleftrightarrow> hd0 s = 48 \<and> (hd0 (tl s) = 120 \<or> hd0 (tl s) = 88)"
proof -
  have c: "ch c = 48 \<longleftrightarrow> c = CHR ''0''" "ch c = 120 \<longleftrightarrow> c = CHR ''x''" "ch c = 88 \<longleftrightarrow> c = CHR ''X''" for c
    using ch_inject [of c "CHR ''0''"] ch_inject [of c "CHR ''x''"] ch_inject [of c "CHR ''X''"]
    by (simp_all add: ch_def)
  show ?thesis
  proof (cases s)
    case (Cons a t)
    then show ?thesis by (cases t) (auto simp: hex_mark_def hd0_def c)
  qed (simp add: hex_mark_def hd0_def)
qed

text \<open>The limits and the loop, after blanks, sign and prefix.\<close>

definition strtol_scan :: "bool \<Rightarrow> int \<Rightarrow> string \<Rightarrow> int \<times> int \<times> string" where
  "strtol_scan neg b s =
     (if neg then strtol_loop True b (- (2 ^ 31 div b)) (2 ^ 31 mod b) 0 0 s
      else strtol_loop False b (LONG_MAX div b) (LONG_MAX mod b) 0 0 s)"

lemma strtol_scanned:
  assumes skip: "dropWhile (\<lambda>x. isspace (ch x)) nptr = sg @ px @ body" and sg: "sign_of sg"
    and plain: "sg = [] \<Longrightarrow> hd0 (px @ body) \<noteq> 45 \<and> hd0 (px @ body) \<noteq> 43"
    and b: "radix base px body b" "2 \<le> b"
  shows "strtol nptr base =
    (case strtol_scan (sg = ''-'') b body of (acc, any, rest) \<Rightarrow> (acc, if any \<noteq> 0 then rest else nptr))"
proof -
  let ?s = "sg @ px @ body"
  have neg: "hd0 ?s = 45 \<longleftrightarrow> sg = ''-''"
    using sg plain by (auto simp: sign_of_def hd0_def [of "CHR ''-'' # _"] hd0_def [of "CHR ''+'' # _"] ch_def)
  have rest: "(if sg = ''-'' \<or> hd0 ?s = 43 then tl ?s else ?s) = px @ body"
    using sg plain by (auto simp: sign_of_def hd0_def [of "CHR ''+'' # _"] ch_def)
  have hex: "((base = 0 \<or> base = 16) \<and> hd0 (px @ body) = 48 \<and>
      (hd0 (tl (px @ body)) = 120 \<or> hd0 (tl (px @ body)) = 88)) = hex_mark px"
    using b(1) unfolding hex_mark_hd0 [symmetric] by (auto simp: radix_def hex_mark_def)
  have body: "(if hex_mark px then tl (tl (px @ body)) else px @ body) = body"
    using b(1) by (auto simp: radix_def hex_mark_def)
  have base: "(let base = if hex_mark px then 16 else base
      in if base = 0 then if hd0 body = 48 then 8 else 10 else base) = b"
    using b(1) by (auto simp: radix_def hex_mark_def)
  have nm: "\<not> (- ((2 :: int) ^ 31 mod b) > 0)" using b(2) by (simp add: not_less)
  show ?thesis
    unfolding strtol_def skip neg rest Let_def hex body base [unfolded Let_def]
    using limits [OF b(2)] nm by (simp add: strtol_scan_def)
qed

lemma strtol_digits:
  assumes "digits_of b ds" and "ds \<noteq> []" and "number_ends b r" and "2 \<le> b"
  shows "\<exists>any. any \<noteq> 0 \<and> strtol_scan neg b (ds @ r) =
    (clamp (if neg then - digits_val b 0 ds else digits_val b 0 ds), any, r)"
proof -
  have v: "0 \<le> digits_val b 0 ds" using digits_val_ge [OF assms(1,4), of 0] by simp
  show ?thesis
  proof (cases neg)
    case True
    then show ?thesis using strtol_loop_neg [OF assms(1,3,4), of 0 0] assms(2) v
      by (auto simp: strtol_scan_def clamp_def LONG_MIN_def LONG_MAX_def)
  next
    case False
    then show ?thesis using strtol_loop_pos [OF assms(1,3,4), of 0 0] assms(2) v
      by (auto simp: strtol_scan_def clamp_def LONG_MIN_def LONG_MAX_def)
  qed
qed

lemma strstr_bound: "strstr s p = Some i \<Longrightarrow> i + length p \<le> length s \<and> take (length p) (drop i s) = p"
proof (induction s arbitrary: i)
  case Nil
  then show ?case by (subst (asm) strstr.simps) (auto simp: starts_append split: if_splits)
next
  case (Cons x s)
  show ?case
  proof (cases "starts (x # s) p")
    case True
    with Cons.prems have "i = 0" by (subst (asm) strstr.simps) simp
    with True obtain r where "x # s = p @ r" by (auto simp: starts_append)
    then have "length (x # s) = length p + length r" "take (length p) (x # s) = p" by simp_all
    with \<open>i = 0\<close> show ?thesis by simp
  next
    case False
    with Cons.prems obtain j where "strstr s p = Some j" "i = Suc j"
      by (subst (asm) strstr.simps) auto
    with Cons.IH show ?thesis by auto
  qed
qed

text \<open>What replacing is meant to compute: one scan from the left.\<close>

function replace_all :: "string \<Rightarrow> string \<Rightarrow> string \<Rightarrow> string" where
  "replace_all pat rep s =
     (if pat = [] then s
      else if starts s pat then rep @ replace_all pat rep (drop (length pat) s)
      else case s of [] \<Rightarrow> [] | x # r \<Rightarrow> x # replace_all pat rep r)"
  by auto
termination by (relation "measure (\<lambda>(_, _, s). length s)") (auto simp: starts_append)

declare replace_all.simps [simp del]

lemma replace_all_strstr:
  "pat \<noteq> [] \<Longrightarrow> replace_all pat rep s =
     (case strstr s pat of None \<Rightarrow> s | Some i \<Rightarrow> take i s @ rep @ replace_all pat rep (drop (i + length pat) s))"
proof (induction s)
  case Nil
  then show ?case by (subst replace_all.simps, subst strstr.simps) (simp add: starts_append)
next
  case (Cons x s)
  then show ?case
    by (subst replace_all.simps, subst strstr.simps) (auto split: option.splits)
qed

lemma replace_all_length: "length pat \<le> length rep \<Longrightarrow> length s \<le> length (replace_all pat rep s)"
proof (induction pat rep s rule: replace_all.induct)
  case (1 pat rep s)
  show ?case
  proof (cases "pat \<noteq> [] \<and> starts s pat")
    case True
    then show ?thesis using 1 by (subst replace_all.simps) (auto simp: starts_append)
  next
    case False
    then show ?thesis using 1 by (subst replace_all.simps) (auto split: list.splits)
  qed
qed

text \<open>A loop overruns the buffer exactly when its result does not fit: its steps only grow the text then.\<close>

lemma replace_loop_exact:
  "pat \<noteq> [] \<Longrightarrow> length (pre @ s) < n \<Longrightarrow>
     replace_loop pat rep n pre s =
       (let t = pre @ replace_all pat rep s in Some (if length t < n then Text t else Overrun))"
proof (induction "length s" arbitrary: pre s rule: less_induct)
  case less
  show ?case
  proof (cases "strstr s pat")
    case None
    with less.prems show ?thesis
      by (subst replace_all_strstr, simp) (simp add: replace_loop.simps [of _ _ _ _ s])
  next
    case (Some i)
    let ?pre = "pre @ take i s @ rep" and ?s = "drop (i + length pat) s"
    have all: "pre @ replace_all pat rep s = ?pre @ replace_all pat rep ?s"
      using Some less.prems(1) by (subst replace_all_strstr) simp_all
    have bound: "i + length pat \<le> length s" using strstr_bound [OF Some] by simp
    show ?thesis
    proof (cases "length (?pre @ ?s) < n")
      case True
      moreover have "length ?s < length s" using bound less.prems(1) by (cases pat) auto
      ultimately show ?thesis
        using less.hyps [of ?s ?pre] less.prems(1) Some all by (subst replace_loop.simps) (simp add: Let_def)
    next
      case False
      then have "length pat \<le> length rep" using less.prems(2) bound by simp
      then have "\<not> length (pre @ replace_all pat rep s) < n"
        using False replace_all_length [of pat rep ?s] unfolding all by simp
      then show ?thesis using Some False by (subst replace_loop.simps) (simp add: Let_def)
    qed
  qed
qed

text \<open>The patterns in turn, until a text does not fit the buffer.\<close>

fun replacements :: "nat \<Rightarrow> string \<Rightarrow> (string \<times> string) list \<Rightarrow> text_buf" where
  "replacements n s [] = Text s"
| "replacements n s ((p, r) # prs) =
     (if length (replace_all p r s) < n then replacements n (replace_all p r s) prs else Overrun)"

lemma replace_patterns_exact:
  "\<forall>(p, r)\<in>set prs. p \<noteq> [] \<Longrightarrow> length s < n \<Longrightarrow> replace_patterns prs n s = Some (replacements n s prs)"
proof (induction prs arbitrary: s)
  case (Cons pr prs)
  obtain p r where pr: "pr = (p, r)" by (cases pr)
  then show ?case using Cons replace_loop_exact [of p "[]" s n r] by (simp add: Let_def)
qed simp

section \<open>Properties\<close>

text \<open>
  C13. \<^verbatim>\<open>strtol\<close> for every base: after blanks and a sign, with \<^verbatim>\<open>0x\<close> skipped for the bases 0 and
  16 and base 0 resolved by the first digit, the digits of the base parse to the number they
  denote, clamped to the ends of the range when it is out of it, and the end pointer is set to the
  first character that is no digit of the base. Without a digit the result is 0 and the end
  pointer is the start of the text, also behind \<^verbatim>\<open>0x\<close>.
\<close>

theorem strtol_correct:
  assumes ws: "blanks ws" and sg: "sign_of sg" and b: "radix base px (ds @ r) b" "2 \<le> b"
    and ds: "digits_of b ds" "number_ends b r"
    and empty: "ds = [] \<longrightarrow> \<not> isspace (hd0 r) \<and> hd0 r \<noteq> 43 \<and> hd0 r \<noteq> 45"
  shows "strtol (ws @ sg @ px @ ds @ r) base =
    (if ds = [] then (0, ws @ sg @ px @ ds @ r)
     else (clamp (if sg = ''-'' then - digits_val b 0 ds else digits_val b 0 ds), r))"
proof -
  have hd: "\<not> isspace (hd0 (px @ ds @ r)) \<and> hd0 (px @ ds @ r) \<noteq> 45 \<and> hd0 (px @ ds @ r) \<noteq> 43"
  proof (cases "px = []")
    case False
    then show ?thesis using b(1) by (auto simp: radix_def hex_mark_def hd0_def ch_def isspace_def)
  next
    case True
    show ?thesis
    proof (cases ds)
      case Nil
      then show ?thesis using empty True by simp
    next
      case (Cons x ds')
      then obtain d where "digit_of (ch x) = Some d" using ds(1) by auto
      from digit_no_space [OF this] show ?thesis using Cons True by (simp add: hd0_def)
    qed
  qed
  have "\<not> isspace (hd0 (sg @ px @ ds @ r))"
    using sg hd by (auto simp: sign_of_def hd0_def [of "_ # _"] ch_def isspace_def)
  then have skip: "dropWhile (\<lambda>x. isspace (ch x)) (ws @ sg @ px @ ds @ r) = sg @ px @ ds @ r"
    using dropWhile_blanks [OF ws, of "sg @ px @ ds @ r"] by (cases "sg @ px @ ds @ r") (simp_all add: hd0_def)
  note scan = strtol_scanned [OF skip sg _ b]
  show ?thesis
  proof (cases "ds = []")
    case True
    then have "strtol_scan (sg = ''-'') b (ds @ r) = (0, 0, r)"
      using strtol_loop_end [OF ds(2)] by (simp add: strtol_scan_def)
    then show ?thesis using scan hd True by simp
  next
    case False
    then show ?thesis using scan hd strtol_digits [OF ds(1) False ds(2) b(2), of "sg = ''-''"] by auto
  qed
qed

theorem strtol_correct_witness:
  "strtol ''  -123, 4'' 10 = (-123, '', 4'') \<and> strtol ''99999999999x'' 10 = (LONG_MAX, ''x'') \<and>
   strtol ''0x1Fg'' 16 = (31, ''g'') \<and> strtol ''017'' 0 = (15, []) \<and> strtol '' 0x,'' 16 = (0, '' 0x,'')"
proof -
  note defs = digit_of_def ctype_defs ch_def number_ends_def blanks_def sign_of_def digits_of_def radix_def
    hex_mark_def hd0_def
  have "strtol (''  '' @ ''-'' @ [] @ ''123'' @ '', 4'') 10 = (clamp (- digits_val 10 0 ''123''), '', 4'')"
    by (subst strtol_correct [of _ _ _ _ _ _ 10]) (simp_all add: defs)
  moreover have "strtol ([] @ [] @ [] @ ''99999999999'' @ ''x'') 10 = (clamp (digits_val 10 0 ''99999999999''), ''x'')"
    by (subst strtol_correct [of _ _ _ _ _ _ 10]) (simp_all add: defs)
  moreover have "strtol ([] @ [] @ ''0x'' @ ''1F'' @ ''g'') 16 = (clamp (digits_val 16 0 ''1F''), ''g'')"
    by (subst strtol_correct [of _ _ _ _ _ _ 16]) (simp_all add: defs)
  moreover have "strtol ([] @ [] @ [] @ ''017'' @ []) 0 = (clamp (digits_val 8 0 ''017''), [])"
    by (subst strtol_correct [of _ _ _ _ _ _ 8]) (simp_all add: defs)
  moreover have "strtol ('' '' @ [] @ ''0x'' @ [] @ '','') 16 = (0, '' 0x,'')"
    by (subst strtol_correct [of _ _ _ _ _ _ 16]) (simp_all add: defs)
  ultimately show ?thesis
    by (simp add: clamp_def LONG_MAX_def LONG_MIN_def digit_of_def ctype_defs ch_def)
qed

text \<open>
  C14. Replacing nonempty patterns always ends: the result is the input, cut to the buffer, with
  every pattern in turn replaced in one scan from the left, in which text put in by a replacement
  is not scanned again. The buffer is overrun exactly when the text after one of the patterns
  does not fit it.
\<close>

theorem make_string_replacements_correct:
  assumes "\<forall>(p, r)\<in>set prs. p \<noteq> []" and "0 < n"
  shows "make_string_replacements n s prs = Some (replacements n (take (n - 1) s) prs)"
proof -
  have "length (take (n - 1) s) < n" using assms(2) by auto
  from replace_patterns_exact [OF assms(1) this] strlcpy_fits [OF assms(2), of "[]" s] show ?thesis
    by (simp add: make_string_replacements_def)
qed

theorem make_string_replacements_correct_witness:
  "make_string_replacements 16 ''a%b'' [(''%'', ''%%''), (''b'', [])] = Some (Text ''a%%'') \<and>
   make_string_replacements 4 ''a%b'' [(''%'', ''%%''), (''b'', [])] = Some Overrun"
proof -
  have "replace_all ''%'' ''%%'' ''a%b'' = ''a%%b''" "replace_all ''b'' [] ''a%%b'' = ''a%%''"
    by (simp_all add: replace_all.simps starts_def)
  then show ?thesis by (simp add: make_string_replacements_correct)
qed

end
