(* ===== verification/Mylist.thy ===== *)
theory Mylist
  imports Prelude
begin

text \<open>
  The intrusive doubly linked lists (\<^verbatim>\<open>lib/mylist.c\<close>, \<^verbatim>\<open>lib/mylist.h\<close>):
  every operation on a heap of \<open>prev\<close> and \<open>next\<close> links, and the sequence of nodes a well-formed
  list stands for. Nodes are addresses; 0 is \<^verbatim>\<open>NULL\<close>. The assertions of the
  code print and go on, so they are not part of the definitions.
\<close>

section \<open>Links\<close>

record lheap =
  prev :: "ptr \<Rightarrow> ptr"
  nxt :: "ptr \<Rightarrow> ptr"

text \<open>A list is the pair of its two header nodes.\<close>

record mylist =
  head :: ptr
  tail :: ptr

definition set_prev :: "ptr \<Rightarrow> ptr \<Rightarrow> lheap \<Rightarrow> lheap" where
  "set_prev p v s = s\<lparr>prev := (prev s)(p := v)\<rparr>"

definition set_nxt :: "ptr \<Rightarrow> ptr \<Rightarrow> lheap \<Rightarrow> lheap" where
  "set_nxt p v s = s\<lparr>nxt := (nxt s)(p := v)\<rparr>"

lemma links_simps [simp]:
  "prev (set_prev p v s) q = (if q = p then v else prev s q)"
  "nxt (set_prev p v s) = nxt s"
  "nxt (set_nxt p v s) q = (if q = p then v else nxt s q)"
  "prev (set_nxt p v s) = prev s"
  by (simp_all add: set_prev_def set_nxt_def)

section \<open>Operations\<close>

definition is_head :: "lheap \<Rightarrow> ptr \<Rightarrow> bool" where
  "is_head s e \<longleftrightarrow> e \<noteq> 0 \<and> prev s e = 0 \<and> nxt s e \<noteq> 0"

definition is_interior :: "lheap \<Rightarrow> ptr \<Rightarrow> bool" where
  "is_interior s e \<longleftrightarrow> e \<noteq> 0 \<and> prev s e \<noteq> 0 \<and> nxt s e \<noteq> 0"

definition is_tail :: "lheap \<Rightarrow> ptr \<Rightarrow> bool" where
  "is_tail s e \<longleftrightarrow> e \<noteq> 0 \<and> prev s e \<noteq> 0 \<and> nxt s e = 0"

definition mylist_init :: "mylist \<Rightarrow> lheap \<Rightarrow> lheap" where
  "mylist_init l s =
     set_nxt (tail l) 0 (set_prev (tail l) (head l) (set_nxt (head l) (tail l) (set_prev (head l) 0 s)))"

definition mylist_begin :: "mylist \<Rightarrow> lheap \<Rightarrow> ptr" where "mylist_begin l s = nxt s (head l)"
definition mylist_next :: "lheap \<Rightarrow> ptr \<Rightarrow> ptr" where "mylist_next s e = nxt s e"
definition mylist_end :: "mylist \<Rightarrow> ptr" where "mylist_end l = tail l"
definition mylist_rbegin :: "mylist \<Rightarrow> lheap \<Rightarrow> ptr" where "mylist_rbegin l s = prev s (tail l)"
definition mylist_prev :: "lheap \<Rightarrow> ptr \<Rightarrow> ptr" where "mylist_prev s e = prev s e"
definition mylist_rend :: "mylist \<Rightarrow> ptr" where "mylist_rend l = head l"
definition mylist_head :: "mylist \<Rightarrow> ptr" where "mylist_head l = head l"
definition mylist_tail :: "mylist \<Rightarrow> ptr" where "mylist_tail l = tail l"

lemmas mylist_access = mylist_begin_def mylist_next_def mylist_end_def mylist_rbegin_def
  mylist_prev_def mylist_rend_def mylist_head_def mylist_tail_def

definition mylist_insert :: "ptr \<Rightarrow> ptr \<Rightarrow> lheap \<Rightarrow> lheap" where
  "mylist_insert before elem s =
     (let s = set_prev elem (prev s before) s;
          s = set_nxt elem before s;
          s = set_nxt (prev s before) elem s
      in set_prev before elem s)"

definition mylist_splice :: "ptr \<Rightarrow> ptr \<Rightarrow> ptr \<Rightarrow> lheap \<Rightarrow> lheap" where
  "mylist_splice before first lst s =
     (if first = lst then s
      else
        let lst = mylist_prev s lst;
            s = set_nxt (prev s first) (nxt s lst) s;
            s = set_prev (nxt s lst) (prev s first) s;
            s = set_prev first (prev s before) s;
            s = set_nxt lst before s;
            s = set_nxt (prev s before) first s
        in set_prev before lst s)"

definition mylist_push_front :: "mylist \<Rightarrow> ptr \<Rightarrow> lheap \<Rightarrow> lheap" where
  "mylist_push_front l elem s = mylist_insert (mylist_begin l s) elem s"

definition mylist_push_back :: "mylist \<Rightarrow> ptr \<Rightarrow> lheap \<Rightarrow> lheap" where
  "mylist_push_back l elem s = mylist_insert (mylist_end l) elem s"

definition mylist_remove :: "ptr \<Rightarrow> lheap \<Rightarrow> ptr \<times> lheap" where
  "mylist_remove elem s =
     (let s = set_nxt (prev s elem) (nxt s elem) s;
          s = set_prev (nxt s elem) (prev s elem) s
      in (nxt s elem, s))"

definition mylist_front :: "mylist \<Rightarrow> lheap \<Rightarrow> ptr" where "mylist_front l s = nxt s (head l)"
definition mylist_back :: "mylist \<Rightarrow> lheap \<Rightarrow> ptr" where "mylist_back l s = prev s (tail l)"

definition mylist_pop_front :: "mylist \<Rightarrow> lheap \<Rightarrow> ptr \<times> lheap" where
  "mylist_pop_front l s = (let front = mylist_front l s in (front, snd (mylist_remove front s)))"

definition mylist_pop_back :: "mylist \<Rightarrow> lheap \<Rightarrow> ptr \<times> lheap" where
  "mylist_pop_back l s = (let back = mylist_back l s in (back, snd (mylist_remove back s)))"

definition mylist_empty :: "mylist \<Rightarrow> lheap \<Rightarrow> bool" where
  "mylist_empty l s \<longleftrightarrow> mylist_begin l s = mylist_end l"

text \<open>The loops over a list; a list whose links run in a circle keeps them going for ever.\<close>

partial_function (option) size_loop :: "mylist \<Rightarrow> lheap \<Rightarrow> ptr \<Rightarrow> nat \<Rightarrow> nat option" where
  "size_loop l s e cnt =
     (if e \<noteq> mylist_end l then size_loop l s (mylist_next s e) (cnt + 1) else Some cnt)"

definition mylist_size :: "mylist \<Rightarrow> lheap \<Rightarrow> nat option" where
  "mylist_size l s = size_loop l s (mylist_begin l s) 0"

type_synonym mylist_less = "ptr \<Rightarrow> ptr \<Rightarrow> bool"

partial_function (option) is_sorted_loop :: "mylist_less \<Rightarrow> lheap \<Rightarrow> ptr \<Rightarrow> ptr \<Rightarrow> bool option" where
  "is_sorted_loop ls s a b =
     (let a = mylist_next s a in
      if a \<noteq> b then (if ls a (mylist_prev s a) then Some False else is_sorted_loop ls s a b)
      else Some True)"

definition is_sorted :: "mylist_less \<Rightarrow> lheap \<Rightarrow> ptr \<Rightarrow> ptr \<Rightarrow> bool option" where
  "is_sorted ls s a b = (if a \<noteq> b then is_sorted_loop ls s a b else Some True)"

partial_function (option) find_end_of_run :: "mylist_less \<Rightarrow> lheap \<Rightarrow> ptr \<Rightarrow> ptr \<Rightarrow> ptr option" where
  "find_end_of_run ls s a b =
     (let a = mylist_next s a in
      if a \<noteq> b \<and> \<not> ls a (mylist_prev s a) then find_end_of_run ls s a b else Some a)"

partial_function (option) inplace_merge :: "mylist_less \<Rightarrow> ptr \<Rightarrow> ptr \<Rightarrow> ptr \<Rightarrow> lheap \<Rightarrow> lheap option" where
  "inplace_merge ls a0 a1b0 b1 s =
     (if a0 \<noteq> a1b0 \<and> a1b0 \<noteq> b1 then
        if \<not> ls a1b0 a0 then inplace_merge ls (mylist_next s a0) a1b0 b1 s
        else
          let a1b0 = mylist_next s a1b0;
              s = mylist_splice a0 (mylist_prev s a1b0) a1b0 s
          in inplace_merge ls a0 a1b0 b1 s
      else Some s)"

text \<open>One pass of \<^verbatim>\<open>mylist_sort\<close>: the number of runs it puts out, and the heap.\<close>

partial_function (option) sort_pass :: "mylist_less \<Rightarrow> mylist \<Rightarrow> ptr \<Rightarrow> nat \<Rightarrow> lheap \<Rightarrow> (nat \<times> lheap) option" where
  "sort_pass ls l a0 cnt s =
     (if a0 \<noteq> mylist_end l then
        case find_end_of_run ls s a0 (mylist_end l) of
          None \<Rightarrow> None
        | Some a1b0 \<Rightarrow>
            if a1b0 = mylist_end l then Some (cnt + 1, s)
            else
              case find_end_of_run ls s a1b0 (mylist_end l) of
                None \<Rightarrow> None
              | Some b1 \<Rightarrow>
                  (case inplace_merge ls a0 a1b0 b1 s of
                     None \<Rightarrow> None
                   | Some s \<Rightarrow> sort_pass ls l b1 (cnt + 1) s)
      else Some (cnt, s))"

partial_function (option) mylist_sort :: "mylist_less \<Rightarrow> mylist \<Rightarrow> lheap \<Rightarrow> lheap option" where
  "mylist_sort ls l s =
     (case sort_pass ls l (mylist_begin l s) 0 s of
        None \<Rightarrow> None
      | Some (output_run_cnt, s) \<Rightarrow> if output_run_cnt > 1 then mylist_sort ls l s else Some s)"

partial_function (option) insert_ordered_loop :: "mylist_less \<Rightarrow> mylist \<Rightarrow> ptr \<Rightarrow> lheap \<Rightarrow> ptr \<Rightarrow> ptr option" where
  "insert_ordered_loop ls l elem s e =
     (if e \<noteq> mylist_end l \<and> \<not> ls elem e then insert_ordered_loop ls l elem s (mylist_next s e) else Some e)"

definition mylist_insert_ordered :: "mylist_less \<Rightarrow> mylist \<Rightarrow> ptr \<Rightarrow> lheap \<Rightarrow> lheap option" where
  "mylist_insert_ordered ls l elem s =
     map_option (\<lambda>e. mylist_insert e elem s) (insert_ordered_loop ls l elem s (mylist_begin l s))"

partial_function (option) unique_loop :: "mylist_less \<Rightarrow> mylist \<Rightarrow> mylist option \<Rightarrow> ptr \<Rightarrow> lheap \<Rightarrow> lheap option" where
  "unique_loop ls l duplicates elem s =
     (let next = mylist_next s elem in
      if next \<noteq> mylist_end l then
        if \<not> ls elem next \<and> \<not> ls next elem then
          let s = snd (mylist_remove next s);
              s = (case duplicates of None \<Rightarrow> s | Some d \<Rightarrow> mylist_push_back d next s)
          in unique_loop ls l duplicates elem s
        else unique_loop ls l duplicates next s
      else Some s)"

definition mylist_unique :: "mylist_less \<Rightarrow> mylist \<Rightarrow> mylist option \<Rightarrow> lheap \<Rightarrow> lheap option" where
  "mylist_unique ls l duplicates s =
     (if mylist_empty l s then Some s else unique_loop ls l duplicates (mylist_begin l s) s)"

partial_function (option) max_loop :: "mylist_less \<Rightarrow> mylist \<Rightarrow> lheap \<Rightarrow> ptr \<Rightarrow> ptr \<Rightarrow> ptr option" where
  "max_loop ls l s best e =
     (if e \<noteq> mylist_end l then max_loop ls l s (if ls best e then e else best) (mylist_next s e)
      else Some best)"

definition mylist_max :: "mylist_less \<Rightarrow> mylist \<Rightarrow> lheap \<Rightarrow> ptr option" where
  "mylist_max ls l s =
     (let best = mylist_begin l s in
      if best \<noteq> mylist_end l then max_loop ls l s best (mylist_next s best) else Some best)"

partial_function (option) min_loop :: "mylist_less \<Rightarrow> mylist \<Rightarrow> lheap \<Rightarrow> ptr \<Rightarrow> ptr \<Rightarrow> ptr option" where
  "min_loop ls l s best e =
     (if e \<noteq> mylist_end l then min_loop ls l s (if ls e best then e else best) (mylist_next s e)
      else Some best)"

definition mylist_min :: "mylist_less \<Rightarrow> mylist \<Rightarrow> lheap \<Rightarrow> ptr option" where
  "mylist_min ls l s =
     (let best = mylist_begin l s in
      if best \<noteq> mylist_end l then min_loop ls l s best (mylist_next s best) else Some best)"

section \<open>The nodes of a list\<close>

fun linked :: "lheap \<Rightarrow> ptr list \<Rightarrow> bool" where
  "linked s (a # b # r) \<longleftrightarrow> nxt s a = b \<and> prev s b = a \<and> linked s (b # r)"
| "linked s _ = True"

definition nodes :: "lheap \<Rightarrow> mylist \<Rightarrow> ptr list \<Rightarrow> bool" where
  "nodes s l xs \<longleftrightarrow> linked s (head l # xs @ [tail l]) \<and> distinct (head l # xs @ [tail l]) \<and>
     0 \<notin> set (head l # xs @ [tail l]) \<and> prev s (head l) = 0 \<and> nxt s (tail l) = 0"

lemma linked_append: "linked s (xs @ y # ys) \<longleftrightarrow> linked s (xs @ [y]) \<and> linked s (y # ys)"
proof (induction xs)
  case (Cons x xs)
  then show ?case by (cases xs) auto
qed simp

lemma linked_cong:
  "(\<And>p. p \<in> set (butlast xs) \<Longrightarrow> nxt s p = nxt s' p) \<Longrightarrow> (\<And>p. p \<in> set (tl xs) \<Longrightarrow> prev s p = prev s' p) \<Longrightarrow>
     linked s xs \<longleftrightarrow> linked s' xs"
proof (induction s xs rule: linked.induct)
  case (1 s a b r)
  have "linked s (b # r) \<longleftrightarrow> linked s' (b # r)"
    by (rule "1.IH") (use "1.prems" in \<open>auto split: if_splits dest: in_set_butlastD\<close>)
  moreover have "nxt s a = nxt s' a" "prev s b = prev s' b" using "1.prems" by simp_all
  ultimately show ?case by simp
qed simp_all

end
