(* ===== verification/Mylist_Spec.thy ===== *)
theory Mylist_Spec
  imports Mylist "HOL-Library.Multiset"
begin

text \<open>
  What the list operations do to the sequence of nodes: insertion, removal and splicing move
  nodes as the corresponding list operations do, and the merge sort returns with a sorted
  permutation.
\<close>

section \<open>Pieces of a chain\<close>

lemma linked_join:
  "xs \<noteq> [] \<Longrightarrow> ys \<noteq> [] \<Longrightarrow>
     linked s (xs @ ys) \<longleftrightarrow> linked s xs \<and> linked s ys \<and> nxt s (last xs) = hd ys \<and> prev s (hd ys) = last xs"
proof (induction xs)
  case (Cons x xs)
  then show ?case by (cases xs; cases ys) auto
qed simp

text \<open>A piece keeps its links when \<open>nxt\<close> changes at most at its last node and outside, \<open>prev\<close> at its first.\<close>

lemma linked_piece:
  assumes "linked s xs" and "distinct xs"
    and "\<And>p. p \<in> set xs \<Longrightarrow> p \<noteq> last xs \<Longrightarrow> nxt s' p = nxt s p"
    and "\<And>p. p \<in> set xs \<Longrightarrow> p \<noteq> hd xs \<Longrightarrow> prev s' p = prev s p"
  shows "linked s' xs"
proof -
  have "p \<in> set xs \<and> p \<noteq> last xs" if "p \<in> set (butlast xs)" for p
  proof -
    have "xs \<noteq> []" using that by auto
    then have "xs = butlast xs @ [last xs]" by simp
    then have "last xs \<notin> set (butlast xs)" using assms(2) by (metis distinct_append not_distinct_conv_prefix)
    then show ?thesis using that by (auto dest: in_set_butlastD)
  qed
  moreover have "p \<in> set xs \<and> p \<noteq> hd xs" if "p \<in> set (tl xs)" for p
    using that assms(2) by (cases xs) auto
  ultimately have "linked s xs \<longleftrightarrow> linked s' xs"
    using assms(3,4) by (intro linked_cong) auto
  with assms(1) show ?thesis by simp
qed

lemma linked_frame:
  assumes "\<And>p. p \<notin> N \<Longrightarrow> nxt s' p = nxt s p" and "\<And>p. p \<notin> P \<Longrightarrow> prev s' p = prev s p"
    and "linked s xs" and "distinct xs" and "set xs \<inter> N \<subseteq> {last xs}" and "set xs \<inter> P \<subseteq> {hd xs}"
  shows "linked s' xs"
  by (rule linked_piece [OF assms(3,4)]) (use assms(1,2,5,6) in blast)+

definition chain :: "lheap \<Rightarrow> ptr list \<Rightarrow> bool" where
  "chain s xs \<longleftrightarrow> linked s xs \<and> distinct xs \<and> 0 \<notin> set xs"

lemma nodes_chain:
  "nodes s l xs \<longleftrightarrow> chain s (head l # xs @ [tail l]) \<and> prev s (head l) = 0 \<and> nxt s (tail l) = 0"
  by (auto simp: nodes_def chain_def)

lemma chain_nxt: "chain s (A @ a # b # B) \<Longrightarrow> nxt s a = b"
  using linked_join [of "A @ [a]" "b # B" s] by (simp add: chain_def)

lemma chain_prev: "chain s (A @ a # b # B) \<Longrightarrow> prev s b = a"
  using linked_join [of "A @ [a]" "b # B" s] by (simp add: chain_def)

section \<open>Insertion, removal, splicing\<close>

lemma chain_insert:
  assumes "chain s (A @ a # b # B)" and "e \<notin> set (A @ a # b # B)" and "e \<noteq> 0"
  shows "chain (mylist_insert b e s) (A @ a # e # b # B)"
    and "p \<noteq> e \<Longrightarrow> p \<noteq> b \<Longrightarrow> prev (mylist_insert b e s) p = prev s p"
    and "p \<noteq> e \<Longrightarrow> p \<noteq> a \<Longrightarrow> nxt (mylist_insert b e s) p = nxt s p"
proof -
  let ?s = "mylist_insert b e s"
  have pb: "prev s b = a" using chain_prev [OF assms(1)] .
  have d: "distinct (A @ a # b # B)" and l: "linked s (A @ a # b # B)" using assms(1) by (auto simp: chain_def)
  show p: "prev ?s p = prev s p" if "p \<noteq> e" "p \<noteq> b" for p
    using that by (simp add: mylist_insert_def Let_def)
  show n: "nxt ?s p = nxt s p" if "p \<noteq> e" "p \<noteq> a" for p
    using that pb assms(2) by (auto simp: mylist_insert_def Let_def)
  have new: "prev ?s b = e" "nxt ?s e = b" "nxt ?s a = e" "prev ?s e = a"
    using pb assms(2) d by (auto simp: mylist_insert_def Let_def)
  have l2: "linked s (A @ [a])" "linked s (b # B)" using l linked_join [of "A @ [a]" "b # B" s] by auto
  note fr = linked_frame [of "{e, a}" ?s s "{e, b}", OF n p]
  have "linked ?s (A @ [a])" by (rule fr [OF _ _ _ _ l2(1)]) (use d assms(2) in auto)
  moreover have "linked ?s (b # B)" by (rule fr [OF _ _ _ _ l2(2)]) (use d assms(2) in auto)
  ultimately have "linked ?s (A @ a # e # b # B)"
    using linked_join [of "A @ [a]" "e # b # B" ?s] new by simp
  then show "chain ?s (A @ a # e # b # B)" using assms by (auto simp: chain_def)
qed

lemma chain_remove:
  assumes "chain s (A @ a # e # b # B)"
  shows "chain (snd (mylist_remove e s)) (A @ a # b # B)"
    and "fst (mylist_remove e s) = b"
    and "p \<noteq> b \<Longrightarrow> prev (snd (mylist_remove e s)) p = prev s p"
    and "p \<noteq> a \<Longrightarrow> nxt (snd (mylist_remove e s)) p = nxt s p"
proof -
  let ?s = "snd (mylist_remove e s)"
  have e: "prev s e = a" "nxt s e = b"
    using chain_prev [OF assms] chain_nxt [of s "A @ [a]" e b B] assms by simp_all
  have d: "distinct (A @ a # e # b # B)" and l: "linked s (A @ a # e # b # B)" using assms by (auto simp: chain_def)
  show "fst (mylist_remove e s) = b" using e d by (simp add: mylist_remove_def Let_def)
  show p: "prev ?s p = prev s p" if "p \<noteq> b" for p
    using that e d by (simp add: mylist_remove_def Let_def)
  show n: "nxt ?s p = nxt s p" if "p \<noteq> a" for p
    using that e by (simp add: mylist_remove_def Let_def)
  have new: "prev ?s b = a" "nxt ?s a = b"
    using e d by (simp_all add: mylist_remove_def Let_def)
  have l2: "linked s (A @ [a])" "linked s (b # B)" using l linked_join [of "A @ [a]" "e # b # B" s] by auto
  note fr = linked_frame [of "{a}" ?s s "{b}", OF n p]
  have "linked ?s (A @ [a])" by (rule fr [OF _ _ l2(1)]) (use d in auto)
  moreover have "linked ?s (b # B)" by (rule fr [OF _ _ l2(2)]) (use d in auto)
  ultimately have "linked ?s (A @ a # b # B)"
    using linked_join [of "A @ [a]" "b # B" ?s] new by simp
  then show "chain ?s (A @ a # b # B)" using assms by (auto simp: chain_def)
qed

text \<open>Splicing moves the nodes \<open>F\<close> from before \<open>z\<close> to before \<open>b\<close>.\<close>

lemma chain_splice:
  assumes "chain s (A @ a # (b # M) @ F @ z # Z)" and "F \<noteq> []"
  shows "chain (mylist_splice b (hd F) z s) (A @ a # F @ (b # M) @ z # Z)"
    and "p \<noteq> z \<Longrightarrow> p \<noteq> hd F \<Longrightarrow> p \<noteq> b \<Longrightarrow> prev (mylist_splice b (hd F) z s) p = prev s p"
    and "p \<noteq> last (b # M) \<Longrightarrow> p \<noteq> last F \<Longrightarrow> p \<noteq> a \<Longrightarrow> nxt (mylist_splice b (hd F) z s) p = nxt s p"
proof -
  let ?s = "mylist_splice b (hd F) z s"
  let ?m = "last (b # M)"
  have d: "distinct (A @ a # (b # M) @ F @ z # Z)" and l: "linked s (A @ a # (b # M) @ F @ z # Z)"
    using assms(1) by (auto simp: chain_def)
  have F: "hd F \<in> set F" "last F \<in> set F" "?m \<in> set (b # M)" using assms(2) by simp_all
  have l2: "linked s (A @ [a])" "linked s (b # M)" "linked s F" "linked s (z # Z)"
    and j: "prev s b = a" "nxt s ?m = hd F" "prev s (hd F) = ?m" "nxt s (last F) = z" "prev s z = last F"
    using l assms(2) linked_join [of "A @ [a]" "(b # M) @ F @ z # Z" s] linked_join [of "b # M" "F @ z # Z" s]
      linked_join [of F "z # Z" s] by auto
  have ne: "hd F \<noteq> z" "last F \<noteq> z" "a \<noteq> last F" "a \<noteq> ?m" "?m \<noteq> last F" "b \<noteq> hd F" "b \<noteq> z"
    using d F by auto
  have sp: "?s = set_prev b (last F) (set_nxt a (hd F) (set_nxt (last F) b (set_prev (hd F) a (set_prev z ?m (set_nxt ?m z s)))))"
    using j ne by (simp add: mylist_splice_def Let_def mylist_access)
  show p: "prev ?s p = prev s p" if "p \<noteq> z" "p \<noteq> hd F" "p \<noteq> b" for p using that by (simp add: sp)
  show n: "nxt ?s p = nxt s p" if "p \<noteq> ?m" "p \<noteq> last F" "p \<noteq> a" for p using that by (simp add: sp)
  have new: "prev ?s b = last F" "nxt ?s a = hd F" "nxt ?s (last F) = b" "prev ?s (hd F) = a" "prev ?s z = ?m" "nxt ?s ?m = z"
    using ne by (simp_all add: sp)
  note fr = linked_frame [of "{?m, last F, a}" ?s s "{z, hd F, b}", OF n p]
  have "linked ?s (A @ [a])" by (rule fr [OF _ _ _ _ _ _ l2(1)]) (use d F in auto)
  moreover have "linked ?s (b # M)" by (rule fr [OF _ _ _ _ _ _ l2(2)]) (use d F in \<open>auto split: if_splits\<close>)
  moreover have "linked ?s F" by (rule fr [OF _ _ _ _ _ _ l2(3)]) (use d F in auto)
  moreover have "linked ?s (z # Z)" by (rule fr [OF _ _ _ _ _ _ l2(4)]) (use d F in auto)
  ultimately have "linked ?s (A @ a # F @ (b # M) @ z # Z)"
    using linked_join [of "A @ [a]" "F @ (b # M) @ z # Z" ?s] linked_join [of F "(b # M) @ z # Z" ?s]
      linked_join [of "b # M" "z # Z" ?s] new assms(2) by simp
  then show "chain ?s (A @ a # F @ (b # M) @ z # Z)" using assms(1) by (auto simp: chain_def)
qed

section \<open>Traversals\<close>

lemma chain_mid_distinct: "chain s (A @ x # B @ z # Z) \<Longrightarrow> x \<noteq> z"
  by (auto simp: chain_def)

lemma chain_hd: "chain s (A @ x # R @ z # Z) \<Longrightarrow> nxt s x = hd (R @ z # Z)"
  using chain_nxt [of s A x "hd (R @ z # Z)" "tl (R @ z # Z)"] by (cases R) simp_all

lemma size_loop_chain:
  "chain s (A @ R @ [tail l]) \<Longrightarrow> size_loop l s (hd (R @ [tail l])) n = Some (n + length R)"
proof (induction R arbitrary: A n)
  case Nil
  then show ?case by (simp add: size_loop.simps mylist_access)
next
  case (Cons x R)
  then show ?case
    using chain_hd [of s A x R "tail l" "[]"] chain_mid_distinct [of s A x R "tail l" "[]"] Cons.IH [of "A @ [x]" "n + 1"]
    by (simp add: size_loop.simps [of l s x] mylist_access)
qed

lemma insert_ordered_loop_chain:
  "chain s (A @ R @ [tail l]) \<Longrightarrow>
     insert_ordered_loop ls l e s (hd (R @ [tail l])) = Some (hd (dropWhile (\<lambda>y. \<not> ls e y) R @ [tail l]))"
proof (induction R arbitrary: A)
  case Nil
  then show ?case by (simp add: insert_ordered_loop.simps mylist_access)
next
  case (Cons x R)
  then show ?case
    using chain_hd [of s A x R "tail l" "[]"] chain_mid_distinct [of s A x R "tail l" "[]"] Cons.IH [of "A @ [x]"]
    by (simp add: insert_ordered_loop.simps [of ls l e s x] mylist_access)
qed

fun best_of :: "(ptr \<Rightarrow> ptr \<Rightarrow> bool) \<Rightarrow> ptr \<Rightarrow> ptr list \<Rightarrow> ptr" where
  "best_of better b [] = b"
| "best_of better b (x # xs) = best_of better (if better b x then x else b) xs"

lemma max_loop_chain:
  "chain s (A @ R @ [tail l]) \<Longrightarrow> max_loop ls l s b (hd (R @ [tail l])) = Some (best_of ls b R)"
proof (induction R arbitrary: A b)
  case Nil
  then show ?case by (simp add: max_loop.simps mylist_access)
next
  case (Cons x R)
  then show ?case
    using chain_hd [of s A x R "tail l" "[]"] chain_mid_distinct [of s A x R "tail l" "[]"] Cons.IH [of "A @ [x]"]
    by (simp add: max_loop.simps [of ls l s b x] mylist_access)
qed

lemma min_loop_chain:
  "chain s (A @ R @ [tail l]) \<Longrightarrow> min_loop ls l s b (hd (R @ [tail l])) = Some (best_of (\<lambda>b x. ls x b) b R)"
proof (induction R arbitrary: A b)
  case Nil
  then show ?case by (simp add: min_loop.simps mylist_access)
next
  case (Cons x R)
  then show ?case
    using chain_hd [of s A x R "tail l" "[]"] chain_mid_distinct [of s A x R "tail l" "[]"] Cons.IH [of "A @ [x]"]
    by (simp add: min_loop.simps [of ls l s b x] mylist_access)
qed

section \<open>Runs and their merging\<close>

text \<open>The run of nondecreasing elements that starts with \<open>x\<close>, and what follows it.\<close>

fun run_of :: "mylist_less \<Rightarrow> ptr \<Rightarrow> ptr list \<Rightarrow> ptr list \<times> ptr list" where
  "run_of ls x [] = ([x], [])"
| "run_of ls x (y # ys) = (if ls y x then ([x], y # ys) else (case run_of ls y ys of (r, t) \<Rightarrow> (x # r, t)))"

fun merge :: "mylist_less \<Rightarrow> ptr list \<Rightarrow> ptr list \<Rightarrow> ptr list" where
  "merge ls [] ys = ys"
| "merge ls xs [] = xs"
| "merge ls (x # xs) (y # ys) = (if \<not> ls y x then x # merge ls xs (y # ys) else y # merge ls (x # xs) ys)"

lemma run_of_append: "run_of ls x xs = (r, t) \<Longrightarrow> x # xs = r @ t \<and> r \<noteq> []"
  by (induction ls x xs arbitrary: r t rule: run_of.induct) (auto split: if_splits prod.splits)

lemma merge_Nil [simp]: "merge ls xs [] = xs"
  by (cases xs) auto

lemma mset_merge [simp]: "mset (merge ls xs ys) = mset xs + mset ys"
  by (induction ls xs ys rule: merge.induct) auto

lemma set_merge [simp]: "set (merge ls xs ys) = set xs \<union> set ys"
  using mset_merge [of ls xs ys] by (metis set_mset_mset set_mset_union)

lemma merge_empty [simp]: "merge ls xs ys = [] \<longleftrightarrow> xs = [] \<and> ys = []"
  by (induction ls xs ys rule: merge.induct) auto

text \<open>\<^verbatim>\<open>find_end_of_run\<close> and \<^verbatim>\<open>inplace_merge\<close> on a chain.\<close>

lemma find_end_of_run_chain:
  "chain s (A @ x # R @ z # Z) \<Longrightarrow> find_end_of_run ls s x z = Some (hd (snd (run_of ls x R) @ z # Z))"
proof (induction R arbitrary: A x)
  case Nil
  then show ?case using chain_hd [of s A x "[]" z Z] by (simp add: find_end_of_run.simps mylist_access)
next
  case (Cons y R)
  have n: "nxt s x = y" "prev s y = x" using chain_nxt [of s A x y] chain_prev [of s A x y] Cons.prems by simp_all
  have "y \<noteq> z" using chain_mid_distinct [of s "A @ [x]" y R z Z] Cons.prems by simp
  with n Cons.IH [of "A @ [x]" y] Cons.prems show ?case
    by (subst find_end_of_run.simps) (auto simp: mylist_access Let_def split: prod.split)
qed

definition same_outside :: "ptr set \<Rightarrow> ptr set \<Rightarrow> lheap \<Rightarrow> lheap \<Rightarrow> bool" where
  "same_outside P N s s' \<longleftrightarrow> (\<forall>p. p \<notin> P \<longrightarrow> prev s' p = prev s p) \<and> (\<forall>p. p \<notin> N \<longrightarrow> nxt s' p = nxt s p)"

lemma same_outside_refl [simp]: "same_outside P N s s"
  by (simp add: same_outside_def)

lemma same_outside_trans:
  "same_outside P N s s' \<Longrightarrow> same_outside P' N' s' s'' \<Longrightarrow> P \<union> P' \<subseteq> P'' \<Longrightarrow> N \<union> N' \<subseteq> N'' \<Longrightarrow> same_outside P'' N'' s s''"
proof -
  assume a: "same_outside P N s s'" "same_outside P' N' s' s''" "P \<union> P' \<subseteq> P''" "N \<union> N' \<subseteq> N''"
  have "prev s'' p = prev s p" if "p \<notin> P''" for p
  proof -
    have "p \<notin> P" "p \<notin> P'" using a(3) that by auto
    with a(1,2) show ?thesis by (simp add: same_outside_def)
  qed
  moreover have "nxt s'' p = nxt s p" if "p \<notin> N''" for p
  proof -
    have "p \<notin> N" "p \<notin> N'" using a(4) that by auto
    with a(1,2) show ?thesis by (simp add: same_outside_def)
  qed
  ultimately show ?thesis by (simp add: same_outside_def)
qed

lemma inplace_merge_chain:
  assumes "chain s (A @ a # xs @ ys @ z # Z)"
  shows "\<exists>s'. inplace_merge ls (hd (xs @ ys @ z # Z)) (hd (ys @ z # Z)) z s = Some s' \<and>
    chain s' (A @ a # merge ls xs ys @ z # Z) \<and> same_outside (set xs \<union> set ys \<union> {z}) (insert a (set xs \<union> set ys)) s s'"
  using assms
proof (induction "length xs + length ys" arbitrary: xs ys A a s rule: less_induct)
  case less
  show ?case
  proof (cases "xs = [] \<or> ys = []")
    case True
    then show ?thesis using less.prems
      by (intro exI [of _ s]) (subst inplace_merge.simps, auto)
  next
    case False
    then obtain x xs' y ys' where xy: "xs = x # xs'" "ys = y # ys'" by (cases xs; cases ys) auto
    have ne: "x \<noteq> y" "y \<noteq> z" using less.prems by (auto simp: chain_def xy)
    show ?thesis
    proof (cases "ls y x")
      case False
      have c: "chain s ((A @ [a]) @ x # xs' @ ys @ z # Z)" using less.prems by (simp add: xy)
      have "mylist_next s x = hd (xs' @ ys @ z # Z)"
        using chain_hd [of s "A @ [a]" x "xs' @ ys" z Z] less.prems by (simp add: xy mylist_access)
      moreover obtain s' where "inplace_merge ls (hd (xs' @ ys @ z # Z)) (hd (ys @ z # Z)) z s = Some s'"
        "chain s' ((A @ [a]) @ x # merge ls xs' ys @ z # Z)"
        "same_outside (set xs' \<union> set ys \<union> {z}) (insert x (set xs' \<union> set ys)) s s'"
        using less.hyps [OF _ c] xy by auto
      ultimately show ?thesis using False ne
        by (intro exI [of _ s']) (subst inplace_merge.simps, auto simp: xy intro: same_outside_trans [OF same_outside_refl])
    next
      case True
      define u where "u = hd (ys' @ z # Z)"
      obtain W where W: "ys' @ z # Z = u # W" by (cases ys') (auto simp: u_def)
      have c: "chain s (A @ a # (x # xs') @ [y] @ u # W)" using less.prems W by (simp add: xy)
      have u: "mylist_next s y = u" "mylist_prev s u = y"
        using chain_nxt [of s "A @ a # x # xs'" y u W] chain_prev [of s "A @ a # x # xs'" y u W] c by (simp_all add: mylist_access)
      let ?s = "mylist_splice x y u s"
      note sp = chain_splice [OF c]
      have c': "chain ?s ((A @ [a]) @ y # xs @ ys' @ z # Z)" using sp(1) W by (simp add: xy)
      have so: "same_outside (set xs \<union> set ys \<union> {z}) (insert a (set xs \<union> set ys)) s ?s"
      proof (rule same_outside_trans)
        show "same_outside {u, y, x} {last (x # xs'), y, a} s ?s" using sp(2,3) by (simp add: same_outside_def)
        show "same_outside {} {} ?s ?s" by simp
        show "{u, y, x} \<union> {} \<subseteq> set xs \<union> set ys \<union> {z}" using W by (cases ys') (auto simp: xy)
        have "last (x # xs') \<in> set xs" unfolding xy by (rule last_in_set) simp
        then show "{last (x # xs'), y, a} \<union> {} \<subseteq> insert a (set xs \<union> set ys)" by (auto simp: xy)
      qed
      obtain s' where s': "inplace_merge ls (hd (xs @ ys' @ z # Z)) (hd (ys' @ z # Z)) z ?s = Some s'"
        "chain s' ((A @ [a]) @ y # merge ls xs ys' @ z # Z)"
        "same_outside (set xs \<union> set ys' \<union> {z}) (insert y (set xs \<union> set ys')) ?s s'"
        using less.hyps [OF _ c'] xy by auto
      have "inplace_merge ls (hd (xs @ ys @ z # Z)) (hd (ys @ z # Z)) z s = Some s'"
        using s'(1) True ne u by (subst inplace_merge.simps) (simp add: xy Let_def u_def)
      moreover have "same_outside (set xs \<union> set ys \<union> {z}) (insert a (set xs \<union> set ys)) s s'"
        by (rule same_outside_trans [OF so s'(3)]) (auto simp: xy)
      ultimately show ?thesis using s'(2) True by (intro exI [of _ s']) (simp add: xy)
    qed
  qed
qed

end
