(* ===== verification/Mylist_Sort.thy ===== *)
theory Mylist_Sort
  imports Mylist_Spec
begin

text \<open>The merge sort of \<^verbatim>\<open>lib/mylist.c\<close>: its passes, that it returns, and what it returns.\<close>

section \<open>One pass, on the sequence of nodes\<close>

lemma run_of_length: "run_of ls x xs = (r, t) \<Longrightarrow> length t \<le> length xs"
  by (induction ls x xs arbitrary: r t rule: run_of.induct) (auto split: if_splits prod.splits intro: le_SucI)

text \<open>The number of runs put out and the new sequence.\<close>

function pass :: "mylist_less \<Rightarrow> ptr list \<Rightarrow> nat \<times> ptr list" where
  "pass ls [] = (0, [])"
| "pass ls (x # xs) =
     (case run_of ls x xs of (r1, t1) \<Rightarrow>
        case t1 of
          [] \<Rightarrow> (1, x # xs)
        | y # ys \<Rightarrow>
            (case run_of ls y ys of (r2, t2) \<Rightarrow>
               (case pass ls t2 of (n, out) \<Rightarrow> (n + 1, merge ls r1 r2 @ out))))"
  by pat_completeness auto
termination
  by (relation "measure (\<lambda>(_, xs). length xs)") (auto dest!: run_of_length [OF sym])

declare pass.simps(2) [simp del]

text \<open>Its three shapes.\<close>

lemma pass_cases:
  assumes "run_of ls x xs = (r1, t1)"
  obtains "t1 = []" "pass ls (x # xs) = (1, x # xs)" "r1 = x # xs"
  | y ys r2 t2 where "t1 = y # ys" "run_of ls y ys = (r2, t2)" "r1 @ r2 @ t2 = x # xs" "r1 \<noteq> []" "r2 \<noteq> []" "hd r2 = y"
    "pass ls (x # xs) = (fst (pass ls t2) + 1, merge ls r1 r2 @ snd (pass ls t2))" "length t2 < length (x # xs)"
proof (cases t1)
  case Nil
  then have "r1 = x # xs" using run_of_append [OF assms] by simp
  then show ?thesis using that(1) assms Nil by (simp add: pass.simps(2))
next
  case (Cons y ys)
  obtain r2 t2 where r2: "run_of ls y ys = (r2, t2)" by (cases "run_of ls y ys")
  have a: "x # xs = r1 @ y # ys" "r1 \<noteq> []" using run_of_append [OF assms] Cons by simp_all
  have b: "y # ys = r2 @ t2" "r2 \<noteq> []" using run_of_append [OF r2] by simp_all
  have e: "r1 @ r2 @ t2 = x # xs" unfolding a(1) b(1) ..
  have "hd r2 = y" using b by (cases r2) simp_all
  moreover have "length t2 < length (x # xs)" unfolding e [symmetric] using a(2) by simp
  moreover have "pass ls (x # xs) = (fst (pass ls t2) + 1, merge ls r1 r2 @ snd (pass ls t2))"
    using assms r2 Cons by (simp add: pass.simps(2) split: prod.split)
  ultimately show ?thesis using that(2) [OF Cons r2 e a(2) b(2)] by blast
qed

lemma pass_induct [case_names Nil One Two]:
  assumes "P []"
    and "\<And>x xs. run_of ls x xs = (x # xs, []) \<Longrightarrow> P (x # xs)"
    and "\<And>x xs r1 y ys r2 t2. run_of ls x xs = (r1, y # ys) \<Longrightarrow> run_of ls y ys = (r2, t2) \<Longrightarrow>
      r1 @ r2 @ t2 = x # xs \<Longrightarrow> r1 \<noteq> [] \<Longrightarrow> r2 \<noteq> [] \<Longrightarrow> P t2 \<Longrightarrow> P (x # xs)"
  shows "P zs"
proof (induction "length zs" arbitrary: zs rule: less_induct)
  case less
  show ?case
  proof (cases zs)
    case Nil
    then show ?thesis using assms(1) by simp
  next
    case (Cons x xs)
    obtain r1 t1 where r: "run_of ls x xs = (r1, t1)" by (cases "run_of ls x xs")
    from r show ?thesis
    proof (cases rule: pass_cases)
      case 1
      then show ?thesis using assms(2) r Cons by simp
    next
      case (2 y ys r2 t2)
      then show ?thesis using assms(3) [of x xs r1 y ys r2 t2] r less.hyps [of t2] Cons by simp
    qed
  qed
qed

lemma pass_One: "run_of ls x xs = (x # xs, []) \<Longrightarrow> pass ls (x # xs) = (1, x # xs)"
  by (simp add: pass.simps(2))

lemma pass_Two: "run_of ls x xs = (r1, y # ys) \<Longrightarrow> run_of ls y ys = (r2, t2) \<Longrightarrow>
    pass ls (x # xs) = (fst (pass ls t2) + 1, merge ls r1 r2 @ snd (pass ls t2))"
  by (simp add: pass.simps(2) split: prod.split)

lemma mset_pass: "mset (snd (pass ls zs)) = mset zs"
proof (induction zs rule: pass_induct [where ls = ls])
  case (Two x xs r1 y ys r2 t2)
  have "mset (x # xs) = mset r1 + (mset r2 + mset t2)" unfolding Two(3) [symmetric] by simp
  then show ?case using Two by (simp add: pass_Two [OF Two(1,2)] add.assoc)
qed (simp_all add: pass_One)

section \<open>One pass, on the heap\<close>

lemma chain_swap:
  assumes "chain s (A @ a # xs @ [z])" and "chain s' (A @ a # ys @ [z])"
  shows "chain s' ((A @ [a]) @ ys @ [z])"
  using assms by simp

lemma sort_pass_chain:
  assumes "chain s (A @ a # zs @ [tail l])"
  shows "\<exists>s'. sort_pass ls l (hd (zs @ [tail l])) n s = Some (n + fst (pass ls zs), s') \<and>
    chain s' (A @ a # snd (pass ls zs) @ [tail l]) \<and> same_outside (set zs \<union> {tail l}) (insert a (set zs)) s s'"
  using assms
proof (induction zs arbitrary: A a n s rule: pass_induct [where ls = ls])
  case Nil
  then show ?case by (simp add: sort_pass.simps mylist_access)
next
  case (One x xs)
  have "x \<noteq> tail l" using One.prems by (auto simp: chain_def)
  moreover have "find_end_of_run ls s x (tail l) = Some (tail l)"
    using find_end_of_run_chain [of s "A @ [a]" x xs "tail l" "[]" ls] One by simp
  ultimately show ?case using One.prems by (simp add: sort_pass.simps mylist_access pass_One [OF One.hyps])
next
  case (Two x xs r1 y ys r2 t2)
  have y: "r1 @ y # ys = x # xs" "y # ys = r2 @ t2" using run_of_append [OF Two(1)] run_of_append [OF Two(2)] by simp_all
  have e: "r1 @ r2 @ t2 @ [tail l] = x # xs @ [tail l]" "r1 @ r2 @ t2 @ [tail l] = r1 @ y # ys @ [tail l]"
    using arg_cong [OF Two(3), of "\<lambda>u. u @ [tail l]"] arg_cong [OF y(2), of "\<lambda>u. r1 @ u @ [tail l]"] by simp_all
  have p: "chain s (A @ a # x # xs @ [tail l])" using Two.prems by simp
  have c1: "chain s ((A @ [a]) @ x # xs @ tail l # [])" "chain s ((A @ a # r1) @ y # ys @ tail l # [])"
    "chain s (A @ a # r1 @ r2 @ hd (t2 @ [tail l]) # tl (t2 @ [tail l]))"
    using p p [folded e(1), unfolded e(2)] p [folded e(1)] by simp_all
  have ne: "x \<noteq> tail l" "y \<noteq> tail l" using c1 by (auto simp: chain_def)
  define b1 where "b1 = hd (t2 @ [tail l])"
  have f: "find_end_of_run ls s x (tail l) = Some y" "find_end_of_run ls s y (tail l) = Some b1"
    using find_end_of_run_chain [OF c1(1), of ls] find_end_of_run_chain [OF c1(2), of ls] Two(1,2) by (simp_all add: b1_def)
  have h: "hd (r1 @ r2 @ b1 # tl (t2 @ [tail l])) = x" "hd (r2 @ b1 # tl (t2 @ [tail l])) = y"
    using Two(3,4,5) y(2) by (cases r1; cases r2; simp)+
  obtain s1 where s1: "inplace_merge ls x y b1 s = Some s1" "chain s1 (A @ a # merge ls r1 r2 @ t2 @ [tail l])"
    "same_outside (set r1 \<union> set r2 \<union> {b1}) (insert a (set r1 \<union> set r2)) s s1"
    using inplace_merge_chain [OF c1(3), of ls] h by (auto simp: b1_def)
  define m where "m = merge ls r1 r2"
  have m: "m \<noteq> []" using Two(4) by (simp add: m_def)
  have c2: "chain s1 ((A @ a # butlast m) @ last m # t2 @ [tail l])"
    using s1(2) append_butlast_last_id [OF m] by (metis append_Cons append_assoc append_Nil m_def)
  obtain s2 where s2: "sort_pass ls l b1 (n + 1) s1 = Some (n + 1 + fst (pass ls t2), s2)"
    "chain s2 ((A @ a # butlast m) @ last m # snd (pass ls t2) @ [tail l])"
    "same_outside (set t2 \<union> {tail l}) (insert (last m) (set t2)) s1 s2"
    using Two.IH [OF c2, of "n + 1"] by (auto simp: b1_def)
  have "sort_pass ls l x n s = Some (n + 1 + fst (pass ls t2), s2)"
    using f ne s1(1) s2(1) by (subst sort_pass.simps) (simp add: mylist_access)
  moreover have "chain s2 (A @ a # m @ snd (pass ls t2) @ [tail l])"
    using s2(2) append_butlast_last_id [OF m] by (metis append_Cons append_assoc append_Nil)
  moreover have "same_outside (set (x # xs) \<union> {tail l}) (insert a (set (x # xs))) s s2"
  proof (rule same_outside_trans [OF s1(3) s2(3)])
    have "b1 \<in> set t2 \<union> {tail l}" by (cases t2) (auto simp: b1_def)
    then show "set r1 \<union> set r2 \<union> {b1} \<union> (set t2 \<union> {tail l}) \<subseteq> set (x # xs) \<union> {tail l}" unfolding Two(3) [symmetric] by auto
    have "last m \<in> set r1 \<union> set r2" using last_in_set [OF m] by (simp add: m_def)
    then show "insert a (set r1 \<union> set r2) \<union> insert (last m) (set t2) \<subseteq> insert a (set (x # xs))" unfolding Two(3) [symmetric] by auto
  qed
  ultimately show ?case by (intro exI [of _ s2]) (simp add: pass_Two [OF Two(1,2)] m_def)
qed

section \<open>How many runs a pass leaves\<close>

fun nruns :: "mylist_less \<Rightarrow> ptr list \<Rightarrow> nat" where
  "nruns ls [] = 0"
| "nruns ls [x] = 1"
| "nruns ls (x # y # r) = nruns ls (y # r) + (if ls y x then 1 else 0)"

text \<open>Sequences put together from \<open>n\<close> nondecreasing pieces.\<close>

fun pieces :: "mylist_less \<Rightarrow> nat \<Rightarrow> ptr list \<Rightarrow> bool" where
  "pieces ls 0 xs \<longleftrightarrow> xs = []"
| "pieces ls (Suc n) xs \<longleftrightarrow> (\<exists>r t. xs = r @ t \<and> sorted_wrt (\<lambda>a b. \<not> ls b a) r \<and> pieces ls n t)"

lemma nruns_append: "nruns ls (xs @ ys) \<le> nruns ls xs + nruns ls ys"
proof (induction ls xs rule: nruns.induct)
  case (2 ls x)
  then show ?case by (cases ys) auto
qed auto

lemma nruns_sorted: "sorted_wrt (\<lambda>a b. \<not> ls b a) xs \<Longrightarrow> nruns ls xs \<le> 1"
  by (induction ls xs rule: nruns.induct) auto

lemma nruns_pieces: "pieces ls n xs \<Longrightarrow> nruns ls xs \<le> n"
proof (induction n arbitrary: xs)
  case (Suc n)
  then obtain r t where "xs = r @ t" "sorted_wrt (\<lambda>a b. \<not> ls b a) r" "pieces ls n t" by auto
  then show ?case using nruns_append [of ls r t] nruns_sorted [of ls r] Suc.IH [of t] by simp
qed simp

lemma nruns_run_of: "run_of ls x xs = (r, t) \<Longrightarrow> nruns ls (x # xs) = 1 + nruns ls t"
  by (induction ls x xs arbitrary: r t rule: run_of.induct) (auto split: if_splits prod.splits)

lemma pass_nruns: "fst (pass ls zs) = (nruns ls zs + 1) div 2"
proof (induction zs rule: pass_induct [where ls = ls])
  case (One x xs)
  then show ?case using nruns_run_of [OF One] by (simp add: pass_One)
next
  case (Two x xs r1 y ys r2 t2)
  then show ?case using nruns_run_of [OF Two(1)] nruns_run_of [OF Two(2)] by (simp add: pass_Two [OF Two(1,2)])
qed simp

section \<open>Sortedness\<close>

text \<open>The comparison is a strict weak order: \<open>not less\<close> the other way round is transitive.\<close>

definition weak_order :: "mylist_less \<Rightarrow> bool" where
  "weak_order ls \<longleftrightarrow> (\<forall>a b. ls a b \<longrightarrow> \<not> ls b a) \<and> (\<forall>a b c. \<not> ls b a \<longrightarrow> \<not> ls c b \<longrightarrow> \<not> ls c a)"

definition le_sorted :: "mylist_less \<Rightarrow> ptr list \<Rightarrow> bool" where
  "le_sorted ls xs \<longleftrightarrow> sorted_wrt (\<lambda>a b. \<not> ls b a) xs"

lemma le_sorted_simps [simp]:
  "le_sorted ls []"
  "le_sorted ls (x # xs) \<longleftrightarrow> (\<forall>y\<in>set xs. \<not> ls y x) \<and> le_sorted ls xs"
  by (auto simp: le_sorted_def)

lemma run_of_sorted: "weak_order ls \<Longrightarrow> run_of ls x xs = (r, t) \<Longrightarrow> le_sorted ls r \<and> hd r = x"
proof (induction ls x xs arbitrary: r t rule: run_of.induct)
  case (2 ls x y ys)
  show ?case
  proof (cases "ls y x")
    case True
    with "2.prems" show ?thesis by auto
  next
    case False
    obtain r' where r: "r = x # r'" "run_of ls y ys = (r', t)" using "2.prems" False by (auto split: prod.splits)
    then have s: "le_sorted ls r'" "hd r' = y" "r' \<noteq> []" using "2.IH" [OF False "2.prems"(1)] run_of_append by blast+
    have "\<not> ls w x" if "w \<in> set r'" for w
    proof (cases "w = y")
      case False
      then have "\<not> ls w y" using s that by (cases r') auto
      with \<open>\<not> ls y x\<close> "2.prems"(1) show ?thesis unfolding weak_order_def by blast
    qed (use \<open>\<not> ls y x\<close> in simp)
    with r s show ?thesis by simp
  qed
qed auto

lemma merge_sorted: "weak_order ls \<Longrightarrow> le_sorted ls xs \<Longrightarrow> le_sorted ls ys \<Longrightarrow> le_sorted ls (merge ls xs ys)"
proof (induction ls xs ys rule: merge.induct)
  case (3 ls x xs y ys)
  note trans = "3.prems"(1) [unfolded weak_order_def, THEN conjunct2, rule_format]
  note asym = "3.prems"(1) [unfolded weak_order_def, THEN conjunct1, rule_format]
  show ?case
  proof (cases "ls y x")
    case False
    have "\<not> ls w x" if "w \<in> set ys" for w using "3.prems" that trans [OF False, of w] by simp
    with 3 False show ?thesis by auto
  next
    case True
    then have yx: "\<not> ls x y" by (rule asym)
    have "\<not> ls w y" if "w \<in> set xs" for w using "3.prems" that trans [OF yx, of w] by simp
    with 3 True yx show ?thesis by auto
  qed
qed auto

lemma pass_pieces: "weak_order ls \<Longrightarrow> pieces ls (fst (pass ls zs)) (snd (pass ls zs))"
proof (induction zs rule: pass_induct [where ls = ls])
  case (One x xs)
  then show ?case using run_of_sorted [of ls x xs] by (auto simp: pass_One le_sorted_def intro!: exI [of _ "x # xs"])
next
  case (Two x xs r1 y ys r2 t2)
  have "le_sorted ls (merge ls r1 r2)"
    using merge_sorted run_of_sorted [OF Two.prems Two(1)] run_of_sorted [OF Two.prems Two(2)] Two.prems by simp
  with Two show ?case by (auto simp: pass_Two [OF Two(1,2)] le_sorted_def)
qed simp

text \<open>Equal elements keep their order.\<close>

definition same_rank :: "mylist_less \<Rightarrow> ptr \<Rightarrow> ptr \<Rightarrow> bool" where
  "same_rank ls k y \<longleftrightarrow> \<not> ls k y \<and> \<not> ls y k"

lemma merge_stable:
  "weak_order ls \<Longrightarrow> le_sorted ls xs \<Longrightarrow>
     filter (same_rank ls k) (merge ls xs ys) = filter (same_rank ls k) xs @ filter (same_rank ls k) ys"
proof (induction ls xs ys rule: merge.induct)
  case (3 ls x xs y ys)
  show ?case
  proof (cases "ls y x")
    case True
    have "\<not> same_rank ls k w" if "same_rank ls k y" "w \<in> set (x # xs)" for w
    proof
      assume w: "same_rank ls k w"
      note trans = "3.prems"(1) [unfolded weak_order_def, THEN conjunct2, rule_format]
      have "\<not> ls y w" using w that(1) trans [of k w y] by (simp add: same_rank_def)
      moreover have "\<not> ls w x"
      proof (cases "w = x")
        case True
        then show ?thesis using "3.prems"(1) unfolding weak_order_def by blast
      qed (use that(2) "3.prems"(2) in simp)
      ultimately have "\<not> ls y x" using trans [of w x y] by simp
      with True show False by simp
    qed
    then have e: "filter (same_rank ls k) (x # xs) = []" if "same_rank ls k y" using that unfolding filter_empty_conv by blast
    have "filter (same_rank ls k) (merge ls (x # xs) ys) = filter (same_rank ls k) (x # xs) @ filter (same_rank ls k) ys"
      using "3.IH"(2) True "3.prems" by blast
    then show ?thesis using True e by (cases "same_rank ls k y") simp_all
  qed (use 3 in auto)
qed auto

lemma pass_stable: "weak_order ls \<Longrightarrow> filter (same_rank ls k) (snd (pass ls zs)) = filter (same_rank ls k) zs"
proof (induction zs rule: pass_induct [where ls = ls])
  case (Two x xs r1 y ys r2 t2)
  have "filter (same_rank ls k) (x # xs) = filter (same_rank ls k) r1 @ filter (same_rank ls k) r2 @ filter (same_rank ls k) t2"
    unfolding Two(3) [symmetric] by simp
  then show ?case
    using Two merge_stable [of ls r1 k r2] run_of_sorted [OF Two.prems Two(1)] by (simp add: pass_Two [OF Two(1,2)])
qed (simp_all add: pass_One)

section \<open>The sort\<close>

lemma same_outside_nodes:
  assumes "nodes s l xs" and "chain s' (head l # ys @ [tail l])" and "same_outside (set xs \<union> {tail l}) (insert (head l) (set xs)) s s'"
  shows "nodes s' l ys"
proof -
  have "head l \<notin> set xs \<union> {tail l}" "tail l \<notin> insert (head l) (set xs)" using assms(1) by (auto simp: nodes_def)
  then show ?thesis using assms unfolding nodes_chain same_outside_def by simp
qed

lemma mylist_sort_nodes:
  assumes "weak_order ls" and "nodes s l xs"
  shows "\<exists>s' ys. mylist_sort ls l s = Some s' \<and> nodes s' l ys \<and> mset ys = mset xs \<and> le_sorted ls ys \<and>
    (\<forall>k. filter (same_rank ls k) ys = filter (same_rank ls k) xs)"
  using assms(2)
proof (induction "nruns ls xs" arbitrary: xs s rule: less_induct)
  case less
  obtain s1 where s1: "sort_pass ls l (hd (xs @ [tail l])) 0 s = Some (fst (pass ls xs), s1)"
    "chain s1 (head l # snd (pass ls xs) @ [tail l])"
    "same_outside (set xs \<union> {tail l}) (insert (head l) (set xs)) s s1"
    using sort_pass_chain [of s "[]" "head l" xs l ls 0] less.prems by (auto simp: nodes_chain)
  have b: "mylist_begin l s = hd (xs @ [tail l])"
    using less.prems chain_hd [of s "[]" "head l" xs "tail l" "[]"] by (simp add: nodes_chain mylist_access)
  have n1: "nodes s1 l (snd (pass ls xs))" by (rule same_outside_nodes [OF less.prems s1(2,3)])
  note p = pass_pieces [OF assms(1), of xs]
  note k = mset_pass [of ls xs] pass_stable [OF assms(1), of _ xs]
  show ?case
  proof (cases "fst (pass ls xs) > 1")
    case True
    have "nruns ls (snd (pass ls xs)) < nruns ls xs"
      using nruns_pieces [OF p] True pass_nruns [of ls xs] by simp
    from less.hyps [OF this n1] obtain s' ys where r: "mylist_sort ls l s1 = Some s'" "nodes s' l ys"
      "mset ys = mset xs" "le_sorted ls ys" "\<forall>k. filter (same_rank ls k) ys = filter (same_rank ls k) xs"
      using k by auto
    then have "mylist_sort ls l s = Some s'" using s1(1) b True by (subst mylist_sort.simps) simp
    with r show ?thesis by blast
  next
    case False
    then have "mylist_sort ls l s = Some s1" using s1(1) b by (subst mylist_sort.simps) simp
    moreover have "le_sorted ls (snd (pass ls xs))"
    proof (cases "fst (pass ls xs)")
      case (Suc m)
      with False have "m = 0" by simp
      with p Suc show ?thesis by (auto simp: le_sorted_def)
    qed (use p in simp)
    ultimately show ?thesis using n1 k by blast
  qed
qed

end
