(* ===== verification/Mylist_Props.thy ===== *)
theory Mylist_Props
  imports Mylist_Sort
begin

text \<open>
  The contract of the lists, as an interface for clients that queue and remove nodes, and the
  properties of the operations with a concrete list to apply them to.
\<close>

section \<open>Operations on the sequence of nodes\<close>

definition fresh_node :: "mylist \<Rightarrow> ptr list \<Rightarrow> ptr \<Rightarrow> bool" where
  "fresh_node l xs e \<longleftrightarrow> e \<noteq> 0 \<and> e \<notin> set (head l # xs @ [tail l])"

lemma mylist_init_nodes:
  "head l \<noteq> tail l \<Longrightarrow> head l \<noteq> 0 \<Longrightarrow> tail l \<noteq> 0 \<Longrightarrow> nodes (mylist_init l s) l []"
  by (simp add: nodes_def mylist_init_def)

lemma nodes_begin: "nodes s l xs \<Longrightarrow> mylist_begin l s = hd (xs @ [tail l])"
  using chain_hd [of s "[]" "head l" xs "tail l" "[]"] by (simp add: nodes_chain mylist_access)

lemma insert_nodes:
  assumes "nodes s l (xs @ ys)" and "fresh_node l (xs @ ys) e"
  shows "nodes (mylist_insert (hd (ys @ [tail l])) e s) l (xs @ e # ys)"
proof -
  let ?A = "butlast (head l # xs)" and ?a = "last (head l # xs)" and ?b = "hd (ys @ [tail l])" and ?B = "tl (ys @ [tail l])"
  have A: "?A @ [?a] = head l # xs" by (rule append_butlast_last_id) simp
  have B: "?b # ?B = ys @ [tail l]" by (cases ys) simp_all
  have s: "head l # (xs @ ys) @ [tail l] = ?A @ ?a # ?b # ?B"
    using arg_cong2 [OF A B, of "(@)"] by simp
  have s': "head l # (xs @ e # ys) @ [tail l] = ?A @ ?a # e # ?b # ?B"
    using arg_cong2 [OF A, of "e # ?b # ?B" "e # ys @ [tail l]" "(@)"] B by simp
  have c: "chain s (?A @ ?a # ?b # ?B)" using assms(1) unfolding nodes_chain s by simp
  have f: "e \<notin> set (?A @ ?a # ?b # ?B)" "e \<noteq> 0" using assms(2) unfolding fresh_node_def s [symmetric] by simp_all
  note i = chain_insert [OF c f]
  have d: "distinct (head l # (xs @ ys) @ [tail l])" using assms(1) by (simp add: nodes_def)
  have "?b \<noteq> head l" using d by (cases ys) auto
  then have "prev (mylist_insert ?b e s) (head l) = 0"
    using i(2) [of "head l"] assms by (auto simp: fresh_node_def nodes_def)
  moreover have "?a \<noteq> tail l" using d last_in_set [of "head l # xs"] by auto
  then have "nxt (mylist_insert ?b e s) (tail l) = 0"
    using i(3) [of "tail l"] assms by (auto simp: fresh_node_def nodes_def)
  ultimately show ?thesis using i(1) unfolding nodes_chain s' by simp
qed

lemma push_front_nodes: "nodes s l xs \<Longrightarrow> fresh_node l xs e \<Longrightarrow> nodes (mylist_push_front l e s) l (e # xs)"
  using insert_nodes [of s l "[]" xs e] by (simp add: mylist_push_front_def nodes_begin)

lemma push_back_nodes: "nodes s l xs \<Longrightarrow> fresh_node l xs e \<Longrightarrow> nodes (mylist_push_back l e s) l (xs @ [e])"
  using insert_nodes [of s l xs "[]" e] by (simp add: mylist_push_back_def mylist_access)

lemma remove_nodes:
  assumes "nodes s l (xs @ e # ys)"
  shows "nodes (snd (mylist_remove e s)) l (xs @ ys)" and "fst (mylist_remove e s) = hd (ys @ [tail l])"
proof -
  let ?A = "butlast (head l # xs)" and ?a = "last (head l # xs)" and ?b = "hd (ys @ [tail l])" and ?B = "tl (ys @ [tail l])"
  have A: "?A @ [?a] = head l # xs" by (rule append_butlast_last_id) simp
  have B: "?b # ?B = ys @ [tail l]" by (cases ys) simp_all
  have s: "head l # (xs @ ys) @ [tail l] = ?A @ ?a # ?b # ?B"
    using arg_cong2 [OF A B, of "(@)"] by simp
  have s': "head l # (xs @ e # ys) @ [tail l] = ?A @ ?a # e # ?b # ?B"
    using arg_cong2 [OF A, of "e # ?b # ?B" "e # ys @ [tail l]" "(@)"] B by simp
  have c: "chain s (?A @ ?a # e # ?b # ?B)" using assms unfolding nodes_chain s' by simp
  note r = chain_remove [OF c]
  show "fst (mylist_remove e s) = ?b" by (rule r(2))
  have d: "distinct (head l # (xs @ e # ys) @ [tail l])" using assms by (simp add: nodes_def)
  have "?b \<noteq> head l" using d by (cases ys) auto
  then have "prev (snd (mylist_remove e s)) (head l) = 0"
    using r(3) [of "head l"] assms by (auto simp: nodes_def)
  moreover have "?a \<noteq> tail l" using d last_in_set [of "head l # xs"] by auto
  then have "nxt (snd (mylist_remove e s)) (tail l) = 0"
    using r(4) [of "tail l"] assms by (auto simp: nodes_def)
  ultimately show "nodes (snd (mylist_remove e s)) l (xs @ ys)" using r(1) unfolding nodes_chain s by simp
qed

lemma front_nodes: "nodes s l (x # xs) \<Longrightarrow> mylist_front l s = x"
  using nodes_begin [of s l "x # xs"] by (simp add: mylist_front_def mylist_access)

lemma back_nodes: "nodes s l (xs @ [x]) \<Longrightarrow> mylist_back l s = x"
  using chain_prev [of s "head l # xs" x "tail l" "[]"] by (simp add: nodes_chain mylist_back_def)

lemma empty_nodes: "nodes s l xs \<Longrightarrow> mylist_empty l s \<longleftrightarrow> xs = []"
  using nodes_begin [of s l xs] by (cases xs) (auto simp: mylist_empty_def mylist_end_def nodes_def)

lemma pop_front_nodes: "nodes s l (x # xs) \<Longrightarrow> fst (mylist_pop_front l s) = x \<and> nodes (snd (mylist_pop_front l s)) l xs"
  using remove_nodes(1) [of s l "[]" x xs] front_nodes [of s l x xs] by (simp add: mylist_pop_front_def Let_def)

lemma pop_back_nodes: "nodes s l (xs @ [x]) \<Longrightarrow> fst (mylist_pop_back l s) = x \<and> nodes (snd (mylist_pop_back l s)) l xs"
  using remove_nodes(1) [of s l xs x "[]"] back_nodes [of s l xs x] by (simp add: mylist_pop_back_def Let_def)

lemma size_nodes: "nodes s l xs \<Longrightarrow> mylist_size l s = Some (length xs)"
  using size_loop_chain [of s "[head l]" xs l 0] nodes_begin [of s l xs] by (simp add: nodes_chain mylist_size_def)

lemma insert_ordered_nodes:
  assumes "nodes s l xs" and "fresh_node l xs e"
  shows "\<exists>s'. mylist_insert_ordered ls l e s = Some s' \<and>
    nodes s' l (takeWhile (\<lambda>y. \<not> ls e y) xs @ e # dropWhile (\<lambda>y. \<not> ls e y) xs)"
proof -
  have "insert_ordered_loop ls l e s (mylist_begin l s) = Some (hd (dropWhile (\<lambda>y. \<not> ls e y) xs @ [tail l]))"
    using insert_ordered_loop_chain [of s "[head l]" xs l ls e] assms(1) nodes_begin [OF assms(1)] by (simp add: nodes_chain)
  then show ?thesis
    using insert_nodes [of s l "takeWhile (\<lambda>y. \<not> ls e y) xs" "dropWhile (\<lambda>y. \<not> ls e y) xs" e] assms
    by (simp add: mylist_insert_ordered_def)
qed

lemma le_sorted_mid:
  "le_sorted ls (as @ bs) \<Longrightarrow> \<forall>y\<in>set as. \<not> ls e y \<Longrightarrow> \<forall>y\<in>set bs. \<not> ls y e \<Longrightarrow> le_sorted ls (as @ e # bs)"
  unfolding le_sorted_def sorted_wrt_append by simp

lemma takeWhile_sorted_insert:
  assumes "weak_order ls" and "le_sorted ls xs"
  shows "le_sorted ls (takeWhile (\<lambda>y. \<not> ls e y) xs @ e # dropWhile (\<lambda>y. \<not> ls e y) xs)"
proof -
  note asym = assms(1) [unfolded weak_order_def, THEN conjunct1, rule_format]
  note trans = assms(1) [unfolded weak_order_def, THEN conjunct2, rule_format]
  have "\<not> ls y e" if "y \<in> set (dropWhile (\<lambda>y. \<not> ls e y) xs)" for y
  proof -
    let ?d = "dropWhile (\<lambda>y. \<not> ls e y) xs"
    have ne: "?d \<noteq> []" using that by (metis list.set(1) empty_iff)
    have h: "ls e (hd ?d)" using hd_dropWhile [OF ne] by blast
    have "le_sorted ls ?d" using assms(2) unfolding le_sorted_def
      by (metis sorted_wrt_append takeWhile_dropWhile_id)
    then have "y = hd ?d \<or> \<not> ls y (hd ?d)" using that ne by (cases ?d) auto
    with asym [OF h] trans [of "hd ?d" e y] show ?thesis by blast
  qed
  then show ?thesis
    using assms(2) by (intro le_sorted_mid) (auto dest: set_takeWhileD)
qed

text \<open>
  Inserting into a sorted list in order returns and gives a sorted list with the new node
  after the nodes of its rank.
\<close>

lemma mylist_insert_ordered_sorted:
  assumes "weak_order ls" and "nodes s l xs" and "le_sorted ls xs" and "fresh_node l xs e"
  shows "\<exists>s' ys zs. mylist_insert_ordered ls l e s = Some s' \<and> nodes s' l (ys @ e # zs) \<and> xs = ys @ zs \<and>
    le_sorted ls (ys @ e # zs) \<and> (\<forall>y\<in>set ys. \<not> ls e y) \<and> (\<forall>z\<in>set zs. zs \<noteq> [] \<longrightarrow> ls e (hd zs))"
proof -
  obtain s' where "mylist_insert_ordered ls l e s = Some s'"
    "nodes s' l (takeWhile (\<lambda>y. \<not> ls e y) xs @ e # dropWhile (\<lambda>y. \<not> ls e y) xs)"
    using insert_ordered_nodes [OF assms(2,4)] by blast
  moreover have "ls e (hd (dropWhile (\<lambda>y. \<not> ls e y) xs))" if "dropWhile (\<lambda>y. \<not> ls e y) xs \<noteq> []"
    using hd_dropWhile [OF that] by blast
  ultimately show ?thesis
    using takeWhile_sorted_insert [OF assms(1,3), of e]
    by (intro exI [of _ s'] exI [of _ "takeWhile (\<lambda>y. \<not> ls e y) xs"] exI [of _ "dropWhile (\<lambda>y. \<not> ls e y) xs"])
      (auto dest: set_takeWhileD)
qed

section \<open>The lists as queues\<close>

text \<open>
  What a client that queues nodes relies on: \<open>holds s xs\<close> says that the list has the nodes \<open>xs\<close>;
  adding at either end and taking from the front do what they say.
\<close>

locale node_queue =
  fixes holds :: "'s \<Rightarrow> ptr list \<Rightarrow> bool" and ok :: "ptr list \<Rightarrow> ptr \<Rightarrow> bool"
    and add_back :: "ptr \<Rightarrow> 's \<Rightarrow> 's" and take_front :: "'s \<Rightarrow> ptr \<times> 's"
  assumes add_back_holds: "holds s xs \<Longrightarrow> ok xs e \<Longrightarrow> holds (add_back e s) (xs @ [e])"
    and take_front_holds: "holds s (x # xs) \<Longrightarrow> fst (take_front s) = x \<and> holds (snd (take_front s)) xs"

text \<open>Taking \<open>n\<close> nodes from the front.\<close>

fun drain :: "('s \<Rightarrow> ptr \<times> 's) \<Rightarrow> nat \<Rightarrow> 's \<Rightarrow> ptr list \<times> 's" where
  "drain tf 0 s = ([], s)"
| "drain tf (Suc n) s = (case tf s of (x, s) \<Rightarrow> case drain tf n s of (xs, s) \<Rightarrow> (x # xs, s))"

context node_queue
begin

lemma fill_holds:
  "holds s xs \<Longrightarrow> (\<And>us e vs. es = us @ e # vs \<Longrightarrow> ok (xs @ us) e) \<Longrightarrow> holds (fold add_back es s) (xs @ es)"
proof (induction es arbitrary: s xs)
  case (Cons e es)
  have "holds (add_back e s) (xs @ [e])" using add_back_holds [OF Cons.prems(1)] Cons.prems(2) [of "[]" e es] by simp
  then have "holds (fold add_back es (add_back e s)) ((xs @ [e]) @ es)"
    by (rule Cons.IH) (use Cons.prems(2) [of "e # us" for us] in simp)
  then show ?case by simp
qed simp

lemma drain_holds: "holds s (xs @ ys) \<Longrightarrow> fst (drain take_front (length xs) s) = xs \<and> holds (snd (drain take_front (length xs) s)) ys"
proof (induction xs arbitrary: s)
  case (Cons x xs)
  have "fst (take_front s) = x" "holds (snd (take_front s)) (xs @ ys)" using take_front_holds [of s x "xs @ ys"] Cons.prems by auto
  then show ?case using Cons.IH [of "snd (take_front s)"] by (simp add: case_prod_unfold)
qed simp

lemma first_in_first_out:
  assumes "holds s xs" and "\<And>us e vs. es = us @ e # vs \<Longrightarrow> ok (xs @ us) e"
  shows "fst (drain take_front (length (xs @ es)) (fold add_back es s)) = xs @ es"
  using drain_holds [of "fold add_back es s" "xs @ es" "[]"] fill_holds [OF assms] by simp

end

interpretation queue: node_queue "\<lambda>s xs. nodes s l xs" "fresh_node l" "mylist_push_back l" "mylist_pop_front l" for l
  by unfold_locales (use push_back_nodes pop_front_nodes in auto)

section \<open>A list to apply the properties to\<close>

definition demo_list :: mylist where
  "demo_list = \<lparr>head = 10, tail = 11\<rparr>"

definition demo_heap :: lheap where
  "demo_heap = mylist_push_back demo_list 7 (mylist_push_back demo_list 3 (mylist_push_back demo_list 5
     (mylist_init demo_list \<lparr>prev = (\<lambda>_. 0), nxt = (\<lambda>_. 0)\<rparr>)))"

lemma demo_nodes: "nodes demo_heap demo_list [5, 3, 7]"
proof -
  let ?s = "mylist_init demo_list \<lparr>prev = (\<lambda>_. 0), nxt = (\<lambda>_. 0)\<rparr>"
  have "nodes ?s demo_list []" by (rule mylist_init_nodes) (simp_all add: demo_list_def)
  then have "nodes (mylist_push_back demo_list 5 ?s) demo_list ([] @ [5])"
    by (rule push_back_nodes) (simp add: fresh_node_def demo_list_def)
  then have "nodes (mylist_push_back demo_list 3 (mylist_push_back demo_list 5 ?s)) demo_list (([] @ [5]) @ [3])"
    by (rule push_back_nodes) (simp add: fresh_node_def demo_list_def)
  then have "nodes demo_heap demo_list ((([] @ [5]) @ [3]) @ [7])"
    unfolding demo_heap_def by (rule push_back_nodes) (simp add: fresh_node_def demo_list_def)
  then show ?thesis by simp
qed

lemma weak_order_nat: "weak_order (<)"
  by (auto simp: weak_order_def)

section \<open>Properties\<close>

text \<open>
  C15. On a well-formed list with a comparison that is a strict weak order, the merge sort
  returns; the list is then well-formed again, has the same nodes, is sorted, and nodes of equal
  rank keep their order.
\<close>

theorem mylist_sort_correct:
  assumes "weak_order ls" and "nodes s l xs"
  shows "\<exists>s' ys. mylist_sort ls l s = Some s' \<and> nodes s' l ys \<and> mset ys = mset xs \<and> le_sorted ls ys \<and>
    (\<forall>k. filter (same_rank ls k) ys = filter (same_rank ls k) xs)"
  by (rule mylist_sort_nodes [OF assms])

theorem mylist_sort_correct_witness:
  "\<exists>s' ys. mylist_sort (<) demo_list demo_heap = Some s' \<and> nodes s' demo_list ys \<and> mset ys = mset [5, 3, 7] \<and> le_sorted (<) ys"
  using mylist_sort_correct [OF weak_order_nat demo_nodes] by blast

text \<open>
  C16. Inserting before any node or the tail, removing a node, pushing and popping at both ends
  change the sequence of nodes as the list operations of that name do, whatever the list.
\<close>

theorem mylist_updates_correct:
  assumes "nodes s l (xs @ ys)" and "fresh_node l (xs @ ys) e"
  shows "nodes (mylist_insert (hd (ys @ [tail l])) e s) l (xs @ e # ys) \<and>
    nodes (mylist_push_front l e s) l (e # xs @ ys) \<and> nodes (mylist_push_back l e s) l (xs @ ys @ [e]) \<and>
    nodes (snd (mylist_remove e (mylist_insert (hd (ys @ [tail l])) e s))) l (xs @ ys) \<and>
    fst (mylist_pop_front l (mylist_push_front l e s)) = e \<and>
    nodes (snd (mylist_pop_front l (mylist_push_front l e s))) l (xs @ ys) \<and>
    fst (mylist_pop_back l (mylist_push_back l e s)) = e \<and>
    nodes (snd (mylist_pop_back l (mylist_push_back l e s))) l (xs @ ys) \<and>
    mylist_size l s = Some (length xs + length ys)"
proof -
  have pf: "nodes (mylist_push_front l e s) l (e # xs @ ys)" by (rule push_front_nodes [OF assms])
  have pb: "nodes (mylist_push_back l e s) l ((xs @ ys) @ [e])" by (rule push_back_nodes [OF assms])
  note i = insert_nodes [OF assms]
  show ?thesis
    using i remove_nodes(1) [OF i] pf pop_front_nodes [OF pf] pb pop_back_nodes [OF pb] size_nodes [OF assms(1)] by simp
qed

theorem mylist_updates_correct_witness:
  "nodes (mylist_insert 7 4 demo_heap) demo_list [5, 3, 4, 7]"
  using mylist_updates_correct [of demo_heap demo_list "[5, 3]" "[7]" 4] demo_nodes by (simp add: fresh_node_def demo_list_def)

end
