(* ===== verification/Hash.thy ===== *)
theory Hash
  imports Mylist_Props
begin

text \<open>
  The chained hash table (\<^verbatim>\<open>lib/hash.c\<close>, \<^verbatim>\<open>lib/hash.h\<close>). A bucket is the
  sequence of nodes its list has (theory \<open>Mylist_Props\<close> shows that pushing a node to the front and
  removing one act on it as below). The hash and comparison callbacks are parameters; sizes are
  32-bit words. \<^verbatim>\<open>btalloc\<close> succeeds or fails as the parameter \<open>room\<close> says, a function of the
  number of buckets asked for. \<open>None\<close> is a loop that never ends.
\<close>

section \<open>The table\<close>

record hash =
  elem_cnt :: u32
  bucket_cnt :: u32
  buckets :: "ptr list list"
  min_bucket_count :: u32

type_synonym hash_hash_func = "ptr \<Rightarrow> u32"
type_synonym hash_equal_func = "ptr \<Rightarrow> ptr \<Rightarrow> bool"

text \<open>The elements handed to the destructor, in order, and the cleared table.\<close>

definition hash_clear :: "bool \<Rightarrow> hash \<Rightarrow> ptr list \<times> hash" where
  "hash_clear destructor h =
     (if destructor then concat (buckets h) else [],
      h\<lparr>buckets := replicate (unat (bucket_cnt h)) [], elem_cnt := 0\<rparr>)"

definition hash_init_size :: "bool \<Rightarrow> u32 \<Rightarrow> bool \<times> hash" where
  "hash_init_size allocated sz =
     (let h = \<lparr>elem_cnt = 0, bucket_cnt = sz, buckets = [], min_bucket_count = sz\<rparr>
      in if allocated then (True, snd (hash_clear False h)) else (False, h))"

definition hash_init :: "bool \<Rightarrow> bool \<times> hash" where
  "hash_init allocated = hash_init_size allocated 4"

definition hash_destroy :: "bool \<Rightarrow> hash \<Rightarrow> ptr list" where
  "hash_destroy destructor h = (if destructor then fst (hash_clear True h) else [])"

section \<open>Searching\<close>

definition find_bucket :: "hash_hash_func \<Rightarrow> hash \<Rightarrow> ptr \<Rightarrow> nat" where
  "find_bucket hf h e = unat (hf e AND (bucket_cnt h - 1))"

fun find_elem :: "hash_equal_func \<Rightarrow> ptr list \<Rightarrow> ptr \<Rightarrow> ptr option" where
  "find_elem eq [] e = None"
| "find_elem eq (hi # r) e = (if eq hi e then Some hi else find_elem eq r e)"

definition insert_elem :: "nat \<Rightarrow> ptr \<Rightarrow> hash \<Rightarrow> hash" where
  "insert_elem bucket e h =
     h\<lparr>elem_cnt := elem_cnt h + 1, buckets := (buckets h)[bucket := e # buckets h ! bucket]\<rparr>"

definition remove_elem :: "ptr \<Rightarrow> hash \<Rightarrow> hash" where
  "remove_elem e h = h\<lparr>elem_cnt := elem_cnt h - 1, buckets := map (remove1 e) (buckets h)\<rparr>"

section \<open>Rehashing\<close>

definition turn_off_least_1bit :: "u32 \<Rightarrow> u32" where
  "turn_off_least_1bit x = x AND (x - 1)"

definition my_is_power_of_2 :: "u32 \<Rightarrow> bool" where
  "my_is_power_of_2 x \<longleftrightarrow> x \<noteq> 0 \<and> turn_off_least_1bit x = 0"

definition BEST_ELEMS_PER_BUCKET :: u32 where "BEST_ELEMS_PER_BUCKET = 2"

partial_function (option) round_loop :: "u32 \<Rightarrow> u32 option" where
  "round_loop n = (if \<not> my_is_power_of_2 n then round_loop (turn_off_least_1bit n) else Some n)"

definition move_elem :: "hash_hash_func \<Rightarrow> ptr \<Rightarrow> hash \<Rightarrow> hash" where
  "move_elem hf e h =
     (let b = find_bucket hf h e in h\<lparr>buckets := (buckets h)[b := e # buckets h ! b]\<rparr>)"

definition rehash :: "hash_hash_func \<Rightarrow> (u32 \<Rightarrow> bool) \<Rightarrow> hash \<Rightarrow> hash option" where
  "rehash hf room h =
     (let old_buckets = buckets h;
          new_bucket_cnt = elem_cnt h div BEST_ELEMS_PER_BUCKET;
          new_bucket_cnt = (if new_bucket_cnt < min_bucket_count h then min_bucket_count h else new_bucket_cnt)
      in case round_loop new_bucket_cnt of
           None \<Rightarrow> None
         | Some new_bucket_cnt \<Rightarrow>
             if new_bucket_cnt = bucket_cnt h then Some h
             else if \<not> room new_bucket_cnt then Some h
             else
               let h = h\<lparr>buckets := replicate (unat new_bucket_cnt) [], bucket_cnt := new_bucket_cnt\<rparr>
               in Some (fold (fold (move_elem hf)) old_buckets h))"

section \<open>Operations\<close>

definition hash_insert :: "hash_hash_func \<Rightarrow> hash_equal_func \<Rightarrow> (u32 \<Rightarrow> bool) \<Rightarrow> ptr \<Rightarrow> hash \<Rightarrow> (ptr option \<times> hash) option" where
  "hash_insert hf eq room new h =
     (let bucket = find_bucket hf h new;
          old = find_elem eq (buckets h ! bucket) new;
          h = (if old = None then insert_elem bucket new h else h)
      in map_option (\<lambda>h. (old, h)) (rehash hf room h))"

definition hash_replace :: "hash_hash_func \<Rightarrow> hash_equal_func \<Rightarrow> (u32 \<Rightarrow> bool) \<Rightarrow> ptr \<Rightarrow> hash \<Rightarrow> (ptr option \<times> hash) option" where
  "hash_replace hf eq room new h =
     (let bucket = find_bucket hf h new;
          old = find_elem eq (buckets h ! bucket) new;
          h = (case old of None \<Rightarrow> h | Some p \<Rightarrow> remove_elem p h);
          h = insert_elem bucket new h
      in map_option (\<lambda>h. (old, h)) (rehash hf room h))"

definition hash_find :: "hash_hash_func \<Rightarrow> hash_equal_func \<Rightarrow> hash \<Rightarrow> ptr \<Rightarrow> ptr option" where
  "hash_find hf eq h e = find_elem eq (buckets h ! find_bucket hf h e) e"

definition hash_find_bucket :: "hash_hash_func \<Rightarrow> hash \<Rightarrow> ptr \<Rightarrow> ptr list" where
  "hash_find_bucket hf h e = buckets h ! find_bucket hf h e"

definition hash_find_bucket_with_hash :: "hash \<Rightarrow> u32 \<Rightarrow> ptr list" where
  "hash_find_bucket_with_hash h hashval = buckets h ! unat (hashval AND (bucket_cnt h - 1))"

definition hash_delete :: "hash_hash_func \<Rightarrow> hash_equal_func \<Rightarrow> (u32 \<Rightarrow> bool) \<Rightarrow> ptr \<Rightarrow> hash \<Rightarrow> (ptr option \<times> hash) option" where
  "hash_delete hf eq room e h =
     (let found = find_elem eq (buckets h ! find_bucket hf h e) e
      in case found of
           None \<Rightarrow> Some (None, h)
         | Some p \<Rightarrow> map_option (\<lambda>h. (found, h)) (rehash hf room (remove_elem p h)))"

text \<open>The elements \<^verbatim>\<open>hash_apply\<close> calls its action with, in order.\<close>

definition hash_apply :: "hash \<Rightarrow> ptr list" where
  "hash_apply h = concat (take (unat (bucket_cnt h)) (buckets h))"

definition hash_size :: "hash \<Rightarrow> u32" where "hash_size h = elem_cnt h"
definition hash_empty :: "hash \<Rightarrow> bool" where "hash_empty h \<longleftrightarrow> elem_cnt h = 0"

text \<open>
  An iterator: the bucket it is in, and its position there, 0 at the head node, \<open>k\<close> at the \<open>k\<close>th
  element, one past the last at the tail node; \<open>None\<close> is the null pointer at the end.
\<close>

record hash_iterator =
  it_bucket :: nat
  it_elem :: "nat option"

definition hash_first :: hash_iterator where
  "hash_first = \<lparr>it_bucket = 0, it_elem = Some 0\<rparr>"

function skip_empty :: "hash \<Rightarrow> nat \<Rightarrow> nat \<Rightarrow> hash_iterator" where
  "skip_empty h b pos =
     (if pos = length (buckets h ! b) + 1 then
        if b + 1 \<ge> unat (bucket_cnt h) then \<lparr>it_bucket = b + 1, it_elem = None\<rparr>
        else skip_empty h (b + 1) 1
      else \<lparr>it_bucket = b, it_elem = Some pos\<rparr>)"
  by auto
termination by (relation "measure (\<lambda>(h, b, _). unat (bucket_cnt h) - b)") auto

declare skip_empty.simps [simp del]

definition hash_cur :: "hash \<Rightarrow> hash_iterator \<Rightarrow> ptr option" where
  "hash_cur h i = map_option (\<lambda>pos. buckets h ! it_bucket i ! (pos - 1)) (it_elem i)"

definition hash_next :: "hash \<Rightarrow> hash_iterator \<Rightarrow> hash_iterator" where
  "hash_next h i = (case it_elem i of None \<Rightarrow> i | Some pos \<Rightarrow> skip_empty h (it_bucket i) (pos + 1))"

section \<open>Hash functions\<close>

definition FNV_32_PRIME :: u32 where "FNV_32_PRIME = 16777619"
definition FNV_32_BASIS :: u32 where "FNV_32_BASIS = 2166136261"

definition fnv_step :: "u8 \<Rightarrow> u32 \<Rightarrow> u32" where
  "fnv_step b hash = (hash * FNV_32_PRIME) XOR ucast b"

definition hash_bytes :: "u8 list \<Rightarrow> u32" where
  "hash_bytes buf = fold fnv_step buf FNV_32_BASIS"

definition hash_string :: "string \<Rightarrow> u32" where
  "hash_string s = fold (\<lambda>c. fnv_step (of_char c)) s FNV_32_BASIS"

text \<open>The four bytes of an integer, lowest first, as they are in memory on x86.\<close>

definition hash_int :: "u32 \<Rightarrow> u32" where
  "hash_int i = hash_bytes [ucast i, ucast (drop_bit 8 i), ucast (drop_bit 16 i), ucast (drop_bit 24 i)]"

end
