(* ===== verification/Hash_Spec.thy ===== *)
theory Hash_Spec
  imports Hash
begin

text \<open>
  The table as a set of elements no two of which are equal: the invariant of the buckets, that
  every operation keeps it and returns, and what lookup says after each of them.
\<close>

section \<open>Bucket numbers\<close>

lemma find_bucket_bound: "bucket_cnt h \<noteq> 0 \<Longrightarrow> find_bucket hf h e < unat (bucket_cnt h)"
proof -
  assume c: "bucket_cnt h \<noteq> 0"
  have "hf e AND (bucket_cnt h - 1) \<le> bucket_cnt h - 1" by (rule word_and_le1)
  then have "unat (hf e AND (bucket_cnt h - 1)) \<le> unat (bucket_cnt h - 1)" by (simp add: word_le_nat_alt)
  also have "\<dots> < unat (bucket_cnt h)" using c by (simp add: unat_minus_one unat_gt_0)
  finally show ?thesis by (simp add: find_bucket_def)
qed

lemma turn_off_less: "x \<noteq> 0 \<Longrightarrow> turn_off_least_1bit x < x"
proof -
  assume "x \<noteq> 0"
  have "turn_off_least_1bit x \<le> x - 1" unfolding turn_off_least_1bit_def by (rule word_and_le1)
  also have "\<dots> < x" using \<open>x \<noteq> 0\<close> by (simp add: word_less_nat_alt unat_minus_one unat_gt_0)
  finally show ?thesis .
qed

lemma round_loop_ends: "x \<noteq> 0 \<Longrightarrow> \<exists>y. round_loop x = Some y \<and> y \<noteq> 0 \<and> y \<le> x \<and> my_is_power_of_2 y"
proof (induction "unat x" arbitrary: x rule: less_induct)
  case less
  show ?case
  proof (cases "my_is_power_of_2 x")
    case True
    then show ?thesis using less.prems by (simp add: round_loop.simps)
  next
    case False
    then have "turn_off_least_1bit x \<noteq> 0" using less.prems by (simp add: my_is_power_of_2_def)
    moreover note lt = turn_off_less [OF less.prems]
    ultimately obtain y where "round_loop (turn_off_least_1bit x) = Some y" "y \<noteq> 0" "y \<le> turn_off_least_1bit x" "my_is_power_of_2 y"
      using less.hyps [of "turn_off_least_1bit x"] by (auto simp: word_less_nat_alt)
    with False lt show ?thesis by (subst round_loop.simps) auto
  qed
qed

section \<open>The invariant\<close>

definition elems :: "hash \<Rightarrow> ptr set" where
  "elems h = set (concat (buckets h))"

text \<open>The callbacks agree: equality is an equivalence, and equal elements have equal hashes.\<close>

definition callbacks_ok :: "hash_hash_func \<Rightarrow> hash_equal_func \<Rightarrow> bool" where
  "callbacks_ok hf eq \<longleftrightarrow> equivp eq \<and> (\<forall>a b. eq a b \<longrightarrow> hf a = hf b)"

definition placed :: "hash_hash_func \<Rightarrow> hash \<Rightarrow> bool" where
  "placed hf h \<longleftrightarrow> bucket_cnt h \<noteq> 0 \<and> min_bucket_count h \<noteq> 0 \<and> length (buckets h) = unat (bucket_cnt h) \<and>
     (\<forall>i<length (buckets h). \<forall>e\<in>set (buckets h ! i). find_bucket hf h e = i) \<and>
     elem_cnt h = of_nat (length (concat (buckets h)))"

definition hash_ok :: "hash_hash_func \<Rightarrow> hash_equal_func \<Rightarrow> hash \<Rightarrow> bool" where
  "hash_ok hf eq h \<longleftrightarrow> placed hf h \<and> distinct (concat (buckets h)) \<and>
     (\<forall>x\<in>elems h. \<forall>y\<in>elems h. eq x y \<longrightarrow> x = y)"

lemma elems_nth: "e \<in> elems h \<longleftrightarrow> (\<exists>i<length (buckets h). e \<in> set (buckets h ! i))"
  unfolding elems_def set_concat by (metis UN_iff in_set_conv_nth)

lemma placed_elems: "placed hf h \<Longrightarrow> e \<in> elems h \<longleftrightarrow> e \<in> set (buckets h ! find_bucket hf h e)"
  using find_bucket_bound [of h hf e] by (auto simp: placed_def elems_nth)

lemma find_elem_Some: "find_elem eq xs e = Some x \<Longrightarrow> x \<in> set xs \<and> eq x e"
  by (induction xs) (auto split: if_splits)

lemma find_elem_None: "find_elem eq xs e = None \<longleftrightarrow> (\<forall>x\<in>set xs. \<not> eq x e)"
  by (induction xs) auto

lemma find_bucket_eq: "callbacks_ok hf eq \<Longrightarrow> eq a b \<Longrightarrow> find_bucket hf h a = find_bucket hf h b"
  by (simp add: callbacks_ok_def find_bucket_def)

lemma eq_elems:
  assumes "callbacks_ok hf eq" and "placed hf h" and "eq x e"
  shows "x \<in> elems h \<longleftrightarrow> x \<in> set (buckets h ! find_bucket hf h e)"
  using placed_elems [OF assms(2)] find_bucket_eq [OF assms(1,3)] by simp

lemma hash_find_spec:
  assumes "callbacks_ok hf eq" and "hash_ok hf eq h"
  shows "hash_find hf eq h e = Some x \<longleftrightarrow> x \<in> elems h \<and> eq x e"
proof -
  have pl: "placed hf h" and u: "\<forall>x\<in>elems h. \<forall>y\<in>elems h. eq x y \<longrightarrow> x = y" using assms(2) by (auto simp: hash_ok_def)
  have sym: "eq a b \<Longrightarrow> eq b a" "eq a b \<Longrightarrow> eq b c \<Longrightarrow> eq a c" for a b c
    using assms(1) unfolding callbacks_ok_def by (blast dest: equivp_symp equivp_transp)+
  show ?thesis
  proof
    assume "hash_find hf eq h e = Some x"
    with find_elem_Some eq_elems [OF assms(1) pl] show "x \<in> elems h \<and> eq x e" unfolding hash_find_def by blast
  next
    assume x: "x \<in> elems h \<and> eq x e"
    then have "x \<in> set (buckets h ! find_bucket hf h e)" using eq_elems [OF assms(1) pl] by blast
    then have "hash_find hf eq h e \<noteq> None" using x unfolding hash_find_def find_elem_None by blast
    then obtain y where y: "hash_find hf eq h e = Some y" by blast
    then have "y \<in> elems h" "eq y e"
      using find_elem_Some eq_elems [OF assms(1) pl] unfolding hash_find_def by blast+
    moreover have "eq y x" using sym(2) [OF \<open>eq y e\<close> sym(1)] x by blast
    ultimately have "y = x" using u x by blast
    with y show "hash_find hf eq h e = Some x" by simp
  qed
qed

section \<open>Rehashing keeps the elements\<close>

lemma fold_fold: "fold (fold f) xss h = fold f (concat xss) h"
  by (induction xss arbitrary: h) auto

lemma mset_concat_update:
  "i < length xss \<Longrightarrow> mset (concat (xss[i := e # xss ! i])) = add_mset e (mset (concat xss))"
proof (induction xss arbitrary: i)
  case (Cons xs xss)
  then show ?case by (cases i) auto
qed simp

definition pre_placed :: "hash_hash_func \<Rightarrow> hash \<Rightarrow> bool" where
  "pre_placed hf h \<longleftrightarrow> bucket_cnt h \<noteq> 0 \<and> length (buckets h) = unat (bucket_cnt h) \<and>
     (\<forall>i<length (buckets h). \<forall>e\<in>set (buckets h ! i). find_bucket hf h e = i)"

lemma find_bucket_cong: "bucket_cnt h = bucket_cnt h' \<Longrightarrow> find_bucket hf h e = find_bucket hf h' e"
  by (simp add: find_bucket_def)

lemma move_elem_placed:
  assumes "pre_placed hf h"
  shows "pre_placed hf (move_elem hf e h) \<and> mset (concat (buckets (move_elem hf e h))) = add_mset e (mset (concat (buckets h)))"
proof -
  let ?b = "find_bucket hf h e"
  let ?h = "move_elem hf e h"
  have b: "?b < length (buckets h)" using assms find_bucket_bound [of h hf e] by (simp add: pre_placed_def)
  have bh: "buckets ?h = (buckets h)[?b := e # buckets h ! ?b]" "bucket_cnt ?h = bucket_cnt h" by (simp_all add: move_elem_def Let_def)
  have "find_bucket hf ?h x = i" if "i < length (buckets ?h)" "x \<in> set (buckets ?h ! i)" for x i
    using that assms find_bucket_cong [OF bh(2), of hf x] unfolding bh pre_placed_def by (cases "i = ?b") auto
  then show ?thesis
    using assms mset_concat_update [OF b] by (simp add: pre_placed_def bh)
qed

lemma fold_move_placed:
  "pre_placed hf h \<Longrightarrow> pre_placed hf (fold (move_elem hf) es h) \<and>
     mset (concat (buckets (fold (move_elem hf) es h))) = mset es + mset (concat (buckets h))"
proof (induction es arbitrary: h)
  case (Cons e es)
  then show ?case using move_elem_placed [OF Cons.prems, of e] Cons.IH [of "move_elem hf e h"] by simp
qed simp

lemma fold_move_fields:
  "bucket_cnt (fold (move_elem hf) es h) = bucket_cnt h" "elem_cnt (fold (move_elem hf) es h) = elem_cnt h"
  "min_bucket_count (fold (move_elem hf) es h) = min_bucket_count h"
  by (induction es arbitrary: h) (simp_all add: move_elem_def Let_def)

lemma concat_replicate_Nil: "concat (replicate n []) = []"
  by (induction n) auto

lemma rehash_spec:
  assumes "placed hf h"
  shows "\<exists>h'. rehash hf room h = Some h' \<and> placed hf h' \<and> mset (concat (buckets h')) = mset (concat (buckets h)) \<and>
    elem_cnt h' = elem_cnt h \<and> min_bucket_count h' = min_bucket_count h"
proof -
  define n where "n = (let n = elem_cnt h div BEST_ELEMS_PER_BUCKET in if n < min_bucket_count h then min_bucket_count h else n)"
  have "n \<noteq> 0" using assms by (auto simp: n_def Let_def placed_def word_gt_0)
  then obtain m where m: "round_loop n = Some m" "m \<noteq> 0" using round_loop_ends by blast
  let ?h0 = "h\<lparr>buckets := replicate (unat m) [], bucket_cnt := m\<rparr>"
  let ?h1 = "fold (fold (move_elem hf)) (buckets h) ?h0"
  have r: "rehash hf room h = Some (if m = bucket_cnt h \<or> \<not> room m then h else ?h1)"
    using m(1) by (simp add: rehash_def n_def Let_def)
  have "pre_placed hf ?h0" using m(2) by (simp add: pre_placed_def)
  from fold_move_placed [OF this, of "concat (buckets h)"]
  have 1: "pre_placed hf ?h1" "mset (concat (buckets ?h1)) = mset (concat (buckets h))"
    by (simp_all add: fold_fold concat_replicate_Nil)
  have 2: "elem_cnt ?h1 = elem_cnt h" "min_bucket_count ?h1 = min_bucket_count h"
    by (simp_all add: fold_fold fold_move_fields)
  have "length (concat (buckets ?h1)) = length (concat (buckets h))" using 1(2) by (metis size_mset)
  then have "placed hf ?h1" using 1(1) 2 assms by (simp add: placed_def pre_placed_def)
  then show ?thesis using r 1 2 assms by auto
qed

lemma rehash_ok:
  assumes "hash_ok hf eq h"
  shows "\<exists>h'. rehash hf room h = Some h' \<and> hash_ok hf eq h' \<and> elems h' = elems h"
proof -
  obtain h' where h': "rehash hf room h = Some h'" "placed hf h'" "mset (concat (buckets h')) = mset (concat (buckets h))"
    using rehash_spec assms unfolding hash_ok_def by blast
  have e: "elems h' = elems h" using h'(3) mset_eq_setD unfolding elems_def by blast
  have "distinct (concat (buckets h'))" using h'(3) assms mset_eq_imp_distinct_iff unfolding hash_ok_def by blast
  then show ?thesis using h' e assms by (simp add: hash_ok_def)
qed

section \<open>Insertion and deletion\<close>

lemma insert_elem_fields:
  assumes "placed hf h"
  shows "placed hf (insert_elem (find_bucket hf h e) e h) \<and>
    mset (concat (buckets (insert_elem (find_bucket hf h e) e h))) = add_mset e (mset (concat (buckets h)))"
proof -
  let ?b = "find_bucket hf h e"
  let ?h = "insert_elem ?b e h"
  have bh: "buckets ?h = (buckets h)[?b := e # buckets h ! ?b]" "bucket_cnt ?h = bucket_cnt h" by (simp_all add: insert_elem_def)
  have b: "?b < length (buckets h)" using assms find_bucket_bound [of h hf e] by (simp add: placed_def)
  have "find_bucket hf ?h x = i" if "i < length (buckets ?h)" "x \<in> set (buckets ?h ! i)" for x i
    using that assms find_bucket_cong [OF bh(2), of hf x] unfolding bh placed_def by (cases "i = ?b") auto
  moreover note m = mset_concat_update [OF b, of e]
  moreover have "length (concat (buckets ?h)) = length (concat (buckets h)) + 1"
    unfolding bh by (metis m size_mset length_append_singleton mset.simps(2) length_Cons Suc_eq_plus1)
  ultimately show ?thesis using assms by (simp add: placed_def bh) (simp add: insert_elem_def add.commute)
qed

lemma concat_remove1: "distinct (concat xss) \<Longrightarrow> concat (map (remove1 e) xss) = remove1 e (concat xss)"
proof (induction xss)
  case (Cons xs xss)
  show ?case
  proof (cases "e \<in> set xs")
    case True
    then have "map (remove1 e) xss = xss" using Cons.prems by (intro map_idI remove1_idem) auto
    with True show ?thesis by (simp add: remove1_append)
  qed (use Cons in \<open>simp add: remove1_append remove1_idem\<close>)
qed simp

lemma of_nat_pred32: "n \<noteq> 0 \<Longrightarrow> of_nat n - 1 = (of_nat (n - 1) :: u32)"
  by (cases n) simp_all

lemma remove_elem_ok:
  assumes "hash_ok hf eq h" and "e \<in> elems h"
  shows "hash_ok hf eq (remove_elem e h)" and "elems (remove_elem e h) = elems h - {e}"
proof -
  let ?h = "remove_elem e h"
  have d: "distinct (concat (buckets h))" and e: "e \<in> set (concat (buckets h))" and pl: "placed hf h"
    using assms by (auto simp: hash_ok_def elems_def)
  note c = concat_remove1 [OF d, of e]
  show el: "elems ?h = elems h - {e}"
    unfolding elems_def remove_elem_def using d by (simp add: c set_remove1_eq)
  have bh: "buckets ?h = map (remove1 e) (buckets h)" "bucket_cnt ?h = bucket_cnt h" by (simp_all add: remove_elem_def)
  have "find_bucket hf ?h x = i" if "i < length (buckets ?h)" "x \<in> set (buckets ?h ! i)" for x i
  proof -
    have "i < length (buckets h)" "x \<in> set (remove1 e (buckets h ! i))" using that by (simp_all add: bh)
    then have "find_bucket hf h x = i" using notin_set_remove1 [of x "buckets h ! i" e] pl unfolding placed_def by blast
    then show ?thesis using find_bucket_cong [OF bh(2), of hf x] by simp
  qed
  moreover have "elem_cnt ?h = of_nat (length (concat (buckets ?h)))"
  proof -
    have "length (concat (buckets h)) \<noteq> 0" using e by (metis length_0_conv list.set(1) empty_iff)
    then show ?thesis
      using pl e of_nat_pred32 [of "length (concat (buckets h))"]
      by (simp add: bh(1) c length_remove1 placed_def) (simp add: remove_elem_def)
  qed
  ultimately have "placed hf ?h"
    using pl unfolding placed_def by (simp add: bh) (simp add: remove_elem_def)
  moreover have "distinct (concat (buckets ?h))" unfolding bh c by (rule distinct_remove1 [OF d])
  ultimately show "hash_ok hf eq ?h" using assms(1) el by (simp add: hash_ok_def)
qed

lemma insert_elem_ok:
  assumes "hash_ok hf eq h" and "\<forall>x\<in>elems h. \<not> eq x e" and "callbacks_ok hf eq"
  shows "hash_ok hf eq (insert_elem (find_bucket hf h e) e h)"
    and "elems (insert_elem (find_bucket hf h e) e h) = insert e (elems h)"
proof -
  let ?h = "insert_elem (find_bucket hf h e) e h"
  have pl: "placed hf h" and d: "distinct (concat (buckets h))" using assms(1) by (auto simp: hash_ok_def)
  have i: "placed hf ?h" "mset (concat (buckets ?h)) = add_mset e (mset (concat (buckets h)))"
    using insert_elem_fields [OF pl, of e] by blast+
  have m: "mset (concat (buckets ?h)) = mset (e # concat (buckets h))" using i(2) by simp
  show el: "elems ?h = insert e (elems h)" using mset_eq_setD [OF m] by (simp add: elems_def)
  have refl: "eq e e" "eq e y \<Longrightarrow> eq y e" for y
    using assms(3) unfolding callbacks_ok_def by (blast dest: equivp_reflp equivp_symp)+
  then have "e \<notin> elems h" using assms(2) by blast
  then have "distinct (e # concat (buckets h))" using d by (simp add: elems_def)
  then have "distinct (concat (buckets ?h))" using mset_eq_imp_distinct_iff [OF m] by blast
  moreover have "\<forall>x\<in>elems ?h. \<forall>y\<in>elems ?h. eq x y \<longrightarrow> x = y"
    unfolding el using assms(1,2) refl by (auto simp: hash_ok_def)
  ultimately show "hash_ok hf eq ?h" using i(1) by (simp add: hash_ok_def)
qed

lemma hash_find_None:
  "callbacks_ok hf eq \<Longrightarrow> hash_ok hf eq h \<Longrightarrow> hash_find hf eq h e = None \<longleftrightarrow> (\<forall>x\<in>elems h. \<not> eq x e)"
  using hash_find_spec [of hf eq h e] by (metis not_None_eq)

lemma hash_insert_spec:
  assumes "callbacks_ok hf eq" and "hash_ok hf eq h"
  shows "\<exists>h'. hash_insert hf eq room e h = Some (hash_find hf eq h e, h') \<and> hash_ok hf eq h' \<and>
    elems h' = (if hash_find hf eq h e = None then insert e (elems h) else elems h)"
proof -
  let ?h = "if hash_find hf eq h e = None then insert_elem (find_bucket hf h e) e h else h"
  have "hash_ok hf eq ?h \<and> elems ?h = (if hash_find hf eq h e = None then insert e (elems h) else elems h)"
    using insert_elem_ok [OF assms(2) _ assms(1), of e] hash_find_None [OF assms, of e] assms(2) by auto
  moreover obtain h' where "rehash hf room ?h = Some h'" "hash_ok hf eq h'" "elems h' = elems ?h"
    using rehash_ok calculation by blast
  ultimately show ?thesis by (auto simp: hash_insert_def Let_def hash_find_def split: if_splits)
qed

lemma hash_delete_spec:
  assumes "callbacks_ok hf eq" and "hash_ok hf eq h"
  shows "\<exists>h'. hash_delete hf eq room e h = Some (hash_find hf eq h e, h') \<and> hash_ok hf eq h' \<and>
    elems h' = {x \<in> elems h. \<not> eq x e}"
proof (cases "hash_find hf eq h e")
  case None
  then show ?thesis using hash_find_None [OF assms, of e] assms(2) by (auto simp: hash_delete_def hash_find_def)
next
  case (Some p)
  then have p: "p \<in> elems h" "eq p e" using hash_find_spec [OF assms] by blast+
  note r = remove_elem_ok [OF assms(2) p(1)]
  obtain h' where h': "rehash hf room (remove_elem p h) = Some h'" "hash_ok hf eq h'" "elems h' = elems h - {p}"
    using rehash_ok [OF r(1)] r(2) by metis
  have "x = p" if "x \<in> elems h" "eq x e" for x
    using hash_find_spec [OF assms, of e x] that Some by simp
  then have "elems h - {p} = {x \<in> elems h. \<not> eq x e}" using p(2) by auto
  with Some h' show ?thesis by (auto simp: hash_delete_def hash_find_def)
qed

lemma hash_replace_spec:
  assumes "callbacks_ok hf eq" and "hash_ok hf eq h"
  shows "\<exists>h'. hash_replace hf eq room e h = Some (hash_find hf eq h e, h') \<and> hash_ok hf eq h' \<and>
    elems h' = insert e {x \<in> elems h. \<not> eq x e}"
proof -
  let ?h = "case hash_find hf eq h e of None \<Rightarrow> h | Some p \<Rightarrow> remove_elem p h"
  have h: "hash_ok hf eq ?h \<and> elems ?h = {x \<in> elems h. \<not> eq x e}"
  proof (cases "hash_find hf eq h e")
    case None
    then show ?thesis using hash_find_None [OF assms, of e] assms(2) by auto
  next
    case (Some p)
    then have p: "p \<in> elems h" "eq p e" using hash_find_spec [OF assms] by blast+
    have "x = p" if "x \<in> elems h" "eq x e" for x
      using hash_find_spec [OF assms, of e x] that Some by simp
    then have "elems h - {p} = {x \<in> elems h. \<not> eq x e}" using p(2) by auto
    then show ?thesis using Some remove_elem_ok [OF assms(2) p(1)] by simp
  qed
  have b: "find_bucket hf ?h e = find_bucket hf h e"
    by (rule find_bucket_cong) (simp add: remove_elem_def split: option.split)
  have "\<forall>x\<in>elems ?h. \<not> eq x e" using h by simp
  note i = insert_elem_ok [OF h [THEN conjunct1] this assms(1), unfolded b]
  obtain h' where "rehash hf room (insert_elem (find_bucket hf h e) e ?h) = Some h'" "hash_ok hf eq h'" "elems h' = insert e (elems ?h)"
    using rehash_ok [OF i(1)] i(2) by metis
  with h show ?thesis by (auto simp: hash_replace_def Let_def hash_find_def)
qed

lemma hash_init_ok: "sz \<noteq> 0 \<Longrightarrow> hash_ok hf eq (snd (hash_init_size True sz)) \<and> elems (snd (hash_init_size True sz)) = {}"
  by (auto simp: hash_init_size_def hash_clear_def hash_ok_def placed_def elems_def concat_replicate_Nil)

end
