(* ===== verification/Hash_Props.thy ===== *)
theory Hash_Props
  imports Hash_Spec
begin

text \<open>
  The table as a dictionary, the interface its clients rely on, and the properties of the
  operations.
\<close>

section \<open>Dictionaries\<close>

text \<open>
  A store of elements no two of which are equal in the sense of \<open>eq\<close>. Inserting and deleting
  return what was there before.
\<close>

locale dictionary =
  fixes ins :: "ptr \<Rightarrow> 's \<Rightarrow> (ptr option \<times> 's) option" and del :: "ptr \<Rightarrow> 's \<Rightarrow> (ptr option \<times> 's) option"
    and lookup :: "'s \<Rightarrow> ptr \<Rightarrow> ptr option" and els :: "'s \<Rightarrow> ptr set" and inv :: "'s \<Rightarrow> bool"
    and eq :: "ptr \<Rightarrow> ptr \<Rightarrow> bool"
  assumes eq_refl: "inv s \<Longrightarrow> eq e e"
    and lookup_law: "inv s \<Longrightarrow> lookup s e = Some x \<longleftrightarrow> x \<in> els s \<and> eq x e"
    and ins_law: "inv s \<Longrightarrow> \<exists>s'. ins e s = Some (lookup s e, s') \<and> inv s' \<and>
      els s' = (if lookup s e = None then insert e (els s) else els s)"
    and del_law: "inv s \<Longrightarrow> \<exists>s'. del e s = Some (lookup s e, s') \<and> inv s' \<and> els s' = {x \<in> els s. \<not> eq x e}"

text \<open>Inserting one element after the other.\<close>

fun insert_all :: "(ptr \<Rightarrow> 's \<Rightarrow> (ptr option \<times> 's) option) \<Rightarrow> ptr list \<Rightarrow> 's \<Rightarrow> 's option" where
  "insert_all ins [] s = Some s"
| "insert_all ins (e # es) s = (case ins e s of None \<Rightarrow> None | Some (old, s) \<Rightarrow> insert_all ins es s)"

context dictionary
begin

lemma lookup_None: "inv s \<Longrightarrow> lookup s e = None \<longleftrightarrow> (\<forall>x\<in>els s. \<not> eq x e)"
  using lookup_law [of s e] by (metis not_None_eq)

lemma ins_then_lookup:
  assumes "inv s" and "ins e s = Some (old, s')"
  shows "inv s' \<and> lookup s' e \<noteq> None \<and> els s \<subseteq> els s' \<and> els s' \<subseteq> insert e (els s)"
proof -
  have s': "inv s'" "els s' = (if lookup s e = None then insert e (els s) else els s)"
    using ins_law [OF assms(1), of e] assms(2) by auto
  have "\<exists>x\<in>els s'. eq x e"
  proof (cases "lookup s e")
    case None
    then show ?thesis using s' eq_refl [OF assms(1), of e] by auto
  next
    case (Some x)
    then show ?thesis using s' lookup_law [OF assms(1), of e x] by auto
  qed
  then show ?thesis using s' lookup_None [OF s'(1), of e] by auto
qed

lemma del_then_lookup:
  assumes "inv s" and "del e s = Some (old, s')"
  shows "inv s' \<and> lookup s' e = None \<and> els s' = {x \<in> els s. \<not> eq x e}"
  using del_law [OF assms(1), of e] assms(2) lookup_None [of s' e] by auto

lemma insert_all_lookup:
  "inv s \<Longrightarrow> \<exists>s'. insert_all ins es s = Some s' \<and> inv s' \<and> els s \<subseteq> els s' \<and> els s' \<subseteq> els s \<union> set es \<and>
     (\<forall>e\<in>set es. lookup s' e \<noteq> None)"
proof (induction es arbitrary: s)
  case (Cons e es)
  obtain old s1 where s1: "ins e s = Some (old, s1)" using ins_law [OF Cons.prems, of e] by blast
  note i = ins_then_lookup [OF Cons.prems s1]
  obtain s' where s': "insert_all ins es s1 = Some s'" "inv s'" "els s1 \<subseteq> els s'" "els s' \<subseteq> els s1 \<union> set es"
    "\<forall>e\<in>set es. lookup s' e \<noteq> None"
    using Cons.IH [of s1] i by blast
  obtain x where "lookup s1 e = Some x" using i by blast
  then have "x \<in> els s'" "eq x e" using lookup_law [of s1 e x] i s'(3) by auto
  then have "lookup s' e = Some x" using lookup_law [OF s'(2)] by simp
  then have "lookup s' e \<noteq> None" by simp
  then show ?case using s' s1 i by (intro exI [of _ s']) auto
qed simp

end

definition hash_inv :: "hash_hash_func \<Rightarrow> hash_equal_func \<Rightarrow> hash \<Rightarrow> bool" where
  "hash_inv hf eq h \<longleftrightarrow> callbacks_ok hf eq \<and> hash_ok hf eq h"

interpretation hash: dictionary "hash_insert hf eq room" "hash_delete hf eq room" "hash_find hf eq" elems "hash_inv hf eq" eq
  for hf eq room
proof unfold_locales
  show "eq e e" if "hash_inv hf eq s" for s e
    using that unfolding hash_inv_def callbacks_ok_def by (blast dest: equivp_reflp)
  show "hash_find hf eq s e = Some x \<longleftrightarrow> x \<in> elems s \<and> eq x e" if "hash_inv hf eq s" for s e x
    using that hash_find_spec by (simp add: hash_inv_def)
  show "\<exists>s'. hash_insert hf eq room e s = Some (hash_find hf eq s e, s') \<and> hash_inv hf eq s' \<and>
      elems s' = (if hash_find hf eq s e = None then insert e (elems s) else elems s)" if "hash_inv hf eq s" for s e
    using that hash_insert_spec [of hf eq s room e] by (auto simp: hash_inv_def)
  show "\<exists>s'. hash_delete hf eq room e s = Some (hash_find hf eq s e, s') \<and> hash_inv hf eq s' \<and>
      elems s' = {x \<in> elems s. \<not> eq x e}" if "hash_inv hf eq s" for s e
    using that hash_delete_spec [of hf eq s room e] by (auto simp: hash_inv_def)
qed

section \<open>Properties\<close>

lemma callbacks_ok_id: "callbacks_ok of_nat (=)"
  by (simp add: callbacks_ok_def identity_equivp)

definition demo_hash :: hash where
  "demo_hash = snd (hash_init_size True 3)"

lemma demo_hash_ok: "hash_ok of_nat (=) demo_hash" "elems demo_hash = {}"
  using hash_init_ok [of 3 of_nat "(=)"] by (simp_all add: demo_hash_def)

text \<open>
  C17. With callbacks that agree, every operation on a well-formed table returns, whether or not
  there is memory to rehash, and keeps it well-formed: insertion adds the element unless an equal
  one is there, replacement puts it in place of the equal one, deletion removes exactly the equal
  one, each returning that one; lookup finds an element exactly when one is equal.
\<close>

theorem hash_operations_correct:
  assumes "callbacks_ok hf eq" and "hash_ok hf eq h"
  shows "(\<forall>x. hash_find hf eq h e = Some x \<longleftrightarrow> x \<in> elems h \<and> eq x e) \<and>
    (\<exists>h'. hash_insert hf eq room e h = Some (hash_find hf eq h e, h') \<and> hash_ok hf eq h' \<and>
       elems h' = (if hash_find hf eq h e = None then insert e (elems h) else elems h)) \<and>
    (\<exists>h'. hash_replace hf eq room e h = Some (hash_find hf eq h e, h') \<and> hash_ok hf eq h' \<and>
       elems h' = insert e {x \<in> elems h. \<not> eq x e}) \<and>
    (\<exists>h'. hash_delete hf eq room e h = Some (hash_find hf eq h e, h') \<and> hash_ok hf eq h' \<and>
       elems h' = {x \<in> elems h. \<not> eq x e})"
  using hash_find_spec [OF assms] hash_insert_spec [OF assms] hash_replace_spec [OF assms] hash_delete_spec [OF assms] by blast

theorem hash_operations_correct_witness:
  "\<exists>h'. hash_insert of_nat (=) (\<lambda>_. True) 5 demo_hash = Some (None, h') \<and> elems h' = {5}"
proof -
  have "hash_find of_nat (=) demo_hash 5 = None" using hash_find_None [OF callbacks_ok_id demo_hash_ok(1)] demo_hash_ok(2) by simp
  then show ?thesis
    using hash_operations_correct [OF callbacks_ok_id demo_hash_ok(1), of 5 "\<lambda>_. True"] demo_hash_ok(2) by auto
qed

text \<open>
  Filling a new table of any size but zero with a sequence of elements returns, however the
  allocations of its rehashes turn out; afterwards each of them is found, up to equality, the
  table holds nothing else, and its number of buckets divides the hashes into valid buckets.
\<close>

theorem hash_fill_correct:
  assumes "callbacks_ok hf eq" and "sz \<noteq> 0"
  shows "\<exists>h. insert_all (hash_insert hf eq room) es (snd (hash_init_size True sz)) = Some h \<and> hash_ok hf eq h \<and>
    elems h \<subseteq> set es \<and> (\<forall>e\<in>set es. \<exists>x\<in>elems h. eq x e \<and> hash_find hf eq h e = Some x) \<and>
    (\<forall>x\<in>elems h. find_bucket hf h x < length (buckets h) \<and> x \<in> set (buckets h ! find_bucket hf h x))"
proof -
  have "hash_inv hf eq (snd (hash_init_size True sz))" "elems (snd (hash_init_size True sz)) = {}"
    using hash_init_ok [OF assms(2)] assms(1) by (simp_all add: hash_inv_def)
  from hash.insert_all_lookup [OF this(1), of room es] this(2) obtain h
    where h: "insert_all (hash_insert hf eq room) es (snd (hash_init_size True sz)) = Some h" "hash_inv hf eq h"
      "elems h \<subseteq> set es" "\<forall>e\<in>set es. hash_find hf eq h e \<noteq> None" by auto
  have pl: "placed hf h" using h(2) by (simp add: hash_inv_def hash_ok_def)
  have "\<exists>x\<in>elems h. eq x e \<and> hash_find hf eq h e = Some x" if e: "e \<in> set es" for e
  proof -
    obtain x where "hash_find hf eq h e = Some x" using h(4) e by blast
    then show ?thesis using hash_find_spec [of hf eq h e x] h(2) by (auto simp: hash_inv_def)
  qed
  then have f: "\<forall>e\<in>set es. \<exists>x\<in>elems h. eq x e \<and> hash_find hf eq h e = Some x" by (rule ballI)
  have l: "length (buckets h) = unat (bucket_cnt h)" "bucket_cnt h \<noteq> 0" using pl unfolding placed_def by blast+
  have b: "\<forall>x\<in>elems h. find_bucket hf h x < length (buckets h) \<and> x \<in> set (buckets h ! find_bucket hf h x)"
  proof
    fix x assume "x \<in> elems h"
    then show "find_bucket hf h x < length (buckets h) \<and> x \<in> set (buckets h ! find_bucket hf h x)"
      using placed_elems [OF pl, of x] find_bucket_bound [OF l(2), of hf x] unfolding l(1) by blast
  qed
  have "hash_ok hf eq h" using h(2) by (simp add: hash_inv_def)
  with h(1,3) f b show ?thesis by (intro exI [of _ h] conjI)
qed

theorem hash_fill_correct_witness:
  "\<exists>h. insert_all (hash_insert of_nat (=) (\<lambda>_. False)) [5, 9, 5] (snd (hash_init_size True 3)) = Some h \<and>
    hash_find of_nat (=) h 9 = Some 9"
proof -
  have "(3 :: u32) \<noteq> 0" by simp
  from hash_fill_correct [OF callbacks_ok_id this, of "\<lambda>_. False" "[5, 9, 5]"] show ?thesis by auto
qed

end
