(* ===== verification/Opctable.thy ===== *)
theory Opctable
  imports Prelude
begin

text \<open>
  The opcode table (\<^verbatim>\<open>peep/opctable.c\<close>): it gives every name of an instruction that the
  disassembler knows a number, the position of the name in the name table, and maps the number
  of a disassembler entry and the size flags it was reached with to that number. The name table
  has entries of ten bytes, so that a name is cut to nine characters. Assertions print a message
  and go on; an access that then leaves the arrays is \<open>None\<close>.
\<close>

section \<open>The table\<close>

definition MAX_DISAS_ENTRIES :: nat where "MAX_DISAS_ENTRIES = 4192"
definition MAX_SIZEFLAGS :: nat where "MAX_SIZEFLAGS = 4"
definition MAX_OPCS :: nat where "MAX_OPCS = 2048"
definition opc_inval :: int where "opc_inval = 0"

lemmas opctable_sizes = MAX_DISAS_ENTRIES_def MAX_SIZEFLAGS_def MAX_OPCS_def opc_inval_def

text \<open>The lists hold the entries in use; their lengths are the sizes the code keeps.\<close>

record btmod_opctable =
  dpnum :: int
  nametable :: "string list"
  sizeflagtable :: "int list"
  opctable :: "nat \<Rightarrow> nat \<Rightarrow> int"

text \<open>The text that \<^verbatim>\<open>snprintf\<close> leaves in an entry of the name table.\<close>

definition name_entry :: "string \<Rightarrow> string" where
  "name_entry name = take 9 name"

definition opctable_init :: btmod_opctable where
  "opctable_init =
     \<lparr>dpnum = 0, nametable = [name_entry ''(bad)''], sizeflagtable = [], opctable = (\<lambda>_ _. opc_inval)\<rparr>"

section \<open>Lookup\<close>

fun index_from :: "nat \<Rightarrow> 'a \<Rightarrow> 'a list \<Rightarrow> nat option" where
  "index_from i x [] = None"
| "index_from i x (y # ys) = (if y = x then Some i else index_from (i + 1) x ys)"

definition find_sizeflag_num :: "btmod_opctable \<Rightarrow> int \<Rightarrow> nat" where
  "find_sizeflag_num ot sizeflag =
     (case index_from 0 sizeflag (sizeflagtable ot) of
        Some i \<Rightarrow> i
      | None \<Rightarrow> length (sizeflagtable ot))"

definition in_table :: "int \<Rightarrow> nat \<Rightarrow> bool" where
  "in_table dp_num sizeflag_num \<longleftrightarrow>
     0 \<le> dp_num \<and> dp_num < int MAX_DISAS_ENTRIES \<and> sizeflag_num < MAX_SIZEFLAGS"

definition opctable_find :: "btmod_opctable \<Rightarrow> int \<Rightarrow> int \<Rightarrow> int option" where
  "opctable_find ot dp_num sizeflag =
     (let sizeflagnum = find_sizeflag_num ot sizeflag in
      if in_table dp_num sizeflagnum then
        (if opctable ot (nat dp_num) sizeflagnum = opc_inval then Some (- 1)
         else Some (opctable ot (nat dp_num) sizeflagnum))
      else None)"

text \<open>The name of a number in use; beyond them lie the bytes of unused entries.\<close>

definition opctable_name :: "btmod_opctable \<Rightarrow> int \<Rightarrow> string" where
  "opctable_name ot opc = (if 0 \<le> opc \<and> nat opc < length (nametable ot) then nametable ot ! nat opc else [])"

section \<open>Insertion\<close>

text \<open>The search for the name does not stop at the first entry, so that the last one counts.\<close>

fun find_name_loop :: "nat \<Rightarrow> string \<Rightarrow> string list \<Rightarrow> nat \<Rightarrow> nat" where
  "find_name_loop i name [] opc = opc"
| "find_name_loop i name (n # ns) opc = find_name_loop (i + 1) name ns (if n = name then i else opc)"

definition opctable_insert :: "btmod_opctable \<Rightarrow> string \<Rightarrow> int \<Rightarrow> int \<Rightarrow> btmod_opctable option" where
  "opctable_insert ot name dp_num sizeflag =
     (let opc = find_name_loop 0 name (nametable ot) (length (nametable ot));
          sizeflag_num = find_sizeflag_num ot sizeflag
      in if \<not> in_table dp_num sizeflag_num \<or> \<not> opc < MAX_OPCS then None
         else
           let ot1 = ot\<lparr>opctable := (opctable ot)
                 (nat dp_num := (opctable ot (nat dp_num))(sizeflag_num := int opc))\<rparr>;
               ot2 = (if opc = length (nametable ot)
                      then ot1\<lparr>nametable := nametable ot1 @ [name_entry name]\<rparr> else ot1);
               ot3 = (if sizeflag_num = length (sizeflagtable ot)
                      then ot2\<lparr>sizeflagtable := sizeflagtable ot2 @ [sizeflag]\<rparr> else ot2)
           in Some ot3)"

section \<open>Facts\<close>

lemma index_from_Some:
  "index_from i x xs = Some j \<Longrightarrow> i \<le> j \<and> j < i + length xs \<and> xs ! (j - i) = x"
proof (induction i x xs rule: index_from.induct)
  case (2 i x y ys)
  then show ?case by (auto simp: nth_Cons' split: if_splits)
qed simp

lemma index_from_None: "index_from i x xs = None \<longleftrightarrow> x \<notin> set xs"
  by (induction i x xs rule: index_from.induct) auto

lemma index_from_append:
  "index_from i x (xs @ ys) = (case index_from i x xs of Some j \<Rightarrow> Some j | None \<Rightarrow> index_from (i + length xs) x ys)"
  by (induction i x xs rule: index_from.induct) (auto split: option.splits)

lemma find_name_absent: "name \<notin> set ns \<Longrightarrow> find_name_loop i name ns opc = opc"
  by (induction i name ns opc rule: find_name_loop.induct) auto

lemma find_name_present:
  "name \<in> set ns \<Longrightarrow>
     i \<le> find_name_loop i name ns opc \<and> find_name_loop i name ns opc < i + length ns \<and>
     ns ! (find_name_loop i name ns opc - i) = name"
proof (induction i name ns opc rule: find_name_loop.induct)
  case (2 i name n ns opc)
  show ?case
  proof (cases "name \<in> set ns")
    case True
    from "2.IH" [OF True] show ?thesis by (auto simp: nth_Cons')
  next
    case False
    with "2.prems" show ?thesis by (simp add: find_name_absent)
  qed
qed simp

text \<open>
  The invariant of the table: the names are those of distinct entries, the first one marks the
  unused combinations, every number in the table is one of a name, and columns not yet given to
  size flags are empty.
\<close>

definition opctable_ok :: "btmod_opctable \<Rightarrow> bool" where
  "opctable_ok ot \<longleftrightarrow>
     nametable ot \<noteq> [] \<and> hd (nametable ot) = ''(bad)'' \<and>
     distinct (nametable ot) \<and> length (nametable ot) \<le> MAX_OPCS \<and>
     distinct (sizeflagtable ot) \<and> length (sizeflagtable ot) \<le> MAX_SIZEFLAGS \<and>
     (\<forall>d s. 0 \<le> opctable ot d s \<and> opctable ot d s < int (length (nametable ot))) \<and>
     (\<forall>d s. length (sizeflagtable ot) \<le> s \<longrightarrow> opctable ot d s = opc_inval)"

text \<open>The table as a map from disassembler entries and size flags to names.\<close>

definition opctable_map :: "btmod_opctable \<Rightarrow> int \<Rightarrow> int \<Rightarrow> string option" where
  "opctable_map ot dp_num sizeflag =
     (case opctable_find ot dp_num sizeflag of
        None \<Rightarrow> None
      | Some opc \<Rightarrow> if opc = - 1 then None else Some (opctable_name ot opc))"

lemma opctable_init_ok: "opctable_ok opctable_init"
  by (simp add: opctable_ok_def opctable_init_def opctable_sizes name_entry_def)

lemma opctable_init_map: "opctable_map opctable_init dp_num sizeflag = None"
  by (simp add: opctable_map_def opctable_find_def opctable_init_def Let_def)

lemma sizeflag_num_cases:
  obtains (old) "find_sizeflag_num ot sf < length (sizeflagtable ot)" "sizeflagtable ot ! find_sizeflag_num ot sf = sf"
  | (new) "find_sizeflag_num ot sf = length (sizeflagtable ot)" "sf \<notin> set (sizeflagtable ot)"
proof (cases "index_from 0 sf (sizeflagtable ot)")
  case None
  then have "sf \<notin> set (sizeflagtable ot)" by (simp add: index_from_None)
  then show ?thesis using None by (intro new) (simp_all add: find_sizeflag_num_def)
next
  case (Some i)
  then show ?thesis using old index_from_Some [OF Some] by (simp add: find_sizeflag_num_def)
qed

lemma sizeflag_num_le: "find_sizeflag_num ot sf \<le> length (sizeflagtable ot)"
  by (rule sizeflag_num_cases [of ot sf]) simp_all

lemma sizeflag_num_less: "find_sizeflag_num ot sf < length (sizeflagtable ot) \<longleftrightarrow> sf \<in> set (sizeflagtable ot)"
proof (rule sizeflag_num_cases [of ot sf])
  assume "find_sizeflag_num ot sf < length (sizeflagtable ot)"
    and "sizeflagtable ot ! find_sizeflag_num ot sf = sf"
  moreover from this have "sf \<in> set (sizeflagtable ot)" by (metis nth_mem)
  ultimately show ?thesis by simp
qed simp

lemma opctable_map_eq:
  assumes "opctable_ok ot"
  shows "opctable_map ot d s =
    (if 0 \<le> d \<and> d < int MAX_DISAS_ENTRIES \<and> opctable ot (nat d) (find_sizeflag_num ot s) \<noteq> opc_inval
     then Some (nametable ot ! nat (opctable ot (nat d) (find_sizeflag_num ot s))) else None)"
proof -
  let ?o = "opctable ot (nat d) (find_sizeflag_num ot s)"
  have "0 \<le> ?o" "?o < int (length (nametable ot))" using assms by (auto simp: opctable_ok_def)
  moreover have "?o = opc_inval" if "\<not> find_sizeflag_num ot s < MAX_SIZEFLAGS"
    using that assms by (auto simp: opctable_ok_def)
  ultimately show ?thesis
    by (auto simp: opctable_map_def opctable_find_def in_table_def opctable_name_def Let_def)
qed

text \<open>The column of size flags after the table of them has grown.\<close>

lemma find_sizeflag_num_grown:
  "sizeflagtable ot' = sizeflagtable ot @ [sf] \<Longrightarrow>
     find_sizeflag_num ot' s =
       (if s \<in> set (sizeflagtable ot) \<or> s = sf then find_sizeflag_num ot s else length (sizeflagtable ot) + 1)"
  using index_from_None [of 0 s "sizeflagtable ot"]
  by (auto simp: find_sizeflag_num_def index_from_append split: option.splits)

lemma find_sizeflag_num_same: "sizeflagtable ot' = sizeflagtable ot \<Longrightarrow> find_sizeflag_num ot' s = find_sizeflag_num ot s"
  by (simp add: find_sizeflag_num_def split: option.splits)

lemma find_sizeflag_num_inj:
  assumes "s \<in> set (sizeflagtable ot) \<or> t \<in> set (sizeflagtable ot)"
    and "find_sizeflag_num ot s = find_sizeflag_num ot t"
  shows "s = t"
  using assms by (cases ot s rule: sizeflag_num_cases; cases ot t rule: sizeflag_num_cases) auto

text \<open>What a successful insertion leaves, for a name that fits its entry.\<close>

lemma opctable_insert_shape:
  assumes ok: "opctable_ok ot" and len: "length name \<le> 9"
    and dp: "0 \<le> dp" "dp < int MAX_DISAS_ENTRIES"
    and room: "name \<in> set (nametable ot) \<or> length (nametable ot) < MAX_OPCS"
    and col: "sf \<in> set (sizeflagtable ot) \<or> length (sizeflagtable ot) < MAX_SIZEFLAGS"
  obtains ot' opc where "opctable_insert ot name dp sf = Some ot'"
    and "nametable ot' = (if name \<in> set (nametable ot) then nametable ot else nametable ot @ [name])"
    and "sizeflagtable ot' = (if sf \<in> set (sizeflagtable ot) then sizeflagtable ot else sizeflagtable ot @ [sf])"
    and "opctable ot' = (opctable ot)(nat dp := (opctable ot (nat dp))(find_sizeflag_num ot sf := int opc))"
    and "opc < length (nametable ot')" and "nametable ot' ! opc = name"
    and "find_sizeflag_num ot sf < length (sizeflagtable ot')"
proof -
  let ?opc = "find_name_loop 0 name (nametable ot) (length (nametable ot))"
  let ?c = "find_sizeflag_num ot sf"
  have cle: "?c \<le> length (sizeflagtable ot)" by (rule sizeflag_num_le)
  have cnew: "?c = length (sizeflagtable ot) \<longleftrightarrow> sf \<notin> set (sizeflagtable ot)"
    using sizeflag_num_less [of ot sf] cle by linarith
  have c: "?c < MAX_SIZEFLAGS" using ok col cle sizeflag_num_less [of ot sf] by (auto simp: opctable_ok_def)
  have onew: "?opc = length (nametable ot) \<longleftrightarrow> name \<notin> set (nametable ot)"
    and ole: "?opc \<le> length (nametable ot)"
    using find_name_present [of name "nametable ot" 0 "length (nametable ot)"]
      find_name_absent [of name "nametable ot" 0 "length (nametable ot)"]
    by (cases "name \<in> set (nametable ot)"; simp)+
  have "length (nametable ot) \<le> MAX_OPCS" using ok by (simp add: opctable_ok_def)
  with ole onew room have opc: "?opc < MAX_OPCS" by linarith
  have entry: "name_entry name = name" using len by (simp add: name_entry_def)
  obtain ot' where ins: "opctable_insert ot name dp sf = Some ot'"
    using c opc dp by (simp add: opctable_insert_def in_table_def Let_def)
  show ?thesis
  proof (rule that [of ot' ?opc])
    show "opctable_insert ot name dp sf = Some ot'" by (rule ins)
    show nt: "nametable ot' = (if name \<in> set (nametable ot) then nametable ot else nametable ot @ [name])"
      and st: "sizeflagtable ot' = (if sf \<in> set (sizeflagtable ot) then sizeflagtable ot else sizeflagtable ot @ [sf])"
      and "opctable ot' = (opctable ot)(nat dp := (opctable ot (nat dp))(?c := int ?opc))"
      using ins onew cnew by (auto simp: opctable_insert_def Let_def entry split: if_splits)
    show "?opc < length (nametable ot')" "nametable ot' ! ?opc = name"
      using nt find_name_present [of name "nametable ot" 0 "length (nametable ot)"] onew by auto
    show "?c < length (sizeflagtable ot')" using st cle cnew by (auto simp: less_le)
  qed
qed

lemma opctable_insert_ok_map:
  assumes ok: "opctable_ok ot" and bad: "name \<noteq> ''(bad)''" and len: "length name \<le> 9"
    and dp: "0 \<le> dp" "dp < int MAX_DISAS_ENTRIES"
    and room: "name \<in> set (nametable ot) \<or> length (nametable ot) < MAX_OPCS"
    and col: "sf \<in> set (sizeflagtable ot) \<or> length (sizeflagtable ot) < MAX_SIZEFLAGS"
  obtains ot' where "opctable_insert ot name dp sf = Some ot'" and "opctable_ok ot'"
    and "\<And>d s. opctable_map ot' d s = (if d = dp \<and> s = sf then Some name else opctable_map ot d s)"
proof -
  obtain ot' opc where ins: "opctable_insert ot name dp sf = Some ot'"
    and nt: "nametable ot' = (if name \<in> set (nametable ot) then nametable ot else nametable ot @ [name])"
    and st: "sizeflagtable ot' = (if sf \<in> set (sizeflagtable ot) then sizeflagtable ot else sizeflagtable ot @ [sf])"
    and tab: "opctable ot' = (opctable ot)(nat dp := (opctable ot (nat dp))(find_sizeflag_num ot sf := int opc))"
    and opc: "opc < length (nametable ot')" "nametable ot' ! opc = name"
    and c: "find_sizeflag_num ot sf < length (sizeflagtable ot')"
    by (rule opctable_insert_shape [OF ok len dp room col])
  have hd: "nametable ot \<noteq> []" "hd (nametable ot) = ''(bad)''" using ok by (auto simp: opctable_ok_def)
  have "nametable ot' ! 0 = ''(bad)''" using hd nt by (simp add: nth_append hd_conv_nth)
  with opc(2) bad have opc0: "opc \<noteq> 0" by (intro notI) simp
  have rng: "0 \<le> opctable ot d s \<and> opctable ot d s < int (length (nametable ot))" for d s
    using ok by (auto simp: opctable_ok_def)
  have rng': "0 \<le> opctable ot' d s \<and> opctable ot' d s < int (length (nametable ot'))" for d s
    using rng [of d s] opc(1) nt tab by (auto split: if_splits)
  have inval: "opctable ot d s = opc_inval" if "length (sizeflagtable ot) \<le> s" for d s
    using ok that by (auto simp: opctable_ok_def)
  have ok': "opctable_ok ot'"
    unfolding opctable_ok_def
  proof (intro conjI allI impI)
    show "opctable ot' d s = opc_inval" if "length (sizeflagtable ot') \<le> s" for d s
      using that c st inval tab by (auto split: if_splits)
  qed (use ok nt st room col rng' in \<open>auto simp: opctable_ok_def\<close>)
  have fs: "find_sizeflag_num ot' s = find_sizeflag_num ot s \<or>
      (s \<notin> set (sizeflagtable ot) \<and> s \<noteq> sf \<and> length (sizeflagtable ot) \<le> find_sizeflag_num ot s \<and>
        find_sizeflag_num ot' s = length (sizeflagtable ot'))" for s
    using st find_sizeflag_num_grown [of ot' ot sf s] find_sizeflag_num_same [of ot' ot s] sizeflag_num_less [of ot s]
    by (auto split: if_splits)
  have "opctable_map ot' d s = (if d = dp \<and> s = sf then Some name else opctable_map ot d s)" for d s
  proof (cases "d = dp \<and> s = sf")
    case True
    then show ?thesis
      using fs [of sf] opc opc0 dp tab by (auto simp: opctable_map_eq [OF ok'] opc_inval_def)
  next
    case False
    show ?thesis
    proof (cases "find_sizeflag_num ot' s = find_sizeflag_num ot s")
      case True
      have "\<not> (nat d = nat dp \<and> find_sizeflag_num ot s = find_sizeflag_num ot sf)" if "0 \<le> d"
      proof
        assume a: "nat d = nat dp \<and> find_sizeflag_num ot s = find_sizeflag_num ot sf"
        then have "s \<noteq> sf" using False that dp by auto
        with a c True find_sizeflag_num_inj [of s ot' sf] fs [of sf] show False
          by (cases ot' s rule: sizeflag_num_cases) auto
      qed
      then have eq: "opctable ot' (nat d) (find_sizeflag_num ot' s) = opctable ot (nat d) (find_sizeflag_num ot s)" if "0 \<le> d"
        using that True tab by auto
      have "nametable ot' ! nat (opctable ot (nat d) (find_sizeflag_num ot s))
          = nametable ot ! nat (opctable ot (nat d) (find_sizeflag_num ot s))"
        using nt rng [of "nat d" "find_sizeflag_num ot s"] by (auto simp: nth_append)
      then show ?thesis unfolding opctable_map_eq [OF ok] opctable_map_eq [OF ok'] if_not_P [OF False]
        by (auto simp: eq)
    next
      case new: False
      then have "length (sizeflagtable ot) \<le> find_sizeflag_num ot s" and "find_sizeflag_num ot' s = length (sizeflagtable ot')"
        using fs [of s] by auto
      moreover have "opctable ot' (nat d) (length (sizeflagtable ot')) = opc_inval"
        using ok' by (auto simp: opctable_ok_def)
      ultimately show ?thesis
        unfolding opctable_map_eq [OF ok] opctable_map_eq [OF ok'] if_not_P [OF False] by (simp add: inval)
    qed
  qed
  with ins ok' show ?thesis by (intro that)
qed

section \<open>Properties\<close>

text \<open>
  C18. The empty opcode table satisfies the invariant and maps nothing. Inserting a name of at
  most nine characters other than the marker of unused entries, with room in the tables, keeps
  the invariant and changes the table, as a map from disassembler entry and size flags to names,
  at exactly the inserted place.
\<close>

theorem opctable_insert_correct:
  "opctable_ok opctable_init \<and> (\<forall>d s. opctable_map opctable_init d s = None) \<and>
   (opctable_ok ot \<longrightarrow> name \<noteq> ''(bad)'' \<longrightarrow> length name \<le> 9 \<longrightarrow>
    0 \<le> dp \<longrightarrow> dp < int MAX_DISAS_ENTRIES \<longrightarrow>
    name \<in> set (nametable ot) \<or> length (nametable ot) < MAX_OPCS \<longrightarrow>
    sf \<in> set (sizeflagtable ot) \<or> length (sizeflagtable ot) < MAX_SIZEFLAGS \<longrightarrow>
    (\<exists>ot'. opctable_insert ot name dp sf = Some ot' \<and> opctable_ok ot' \<and>
       (\<forall>d s. opctable_map ot' d s = (if d = dp \<and> s = sf then Some name else opctable_map ot d s))))"
proof (intro conjI impI allI opctable_init_ok opctable_init_map)
  assume "opctable_ok ot" "name \<noteq> ''(bad)''" "length name \<le> 9" "0 \<le> dp" "dp < int MAX_DISAS_ENTRIES"
    "name \<in> set (nametable ot) \<or> length (nametable ot) < MAX_OPCS"
    "sf \<in> set (sizeflagtable ot) \<or> length (sizeflagtable ot) < MAX_SIZEFLAGS"
  then show "\<exists>ot'. opctable_insert ot name dp sf = Some ot' \<and> opctable_ok ot' \<and>
       (\<forall>d s. opctable_map ot' d s = (if d = dp \<and> s = sf then Some name else opctable_map ot d s))"
    by (rule opctable_insert_ok_map) blast
qed

theorem opctable_insert_correct_witness:
  "\<exists>ot'. opctable_insert opctable_init ''pushl'' 80 1 = Some ot' \<and> opctable_map ot' 80 1 = Some ''pushl''"
  using opctable_insert_correct [of opctable_init "''pushl''" 80 1]
  by (auto simp: opctable_init_ok opctable_sizes opctable_init_def name_entry_def)

text \<open>
  A name longer than its entry is never recognised again: it gets a second number when it is
  inserted a second time.
\<close>

lemma opctable_long_name:
  "map_option nametable (Option.bind (opctable_insert opctable_init ''cmpxchg16bq'' 1 0)
      (\<lambda>ot. opctable_insert ot ''cmpxchg16bq'' 2 0)) = Some [''(bad)'', ''cmpxchg16'', ''cmpxchg16'']"
  by code_simp

end
