(* ===== verification/Operand.thy ===== *)
theory Operand
  imports Opctable Utils "HOL-Library.Monad_Syntax"
begin

text \<open>
  Operands of instructions (\<^verbatim>\<open>peep/insntypes.h\<close>) and their text form (the first part
  of \<^verbatim>\<open>peep/insn.c\<close>). The value and the tag of an operand are unions: the model keeps the
  memory view and the scalar view apart, which is what the code relies on, since it reads the
  view that the type of the operand selects. A view narrower than 64 bits is read from the low
  bits of the scalar. A printed operand is a text, or \<open>None\<close> when printing reads outside a table
  of names; the buffers of the callers are large enough, so that nothing is cut.
\<close>

section \<open>Data\<close>

datatype opertype = invalid | op_reg | op_seg | op_mem | op_imm | op_pcrel | op_cr | op_db
  | op_tr | op_mmx | op_xmm | op_3dnow | op_prefix | op_st

datatype tag_t = tag_const | tag_var | tag_eax | tag_abcd | tag_no_esp | tag_no_eax
  | tag_no_eax_esp | tag_no_cs_gs | tag_cs_gs

datatype segtype = segtype_sel | segtype_desc

record operand_mem_val =
  m_addrsize :: nat
  m_segtype :: segtype
  m_seg :: u16
  m_base :: int
  m_scale :: nat
  m_index :: int
  m_disp :: u64

record operand_mem_tag =
  mt_seg :: tag_t
  mt_base :: tag_t
  mt_index :: tag_t
  mt_disp :: tag_t

record operand =
  otype :: opertype
  osize :: nat
  orex :: bool
  oval :: u64
  omem :: operand_mem_val
  otag :: tag_t
  omtag :: operand_mem_tag

record insn =
  i_opc :: int
  i_op :: "operand list"

text \<open>The views of the scalar: registers and debug registers have four bits, segments and the
  other register files three, 3DNow! suffixes eight, constants all of them.\<close>

definition val_bits :: "opertype \<Rightarrow> nat" where
  "val_bits t =
     (case t of op_reg \<Rightarrow> 4 | op_db \<Rightarrow> 4 | op_3dnow \<Rightarrow> 8 | op_imm \<Rightarrow> 64 | op_pcrel \<Rightarrow> 64 | _ \<Rightarrow> 3)"

definition view :: "opertype \<Rightarrow> operand \<Rightarrow> u64" where
  "view t op = take_bit (val_bits t) (oval op)"

definition set_view :: "opertype \<Rightarrow> u64 \<Rightarrow> operand \<Rightarrow> operand" where
  "set_view t v op = op\<lparr>oval := take_bit (val_bits t) v\<rparr>"

definition val_reg :: "operand \<Rightarrow> nat" where "val_reg op = unat (view op_reg op)"
definition val_seg :: "operand \<Rightarrow> nat" where "val_seg op = unat (view op_seg op)"
definition val_prefix :: "operand \<Rightarrow> nat" where "val_prefix op = unat (view op_prefix op)"

text \<open>An operand in local storage before its fields are set; no one reads those that stay unset.\<close>

definition blank_operand :: operand where
  "blank_operand =
     \<lparr>otype = invalid, osize = 0, orex = False, oval = 0,
      omem = \<lparr>m_addrsize = 0, m_segtype = segtype_sel, m_seg = 0, m_base = 0, m_scale = 0, m_index = 0, m_disp = 0\<rparr>,
      otag = tag_const,
      omtag = \<lparr>mt_seg = tag_const, mt_base = tag_const, mt_index = tag_const, mt_disp = tag_const\<rparr>\<rparr>"

definition scalar_operand :: "opertype \<Rightarrow> nat \<Rightarrow> u64 \<Rightarrow> tag_t \<Rightarrow> operand" where
  "scalar_operand t sz v tag = set_view t v (blank_operand\<lparr>otype := t, osize := sz, otag := tag\<rparr>)"

text \<open>The selector of a memory operand is the low four bits of the segment, signed.\<close>

definition seg_sel :: "operand_mem_val \<Rightarrow> int" where
  "seg_sel v = sint (ucast (m_seg v) :: 4 word)"

definition set_seg_sel :: "int \<Rightarrow> operand_mem_val \<Rightarrow> operand_mem_val" where
  "set_seg_sel x v = v\<lparr>m_seg := (m_seg v AND NOT 15) OR (of_int x AND 15)\<rparr>"

definition TEMP_REG0 :: nat where "TEMP_REG0 = 8"
definition NUM_REGS :: nat where "NUM_REGS = 8"

definition R_EAX :: nat where "R_EAX = 0"
definition R_ECX :: nat where "R_ECX = 1"
definition R_EDX :: nat where "R_EDX = 2"
definition R_EBX :: nat where "R_EBX = 3"
definition R_ESP :: nat where "R_ESP = 4"
definition R_EBP :: nat where "R_EBP = 5"
definition R_ESI :: nat where "R_ESI = 6"
definition R_EDI :: nat where "R_EDI = 7"
definition R_CS :: nat where "R_CS = 1"
definition R_DS :: nat where "R_DS = 3"
definition R_GS :: nat where "R_GS = 5"

lemmas reg_nums = TEMP_REG0_def NUM_REGS_def R_EAX_def R_ECX_def R_EDX_def R_EBX_def R_ESP_def
  R_EBP_def R_ESI_def R_EDI_def R_CS_def R_DS_def R_GS_def

section \<open>Numbers as text\<close>

definition digit_char :: "nat \<Rightarrow> char" where
  "digit_char d = char_of (if d < 10 then 48 + d else 87 + d)"

fun show_base :: "nat \<Rightarrow> nat \<Rightarrow> string" where
  "show_base b n = (if n < b \<or> b < 2 then [digit_char n] else show_base b (n div b) @ [digit_char (n mod b)])"

declare show_base.simps [simp del]

definition show_dec :: "nat \<Rightarrow> string" where "show_dec n = show_base 10 n"
definition show_hex :: "nat \<Rightarrow> string" where "show_hex n = show_base 16 n"

definition show_int :: "int \<Rightarrow> string" where
  "show_int i = (if i < 0 then CHR ''-'' # show_dec (nat (- i)) else show_dec (nat i))"

section \<open>Tables of names\<close>

definition regs8 :: "string list" where
  "regs8 = [''al'', ''cl'', ''dl'', ''bl'', ''ah'', ''ch'', ''dh'', ''bh'']"
definition regs16 :: "string list" where
  "regs16 = [''ax'', ''cx'', ''dx'', ''bx'', ''sp'', ''bp'', ''si'', ''di'']"
definition regs32 :: "string list" where
  "regs32 = [''eax'', ''ecx'', ''edx'', ''ebx'', ''esp'', ''ebp'', ''esi'', ''edi'']"
definition vregs8 :: "string list" where
  "vregs8 = [''vr0b'', ''vr1b'', ''vr2b'', ''vr3b'', ''vr0B'', ''vr1B'', ''vr2B'', ''vr3B'']"
definition vregs16 :: "string list" where
  "vregs16 = [''vr0w'', ''vr1w'', ''vr2w'', ''vr3w'', ''vr4w'', ''vr5w'', ''vr6w'', ''vr7w'']"
definition vregs32 :: "string list" where
  "vregs32 = [''vr0d'', ''vr1d'', ''vr2d'', ''vr3d'', ''vr4d'', ''vr5d'', ''vr6d'', ''vr7d'']"
definition tregs8 :: "string list" where
  "tregs8 = [''tr0b'', ''tr1b'', ''tr2b'', ''tr3b'', ''tr4b'', ''tr5b'', ''tr6b'', ''tr7b'']"
definition tregs16 :: "string list" where
  "tregs16 = [''tr0w'', ''tr1w'', ''tr2w'', ''tr3w'', ''tr4w'', ''tr5w'', ''tr6w'', ''tr7w'']"
definition tregs32 :: "string list" where
  "tregs32 = [''tr0d'', ''tr1d'', ''tr2d'', ''tr3d'', ''tr4d'', ''tr5d'', ''tr6d'', ''tr7d'']"
definition segs :: "string list" where
  "segs = [''es'', ''cs'', ''ss'', ''ds'', ''fs'', ''gs'']"
definition vsegs :: "string list" where
  "vsegs = [''vseg0'', ''vseg1'', ''vseg2'', ''vseg3'', ''vseg4'', ''vseg5'']"

lemmas name_tables = regs8_def regs16_def regs32_def vregs8_def vregs16_def vregs32_def
  tregs8_def tregs16_def tregs32_def segs_def vsegs_def

definition entry_at :: "string list \<Rightarrow> int \<Rightarrow> string option" where
  "entry_at t i = (if 0 \<le> i \<and> nat i < length t then Some (t ! nat i) else None)"

section \<open>Printing\<close>

definition pct :: "string option \<Rightarrow> string option" where
  "pct s = map_option (\<lambda>s. CHR ''%'' # s) s"

definition reg2str :: "int \<Rightarrow> tag_t \<Rightarrow> nat \<Rightarrow> string option" where
  "reg2str val tag sz =
     (if sz = 1 then
        (if 0 \<le> val \<and> val < 8 then pct (entry_at (if tag \<noteq> tag_const then vregs8 else regs8) val)
         else pct (entry_at tregs8 (val - 8)))
      else if sz = 2 then
        (if 0 \<le> val \<and> val < 8 then pct (entry_at (if tag \<noteq> tag_const then vregs16 else regs16) val)
         else pct (entry_at tregs16 (val - 8)))
      else if sz = 4 then
        (if 0 \<le> val \<and> val < 8 then pct (entry_at (if tag \<noteq> tag_const then vregs32 else regs32) val)
         else pct (entry_at tregs32 (val - 8)))
      else Some [])"

definition seg2str :: "int \<Rightarrow> tag_t \<Rightarrow> string option" where
  "seg2str val tag =
     (if val \<noteq> - 1 then pct (entry_at (if tag \<noteq> tag_const then vsegs else segs) val) else Some [])"

definition mem2str :: "operand_mem_val \<Rightarrow> operand_mem_tag \<Rightarrow> string option" where
  "mem2str v tag =
     do {
       s \<leftarrow> (case m_segtype v of
               segtype_sel \<Rightarrow>
                 do { seg \<leftarrow> seg2str (seg_sel v) (mt_seg tag); Some (if seg \<noteq> [] then seg @ '':'' else []) }
             | segtype_desc \<Rightarrow>
                 Some (if mt_seg tag \<noteq> tag_const then ''C'' @ show_dec (unat (m_seg v))
                       else show_dec (unat (m_seg v)) @ '':''));
       d \<leftarrow> Some (if mt_disp tag \<noteq> tag_const then ''C'' @ show_int (sint (ucast (m_disp v) :: u32))
                   else if m_disp v \<noteq> 0 then show_dec (unat (m_disp v)) else []);
       base_reg \<leftarrow> (if m_base v \<noteq> - 1 then reg2str (m_base v) (mt_base tag) (m_addrsize v) else Some []);
       index_reg \<leftarrow> (if m_index v \<noteq> - 1 then reg2str (m_index v) (mt_index tag) (m_addrsize v) else Some []);
       Some (s @ d @
         (if m_base v \<noteq> - 1 \<or> m_index v \<noteq> - 1 then ''('' else []) @
         (if m_index v \<noteq> - 1 then base_reg @ '','' @ index_reg @ '','' @ show_dec (m_scale v)
          else if m_base v \<noteq> - 1 then base_reg else []) @
         (if m_base v \<noteq> - 1 \<or> m_index v \<noteq> - 1 then '')'' else []))
     }"

definition imm2str :: "u64 \<Rightarrow> tag_t \<Rightarrow> string" where
  "imm2str val tag = (if tag \<noteq> tag_const then ''C'' else []) @ show_dec (unat val)"

definition EXT_JUMP_ID0 :: int where "EXT_JUMP_ID0 = 127"
definition RELOC_STRINGS_START :: int where "RELOC_STRINGS_START = 512"
definition RELOC_STRINGS_MAX_LEN :: int where "RELOC_STRINGS_MAX_LEN = 65536"

definition pcrel2str :: "u64 \<Rightarrow> tag_t \<Rightarrow> string" where
  "pcrel2str v tag =
     (let val = sint v in
      if val = EXT_JUMP_ID0 \<and> tag = tag_var then ''.TARGET0''
      else if tag = tag_var \<and> val \<ge> RELOC_STRINGS_START \<and> val < RELOC_STRINGS_START + RELOC_STRINGS_MAX_LEN
      then ''.RELOC'' @ show_int (val - RELOC_STRINGS_START)
      else if tag \<noteq> tag_const then ''J'' @ show_dec (unat v) else ''.i'' @ show_int val)"

definition mmx2str :: "nat \<Rightarrow> tag_t \<Rightarrow> string" where
  "mmx2str val tag = (if tag \<noteq> tag_const then ''mmxNN'' else ''mmx'') @ show_dec val"

definition xmm2str :: "nat \<Rightarrow> tag_t \<Rightarrow> string" where
  "xmm2str val tag = (if tag \<noteq> tag_const then ''xmmNN'' else ''xmm'') @ show_dec val"

definition cr2str :: "nat \<Rightarrow> tag_t \<Rightarrow> string" where
  "cr2str val tag = (if tag \<noteq> tag_const then ''crNN'' else ''cr'') @ show_dec val"

definition db2str :: "nat \<Rightarrow> tag_t \<Rightarrow> string" where
  "db2str val tag = (if tag \<noteq> tag_const then ''dbNN'' else ''db'') @ show_dec val"

definition tr2str :: "nat \<Rightarrow> tag_t \<Rightarrow> string" where
  "tr2str val tag = (if tag \<noteq> tag_const then ''trNN'' else ''tr'') @ show_dec val"

definition op3dnow2str :: "nat \<Rightarrow> tag_t \<Rightarrow> string" where
  "op3dnow2str val tag = (if tag \<noteq> tag_const then ''op3dnowNN'' else ''op3dnow'') @ show_dec val"

definition prefix2str :: "nat \<Rightarrow> tag_t \<Rightarrow> string" where
  "prefix2str val tag = (if tag \<noteq> tag_const then ''prefixNN'' else ''prefix'' @ show_hex val)"

definition st2str :: "nat \<Rightarrow> tag_t \<Rightarrow> string" where
  "st2str val tag = (if tag \<noteq> tag_const then ''%stNN('' else ''%st('') @ show_dec val @ '')''"

definition operand2str :: "operand \<Rightarrow> string option" where
  "operand2str op =
     (let val = unat (view (otype op) op) in
      case otype op of
        invalid \<Rightarrow> Some []
      | op_reg \<Rightarrow> reg2str (int val) (otag op) (osize op)
      | op_seg \<Rightarrow> seg2str (int val) (otag op)
      | op_mem \<Rightarrow> mem2str (omem op) (omtag op)
      | op_imm \<Rightarrow> Some (imm2str (view op_imm op) (otag op))
      | op_pcrel \<Rightarrow> Some (pcrel2str (view op_pcrel op) (otag op))
      | op_cr \<Rightarrow> Some (cr2str val (otag op))
      | op_db \<Rightarrow> Some (db2str val (otag op))
      | op_tr \<Rightarrow> Some (tr2str val (otag op))
      | op_mmx \<Rightarrow> Some (mmx2str val (otag op))
      | op_xmm \<Rightarrow> Some (xmm2str val (otag op))
      | op_3dnow \<Rightarrow> Some (op3dnow2str val (otag op))
      | op_prefix \<Rightarrow> Some (prefix2str val (otag op))
      | op_st \<Rightarrow> Some (st2str val (otag op)))"

text \<open>The operands of an instruction, a comma between two that are both present.\<close>

fun operands2str :: "operand list \<Rightarrow> string option" where
  "operands2str [] = Some []"
| "operands2str [op] = operand2str op"
| "operands2str (op # op' # ops) =
     do {
       s \<leftarrow> operand2str op;
       r \<leftarrow> operands2str (op' # ops);
       Some (s @ (if otype op \<noteq> invalid \<and> otype op' \<noteq> invalid then '','' else []) @ r)
     }"

definition insn2str :: "btmod_opctable \<Rightarrow> insn \<Rightarrow> string option" where
  "insn2str ot insn =
     do { s \<leftarrow> operands2str (i_op insn); Some (opctable_name ot (i_opc insn) @ '' '' @ s) }"

fun insns2str_loop :: "btmod_opctable \<Rightarrow> bool \<Rightarrow> insn list \<Rightarrow> string option" where
  "insns2str_loop ot first [] = Some []"
| "insns2str_loop ot first (i # is) =
     do {
       s \<leftarrow> insn2str ot i;
       r \<leftarrow> insns2str_loop ot False is;
       Some ((if first then ''{'' else '' ; '') @ s @ r)
     }"

definition insns2str :: "btmod_opctable \<Rightarrow> insn list \<Rightarrow> string option" where
  "insns2str ot insns = do { s \<leftarrow> insns2str_loop ot True insns; Some (s @ ''}'') }"

end
