(* ===== verification/Operand_Parse.thy ===== *)
theory Operand_Parse
  imports Operand
begin

text \<open>
  Reading operands from text, comparing them and extracting their values (\<^verbatim>\<open>peep/insn.c\<close>).
  A parser accepts, rejects, or reads or uses memory that is not initialised (\<open>Undef\<close>).
\<close>

datatype 'a parsed = Parsed 'a | Rejected | Undef

text \<open>The character of a string at a position, the terminator included.\<close>

definition char_at :: "string \<Rightarrow> nat \<Rightarrow> char" where
  "char_at s i = (if i < length s then s ! i else CHR 0x00)"

section \<open>Registers, segments, prefixes and constants\<close>

definition reg_tables :: "(tag_t \<times> nat \<times> string list) list" where
  "reg_tables =
     [(tag_const, 1, regs8), (tag_const, 2, regs16), (tag_const, 4, regs32),
      (tag_var, 1, vregs8), (tag_var, 2, vregs16), (tag_var, 4, vregs32)]"

text \<open>The number, the tag and the size of a register; \<^verbatim>\<open>rex_used\<close> is always cleared.\<close>

fun str2reg_loop :: "string \<Rightarrow> (tag_t \<times> nat \<times> string list) list \<Rightarrow> (nat \<times> tag_t \<times> nat) option" where
  "str2reg_loop name [] = map_option (\<lambda>i. (TEMP_REG0 + i, tag_var, 4)) (index_from 0 name tregs32)"
| "str2reg_loop name ((ttag, rsize, regs) # rest) =
     (case index_from 0 name regs of
        Some i \<Rightarrow> Some (i, ttag, rsize)
      | None \<Rightarrow> str2reg_loop name rest)"

definition str2reg :: "string \<Rightarrow> (nat \<times> tag_t \<times> nat) option" where
  "str2reg str =
     (case str of
        [] \<Rightarrow> None
      | c # name \<Rightarrow> if c = CHR ''%'' then str2reg_loop name reg_tables else None)"

fun str2seg_loop :: "nat \<Rightarrow> string \<Rightarrow> string list \<Rightarrow> string list \<Rightarrow> (nat \<times> tag_t) option" where
  "str2seg_loop i str (s # ss) (v # vs) =
     (if CHR ''%'' # s = str then Some (i, tag_const)
      else if CHR ''%'' # v = str then Some (i, tag_var)
      else str2seg_loop (i + 1) str ss vs)"
| "str2seg_loop i str _ _ = None"

definition str2seg :: "string \<Rightarrow> (nat \<times> tag_t) option" where
  "str2seg str = str2seg_loop 0 str segs vsegs"

definition str2prefix :: "string \<Rightarrow> (int \<times> tag_t) option" where
  "str2prefix str =
     (case strstart str ''prefix'' of
        None \<Rightarrow> None
      | Some ptr \<Rightarrow> if ptr = ''NN'' then Some (0, tag_var) else Some (fst (strtol ptr 16), tag_const))"

text \<open>
  A variable constant with another ending than those of the sizes leaves the size of the caller
  unset, after a message.
\<close>

definition str2imm :: "string \<Rightarrow> (u64 \<times> tag_t \<times> nat) parsed" where
  "str2imm str =
     (if char_at str 0 = CHR ''C'' then
        (let num = takeWhile (\<lambda>c. isdigit (ch c)) (tl str);
             c = char_at (dropWhile (\<lambda>c. isdigit (ch c)) (tl str)) 0;
             val = of_int (atoi num)
         in if c = CHR ''b'' then Parsed (val, tag_var, 1)
            else if c = CHR ''w'' then Parsed (val, tag_var, 2)
            else if c = CHR ''d'' then Parsed (val, tag_var, 4)
            else if c = CHR 0x00 then Parsed (val, tag_var, 4)
            else Undef)
      else Parsed (of_int (atoi str), tag_const, 0))"

section \<open>Initial operands and instructions\<close>

definition operand_init :: "operand \<Rightarrow> operand" where
  "operand_init op =
     op\<lparr>otype := invalid, osize := 0,
        omem := set_seg_sel (int R_DS)
          (omem op\<lparr>m_addrsize := 4, m_segtype := segtype_sel, m_base := - 1, m_scale := 0,
                   m_index := - 1, m_disp := 0\<rparr>),
        otag := tag_const,
        omtag := \<lparr>mt_seg = tag_const, mt_base = tag_const, mt_index = tag_const, mt_disp = tag_const\<rparr>\<rparr>"

definition insn_init :: "insn \<Rightarrow> insn" where
  "insn_init insn = insn\<lparr>i_opc := opc_inval, i_op := map operand_init (i_op insn)\<rparr>"

section \<open>Operands\<close>

text \<open>\<open>None\<close> when the test of the third character reads behind the terminator.\<close>

definition str_op_get_type :: "string \<Rightarrow> opertype option" where
  "str_op_get_type p =
     (if char_at p 0 = CHR ''%'' then
        (if length p < 2 then None
         else if char_at p 2 = CHR ''s'' \<and> char_at p 3 = CHR 0x00 then Some op_seg
         else if (char_at p 1 = CHR ''v'' \<or> char_at p 1 = CHR ''t'') \<and> char_at p 2 = CHR ''r'' then Some op_reg
         else if char_at p 1 = CHR ''v'' \<and> char_at p 2 = CHR ''s'' \<and> char_at p 3 = CHR ''e'' then Some op_seg
         else Some op_reg)
      else if isdigit (ch (char_at p 0)) then Some op_imm
      else if char_at p 0 = CHR ''C'' then Some op_imm
      else if starts p ''prefix'' then Some op_prefix
      else Some invalid)"

definition trim :: "string \<Rightarrow> string" where
  "trim str =
     rev (dropWhile (\<lambda>c. c = CHR '' '') (rev (dropWhile (\<lambda>c. c = CHR '' '') str)))"

definition str2operand :: "operand \<Rightarrow> string \<Rightarrow> operand parsed" where
  "str2operand op str =
     (if dropWhile (\<lambda>c. c = CHR '' '') str = [] then Undef
      else
        let p = trim str in
        case str_op_get_type p of
          None \<Rightarrow> Undef
        | Some op_reg \<Rightarrow>
            (case str2reg p of
               None \<Rightarrow> Rejected
             | Some (val, tag, sz) \<Rightarrow>
                 Parsed (set_view op_reg (of_nat val) (op\<lparr>otype := op_reg, osize := sz, otag := tag, orex := False\<rparr>)))
        | Some op_imm \<Rightarrow>
            (case str2imm p of
               Rejected \<Rightarrow> Rejected
             | Undef \<Rightarrow> Undef
             | Parsed (ival, tag, sz) \<Rightarrow>
                 Parsed (set_view op_imm ival (op\<lparr>otype := op_imm, osize := sz, otag := tag\<rparr>)))
        | Some op_seg \<Rightarrow>
            (case str2seg p of
               None \<Rightarrow> Rejected
             | Some (val, tag) \<Rightarrow>
                 Parsed (set_view op_seg (of_nat val) (op\<lparr>otype := op_seg, osize := 0, otag := tag\<rparr>)))
        | Some op_prefix \<Rightarrow>
            (case str2prefix p of
               None \<Rightarrow> Rejected
             | Some (val, tag) \<Rightarrow>
                 Parsed (set_view op_prefix (of_int val) (op\<lparr>otype := op_prefix, osize := 0, otag := tag\<rparr>)))
        | Some _ \<Rightarrow> Rejected)"

section \<open>Names of tags and types\<close>

fun tag2str :: "tag_t \<Rightarrow> string" where
  "tag2str tag_const = ''tag_const''"
| "tag2str tag_var = ''tag_var''"
| "tag2str tag_eax = ''tag_eax''"
| "tag2str tag_abcd = ''tag_abcd''"
| "tag2str tag_no_esp = ''tag_no_esp''"
| "tag2str tag_no_eax = ''tag_no_eax''"
| "tag2str tag_no_eax_esp = ''tag_no_eax_esp''"
| "tag2str tag_no_cs_gs = ''tag_no_cs_gs''"
| "tag2str tag_cs_gs = ''tag_cs_gs''"

fun find_tag :: "string \<Rightarrow> tag_t list \<Rightarrow> tag_t" where
  "find_tag s [] = tag_const"
| "find_tag s (t # ts) = (if tag2str t = s then t else find_tag s ts)"

text \<open>An unknown name is reported and read as the tag of constants.\<close>

definition str2tag :: "string \<Rightarrow> tag_t" where
  "str2tag tagstr =
     find_tag tagstr [tag_const, tag_var, tag_eax, tag_abcd, tag_no_esp, tag_no_eax, tag_no_eax_esp,
       tag_no_cs_gs, tag_cs_gs]"

fun get_opertype_str :: "opertype \<Rightarrow> string option" where
  "get_opertype_str invalid = Some ''invalid''"
| "get_opertype_str op_reg = Some ''reg''"
| "get_opertype_str op_mem = Some ''mem''"
| "get_opertype_str op_seg = Some ''seg''"
| "get_opertype_str op_imm = Some ''imm''"
| "get_opertype_str op_cr = Some ''cr''"
| "get_opertype_str op_db = Some ''db''"
| "get_opertype_str op_tr = Some ''tr''"
| "get_opertype_str op_mmx = Some ''mmx''"
| "get_opertype_str op_xmm = Some ''xmm''"
| "get_opertype_str op_3dnow = Some ''d3now''"
| "get_opertype_str op_prefix = Some ''prefix''"
| "get_opertype_str op_pcrel = None"
| "get_opertype_str op_st = None"

section \<open>Comparison and value\<close>

definition mem_fields_equal :: "operand \<Rightarrow> operand \<Rightarrow> bool" where
  "mem_fields_equal op1 op2 \<longleftrightarrow>
     m_segtype (omem op1) = m_segtype (omem op2) \<and> m_seg (omem op1) = m_seg (omem op2) \<and>
     m_base (omem op1) = m_base (omem op2) \<and> m_scale (omem op1) = m_scale (omem op2) \<and>
     m_index (omem op1) = m_index (omem op2) \<and> m_disp (omem op1) = m_disp (omem op2) \<and>
     mt_seg (omtag op1) = mt_seg (omtag op2) \<and> otag op1 = otag op2 \<and>
     mt_base (omtag op1) = mt_base (omtag op2) \<and> mt_index (omtag op1) = mt_index (omtag op2) \<and>
     mt_disp (omtag op1) = mt_disp (omtag op2)"

definition operands_equal :: "operand \<Rightarrow> operand \<Rightarrow> bool" where
  "operands_equal op1 op2 =
     (if otype op1 \<noteq> otype op2 then False
      else if osize op1 \<noteq> osize op2 then False
      else if otype op1 = invalid then True
      else case otype op1 of
        op_mem \<Rightarrow> mem_fields_equal op1 op2
      | op_st \<Rightarrow> False
      | t \<Rightarrow> view t op1 = view t op2 \<and> otag op1 = otag op2)"

text \<open>
  The value of an operand as a parameter of generated code, a \<^verbatim>\<open>long\<close>. For a type without a
  scalar the code reports an error and then reads the bytes of another view (\<open>None\<close>).
\<close>

definition operand_get_value :: "operand \<Rightarrow> int option" where
  "operand_get_value op =
     (case otype op of
        invalid \<Rightarrow> None
      | op_mem \<Rightarrow> None
      | op_pcrel \<Rightarrow> Some 0
      | op_st \<Rightarrow> Some 0
      | op_imm \<Rightarrow> Some (sint (ucast (view op_imm op) :: u32))
      | t \<Rightarrow> Some (uint (view t op)))"

end
