(* ===== verification/Operand_Props.thy ===== *)
theory Operand_Props
  imports Operand_Parse
begin

text \<open>
  The text of operands: numbers and names printed by the program are read back by it.
\<close>

section \<open>Decimal numbers\<close>

lemma ch_digit_char: "d < 10 \<Longrightarrow> ch (digit_char d) = 48 + int d"
  by (simp add: ch_def digit_char_def)

lemma isdigit_digit_char: "d < 10 \<Longrightarrow> isdigit (ch (digit_char d))"
  by (simp add: ch_digit_char isdigit_def)

lemma show_dec_digits: "\<forall>c\<in>set (show_dec n). isdigit (ch c)"
  unfolding show_dec_def
proof (induction "10 :: nat" n rule: show_base.induct)
  case (1 n)
  then show ?case by (subst show_base.simps) (auto simp: isdigit_digit_char)
qed

lemma show_dec_nonempty [simp]: "show_dec n \<noteq> []"
  unfolding show_dec_def by (subst show_base.simps) simp

lemma atoi_loop_append: "\<forall>c\<in>set xs. isdigit (ch c) \<Longrightarrow> atoi_loop v (xs @ ys) = atoi_loop (atoi_loop v xs) ys"
  by (induction v xs rule: atoi_loop.induct) auto

lemma atoi_loop_show_dec: "atoi_loop 0 (show_dec n) = - of_nat n"
proof (induction n rule: less_induct)
  case (less n)
  show ?case
  proof (cases "n < 10")
    case True
    then show ?thesis unfolding show_dec_def
      by (subst show_base.simps) (simp add: ch_digit_char isdigit_def)
  next
    case False
    then have "show_dec n = show_dec (n div 10) @ [digit_char (n mod 10)]"
      unfolding show_dec_def by (subst show_base.simps) simp
    then have "atoi_loop 0 (show_dec n) = - of_nat (n div 10) * 10 - of_nat (n mod 10)"
      using False less.IH [of "n div 10"]
      by (simp add: atoi_loop_append [OF show_dec_digits] ch_digit_char isdigit_def)
    also have "\<dots> = - (of_nat (n div 10 * 10 + n mod 10) :: u32)" by (simp only: of_nat_add of_nat_mult) simp
    finally show ?thesis by simp
  qed
qed

lemma atoi_show_dec:
  assumes "n < 2 ^ 31"
  shows "atoi (show_dec n) = int n"
proof -
  obtain c s where s: "show_dec n = c # s" by (cases "show_dec n") auto
  then have "isdigit (ch c)" using show_dec_digits [of n] by auto
  then have c: "\<not> isspace (ch c)" "ch c \<noteq> 43" "ch c \<noteq> 45" by (auto simp: isdigit_def isspace_def)
  have "sint (of_nat n :: u32) = int n"
    using assms by (simp add: signed_of_nat signed_take_bit_int_eq_self)
  with c s atoi_loop_show_dec [of n] show ?thesis
    by (simp add: atoi_def hd0_def Let_def)
qed

section \<open>Names\<close>

text \<open>A text of which every character is visible and none is used as punctuation.\<close>

definition plain_char :: "char \<Rightarrow> bool" where
  "plain_char c \<longleftrightarrow> c \<noteq> CHR ''['' \<and> c \<noteq> CHR '']'' \<and> c \<noteq> CHR '':'' \<and> \<not> isspace (ch c)"

lemma isspace_blank: "isspace (ch (CHR '' ''))" "isspace (ch (CHR 0x0A))"
  by code_simp+

lemma plain_char_space: "plain_char c \<Longrightarrow> c \<noteq> CHR '' '' \<and> c \<noteq> CHR 0x0A"
  using isspace_blank by (auto simp: plain_char_def)

definition plain_text :: "string \<Rightarrow> bool" where
  "plain_text s \<longleftrightarrow> s \<noteq> [] \<and> length s < 20 \<and> list_all plain_char s"

definition sizes :: "nat list" where "sizes = [1, 2, 4]"

text \<open>What is checked for a text of a register or segment: it is plain and read as intended.\<close>

definition reads_reg :: "string \<Rightarrow> nat \<Rightarrow> tag_t \<Rightarrow> nat \<Rightarrow> bool" where
  "reads_reg s r tag sz \<longleftrightarrow> plain_text s \<and> str_op_get_type s = Some op_reg \<and> str2reg s = Some (r, tag, sz)"

lemma reads_reg_const:
  "list_all (\<lambda>sz. list_all (\<lambda>r. case reg2str (int r) tag_const sz of None \<Rightarrow> False | Some s \<Rightarrow> reads_reg s r tag_const sz) [0..<8]) sizes"
  by code_simp

lemma reads_reg_var:
  "list_all (\<lambda>sz. list_all (\<lambda>r. case reg2str (int r) tag_var sz of None \<Rightarrow> False | Some s \<Rightarrow> reads_reg s r tag_var sz) [0..<8]) sizes"
  by code_simp

lemma reads_reg_temp:
  "list_all (\<lambda>r. case reg2str (int r) tag_var 4 of None \<Rightarrow> False | Some s \<Rightarrow> reads_reg s r tag_var 4) [8..<16]"
  by code_simp

definition reads_seg :: "string \<Rightarrow> nat \<Rightarrow> tag_t \<Rightarrow> bool" where
  "reads_seg s r tag \<longleftrightarrow> plain_text s \<and> str_op_get_type s = Some op_seg \<and> str2seg s = Some (r, tag)"

lemma reads_seg_names:
  "list_all (\<lambda>tag. list_all (\<lambda>r. case seg2str (int r) tag of None \<Rightarrow> False | Some s \<Rightarrow> reads_seg s r tag) [0..<6]) [tag_const, tag_var]"
  by code_simp

lemma reads_seg_name:
  assumes "r < 6" and "tag = tag_const \<or> tag = tag_var"
  shows "\<exists>s. seg2str (int r) tag = Some s \<and> reads_seg s r tag"
proof -
  have "tag \<in> set [tag_const, tag_var]" "r \<in> set [0..<6]" using assms by auto
  with reads_seg_names show ?thesis unfolding list_all_iff by (fastforce split: option.splits)
qed

definition reads_prefix :: "string \<Rightarrow> int \<Rightarrow> tag_t \<Rightarrow> bool" where
  "reads_prefix s r tag \<longleftrightarrow> plain_text s \<and> str_op_get_type s = Some op_prefix \<and> str2prefix s = Some (r, tag)"

lemma reads_prefix_names:
  "list_all (\<lambda>r. reads_prefix (prefix2str r tag_const) (int r) tag_const) [0..<8] \<and>
   reads_prefix (prefix2str 0 tag_var) 0 tag_var"
  by code_simp

text \<open>Variables are printed alike whatever their tag is, and read with the tag of any variable.\<close>

definition norm_tag :: "tag_t \<Rightarrow> tag_t" where
  "norm_tag tag = (if tag = tag_const then tag_const else tag_var)"

lemma printed_tag: "tag \<noteq> tag_const \<Longrightarrow> reg2str r tag sz = reg2str r tag_var sz"
  "tag \<noteq> tag_const \<Longrightarrow> seg2str r tag = seg2str r tag_var"
  "tag \<noteq> tag_const \<Longrightarrow> prefix2str n tag = prefix2str n tag_var"
  "tag \<noteq> tag_const \<Longrightarrow> imm2str v tag = imm2str v tag_var"
  by (simp_all add: reg2str_def seg2str_def prefix2str_def imm2str_def)

lemma imm_text:
  assumes "unat v < 2 ^ 31"
  shows "plain_text (imm2str v tag)" and "str_op_get_type (imm2str v tag) = Some op_imm"
    and "str2imm (imm2str v tag) = Parsed (v, norm_tag tag, if tag = tag_const then 0 else 4)"
proof -
  let ?s = "show_dec (unat v)"
  obtain c s where s: "?s = c # s" by (cases ?s) auto
  have d: "\<forall>x\<in>set ?s. isdigit (ch x)" by (rule show_dec_digits)
  have dc: "isdigit (ch c)" using d s by simp
  have plain: "plain_char x" if "isdigit (ch x)" for x
    using that by (auto simp: plain_char_def isdigit_def isspace_def ch_def)
  have len: "length (show_dec n) \<le> k" if "n < 10 ^ k" "0 < k" for n k
    using that
  proof (induction n arbitrary: k rule: less_induct)
    case (less n)
    show ?case
    proof (cases "n < 10")
      case True
      then show ?thesis using less.prems unfolding show_dec_def by (subst show_base.simps) simp
    next
      case False
      then obtain j where k: "k = Suc j" "0 < j" using less.prems by (cases k; cases "k = 1") auto
      have "show_dec n = show_dec (n div 10) @ [digit_char (n mod 10)]"
        using False unfolding show_dec_def by (subst show_base.simps) simp
      moreover have "length (show_dec (n div 10)) \<le> j" using less k False by (intro less.IH) auto
      ultimately show ?thesis using k by simp
    qed
  qed
  have "length ?s \<le> 10" using assms by (intro len) auto
  moreover have "plain_char (CHR ''C'')" by code_simp
  ultimately show "plain_text (imm2str v tag)"
    using d plain by (auto simp: plain_text_def imm2str_def list_all_iff)
  have hd: "c \<noteq> CHR ''%''" "c \<noteq> CHR ''C''" using dc by (auto simp: isdigit_def ch_def)
  have dC: "\<not> isdigit (ch (CHR ''C''))" by code_simp
  show "str_op_get_type (imm2str v tag) = Some op_imm"
    using s dc hd dC by (simp add: imm2str_def str_op_get_type_def char_at_def)
  have a: "atoi ?s = int (unat v)" by (rule atoi_show_dec) (rule assms)
  have tw: "takeWhile (\<lambda>x. isdigit (ch x)) ?s = ?s" "dropWhile (\<lambda>x. isdigit (ch x)) ?s = []"
    using d by (simp_all add: takeWhile_eq_all_conv)
  show "str2imm (imm2str v tag) = Parsed (v, norm_tag tag, if tag = tag_const then 0 else 4)"
  proof (cases "tag = tag_const")
    case True
    have "str2imm ?s = Parsed (of_int (atoi ?s), tag_const, 0)"
      unfolding str2imm_def s using hd by (simp add: char_at_def)
    with True a show ?thesis by (simp add: imm2str_def norm_tag_def)
  next
    case False
    have "str2imm (CHR ''C'' # ?s) = Parsed (of_int (atoi ?s), tag_var, 4)"
      unfolding str2imm_def list.sel tw by (simp add: char_at_def)
    with False a show ?thesis by (simp add: imm2str_def norm_tag_def)
  qed
qed

section \<open>Operands\<close>

lemma trim_plain:
  assumes "plain_text s"
  shows "dropWhile (\<lambda>c. c = CHR '' '') (replicate m (CHR '' '') @ s @ replicate n (CHR '' '')) \<noteq> []"
    and "trim (replicate m (CHR '' '') @ s @ replicate n (CHR '' '')) = s"
proof -
  obtain c u where s: "s = c # u" "c \<noteq> CHR '' ''"
    using assms plain_char_space by (cases s) (auto simp: plain_text_def)
  obtain v d where r: "rev s = d # v" using s(1) by (cases "rev s") auto
  then have "d \<in> set s" by (metis list.set_intros(1) set_rev)
  then have d: "d \<noteq> CHR '' ''" using assms plain_char_space by (auto simp: plain_text_def list_all_iff)
  have l: "dropWhile (\<lambda>c. c = CHR '' '') (replicate m (CHR '' '') @ s @ t) = s @ t" for t
    using s by (induction m) auto
  then show "dropWhile (\<lambda>c. c = CHR '' '') (replicate m (CHR '' '') @ s @ replicate n (CHR '' '')) \<noteq> []"
    using s by simp
  have "dropWhile (\<lambda>c. c = CHR '' '') (replicate n (CHR '' '') @ rev s) = rev s"
    using r d by (induction n) auto
  then show "trim (replicate m (CHR '' '') @ s @ replicate n (CHR '' '')) = s"
    unfolding trim_def l by simp
qed

text \<open>The operands whose text carries all they hold.\<close>

definition readable :: "operand \<Rightarrow> bool" where
  "readable op \<longleftrightarrow>
     (case otype op of
        op_reg \<Rightarrow> osize op \<in> {1, 2, 4} \<and> (val_reg op < 8 \<or> otag op \<noteq> tag_const \<and> osize op = 4)
      | op_seg \<Rightarrow> osize op = 0 \<and> val_seg op < 6
      | op_imm \<Rightarrow> osize op = (if otag op = tag_const then 0 else 4) \<and> unat (view op_imm op) < 2 ^ 31
      | op_prefix \<Rightarrow> osize op = 0 \<and> (otag op = tag_const \<or> val_prefix op = 0)
      | _ \<Rightarrow> False)"

lemma view_idem [simp]: "take_bit (val_bits t) (view t op) = view t op"
  by (simp add: view_def)

lemma view_bound: "unat (view t op) < 2 ^ val_bits t"
proof -
  have "unat (take_bit (val_bits t) (oval op)) = take_bit (val_bits t) (unat (oval op))" by (rule unsigned_take_bit_eq)
  then show ?thesis by (simp add: view_def take_bit_eq_mod)
qed

lemma view_updates [simp]:
  "view t (op\<lparr>otype := x\<rparr>) = view t op" "view t (op\<lparr>osize := n\<rparr>) = view t op" "view t (op\<lparr>otag := tag\<rparr>) = view t op"
  by (simp_all add: view_def)

lemma set_view_sel [simp]:
  "view t (set_view t v op) = take_bit (val_bits t) v" "otype (set_view t v op) = otype op"
  "osize (set_view t v op) = osize op" "otag (set_view t v op) = otag op"
  by (simp_all add: view_def set_view_def)

text \<open>An operand of one of the four types is what its type, size, tag and value are.\<close>

definition same_scalar :: "operand \<Rightarrow> operand \<Rightarrow> bool" where
  "same_scalar a b \<longleftrightarrow>
     otype a = otype b \<and> osize a = osize b \<and> otag a = norm_tag (otag b) \<and> view (otype b) a = view (otype b) b"

lemma str2operand_readable:
  assumes "readable op"
  shows "\<exists>s. operand2str op = Some s \<and> plain_text s \<and>
    (\<forall>m n op0. \<exists>op'. str2operand op0 (replicate m (CHR '' '') @ s @ replicate n (CHR '' '')) = Parsed op' \<and> same_scalar op' op)"
proof -
  consider (reg) "otype op = op_reg" | (seg) "otype op = op_seg" | (imm) "otype op = op_imm" | (prefix) "otype op = op_prefix"
    using assms by (auto simp: readable_def split: opertype.splits)
  then show ?thesis
  proof cases
    case reg
    let ?r = "val_reg op"
    have r: "?r < 16" using view_bound [of op_reg op] by (simp add: val_reg_def val_bits_def)
    have sz: "osize op \<in> set sizes" and or: "?r < 8 \<or> otag op \<noteq> tag_const \<and> osize op = 4"
      using assms reg by (auto simp: readable_def sizes_def)
    obtain s where s: "reg2str (int ?r) (otag op) (osize op) = Some s"
      and reads: "reads_reg s ?r (norm_tag (otag op)) (osize op)"
    proof (cases "?r < 8")
      case True
      then have "?r \<in> set [0..<8]" by simp
      with reads_reg_const reads_reg_var sz printed_tag(1) [of "otag op" "int ?r" "osize op"] show ?thesis
        by (intro that [of "the (reg2str (int ?r) (otag op) (osize op))"])
          (fastforce simp: list_all_iff norm_tag_def split: option.splits)+
    next
      case False
      then have "?r \<in> set [8..<16]" using r by (subst set_upt) simp
      with reads_reg_temp or False printed_tag(1) [of "otag op" "int ?r" "osize op"] show ?thesis
        by (intro that [of "the (reg2str (int ?r) (otag op) (osize op))"])
          (fastforce simp: list_all_iff norm_tag_def split: option.splits)+
    qed
    have "operand2str op = Some s" using s reg by (simp add: operand2str_def val_reg_def)
    moreover have "plain_text s" using reads by (simp add: reads_reg_def)
    ultimately show ?thesis
      using reads trim_plain [of s] reg
      by (auto simp: str2operand_def reads_reg_def same_scalar_def val_reg_def)
  next
    case seg
    let ?r = "val_seg op"
    have "?r < 6" "osize op = 0" using assms seg by (auto simp: readable_def)
    from reads_seg_name [OF \<open>?r < 6\<close>, of "norm_tag (otag op)"]
    obtain s where s: "seg2str (int ?r) (otag op) = Some s" and reads: "reads_seg s ?r (norm_tag (otag op))"
      using printed_tag(2) [of "otag op" "int ?r"] by (cases "otag op = tag_const") (auto simp: norm_tag_def)
    have "operand2str op = Some s" using s seg by (simp add: operand2str_def val_seg_def)
    moreover have "plain_text s" using reads by (simp add: reads_seg_def)
    ultimately show ?thesis
      using reads trim_plain [of s] seg \<open>osize op = 0\<close>
      by (auto simp: str2operand_def reads_seg_def same_scalar_def val_seg_def)
  next
    case imm
    then have v: "unat (view op_imm op) < 2 ^ 31" and sz: "osize op = (if otag op = tag_const then 0 else 4)"
      using assms by (auto simp: readable_def)
    let ?s = "imm2str (view op_imm op) (otag op)"
    note t = imm_text [OF v, of "otag op"]
    have "str2operand op0 (replicate m (CHR '' '') @ ?s @ replicate n (CHR '' ''))
        = Parsed (set_view op_imm (view op_imm op) (op0\<lparr>otype := op_imm, osize := osize op, otag := norm_tag (otag op)\<rparr>))" for m n op0
      unfolding str2operand_def using trim_plain [OF t(1)] t(2,3) sz by simp
    moreover have "same_scalar (set_view op_imm (view op_imm op) (op0\<lparr>otype := op_imm, osize := osize op, otag := norm_tag (otag op)\<rparr>)) op" for op0
      using imm by (simp add: same_scalar_def)
    moreover have "operand2str op = Some ?s" using imm by (simp add: operand2str_def)
    ultimately show ?thesis using t(1) by (intro exI [of _ ?s]) simp
  next
    case prefix
    let ?r = "val_prefix op"
    have "?r < 8" using view_bound [of op_prefix op] by (simp add: val_prefix_def val_bits_def)
    then have "reads_prefix (prefix2str ?r (otag op)) (int ?r) (norm_tag (otag op))"
      using reads_prefix_names assms prefix printed_tag(3) [of "otag op" ?r]
      by (auto simp: list_all_iff readable_def norm_tag_def)
    with prefix assms trim_plain [of "prefix2str ?r (otag op)"] show ?thesis
      by (auto simp: operand2str_def str2operand_def reads_prefix_def same_scalar_def val_prefix_def readable_def)
  qed
qed

lemma same_scalar_equal:
  assumes "same_scalar a b" and "readable b"
  shows "operands_equal a (b\<lparr>otag := norm_tag (otag b)\<rparr>)"
  using assms by (auto simp: same_scalar_def readable_def operands_equal_def split: opertype.splits)

section \<open>Comparison\<close>

lemma operands_equal_refl: "otype a \<noteq> op_st \<Longrightarrow> operands_equal a a"
  by (simp add: operands_equal_def mem_fields_equal_def split: opertype.split)

lemma operands_equal_sym: "operands_equal a b \<Longrightarrow> operands_equal b a"
  by (cases "otype a") (auto simp: operands_equal_def mem_fields_equal_def split: if_splits)

lemma operands_equal_trans: "operands_equal a b \<Longrightarrow> operands_equal b c \<Longrightarrow> operands_equal a c"
  by (cases "otype a") (auto simp: operands_equal_def mem_fields_equal_def split: if_splits)

lemma operands_equal_text: "operands_equal a b \<Longrightarrow> otype a \<noteq> op_mem \<Longrightarrow> operand2str a = operand2str b"
  by (cases "otype a") (auto simp: operands_equal_def operand2str_def split: if_splits)

section \<open>Properties\<close>

text \<open>
  C19. Printing a register, segment, constant or prefix operand of a size that has a text and
  reading the text, with any blanks around it, gives the operand back; a variable comes back
  with the general tag of variables, since the text does not show its constraint. Constants are
  covered below 2^31 only: larger ones are printed as they are, but read into an \<^verbatim>\<open>int\<close> and come
  back changed (see \<open>operand_text_large\<close>).
\<close>

theorem operand_text_roundtrip:
  assumes "readable op"
  shows "\<exists>s op'. operand2str op = Some s \<and>
    str2operand op0 (replicate m (CHR '' '') @ s @ replicate n (CHR '' '')) = Parsed op' \<and>
    operands_equal op' (op\<lparr>otag := norm_tag (otag op)\<rparr>)"
  using str2operand_readable [OF assms] same_scalar_equal [OF _ assms] by blast

theorem operand_text_roundtrip_witness:
  "\<exists>s op'. operand2str (scalar_operand op_reg 2 6 tag_const) = Some s \<and>
    str2operand blank_operand ('' '' @ s) = Parsed op' \<and> operands_equal op' (scalar_operand op_reg 2 6 tag_const)"
proof -
  have r: "readable (scalar_operand op_reg 2 6 tag_const)" by code_simp
  have t: "(scalar_operand op_reg 2 6 tag_const)\<lparr>otag := norm_tag (otag (scalar_operand op_reg 2 6 tag_const))\<rparr>
      = scalar_operand op_reg 2 6 tag_const"
    by (simp add: scalar_operand_def norm_tag_def set_view_def)
  show ?thesis using operand_text_roundtrip [OF r, of blank_operand 1 0] t by simp
qed

text \<open>A constant between 2^31 and 2^32 is read back as a negative number.\<close>

lemma operand_text_large:
  assumes "2 ^ 31 \<le> n" and "n < 2 ^ 32"
  shows "str2imm (imm2str (of_nat n) tag_const) = Parsed (of_int (int n - 2 ^ 32), tag_const, 0)"
proof -
  have u: "unat (of_nat n :: u64) = n" using assms(2) by (simp add: unat_of_nat)
  obtain c s where s: "show_dec n = c # s" by (cases "show_dec n") auto
  then have "isdigit (ch c)" using show_dec_digits [of n] by auto
  then have c: "\<not> isspace (ch c)" "ch c \<noteq> 43" "ch c \<noteq> 45" "c \<noteq> CHR ''C''" by (auto simp: isdigit_def isspace_def ch_def)
  have "sint (of_nat n :: u32) = int n - 2 ^ 32"
  proof -
    have "sint (of_nat n :: u32) = signed_take_bit 31 (int n)" by (simp add: signed_of_nat)
    also have "\<dots> = (int n + 2 ^ 31) mod 2 ^ 32 - 2 ^ 31"
      by (simp add: signed_take_bit_eq_take_bit_shift take_bit_eq_mod)
    also have "(int n + 2 ^ 31) mod 2 ^ 32 = int n + 2 ^ 31 - 2 ^ 32"
      using assms by (subst minus_mod_self2 [symmetric], intro mod_pos_pos_trivial) simp_all
    finally show ?thesis by simp
  qed
  then have "atoi (show_dec n) = int n - 2 ^ 32"
    using c s atoi_loop_show_dec [of n] by (simp add: atoi_def hd0_def Let_def)
  then show ?thesis using c s u by (simp add: str2imm_def imm2str_def char_at_def)
qed

text \<open>Memory operands that differ in nothing but their address size.\<close>

definition same_fields :: "operand_mem_val \<Rightarrow> operand_mem_val \<Rightarrow> bool" where
  "same_fields v w \<longleftrightarrow> m_segtype v = m_segtype w \<and> m_seg v = m_seg w \<and> m_base v = m_base w \<and>
     m_scale v = m_scale w \<and> m_index v = m_index w \<and> m_disp v = m_disp w"

lemma mem_fields_same: "mem_fields_equal a b \<longleftrightarrow> same_fields (omem a) (omem b) \<and> omtag a = omtag b \<and> otag a = otag b"
proof -
  have "t = u \<longleftrightarrow> mt_seg t = mt_seg u \<and> mt_base t = mt_base u \<and> mt_index t = mt_index u \<and> mt_disp t = mt_disp u"
    for t u :: operand_mem_tag
    by (cases t, cases u) simp
  then show ?thesis unfolding mem_fields_equal_def same_fields_def by blast
qed

lemma operands_equal_iff:
  "operands_equal a b \<longleftrightarrow> otype a = otype b \<and> osize a = osize b \<and> otype a \<noteq> op_st \<and>
    (otype a = invalid \<or> otag a = otag b \<and>
      (if otype a = op_mem then same_fields (omem a) (omem b) \<and> omtag a = omtag b
       else view (otype a) a = view (otype a) b))"
  by (cases "otype a") (auto simp: operands_equal_def mem_fields_same)

lemma operands_equal_mem_text:
  assumes "operands_equal a b" and "otype a = op_mem" and "m_addrsize (omem a) = m_addrsize (omem b)"
  shows "operand2str a = operand2str b"
proof -
  have "same_fields (omem a) (omem b)" "omtag a = omtag b" "otype b = op_mem"
    using assms(1,2) unfolding operands_equal_iff by simp_all
  moreover from this(1) assms(3) have "omem a = omem b"
    unfolding same_fields_def by (intro operand_mem_val.equality) simp_all
  ultimately show ?thesis using assms(2) by (simp add: operand2str_def)
qed

text \<open>
  C20. The comparison of operands holds exactly between operands of the same type, size, tag and
  value, where the value of a memory operand is segment, base, scale, index and displacement with
  their tags, but not the address size. So it is an equivalence, except that a floating point
  stack register is not even equal to itself, and operands that it equates have the same text,
  unless they are memory operands with different address sizes.
\<close>

theorem operands_equal_equivalence:
  "(operands_equal a b \<longleftrightarrow> otype a = otype b \<and> osize a = osize b \<and> otype a \<noteq> op_st \<and>
      (otype a = invalid \<or> otag a = otag b \<and>
        (if otype a = op_mem
         then m_segtype (omem a) = m_segtype (omem b) \<and> m_seg (omem a) = m_seg (omem b) \<and>
              m_base (omem a) = m_base (omem b) \<and> m_scale (omem a) = m_scale (omem b) \<and>
              m_index (omem a) = m_index (omem b) \<and> m_disp (omem a) = m_disp (omem b) \<and> omtag a = omtag b
         else view (otype a) a = view (otype a) b))) \<and>
   (operands_equal a a \<longleftrightarrow> otype a \<noteq> op_st) \<and>
   (operands_equal a b \<longrightarrow> operands_equal b a) \<and>
   (operands_equal a b \<longrightarrow> operands_equal b c \<longrightarrow> operands_equal a c) \<and>
   (operands_equal a b \<longrightarrow> (otype a = op_mem \<longrightarrow> m_addrsize (omem a) = m_addrsize (omem b)) \<longrightarrow>
      operand2str a = operand2str b)"
proof (intro conjI impI)
  show "operand2str a = operand2str b"
    if "operands_equal a b" "otype a = op_mem \<longrightarrow> m_addrsize (omem a) = m_addrsize (omem b)"
    using that operands_equal_text operands_equal_mem_text by blast
  show "operands_equal a c" if "operands_equal a b" "operands_equal b c"
    using that by (rule operands_equal_trans)
  show "operands_equal a a \<longleftrightarrow> otype a \<noteq> op_st"
    using operands_equal_refl [of a] by (auto simp: operands_equal_def)
  show "operands_equal b a" if "operands_equal a b"
    using that by (rule operands_equal_sym)
  show "operands_equal a b \<longleftrightarrow> otype a = otype b \<and> osize a = osize b \<and> otype a \<noteq> op_st \<and>
      (otype a = invalid \<or> otag a = otag b \<and>
        (if otype a = op_mem
         then m_segtype (omem a) = m_segtype (omem b) \<and> m_seg (omem a) = m_seg (omem b) \<and>
              m_base (omem a) = m_base (omem b) \<and> m_scale (omem a) = m_scale (omem b) \<and>
              m_index (omem a) = m_index (omem b) \<and> m_disp (omem a) = m_disp (omem b) \<and> omtag a = omtag b
         else view (otype a) a = view (otype a) b))"
    using operands_equal_iff [of a b] unfolding same_fields_def by simp
qed

theorem operands_equal_equivalence_witness:
  "operands_equal (scalar_operand op_seg 0 9 tag_const) (scalar_operand op_seg 0 1 tag_const) \<and>
   operand2str (scalar_operand op_seg 0 9 tag_const) = operand2str (scalar_operand op_seg 0 1 tag_const) \<and>
   \<not> operands_equal (blank_operand\<lparr>otype := op_mem, omem := (omem blank_operand)\<lparr>m_disp := 1\<rparr>\<rparr>)
       (blank_operand\<lparr>otype := op_mem, omem := (omem blank_operand)\<lparr>m_disp := 2\<rparr>\<rparr>)"
proof -
  have "operands_equal (scalar_operand op_seg 0 9 tag_const) (scalar_operand op_seg 0 1 tag_const)" by code_simp
  with operands_equal_equivalence [of "scalar_operand op_seg 0 9 tag_const" "scalar_operand op_seg 0 1 tag_const" blank_operand]
  have "operand2str (scalar_operand op_seg 0 9 tag_const) = operand2str (scalar_operand op_seg 0 1 tag_const)"
    "operands_equal (scalar_operand op_seg 0 9 tag_const) (scalar_operand op_seg 0 1 tag_const)"
    by (simp_all add: scalar_operand_def set_view_def)
  moreover have "\<not> operands_equal (blank_operand\<lparr>otype := op_mem, omem := (omem blank_operand)\<lparr>m_disp := 1\<rparr>\<rparr>)
       (blank_operand\<lparr>otype := op_mem, omem := (omem blank_operand)\<lparr>m_disp := 2\<rparr>\<rparr>)"
    by (subst operands_equal_equivalence [THEN conjunct1]) (simp add: blank_operand_def)
  ultimately show ?thesis by blast
qed

text \<open>Memory operands that differ in their address size count as equal but print differently.\<close>

lemma operands_equal_addrsize:
  "let op = \<lambda>n. blank_operand\<lparr>otype := op_mem, omem := (omem blank_operand)\<lparr>m_addrsize := n, m_base := 3, m_index := - 1\<rparr>\<rparr>
   in operands_equal (op 2) (op 4) \<and> operand2str (op 2) = Some ''%es:(%bx)'' \<and> operand2str (op 4) = Some ''%es:(%ebx)''"
  by code_simp

end
