(* ===== verification/Assignments.thy ===== *)
theory Assignments
  imports Operand_Parse
begin

text \<open>
  Assignments of constant operands to the variables of a template (\<^verbatim>\<open>peep/assignments.c\<close>).
  The list holds the part of the array in use, in order; an access beyond its eight entries is
  \<open>None\<close>. A message of an assertion does not stop the code.
\<close>

section \<open>Coherence\<close>

text \<open>A tag of constants is reported and satisfied by nothing.\<close>

fun val_satisfies_tag :: "nat \<Rightarrow> tag_t \<Rightarrow> bool" where
  "val_satisfies_tag val tag_var = True"
| "val_satisfies_tag val tag_eax = (val = R_EAX)"
| "val_satisfies_tag val tag_abcd = (val \<le> 3)"
| "val_satisfies_tag val tag_no_esp = (val \<noteq> R_ESP)"
| "val_satisfies_tag val tag_no_eax = (val \<noteq> R_EAX)"
| "val_satisfies_tag val tag_no_eax_esp = (val \<noteq> R_EAX \<and> val \<noteq> R_ESP)"
| "val_satisfies_tag val tag_no_cs_gs = (val \<noteq> R_GS \<and> val \<noteq> R_CS)"
| "val_satisfies_tag val tag_cs_gs = (val = R_GS \<or> val = R_CS)"
| "val_satisfies_tag val tag_const = False"

definition assignment_is_coherent :: "operand \<Rightarrow> operand \<Rightarrow> bool" where
  "assignment_is_coherent var v =
     (case otype var of
        op_reg \<Rightarrow> val_satisfies_tag (val_reg v) (otag var)
      | op_seg \<Rightarrow> val_satisfies_tag (val_seg v) (otag var)
      | _ \<Rightarrow> True)"

section \<open>The list\<close>

type_synonym assignments = "(operand \<times> operand) list"

definition MAX_VARIABLES :: nat where "MAX_VARIABLES = 8"

definition assignments_init :: assignments where "assignments_init = []"

text \<open>
  The value of a variable; a register variable is found under any size, and its value is then
  given the size that is asked for.
\<close>

fun assignments_getval :: "assignments \<Rightarrow> operand \<Rightarrow> operand option" where
  "assignments_getval [] templ = None"
| "assignments_getval ((var, v) # as) templ =
     (if operands_equal var templ then Some v
      else if otype templ = op_reg \<and> otype var = op_reg \<and> val_reg templ = val_reg var
      then Some (v\<lparr>osize := osize templ\<rparr>)
      else assignments_getval as templ)"

definition assignments_add :: "assignments \<Rightarrow> operand \<Rightarrow> operand \<Rightarrow> assignments option" where
  "assignments_add as templ op =
     (if length as < MAX_VARIABLES then
        Some (as @ [if otype templ = op_reg \<and> osize templ \<noteq> 4 then (templ\<lparr>osize := 4\<rparr>, op\<lparr>osize := 4\<rparr>)
                    else (templ, op)])
      else None)"

definition append_assignments :: "assignments \<Rightarrow> assignments \<Rightarrow> assignments option" where
  "append_assignments as new = (if length as + length new \<le> MAX_VARIABLES then Some (as @ new) else None)"

definition assignments_copy :: "assignments \<Rightarrow> assignments" where
  "assignments_copy src = map (\<lambda>(var, v). (var, v)) src"

definition assignments_are_coherent :: "assignments \<Rightarrow> bool" where
  "assignments_are_coherent as = list_all (\<lambda>(var, v). assignment_is_coherent var v) as"

definition assignments_get_regs :: "assignments \<Rightarrow> nat list" where
  "assignments_get_regs as = filter (\<lambda>i. otype (fst (as ! i)) = op_reg) [0..<length as]"

definition assignments_get_segs :: "assignments \<Rightarrow> nat list" where
  "assignments_get_segs as = filter (\<lambda>i. otype (fst (as ! i)) = op_seg) [0..<length as]"

definition var_is_temporary :: "operand \<Rightarrow> bool" where
  "var_is_temporary var \<longleftrightarrow> otype var = op_reg \<and> otag var \<noteq> tag_const \<and> val_reg var \<ge> TEMP_REG0"

definition assignments_get_temporaries :: "assignments \<Rightarrow> tag_t list" where
  "assignments_get_temporaries as = map otag (filter var_is_temporary (map fst as))"

section \<open>Values for variables\<close>

text \<open>
  The values that the code generator tries a rule with. Any constant register among the used
  constants makes all registers, and all segments, used.
\<close>

definition initially_used :: "nat \<Rightarrow> operand list \<Rightarrow> bool list" where
  "initially_used n used_consts = replicate n (list_ex (\<lambda>c. otype c = op_reg) used_consts)"

definition reg_constant :: "operand \<Rightarrow> nat \<Rightarrow> operand" where
  "reg_constant var r = (scalar_operand op_reg (osize var) (of_nat r) tag_const)\<lparr>orex := orex var\<rparr>"

fun random_regs_loop :: "operand list \<Rightarrow> bool list \<Rightarrow> assignments \<Rightarrow> (assignments \<times> bool) option" where
  "random_regs_loop [] used as = Some (as, True)"
| "random_regs_loop (var # vars) used as =
     (if otype var = op_reg then
        (case find (\<lambda>r. \<not> used ! r \<and> assignment_is_coherent var (reg_constant var r)) (rev [0..<NUM_REGS]) of
           None \<Rightarrow> Some (as, False)
         | Some r \<Rightarrow>
             do { as \<leftarrow> assignments_add as var (reg_constant var r); random_regs_loop vars (used[r := True]) as })
      else random_regs_loop vars used as)"

definition variables_assign_random_regs ::
    "assignments \<Rightarrow> operand list \<Rightarrow> operand list \<Rightarrow> (assignments \<times> bool) option" where
  "variables_assign_random_regs as vars used_consts =
     random_regs_loop vars (initially_used NUM_REGS used_consts) as"

fun random_segs_loop :: "operand list \<Rightarrow> bool list \<Rightarrow> assignments \<Rightarrow> (assignments \<times> bool) option" where
  "random_segs_loop [] used as = Some (as, True)"
| "random_segs_loop (var # vars) used as =
     (if otype var = op_seg then
        (case find (\<lambda>s. \<not> used ! s) [0..<5] of
           None \<Rightarrow> Some (as, False)
         | Some s \<Rightarrow>
             do {
               as \<leftarrow> assignments_add as var (scalar_operand op_seg 0 (of_nat s) tag_const);
               random_segs_loop vars (used[s := True]) as
             })
      else random_segs_loop vars used as)"

definition variables_assign_random_segs ::
    "assignments \<Rightarrow> operand list \<Rightarrow> operand list \<Rightarrow> (assignments \<times> bool) option" where
  "variables_assign_random_segs as vars used_consts =
     random_segs_loop vars (initially_used 5 used_consts) as"

fun variables_assign_random_consts :: "assignments \<Rightarrow> operand list \<Rightarrow> assignments option" where
  "variables_assign_random_consts as [] = Some as"
| "variables_assign_random_consts as (var # vars) =
     (if otype var = op_imm then
        do {
          as \<leftarrow> assignments_add as var
            ((scalar_operand op_imm (osize var) (0x70 + view op_imm var) tag_const)\<lparr>orex := orex var\<rparr>);
          variables_assign_random_consts as vars
        }
      else variables_assign_random_consts as vars)"

fun variables_assign_random_prefix :: "assignments \<Rightarrow> operand list \<Rightarrow> assignments option" where
  "variables_assign_random_prefix as [] = Some as"
| "variables_assign_random_prefix as (var # vars) =
     (if otype var = op_prefix then
        do {
          as \<leftarrow> assignments_add as var
            ((scalar_operand op_prefix (osize var) 0 tag_const)\<lparr>orex := orex var\<rparr>);
          variables_assign_random_prefix as vars
        }
      else variables_assign_random_prefix as vars)"

section \<open>Text\<close>

text \<open>Variables and values are printed into buffers of 16 bytes.\<close>

definition short_text :: "operand \<Rightarrow> string option" where
  "short_text op = map_option (take 15) (operand2str op)"

fun texts :: "assignments \<Rightarrow> (string \<times> string) list option" where
  "texts [] = Some []"
| "texts ((var, v) # as) =
     do { s \<leftarrow> short_text var; t \<leftarrow> short_text v; r \<leftarrow> texts as; Some ((s, t) # r) }"

text \<open>Register assignments are followed by those of their parts of two bytes and one byte.\<close>

definition sized_registers :: "assignments \<Rightarrow> assignments" where
  "sized_registers as =
     concat (map (\<lambda>(var, v). if otype var = op_reg
                             then [(var\<lparr>osize := 2\<rparr>, v\<lparr>osize := 2\<rparr>), (var\<lparr>osize := 1\<rparr>, v\<lparr>osize := 1\<rparr>)]
                             else []) as)"

definition assignments_get_text_replacements :: "assignments \<Rightarrow> (string \<times> string) list option" where
  "assignments_get_text_replacements as =
     do { r \<leftarrow> texts as; s \<leftarrow> texts (sized_registers as); Some (r @ s) }"

fun assignments2str :: "assignments \<Rightarrow> string option" where
  "assignments2str [] = Some []"
| "assignments2str ((var, v) # as) =
     do {
       s \<leftarrow> operand2str var;
       t \<leftarrow> operand2str v;
       r \<leftarrow> assignments2str as;
       Some (s @ '' ['' @ tag2str (otag var) @ ''] := '' @ t @ [CHR 0x0A] @ r)
     }"

text \<open>
  The text before the first occurrence of a character and the text after it.
\<close>

definition split_at :: "char \<Rightarrow> string \<Rightarrow> (string \<times> string) option" where
  "split_at c s =
     (if c \<in> set s then Some (takeWhile (\<lambda>x. x \<noteq> c) s, tl (dropWhile (\<lambda>x. x \<noteq> c) s)) else None)"

definition read_assignment :: "string \<Rightarrow> assignments \<Rightarrow> assignments parsed" where
  "read_assignment line as =
     (case strstr line '':='' of
        None \<Rightarrow> Rejected
      | Some off \<Rightarrow>
          let variable = take off line; constant = drop (off + 2) line in
          case split_at (CHR ''['') variable of
            None \<Rightarrow> Rejected
          | Some (varname, r) \<Rightarrow>
              (case split_at (CHR '']'') r of
                 None \<Rightarrow> Rejected
               | Some (tagname, _) \<Rightarrow>
                   (case str2operand blank_operand varname of
                      Undef \<Rightarrow> Undef
                    | Rejected \<Rightarrow> Rejected
                    | Parsed varop \<Rightarrow>
                        let varop = varop\<lparr>otag := str2tag tagname\<rparr> in
                        case str2operand blank_operand constant of
                          Undef \<Rightarrow> Undef
                        | Rejected \<Rightarrow> Rejected
                        | Parsed consop \<Rightarrow>
                            if otype consop = op_imm \<and> view op_imm consop = 0 then Rejected
                            else case assignments_add as varop consop of None \<Rightarrow> Undef | Some as \<Rightarrow> Parsed as)))"

lemma str2assignments_rest:
  assumes "takeWhile P buf \<noteq> []"
  shows "length (dropWhile Q (dropWhile P buf)) < length buf"
proof -
  have "length (dropWhile Q (dropWhile P buf)) \<le> length (dropWhile P buf)" by (rule length_dropWhile_le)
  moreover have "length (takeWhile P buf) + length (dropWhile P buf) = length buf"
    by (metis length_append takeWhile_dropWhile_id)
  ultimately show ?thesis using assms by (cases "takeWhile P buf") auto
qed

text \<open>
  \<^verbatim>\<open>sscanf\<close> with \<^verbatim>\<open>%[^\n]\n%n\<close> takes a nonempty line and the white space behind it; at the end
  of the text it returns \<^verbatim>\<open>EOF\<close>. On an empty line, or one that does not fit the buffer of 80
  bytes, it leaves the code without a line.
\<close>

function str2assignments_loop :: "string \<Rightarrow> assignments \<Rightarrow> assignments parsed" where
  "str2assignments_loop buf as =
     (if buf = [] then Parsed as
      else
        let line = takeWhile (\<lambda>c. c \<noteq> CHR 0x0A) buf;
            rest = dropWhile (\<lambda>c. isspace (ch c)) (dropWhile (\<lambda>c. c \<noteq> CHR 0x0A) buf)
        in if line = [] \<or> length line \<ge> 80 then Undef
           else case read_assignment line as of
                  Parsed as \<Rightarrow> str2assignments_loop rest as
                | Rejected \<Rightarrow> Rejected
                | Undef \<Rightarrow> Undef)"
  by pat_completeness auto

termination
  by (relation "measure (\<lambda>(buf, _). length buf)") (auto intro: str2assignments_rest)

declare str2assignments_loop.simps [simp del]

definition str2assignments :: "string \<Rightarrow> assignments parsed" where
  "str2assignments buf = str2assignments_loop buf assignments_init"

end
