(* ===== verification/Assignments_Props.thy ===== *)
theory Assignments_Props
  imports Assignments Operand_Props
begin

text \<open>
  The text form of a list of assignments is read back, a lookup after an addition gives the
  value added, and the registers chosen for the variables of a rule are coherent and distinct.
\<close>

section \<open>Reading an assignment\<close>

lemma strstr_first: "CHR '':'' \<notin> set a \<Longrightarrow> strstr (a @ '':='' @ b) '':='' = Some (length a)"
proof (induction a)
  case Nil
  then show ?case by (subst strstr.simps) (simp add: starts_def)
next
  case (Cons x a)
  then have "\<not> starts ((x # a) @ '':='' @ b) '':=''" by (auto simp: starts_def)
  with Cons show ?case by (subst strstr.simps) simp
qed

lemma split_at_append: "c \<notin> set a \<Longrightarrow> split_at c (a @ c # b) = Some (a, b)"
proof -
  assume c: "c \<notin> set a"
  have "takeWhile (\<lambda>x. x \<noteq> c) (a @ c # b) = a" using c by (induction a) auto
  moreover have "dropWhile (\<lambda>x. x \<noteq> c) (a @ c # b) = c # b" using c by (induction a) auto
  ultimately show ?thesis by (simp add: split_at_def)
qed

lemma str2tag_tag2str: "str2tag (tag2str t) = t"
  by (cases t) (simp_all add: str2tag_def)

lemma plain_tag: "plain_text (tag2str t)"
  by (cases t; hypsubst; code_simp)

lemma plain_text_chars:
  "plain_text s \<Longrightarrow> c \<in> set s \<Longrightarrow> c \<noteq> CHR ''['' \<and> c \<noteq> CHR '']'' \<and> c \<noteq> CHR '':'' \<and> c \<noteq> CHR '' '' \<and> c \<noteq> CHR 0x0A"
  using plain_char_space [of c] by (auto simp: plain_text_def plain_char_def list_all_iff)

definition assignment_line :: "string \<Rightarrow> tag_t \<Rightarrow> string \<Rightarrow> string" where
  "assignment_line s tag t = s @ '' ['' @ tag2str tag @ ''] := '' @ t"

text \<open>An assignment that can be told from its text.\<close>

definition readable_pair :: "operand \<Rightarrow> operand \<Rightarrow> bool" where
  "readable_pair var v \<longleftrightarrow>
     readable var \<and> readable v \<and> (otype var = op_reg \<longrightarrow> osize var = 4) \<and> (otype v = op_imm \<longrightarrow> view op_imm v \<noteq> 0)"

definition same_pair :: "operand \<times> operand \<Rightarrow> operand \<times> operand \<Rightarrow> bool" where
  "same_pair p q \<longleftrightarrow>
     operands_equal (fst q) (fst p) \<and> operands_equal (snd q) ((snd p)\<lparr>otag := norm_tag (otag (snd p))\<rparr>)"

lemma read_assignment_line:
  assumes p: "readable_pair var v" and s: "operand2str var = Some s" and t: "operand2str v = Some t"
    and room: "length as < MAX_VARIABLES"
  shows "\<exists>q. read_assignment (assignment_line s (otag var) t) as = Parsed (as @ [q]) \<and> same_pair (var, v) q"
proof -
  have var: "readable var" and v: "readable v" using p by (auto simp: readable_pair_def)
  have ps: "plain_text s" and pt: "plain_text t"
    using str2operand_readable [OF var] str2operand_readable [OF v] s t by auto
  let ?a = "s @ '' ['' @ tag2str (otag var) @ ''] ''"
  let ?line = "assignment_line s (otag var) t"
  have line: "?line = ?a @ '':='' @ '' '' @ t" by (simp add: assignment_line_def)
  have "CHR '':'' \<notin> set ?a" using plain_text_chars [OF ps] plain_text_chars [OF plain_tag] by auto
  then have off: "strstr ?line '':='' = Some (length ?a)" unfolding line by (rule strstr_first)
  have "CHR ''['' \<notin> set (s @ '' '')" using plain_text_chars [OF ps] by auto
  from split_at_append [OF this, of "tag2str (otag var) @ ''] ''"]
  have sp1: "split_at (CHR ''['') ?a = Some (s @ '' '', tag2str (otag var) @ ''] '')" by simp
  have "CHR '']'' \<notin> set (tag2str (otag var))" using plain_text_chars [OF plain_tag] by blast
  from split_at_append [OF this, of "'' ''"]
  have sp2: "split_at (CHR '']'') (tag2str (otag var) @ ''] '') = Some (tag2str (otag var), '' '')" by simp
  obtain o1 where o1: "str2operand blank_operand (s @ '' '') = Parsed o1" "same_scalar o1 var"
    using str2operand_readable [OF var] s by (metis append_Nil option.inject replicate_0 replicate_Suc)
  obtain o2 where o2: "str2operand blank_operand ('' '' @ t) = Parsed o2" "same_scalar o2 v"
    using str2operand_readable [OF v] t by (metis append_Nil2 option.inject replicate_0 replicate_Suc)
  let ?o1 = "o1\<lparr>otag := otag var\<rparr>"
  have e1: "operands_equal ?o1 var"
    using o1(2) var by (auto simp: same_scalar_def readable_def operands_equal_def split: opertype.splits)
  have e2: "operands_equal o2 (v\<lparr>otag := norm_tag (otag v)\<rparr>)" by (rule same_scalar_equal [OF o2(2) v])
  have nz: "\<not> (otype o2 = op_imm \<and> view op_imm o2 = 0)" using o2(2) p by (auto simp: same_scalar_def readable_pair_def)
  have add: "assignments_add as ?o1 o2 = Some (as @ [(?o1, o2)])"
    using room o1(2) p by (auto simp: assignments_add_def same_scalar_def readable_pair_def)
  have take: "take (length ?a) ?line = ?a" unfolding line by (rule append_eq_conv_conj [THEN iffD1, THEN conjunct1, symmetric]) simp
  have drop: "drop (length ?a + 2) ?line = '' '' @ t"
    using drop_append [of "length (?a @ '':='')" "?a @ '':=''" "'' '' @ t"] unfolding line by simp
  have "read_assignment ?line as = Parsed (as @ [(?o1, o2)])"
    unfolding read_assignment_def off option.case Let_def take drop sp1 prod.case sp2 o1(1) o2(1) parsed.case
      str2tag_tag2str add using nz by simp
  moreover have "same_pair (var, v) (?o1, o2)" using e1 e2 by (simp add: same_pair_def)
  ultimately show ?thesis by blast
qed

section \<open>Reading a list\<close>

lemma readable_text: "readable op \<Longrightarrow> \<exists>s. operand2str op = Some s \<and> plain_text s"
  by (drule str2operand_readable) blast

lemma assignment_line_shape:
  assumes "plain_text s" and "plain_text t"
  shows "assignment_line s tag t \<noteq> []" and "length (assignment_line s tag t) < 80"
    and "\<forall>c\<in>set (assignment_line s tag t). c \<noteq> CHR 0x0A" and "\<not> isspace (ch (hd (assignment_line s tag t)))"
proof -
  obtain x u where s: "s = x # u" "\<not> isspace (ch x)"
    using assms(1) by (cases s) (auto simp: plain_text_def plain_char_def)
  then show "assignment_line s tag t \<noteq> []" "\<not> isspace (ch (hd (assignment_line s tag t)))"
    by (simp_all add: assignment_line_def)
  show "length (assignment_line s tag t) < 80"
    using assms plain_tag [of tag] by (simp add: assignment_line_def plain_text_def)
  show "\<forall>c\<in>set (assignment_line s tag t). c \<noteq> CHR 0x0A"
    using plain_text_chars [OF assms(1)] plain_text_chars [OF assms(2)] plain_text_chars [OF plain_tag]
    by (auto simp: assignment_line_def)
qed

lemma assignments2str_readable:
  "\<forall>(var, v)\<in>set as. readable_pair var v \<Longrightarrow>
     \<exists>out. assignments2str as = Some out \<and> (out = [] \<or> \<not> isspace (ch (hd out)))"
proof (induction as)
  case (Cons p as)
  obtain var v where p: "p = (var, v)" by (cases p)
  then have r: "readable var" "readable v" using Cons.prems by (auto simp: readable_pair_def)
  then obtain s t where st: "operand2str var = Some s" "plain_text s" "operand2str v = Some t" "plain_text t"
    using readable_text [OF r(1)] readable_text [OF r(2)] by metis
  obtain out where "assignments2str as = Some out" using Cons by auto
  then have "assignments2str (p # as) = Some (assignment_line s (otag var) t @ CHR 0x0A # out)"
    using st p by (simp add: assignment_line_def)
  moreover have "\<not> isspace (ch (hd (assignment_line s (otag var) t @ CHR 0x0A # out)))"
    using assignment_line_shape [OF st(2,4), of "otag var"] by simp
  ultimately show ?case by blast
qed simp

lemma str2assignments_loop_readable:
  assumes "\<forall>(var, v)\<in>set as. readable_pair var v" and "assignments2str as = Some out"
    and "length acc + length as \<le> MAX_VARIABLES"
  shows "\<exists>as'. str2assignments_loop out acc = Parsed (acc @ as') \<and> list_all2 same_pair as as'"
  using assms
proof (induction as arbitrary: out acc)
  case Nil
  then show ?case by (subst str2assignments_loop.simps) simp
next
  case (Cons p as)
  obtain var v where p: "p = (var, v)" by (cases p)
  then have rp: "readable_pair var v" using Cons.prems by auto
  then have r: "readable var" "readable v" by (auto simp: readable_pair_def)
  then obtain s t where st: "operand2str var = Some s" "plain_text s" "operand2str v = Some t" "plain_text t"
    using readable_text [OF r(1)] readable_text [OF r(2)] by metis
  let ?line = "assignment_line s (otag var) t"
  obtain rest where rest: "assignments2str as = Some rest" "rest = [] \<or> \<not> isspace (ch (hd rest))"
    using assignments2str_readable [of as] Cons.prems by auto
  have out: "out = ?line @ CHR 0x0A # rest" using Cons.prems(2) st rest p by (simp add: assignment_line_def)
  note shape = assignment_line_shape [OF st(2,4), of "otag var"]
  have split: "takeWhile (\<lambda>c. c \<noteq> CHR 0x0A) out = ?line" "dropWhile (\<lambda>c. c \<noteq> CHR 0x0A) out = CHR 0x0A # rest"
    unfolding out using shape(3) takeWhile_append2 [of ?line "\<lambda>c. c \<noteq> CHR 0x0A"] dropWhile_append2 [of ?line "\<lambda>c. c \<noteq> CHR 0x0A"] by simp_all
  have "dropWhile (\<lambda>c. isspace (ch c)) rest = rest" using rest(2) by (cases rest) auto
  then have after: "dropWhile (\<lambda>c. isspace (ch c)) (CHR 0x0A # rest) = rest" using isspace_blank by simp
  obtain q where q: "read_assignment ?line acc = Parsed (acc @ [q])" "same_pair (var, v) q"
    using read_assignment_line [OF rp st(1,3), of acc] Cons.prems(3) by auto
  obtain as' where as': "str2assignments_loop rest (acc @ [q]) = Parsed ((acc @ [q]) @ as')" "list_all2 same_pair as as'"
    using Cons.IH [OF _ rest(1), of "acc @ [q]"] Cons.prems by auto
  have ne: "out \<noteq> []" unfolding out by simp
  have "str2assignments_loop out acc = Parsed (acc @ q # as')"
    unfolding str2assignments_loop.simps [of out acc] split after Let_def q(1) parsed.case as'(1)
    using shape(1,2) ne by simp
  then show ?case using q(2) as'(2) p by (intro exI [of _ "q # as'"]) simp
qed

section \<open>Lookup after addition\<close>

lemma getval_append:
  "assignments_getval (as @ bs) t = (case assignments_getval as t of Some v \<Rightarrow> Some v | None \<Rightarrow> assignments_getval bs t)"
  by (induction as t rule: assignments_getval.induct) auto

section \<open>Registers for variables\<close>

text \<open>Each register variable gets a value, in order; other variables are passed over.\<close>

lemma random_regs_loop_spec:
  assumes "random_regs_loop vars used as = Some (as', True)" and "length used = 8"
  shows "\<exists>new. as' = as @ new \<and> length new = length (filter (\<lambda>var. otype var = op_reg) vars) \<and>
    (\<forall>i<length new. val_reg (fst (new ! i)) = val_reg (filter (\<lambda>var. otype var = op_reg) vars ! i) \<and>
       otag (fst (new ! i)) = otag (filter (\<lambda>var. otype var = op_reg) vars ! i) \<and>
       otag (snd (new ! i)) = tag_const \<and> val_reg (snd (new ! i)) < 8 \<and> \<not> used ! val_reg (snd (new ! i)) \<and>
       assignment_is_coherent (fst (new ! i)) (snd (new ! i))) \<and>
    distinct (map (\<lambda>p. val_reg (snd p)) new)"
  using assms
proof (induction vars used as rule: random_regs_loop.induct)
  case (2 var vars used as)
  show ?case
  proof (cases "otype var = op_reg")
    case False
    then show ?thesis using 2 by auto
  next
    case True
    with "2.prems" obtain r where r: "find (\<lambda>r. \<not> used ! r \<and> assignment_is_coherent var (reg_constant var r)) (rev [0..<NUM_REGS]) = Some r"
      by (auto split: option.splits)
    with True "2.prems" obtain as1 where as1: "assignments_add as var (reg_constant var r) = Some as1"
      and loop: "random_regs_loop vars (used[r := True]) as1 = Some (as', True)"
      by (auto split: Option.bind_splits)
    have ru: "\<not> used ! r" and coh: "assignment_is_coherent var (reg_constant var r)" and r8: "r < 8"
      using find_SomeD [OF r] by (auto simp: NUM_REGS_def)
    have val: "val_reg (reg_constant var r) = r"
      using r8 by (simp add: reg_constant_def scalar_operand_def val_reg_def view_def set_view_def val_bits_def
          take_bit_of_nat take_bit_nat_eq_self unsigned_of_nat)
    obtain p where p: "as1 = as @ [p]" "val_reg (fst p) = val_reg var" "otag (fst p) = otag var" "otype (fst p) = op_reg"
      "otag (snd p) = tag_const" "val_reg (snd p) = r" "assignment_is_coherent (fst p) (snd p)"
      using as1 True val coh
      by (auto simp: assignments_add_def reg_constant_def scalar_operand_def set_view_def assignment_is_coherent_def
          val_reg_def view_def split: if_splits)
    obtain new where new: "as' = as1 @ new" "length new = length (filter (\<lambda>var. otype var = op_reg) vars)"
      "\<forall>i<length new. val_reg (fst (new ! i)) = val_reg (filter (\<lambda>var. otype var = op_reg) vars ! i) \<and>
       otag (fst (new ! i)) = otag (filter (\<lambda>var. otype var = op_reg) vars ! i) \<and>
       otag (snd (new ! i)) = tag_const \<and> val_reg (snd (new ! i)) < 8 \<and> \<not> used[r := True] ! val_reg (snd (new ! i)) \<and>
       assignment_is_coherent (fst (new ! i)) (snd (new ! i))"
      "distinct (map (\<lambda>p. val_reg (snd p)) new)"
      using "2.IH"(1) [OF True r as1 loop] "2.prems" by auto
    have nr: "val_reg (snd (new ! i)) \<noteq> r" if "i < length new" for i
      using new(3) that r8 "2.prems"(2) by (metis nth_list_update_eq)
    have nu: "\<not> used ! val_reg (snd (new ! i))" if "i < length new" for i
      using new(3) that nr [OF that] by (metis nth_list_update_neq)
    have "r \<notin> set (map (\<lambda>p. val_reg (snd p)) new)"
    proof
      assume "r \<in> set (map (\<lambda>p. val_reg (snd p)) new)"
      then obtain i where "i < length new" "map (\<lambda>p. val_reg (snd p)) new ! i = r" by (auto simp only: in_set_conv_nth length_map)
      with nr [of i] show False by simp
    qed
    then show ?thesis
      using new p True nu ru r8
      by (intro exI [of _ "p # new"]) (auto simp: nth_Cons' less_Suc_eq_0_disj)
  qed
qed simp

lemma random_regs_used:
  assumes "list_ex (\<lambda>c. otype c = op_reg) used_consts" and "list_ex (\<lambda>v. otype v = op_reg) vars"
  shows "\<exists>as'. variables_assign_random_regs as vars used_consts = Some (as', False)"
proof -
  let ?used = "replicate NUM_REGS True"
  have n: "find (\<lambda>r. \<not> ?used ! r \<and> P r) (rev [0..<NUM_REGS]) = None" for P
    by (simp add: find_None_iff)
  have "random_regs_loop vars ?used as = Some (as, False)"
    using assms(2)
  proof (induction vars)
    case (Cons v vs)
    then show ?case by (cases "otype v = op_reg") (simp_all add: n)
  qed simp
  then show ?thesis using assms(1) by (simp add: variables_assign_random_regs_def initially_used_def)
qed

section \<open>Properties\<close>

text \<open>
  Printing a list of assignments and reading the text back gives the list: the variables
  with the tags that constrain them, and the values. The operands are those that have a text,
  with whole registers as variables and constants other than zero, which the reader takes for
  an error.
\<close>

theorem assignments_text_roundtrip:
  assumes "\<forall>(var, v)\<in>set as. readable_pair var v" and "length as \<le> MAX_VARIABLES"
  shows "\<exists>s as'. assignments2str as = Some s \<and> str2assignments s = Parsed as' \<and> list_all2 same_pair as as'"
proof -
  obtain s where s: "assignments2str as = Some s" using assignments2str_readable [OF assms(1)] by blast
  have "length ([] :: assignments) + length as \<le> MAX_VARIABLES" using assms(2) by simp
  from str2assignments_loop_readable [OF assms(1) s this]
  obtain as' where "str2assignments_loop s [] = Parsed ([] @ as')" "list_all2 same_pair as as'" by (elim exE conjE)
  then have "str2assignments s = Parsed as'" unfolding str2assignments_def assignments_init_def by (simp only: append_Nil)
  with s \<open>list_all2 same_pair as as'\<close> show ?thesis by blast
qed

definition demo_assignments :: assignments where
  "demo_assignments =
     [(scalar_operand op_reg 4 3 tag_no_esp, scalar_operand op_reg 4 6 tag_const),
      (scalar_operand op_imm 4 2 tag_var, scalar_operand op_imm 0 4096 tag_const),
      (scalar_operand op_seg 0 1 tag_no_cs_gs, scalar_operand op_seg 0 4 tag_const)]"

theorem assignments_text_roundtrip_witness:
  "\<exists>s as'. assignments2str demo_assignments = Some s \<and> str2assignments s = Parsed as' \<and> list_all2 same_pair demo_assignments as'"
proof (rule assignments_text_roundtrip)
  show "\<forall>(var, v)\<in>set demo_assignments. readable_pair var v"
    by (simp add: demo_assignments_def readable_pair_def readable_def scalar_operand_def val_reg_def val_seg_def
        val_bits_def take_bit_eq_mod)
  show "length demo_assignments \<le> MAX_VARIABLES" by (simp add: demo_assignments_def MAX_VARIABLES_def)
qed

text \<open>
  C21. When registers can be chosen for the variables of a rule, every register variable gets,
  in order, a machine register that its tag allows, the registers are different, and nothing
  else is assigned; but a single machine register among the constants of the rule makes every
  choice fail.
\<close>

theorem variables_assign_random_regs_correct:
  "(variables_assign_random_regs as vars used_consts = Some (as', True) \<longrightarrow>
    (\<exists>new. as' = as @ new \<and> length new = length (filter (\<lambda>var. otype var = op_reg) vars) \<and>
      (\<forall>i<length new. val_reg (fst (new ! i)) = val_reg (filter (\<lambda>var. otype var = op_reg) vars ! i) \<and>
         otag (fst (new ! i)) = otag (filter (\<lambda>var. otype var = op_reg) vars ! i) \<and>
         otag (snd (new ! i)) = tag_const \<and> val_reg (snd (new ! i)) < 8 \<and>
         assignment_is_coherent (fst (new ! i)) (snd (new ! i))) \<and>
      distinct (map (\<lambda>p. val_reg (snd p)) new))) \<and>
   (list_ex (\<lambda>c. otype c = op_reg) used_consts \<longrightarrow> list_ex (\<lambda>v. otype v = op_reg) vars \<longrightarrow>
    (\<exists>as'. variables_assign_random_regs as vars used_consts = Some (as', False)))"
proof (intro conjI impI)
  assume "variables_assign_random_regs as vars used_consts = Some (as', True)"
  from random_regs_loop_spec [OF this [unfolded variables_assign_random_regs_def]]
  show "\<exists>new. as' = as @ new \<and> length new = length (filter (\<lambda>var. otype var = op_reg) vars) \<and>
      (\<forall>i<length new. val_reg (fst (new ! i)) = val_reg (filter (\<lambda>var. otype var = op_reg) vars ! i) \<and>
         otag (fst (new ! i)) = otag (filter (\<lambda>var. otype var = op_reg) vars ! i) \<and>
         otag (snd (new ! i)) = tag_const \<and> val_reg (snd (new ! i)) < 8 \<and>
         assignment_is_coherent (fst (new ! i)) (snd (new ! i))) \<and>
      distinct (map (\<lambda>p. val_reg (snd p)) new)"
    by (simp add: initially_used_def NUM_REGS_def) blast
qed (rule random_regs_used)

theorem variables_assign_random_regs_correct_witness:
  "\<exists>as' new. variables_assign_random_regs [] (map fst demo_assignments) [] = Some (as', True) \<and> as' = new \<and> length new = 1"
proof -
  have "map_option snd (variables_assign_random_regs [] (map fst demo_assignments) []) = Some True" by code_simp
  then obtain as' where as': "variables_assign_random_regs [] (map fst demo_assignments) [] = Some (as', True)" by auto
  have "length (filter (\<lambda>var. otype var = op_reg) (map fst demo_assignments)) = 1" by code_simp
  then show ?thesis
    using variables_assign_random_regs_correct [of "[]" "map fst demo_assignments" "[]" as', THEN conjunct1, rule_format, OF as']
    by (metis append_Nil as')
qed

end
