(* ===== verification/Regset.thy ===== *)
theory Regset
  imports Operand_Parse
begin

text \<open>
  Sets of registers (\<^verbatim>\<open>peep/regset.c\<close>) and pairs of registers that must not be given the
  same machine register (\<^verbatim>\<open>peep/nomatch_pair.c\<close>). A set has one flag for every machine
  register, register variable and temporary; a list of pairs is the part of its array in use.
  A write outside an array is \<open>None\<close>.
\<close>

section \<open>Pairs\<close>

definition MAX_TEMPORARIES :: nat where "MAX_TEMPORARIES = 8"

record nomatch_pair =
  np_reg1 :: int
  np_reg2 :: int
  np_tag1 :: tag_t
  np_tag2 :: tag_t

text \<open>The registers are kept in a \<^verbatim>\<open>char\<close>.\<close>

definition as_char :: "int \<Rightarrow> int" where
  "as_char x = sint (of_int x :: 8 word)"

definition pair_matches :: "nomatch_pair \<Rightarrow> int \<Rightarrow> tag_t \<Rightarrow> int \<Rightarrow> tag_t \<Rightarrow> bool" where
  "pair_matches p reg1 tag1 reg2 tag2 \<longleftrightarrow>
     (np_reg1 p = reg1 \<and> np_tag1 p = tag1 \<and> np_reg2 p = reg2 \<and> np_tag2 p = tag2) \<or>
     (np_reg2 p = reg1 \<and> np_tag2 p = tag1 \<and> np_reg1 p = reg2 \<and> np_tag1 p = tag2)"

definition nomatch_pair_add ::
    "nomatch_pair list \<Rightarrow> nat \<Rightarrow> int \<Rightarrow> tag_t \<Rightarrow> int \<Rightarrow> tag_t \<Rightarrow> nomatch_pair list option" where
  "nomatch_pair_add pairs max_pairs reg1 tag1 reg2 tag2 =
     (if list_ex (\<lambda>p. pair_matches p reg1 tag1 reg2 tag2) pairs then Some pairs
      else if length pairs < max_pairs then
        Some (pairs @ [\<lparr>np_reg1 = as_char reg1, np_reg2 = as_char reg2, np_tag1 = tag1, np_tag2 = tag2\<rparr>])
      else None)"

text \<open>The register operand whose text stands for one side of a pair.\<close>

definition pair_operand :: "int \<Rightarrow> tag_t \<Rightarrow> operand" where
  "pair_operand reg tag = scalar_operand op_reg 4 (of_int reg) tag"

definition nomatch_pair2str :: "nomatch_pair \<Rightarrow> string option" where
  "nomatch_pair2str p =
     do {
       reg1 \<leftarrow> operand2str (pair_operand (np_reg1 p) (np_tag1 p));
       reg2 \<leftarrow> operand2str (pair_operand (np_reg2 p) (np_tag2 p));
       Some (''{'' @ reg1 @ '','' @ reg2 @ ''}'')
     }"

text \<open>
  \<^verbatim>\<open>sscanf\<close> with \<^verbatim>\<open>{%[^,],%[^}]}%n\<close>: the two texts, of fewer than 32 characters as the
  buffers have, and the number of characters up to the closing brace.
\<close>

definition scan_pair :: "string \<Rightarrow> (string \<times> string \<times> nat) option" where
  "scan_pair buf =
     (let s = tl buf;
          r1 = takeWhile (\<lambda>c. c \<noteq> CHR '','') s;
          s2 = tl (dropWhile (\<lambda>c. c \<noteq> CHR '','') s);
          r2 = takeWhile (\<lambda>c. c \<noteq> CHR ''}'') s2
      in if char_at buf 0 \<noteq> CHR ''{'' \<or> r1 = [] \<or> length r1 \<ge> 32 \<or> r1 = s \<or>
            r2 = [] \<or> length r2 \<ge> 32 \<or> r2 = s2 then None
         else Some (r1, r2, length r1 + length r2 + 3))"

definition str2nomatch_pair :: "string \<Rightarrow> (nomatch_pair \<times> nat) parsed" where
  "str2nomatch_pair buf =
     (case scan_pair buf of
        None \<Rightarrow> Undef
      | Some (reg1, reg2, nchars) \<Rightarrow>
          (case str2operand blank_operand reg1 of
             Parsed op1 \<Rightarrow>
               (case str2operand op1 reg2 of
                  Parsed op2 \<Rightarrow>
                    Parsed (\<lparr>np_reg1 = int (val_reg op1), np_reg2 = int (val_reg op2),
                             np_tag1 = otag op1, np_tag2 = otag op2\<rparr>, nchars)
                | _ \<Rightarrow> Undef)
           | _ \<Rightarrow> Undef))"

section \<open>Sets of registers\<close>

record regset =
  cregs :: "bool list"
  vregs :: "bool list"
  tregs :: "bool list"

definition regset_clear_all :: regset where
  "regset_clear_all =
     \<lparr>cregs = replicate NUM_REGS False, vregs = replicate NUM_REGS False, tregs = replicate MAX_TEMPORARIES False\<rparr>"

definition set_flag :: "bool list \<Rightarrow> int \<Rightarrow> bool \<Rightarrow> bool list option" where
  "set_flag xs i b = (if 0 \<le> i \<and> nat i < length xs then Some (xs[nat i := b]) else None)"

definition regset_put :: "bool \<Rightarrow> regset \<Rightarrow> tag_t \<Rightarrow> int \<Rightarrow> regset option" where
  "regset_put b rs tag reg =
     (if tag = tag_const then map_option (\<lambda>xs. rs\<lparr>cregs := xs\<rparr>) (set_flag (cregs rs) reg b)
      else if reg \<ge> int TEMP_REG0 then
        map_option (\<lambda>xs. rs\<lparr>tregs := xs\<rparr>) (set_flag (tregs rs) (reg - int TEMP_REG0) b)
      else map_option (\<lambda>xs. rs\<lparr>vregs := xs\<rparr>) (set_flag (vregs rs) reg b))"

definition regset_mark :: "regset \<Rightarrow> tag_t \<Rightarrow> int \<Rightarrow> regset option" where
  "regset_mark = regset_put True"

definition regset_clear :: "regset \<Rightarrow> tag_t \<Rightarrow> int \<Rightarrow> regset option" where
  "regset_clear = regset_put False"

definition regset_diff :: "regset \<Rightarrow> regset \<Rightarrow> regset" where
  "regset_diff dst src =
     \<lparr>cregs = map2 (\<lambda>d s. if d \<and> s then False else d) (cregs dst) (cregs src),
      vregs = map2 (\<lambda>d s. if d \<and> s then False else d) (vregs dst) (vregs src),
      tregs = map2 (\<lambda>d s. if d \<and> s then False else d) (tregs dst) (tregs src)\<rparr>"

definition regset_union :: "regset \<Rightarrow> regset \<Rightarrow> regset" where
  "regset_union dst src =
     \<lparr>cregs = map2 (\<or>) (cregs dst) (cregs src),
      vregs = map2 (\<or>) (vregs dst) (vregs src),
      tregs = map2 (\<or>) (tregs dst) (tregs src)\<rparr>"

text \<open>The indices of the flags that are set, in the order of the loops over them.\<close>

definition marked :: "bool list \<Rightarrow> nat list" where
  "marked xs = filter (\<lambda>i. xs ! i) [0..<length xs]"

fun add_pairs :: "nat \<Rightarrow> int \<Rightarrow> (int \<times> tag_t) list \<Rightarrow> nomatch_pair list \<Rightarrow> nomatch_pair list option" where
  "add_pairs max_pairs i [] pairs = Some pairs"
| "add_pairs max_pairs i ((j, tag) # js) pairs =
     do { pairs \<leftarrow> nomatch_pair_add pairs max_pairs i tag_var j tag; add_pairs max_pairs i js pairs }"

text \<open>What a variable or temporary must differ from: every used register but itself.\<close>

definition used_others :: "regset \<Rightarrow> int \<Rightarrow> (int \<times> tag_t) list" where
  "used_others rs i =
     map (\<lambda>j. (int j, tag_const)) (marked (cregs rs)) @
     map (\<lambda>j. (int j, tag_var)) (filter (\<lambda>j. i \<noteq> int j) (marked (vregs rs))) @
     map (\<lambda>j. (int (TEMP_REG0 + j), tag_var)) (filter (\<lambda>j. i \<noteq> int (TEMP_REG0 + j)) (marked (tregs rs)))"

fun output_pairs :: "nat \<Rightarrow> regset \<Rightarrow> int list \<Rightarrow> nomatch_pair list \<Rightarrow> nomatch_pair list option" where
  "output_pairs max_pairs rs [] pairs = Some pairs"
| "output_pairs max_pairs rs (i # is) pairs =
     do { pairs \<leftarrow> add_pairs max_pairs i (used_others rs i) pairs; output_pairs max_pairs rs is pairs }"

definition regset_output_nomatch_pairs ::
    "nomatch_pair list \<Rightarrow> nat \<Rightarrow> regset \<Rightarrow> regset \<Rightarrow> nomatch_pair list option" where
  "regset_output_nomatch_pairs pairs max_pairs idef use =
     output_pairs max_pairs use
       (map int (marked (vregs idef)) @ map (\<lambda>i. int (TEMP_REG0 + i)) (marked (tregs idef))) pairs"

text \<open>Without an unused register the code reports an error and returns 0.\<close>

definition regset_find_unused :: "regset \<Rightarrow> nat" where
  "regset_find_unused rs = (case index_from 0 False (cregs rs) of Some i \<Rightarrow> i | None \<Rightarrow> 0)"

definition regset2str :: "regset \<Rightarrow> string" where
  "regset2str rs =
     concat (map (\<lambda>i. regs32 ! i @ '','') (marked (cregs rs))) @
     concat (map (\<lambda>i. vregs32 ! i @ '','') (marked (vregs rs))) @
     concat (map (\<lambda>i. tregs32 ! i @ '','') (marked (tregs rs)))"

section \<open>Sets of names\<close>

text \<open>The set a register set stands for, of pairs of the tag class and the number.\<close>

definition members :: "regset \<Rightarrow> (bool \<times> int) set" where
  "members rs =
     {(True, int i) | i. i < length (cregs rs) \<and> cregs rs ! i} \<union>
     {(False, int i) | i. i < length (vregs rs) \<and> vregs rs ! i} \<union>
     {(False, int (TEMP_REG0 + i)) | i. i < length (tregs rs) \<and> tregs rs ! i}"

definition regset_ok :: "regset \<Rightarrow> bool" where
  "regset_ok rs \<longleftrightarrow> length (cregs rs) = NUM_REGS \<and> length (vregs rs) = NUM_REGS \<and> length (tregs rs) = MAX_TEMPORARIES"

definition reg_in_range :: "tag_t \<Rightarrow> int \<Rightarrow> bool" where
  "reg_in_range tag reg \<longleftrightarrow> 0 \<le> reg \<and> reg < (if tag = tag_const then 8 else 16)"

lemma members_const: "(True, r) \<in> members rs \<longleftrightarrow> 0 \<le> r \<and> nat r < length (cregs rs) \<and> cregs rs ! nat r"
  by (auto simp: members_def) (rule exI [of _ "nat r"], simp)

lemma members_var:
  assumes "regset_ok rs"
  shows "(False, r) \<in> members rs \<longleftrightarrow>
    0 \<le> r \<and> (if r < 8 then vregs rs ! nat r else r < 16 \<and> tregs rs ! nat (r - 8))"
proof
  assume r: "0 \<le> r \<and> (if r < 8 then vregs rs ! nat r else r < 16 \<and> tregs rs ! nat (r - 8))"
  show "(False, r) \<in> members rs"
  proof (cases "r < 8")
    case True
    with r assms show ?thesis
      by (auto simp: members_def regset_ok_def reg_nums MAX_TEMPORARIES_def intro!: exI [of _ "nat r"])
  next
    case False
    with r assms have "\<exists>i. r = int (TEMP_REG0 + i) \<and> i < length (tregs rs) \<and> tregs rs ! i"
      by (intro exI [of _ "nat (r - 8)"]) (auto simp: regset_ok_def reg_nums MAX_TEMPORARIES_def)
    then show ?thesis by (auto simp: members_def)
  qed
qed (use assms in \<open>auto simp: members_def regset_ok_def reg_nums MAX_TEMPORARIES_def\<close>)

lemmas regset_defs = reg_nums MAX_TEMPORARIES_def regset_ok_def reg_in_range_def

end
