(* ===== verification/Regset_Props.thy ===== *)
theory Regset_Props
  imports Regset
begin

text \<open>
  Register sets are finite sets of registers, and the conflict pairs computed from a definition
  set and a use set are exactly the required ones.
\<close>

section \<open>Register sets\<close>

lemma regset_eq_members:
  "regset_ok a \<Longrightarrow> (\<And>r. 0 \<le> r \<Longrightarrow> r < 8 \<Longrightarrow> cregs a ! nat r \<longleftrightarrow> (True, r) \<in> S) \<Longrightarrow>
   (\<And>r. 0 \<le> r \<Longrightarrow> r < 8 \<Longrightarrow> vregs a ! nat r \<longleftrightarrow> (False, r) \<in> S) \<Longrightarrow>
   (\<And>r. 8 \<le> r \<Longrightarrow> r < 16 \<Longrightarrow> tregs a ! nat (r - 8) \<longleftrightarrow> (False, r) \<in> S) \<Longrightarrow>
   (\<And>b r. (b, r) \<in> S \<Longrightarrow> 0 \<le> r \<and> r < (if b then 8 else 16)) \<Longrightarrow> members a = S"
proof (rule set_eqI)
  fix x :: "bool \<times> int"
  assume a: "regset_ok a" "\<And>r. 0 \<le> r \<Longrightarrow> r < 8 \<Longrightarrow> cregs a ! nat r \<longleftrightarrow> (True, r) \<in> S"
    "\<And>r. 0 \<le> r \<Longrightarrow> r < 8 \<Longrightarrow> vregs a ! nat r \<longleftrightarrow> (False, r) \<in> S"
    "\<And>r. 8 \<le> r \<Longrightarrow> r < 16 \<Longrightarrow> tregs a ! nat (r - 8) \<longleftrightarrow> (False, r) \<in> S"
    "\<And>b r. (b, r) \<in> S \<Longrightarrow> 0 \<le> r \<and> r < (if b then 8 else 16)"
  obtain b r where x: "x = (b, r)" by (cases x)
  show "x \<in> members a \<longleftrightarrow> x \<in> S"
  proof (cases b)
    case True
    have "(True, r) \<in> members a \<longleftrightarrow> 0 \<le> r \<and> r < 8 \<and> cregs a ! nat r"
      using a(1) by (auto simp: members_const regset_defs)
    with a(2) [of r] a(5) [of True r] x True show ?thesis by auto
  next
    case False
    with a(1) a(3,4) [of r] a(5) [of False r] x show ?thesis by (auto simp: members_var)
  qed
qed

lemma members_range: "regset_ok a \<Longrightarrow> (b, r) \<in> members a \<Longrightarrow> 0 \<le> r \<and> r < (if b then 8 else 16)"
  by (cases b) (auto simp: members_const members_var regset_defs split: if_splits)

lemma regset_clear_all_correct: "regset_ok regset_clear_all \<and> members regset_clear_all = {}"
proof
  show "regset_ok regset_clear_all" by (simp add: regset_clear_all_def regset_defs)
  then show "members regset_clear_all = {}"
    by (rule regset_eq_members) (auto simp: regset_clear_all_def regset_defs)
qed

lemma regset_put_correct:
  assumes ok: "regset_ok rs"
  shows "\<not> reg_in_range tag reg \<Longrightarrow> regset_put b rs tag reg = None"
    and "reg_in_range tag reg \<Longrightarrow> \<exists>rs'. regset_put b rs tag reg = Some rs' \<and> regset_ok rs' \<and>
      members rs' = (if b then insert (tag = tag_const, reg) (members rs) else members rs - {(tag = tag_const, reg)})"
proof -
  show "regset_put b rs tag reg = None" if "\<not> reg_in_range tag reg"
    using that ok by (auto simp: regset_put_def set_flag_def regset_defs split: if_splits)
  assume r: "reg_in_range tag reg"
  let ?S = "if b then insert (tag = tag_const, reg) (members rs) else members rs - {(tag = tag_const, reg)}"
  have "regset_put b rs tag reg \<noteq> None"
    using ok r by (auto simp: regset_put_def set_flag_def regset_defs split: if_splits)
  then obtain rs' where put: "regset_put b rs tag reg = Some rs'" by blast
  then have ok': "regset_ok rs'" using ok by (auto simp: regset_put_def set_flag_def regset_ok_def split: if_splits)
  have "members rs' = ?S"
  proof (rule regset_eq_members [OF ok'])
    show "cregs rs' ! nat s \<longleftrightarrow> (True, s) \<in> ?S" if "0 \<le> s" "s < 8" for s
      using put ok that by (auto simp: regset_put_def set_flag_def members_const regset_defs nth_list_update split: if_splits)
    show "vregs rs' ! nat s \<longleftrightarrow> (False, s) \<in> ?S" if "0 \<le> s" "s < 8" for s
      using put ok that by (auto simp: regset_put_def set_flag_def members_var [OF ok] regset_defs nth_list_update split: if_splits)
    show "tregs rs' ! nat (s - 8) \<longleftrightarrow> (False, s) \<in> ?S" if "8 \<le> s" "s < 16" for s
      using put ok that by (auto simp: regset_put_def set_flag_def members_var [OF ok] regset_defs nth_list_update split: if_splits)
    show "0 \<le> s \<and> s < (if c then 8 else 16)" if "(c, s) \<in> ?S" for c s
      using that r members_range [OF ok, of c s] by (auto simp: reg_in_range_def split: if_splits)
  qed
  with put ok' show "\<exists>rs'. regset_put b rs tag reg = Some rs' \<and> regset_ok rs' \<and> members rs' = ?S" by blast
qed

lemma regset_diff_correct:
  assumes a: "regset_ok a" and b: "regset_ok b"
  shows "regset_ok (regset_diff a b) \<and> members (regset_diff a b) = members a - members b"
proof
  show ok: "regset_ok (regset_diff a b)" using a b by (simp add: regset_diff_def regset_defs)
  show "members (regset_diff a b) = members a - members b"
  proof (rule regset_eq_members [OF ok])
    show "0 \<le> r \<and> r < (if c then 8 else 16)" if "(c, r) \<in> members a - members b" for c r
      using that members_range [OF a] by blast
  qed (use a b in \<open>auto simp: regset_diff_def members_const members_var [OF a] members_var [OF b] regset_defs\<close>)
qed

lemma regset_union_correct:
  assumes a: "regset_ok a" and b: "regset_ok b"
  shows "regset_ok (regset_union a b) \<and> members (regset_union a b) = members a \<union> members b"
proof
  show ok: "regset_ok (regset_union a b)" using a b by (simp add: regset_union_def regset_defs)
  show "members (regset_union a b) = members a \<union> members b"
  proof (rule regset_eq_members [OF ok])
    show "0 \<le> r \<and> r < (if c then 8 else 16)" if "(c, r) \<in> members a \<union> members b" for c r
      using that members_range [OF a] members_range [OF b] by blast
  qed (use a b in \<open>auto simp: regset_union_def members_const members_var [OF a] members_var [OF b] regset_defs\<close>)
qed

lemma regset_find_unused_correct:
  assumes "regset_ok a" and "\<exists>r. 0 \<le> r \<and> r < 8 \<and> (True, r) \<notin> members a"
  shows "regset_find_unused a < 8 \<and> (True, int (regset_find_unused a)) \<notin> members a"
proof -
  obtain r where "0 \<le> r" "r < 8" "(True, r) \<notin> members a" using assms(2) by blast
  then have "False \<in> set (cregs a)" using assms(1) by (auto simp: members_const regset_defs in_set_conv_nth intro!: exI [of _ "nat r"])
  then obtain i where i: "index_from 0 False (cregs a) = Some i"
    by (cases "index_from 0 False (cregs a)") (auto simp: index_from_None)
  from index_from_Some [OF i] assms(1) i show ?thesis
    by (simp add: regset_find_unused_def members_const regset_defs)
qed

section \<open>Conflict pairs\<close>

type_synonym rname = "int \<times> tag_t"

definition conflict :: "nomatch_pair list \<Rightarrow> rname \<Rightarrow> rname \<Rightarrow> bool" where
  "conflict ps x y \<longleftrightarrow> (\<exists>p\<in>set ps. pair_matches p (fst x) (snd x) (fst y) (snd y))"

text \<open>No pair is listed twice, in either order.\<close>

definition pairs_ok :: "nomatch_pair list \<Rightarrow> bool" where
  "pairs_ok ps \<longleftrightarrow>
     sorted_wrt (\<lambda>p q. \<not> pair_matches p (np_reg1 q) (np_tag1 q) (np_reg2 q) (np_tag2 q)) ps"

definition small :: "int \<Rightarrow> bool" where "small r \<longleftrightarrow> - 128 \<le> r \<and> r < 128"

lemma as_char_small: "small r \<Longrightarrow> as_char r = r"
  by (simp add: as_char_def small_def sint_sbintrunc' signed_take_bit_int_eq_self)

lemma nomatch_pair_add_Some:
  assumes add: "nomatch_pair_add ps m a s b t = Some ps'" and sm: "small a" "small b"
  shows "conflict ps' x y \<longleftrightarrow> conflict ps x y \<or> {x, y} = {(a, s), (b, t)}"
    and "pairs_ok ps \<Longrightarrow> pairs_ok ps'" and "length ps' \<le> length ps + 1"
proof -
  have cases: "ps' = ps \<and> conflict ps (a, s) (b, t) \<or>
     ps' = ps @ [\<lparr>np_reg1 = a, np_reg2 = b, np_tag1 = s, np_tag2 = t\<rparr>] \<and> \<not> conflict ps (a, s) (b, t)"
    using add by (auto simp: nomatch_pair_add_def list_ex_iff conflict_def as_char_small sm split: if_splits)
  show "conflict ps' x y \<longleftrightarrow> conflict ps x y \<or> {x, y} = {(a, s), (b, t)}"
    using cases
  proof (elim disjE conjE)
    assume "ps' = ps" "conflict ps (a, s) (b, t)"
    moreover have "conflict ps (b, t) (a, s)" if "conflict ps (a, s) (b, t)"
      using that by (auto simp: conflict_def pair_matches_def)
    ultimately show ?thesis by (auto simp: doubleton_eq_iff)
  next
    assume "ps' = ps @ [\<lparr>np_reg1 = a, np_reg2 = b, np_tag1 = s, np_tag2 = t\<rparr>]"
    then have "conflict ps' x y \<longleftrightarrow> conflict ps x y \<or>
        pair_matches \<lparr>np_reg1 = a, np_reg2 = b, np_tag1 = s, np_tag2 = t\<rparr> (fst x) (snd x) (fst y) (snd y)"
      by (auto simp: conflict_def)
    also have "pair_matches \<lparr>np_reg1 = a, np_reg2 = b, np_tag1 = s, np_tag2 = t\<rparr> (fst x) (snd x) (fst y) (snd y) \<longleftrightarrow>
        {x, y} = {(a, s), (b, t)}"
      by (cases x, cases y) (simp add: pair_matches_def doubleton_eq_iff, blast)
    finally show ?thesis .
  qed
  show "length ps' \<le> length ps + 1" using cases by auto
  show "pairs_ok ps'" if "pairs_ok ps"
    using cases that by (auto simp: pairs_ok_def sorted_wrt_append conflict_def)
qed

lemma nomatch_pair_add_room: "length ps < m \<Longrightarrow> \<exists>ps'. nomatch_pair_add ps m a s b t = Some ps'"
  by (simp add: nomatch_pair_add_def)

lemma add_pairs_Some:
  assumes "add_pairs m i js ps = Some ps'" and "small i" and "\<forall>(j, t)\<in>set js. small j"
  shows "(conflict ps' x y \<longleftrightarrow> conflict ps x y \<or> (\<exists>(j, t)\<in>set js. {x, y} = {(i, tag_var), (j, t)})) \<and>
    (pairs_ok ps \<longrightarrow> pairs_ok ps') \<and> length ps' \<le> length ps + length js"
  using assms
proof (induction m i js ps rule: add_pairs.induct)
  case (2 m i j t js ps)
  then obtain ps1 where one: "nomatch_pair_add ps m i tag_var j t = Some ps1" and two: "add_pairs m i js ps1 = Some ps'"
    by (auto split: Option.bind_splits)
  from 2 two have IH: "(conflict ps' x y \<longleftrightarrow> conflict ps1 x y \<or> (\<exists>(j, t)\<in>set js. {x, y} = {(i, tag_var), (j, t)})) \<and>
    (pairs_ok ps1 \<longrightarrow> pairs_ok ps') \<and> length ps' \<le> length ps1 + length js"
    by (intro "2.IH" [OF one two]) auto
  have "small i" "small j" using 2 by auto
  from nomatch_pair_add_Some(1) [OF one this, of x y] nomatch_pair_add_Some(2,3) [OF one this] IH show ?case by auto
qed simp

lemma add_pairs_room:
  assumes "length ps + length js \<le> m"
  shows "\<exists>ps'. add_pairs m i js ps = Some ps' \<and> length ps' \<le> length ps + length js"
  using assms
proof (induction m i js ps rule: add_pairs.induct)
  case (2 m i j t js ps)
  then obtain ps1 where one: "nomatch_pair_add ps m i tag_var j t = Some ps1"
    using nomatch_pair_add_room [of ps m] by fastforce
  then have len: "length ps1 \<le> length ps + 1" by (auto simp: nomatch_pair_add_def split: if_splits)
  from "2.IH" [of ps1] "2.prems" one len show ?case by fastforce
qed simp

lemma output_pairs_Some:
  assumes "output_pairs m rs is ps = Some ps'" and "\<forall>i\<in>set is. small i \<and> (\<forall>(j, t)\<in>set (used_others rs i). small j)"
  shows "(conflict ps' x y \<longleftrightarrow> conflict ps x y \<or>
      (\<exists>i\<in>set is. \<exists>(j, t)\<in>set (used_others rs i). {x, y} = {(i, tag_var), (j, t)})) \<and>
    (pairs_ok ps \<longrightarrow> pairs_ok ps')"
  using assms
proof (induction m rs "is" ps rule: output_pairs.induct)
  case (2 m rs i "is" ps)
  then obtain ps1 where one: "add_pairs m i (used_others rs i) ps = Some ps1" and two: "output_pairs m rs is ps1 = Some ps'"
    by (auto split: Option.bind_splits)
  from 2 two have IH: "(conflict ps' x y \<longleftrightarrow> conflict ps1 x y \<or>
      (\<exists>i\<in>set is. \<exists>(j, t)\<in>set (used_others rs i). {x, y} = {(i, tag_var), (j, t)})) \<and>
    (pairs_ok ps1 \<longrightarrow> pairs_ok ps')"
    by (intro "2.IH" [OF one two]) auto
  from add_pairs_Some [OF one, of x y] IH 2 show ?case by auto
qed simp

lemma output_pairs_room:
  assumes "length ps + length is * u \<le> m" and "\<forall>i\<in>set is. length (used_others rs i) \<le> u"
  shows "\<exists>ps'. output_pairs m rs is ps = Some ps'"
  using assms
proof (induction m rs "is" ps rule: output_pairs.induct)
  case (2 m rs i "is" ps)
  then have "length ps + length (used_others rs i) \<le> m" by (auto simp: algebra_simps)
  from add_pairs_room [OF this, of i] obtain ps1 where one: "add_pairs m i (used_others rs i) ps = Some ps1"
    and len: "length ps1 \<le> length ps + length (used_others rs i)" by blast
  from 2 len have "length ps1 + length is * u \<le> m" by (auto simp: algebra_simps)
  with 2 one show ?case by auto
qed simp

text \<open>The registers of the loops in terms of the sets.\<close>

definition rname :: "bool \<times> int \<Rightarrow> rname" where
  "rname r = (snd r, if fst r then tag_const else tag_var)"

lemma set_marked: "set (marked xs) = {i. i < length xs \<and> xs ! i}"
  by (auto simp: marked_def)

lemma used_others_set: "set (used_others rs i) = rname ` (members rs - {(False, i)})"
  unfolding used_others_def members_def set_append set_map set_filter set_marked
  by (auto simp: rname_def image_iff Bex_def split_paired_Ex)

definition defined_vars :: "regset \<Rightarrow> int list" where
  "defined_vars rs = map int (marked (vregs rs)) @ map (\<lambda>i. int (TEMP_REG0 + i)) (marked (tregs rs))"

lemma set_defined_vars: "set (defined_vars rs) = {r. (False, r) \<in> members rs}"
  unfolding defined_vars_def members_def set_append set_map set_marked by auto

lemma distinct_marked: "distinct (marked xs)" by (simp add: marked_def)

lemma distinct_defined_vars: "regset_ok rs \<Longrightarrow> distinct (defined_vars rs)"
  by (auto simp: defined_vars_def distinct_marked distinct_map set_marked regset_defs inj_on_def)

lemma distinct_used_others: "regset_ok rs \<Longrightarrow> distinct (used_others rs i)"
  by (auto simp: used_others_def distinct_marked distinct_map set_marked regset_defs inj_on_def)

lemma finite_members: "finite (members rs)"
proof -
  have "finite {f i | i. i < (n :: nat) \<and> P i}" for f :: "nat \<Rightarrow> bool \<times> int" and n P
    by (rule finite_subset [of _ "f ` {..<n}"]) auto
  then show ?thesis unfolding members_def by simp
qed

lemma length_used_others: "regset_ok rs \<Longrightarrow> length (used_others rs i) \<le> card (members rs)"
proof -
  assume "regset_ok rs"
  then have "length (used_others rs i) = card (rname ` (members rs - {(False, i)}))"
    by (metis distinct_card distinct_used_others used_others_set)
  also have "\<dots> \<le> card (members rs - {(False, i)})" by (rule card_image_le) (simp add: finite_members)
  also have "\<dots> \<le> card (members rs)" by (rule card_mono) (auto simp: finite_members)
  finally show ?thesis .
qed

lemma members_small: "regset_ok a \<Longrightarrow> (b, r) \<in> members a \<Longrightarrow> small r"
  using members_range [of a b r] by (auto simp: small_def split: if_splits)

lemma loops_small:
  assumes "regset_ok idef" and "regset_ok use"
  shows "\<forall>i\<in>set (defined_vars idef). small i \<and> (\<forall>(j, t)\<in>set (used_others use i). small j)"
  unfolding set_defined_vars used_others_set using assms by (auto simp: rname_def intro: members_small)

section \<open>Properties\<close>

text \<open>
  A register set stands for a set of registers: clearing gives the empty set, marking and
  clearing a register in range insert and remove it (and a register out of range is a write
  outside the set), difference and union are those of sets, and \<^verbatim>\<open>regset_find_unused\<close> finds a
  machine register outside the set whenever there is one.
\<close>

theorem regset_operations_correct:
  assumes "regset_ok a" and "regset_ok b"
  shows "regset_ok regset_clear_all \<and> members regset_clear_all = {} \<and>
    (reg_in_range tag reg \<longrightarrow>
      (\<exists>a'. regset_mark a tag reg = Some a' \<and> regset_ok a' \<and> members a' = insert (tag = tag_const, reg) (members a)) \<and>
      (\<exists>a'. regset_clear a tag reg = Some a' \<and> regset_ok a' \<and> members a' = members a - {(tag = tag_const, reg)})) \<and>
    (\<not> reg_in_range tag reg \<longrightarrow> regset_mark a tag reg = None \<and> regset_clear a tag reg = None) \<and>
    regset_ok (regset_diff a b) \<and> members (regset_diff a b) = members a - members b \<and>
    regset_ok (regset_union a b) \<and> members (regset_union a b) = members a \<union> members b \<and>
    ((\<exists>r. 0 \<le> r \<and> r < 8 \<and> (True, r) \<notin> members a) \<longrightarrow>
      regset_find_unused a < 8 \<and> (True, int (regset_find_unused a)) \<notin> members a)"
proof (intro conjI impI)
  assume r: "reg_in_range tag reg"
  show "\<exists>a'. regset_mark a tag reg = Some a' \<and> regset_ok a' \<and> members a' = insert (tag = tag_const, reg) (members a)"
    using regset_put_correct(2) [OF assms(1) r, of True] by (simp add: regset_mark_def)
  show "\<exists>a'. regset_clear a tag reg = Some a' \<and> regset_ok a' \<and> members a' = members a - {(tag = tag_const, reg)}"
    using regset_put_correct(2) [OF assms(1) r, of False] by (simp add: regset_clear_def)
next
  assume r: "\<not> reg_in_range tag reg"
  show "regset_mark a tag reg = None" "regset_clear a tag reg = None"
    using regset_put_correct(1) [OF assms(1) r] by (simp_all add: regset_mark_def regset_clear_def)
next
  assume "\<exists>r. 0 \<le> r \<and> r < 8 \<and> (True, r) \<notin> members a"
  with assms(1) have "regset_find_unused a < 8 \<and> (True, int (regset_find_unused a)) \<notin> members a"
    by (rule regset_find_unused_correct)
  then show "regset_find_unused a < 8" "(True, int (regset_find_unused a)) \<notin> members a" by simp_all
qed (simp_all add: assms regset_clear_all_correct regset_diff_correct regset_union_correct)

theorem regset_operations_correct_witness:
  "\<exists>a. regset_mark regset_clear_all tag_var 9 = Some a \<and> members a = {(False, 9)}"
  using regset_operations_correct [of regset_clear_all regset_clear_all tag_var 9]
  by (auto simp: regset_clear_all_correct reg_in_range_def)

text \<open>
  When there is room, the conflict pairs computed from the variables and temporaries that
  an instruction defines and the registers that are used are, beside those listed before,
  exactly those of a defined variable and another used register; no pair is listed twice.
\<close>

theorem regset_output_nomatch_pairs_correct:
  assumes "regset_ok idef" and "regset_ok use"
    and "length ps + card {r. (False, r) \<in> members idef} * card (members use) \<le> max_pairs"
  shows "\<exists>ps'. regset_output_nomatch_pairs ps max_pairs idef use = Some ps' \<and>
    (pairs_ok ps \<longrightarrow> pairs_ok ps') \<and>
    (\<forall>x y. conflict ps' x y \<longleftrightarrow> conflict ps x y \<or>
       (\<exists>v u. (False, v) \<in> members idef \<and> u \<in> members use \<and> u \<noteq> (False, v) \<and> {x, y} = {(v, tag_var), rname u}))"
proof -
  have len: "length (defined_vars idef) = card {r. (False, r) \<in> members idef}"
    by (metis assms(1) distinct_card distinct_defined_vars set_defined_vars)
  obtain ps' where ps': "output_pairs max_pairs use (defined_vars idef) ps = Some ps'"
    using output_pairs_room [of ps "defined_vars idef" "card (members use)" max_pairs use]
      assms len length_used_others by auto
  have sm: "\<forall>i\<in>set (defined_vars idef). small i \<and> (\<forall>(j, t)\<in>set (used_others use i). small j)"
    by (rule loops_small [OF assms(1,2)])
  have "pairs_ok ps \<longrightarrow> pairs_ok ps'" using output_pairs_Some [OF ps' sm] by blast
  moreover have "conflict ps' x y \<longleftrightarrow> conflict ps x y \<or>
      (\<exists>i\<in>set (defined_vars idef). \<exists>w\<in>set (used_others use i). {x, y} = {(i, tag_var), w})" for x y
    using output_pairs_Some [OF ps' sm, of x y] by simp
  moreover have "(\<exists>i\<in>set (defined_vars idef). \<exists>w\<in>set (used_others use i). P i w) \<longleftrightarrow>
      (\<exists>v u. (False, v) \<in> members idef \<and> u \<in> members use \<and> u \<noteq> (False, v) \<and> P v (rname u))" for P
    unfolding set_defined_vars used_others_set by blast
  moreover have "regset_output_nomatch_pairs ps max_pairs idef use = Some ps'"
    using ps' by (simp add: regset_output_nomatch_pairs_def defined_vars_def)
  ultimately show ?thesis by (intro exI [of _ ps'] conjI allI) simp_all
qed

theorem regset_output_nomatch_pairs_correct_witness:
  "\<exists>ps'. regset_output_nomatch_pairs [] 32 regset_clear_all regset_clear_all = Some ps' \<and> pairs_ok ps'"
  using regset_output_nomatch_pairs_correct [of regset_clear_all regset_clear_all "[]" 32]
  by (auto simp: regset_clear_all_correct pairs_ok_def)

end
