(* ===== verification/Cpu_constraints.thy ===== *)
theory Cpu_constraints
  imports Utils
begin

text \<open>
  The modes of the processor under which a translation rule may be used, as a set of bits
  (\<^verbatim>\<open>peep/cpu_constraints.c\<close>), and its text form.
\<close>

unbundle bit_operations_syntax

definition CPU_CONSTRAINT_REAL :: u64 where "CPU_CONSTRAINT_REAL = push_bit 0 1"
definition CPU_CONSTRAINT_PROTECTED :: u64 where "CPU_CONSTRAINT_PROTECTED = push_bit 1 1"
definition CPU_CONSTRAINT_NO_EXCP :: u64 where "CPU_CONSTRAINT_NO_EXCP = push_bit 2 1"
definition CPU_CONSTRAINT_GPF :: u64 where "CPU_CONSTRAINT_GPF = push_bit 3 1"
definition CPU_CONSTRAINT_FORCED_CALLOUT :: u64 where "CPU_CONSTRAINT_FORCED_CALLOUT = push_bit 4 1"
definition CPU_CONSTRAINT_SIMULATE :: u64 where "CPU_CONSTRAINT_SIMULATE = push_bit 5 1"
definition CPU_CONSTRAINT_REMAPPED :: u64 where "CPU_CONSTRAINT_REMAPPED = push_bit 6 1"
definition DEFAULT_CPU_CONSTRAINTS :: u64 where
  "DEFAULT_CPU_CONSTRAINTS = CPU_CONSTRAINT_REAL OR CPU_CONSTRAINT_PROTECTED OR CPU_CONSTRAINT_NO_EXCP"

lemmas constraint_defs = CPU_CONSTRAINT_REAL_def CPU_CONSTRAINT_PROTECTED_def CPU_CONSTRAINT_NO_EXCP_def
  CPU_CONSTRAINT_GPF_def CPU_CONSTRAINT_FORCED_CALLOUT_def CPU_CONSTRAINT_SIMULATE_def
  CPU_CONSTRAINT_REMAPPED_def

definition constraint_bits :: "u64 list" where
  "constraint_bits =
     [CPU_CONSTRAINT_REAL, CPU_CONSTRAINT_PROTECTED, CPU_CONSTRAINT_NO_EXCP, CPU_CONSTRAINT_GPF,
      CPU_CONSTRAINT_FORCED_CALLOUT, CPU_CONSTRAINT_SIMULATE, CPU_CONSTRAINT_REMAPPED]"

text \<open>The name of a single bit; another value has none.\<close>

definition constraint_bit2str :: "u64 \<Rightarrow> string option" where
  "constraint_bit2str c =
     (if c = CPU_CONSTRAINT_REAL then Some ''real''
      else if c = CPU_CONSTRAINT_PROTECTED then Some ''protected''
      else if c = CPU_CONSTRAINT_NO_EXCP then Some ''no_excp''
      else if c = CPU_CONSTRAINT_GPF then Some ''gpf''
      else if c = CPU_CONSTRAINT_FORCED_CALLOUT then Some ''forced_callout''
      else if c = CPU_CONSTRAINT_SIMULATE then Some ''simulate''
      else if c = CPU_CONSTRAINT_REMAPPED then Some ''remapped''
      else None)"

text \<open>All names fit the buffer of the callers, of at least 80 bytes.\<close>

fun constraints2str_loop :: "u64 list \<Rightarrow> u64 \<Rightarrow> string" where
  "constraints2str_loop [] c = []"
| "constraints2str_loop (b # bs) c =
     (if c AND b \<noteq> 0 then '' '' @ the (constraint_bit2str b) else []) @ constraints2str_loop bs c"

definition cpu_constraints2str :: "u64 \<Rightarrow> string" where
  "cpu_constraints2str c = constraints2str_loop constraint_bits c"

fun add_constraint :: "string \<Rightarrow> u64 list \<Rightarrow> u64 \<Rightarrow> u64" where
  "add_constraint w [] c = c"
| "add_constraint w (b # bs) c =
     add_constraint w bs (if Some w = constraint_bit2str b then c OR b else c)"

lemma str2constraints_rest:
  assumes "dropWhile P s \<noteq> []"
  shows "length (dropWhile (\<lambda>x. \<not> P x) (dropWhile P s)) < length s"
proof -
  have "\<not> P (hd (dropWhile P s))" using assms by (rule hd_dropWhile)
  then have "length (dropWhile (\<lambda>x. \<not> P x) (dropWhile P s)) < length (dropWhile P s)"
    using assms by (cases "dropWhile P s") (auto simp: le_imp_less_Suc length_dropWhile_le)
  then show ?thesis using length_dropWhile_le [of P s] by linarith
qed

text \<open>
  Words are read with \<^verbatim>\<open>%s\<close> until there are none; one that does not fit the buffer of 32 bytes
  is \<open>None\<close>, an unknown one is reported and ignored.
\<close>

function str2constraints_loop :: "string \<Rightarrow> u64 \<Rightarrow> u64 option" where
  "str2constraints_loop ptr c =
     (let s = dropWhile (\<lambda>x. isspace (ch x)) ptr in
      if s = [] then Some c
      else
        let w = takeWhile (\<lambda>x. \<not> isspace (ch x)) s; rest = dropWhile (\<lambda>x. \<not> isspace (ch x)) s in
        if length w \<ge> 32 then None else str2constraints_loop rest (add_constraint w constraint_bits c))"
  by pat_completeness auto

termination
  by (relation "measure (\<lambda>(ptr, _). length ptr)")
    (use str2constraints_rest [of "\<lambda>x. isspace (ch x)"] in auto)

declare str2constraints_loop.simps [simp del]

definition str2cpu_constraints :: "string \<Rightarrow> u64 option" where
  "str2cpu_constraints buf = str2constraints_loop buf 0"

section \<open>Facts\<close>

definition spaced :: "string list \<Rightarrow> string" where
  "spaced ws = concat (map (\<lambda>w. CHR '' '' # w) ws)"

definition plain_word :: "string \<Rightarrow> bool" where
  "plain_word w \<longleftrightarrow> w \<noteq> [] \<and> length w < 32 \<and> (\<forall>x\<in>set w. \<not> isspace (ch x))"

lemma spaced_words:
  assumes "plain_word w"
  shows "dropWhile (\<lambda>x. isspace (ch x)) (w @ spaced ws) = w @ spaced ws"
    and "takeWhile (\<lambda>x. \<not> isspace (ch x)) (w @ spaced ws) = w"
    and "dropWhile (\<lambda>x. \<not> isspace (ch x)) (w @ spaced ws) = spaced ws"
proof -
  have sp: "isspace (ch (CHR '' ''))" by code_simp
  obtain x u where w: "w = x # u" "\<not> isspace (ch x)" using assms by (cases w) (auto simp: plain_word_def)
  then show "dropWhile (\<lambda>x. isspace (ch x)) (w @ spaced ws) = w @ spaced ws" by simp
  have "takeWhile (\<lambda>x. \<not> isspace (ch x)) (spaced ws) = []" "dropWhile (\<lambda>x. \<not> isspace (ch x)) (spaced ws) = spaced ws"
    using sp by (cases ws; simp add: spaced_def)+
  then show "takeWhile (\<lambda>x. \<not> isspace (ch x)) (w @ spaced ws) = w"
    "dropWhile (\<lambda>x. \<not> isspace (ch x)) (w @ spaced ws) = spaced ws"
    using assms by (simp_all add: takeWhile_append2 dropWhile_append2 plain_word_def)
qed

lemma str2constraints_spaced:
  "\<forall>w\<in>set ws. plain_word w \<Longrightarrow>
     str2constraints_loop (spaced ws) c = Some (fold (\<lambda>w. add_constraint w constraint_bits) ws c)"
proof (induction ws arbitrary: c)
  case Nil
  then show ?case by (subst str2constraints_loop.simps) (simp add: spaced_def)
next
  case (Cons w ws)
  have sp: "isspace (ch (CHR '' ''))" by code_simp
  have "spaced (w # ws) = CHR '' '' # w @ spaced ws" by (simp add: spaced_def)
  with Cons sp spaced_words [of w ws] show ?case
    by (subst str2constraints_loop.simps) (auto simp: plain_word_def Let_def)
qed

definition names_in :: "u64 list \<Rightarrow> u64 \<Rightarrow> string list" where
  "names_in bs c = map (\<lambda>b. the (constraint_bit2str b)) (filter (\<lambda>b. c AND b \<noteq> 0) bs)"

lemma constraints2str_spaced: "constraints2str_loop bs c = spaced (names_in bs c)"
  by (induction bs) (auto simp: names_in_def spaced_def)

lemma constraint_names_plain: "b \<in> set constraint_bits \<Longrightarrow> plain_word (the (constraint_bit2str b))"
proof -
  have "\<forall>b\<in>set constraint_bits. plain_word (the (constraint_bit2str b))"
    by code_simp
  then show "b \<in> set constraint_bits \<Longrightarrow> plain_word (the (constraint_bit2str b))" by blast
qed

lemma add_constraint_name:
  "b \<in> set constraint_bits \<Longrightarrow> add_constraint (the (constraint_bit2str b)) constraint_bits c = c OR b"
  unfolding constraint_bits_def
  by (auto simp: constraint_bit2str_def constraint_defs)

lemma fold_or: "fold (\<lambda>b c. c OR b) bs (c :: u64) = c OR fold (\<lambda>b c. c OR b) bs 0"
proof (induction bs arbitrary: c)
  case (Cons b bs)
  show ?case by (simp add: Cons [of "c OR b"] Cons [of b] or.assoc)
qed simp

lemma constraint_bits_eq: "constraint_bits = map (\<lambda>i. push_bit i 1) [0..<7]"
  by (simp add: constraint_bits_def constraint_defs upt_rec)

section \<open>Properties\<close>

text \<open>
  Printing a set of processor constraints and reading the text back gives the constraints
  that have names, the low seven bits; the words may be given in any order.
\<close>

theorem cpu_constraints_roundtrip:
  "str2cpu_constraints (cpu_constraints2str c) = Some (c AND 127)"
proof -
  let ?bs = "filter (\<lambda>b. c AND b \<noteq> 0) constraint_bits"
  have "\<forall>w\<in>set (names_in constraint_bits c). plain_word w"
    using constraint_names_plain by (auto simp: names_in_def)
  then have "str2cpu_constraints (cpu_constraints2str c)
      = Some (fold (\<lambda>w. add_constraint w constraint_bits) (names_in constraint_bits c) 0)"
    by (simp add: str2cpu_constraints_def cpu_constraints2str_def constraints2str_spaced str2constraints_spaced)
  also have "fold (\<lambda>w. add_constraint w constraint_bits) (names_in constraint_bits c) 0
      = fold (\<lambda>b c. c OR b) ?bs 0"
    unfolding names_in_def fold_map o_def
    by (rule fold_cong) (auto simp: add_constraint_name)
  also have "\<dots> = c AND 127"
  proof (rule bit_word_eqI)
    fix n :: nat
    assume "n < LENGTH(64)"
    have single: "c AND push_bit i 1 \<noteq> 0 \<longleftrightarrow> bit c i" if "i < 64" for i
      using that by (simp add: and_exp_eq_0_iff_not_bit push_bit_of_1)
    have "bit (fold (\<lambda>b c. c OR b) ?bs 0) n \<longleftrightarrow> (\<exists>b\<in>set ?bs. bit b n)"
    proof -
      have "bit (fold (\<lambda>b c. c OR b) bs (a :: u64)) n \<longleftrightarrow> bit a n \<or> (\<exists>b\<in>set bs. bit b n)" for bs a
        by (induction bs arbitrary: a) (auto simp: bit_simps)
      then show ?thesis by simp
    qed
    also have "\<dots> \<longleftrightarrow> (\<exists>i<7. bit c i \<and> bit (push_bit i 1 :: u64) n)"
      unfolding constraint_bits_eq using single by auto
    also have "\<dots> \<longleftrightarrow> n < 7 \<and> bit c n"
      using \<open>n < LENGTH(64)\<close> by (auto simp: push_bit_of_1 bit_exp_iff)
    also have "\<dots> \<longleftrightarrow> bit (c AND 127) n"
    proof -
      have "(127 :: u64) = mask 7" by (simp add: mask_eq_exp_minus_1)
      show ?thesis unfolding \<open>127 = mask 7\<close> using \<open>n < LENGTH(64)\<close> by (auto simp: bit_and_iff bit_mask_iff)
    qed
    finally show "bit (fold (\<lambda>b c. c OR b) ?bs 0) n \<longleftrightarrow> bit (c AND 127) n" .
  qed
  finally show ?thesis .
qed

end
