(* ===== verification/Insn.thy ===== *)
theory Insn
  imports Regset Assignments
begin

text \<open>
  Instructions (the second part of \<^verbatim>\<open>peep/insn.c\<close>): renaming of constants to variables, the
  classification of instructions by the name of their opcode and their operands, and the
  registers they use and define. A pointer to an operand of an instruction is its position;
  an instruction has three operands.
\<close>

abbreviation opn :: "insn \<Rightarrow> nat \<Rightarrow> operand" where
  "opn insn n \<equiv> i_op insn ! n"

section \<open>Dependence on control flow\<close>

definition insn_has_indirect_dependence :: "btmod_opctable \<Rightarrow> insn \<Rightarrow> bool" where
  "insn_has_indirect_dependence ot insn =
     (let opc = opctable_name ot (i_opc insn) in
      if starts opc ''ret'' then True
      else if otype (opn insn 0) = op_mem \<and> (starts opc ''call'' \<or> starts opc ''jmp'') then True
      else if starts opc ''j'' \<and> \<not> starts opc ''jmp'' then True
      else False)"

definition insn_has_direct_dependence :: "btmod_opctable \<Rightarrow> insn \<Rightarrow> bool" where
  "insn_has_direct_dependence ot insn =
     (let opc = opctable_name ot (i_opc insn) in
      otype (opn insn 0) = op_imm \<and> (starts opc ''call'' \<or> starts opc ''jmp''))"

definition insn_is_direct_call :: "btmod_opctable \<Rightarrow> insn \<Rightarrow> bool" where
  "insn_is_direct_call ot insn =
     (let opc = opctable_name ot (i_opc insn) in starts opc ''call'' \<and> otype (opn insn 0) = op_imm)"

definition insn_is_terminating :: "btmod_opctable \<Rightarrow> insn \<Rightarrow> bool" where
  "insn_is_terminating ot insn =
     (let opc = opctable_name ot (i_opc insn) in
      if char_at opc 0 = CHR ''j'' then True
      else if char_at opc 0 = CHR ''l'' \<and> char_at opc 1 = CHR ''j'' then True
      else if starts opc ''call'' then True
      else if starts opc ''lcall'' then True
      else if starts opc ''loop'' then True
      else if starts opc ''ret'' then True
      else if opc = ''retw'' \<or> opc = ''retl'' then True
      else if starts opc ''lret'' then True
      else if opc = ''iret'' then True
      else if opc = ''int'' then True
      else if opc = ''hlt'' then True
      else False)"

section \<open>Renaming constants\<close>

text \<open>The macro \<^verbatim>\<open>rename_constants_mem_field\<close>, for each field it is used with.\<close>

definition rename_seg_sel :: "operand \<Rightarrow> operand \<Rightarrow> operand \<Rightarrow> operand" where
  "rename_seg_sel var v op =
     (if operands_equal (scalar_operand op_seg 0 (of_int (seg_sel (omem op))) (mt_seg (omtag op))) v
      then op\<lparr>omem := set_seg_sel (int (val_seg var)) (omem op), omtag := (omtag op)\<lparr>mt_seg := otag var\<rparr>\<rparr>
      else op)"

definition rename_seg_desc :: "operand \<Rightarrow> operand \<Rightarrow> operand \<Rightarrow> operand" where
  "rename_seg_desc var v op =
     (if operands_equal (scalar_operand op_imm 0 (ucast (m_seg (omem op))) (mt_seg (omtag op))) v
      then op\<lparr>omem := (omem op)\<lparr>m_seg := ucast (view op_imm var)\<rparr>, omtag := (omtag op)\<lparr>mt_seg := otag var\<rparr>\<rparr>
      else op)"

definition rename_base :: "operand \<Rightarrow> operand \<Rightarrow> operand \<Rightarrow> operand" where
  "rename_base var v op =
     (if operands_equal (scalar_operand op_reg (m_addrsize (omem op)) (of_int (m_base (omem op))) (mt_base (omtag op))) v
      then op\<lparr>omem := (omem op)\<lparr>m_base := int (val_reg var)\<rparr>, omtag := (omtag op)\<lparr>mt_base := otag var\<rparr>\<rparr>
      else op)"

definition rename_index :: "operand \<Rightarrow> operand \<Rightarrow> operand \<Rightarrow> operand" where
  "rename_index var v op =
     (if operands_equal (scalar_operand op_reg (m_addrsize (omem op)) (of_int (m_index (omem op))) (mt_index (omtag op))) v
      then op\<lparr>omem := (omem op)\<lparr>m_index := int (val_reg var)\<rparr>, omtag := (omtag op)\<lparr>mt_index := otag var\<rparr>\<rparr>
      else op)"

definition rename_disp :: "operand \<Rightarrow> operand \<Rightarrow> operand \<Rightarrow> operand" where
  "rename_disp var v op =
     (if operands_equal (scalar_operand op_imm 0 (m_disp (omem op)) (mt_disp (omtag op))) v
      then op\<lparr>omem := (omem op)\<lparr>m_disp := view op_imm var\<rparr>, omtag := (omtag op)\<lparr>mt_disp := otag var\<rparr>\<rparr>
      else op)"

definition rename_operand :: "operand \<Rightarrow> operand \<Rightarrow> operand \<Rightarrow> operand" where
  "rename_operand var v op =
     (if otype op = op_mem then
        (let op = (if m_segtype (omem op) = segtype_sel then rename_seg_sel var v op else rename_seg_desc var v op);
             op = rename_base var v op;
             op = rename_index var v op
         in rename_disp var v op)
      else if otype op = op_reg \<and> otype v = op_reg then
        (if val_reg op = val_reg v \<and> otag op = tag_const then var\<lparr>osize := osize op\<rparr> else op)
      else if operands_equal op v then var else op)"

fun rename_loop :: "assignments \<Rightarrow> operand list \<Rightarrow> operand list" where
  "rename_loop [] ops = ops"
| "rename_loop ((var, v) # as) ops = rename_loop as (map (rename_operand var v) ops)"

definition insn_rename_constants :: "insn \<Rightarrow> assignments \<Rightarrow> insn" where
  "insn_rename_constants insn as = insn\<lparr>i_op := rename_loop as (i_op insn)\<rparr>"

section \<open>Classes of instructions\<close>

definition insn_is_indirect_jump :: "btmod_opctable \<Rightarrow> insn \<Rightarrow> bool" where
  "insn_is_indirect_jump ot insn =
     (opctable_name ot (i_opc insn) = ''jmp'' \<and> otype (opn insn 0) = op_mem)"

definition insn_is_string_op :: "btmod_opctable \<Rightarrow> insn \<Rightarrow> bool" where
  "insn_is_string_op ot insn =
     (let opc = opctable_name ot (i_opc insn) in
      opc = ''movs'' \<or> opc = ''cmps'' \<or> opc = ''stos'' \<or> opc = ''lods'' \<or> opc = ''scas'' \<or> opc = ''ins'' \<or>
      opc = ''outs'')"

definition insn_is_movs_or_cmps :: "btmod_opctable \<Rightarrow> insn \<Rightarrow> bool" where
  "insn_is_movs_or_cmps ot insn =
     (let opc = opctable_name ot (i_opc insn) in opc = ''movs'' \<or> opc = ''cmps'')"

definition insn_is_cmps_or_scas :: "btmod_opctable \<Rightarrow> insn \<Rightarrow> bool" where
  "insn_is_cmps_or_scas ot insn =
     (let opc = opctable_name ot (i_opc insn) in opc = ''cmps'' \<or> opc = ''scas'')"

definition insn_is_push :: "btmod_opctable \<Rightarrow> insn \<Rightarrow> bool" where
  "insn_is_push ot insn = starts (opctable_name ot (i_opc insn)) ''push''"

definition insn_is_pop :: "btmod_opctable \<Rightarrow> insn \<Rightarrow> bool" where
  "insn_is_pop ot insn = starts (opctable_name ot (i_opc insn)) ''pop''"

definition insn_is_sti :: "btmod_opctable \<Rightarrow> insn \<Rightarrow> bool" where
  "insn_is_sti ot insn = starts (opctable_name ot (i_opc insn)) ''sti''"

definition jmp_opcodes :: "string list" where
  "jmp_opcodes =
     [''jmp'', ''je'', ''jne'', ''jg'', ''jle'', ''jl'', ''jge'', ''ja'', ''jbe'', ''jb'', ''jae'', ''jo'',
      ''jno'', ''js'', ''jns'']"

definition insn_is_direct_jump :: "btmod_opctable \<Rightarrow> insn \<Rightarrow> bool" where
  "insn_is_direct_jump ot insn =
     list_ex (\<lambda>j. opctable_name ot (i_opc insn) = j \<and> otype (opn insn 0) = op_imm) jmp_opcodes"

definition insn_is_conditional_jump :: "btmod_opctable \<Rightarrow> insn \<Rightarrow> bool" where
  "insn_is_conditional_jump ot insn =
     (insn_is_direct_jump ot insn \<and> opctable_name ot (i_opc insn) \<noteq> ''jmp'')"

section \<open>Accesses\<close>

definition operand_is_mem16 :: "operand \<Rightarrow> bool" where
  "operand_is_mem16 op \<longleftrightarrow> otype op = op_mem \<and> m_addrsize (omem op) = 2"

definition operand_is_mem :: "operand \<Rightarrow> bool" where
  "operand_is_mem op \<longleftrightarrow> otype op = op_mem"

definition operand_is_prefix :: "operand \<Rightarrow> bool" where
  "operand_is_prefix op \<longleftrightarrow> otype op = op_prefix"

text \<open>
  The result and the two operand pointers of the caller afterwards; \<open>lea\<close> leaves the pointers
  as they are, and of three operands of the type the middle one is not reported.
\<close>

definition insn_accesses_op_type ::
    "btmod_opctable \<Rightarrow> insn \<Rightarrow> (operand \<Rightarrow> bool) \<Rightarrow> nat option \<times> nat option \<Rightarrow> bool \<times> nat option \<times> nat option" where
  "insn_accesses_op_type ot insn type_fn outs =
     (if opctable_name ot (i_opc insn) = ''lea'' then (False, outs)
      else
        let (ret, r1, r2) = (if type_fn (opn insn 0) then (True, Some 0, None) else (False, None, None));
            (ret, r1, r2) = (if type_fn (opn insn 1)
                             then (if r1 = None then (True, Some 1, r2) else (True, r1, Some 1))
                             else (ret, r1, r2));
            (ret, r1, r2) = (if type_fn (opn insn 2)
                             then (if r1 = None then (True, Some 2, r2) else (True, r1, Some 2))
                             else (ret, r1, r2))
        in (ret, r1, r2))"

definition insn_accesses_mem16 ::
    "btmod_opctable \<Rightarrow> insn \<Rightarrow> nat option \<times> nat option \<Rightarrow> bool \<times> nat option \<times> nat option" where
  "insn_accesses_mem16 ot insn outs = insn_accesses_op_type ot insn operand_is_mem16 outs"

definition insn_accesses_mem ::
    "btmod_opctable \<Rightarrow> insn \<Rightarrow> nat option \<times> nat option \<Rightarrow> bool \<times> nat option \<times> nat option" where
  "insn_accesses_mem ot insn outs = insn_accesses_op_type ot insn operand_is_mem outs"

definition insn_is_prefetch :: "btmod_opctable \<Rightarrow> insn \<Rightarrow> bool" where
  "insn_is_prefetch ot insn =
     (let opc = opctable_name ot (i_opc insn) in starts opc ''prefe'' \<or> starts opc ''invlpg'')"

definition insn_accesses_stack :: "btmod_opctable \<Rightarrow> insn \<Rightarrow> bool" where
  "insn_accesses_stack ot insn =
     (let opc = opctable_name ot (i_opc insn) in
      starts opc ''push'' \<or> starts opc ''pop'' \<or> opc = ''call'' \<or> opc = ''ret'' \<or> opc = ''lcall'' \<or>
      opc = ''lret'' \<or> opc = ''iret'')"

definition insn_has_prefix :: "btmod_opctable \<Rightarrow> insn \<Rightarrow> nat option" where
  "insn_has_prefix ot insn =
     (let (ret, r1, r2) = insn_accesses_op_type ot insn operand_is_prefix (None, None) in
      if ret then r1 else None)"

text \<open>\<^verbatim>\<open>(unsigned)-1\<close> for operands without a size of their own.\<close>

definition operand_get_size :: "operand \<Rightarrow> nat" where
  "operand_get_size op =
     (case otype op of op_reg \<Rightarrow> osize op | op_mem \<Rightarrow> osize op | _ \<Rightarrow> 2 ^ 32 - 1)"

definition insn_get_operand_size :: "insn \<Rightarrow> nat" where
  "insn_get_operand_size insn =
     min (min (min 8 (operand_get_size (opn insn 0))) (operand_get_size (opn insn 1))) (operand_get_size (opn insn 2))"

text \<open>Without a memory operand the code follows a pointer that is not set.\<close>

definition insn_get_addr_size :: "btmod_opctable \<Rightarrow> insn \<Rightarrow> nat option" where
  "insn_get_addr_size ot insn =
     (let (ret, r1, r2) = insn_accesses_mem ot insn (None, None) in
      map_option (\<lambda>j. m_addrsize (omem (opn insn j))) r1)"

section \<open>Registers used and defined\<close>

text \<open>The register of a constant one-byte operand is the one that holds the byte.\<close>

definition whole_reg :: "operand \<Rightarrow> int" where
  "whole_reg op =
     (if otag op = tag_const \<and> osize op = 1 then int (val_reg op mod 4) else int (val_reg op))"

definition mark_mem :: "operand \<Rightarrow> regset \<Rightarrow> regset option" where
  "mark_mem op use =
     do {
       use \<leftarrow> (if m_base (omem op) \<noteq> - 1 then regset_mark use (mt_base (omtag op)) (m_base (omem op)) else Some use);
       (if m_index (omem op) \<noteq> - 1 then regset_mark use (mt_index (omtag op)) (m_index (omem op)) else Some use)
     }"

fun usedef_loop :: "nat \<Rightarrow> operand list \<Rightarrow> regset \<Rightarrow> regset \<Rightarrow> (regset \<times> regset) option" where
  "usedef_loop i [] use def = Some (use, def)"
| "usedef_loop i (op # ops) use def =
     (if otype op = op_reg then
        (if i = 0 then do { def \<leftarrow> regset_mark def (otag op) (whole_reg op); usedef_loop (i + 1) ops use def }
         else do { use \<leftarrow> regset_mark use (otag op) (whole_reg op); usedef_loop (i + 1) ops use def })
      else if otype op = op_mem then do { use \<leftarrow> mark_mem op use; usedef_loop (i + 1) ops use def }
      else usedef_loop (i + 1) ops use def)"

definition insn_get_usedef :: "insn \<Rightarrow> (regset \<times> regset) option" where
  "insn_get_usedef insn = usedef_loop 0 (i_op insn) regset_clear_all regset_clear_all"

definition PREFIX_REPZ :: nat where "PREFIX_REPZ = 1"
definition PREFIX_REPNZ :: nat where "PREFIX_REPNZ = 2"

definition use_creg :: "nat \<Rightarrow> regset \<Rightarrow> regset" where
  "use_creg r use = use\<lparr>cregs := (cregs use)[r := True]\<rparr>"

definition is_rep_prefix :: "operand \<Rightarrow> bool" where
  "is_rep_prefix op \<longleftrightarrow> otype op = op_prefix \<and> (val_prefix op = PREFIX_REPZ \<or> val_prefix op = PREFIX_REPNZ)"

text \<open>The loop of \<^verbatim>\<open>__insn_get_usedef\<close>, which also counts the registers of repeat prefixes.\<close>

fun usedef_rep_loop :: "nat \<Rightarrow> operand list \<Rightarrow> regset \<Rightarrow> regset \<Rightarrow> (regset \<times> regset) option" where
  "usedef_rep_loop i [] use def = Some (use, def)"
| "usedef_rep_loop i (op # ops) use def =
     (if otype op = op_reg then
        (if i = 0 then do { def \<leftarrow> regset_mark def (otag op) (whole_reg op); usedef_rep_loop (i + 1) ops use def }
         else do { use \<leftarrow> regset_mark use (otag op) (whole_reg op); usedef_rep_loop (i + 1) ops use def })
      else if otype op = op_mem then do { use \<leftarrow> mark_mem op use; usedef_rep_loop (i + 1) ops use def }
      else if is_rep_prefix op then
        usedef_rep_loop (i + 1) ops (use_creg R_EDI (use_creg R_ESI (use_creg R_ECX use))) def
      else usedef_rep_loop (i + 1) ops use def)"

text \<open>The registers that an opcode uses without naming them.\<close>

definition implicit_uses :: "string \<Rightarrow> regset \<Rightarrow> regset" where
  "implicit_uses opc use =
     (if starts opc ''idiv'' \<or> starts opc ''imul'' \<or> starts opc ''div'' \<or> starts opc ''mul'' then
        use_creg R_EAX (use_creg R_EDX use)
      else if starts opc ''s'' then
        (let use = (if starts opc ''shrd'' \<or> starts opc ''shld'' then use_creg R_ECX use else use);
             use = (if starts opc ''sahf'' then use_creg R_EAX use else use)
         in if starts opc ''scas'' then use_creg R_EDI (use_creg R_EAX use) else use)
      else if starts opc ''cmpxchg8b'' then
        use_creg R_EDX (use_creg R_ECX (use_creg R_EBX (use_creg R_EAX use)))
      else if starts opc ''cmpxchg'' then use_creg R_EAX use
      else if starts opc ''xsave'' then use_creg R_EDX (use_creg R_EAX use)
      else use)"

definition insn_get_usedef_implicit :: "btmod_opctable \<Rightarrow> insn \<Rightarrow> (regset \<times> regset) option" where
  "insn_get_usedef_implicit ot insn =
     (let opc = opctable_name ot (i_opc insn) in
      do {
        (use, def) \<leftarrow> usedef_rep_loop 0 (i_op insn) regset_clear_all regset_clear_all;
        let use = implicit_uses opc use in
        Some (if \<not> starts opc ''mov'' \<and> \<not> starts opc ''lea''
              then use\<lparr>cregs := map2 (\<or>) (cregs use) (cregs def)\<rparr> else use, def)
      })"

section \<open>Flags\<close>

definition opcode_matches :: "string \<Rightarrow> string \<Rightarrow> bool" where
  "opcode_matches opc p = (case strstart opc p of None \<Rightarrow> False | Some rest \<Rightarrow> length rest \<le> 1)"

definition insn_sets_flags :: "btmod_opctable \<Rightarrow> insn \<Rightarrow> bool" where
  "insn_sets_flags ot insn =
     list_ex (opcode_matches (opctable_name ot (i_opc insn)))
       [''cmp'', ''cmpxchg'', ''test'', ''and'', ''or'', ''xor'', ''ret'', ''imul'', ''div'', ''sub'', ''scas'']"

definition insn_reads_flags :: "btmod_opctable \<Rightarrow> insn \<Rightarrow> bool" where
  "insn_reads_flags ot insn =
     (if list_ex (opcode_matches (opctable_name ot (i_opc insn)))
           [''mov'', ''xchg'', ''push'', ''pop'', ''cld'', ''call'', ''ret'', ''jmp'', ''shl'', ''shr'', ''sal'',
            ''sar'', ''inc'', ''dec'', ''add'', ''sub'', ''and'', ''or'', ''xor'', ''cmp'', ''test'', ''bt'',
            ''lea'', ''sti'', ''cli'', ''mfence'', ''sfence'', ''nop'', ''not'', ''cli'', ''sti'', ''imul'',
            ''div'', ''set'', ''scas'']
      then False
      else if insn_sets_flags ot insn then False else True)"

section \<open>Operands written\<close>

definition insn_is_indirect_branch :: "btmod_opctable \<Rightarrow> insn \<Rightarrow> bool" where
  "insn_is_indirect_branch ot insn =
     (let opc = opctable_name ot (i_opc insn) in starts opc ''jmp'' \<or> starts opc ''call'' \<or> starts opc ''ret'')"

definition insn_is_comparison :: "btmod_opctable \<Rightarrow> insn \<Rightarrow> bool" where
  "insn_is_comparison ot insn =
     (let opc = opctable_name ot (i_opc insn) in starts opc ''test'' \<or> starts opc ''cmp'')"

definition insn_is_nop :: "btmod_opctable \<Rightarrow> insn \<Rightarrow> bool" where
  "insn_is_nop ot insn =
     (let opc = opctable_name ot (i_opc insn) in
      if (starts opc ''xchg'' \<or> starts opc ''mov'') \<and> otype (opn insn 0) = op_reg \<and> otype (opn insn 1) = op_reg \<and>
         val_reg (opn insn 0) = val_reg (opn insn 1) \<and> osize (opn insn 0) = osize (opn insn 1) then True
      else opc = ''lea'')"

definition is_xor_to_zero :: "btmod_opctable \<Rightarrow> insn \<Rightarrow> bool" where
  "is_xor_to_zero ot insn =
     (let opc = opctable_name ot (i_opc insn) in
      starts opc ''xor'' \<and> otype (opn insn 0) = op_reg \<and> otype (opn insn 1) = op_reg \<and>
      otag (opn insn 0) = otag (opn insn 1) \<and> val_reg (opn insn 0) = val_reg (opn insn 1))"

definition writes_operand :: "btmod_opctable \<Rightarrow> insn \<Rightarrow> nat \<Rightarrow> bool" where
  "writes_operand ot insn n =
     (if n = 0 then
        (if insn_is_indirect_branch ot insn then False
         else if insn_is_comparison ot insn then False
         else if insn_is_nop ot insn then False
         else True)
      else if n = 1 then is_xor_to_zero ot insn \<or> starts (opctable_name ot (i_opc insn)) ''pop''
      else False)"

definition insn_has_rep_prefix :: "insn \<Rightarrow> bool" where
  "insn_has_rep_prefix insn = list_ex is_rep_prefix (i_op insn)"

definition insn_has_translation :: "btmod_opctable \<Rightarrow> insn \<Rightarrow> bool" where
  "insn_has_translation ot insn =
     (let name = opctable_name ot (i_opc insn) in
      if starts name ''outs'' then False else if starts name ''ins'' then False else True)"

fun opcode_size_loop :: "operand list \<Rightarrow> nat \<Rightarrow> nat" where
  "opcode_size_loop [] sz = sz"
| "opcode_size_loop (op # ops) sz =
     opcode_size_loop ops (if osize op > 0 \<and> sz > osize op then osize op else sz)"

definition get_opcode_size :: "btmod_opctable \<Rightarrow> insn \<Rightarrow> nat" where
  "get_opcode_size ot insn =
     (let sz = opcode_size_loop (i_op insn) 4; name = opctable_name ot (i_opc insn) in
      if sz \<noteq> 1 \<and> name \<noteq> [] \<and> char_at name (length name - 1) = CHR ''b'' then
        (if length name < 8 \<and> length name > 3 then 1
         else if starts name ''orb'' then 1
         else sz)
      else sz)"

definition insn_can_do_exception :: "btmod_opctable \<Rightarrow> insn \<Rightarrow> bool" where
  "insn_can_do_exception ot insn =
     (if insn_has_rep_prefix insn then \<not> starts (opctable_name ot (i_opc insn)) ''out''
      else
        case insn_accesses_mem ot insn (None, None) of
          (True, Some j, _) \<Rightarrow>
            (m_base (omem (opn insn j)) \<noteq> - 1 \<or> m_index (omem (opn insn j)) \<noteq> - 1) \<and>
            starts (opctable_name ot (i_opc insn)) ''mov''
        | _ \<Rightarrow> False)"

end
