(* ===== verification/Peep.thy ===== *)
theory Peep
  imports Insn Cpu_constraints Hash_Props
begin

text \<open>
  Matching an instruction against the templates of the peephole table and choosing the
  parameters of the code to generate (\<^verbatim>\<open>peep/peep.c\<close>). The entries of the table are produced by
  the generator of the build and are a parameter; the nodes of the hash table are the positions
  of the entries. A result \<open>None\<close> is an access outside an array or a value that is not set.
\<close>

section \<open>The table\<close>

record peep_entry =
  pe_tmpl :: "insn list"
  pe_label :: int
  pe_temporaries :: "tag_t list"
  pe_constraints :: u64
  pe_nomatch :: "nomatch_pair list"

text \<open>The numbers of the enumeration of operand types.\<close>

fun opertype_num :: "opertype \<Rightarrow> nat" where
  "opertype_num invalid = 0"
| "opertype_num op_reg = 1"
| "opertype_num op_seg = 2"
| "opertype_num op_mem = 3"
| "opertype_num op_imm = 4"
| "opertype_num op_pcrel = 5"
| "opertype_num op_cr = 6"
| "opertype_num op_db = 7"
| "opertype_num op_tr = 8"
| "opertype_num op_mmx = 9"
| "opertype_num op_xmm = 10"
| "opertype_num op_3dnow = 11"
| "opertype_num op_prefix = 12"
| "opertype_num op_st = 13"

definition hash_ops :: "operand list \<Rightarrow> u32" where
  "hash_ops ops = sum_list (map (\<lambda>op. of_nat (opertype_num (otype op)) * 487) ops)"

definition hash_insns :: "insn list \<Rightarrow> u32" where
  "hash_insns insns =
     of_nat (length insns) * 313 +
     sum_list (map (\<lambda>i. of_int (i_opc i) * 1601 + hash_ops (take 3 (i_op i))) insns)"

definition peep_entry_hash :: "peep_entry list \<Rightarrow> ptr \<Rightarrow> u32" where
  "peep_entry_hash entries e = hash_insns (pe_tmpl (entries ! e))"

text \<open>No two entries count as equal: all of them are kept.\<close>

definition peep_entry_equal :: "ptr \<Rightarrow> ptr \<Rightarrow> bool" where
  "peep_entry_equal ea eb = False"

fun peep_insert_loop :: "peep_entry list \<Rightarrow> (u32 \<Rightarrow> bool) \<Rightarrow> ptr list \<Rightarrow> hash \<Rightarrow> hash option" where
  "peep_insert_loop entries room [] h = Some h"
| "peep_insert_loop entries room (e # es) h =
     (case hash_insert (peep_entry_hash entries) peep_entry_equal room e h of
        None \<Rightarrow> None
      | Some (_, h) \<Rightarrow> peep_insert_loop entries room es h)"

text \<open>The result of the function and the table; \<open>allocated\<close> is the outcome of the allocation.\<close>

definition peep_init :: "peep_entry list \<Rightarrow> bool \<Rightarrow> (u32 \<Rightarrow> bool) \<Rightarrow> (bool \<times> hash) option" where
  "peep_init entries allocated room =
     (let peeptab_size = length entries;
          (ret, h) = hash_init_size allocated (of_nat (max 256 peeptab_size))
      in if \<not> ret then Some (False, h)
         else map_option (Pair True) (peep_insert_loop entries room [0..<peeptab_size] h))"

section \<open>Matching\<close>

text \<open>
  The matching functions return whether they match and the assignments, which they extend in
  place, also before a mismatch.
\<close>

type_synonym match = "(bool \<times> assignments) option"

text \<open>
  The macro \<^verbatim>\<open>mem_match\<close> for one field: its tag in the template, whether the field has the value
  of the template, whether it is an absent register, and the field of the template and of the
  operand as operands of their own. Variables are looked up in the assignments made before the
  memory operand and added to a list of their own.
\<close>

definition mem_match ::
    "assignments \<Rightarrow> tag_t \<Rightarrow> bool \<Rightarrow> bool \<Rightarrow> operand \<Rightarrow> operand \<Rightarrow> assignments \<Rightarrow> match" where
  "mem_match as ttag same absent templ op tmp =
     (if ttag = tag_const then Some (same, tmp)
      else if absent then Some (False, tmp)
      else
        case assignments_getval as templ of
          Some tmp_op \<Rightarrow> Some (operands_equal tmp_op op, tmp)
        | None \<Rightarrow>
            if \<not> assignment_is_coherent templ op then Some (False, tmp)
            else map_option (Pair True) (assignments_add tmp templ op))"

text \<open>Going on after a match only.\<close>

definition and_then :: "match \<Rightarrow> (assignments \<Rightarrow> match) \<Rightarrow> match" where
  "and_then m f = (case m of None \<Rightarrow> None | Some (False, as) \<Rightarrow> Some (False, as) | Some (True, as) \<Rightarrow> f as)"

text \<open>The fields as operands; the type is not \<open>op_imm\<close> where the size is that of addresses.\<close>

definition field_seg :: "operand \<Rightarrow> operand \<Rightarrow> operand" where
  "field_seg x op = scalar_operand op_seg (m_addrsize (omem op)) (of_int (seg_sel (omem x))) (mt_seg (omtag x))"
definition field_desc :: "operand \<Rightarrow> operand" where
  "field_desc x = scalar_operand op_imm 0 (ucast (m_seg (omem x))) (mt_seg (omtag x))"
definition field_base :: "operand \<Rightarrow> operand \<Rightarrow> operand" where
  "field_base x op = scalar_operand op_reg (m_addrsize (omem op)) (of_int (m_base (omem x))) (mt_base (omtag x))"
definition field_index :: "operand \<Rightarrow> operand \<Rightarrow> operand" where
  "field_index x op = scalar_operand op_reg (m_addrsize (omem op)) (of_int (m_index (omem x))) (mt_index (omtag x))"
definition field_disp :: "operand \<Rightarrow> operand" where
  "field_disp x = scalar_operand op_imm 0 (m_disp (omem x)) (mt_disp (omtag x))"

definition match_seg :: "operand \<Rightarrow> operand \<Rightarrow> assignments \<Rightarrow> assignments \<Rightarrow> match" where
  "match_seg op templ as tmp =
     (if m_segtype (omem op) = segtype_sel then
        mem_match as (mt_seg (omtag templ)) (seg_sel (omem op) = seg_sel (omem templ)) False
          (field_seg templ op) (field_seg op op) tmp
      else
        mem_match as (mt_seg (omtag templ)) (m_seg (omem op) = m_seg (omem templ)) False
          (field_desc templ) (field_desc op) tmp)"

definition match_base :: "operand \<Rightarrow> operand \<Rightarrow> assignments \<Rightarrow> assignments \<Rightarrow> match" where
  "match_base op templ as tmp =
     mem_match as (mt_base (omtag templ)) (m_base (omem op) = m_base (omem templ)) (m_base (omem op) = - 1)
       (field_base templ op) (field_base op op) tmp"

definition match_index :: "operand \<Rightarrow> operand \<Rightarrow> assignments \<Rightarrow> assignments \<Rightarrow> match" where
  "match_index op templ as tmp =
     mem_match as (mt_index (omtag templ)) (m_index (omem op) = m_index (omem templ)) (m_index (omem op) = - 1)
       (field_index templ op) (field_index op op) tmp"

definition match_disp :: "operand \<Rightarrow> operand \<Rightarrow> assignments \<Rightarrow> assignments \<Rightarrow> match" where
  "match_disp op templ as tmp =
     mem_match as (mt_disp (omtag templ)) (m_disp (omem op) = m_disp (omem templ)) False
       (field_disp templ) (field_disp op) tmp"

definition mem_operands_match :: "operand \<Rightarrow> operand \<Rightarrow> assignments \<Rightarrow> match" where
  "mem_operands_match op templ as =
     (if m_addrsize (omem op) \<noteq> m_addrsize (omem templ) then Some (False, as)
      else if m_segtype (omem op) \<noteq> m_segtype (omem templ) then Some (False, as)
      else
        case and_then (match_seg op templ as assignments_init) (\<lambda>tmp.
             and_then (match_base op templ as tmp) (\<lambda>tmp.
             and_then (match_index op templ as tmp) (\<lambda>tmp.
             if m_scale (omem templ) \<noteq> m_scale (omem op) then Some (False, tmp)
             else match_disp op templ as tmp))) of
          None \<Rightarrow> None
        | Some (False, _) \<Rightarrow> Some (False, as)
        | Some (True, tmp) \<Rightarrow> map_option (Pair True) (append_assignments as tmp))"

text \<open>
  A constant without a size matches a variable of any size it fits. A variable that has a value
  already never matches: when the value is the right one, the code reports that it cannot be
  there and answers no.
\<close>

definition operands_match :: "operand \<Rightarrow> operand \<Rightarrow> assignments \<Rightarrow> match" where
  "operands_match op templ as =
     (if otype op \<noteq> otype templ then Some (False, as)
      else if osize op \<noteq> osize templ \<and> osize op \<noteq> 0 then Some (False, as)
      else if osize op \<noteq> osize templ \<and> otype op = op_imm then
        (if osize templ \<ge> 8 then None
         else if view op_imm op < push_bit (osize templ * 8) 1 then map_option (Pair True) (assignments_add as templ op)
         else Some (False, as))
      else if otype op = invalid then Some (True, as)
      else if otag templ = tag_const then
        (if otype op \<noteq> op_mem then Some (operands_equal templ op, as)
         else mem_operands_match op templ as)
      else
        case assignments_getval as templ of
          Some tmp_op \<Rightarrow> Some (False, as)
        | None \<Rightarrow>
            if assignment_is_coherent templ op then map_option (Pair True) (assignments_add as templ op)
            else Some (False, as))"

fun operands_match_loop :: "operand list \<Rightarrow> operand list \<Rightarrow> assignments \<Rightarrow> match" where
  "operands_match_loop (op # ops) (t # ts) as = and_then (operands_match op t as) (operands_match_loop ops ts)"
| "operands_match_loop _ _ as = Some (True, as)"

definition templ_matches_insn :: "insn \<Rightarrow> insn \<Rightarrow> assignments \<Rightarrow> match" where
  "templ_matches_insn insn tmpl as =
     (if i_opc insn \<noteq> i_opc tmpl then Some (False, as)
      else operands_match_loop (take 3 (i_op insn)) (take 3 (i_op tmpl)) as)"

fun insns_match_loop :: "insn list \<Rightarrow> insn list \<Rightarrow> assignments \<Rightarrow> match" where
  "insns_match_loop (i # is) (t # ts) as = and_then (templ_matches_insn i t as) (insns_match_loop is ts)"
| "insns_match_loop _ _ as = Some (True, as)"

definition templ_matches_insns :: "insn list \<Rightarrow> insn list \<Rightarrow> match" where
  "templ_matches_insns insns templ =
     (if length insns \<noteq> length templ then Some (False, assignments_init)
      else insns_match_loop insns templ assignments_init)"

section \<open>Temporaries\<close>

text \<open>The other side of a pair that names the temporary; the second side is looked at last.\<close>

definition other_side :: "int \<Rightarrow> nomatch_pair \<Rightarrow> (int \<times> tag_t) option" where
  "other_side t p =
     (if np_reg2 p = t \<and> np_tag2 p = tag_var then Some (np_reg1 p, np_tag1 p)
      else if np_reg1 p = t \<and> np_tag1 p = tag_var then Some (np_reg2 p, np_tag2 p)
      else None)"

definition temp_assignment_violates_nomatch_pairs ::
    "nat \<Rightarrow> nat \<Rightarrow> assignments \<Rightarrow> nomatch_pair list \<Rightarrow> bool" where
  "temp_assignment_violates_nomatch_pairs tempno reg as pairs =
     list_ex (\<lambda>p.
       case other_side (int (TEMP_REG0 + tempno)) p of
         None \<Rightarrow> False
       | Some (otherval, othertag) \<Rightarrow>
           if otherval = - 1 then False
           else if othertag = tag_const then otherval = int reg
           else otherval < int TEMP_REG0 \<and>
                list_ex (\<lambda>r. otherval = int (val_reg (fst (as ! r))) \<and> reg = val_reg (snd (as ! r)))
                  (assignments_get_regs as)) pairs"

definition temp_candidate ::
    "nat \<Rightarrow> tag_t \<Rightarrow> assignments \<Rightarrow> nomatch_pair list \<Rightarrow> bool list \<Rightarrow> nat \<Rightarrow> bool" where
  "temp_candidate j tag as pairs temp_regs r \<longleftrightarrow>
     assignment_is_coherent (scalar_operand op_reg 4 0 tag) (scalar_operand op_reg 4 (of_nat r) tag_const) \<and>
     \<not> temp_regs ! r \<and> \<not> temp_assignment_violates_nomatch_pairs j r as pairs"

text \<open>The registers chosen so far, on failure those of the temporaries before it.\<close>

fun temp_loop ::
    "nat \<Rightarrow> tag_t list \<Rightarrow> assignments \<Rightarrow> nomatch_pair list \<Rightarrow> bool list \<Rightarrow> bool \<times> nat list" where
  "temp_loop j [] as pairs temp_regs = (True, [])"
| "temp_loop j (tag # tags) as pairs temp_regs =
     (case find (temp_candidate j tag as pairs temp_regs) (rev [0..<NUM_REGS]) of
        None \<Rightarrow> (False, [])
      | Some r \<Rightarrow>
          let (ok, rs) = temp_loop (j + 1) tags as pairs (temp_regs[r := True]) in (ok, r # rs))"

definition find_temporary_regs :: "tag_t list \<Rightarrow> assignments \<Rightarrow> nomatch_pair list \<Rightarrow> bool \<times> nat list" where
  "find_temporary_regs tags as pairs = temp_loop 0 tags as pairs (replicate NUM_REGS False)"

section \<open>Choosing a rule\<close>

text \<open>\<^verbatim>\<open>mode_translate\<close> copies the bytes of an instruction.\<close>

definition mode_translate :: "(u32 \<Rightarrow> u8) \<Rightarrow> u32 \<Rightarrow> nat \<Rightarrow> u8 list" where
  "mode_translate mem p n = map (\<lambda>i. mem (p + of_nat i)) [0..<n]"

fun param_values :: "assignments \<Rightarrow> int list option" where
  "param_values [] = Some []"
| "param_values ((var, v) # as) =
     do { x \<leftarrow> operand_get_value v; xs \<leftarrow> param_values as; Some (x # xs) }"

definition CONSTRAINTS :: u64 where
  "CONSTRAINTS = CPU_CONSTRAINT_NO_EXCP OR CPU_CONSTRAINT_PROTECTED"

text \<open>
  The label and the parameters for the code generator, or no rule. When there are not enough
  registers the code reports it and uses registers that are not set.
\<close>

fun peep_search :: "peep_entry list \<Rightarrow> insn list \<Rightarrow> ptr list \<Rightarrow> (int \<times> int list) option option" where
  "peep_search entries insns [] = Some None"
| "peep_search entries insns (e # es) =
     (let entry = entries ! e in
      if CONSTRAINTS AND pe_constraints entry \<noteq> CONSTRAINTS then peep_search entries insns es
      else
        case templ_matches_insns insns (pe_tmpl entry) of
          None \<Rightarrow> None
        | Some (False, _) \<Rightarrow> peep_search entries insns es
        | Some (True, as) \<Rightarrow>
            do {
              params \<leftarrow> param_values as;
              let (ok, temporaries) = find_temporary_regs (pe_temporaries entry) as (pe_nomatch entry) in
              if ok then Some (Some (pe_label entry, params @ map int temporaries)) else None
            })"

definition peep_rule :: "peep_entry list \<Rightarrow> hash \<Rightarrow> insn list \<Rightarrow> (int \<times> int list) option option" where
  "peep_rule entries h insns =
     peep_search entries insns (hash_find_bucket_with_hash h (hash_insns insns))"

end
