(* ===== verification/Peep_Spec.thy ===== *)
theory Peep_Spec
  imports Peep Regset_Props
begin

text \<open>
  What matching means: an instruction is the instance of a template under the assignments that
  the match leaves, and the assignments respect the tags of the variables. The table of rules is
  searched completely, and the temporaries of a rule get registers of their own.
\<close>

section \<open>Instances\<close>

text \<open>The assignments give the variable \<open>t\<close> the value of the operand \<open>op\<close>.\<close>

definition binds :: "assignments \<Rightarrow> operand \<Rightarrow> operand \<Rightarrow> bool" where
  "binds as t op \<longleftrightarrow>
     (\<exists>(var, v)\<in>set as. otype var = otype t \<and> view (otype t) var = view (otype t) t \<and>
        otype v = otype op \<and> view (otype op) v = view (otype op) op)"

lemma binds_mono: "binds as t op \<Longrightarrow> binds (as @ bs) t op"
  by (auto simp: binds_def)

lemma binds_append: "binds bs t op \<Longrightarrow> binds (as @ bs) t op"
  by (auto simp: binds_def)

text \<open>A field of a memory operand is the constant of the template or bound to its variable.\<close>

definition field_ok :: "assignments \<Rightarrow> tag_t \<Rightarrow> bool \<Rightarrow> operand \<Rightarrow> operand \<Rightarrow> bool" where
  "field_ok as ttag same t op \<longleftrightarrow> (if ttag = tag_const then same else binds as t op)"

definition mem_instance :: "assignments \<Rightarrow> operand \<Rightarrow> operand \<Rightarrow> bool" where
  "mem_instance as t op \<longleftrightarrow>
     m_addrsize (omem op) = m_addrsize (omem t) \<and> m_segtype (omem op) = m_segtype (omem t) \<and>
     m_scale (omem op) = m_scale (omem t) \<and>
     (if m_segtype (omem op) = segtype_sel
      then field_ok as (mt_seg (omtag t)) (seg_sel (omem op) = seg_sel (omem t)) (field_seg t op) (field_seg op op)
      else field_ok as (mt_seg (omtag t)) (m_seg (omem op) = m_seg (omem t)) (field_desc t) (field_desc op)) \<and>
     field_ok as (mt_base (omtag t)) (m_base (omem op) = m_base (omem t)) (field_base t op) (field_base op op) \<and>
     (mt_base (omtag t) \<noteq> tag_const \<longrightarrow> m_base (omem op) \<noteq> - 1) \<and>
     field_ok as (mt_index (omtag t)) (m_index (omem op) = m_index (omem t)) (field_index t op) (field_index op op) \<and>
     (mt_index (omtag t) \<noteq> tag_const \<longrightarrow> m_index (omem op) \<noteq> - 1) \<and>
     field_ok as (mt_disp (omtag t)) (m_disp (omem op) = m_disp (omem t)) (field_disp t) (field_disp op)"

definition op_instance :: "assignments \<Rightarrow> operand \<Rightarrow> operand \<Rightarrow> bool" where
  "op_instance as t op \<longleftrightarrow>
     otype op = otype t \<and>
     (if osize op \<noteq> osize t \<and> otype op = op_imm
      then osize op = 0 \<and> view op_imm op < push_bit (osize t * 8) 1 \<and> binds as t op
      else if otype op = invalid then True
      else if otag t \<noteq> tag_const then binds as t op
      else if otype op = op_mem then mem_instance as t op
      else operands_equal t op)"

definition insn_instance :: "assignments \<Rightarrow> insn \<Rightarrow> insn \<Rightarrow> bool" where
  "insn_instance as t i \<longleftrightarrow>
     i_opc i = i_opc t \<and> list_all2 (op_instance as) (take 3 (i_op t)) (take 3 (i_op i))"

lemma field_ok_mono: "field_ok as tg same t op \<Longrightarrow> field_ok (as @ bs) tg same t op"
  by (auto simp: field_ok_def intro: binds_mono)

lemma field_ok_append: "field_ok bs tg same t op \<Longrightarrow> field_ok (as @ bs) tg same t op"
  by (auto simp: field_ok_def intro: binds_append)

lemma op_instance_mono: "op_instance as t op \<Longrightarrow> op_instance (as @ bs) t op"
  unfolding op_instance_def mem_instance_def by (auto intro: binds_mono field_ok_mono split: if_splits)

lemma insn_instance_mono: "insn_instance as t i \<Longrightarrow> insn_instance (as @ bs) t i"
  unfolding insn_instance_def using op_instance_mono by (metis list_all2_mono)

section \<open>Soundness of a match\<close>

lemma view_set_view [simp]: "view t (set_view t v op) = take_bit (val_bits t) v"
  by (simp add: view_def set_view_def)

lemma set_view_fields [simp]:
  "otype (set_view t v op) = otype op" "osize (set_view t v op) = osize op" "otag (set_view t v op) = otag op"
  by (simp_all add: set_view_def)

lemma view_size [simp]: "view t (op\<lparr>osize := n\<rparr>) = view t op"
  by (simp add: view_def)

lemma view_scalar: "view t (scalar_operand t sz v tag) = take_bit (val_bits t) v"
  by (simp add: scalar_operand_def)

lemma val_reg_scalar: "r < 16 \<Longrightarrow> val_reg (scalar_operand op_reg sz (of_nat r) tag) = r"
  by (simp add: val_reg_def view_scalar val_bits_def take_bit_of_nat take_bit_nat_eq_self unsigned_of_nat)

text \<open>An assignment that is found binds, and one that is added does.\<close>

lemma operands_equal_view:
  "operands_equal a b \<Longrightarrow> otype a \<noteq> op_mem \<Longrightarrow> otype a \<noteq> invalid \<Longrightarrow>
     otype a = otype b \<and> view (otype a) a = view (otype a) b"
  by (cases "otype a") (auto simp: operands_equal_def split: if_splits)

lemma val_reg_eq: "val_reg a = val_reg b \<longleftrightarrow> view op_reg a = view op_reg b"
  by (simp add: val_reg_def unsigned_word_eqI word_unat_eq_iff)

lemma getval_binds:
  assumes "assignments_getval as t = Some x" and "operands_equal x op"
    and "otype t \<noteq> op_mem" "otype t \<noteq> invalid" "otype op \<noteq> op_mem" "otype op \<noteq> invalid"
  shows "binds as t op"
  using assms(1,2)
proof (induction as)
  case (Cons p as)
  obtain var v where p: "p = (var, v)" by (cases p)
  consider (eq) "operands_equal var t" "x = v"
    | (reg) "\<not> operands_equal var t" "otype t = op_reg" "otype var = op_reg" "val_reg t = val_reg var"
        "x = v\<lparr>osize := osize t\<rparr>"
    | (rest) "assignments_getval as t = Some x"
    using Cons.prems(1) unfolding p
    by (cases "operands_equal var t"; cases "otype t = op_reg \<and> otype var = op_reg \<and> val_reg t = val_reg var") auto
  then show ?case
  proof cases
    case eq
    then have ne: "otype var \<noteq> op_mem" "otype var \<noteq> invalid" "otype x \<noteq> op_mem" "otype x \<noteq> invalid"
      using assms Cons.prems by (auto simp: operands_equal_def split: if_splits)
    from operands_equal_view [OF eq(1) ne(1,2)] operands_equal_view [OF Cons.prems(2) ne(3,4)] eq p
    show ?thesis by (auto simp: binds_def)
  next
    case reg
    have "otype x \<noteq> op_mem" "otype x \<noteq> invalid" using assms Cons.prems by (auto simp: operands_equal_def split: if_splits)
    from operands_equal_view [OF Cons.prems(2) this] reg p show ?thesis
      by (auto simp: binds_def val_reg_eq)
  next
    case rest
    with Cons show ?thesis by (auto simp: binds_def)
  qed
qed simp

lemma add_binds:
  assumes "assignments_add as t op = Some as'"
  shows "binds as' t op" and "\<exists>bs. as' = as @ bs"
    and "assignments_are_coherent as \<Longrightarrow> assignment_is_coherent t op \<Longrightarrow> assignments_are_coherent as'"
  using assms by (auto simp: assignments_add_def binds_def assignments_are_coherent_def assignment_is_coherent_def
      val_reg_def val_seg_def split: if_splits opertype.splits)

lemma mem_match_sound:
  assumes "mem_match as tg same absent t op tmp = Some (True, tmp')"
    and "otype t \<noteq> op_mem" "otype t \<noteq> invalid" "otype op \<noteq> op_mem" "otype op \<noteq> invalid"
  shows "field_ok (as @ tmp') tg same t op \<and> (\<exists>bs. tmp' = tmp @ bs) \<and> (tg \<noteq> tag_const \<longrightarrow> \<not> absent) \<and>
    (assignments_are_coherent tmp \<longrightarrow> assignments_are_coherent tmp')"
proof (cases "tg = tag_const")
  case True
  with assms(1) show ?thesis by (auto simp: mem_match_def field_ok_def)
next
  case False
  then have absent: "\<not> absent" using assms(1) by (auto simp: mem_match_def split: if_splits)
  show ?thesis
  proof (cases "assignments_getval as t")
    case None
    with assms(1) False absent have "assignments_add tmp t op = Some tmp'" "assignment_is_coherent t op"
      by (auto simp: mem_match_def split: if_splits)
    with add_binds [OF this(1)] False absent show ?thesis by (auto simp: field_ok_def intro: binds_append)
  next
    case (Some x)
    with assms(1) False absent have "operands_equal x op" "tmp' = tmp" by (auto simp: mem_match_def)
    with getval_binds [OF Some _ assms(2-5)] False absent show ?thesis by (auto simp: field_ok_def intro: binds_mono)
  qed
qed

lemma and_then_True: "and_then m f = Some (True, r) \<longleftrightarrow> (\<exists>as. m = Some (True, as) \<and> f as = Some (True, r))"
  by (auto simp: and_then_def split: option.splits bool.splits prod.splits)

lemma field_types [simp]:
  "otype (field_seg x op) = op_seg" "otype (field_desc x) = op_imm" "otype (field_base x op) = op_reg"
  "otype (field_index x op) = op_reg" "otype (field_disp x) = op_imm"
  by (simp_all add: field_seg_def field_desc_def field_base_def field_index_def field_disp_def scalar_operand_def)

lemma field_ok_later: "field_ok (as @ tmp) tg same t op \<Longrightarrow> field_ok (as @ tmp @ bs) tg same t op"
  using field_ok_mono [of "as @ tmp"] by simp

lemma mem_operands_match_sound:
  assumes "mem_operands_match op t as = Some (True, as')"
  shows "mem_instance as' t op \<and> (\<exists>bs. as' = as @ bs) \<and>
    (assignments_are_coherent as \<longrightarrow> assignments_are_coherent as')"
proof -
  have sizes: "m_addrsize (omem op) = m_addrsize (omem t)" "m_segtype (omem op) = m_segtype (omem t)"
    using assms by (auto simp: mem_operands_match_def split: if_splits)
  obtain t1 t2 t3 t4 where seg: "match_seg op t as assignments_init = Some (True, t1)"
    and base: "match_base op t as t1 = Some (True, t2)" and index: "match_index op t as t2 = Some (True, t3)"
    and scale: "m_scale (omem t) = m_scale (omem op)" and disp: "match_disp op t as t3 = Some (True, t4)"
    and app: "append_assignments as t4 = Some as'"
    using assms sizes
    by (auto simp: mem_operands_match_def and_then_True split: option.splits bool.splits prod.splits if_splits)
  have as': "as' = as @ t4" using app by (auto simp: append_assignments_def split: if_splits)
  let ?seg = "\<lambda>as. if m_segtype (omem op) = segtype_sel
      then field_ok as (mt_seg (omtag t)) (seg_sel (omem op) = seg_sel (omem t)) (field_seg t op) (field_seg op op)
      else field_ok as (mt_seg (omtag t)) (m_seg (omem op) = m_seg (omem t)) (field_desc t) (field_desc op)"
  have 1: "?seg (as @ t1) \<and> assignments_are_coherent t1"
    using seg mem_match_sound [of as "mt_seg (omtag t)" _ False "field_seg t op" "field_seg op op" assignments_init t1]
      mem_match_sound [of as "mt_seg (omtag t)" _ False "field_desc t" "field_desc op" assignments_init t1]
    by (auto simp: match_seg_def assignments_init_def assignments_are_coherent_def split: if_splits)
  note 2 = mem_match_sound [OF base [unfolded match_base_def], simplified]
  note 3 = mem_match_sound [OF index [unfolded match_index_def], simplified]
  note 4 = mem_match_sound [OF disp [unfolded match_disp_def], simplified]
  obtain b2 b3 b4 where b: "t2 = t1 @ b2" "t3 = t2 @ b3" "t4 = t3 @ b4" using 2 3 4 by blast
  have "?seg as'" using 1 field_ok_later [of as t1 _ _ _ _ "b2 @ b3 @ b4"] b as' by auto
  moreover have "field_ok as' (mt_base (omtag t)) (m_base (omem op) = m_base (omem t)) (field_base t op) (field_base op op)"
    using 2 field_ok_later [of as t2 _ _ _ _ "b3 @ b4"] b as' by auto
  moreover have "field_ok as' (mt_index (omtag t)) (m_index (omem op) = m_index (omem t)) (field_index t op) (field_index op op)"
    using 3 field_ok_later [of as t3 _ _ _ _ "b4"] b as' by auto
  ultimately show ?thesis
    using 1 2 3 4 as' scale sizes unfolding mem_instance_def assignments_are_coherent_def by auto
qed

lemma coherent_imm: "otype t = op_imm \<Longrightarrow> assignment_is_coherent t op"
  by (simp add: assignment_is_coherent_def)

lemma operands_match_sound:
  assumes "operands_match op t as = Some (True, as')"
  shows "op_instance as' t op \<and> (\<exists>bs. as' = as @ bs) \<and>
    (assignments_are_coherent as \<longrightarrow> assignments_are_coherent as')"
proof -
  have ty: "otype op = otype t" using assms by (auto simp: operands_match_def split: if_splits)
  consider (imm) "osize op \<noteq> osize t" "otype op = op_imm" "osize op = 0"
      "view op_imm op < push_bit (osize t * 8) 1" "assignments_add as t op = Some as'"
    | (invalid) "otype op = invalid" "as' = as"
    | (mem) "otype op = op_mem" "otag t = tag_const" "mem_operands_match op t as = Some (True, as')"
    | (const) "otype op \<noteq> op_mem" "otype op \<noteq> invalid" "otag t = tag_const" "operands_equal t op" "as' = as"
        "\<not> (osize op \<noteq> osize t \<and> otype op = op_imm)"
    | (var) "otag t \<noteq> tag_const" "otype op \<noteq> invalid" "assignment_is_coherent t op" "assignments_add as t op = Some as'"
        "\<not> (osize op \<noteq> osize t \<and> otype op = op_imm)"
    using assms by (auto simp: operands_match_def split: if_splits option.splits)
  then show ?thesis
  proof cases
    case imm
    with add_binds [OF imm(5)] ty show ?thesis by (auto simp: op_instance_def coherent_imm)
  next
    case mem
    with mem_operands_match_sound [OF mem(3)] ty show ?thesis by (auto simp: op_instance_def)
  next
    case var
    with add_binds [OF var(4)] ty show ?thesis by (auto simp: op_instance_def)
  qed (use ty in \<open>auto simp: op_instance_def\<close>)
qed

lemma operands_match_loop_sound:
  assumes "operands_match_loop ops ts as = Some (True, as')" and "length ops = length ts"
  shows "list_all2 (op_instance as') ts ops \<and> (\<exists>bs. as' = as @ bs) \<and>
    (assignments_are_coherent as \<longrightarrow> assignments_are_coherent as')"
  using assms
proof (induction ops ts as rule: operands_match_loop.induct)
  case (1 op ops t ts as)
  then obtain as1 where one: "operands_match op t as = Some (True, as1)" and two: "operands_match_loop ops ts as1 = Some (True, as')"
    by (auto simp: and_then_True)
  note IH = "1.IH" [OF two]
  note s = operands_match_sound [OF one]
  obtain bs where bs: "as' = as1 @ bs" using IH "1.prems" by auto
  show ?case using s IH "1.prems" op_instance_mono [of as1 t op bs] bs by auto
qed auto

end
