(* ===== verification/Peep_Props.thy ===== *)
theory Peep_Props
  imports Peep_Spec
begin

text \<open>
  Properties of the peephole rules: soundness of matching, completeness of the search through
  the hash table, and the choice of registers for temporaries.
\<close>

section \<open>Whole sequences\<close>

definition three_ops :: "insn list \<Rightarrow> bool" where
  "three_ops is \<longleftrightarrow> (\<forall>i\<in>set is. length (i_op i) = 3)"

lemma insns_match_loop_sound:
  assumes "insns_match_loop is ts as = Some (True, as')" and "length is = length ts" and "three_ops is" "three_ops ts"
  shows "list_all2 (insn_instance as') ts is \<and> (\<exists>bs. as' = as @ bs) \<and>
    (assignments_are_coherent as \<longrightarrow> assignments_are_coherent as')"
  using assms
proof (induction "is" ts as rule: insns_match_loop.induct)
  case (1 i "is" t ts as)
  then obtain as1 where one: "templ_matches_insn i t as = Some (True, as1)" and two: "insns_match_loop is ts as1 = Some (True, as')"
    by (auto simp: and_then_True)
  have opc: "i_opc i = i_opc t" and loop: "operands_match_loop (take 3 (i_op i)) (take 3 (i_op t)) as = Some (True, as1)"
    using one by (auto simp: templ_matches_insn_def split: if_splits)
  have len: "length (take 3 (i_op i)) = length (take 3 (i_op t))" using "1.prems" by (simp add: three_ops_def)
  note s = operands_match_loop_sound [OF loop len]
  note IH = "1.IH" [OF two]
  obtain bs where bs: "as' = as1 @ bs" using IH "1.prems" by (auto simp: three_ops_def)
  have "insn_instance as1 t i" using s opc by (simp add: insn_instance_def)
  then have "insn_instance as' t i" unfolding bs by (rule insn_instance_mono)
  then show ?case using s IH "1.prems" by (auto simp: three_ops_def)
qed auto

lemma templ_matches_insns_sound:
  assumes "templ_matches_insns is ts = Some (True, as)" and "three_ops is" "three_ops ts"
  shows "list_all2 (insn_instance as) ts is \<and> assignments_are_coherent as"
proof -
  have len: "length is = length ts" and loop: "insns_match_loop is ts [] = Some (True, as)"
    using assms(1) by (auto simp: templ_matches_insns_def assignments_init_def split: if_splits)
  show ?thesis using insns_match_loop_sound [OF loop len assms(2,3)] by (simp add: assignments_are_coherent_def)
qed

text \<open>An instance has the hash of its template.\<close>

lemma op_instance_otype: "op_instance as t op \<Longrightarrow> otype op = otype t" by (simp add: op_instance_def)

lemma hash_ops_instance: "list_all2 (op_instance as) ts ops \<Longrightarrow> hash_ops ops = hash_ops ts"
  by (induction rule: list_all2_induct) (auto simp: hash_ops_def dest: op_instance_otype)

lemma hash_insns_instance: "list_all2 (insn_instance as) ts is \<Longrightarrow> hash_insns is = hash_insns ts"
proof -
  assume a: "list_all2 (insn_instance as) ts is"
  then have "length is = length ts" by (simp add: list_all2_lengthD)
  moreover have "sum_list (map (\<lambda>i. of_int (i_opc i) * 1601 + hash_ops (take 3 (i_op i))) is) =
      (sum_list (map (\<lambda>i. of_int (i_opc i) * 1601 + hash_ops (take 3 (i_op i))) ts) :: u32)"
    using a by (induction rule: list_all2_induct) (auto simp: insn_instance_def dest: hash_ops_instance)
  ultimately show ?thesis by (simp add: hash_insns_def)
qed

section \<open>The table\<close>

lemma hash_insert_always:
  assumes "placed hf h"
  shows "\<exists>h'. hash_insert hf peep_entry_equal room e h = Some (None, h') \<and> placed hf h' \<and> elems h' = insert e (elems h)"
proof -
  let ?h = "insert_elem (find_bucket hf h e) e h"
  have none: "find_elem peep_entry_equal xs e = None" for xs by (simp add: find_elem_None peep_entry_equal_def)
  have i: "placed hf ?h" "mset (concat (buckets ?h)) = add_mset e (mset (concat (buckets h)))"
    using insert_elem_fields [OF assms] by blast+
  obtain h' where h': "rehash hf room ?h = Some h'" "placed hf h'" "mset (concat (buckets h')) = mset (concat (buckets ?h))"
    using rehash_spec [OF i(1)] by blast
  have "mset (concat (buckets h')) = mset (e # concat (buckets h))" using h'(3) i(2) by simp
  from mset_eq_setD [OF this] have "elems h' = insert e (elems h)" by (simp add: elems_def)
  with h' show ?thesis by (simp add: hash_insert_def none Let_def)
qed

lemma peep_insert_loop_elems:
  assumes "placed (peep_entry_hash entries) h"
  shows "\<exists>h'. peep_insert_loop entries room es h = Some h' \<and> placed (peep_entry_hash entries) h' \<and>
    elems h' = elems h \<union> set es"
  using assms
proof (induction es arbitrary: h)
  case (Cons e es)
  obtain h1 where h1: "hash_insert (peep_entry_hash entries) peep_entry_equal room e h = Some (None, h1)"
    "placed (peep_entry_hash entries) h1" "elems h1 = insert e (elems h)"
    using hash_insert_always [OF Cons.prems] by blast
  with Cons.IH [OF h1(2)] show ?case by auto
qed simp

lemma peep_init_elems:
  assumes "length entries < 2 ^ 32"
  shows "\<exists>h. peep_init entries True room = Some (True, h) \<and> placed (peep_entry_hash entries) h \<and>
    elems h = {..<length entries}"
proof -
  let ?n = "max 256 (length entries)"
  let ?h = "snd (hash_init_size True (of_nat ?n))"
  have n: "of_nat ?n \<noteq> (0 :: u32)" by (rule of_nat_nonzero32) (use assms in auto)
  have "placed (peep_entry_hash entries) ?h" "elems ?h = {}"
    using hash_init_ok [OF n, of "peep_entry_hash entries" peep_entry_equal] by (auto simp: hash_ok_def)
  with peep_insert_loop_elems [of entries ?h room "[0..<length entries]"]
  show ?thesis by (auto simp: peep_init_def Let_def hash_init_size_def atLeast0LessThan)
qed

text \<open>The search through a bucket stops only at an entry that applies.\<close>

definition applies :: "peep_entry \<Rightarrow> insn list \<Rightarrow> assignments \<Rightarrow> bool" where
  "applies entry insns as \<longleftrightarrow>
     CONSTRAINTS AND pe_constraints entry = CONSTRAINTS \<and> templ_matches_insns insns (pe_tmpl entry) = Some (True, as)"

lemma peep_search_Some:
  "peep_search entries insns es = Some (Some (label, params)) \<Longrightarrow>
     \<exists>e\<in>set es. \<exists>as temps ps. applies (entries ! e) insns as \<and> label = pe_label (entries ! e) \<and>
       param_values as = Some ps \<and>
       find_temporary_regs (pe_temporaries (entries ! e)) as (pe_nomatch (entries ! e)) = (True, temps) \<and>
       params = ps @ map int temps"
proof (induction es)
  case (Cons e es)
  then show ?case
    by (auto simp: applies_def Let_def split: if_splits option.splits prod.splits bool.splits Option.bind_splits)
qed simp

lemma peep_search_None:
  "peep_search entries insns es = Some None \<Longrightarrow> e \<in> set es \<Longrightarrow> \<not> applies (entries ! e) insns as"
proof (induction es)
  case (Cons x es)
  then show ?case
    by (auto simp: applies_def Let_def split: if_splits option.splits prod.splits bool.splits Option.bind_splits)
qed simp

section \<open>Temporaries\<close>

lemma temp_loop_spec:
  assumes "temp_loop j tags as pairs used = (True, rs)" and "length used = 8"
  shows "length rs = length tags \<and> distinct rs \<and>
    (\<forall>i<length rs. rs ! i < 8 \<and> \<not> used ! (rs ! i) \<and> val_satisfies_tag (rs ! i) (tags ! i) \<and>
       \<not> temp_assignment_violates_nomatch_pairs (j + i) (rs ! i) as pairs)"
  using assms
proof (induction j tags as pairs used arbitrary: rs rule: temp_loop.induct)
  case (2 j tag tags as pairs used)
  then obtain r rs' where r: "find (temp_candidate j tag as pairs used) (rev [0..<NUM_REGS]) = Some r"
    and loop: "temp_loop (j + 1) tags as pairs (used[r := True]) = (True, rs')" and rs: "rs = r # rs'"
    by (auto split: option.splits prod.splits)
  have c: "temp_candidate j tag as pairs used r" and "r \<in> set (rev [0..<NUM_REGS])"
    using find_SomeD [OF r] by simp_all
  then have r8: "r < 8" by (simp add: NUM_REGS_def)
  then have "val_reg (scalar_operand op_reg 4 (of_nat r) tag_const) = r" by (simp add: val_reg_scalar)
  then have tag: "val_satisfies_tag r tag"
    using c r8 by (simp add: temp_candidate_def assignment_is_coherent_def) (simp add: scalar_operand_def)
  have IH: "length rs' = length tags \<and> distinct rs' \<and>
    (\<forall>i<length rs'. rs' ! i < 8 \<and> \<not> used[r := True] ! (rs' ! i) \<and> val_satisfies_tag (rs' ! i) (tags ! i) \<and>
       \<not> temp_assignment_violates_nomatch_pairs (j + 1 + i) (rs' ! i) as pairs)"
    by (rule "2.IH" [OF r loop]) (use "2.prems" in simp)
  have "r \<notin> set rs'" using IH r8 "2.prems" by (auto simp: in_set_conv_nth)
  moreover have "\<not> used ! (rs' ! i)" if "i < length rs'" for i
    using IH that "2.prems" r8 by (metis nth_list_update)
  ultimately show ?case using IH c r8 tag unfolding rs
    by (auto simp: nth_Cons' temp_candidate_def less_Suc_eq_0_disj)
qed simp

lemma violates_const:
  assumes "conflict pairs (int (TEMP_REG0 + j), tag_var) (int c, tag_const)"
  shows "temp_assignment_violates_nomatch_pairs j c as pairs"
proof -
  obtain p where p: "p \<in> set pairs" "pair_matches p (int (TEMP_REG0 + j)) tag_var (int c) tag_const"
    using assms by (auto simp: conflict_def)
  then have "other_side (int (TEMP_REG0 + j)) p = Some (int c, tag_const)"
    by (auto simp: pair_matches_def other_side_def)
  with p(1) show ?thesis by (force simp: temp_assignment_violates_nomatch_pairs_def list_ex_iff)
qed

lemma violates_var:
  assumes "conflict pairs (int (TEMP_REG0 + j), tag_var) (int x, t)" and "t \<noteq> tag_const" and "x < TEMP_REG0"
    and "(var, v) \<in> set as" and "otype var = op_reg" and "val_reg var = x"
  shows "temp_assignment_violates_nomatch_pairs j (val_reg v) as pairs"
proof -
  obtain p where p: "p \<in> set pairs" "pair_matches p (int (TEMP_REG0 + j)) tag_var (int x) t"
    using assms(1) by (auto simp: conflict_def)
  then have o: "other_side (int (TEMP_REG0 + j)) p = Some (int x, t)"
    using assms(3) by (auto simp: pair_matches_def other_side_def)
  obtain i where i: "i < length as" "as ! i = (var, v)" using assms(4) by (auto simp: in_set_conv_nth)
  then have "i \<in> set (assignments_get_regs as)" using assms(5) by (simp add: assignments_get_regs_def)
  then have "list_ex (\<lambda>r. int x = int (val_reg (fst (as ! r))) \<and> val_reg v = val_reg (snd (as ! r))) (assignments_get_regs as)"
    using i assms(6) by (auto simp: list_ex_iff intro!: bexI [of _ i])
  with p(1) o assms(2,3) show ?thesis by (force simp: temp_assignment_violates_nomatch_pairs_def list_ex_iff)
qed

section \<open>A rule for examples\<close>

text \<open>A move between two registers: \<^verbatim>\<open>mov %vr0d, %vr1d\<close> with a temporary that must differ from
both, and the instruction \<^verbatim>\<open>mov %edx, %edi\<close>.\<close>

definition demo_reg :: "nat \<Rightarrow> tag_t \<Rightarrow> operand" where
  "demo_reg r tag = scalar_operand op_reg 4 (of_nat r) tag"

definition demo_move :: "operand \<Rightarrow> operand \<Rightarrow> insn" where
  "demo_move a b = \<lparr>i_opc = 5, i_op = [a, b, blank_operand]\<rparr>"

definition demo_entry :: peep_entry where
  "demo_entry =
     \<lparr>pe_tmpl = [demo_move (demo_reg 0 tag_var) (demo_reg 1 tag_no_esp)], pe_label = 7,
      pe_temporaries = [tag_abcd], pe_constraints = DEFAULT_CPU_CONSTRAINTS,
      pe_nomatch = [\<lparr>np_reg1 = 8, np_reg2 = 0, np_tag1 = tag_var, np_tag2 = tag_var\<rparr>,
                    \<lparr>np_reg1 = 3, np_reg2 = 8, np_tag1 = tag_const, np_tag2 = tag_var\<rparr>]\<rparr>"

definition demo_insns :: "insn list" where
  "demo_insns = [demo_move (demo_reg 2 tag_const) (demo_reg 7 tag_const)]"

definition demo_as :: assignments where
  "demo_as = [(demo_reg 0 tag_var, demo_reg 2 tag_const), (demo_reg 1 tag_no_esp, demo_reg 7 tag_const)]"

lemma demo_match: "templ_matches_insns demo_insns (pe_tmpl demo_entry) = Some (True, demo_as)"
  by code_simp

lemma demo_three_ops: "three_ops demo_insns" "three_ops (pe_tmpl demo_entry)"
  by (simp_all add: three_ops_def demo_insns_def demo_entry_def demo_move_def)

section \<open>Properties\<close>

text \<open>
  C22. A template that matches a sequence of instructions matches its instance: under the
  assignments that the match leaves, the opcodes are the same, every constant of the template is
  that of the instruction and every variable is bound to the operand or field at its place, and
  the values respect the tags of the variables.
\<close>

theorem templ_match_sound:
  assumes "templ_matches_insns insns templ = Some (True, as)" and "three_ops insns" and "three_ops templ"
  shows "list_all2 (insn_instance as) templ insns \<and> assignments_are_coherent as"
  by (rule templ_matches_insns_sound [OF assms])

theorem templ_match_sound_witness:
  "list_all2 (insn_instance demo_as) (pe_tmpl demo_entry) demo_insns"
  using templ_match_sound [OF demo_match demo_three_ops] by blast

text \<open>
  C23. The table of rules is complete and sound. After initialisation, looking a sequence of
  instructions up through its hash gives the label of a rule that applies, with the values of
  the assignments and the temporaries as parameters, or no rule, and then no rule of the whole
  table applies.
\<close>

theorem peep_rule_correct:
  assumes "length entries < 2 ^ 32" and "\<forall>e\<in>set entries. three_ops (pe_tmpl e)" and "three_ops insns"
  shows "\<exists>h. peep_init entries True room = Some (True, h) \<and>
    (\<forall>label params. peep_rule entries h insns = Some (Some (label, params)) \<longrightarrow>
       (\<exists>e\<in>set entries. \<exists>as temps ps. applies e insns as \<and> label = pe_label e \<and> param_values as = Some ps \<and>
          find_temporary_regs (pe_temporaries e) as (pe_nomatch e) = (True, temps) \<and> params = ps @ map int temps)) \<and>
    (peep_rule entries h insns = Some None \<longrightarrow> (\<forall>e\<in>set entries. \<forall>as. \<not> applies e insns as))"
proof -
  obtain h where h: "peep_init entries True room = Some (True, h)" "placed (peep_entry_hash entries) h"
    "elems h = {..<length entries}"
    using peep_init_elems [OF assms(1)] by blast
  let ?b = "hash_find_bucket_with_hash h (hash_insns insns)"
  have sub: "set ?b \<subseteq> {..<length entries}"
  proof -
    have "unat (hash_insns insns AND (bucket_cnt h - 1)) < length (buckets h)"
      using find_bucket_bound [of h "\<lambda>_. hash_insns insns" 0] h(2) by (simp add: find_bucket_def placed_def)
    then show ?thesis using h(3) elems_nth [of _ h] unfolding hash_find_bucket_with_hash_def by blast
  qed
  have found: "e \<in> set ?b" if "e < length entries" "applies (entries ! e) insns as" for e as
  proof -
    have "three_ops (pe_tmpl (entries ! e))" using assms(2) that(1) by simp
    then have "list_all2 (insn_instance as) (pe_tmpl (entries ! e)) insns"
      using templ_matches_insns_sound assms(3) that(2) by (auto simp: applies_def)
    from hash_insns_instance [OF this] have "hash_insns insns = peep_entry_hash entries e"
      by (simp add: peep_entry_hash_def)
    then have "?b = buckets h ! find_bucket (peep_entry_hash entries) h e"
      by (simp add: hash_find_bucket_with_hash_def find_bucket_def)
    then show ?thesis using placed_elems [OF h(2), of e] h(3) that(1) by simp
  qed
  have "\<exists>e\<in>set entries. \<exists>as temps ps. applies e insns as \<and> label = pe_label e \<and> param_values as = Some ps \<and>
          find_temporary_regs (pe_temporaries e) as (pe_nomatch e) = (True, temps) \<and> params = ps @ map int temps"
    if "peep_rule entries h insns = Some (Some (label, params))" for label params
    using peep_search_Some [OF that [unfolded peep_rule_def]] sub by (meson lessThan_iff nth_mem subsetD)
  moreover have "\<not> applies e insns as" if n: "peep_rule entries h insns = Some None" and e: "e \<in> set entries" for e as
  proof
    assume a: "applies e insns as"
    obtain i where i: "i < length entries" "entries ! i = e" using e by (auto simp: in_set_conv_nth)
    with found [of i as] a peep_search_None [OF n [unfolded peep_rule_def], of i as] show False by simp
  qed
  ultimately show ?thesis using h(1) by blast
qed

theorem peep_rule_correct_witness:
  "\<exists>h. peep_init [demo_entry] True (\<lambda>_. True) = Some (True, h) \<and> peep_rule [demo_entry] h demo_insns \<noteq> Some None"
proof -
  have "applies demo_entry demo_insns demo_as"
    by (simp add: applies_def demo_match) code_simp
  then show ?thesis
    using peep_rule_correct [of "[demo_entry]" demo_insns "\<lambda>_. True"] demo_three_ops by auto
qed

text \<open>
  C24. When registers are found for the temporaries of a rule, they are different machine
  registers, each satisfies the tag of its temporary, and none is in conflict: a temporary that
  must differ from a machine register does, and one that must differ from a register variable
  differs from the register assigned to it.
\<close>

theorem find_temporary_regs_correct:
  assumes "find_temporary_regs tags as pairs = (True, rs)"
  shows "length rs = length tags \<and> distinct rs \<and>
    (\<forall>i<length rs. rs ! i < 8 \<and> val_satisfies_tag (rs ! i) (tags ! i) \<and>
       (\<forall>c. conflict pairs (int (TEMP_REG0 + i), tag_var) (int c, tag_const) \<longrightarrow> rs ! i \<noteq> c) \<and>
       (\<forall>x t var v. conflict pairs (int (TEMP_REG0 + i), tag_var) (int x, t) \<longrightarrow> t \<noteq> tag_const \<longrightarrow> x < TEMP_REG0 \<longrightarrow>
          (var, v) \<in> set as \<longrightarrow> otype var = op_reg \<longrightarrow> val_reg var = x \<longrightarrow> rs ! i \<noteq> val_reg v))"
proof -
  have *: "length rs = length tags \<and> distinct rs \<and>
    (\<forall>i<length rs. rs ! i < 8 \<and> \<not> replicate NUM_REGS False ! (rs ! i) \<and> val_satisfies_tag (rs ! i) (tags ! i) \<and>
       \<not> temp_assignment_violates_nomatch_pairs (0 + i) (rs ! i) as pairs)"
    by (rule temp_loop_spec) (use assms in \<open>simp_all add: find_temporary_regs_def NUM_REGS_def\<close>)
  show ?thesis
  proof (intro conjI allI impI)
    fix i
    assume i: "i < length rs"
    then have v: "\<not> temp_assignment_violates_nomatch_pairs i (rs ! i) as pairs" using * by simp
    show "rs ! i \<noteq> c" if "conflict pairs (int (TEMP_REG0 + i), tag_var) (int c, tag_const)" for c
      using violates_const [OF that] v by blast
    show "rs ! i \<noteq> val_reg v" if "conflict pairs (int (TEMP_REG0 + i), tag_var) (int x, t)" "t \<noteq> tag_const"
      "x < TEMP_REG0" "(var, v) \<in> set as" "otype var = op_reg" "val_reg var = x" for x t var v
      using violates_var [OF that] \<open>\<not> temp_assignment_violates_nomatch_pairs i (rs ! i) as pairs\<close> by metis
  qed (use * in auto)
qed

theorem find_temporary_regs_correct_witness:
  "\<exists>rs. find_temporary_regs [tag_abcd] demo_as (pe_nomatch demo_entry) = (True, rs) \<and> length rs = 1 \<and> rs ! 0 \<le> 3"
proof -
  have 1: "find_temporary_regs [tag_abcd] demo_as (pe_nomatch demo_entry) = (True, [1])" by code_simp
  show ?thesis using find_temporary_regs_correct [OF 1] 1 by auto
qed

text \<open>
  Two occurrences of a variable in one memory operand are bound separately: the second lookup
  does not see the first binding. Here \<^verbatim>\<open>(%vr0d,%vr0d,1)\<close> matches \<^verbatim>\<open>(%eax,%ecx,1)\<close>.
\<close>

definition demo_mem :: "int \<Rightarrow> int \<Rightarrow> tag_t \<Rightarrow> operand" where
  "demo_mem base index tag =
     blank_operand\<lparr>otype := op_mem, osize := 4,
       omem := \<lparr>m_addrsize = 4, m_segtype = segtype_sel, m_seg = 3, m_base = base, m_scale = 1, m_index = index, m_disp = 0\<rparr>,
       omtag := \<lparr>mt_seg = tag_const, mt_base = tag, mt_index = tag, mt_disp = tag_const\<rparr>\<rparr>"

lemma mem_variable_bound_twice:
  "map_option (\<lambda>(ok, as). (ok, map (\<lambda>(var, v). (val_reg var, val_reg v)) as))
     (mem_operands_match (demo_mem 0 1 tag_const) (demo_mem 0 0 tag_var) []) = Some (True, [(0, 0), (0, 1)])"
  by code_simp

text \<open>
  A variable that occurs again in another operand never matches, not even the same register.
\<close>

lemma repeated_variable_fails:
  "templ_matches_insns [demo_move (demo_reg 2 tag_const) (demo_reg 2 tag_const)]
     [demo_move (demo_reg 0 tag_var) (demo_reg 0 tag_var)] =
   Some (False, [(demo_reg 0 tag_var, demo_reg 2 tag_const)])"
  by code_simp

end
