(* ===== verification/Extable.thy ===== *)
theory Extable
  imports Malloc "HOL-Library.Multiset"
begin

text \<open>
  The two exception tables of \<^verbatim>\<open>btfix.c\<close>: the sorted copy of the kernel's table that
  \<^verbatim>\<open>INIT_EXTABLE\<close> hands in, searched by the translator for every instruction it translates, and
  the table of the module, to which the translator adds the cache addresses of instructions that
  may fault.
\<close>

section \<open>The copy of the kernel's table\<close>

record exception_table_entry =
  ex_insn :: u32
  ex_fixup :: u32

definition MAX_EXTABLE_EIPS :: int where "MAX_EXTABLE_EIPS = 4096"

text \<open>
  The static variables of the file. \<open>extable = None\<close> is the null pointer; the table holds the
  entries that were copied, and a read behind them is \<open>None\<close>.
\<close>

record extable_state =
  extable :: "exception_table_entry list option"
  num_extable_entries :: int
  extable_inited :: bool

definition extable_start :: extable_state where
  "extable_start = \<lparr>extable = None, num_extable_entries = 0, extable_inited = False\<rparr>"

text \<open>The result is the pointer to an entry, here the entry, or NULL, here \<open>Some None\<close>.\<close>

function ex_search_loop ::
    "exception_table_entry list \<Rightarrow> u32 \<Rightarrow> int \<Rightarrow> int \<Rightarrow> exception_table_entry option option" where
  "ex_search_loop tab addr fst_i last_i =
     (if fst_i \<le> last_i then
        let mid = (fst_i + last_i) div 2 in
        if mid < 0 \<or> int (length tab) \<le> mid then None
        else
          let e = tab ! nat mid in
          if ex_insn e = addr then Some (Some e)
          else if ex_insn e < addr then ex_search_loop tab addr (mid + 1) last_i
          else ex_search_loop tab addr fst_i (mid - 1)
      else Some None)"
  by auto
termination by (relation "measure (\<lambda>(_, _, i, j). nat (j + 1 - i))") auto

declare ex_search_loop.simps [simp del]

definition search_exception_tables :: "extable_state \<Rightarrow> u32 \<Rightarrow> exception_table_entry option option" where
  "search_exception_tables st addr =
     (if num_extable_entries st \<le> 0 then Some None
      else case extable st of
             None \<Rightarrow> None
           | Some tab \<Rightarrow> ex_search_loop tab addr 0 (num_extable_entries st - 1))"

text \<open>
  The field \<open>insn\<close> is an \<^verbatim>\<open>unsigned long\<close> in kernels before 3.5, for which the module is
  built with \<^verbatim>\<open>OLDKERNEL\<close>, and an \<^verbatim>\<open>int\<close> since, so the comparison of two entries differs; the
  search compares with an unsigned address in both.
\<close>

definition cmp_ex :: "bool \<Rightarrow> exception_table_entry \<Rightarrow> exception_table_entry \<Rightarrow> int" where
  "cmp_ex oldkernel x y =
     (if oldkernel then (if ex_insn x > ex_insn y then 1 else if ex_insn x < ex_insn y then - 1 else 0)
      else (if sint (ex_insn x) > sint (ex_insn y) then 1 else if sint (ex_insn x) < sint (ex_insn y) then - 1 else 0))"

type_synonym sort_func =
  "(exception_table_entry \<Rightarrow> exception_table_entry \<Rightarrow> int) \<Rightarrow> exception_table_entry list \<Rightarrow> exception_table_entry list"

text \<open>
  \<open>srt\<close> is the kernel's \<^verbatim>\<open>sort\<close>. The last argument but two is what the table holds after
  \<^verbatim>\<open>copy_from_user\<close> and whether some of it could not be read.
\<close>

definition init_exception_table ::
    "sort_func \<Rightarrow> bool \<Rightarrow> (int \<Rightarrow> u32) \<Rightarrow> exception_table_entry list \<times> bool \<Rightarrow> int \<Rightarrow>
     extable_state \<Rightarrow> vm_state \<Rightarrow> int \<times> extable_state \<times> vm_state" where
  "init_exception_table srt oldkernel vm user len st vms =
     (let st = st\<lparr>num_extable_entries := len\<rparr> in
      if num_extable_entries st > MAX_EXTABLE_EIPS then (0, st, vms)
      else
        let (tab, vms) = btalloc vm (8 * len) vms in
        if tab = 0 then (0, st\<lparr>extable := None\<rparr>, vms)
        else
          let st = st\<lparr>extable := Some (fst user)\<rparr> in
          if snd user then (0, st, vms)
          else (1, st\<lparr>extable := Some (srt (cmp_ex oldkernel) (fst user)), extable_inited := True\<rparr>, vms))"

definition extable_is_inited :: "extable_state \<Rightarrow> bool" where
  "extable_is_inited st = extable_inited st"

section \<open>The table of the module\<close>

text \<open>
  \<^verbatim>\<open>THIS_MODULE->extable\<close>, at the address \<open>mod_base\<close>; an entry is eight bytes. In newer
  kernels the entry holds the distance from itself to the instruction.
\<close>

record mod_table =
  mod_base :: u32
  mod_entries :: "exception_table_entry list"
  num_exentries :: nat

definition mod_addr :: "mod_table \<Rightarrow> nat \<Rightarrow> u32" where
  "mod_addr m i = mod_base m + 8 * of_nat i"

definition add_bt_exception_table :: "bool \<Rightarrow> u32 \<Rightarrow> u32 \<Rightarrow> mod_table \<Rightarrow> bool \<times> mod_table" where
  "add_bt_exception_table oldkernel eip fixup m =
     (if int (num_exentries m) \<ge> MAX_EXTABLE_EIPS then (False, m)
      else
        let addr = mod_addr m (num_exentries m);
            e = (if \<not> oldkernel then \<lparr>ex_insn = eip - addr, ex_fixup = fixup\<rparr>
                 else \<lparr>ex_insn = eip, ex_fixup = fixup\<rparr>)
        in (True, m\<lparr>mod_entries := (mod_entries m)[num_exentries m := e], num_exentries := num_exentries m + 1\<rparr>))"

text \<open>The instruction an entry is about, as the kernel reads it.\<close>

definition mod_insn :: "bool \<Rightarrow> mod_table \<Rightarrow> nat \<Rightarrow> u32" where
  "mod_insn oldkernel m i =
     (if oldkernel then ex_insn (mod_entries m ! i) else mod_addr m i + ex_insn (mod_entries m ! i))"

lemma add_bt_exception_table_adds:
  assumes "add_bt_exception_table oldkernel eip fixup m = (ok, m')" and "length (mod_entries m) = 4096"
  shows "ok \<longleftrightarrow> num_exentries m < 4096"
    and "ok \<Longrightarrow> num_exentries m' = num_exentries m + 1 \<and> mod_insn oldkernel m' (num_exentries m) = eip \<and>
      ex_fixup (mod_entries m' ! num_exentries m) = fixup \<and>
      (\<forall>i<num_exentries m. mod_entries m' ! i = mod_entries m ! i)"
    and "\<not> ok \<Longrightarrow> m' = m"
    and "length (mod_entries m') = 4096" and "mod_base m' = mod_base m"
  using assms
  by (auto simp: add_bt_exception_table_def mod_insn_def mod_addr_def MAX_EXTABLE_EIPS_def Let_def split: if_splits)

section \<open>The search\<close>

lemma ex_search_loop_correct:
  assumes "0 \<le> i" and "j < int (length tab)"
    and "sorted_wrt (\<lambda>a b. ex_insn a \<le> ex_insn b) tab"
  shows "\<exists>r. ex_search_loop tab addr i j = Some r \<and>
    (case r of Some e \<Rightarrow> e \<in> set tab \<and> ex_insn e = addr
     | None \<Rightarrow> \<forall>k. i \<le> k \<and> k \<le> j \<longrightarrow> ex_insn (tab ! nat k) \<noteq> addr)"
  using assms
proof (induction tab addr i j rule: ex_search_loop.induct)
  case (1 tab addr i j)
  show ?case
  proof (cases "i \<le> j")
    case False
    then have "ex_search_loop tab addr i j = Some None" by (subst ex_search_loop.simps) simp
    with False show ?thesis by (intro exI [of _ None]) auto
  next
    case True
    define mid where "mid = (i + j) div 2"
    have mid: "i \<le> mid" "mid \<le> j" using True by (auto simp: mid_def)
    have "nat mid < length tab" using mid 1(3,4) by linarith
    have sorted: "ex_insn (tab ! nat a) \<le> ex_insn (tab ! nat b)" if "0 \<le> a" "a \<le> b" "b < int (length tab)" for a b
      using sorted_wrt_nth_less [OF 1(5), of "nat a" "nat b"] that by (cases "a = b") auto
    note step = ex_search_loop.simps [of tab addr i j, folded mid_def, simplified Let_def]
    consider "ex_insn (tab ! nat mid) = addr" | "ex_insn (tab ! nat mid) < addr" | "addr < ex_insn (tab ! nat mid)"
      by fastforce
    then show ?thesis
    proof cases
      case 1
      with step True mid \<open>nat mid < length tab\<close> \<open>0 \<le> i\<close> show ?thesis
        by auto
    next
      case 2
      have "ex_insn (tab ! nat k) \<noteq> addr" if "i \<le> k" "k \<le> mid" for k
        using sorted [of k mid] that 2 \<open>0 \<le> i\<close> mid(2) \<open>j < int (length tab)\<close> by auto
      moreover obtain r where "ex_search_loop tab addr (mid + 1) j = Some r"
        "case r of Some e \<Rightarrow> e \<in> set tab \<and> ex_insn e = addr
           | None \<Rightarrow> \<forall>k. mid + 1 \<le> k \<and> k \<le> j \<longrightarrow> ex_insn (tab ! nat k) \<noteq> addr"
        using "1.IH"(1) [OF True mid_def] 2 mid 1(3-5) \<open>nat mid < length tab\<close> by force
      ultimately show ?thesis
        using step True mid \<open>nat mid < length tab\<close> \<open>0 \<le> i\<close> 2
        by (intro exI [of _ r]) (auto split: option.splits; smt (verit))
    next
      case 3
      have "ex_insn (tab ! nat k) \<noteq> addr" if "mid \<le> k" "k \<le> j" for k
        using sorted [of mid k] that 3 \<open>0 \<le> i\<close> mid \<open>j < int (length tab)\<close> by auto
      moreover obtain r where "ex_search_loop tab addr i (mid - 1) = Some r"
        "case r of Some e \<Rightarrow> e \<in> set tab \<and> ex_insn e = addr
           | None \<Rightarrow> \<forall>k. i \<le> k \<and> k \<le> mid - 1 \<longrightarrow> ex_insn (tab ! nat k) \<noteq> addr"
        using "1.IH"(2) [OF True mid_def] 3 mid 1(3-5) \<open>nat mid < length tab\<close> by force
      ultimately show ?thesis
        using step True mid \<open>nat mid < length tab\<close> \<open>0 \<le> i\<close> 3
        by (intro exI [of _ r]) (auto split: option.splits; smt (verit))
    qed
  qed
qed

text \<open>
  What the translator relies on: the table sorted by unsigned addresses, and as many entries in
  it as the variable says.
\<close>

definition extable_ok :: "extable_state \<Rightarrow> bool" where
  "extable_ok st \<longleftrightarrow>
     (case extable st of
        None \<Rightarrow> num_extable_entries st \<le> 0
      | Some tab \<Rightarrow> num_extable_entries st = int (length tab) \<and> sorted_wrt (\<lambda>a b. ex_insn a \<le> ex_insn b) tab)"

definition ex_entries :: "extable_state \<Rightarrow> exception_table_entry set" where
  "ex_entries st = (case extable st of None \<Rightarrow> {} | Some tab \<Rightarrow> set tab)"

lemma search_exception_tables_ok:
  assumes "extable_ok st"
  shows "\<exists>r. search_exception_tables st addr = Some r \<and>
    (case r of Some e \<Rightarrow> e \<in> ex_entries st \<and> ex_insn e = addr
     | None \<Rightarrow> \<forall>e\<in>ex_entries st. ex_insn e \<noteq> addr)"
proof (cases "extable st")
  case None
  then show ?thesis using assms by (simp add: search_exception_tables_def extable_ok_def ex_entries_def)
next
  case (Some tab)
  show ?thesis
  proof (cases "tab = []")
    case True
    with Some assms show ?thesis by (simp add: search_exception_tables_def extable_ok_def ex_entries_def)
  next
    case False
    then have s: "search_exception_tables st addr = ex_search_loop tab addr 0 (int (length tab) - 1)"
      using Some assms by (simp add: search_exception_tables_def extable_ok_def)
    obtain r where r: "ex_search_loop tab addr 0 (int (length tab) - 1) = Some r"
      "case r of Some e \<Rightarrow> e \<in> set tab \<and> ex_insn e = addr
         | None \<Rightarrow> \<forall>k. 0 \<le> k \<and> k \<le> int (length tab) - 1 \<longrightarrow> ex_insn (tab ! nat k) \<noteq> addr"
      using ex_search_loop_correct [of 0 "int (length tab) - 1" tab addr] assms Some
      by (auto simp: extable_ok_def)
    have "\<forall>e\<in>set tab. ex_insn e \<noteq> addr"
      if "\<forall>k. 0 \<le> k \<and> k \<le> int (length tab) - 1 \<longrightarrow> ex_insn (tab ! nat k) \<noteq> addr"
      using that by (fastforce simp: in_set_conv_nth dest: spec [of _ "int _"])
    with r s Some show ?thesis by (intro exI [of _ r]) (auto simp: ex_entries_def split: option.splits)
  qed
qed

text \<open>
  Within one half of the address space the signed order is the unsigned one; the addresses of
  kernel code all lie in the upper half.
\<close>

lemma sint_upper: "sint w = uint w - 2 ^ 32" if "w \<ge> 0x80000000" for w :: u32
proof -
  have b: "2 ^ 31 \<le> uint w" "uint w < 2 ^ 32" using that uint_bounded [of w] by (simp_all add: word_le_def)
  then have "uint w div 2 ^ 31 = 1" by (intro int_div_pos_eq [of _ _ _ "uint w - 2 ^ 31"]) simp_all
  then have "bit (uint w) 31" unfolding bit_iff_odd by (metis odd_one)
  with b show ?thesis
    by (simp add: sint_uint signed_take_bit_eq_take_bit_minus take_bit_int_eq_self)
qed

lemma cmp_ex_le:
  assumes "oldkernel \<or> (ex_insn a \<ge> 0x80000000 \<and> ex_insn b \<ge> 0x80000000)"
  shows "cmp_ex oldkernel a b \<le> 0 \<longleftrightarrow> ex_insn a \<le> ex_insn b"
proof (cases oldkernel)
  case True
  then show ?thesis by (auto simp: cmp_ex_def)
next
  case False
  with assms sint_upper [of "ex_insn a"] sint_upper [of "ex_insn b"] show ?thesis
    by (simp add: cmp_ex_def word_le_def)
qed

section \<open>The table after its initialisation\<close>

text \<open>
  C25. After the exception table was read from user space and sorted, the search returns for
  every address an entry of the table for it, and NULL exactly when there is none. On kernels
  whose entries are signed this needs all addresses in the upper half of the address space,
  because the sort compares signed and the search unsigned values.
\<close>

theorem extable_search_correct:
  assumes sort: "\<forall>xs. mset (srt (cmp_ex oldkernel) xs) = mset xs \<and>
      sorted_wrt (\<lambda>a b. cmp_ex oldkernel a b \<le> 0) (srt (cmp_ex oldkernel) xs)"
    and init: "init_exception_table srt oldkernel vm (tab, False) (int (length tab)) st vms = (1, st', vms')"
    and upper: "oldkernel \<or> (\<forall>e\<in>set tab. ex_insn e \<ge> 0x80000000)"
  shows "extable_is_inited st' \<and> extable_ok st' \<and>
    (\<exists>r. search_exception_tables st' addr = Some r \<and>
      (case r of Some e \<Rightarrow> e \<in> set tab \<and> ex_insn e = addr | None \<Rightarrow> \<forall>e\<in>set tab. ex_insn e \<noteq> addr))"
proof -
  let ?tab = "srt (cmp_ex oldkernel) tab"
  have st': "extable st' = Some ?tab" "num_extable_entries st' = int (length tab)" "extable_inited st'"
    using init by (auto simp: init_exception_table_def Let_def split: if_splits prod.splits)
  have set: "set ?tab = set tab" and len: "length ?tab = length tab"
    using sort by (metis set_mset_mset, metis size_mset)
  have "sorted_wrt (\<lambda>a b. ex_insn a \<le> ex_insn b) ?tab"
    by (rule sorted_wrt_mono_rel [OF _ sort [THEN spec, THEN conjunct2]]) (use upper cmp_ex_le set in auto)
  then have ok: "extable_ok st'" using st' len by (simp add: extable_ok_def)
  have es: "ex_entries st' = set tab" using st' set by (simp add: ex_entries_def)
  show ?thesis
    using search_exception_tables_ok [OF ok, of addr, unfolded es] ok st'(3)
    by (simp add: extable_is_inited_def)
qed

definition demo_ex :: "exception_table_entry list" where
  "demo_ex = [\<lparr>ex_insn = 0xC0102000, ex_fixup = 7\<rparr>, \<lparr>ex_insn = 0xC0101000, ex_fixup = 8\<rparr>, \<lparr>ex_insn = 0xC0103000, ex_fixup = 9\<rparr>]"

lemma sort_key_cmp_ex: "sorted_wrt (\<lambda>a b. cmp_ex True a b \<le> 0) (sort_key ex_insn xs)"
proof -
  have "sorted_wrt (\<lambda>a b. ex_insn a \<le> ex_insn b) (sort_key ex_insn xs)"
    using sorted_sort_key [of ex_insn xs] by (simp add: sorted_map)
  then show ?thesis by (rule sorted_wrt_mono_rel [rotated]) (simp add: cmp_ex_le)
qed

theorem extable_search_correct_witness:
  "\<exists>st vms. init_exception_table (\<lambda>_. sort_key ex_insn) True (\<lambda>_. 65536) (demo_ex, False) 3 extable_start
      \<lparr>vm_mem = (\<lambda>_. 0), vm_reserved = []\<rparr> = (1, st, vms) \<and>
    search_exception_tables st 0xC0101000 = Some (Some \<lparr>ex_insn = 0xC0101000, ex_fixup = 8\<rparr>)"
proof -
  let ?vms = "\<lparr>vm_mem = (\<lambda>_. 0), vm_reserved = []\<rparr>"
  obtain t vms' where "btalloc (\<lambda>_. 65536) (8 * 3) ?vms = (t, vms')" "t \<noteq> 0"
    by (auto simp: btalloc_def Let_def)
  then obtain st where i: "init_exception_table (\<lambda>_. sort_key ex_insn) True (\<lambda>_. 65536) (demo_ex, False) 3 extable_start ?vms = (1, st, vms')"
    by (simp add: init_exception_table_def MAX_EXTABLE_EIPS_def)
  have len: "(3 :: int) = int (length demo_ex)" by (simp add: demo_ex_def)
  obtain r where r: "search_exception_tables st 0xC0101000 = Some r"
    "case r of Some e \<Rightarrow> e \<in> set demo_ex \<and> ex_insn e = 0xC0101000 | None \<Rightarrow> \<forall>e\<in>set demo_ex. ex_insn e \<noteq> 0xC0101000"
    using extable_search_correct [OF _ i [unfolded len], of "0xC0101000"] sort_key_cmp_ex by auto
  then have "r = Some \<lparr>ex_insn = 0xC0101000, ex_fixup = 8\<rparr>"
    by (auto simp: demo_ex_def split: option.splits)
  with i r show ?thesis by blast
qed

end
