(* ===== verification/Codegen.thy ===== *)
theory Codegen
  imports Peep Extable
begin

text \<open>
  What the translator works with: the decoder, the generated code emitter and the guest's memory,
  which are not part of the sources, the tables it reads, and the two buffers it writes.
  \<^verbatim>\<open>peep_translate\<close> of \<^verbatim>\<open>peep/peep.c\<close> and the emission of snippets of
  \<^verbatim>\<open>peep/instrument.c\<close> are here.
\<close>

section \<open>The environment\<close>

text \<open>
  \<open>e_disas a\<close> is the instruction \<^verbatim>\<open>disas_insn\<close> decodes at \<open>a\<close> and its length.
  \<open>e_gen label params optr eptr fallthrough\<close> is what \<^verbatim>\<open>peepgen_code\<close>, a function the build
  generates, appends to the code and to the edge code, and whether it clears
  \<^verbatim>\<open>*is_terminating\<close>, which is all it does to that variable. \<open>e_label\<close> gives the number of a
  snippet, an enumeration the build generates. The last two are build options.
\<close>

record bt_env =
  e_ot :: btmod_opctable
  e_disas :: "u32 \<Rightarrow> insn \<times> nat"
  e_gen :: "int \<Rightarrow> int list \<Rightarrow> u32 \<Rightarrow> u32 \<Rightarrow> u32 \<Rightarrow> u8 list \<times> u8 list \<times> bool"
  e_mem :: "u32 \<Rightarrow> u8"
  e_label :: "string \<Rightarrow> int"
  e_rules :: "peep_entry list"
  e_tab :: hash
  e_ext :: extable_state
  e_shadow_idt :: bool
  e_shadowmem :: u32
  e_oldkernel :: bool
  e_inscount :: bool

text \<open>The two buffers: their start and the bytes written so far, up to the output pointers.\<close>

record emit =
  em_cbase :: u32
  em_ebase :: u32
  em_code :: "u8 list"
  em_edge :: "u8 list"

definition optr :: "emit \<Rightarrow> u32" where "optr em = em_cbase em + of_nat (length (em_code em))"
definition eptr :: "emit \<Rightarrow> u32" where "eptr em = em_ebase em + of_nat (length (em_edge em))"

definition emit_bytes :: "u8 list \<Rightarrow> u8 list \<Rightarrow> emit \<Rightarrow> emit" where
  "emit_bytes c e em = em\<lparr>em_code := em_code em @ c, em_edge := em_edge em @ e\<rparr>"

definition peepgen_code :: "bt_env \<Rightarrow> int \<Rightarrow> int list \<Rightarrow> u32 \<Rightarrow> emit \<Rightarrow> emit \<times> bool" where
  "peepgen_code env label params fallthrough em =
     (let (c, e, clears) = e_gen env label params (optr em) (eptr em) fallthrough
      in (emit_bytes c e em, clears))"

section \<open>Snippets and rules\<close>

text \<open>The instrumentation passes 0 for the address to fall through to and ignores the flag.\<close>

definition peepgen_emit_code :: "bt_env \<Rightarrow> int \<Rightarrow> int list \<Rightarrow> emit \<Rightarrow> emit" where
  "peepgen_emit_code env label params em = fst (peepgen_code env label params 0 em)"

text \<open>Whether a rule matched, and whether its code clears \<^verbatim>\<open>*is_terminating\<close>.\<close>

definition peep_translate :: "bt_env \<Rightarrow> insn list \<Rightarrow> u32 \<Rightarrow> emit \<Rightarrow> (bool \<times> emit \<times> bool) option" where
  "peep_translate env insns fallthrough em =
     (case peep_rule (e_rules env) (e_tab env) insns of
        None \<Rightarrow> None
      | Some None \<Rightarrow> Some (False, em, False)
      | Some (Some (label, params)) \<Rightarrow>
          let (em, clears) = peepgen_code env label params fallthrough em in Some (True, em, clears))"

section \<open>Output that only grows\<close>

text \<open>
  Every operation appends to the buffers. When the generated code has the same length wherever
  it is put, so does all the output.
\<close>

definition extends :: "emit \<Rightarrow> emit \<Rightarrow> bool" where
  "extends em em' \<longleftrightarrow> em_cbase em' = em_cbase em \<and> em_ebase em' = em_ebase em \<and>
     (\<exists>c e. em_code em' = em_code em @ c \<and> em_edge em' = em_edge em @ e)"

lemma extends_refl [simp]: "extends em em"
  by (simp add: extends_def)

lemma extends_trans [trans]: "extends a b \<Longrightarrow> extends b c \<Longrightarrow> extends a c"
  by (auto simp: extends_def)

lemma extends_emit_bytes [simp]: "extends em (emit_bytes c e em)"
  by (simp add: extends_def emit_bytes_def)

lemma extends_peepgen_code: "peepgen_code env label params f em = (em', t) \<Longrightarrow> extends em em'"
  by (auto simp: peepgen_code_def split: prod.splits)

lemma extends_peepgen_emit_code [simp]: "extends em (peepgen_emit_code env label params em)"
  by (simp add: peepgen_emit_code_def peepgen_code_def split: prod.splits)

lemma extends_peep_translate: "peep_translate env insns f em = Some (m, em', t) \<Longrightarrow> extends em em'"
  by (auto simp: peep_translate_def Let_def split: option.splits prod.splits dest: extends_peepgen_code)

text \<open>The generator's output has the same lengths and the same effect on the flag everywhere.\<close>

definition position_free :: "bt_env \<Rightarrow> bool" where
  "position_free env \<longleftrightarrow> (\<forall>label params o1 e1 o2 e2 f.
     let (c1, d1, t1) = e_gen env label params o1 e1 f; (c2, d2, t2) = e_gen env label params o2 e2 f
     in length c1 = length c2 \<and> length d1 = length d2 \<and> t1 = t2)"

text \<open>Two outputs that have grown by the same lengths.\<close>

definition same_growth :: "emit \<Rightarrow> emit \<Rightarrow> emit \<Rightarrow> emit \<Rightarrow> bool" where
  "same_growth a a' b b' \<longleftrightarrow> extends a a' \<and> extends b b' \<and>
     length (em_code a') - length (em_code a) = length (em_code b') - length (em_code b) \<and>
     length (em_edge a') - length (em_edge a) = length (em_edge b') - length (em_edge b)"

lemma same_growth_refl [simp]: "same_growth a a b b"
  by (simp add: same_growth_def)

lemma same_growth_trans: "same_growth a a' b b' \<Longrightarrow> same_growth a' a'' b' b'' \<Longrightarrow> same_growth a a'' b b''"
  by (auto simp: same_growth_def extends_def)

lemma same_growth_emit_bytes:
  "length c = length c' \<Longrightarrow> length e = length e' \<Longrightarrow> same_growth a (emit_bytes c e a) b (emit_bytes c' e' b)"
  by (simp add: same_growth_def) (simp add: emit_bytes_def)

lemma position_free_gen:
  assumes "position_free env"
    and "e_gen env label params o1 e1 f = (c1, d1, t1)" and "e_gen env label params o2 e2 f = (c2, d2, t2)"
  shows "length c1 = length c2 \<and> length d1 = length d2 \<and> t1 = t2"
proof -
  have "let (c1, d1, t1) = e_gen env label params o1 e1 f; (c2, d2, t2) = e_gen env label params o2 e2 f
     in length c1 = length c2 \<and> length d1 = length d2 \<and> t1 = t2"
    using assms(1) unfolding position_free_def by blast
  with assms(2,3) show ?thesis by simp
qed

lemma peepgen_code_growth:
  assumes "position_free env"
  shows "snd (peepgen_code env label params f a) = snd (peepgen_code env label params f b) \<and>
    same_growth a (fst (peepgen_code env label params f a)) b (fst (peepgen_code env label params f b))"
proof -
  obtain c1 d1 t1 c2 d2 t2 where g: "e_gen env label params (optr a) (eptr a) f = (c1, d1, t1)"
      "e_gen env label params (optr b) (eptr b) f = (c2, d2, t2)"
    by (metis prod_cases3)
  from position_free_gen [OF assms g] g show ?thesis
    by (simp add: peepgen_code_def same_growth_emit_bytes)
qed

lemma peepgen_emit_growth:
  "position_free env \<Longrightarrow> same_growth a (peepgen_emit_code env label params a) b (peepgen_emit_code env label params b)"
  by (simp add: peepgen_emit_code_def peepgen_code_growth)

lemma peep_translate_growth:
  assumes "position_free env" and "peep_translate env insns f a = Some (m, a', t)"
  shows "\<exists>b'. peep_translate env insns f b = Some (m, b', t) \<and> same_growth a a' b b'"
proof (cases "peep_rule (e_rules env) (e_tab env) insns")
  case None
  with assms(2) show ?thesis by (simp add: peep_translate_def)
next
  case (Some r)
  show ?thesis
  proof (cases r)
    case None
    with Some assms(2) show ?thesis by (auto simp: peep_translate_def)
  next
    case (Some lp)
    obtain label params where lp: "lp = (label, params)" by (cases lp)
    show ?thesis
      using peepgen_code_growth [OF assms(1), of label params f a b] assms(2)
        \<open>peep_rule _ _ _ = Some r\<close> Some lp
      by (cases "peepgen_code env label params f b") (auto simp: peep_translate_def Let_def split: prod.splits)
  qed
qed

end
