(* ===== verification/Instrument.thy ===== *)
theory Instrument
  imports Codegen
begin

text \<open>
  The instrumentation of memory accesses (\<^verbatim>\<open>peep/instrument.c\<close>): before an instruction that
  accesses memory the translator emits code that checks the access against the shadow memory. The
  code needs a register and changes the flags; a scan of the instructions that follow decides
  whether the register and the flags have to be saved.
\<close>

section \<open>The scan for dead flags and registers\<close>

text \<open>The loops follow the code until an instruction ends the block; they may not return.\<close>

partial_function (option) check_if_flags_are_dead :: "bt_env \<Rightarrow> u32 \<Rightarrow> bool option" where
  "check_if_flags_are_dead env a =
     (let (insn, disas) = e_disas env a in
      if insn_reads_flags (e_ot env) insn then Some False
      else if insn_sets_flags (e_ot env) insn then Some True
      else if insn_is_terminating (e_ot env) insn then Some False
      else check_if_flags_are_dead env (a + of_nat disas))"

text \<open>
  The variables of \<^verbatim>\<open>check_dead_flags_and_tregs\<close>: the register to use, the one that need not be
  saved, both \<open>-1\<close> when there is none, the two flags that say what is still looked for, and the
  registers that may still be chosen.
\<close>

record scan =
  sc_treg :: int
  sc_opt :: int
  sc_dead :: bool
  sc_treg_possible :: bool
  sc_flag_possible :: bool
  sc_temp :: "bool list"

definition scan_flags :: "bt_env \<Rightarrow> insn \<Rightarrow> scan \<Rightarrow> scan" where
  "scan_flags env insn st =
     (if sc_flag_possible st then
        if insn_reads_flags (e_ot env) insn then st\<lparr>sc_flag_possible := False\<rparr>
        else if insn_sets_flags (e_ot env) insn then st\<lparr>sc_flag_possible := False, sc_dead := True\<rparr>
        else st
      else st)"

fun scan_regs :: "regset \<Rightarrow> regset \<Rightarrow> nat list \<Rightarrow> scan \<Rightarrow> scan" where
  "scan_regs use def [] st = st"
| "scan_regs use def (r # rs) st =
     (let st = (if sc_temp st ! r \<and> cregs use ! r then st\<lparr>sc_temp := (sc_temp st)[r := False]\<rparr> else st) in
      if sc_temp st ! r then
        if cregs def ! r then st\<lparr>sc_opt := int r, sc_treg := int r, sc_treg_possible := False\<rparr>
        else scan_regs use def rs (st\<lparr>sc_treg_possible := True\<rparr>)
      else scan_regs use def rs st)"

partial_function (option) scan_loop :: "bt_env \<Rightarrow> nat \<Rightarrow> u32 \<Rightarrow> scan \<Rightarrow> scan option" where
  "scan_loop env n_regs a st =
     (let (insn, disas) = e_disas env a;
          st = scan_flags env insn st
      in if insn_is_terminating (e_ot env) insn \<or> (\<not> sc_flag_possible st \<and> \<not> sc_treg_possible st) then Some st
         else if sc_treg_possible st then
           (case insn_get_usedef_implicit (e_ot env) insn of
              None \<Rightarrow> None
            | Some (use, def) \<Rightarrow>
                scan_loop env n_regs (a + of_nat disas)
                  (scan_regs use def [0..<n_regs] (st\<lparr>sc_treg_possible := False\<rparr>)))
         else scan_loop env n_regs (a + of_nat disas) st)"

definition scan_start :: scan where
  "scan_start = \<lparr>sc_treg = - 1, sc_opt = - 1, sc_dead = False, sc_treg_possible = True, sc_flag_possible = True,
     sc_temp = [True, True, True, True, False, True, True, True]\<rparr>"

text \<open>The register, the one that need not be saved, and whether the flags are dead.\<close>

definition check_dead_flags_and_tregs ::
    "bt_env \<Rightarrow> u32 \<Rightarrow> bool \<Rightarrow> insn \<Rightarrow> nat \<Rightarrow> (int \<times> int \<times> bool) option" where
  "check_dead_flags_and_tregs env cur_addr rep_prefix insn n_regs =
     (let st = scan_start in
      case (if rep_prefix
            then Some (st\<lparr>sc_temp := (sc_temp st)[R_ECX := False, R_ESI := False, R_EDI := False], sc_treg := int R_EBX\<rparr>)
            else case insn_get_usedef_implicit (e_ot env) insn of
                   None \<Rightarrow> None
                 | Some (use, def) \<Rightarrow>
                     (case find (\<lambda>r. sc_temp st ! r \<and> \<not> cregs use ! r \<and> \<not> cregs def ! r) [0..<n_regs] of
                        None \<Rightarrow> Some st
                      | Some r \<Rightarrow> Some (st\<lparr>sc_treg := int r\<rparr>)))
      of None \<Rightarrow> None
       | Some st \<Rightarrow> map_option (\<lambda>st. (sc_treg st, sc_opt st, sc_dead st)) (scan_loop env n_regs cur_addr st))"

section \<open>Snippets\<close>

text \<open>The switches fall back to no addition where the code only reports an unknown size.\<close>

definition calc_offset :: "bt_env \<Rightarrow> nat \<Rightarrow> nat \<Rightarrow> bool \<Rightarrow> bool \<Rightarrow> int" where
  "calc_offset env scale opcsize perm safe =
     (if scale = 2 then 6 else if scale = 4 then 12 else if scale = 8 then 18 else 0) +
     (if opcsize = 1 then (if perm then 3 else 0)
      else if opcsize = 2 then (if perm then 4 else 1)
      else if opcsize = 4 then (if perm then 5 else 2)
      else 0) +
     (if safe then e_label env ''remap_safe_1_b_r'' - e_label env ''remap_1_b_r'' else 0)"

definition as_long :: "u32 \<Rightarrow> int" where
  "as_long w = sint w"

definition gen_shadow_code ::
    "bt_env \<Rightarrow> insn \<Rightarrow> nat \<Rightarrow> bool \<Rightarrow> int \<Rightarrow> nat \<Rightarrow> u32 \<Rightarrow> emit \<Rightarrow> emit" where
  "gen_shadow_code env insn j safe treg opc_size eip em =
     (let op = opn insn j;
          base = m_base (omem op); index = m_index (omem op);
          perm = writes_operand (e_ot env) insn j;
          shadow_disp = as_long (ucast (m_disp (omem op)) + e_shadowmem env);
          label = calc_offset env (m_scale (omem op)) opc_size perm safe
      in if base \<noteq> - 1 \<and> index \<noteq> - 1 then
           peepgen_emit_code env (label + e_label env ''remap_1_b_r'') [base, index, treg, shadow_disp, as_long eip] em
         else if base \<noteq> - 1 then
           peepgen_emit_code env (label + e_label env ''rbase_b_r'') [base, treg, shadow_disp, as_long eip] em
         else if index \<noteq> - 1 then
           peepgen_emit_code env (label + e_label env ''rindx_1_b_r'') [index, treg, shadow_disp, as_long eip] em
         else
           peepgen_emit_code env (label + e_label env ''rdisp_b_r'') [treg, shadow_disp, as_long eip] em)"

text \<open>An unknown operand size leaves the offset unset.\<close>

definition gen_shadow_str_code ::
    "bt_env \<Rightarrow> insn \<Rightarrow> bool \<Rightarrow> int \<Rightarrow> nat \<Rightarrow> u32 \<Rightarrow> emit \<Rightarrow> emit option" where
  "gen_shadow_str_code env insn safe treg opc_size eip em =
     (let opc = opctable_name (e_ot env) (i_opc insn) in
      case (if opc_size = 1 then Some 0 else if opc_size = 2 then Some 1 else if opc_size = 4 then Some 2 else None) of
        None \<Rightarrow> None
      | Some off \<Rightarrow>
          let off = (if safe then off + (e_label env ''movss_b'' - e_label env ''movs_b'') else off);
              params = [treg, as_long (e_shadowmem env), as_long eip]
          in Some (if starts opc ''movs'' then peepgen_emit_code env (e_label env ''movs_b'' + off) params em
                   else if starts opc ''stos'' then peepgen_emit_code env (e_label env ''stos_b'' + off) params em
                   else if starts opc ''cmps'' then peepgen_emit_code env (e_label env ''cmps_b'' + off) params em
                   else if starts opc ''scas'' then peepgen_emit_code env (e_label env ''scas_b'' + off) params em
                   else em))"

definition R_FS :: int where "R_FS = 4"

text \<open>
  The code around the check saves and restores what the scan did not find dead. The result is
  \<^verbatim>\<open>rep_prefix\<close>: the snippet for a repeated string instruction performs it.
\<close>

definition save_and_check ::
    "bt_env \<Rightarrow> bool \<Rightarrow> int \<Rightarrow> int \<Rightarrow> (emit \<Rightarrow> emit option) \<Rightarrow> emit \<Rightarrow> emit option" where
  "save_and_check env dead_flags opt_treg treg body em =
     (let em = (if \<not> dead_flags then peepgen_emit_code env (e_label env ''pushfl'') [] em else em);
          em = (if opt_treg = - 1 then peepgen_emit_code env (e_label env ''push_treg'') [treg] em else em)
      in case body em of
           None \<Rightarrow> None
         | Some em \<Rightarrow>
             let em = (if opt_treg = - 1 then peepgen_emit_code env (e_label env ''pop_treg'') [treg] em else em)
             in Some (if \<not> dead_flags then peepgen_emit_code env (e_label env ''popfl'') [] em else em))"

text \<open>
  The first part of \<^verbatim>\<open>instrument_memory\<close> decides whether the access is checked, and computes the
  operand, \<open>safe\<close>, \<open>rep_prefix\<close>, the size, \<open>treg\<close>, \<open>opt_treg\<close> and \<open>dead_flags\<close>.
\<close>

definition instrument_decide ::
    "bt_env \<Rightarrow> u32 \<Rightarrow> insn \<Rightarrow> (nat \<times> bool \<times> bool \<times> nat \<times> int \<times> int \<times> bool) option option" where
  "instrument_decide env eip insn =
     (case insn_accesses_mem (e_ot env) insn (None, None) of
        (True, Some j, _) \<Rightarrow>
          let op1 = omem (opn insn j) in
          if m_base op1 = int R_ESP \<or> m_base op1 = int R_EBP then Some None
          else if insn_is_prefetch (e_ot env) insn then Some None
          else if seg_sel op1 = R_FS then Some None
          else if seg_sel op1 = int R_GS then Some None
          else
            (case search_exception_tables (e_ext env) eip of
               None \<Rightarrow> None
             | Some e \<Rightarrow>
                 let safe = e \<noteq> None; rep_prefix = insn_has_rep_prefix insn in
                 if rep_prefix \<and> \<not> insn_has_translation (e_ot env) insn then Some None
                 else
                   let opc_size = get_opcode_size (e_ot env) insn in
                   (case check_dead_flags_and_tregs env eip rep_prefix insn (if opc_size = 4 then NUM_REGS else 4) of
                      None \<Rightarrow> None
                    | Some (treg, opt_treg, dead_flags) \<Rightarrow>
                        Some (Some (j, safe, rep_prefix, opc_size, treg, opt_treg, dead_flags))))
      | _ \<Rightarrow> Some None)"

definition instrument_memory :: "bt_env \<Rightarrow> u32 \<Rightarrow> insn \<Rightarrow> emit \<Rightarrow> (bool \<times> emit) option" where
  "instrument_memory env eip insn em =
     (case instrument_decide env eip insn of
        None \<Rightarrow> None
      | Some None \<Rightarrow> Some (False, em)
      | Some (Some (j, safe, rep_prefix, opc_size, treg, opt_treg, dead_flags)) \<Rightarrow>
          map_option (Pair rep_prefix)
            (save_and_check env dead_flags opt_treg treg
              (if \<not> rep_prefix then \<lambda>em. Some (gen_shadow_code env insn j safe treg opc_size eip em)
               else gen_shadow_str_code env insn safe treg opc_size eip) em))"

definition count_insns :: "bt_env \<Rightarrow> u32 \<Rightarrow> nat \<Rightarrow> emit \<Rightarrow> emit option" where
  "count_insns env eip num_insns em =
     (if e_shadow_idt env then
        (case check_if_flags_are_dead env eip of
           None \<Rightarrow> None
         | Some True \<Rightarrow> Some (peepgen_emit_code env (e_label env ''inc_sreg0f'') [int num_insns] em)
         | Some False \<Rightarrow> Some (peepgen_emit_code env (e_label env ''inc_sreg0'') [int num_insns] em))
      else Some em)"

section \<open>Growth of the output\<close>

lemma save_and_check_growth:
  assumes "position_free env" and "save_and_check env d o' t body a = Some a'"
    and body: "\<And>x x' y. body x = Some x' \<Longrightarrow> \<exists>y'. body y = Some y' \<and> same_growth x x' y y'"
  shows "\<exists>b'. save_and_check env d o' t body b = Some b' \<and> same_growth a a' b b'"
proof -
  let ?e = "\<lambda>c l p x. if c then peepgen_emit_code env l p x else x"
  have e: "same_growth x (?e c l p x) y (?e c l p y)" for c l p x y
    using peepgen_emit_growth [OF assms(1)] by simp
  define pre where "pre x = ?e (o' = - 1) (e_label env ''push_treg'') [t] (?e (\<not> d) (e_label env ''pushfl'') [] x)" for x
  define post where "post x = ?e (\<not> d) (e_label env ''popfl'') [] (?e (o' = - 1) (e_label env ''pop_treg'') [t] x)" for x
  have s: "save_and_check env d o' t body x = map_option post (body (pre x))" for x
    by (simp add: save_and_check_def pre_def post_def Let_def split: option.splits)
  obtain x' where x': "body (pre a) = Some x'" "a' = post x'"
    using assms(2) by (auto simp: s)
  obtain y' where y': "body (pre b) = Some y'" "same_growth (pre a) x' (pre b) y'"
    using body [OF x'(1)] by blast
  have "same_growth a (pre a) b (pre b)" "same_growth x' (post x') y' (post y')"
    unfolding pre_def post_def by (rule same_growth_trans [OF e e])+
  with y' x'(2) show ?thesis
    by (auto simp: s intro: same_growth_trans)
qed

lemma gen_shadow_code_growth:
  "position_free env \<Longrightarrow>
    same_growth a (gen_shadow_code env insn j s t z eip a) b (gen_shadow_code env insn j s t z eip b)"
  by (simp add: gen_shadow_code_def Let_def peepgen_emit_growth)

lemma gen_shadow_str_code_growth:
  "position_free env \<Longrightarrow> gen_shadow_str_code env insn s t z eip a = Some a' \<Longrightarrow>
    \<exists>b'. gen_shadow_str_code env insn s t z eip b = Some b' \<and> same_growth a a' b b'"
  by (auto simp: gen_shadow_str_code_def Let_def peepgen_emit_growth split: if_splits option.splits)

lemma instrument_memory_growth:
  assumes "position_free env" and "instrument_memory env eip insn a = Some (g, a')"
  shows "\<exists>b'. instrument_memory env eip insn b = Some (g, b') \<and> same_growth a a' b b'"
proof (cases "instrument_decide env eip insn")
  case None
  with assms(2) show ?thesis by (simp add: instrument_memory_def)
next
  case (Some r)
  show ?thesis
  proof (cases r)
    case None
    with Some assms(2) show ?thesis by (auto simp: instrument_memory_def)
  next
    case (Some x)
    obtain j s rp z t o' d where x: "x = (j, s, rp, z, t, o', d)" by (cases x) auto
    let ?body = "if \<not> rp then \<lambda>em. Some (gen_shadow_code env insn j s t z eip em)
               else gen_shadow_str_code env insn s t z eip"
    have i: "instrument_memory env eip insn y = map_option (Pair rp) (save_and_check env d o' t ?body y)" for y
      using \<open>instrument_decide env eip insn = Some r\<close> Some x by (simp add: instrument_memory_def)
    then have sc: "save_and_check env d o' t ?body a = Some a'" "g = rp" using assms(2) by auto
    have body: "\<exists>y'. ?body y = Some y' \<and> same_growth x x' y y'" if "?body x = Some x'" for x x' y
      using that gen_shadow_str_code_growth [OF assms(1), of insn s t z eip x x' y]
        gen_shadow_code_growth [OF assms(1), of x insn j s t z eip y]
      by (cases rp) auto
    show ?thesis
      using save_and_check_growth [OF assms(1) sc(1) body, of b] i sc(2) by auto
  qed
qed

lemma count_insns_growth:
  "position_free env \<Longrightarrow> count_insns env eip n a = Some a' \<Longrightarrow>
    \<exists>b'. count_insns env eip n b = Some b' \<and> same_growth a a' b b'"
  by (auto simp: count_insns_def peepgen_emit_growth split: if_splits option.splits bool.splits)

end
