(* ===== verification/Translate.thy ===== *)
theory Translate
  imports Instrument Tb
begin

text \<open>
  The translation of a block (\<^verbatim>\<open>translate\<close> of \<^verbatim>\<open>peep/peep.c\<close>), which is run twice: the first
  pass writes to a scratch page and finds the number of instructions and the sizes of the code,
  the second one writes to the memory allocated for them and records the boundaries of the
  instructions.
\<close>

section \<open>The loop\<close>

definition MAX_TU_SIZE :: nat where "MAX_TU_SIZE = 2000"

text \<open>The variables that change in the loop: \<open>ptr\<close>, \<open>code_generated\<close>, the output and the module's table.\<close>

record tstate =
  ts_ptr :: u32
  ts_cg :: bool
  ts_em :: emit
  ts_mod :: mod_table

text \<open>
  The instruction's code: the check of its memory access, then the code of a rule, or its own
  bytes when no rule matches and the check does not perform it. The result has
  \<open>code_generated\<close>, the output and \<open>is_terminating\<close>. The assertions on the ends of the buffers
  only report.
\<close>

definition emit_insn :: "bt_env \<Rightarrow> u32 \<Rightarrow> insn \<times> nat \<Rightarrow> bool \<Rightarrow> emit \<Rightarrow> (bool \<times> emit \<times> bool) option" where
  "emit_insn env cur_addr i cg em =
     (let insn = fst i; disas = snd i; is_terminating = insn_is_terminating (e_ot env) insn in
      case (if e_shadow_idt env \<and> e_shadowmem env > 0 then instrument_memory env cur_addr insn em
            else Some (cg, em)) of
        None \<Rightarrow> None
      | Some (cg, em) \<Rightarrow>
          (case peep_translate env [insn] (cur_addr + of_nat disas) em of
             None \<Rightarrow> None
           | Some (peep, em, clears) \<Rightarrow>
               let is_terminating = (peep \<and> (is_terminating \<and> \<not> clears));
                   em = (if \<not> peep \<and> \<not> cg then emit_bytes (mode_translate (e_mem env) cur_addr disas) [] em else em)
               in Some (cg, em, is_terminating)))"

text \<open>The second pass adds the cache address of an instruction with an exception table entry.\<close>

definition note_exception :: "bt_env \<Rightarrow> bool \<Rightarrow> u32 \<Rightarrow> u32 \<Rightarrow> mod_table \<Rightarrow> mod_table option" where
  "note_exception env tmode cur_addr out m =
     (if tmode then
        (case search_exception_tables (e_ext env) cur_addr of
           None \<Rightarrow> None
         | Some None \<Rightarrow> Some m
         | Some (Some e) \<Rightarrow> Some (snd (add_bt_exception_table (e_oldkernel env) out (ex_fixup e) m)))
      else Some m)"

text \<open>The instruction at \<open>ptr\<close>: the new state and \<open>is_terminating\<close>.\<close>

definition translate_insn :: "bt_env \<Rightarrow> bool \<Rightarrow> tstate \<Rightarrow> (tstate \<times> bool) option" where
  "translate_insn env tmode s =
     (let cur_addr = ts_ptr s; i = e_disas env cur_addr in
      case note_exception env tmode cur_addr (optr (ts_em s)) (ts_mod s) of
        None \<Rightarrow> None
      | Some m \<Rightarrow>
          (case emit_insn env cur_addr i (ts_cg s) (ts_em s) of
             None \<Rightarrow> None
           | Some (cg, em, is_terminating) \<Rightarrow>
               Some (\<lparr>ts_ptr = cur_addr + of_nat (snd i), ts_cg = cg, ts_em = em, ts_mod = m\<rparr>, is_terminating)))"

text \<open>
  The arrays of boundaries have room for the instructions the first pass counted; a write behind
  them is \<open>None\<close>, as is one behind the 2000 instructions of \<^verbatim>\<open>p->insns\<close>. The result holds
  \<open>n_in\<close> and \<open>cur_addr\<close> after the loop.
\<close>

definition set_at :: "'a list \<Rightarrow> nat \<Rightarrow> 'a \<Rightarrow> 'a list option" where
  "set_at xs i x = (if i < length xs then Some (xs[i := x]) else None)"

definition put_tc :: "bool \<Rightarrow> nat \<Rightarrow> emit \<Rightarrow> tb_t \<Rightarrow> tb_t option" where
  "put_tc tmode n em tb =
     (if tmode then map_option (\<lambda>b. tb\<lparr>tc_boundaries := b\<rparr>)
        (set_at (tc_boundaries tb) n (of_nat (length (em_code em))))
      else Some tb)"

definition put_eip :: "bool \<Rightarrow> nat \<Rightarrow> u32 \<Rightarrow> tb_t \<Rightarrow> tb_t option" where
  "put_eip tmode n ptr tb =
     (if tmode then map_option (\<lambda>b. tb\<lparr>eip_boundaries := b\<rparr>)
        (set_at (eip_boundaries tb) n (ucast (ptr - eip_virt tb)))
      else Some tb)"

function translate_loop :: "bt_env \<Rightarrow> bool \<Rightarrow> tb_t \<Rightarrow> nat \<Rightarrow> tstate \<Rightarrow> (tb_t \<times> tstate \<times> nat \<times> u32) option" where
  "translate_loop env tmode tb n_in s =
     (if n_in < MAX_TU_SIZE then
        (case put_tc tmode n_in (ts_em s) tb of
           None \<Rightarrow> None
         | Some tb \<Rightarrow>
             (case translate_insn env tmode s of
                None \<Rightarrow> None
              | Some (s', is_terminating) \<Rightarrow>
                  (case put_eip tmode n_in (ts_ptr s') tb of
                     None \<Rightarrow> None
                   | Some tb \<Rightarrow>
                       if is_terminating then Some (tb, s', n_in + 1, ts_ptr s)
                       else translate_loop env tmode tb (n_in + 1) s')))
      else None)"
  by auto
termination by (relation "measure (\<lambda>(_, _, _, n, _). MAX_TU_SIZE - n)") auto

declare translate_loop.simps [simp del]

text \<open>
  \<open>tpage\<close> is the scratch page, where the code and the edge code of the first pass overwrite each
  other; only their lengths are used. The result has the block, the output and the module's table.
\<close>

definition translate :: "bt_env \<Rightarrow> u32 \<Rightarrow> mod_table \<Rightarrow> tb_t \<Rightarrow> bool \<Rightarrow> (tb_t \<times> emit \<times> mod_table) option" where
  "translate env tpage m tb tmode =
     (let em = \<lparr>em_cbase = (if tmode then tc_ptr tb else tpage), em_ebase = (if tmode then edge_ptr tb else tpage),
                em_code = [], em_edge = []\<rparr>
      in do {
        em \<leftarrow> (if e_inscount env then count_insns env (eip_virt tb) (num_insns tb) em else Some em);
        (tb, s, n_in, cur_addr) \<leftarrow> translate_loop env tmode tb 0
          \<lparr>ts_ptr = eip_virt tb, ts_cg = False, ts_em = em, ts_mod = m\<rparr>;
        let tb = tb\<lparr>end_eip := cur_addr\<rparr>;
        tb \<leftarrow> (if \<not> tmode then
                Some (tb\<lparr>num_insns := n_in, code_len := of_nat (length (em_code (ts_em s))),
                         edge_len := of_nat (length (em_edge (ts_em s)))\<rparr>)
              else put_tc tmode n_in (ts_em s) tb);
        Some (tb, ts_em s, ts_mod s)
      })"

end
