(* ===== verification/Insn_Reads.thy ===== *)
theory Insn_Reads
  imports Insn Regset_Props
begin

text \<open>
  What an instruction reads and sets, said from the text of the instruction and the meaning of
  the x86 mnemonics and not from the tables of \<^verbatim>\<open>peep/insn.c\<close>, and how far \<^verbatim>\<open>insn_get_usedef\<close>,
  \<^verbatim>\<open>__insn_get_usedef\<close>, \<^verbatim>\<open>insn_reads_flags\<close> and \<^verbatim>\<open>insn_sets_flags\<close> agree with it. Registers are
  pairs as in \<open>members\<close>: a machine register or a register of a rule, and its number.
\<close>

section \<open>Registers\<close>

text \<open>The bytes \<open>ah\<close> to \<open>bh\<close> are parts of the registers that hold \<open>al\<close> to \<open>bl\<close>.\<close>

fun operand_regs :: "operand \<Rightarrow> (bool \<times> int) list" where
  "operand_regs op =
     (case otype op of
        op_reg \<Rightarrow> [if otag op \<noteq> tag_const then (False, int (val_reg op))
                   else if osize op = 1 then (True, int (val_reg op) mod 4) else (True, int (val_reg op))]
      | op_mem \<Rightarrow>
          (if m_base (omem op) = - 1 then [] else [(mt_base (omtag op) = tag_const, m_base (omem op))]) @
          (if m_index (omem op) = - 1 then [] else [(mt_index (omtag op) = tag_const, m_index (omem op))])
      | _ \<Rightarrow> [])"

declare operand_regs.simps [simp del]

text \<open>The moves and \<open>lea\<close> replace their first operand; other instructions may also read it.\<close>

definition only_writes_first :: "btmod_opctable \<Rightarrow> insn \<Rightarrow> bool" where
  "only_writes_first ot i \<longleftrightarrow> (\<exists>p\<in>{''mov'', ''lea''}. take 3 (opctable_name ot (i_opc i)) = p)"

definition named_sets :: "insn \<Rightarrow> (bool \<times> int) list" where
  "named_sets i =
     (case i_op i of [] \<Rightarrow> [] | op # ops \<Rightarrow> if otype op = op_reg then operand_regs op else [])"

definition named_reads :: "btmod_opctable \<Rightarrow> insn \<Rightarrow> (bool \<times> int) list" where
  "named_reads ot i =
     (case i_op i of
        [] \<Rightarrow> []
      | op # ops \<Rightarrow>
          (if otype op = op_reg \<and> only_writes_first ot i then [] else operand_regs op) @ concat (map operand_regs ops))"

section \<open>The sets of the code\<close>

lemma mark_members:
  "regset_mark a t r = Some b \<Longrightarrow> regset_ok a \<Longrightarrow> regset_ok b \<and> members b = insert (t = tag_const, r) (members a)"
  unfolding regset_mark_def by (cases "reg_in_range t r") (use regset_put_correct [of a t r True] in auto)

lemma mark_mem_members:
  "mark_mem op a = Some b \<Longrightarrow> regset_ok a \<Longrightarrow> otype op = op_mem \<Longrightarrow>
    regset_ok b \<and> members b = set (operand_regs op) \<union> members a"
  by (auto simp: mark_mem_def operand_regs.simps split: if_splits Option.bind_splits dest!: mark_members)

lemma whole_reg_regs: "otype op = op_reg \<Longrightarrow> operand_regs op = [(otag op = tag_const, whole_reg op)]"
  by (simp add: operand_regs.simps whole_reg_def zmod_int)

text \<open>The registers the loops report: those of the later operands, and a memory operand's.\<close>

fun later_regs :: "nat \<Rightarrow> operand list \<Rightarrow> (bool \<times> int) set" where
  "later_regs i [] = {}"
| "later_regs i (op # ops) = (if i = 0 \<and> otype op = op_reg then {} else set (operand_regs op)) \<union> later_regs (i + 1) ops"

definition first_reg :: "nat \<Rightarrow> operand list \<Rightarrow> (bool \<times> int) set" where
  "first_reg i ops = (if i = 0 \<and> ops \<noteq> [] \<and> otype (hd ops) = op_reg then set (operand_regs (hd ops)) else {})"

lemma later_regs_Suc: "later_regs (Suc i) ops = set (concat (map operand_regs ops))"
  by (induction ops arbitrary: i) auto

lemma operand_regs_other: "otype op \<noteq> op_reg \<Longrightarrow> otype op \<noteq> op_mem \<Longrightarrow> operand_regs op = []"
  by (cases "otype op") (simp_all add: operand_regs.simps)

lemma usedef_loop_members:
  "usedef_loop i ops u d = Some (u', d') \<Longrightarrow> regset_ok u \<Longrightarrow> regset_ok d \<Longrightarrow>
    regset_ok u' \<and> regset_ok d' \<and> members u' = members u \<union> later_regs i ops \<and> members d' = members d \<union> first_reg i ops"
proof (induction i ops u d rule: usedef_loop.induct)
  case (2 i op ops u d)
  then show ?case
    by (cases "otype op = op_reg"; cases "otype op = op_mem")
      (auto simp: first_reg_def whole_reg_regs operand_regs_other
        split: if_splits Option.bind_splits dest!: mark_members mark_mem_members)
qed (simp add: first_reg_def)

text \<open>\<^verbatim>\<open>insn_get_usedef\<close> reports what is named, but never that the first operand is read.\<close>

lemma insn_get_usedef_members:
  assumes "insn_get_usedef i = Some (u, d)"
  shows "members d = set (named_sets i)"
    and "set (named_reads ot i) = members u \<union> (if only_writes_first ot i then {} else members d)"
proof -
  have m: "members u = later_regs 0 (i_op i)" "members d = first_reg 0 (i_op i)"
    using assms usedef_loop_members [of 0 "i_op i" regset_clear_all regset_clear_all u d] regset_clear_all_correct
    by (simp_all add: insn_get_usedef_def)
  show "members d = set (named_sets i)"
    by (cases "i_op i") (simp_all add: m named_sets_def first_reg_def)
  show "set (named_reads ot i) = members u \<union> (if only_writes_first ot i then {} else members d)"
    by (cases "i_op i") (auto simp: m named_reads_def first_reg_def later_regs_Suc [of 0, simplified])
qed

section \<open>Registers read without being named\<close>

text \<open>A mnemonic, with or without the letter of an operand size.\<close>

definition mnemonic :: "string \<Rightarrow> string \<Rightarrow> bool" where
  "mnemonic name p \<longleftrightarrow> name = p \<or> (name \<noteq> [] \<and> butlast name = p)"

lemma mnemonic_iff: "mnemonic name p \<longleftrightarrow> name = p \<or> (\<exists>c. name = p @ [c])"
  unfolding mnemonic_def by (metis append_butlast_last_id butlast_snoc snoc_eq_iff_butlast)

text \<open>The multiplications and divisions, shifts by \<open>cl\<close> and the instructions that work on the accumulator.\<close>

definition implicit_table :: "(string \<times> nat list) list" where
  "implicit_table =
     [(''mul'', [R_EAX]), (''imul'', [R_EAX]), (''div'', [R_EAX, R_EDX]), (''idiv'', [R_EAX, R_EDX]),
      (''shld'', [R_ECX]), (''shrd'', [R_ECX]), (''sahf'', [R_EAX]), (''scas'', [R_EAX, R_EDI]),
      (''cmpxchg8b'', [R_EAX, R_EBX, R_ECX, R_EDX]), (''cmpxchg'', [R_EAX]), (''xsave'', [R_EAX, R_EDX])]"

text \<open>A machine register an instruction reads: named, by its mnemonic, or for a repeat prefix.\<close>

definition reads_reg :: "btmod_opctable \<Rightarrow> nat \<Rightarrow> insn \<Rightarrow> bool" where
  "reads_reg ot r i \<longleftrightarrow>
     (True, int r) \<in> set (named_reads ot i) \<or>
     (\<exists>(p, rs)\<in>set implicit_table. mnemonic (opctable_name ot (i_opc i)) p \<and> r \<in> set rs) \<or>
     (r \<in> {R_ECX, R_ESI, R_EDI} \<and> (\<exists>op\<in>set (i_op i). otype op = op_prefix \<and> val_prefix op \<in> {1, 2}))"

definition replaces_reg :: "btmod_opctable \<Rightarrow> nat \<Rightarrow> insn \<Rightarrow> bool" where
  "replaces_reg ot r i \<longleftrightarrow> only_writes_first ot i \<and> (True, int r) \<in> set (named_sets i)"

lemma use_creg_members:
  assumes "regset_ok u" and "r < 8"
  shows "regset_ok (use_creg r u) \<and> members (use_creg r u) = insert (True, int r) (members u)"
proof -
  have "regset_put True u tag_const (int r) = Some (use_creg r u)"
    using assms by (simp add: regset_put_def set_flag_def use_creg_def regset_defs)
  then show ?thesis using mark_members [of u tag_const "int r" "use_creg r u"] assms(1) by (simp add: regset_mark_def)
qed

definition rep_regs :: "operand list \<Rightarrow> (bool \<times> int) set" where
  "rep_regs ops = (if list_ex is_rep_prefix ops then {(True, int R_ECX), (True, int R_ESI), (True, int R_EDI)} else {})"

lemma reg_bounds [simp]: "R_EAX < 8" "R_ECX < 8" "R_EDX < 8" "R_EBX < 8" "R_ESI < 8" "R_EDI < 8"
  by (simp_all add: reg_nums)

lemma usedef_rep_loop_members:
  "usedef_rep_loop i ops u d = Some (u', d') \<Longrightarrow> regset_ok u \<Longrightarrow> regset_ok d \<Longrightarrow>
    regset_ok u' \<and> regset_ok d' \<and> members u' = members u \<union> later_regs i ops \<union> rep_regs ops \<and>
    members d' = members d \<union> first_reg i ops"
proof (induction i ops u d rule: usedef_rep_loop.induct)
  case (2 i op ops u d)
  note split = if_splits Option.bind_splits
  consider "otype op = op_reg" | "otype op = op_mem" | "is_rep_prefix op" "otype op \<noteq> op_reg" "otype op \<noteq> op_mem"
    | "\<not> is_rep_prefix op" "otype op \<noteq> op_reg" "otype op \<noteq> op_mem" by blast
  then show ?case
  proof cases
    case 1
    with 2 show ?thesis
      by (auto simp: first_reg_def whole_reg_regs rep_regs_def is_rep_prefix_def split: split dest!: mark_members)
  next
    case 2
    with "2.prems" "2.IH" show ?thesis
      by (auto simp: first_reg_def rep_regs_def is_rep_prefix_def split: split dest!: mark_mem_members)
  next
    case 3
    with "2.prems" "2.IH" show ?thesis
      by (auto simp: first_reg_def operand_regs_other rep_regs_def use_creg_members split: split)
  next
    case 4
    with "2.prems" "2.IH" show ?thesis
      by (auto simp: first_reg_def operand_regs_other rep_regs_def split: split)
  qed
qed (simp add: first_reg_def rep_regs_def)

text \<open>The marks for the mnemonics only add registers, and those of the table are among them.\<close>

lemma implicit_uses_grows:
  "regset_ok u \<Longrightarrow> regset_ok (implicit_uses name u) \<and> members u \<subseteq> members (implicit_uses name u)"
  by (auto simp: implicit_uses_def Let_def use_creg_members)

lemma implicit_uses_names:
  "implicit_uses (''mul'' @ x) u = use_creg R_EAX (use_creg R_EDX u)"
  "implicit_uses (''imul'' @ x) u = use_creg R_EAX (use_creg R_EDX u)"
  "implicit_uses (''div'' @ x) u = use_creg R_EAX (use_creg R_EDX u)"
  "implicit_uses (''idiv'' @ x) u = use_creg R_EAX (use_creg R_EDX u)"
  "implicit_uses (''shld'' @ x) u = use_creg R_ECX u"
  "implicit_uses (''shrd'' @ x) u = use_creg R_ECX u"
  "implicit_uses (''sahf'' @ x) u = use_creg R_EAX u"
  "implicit_uses (''scas'' @ x) u = use_creg R_EDI (use_creg R_EAX u)"
  "implicit_uses (''cmpxchg8b'' @ x) u = use_creg R_EDX (use_creg R_ECX (use_creg R_EBX (use_creg R_EAX u)))"
  "length x \<le> 1 \<Longrightarrow> implicit_uses (''cmpxchg'' @ x) u = use_creg R_EAX u"
  "implicit_uses (''xsave'' @ x) u = use_creg R_EDX (use_creg R_EAX u)"
  by (simp_all add: implicit_uses_def starts_def) (cases x; simp)

lemma implicit_uses_table:
  assumes "regset_ok u" and "(p, rs) \<in> set implicit_table" and "mnemonic name p" and "r \<in> set rs"
  shows "(True, int r) \<in> members (implicit_uses name u)"
proof -
  obtain x where x: "name = p @ x" "length x \<le> 1"
    using assms(3) unfolding mnemonic_iff by (metis append_Nil2 le_numeral_extra(3) length_0_conv length_Cons One_nat_def order_refl zero_le)
  have m: "members (use_creg a v) = insert (True, int a) (members v)" "regset_ok (use_creg a v)"
    if "regset_ok v" "a < 8" for a v
    using use_creg_members [OF that] by blast+
  have "list_all (\<lambda>(p, rs). \<forall>r\<in>set rs. (True, int r) \<in> members (implicit_uses (p @ x) u)) implicit_table"
    unfolding implicit_table_def list.pred_inject split_conv implicit_uses_names(1-9,11) implicit_uses_names(10) [OF x(2)]
    using assms(1) by (simp add: m)
  then show ?thesis using assms(2,4) x(1) by (auto simp: list_all_iff)
qed

lemma only_writes_first_starts:
  "only_writes_first ot i \<longleftrightarrow> starts (opctable_name ot (i_opc i)) ''mov'' \<or> starts (opctable_name ot (i_opc i)) ''lea''"
proof -
  have "take 3 s = [a, b, c] \<longleftrightarrow> starts s [a, b, c]" for s :: string and a b c
    unfolding starts_append by (metis append_take_drop_id append_eq_conv_conj length_Cons list.size(3) numeral_3_eq_3)
  then show ?thesis by (simp add: only_writes_first_def)
qed

text \<open>What \<^verbatim>\<open>__insn_get_usedef\<close> does not report is not read, and what it defines is replaced or read.\<close>

lemma insn_get_usedef_implicit_reads:
  assumes ud: "insn_get_usedef_implicit ot i = Some (u, d)" and r: "r < 8"
  shows "reads_reg ot r i \<Longrightarrow> cregs u ! r"
    and "cregs d ! r \<longleftrightarrow> (True, int r) \<in> set (named_sets i)"
    and "\<not> cregs u ! r \<Longrightarrow> cregs d ! r \<Longrightarrow> replaces_reg ot r i"
proof -
  let ?name = "opctable_name ot (i_opc i)"
  obtain u0 where loop: "usedef_rep_loop 0 (i_op i) regset_clear_all regset_clear_all = Some (u0, d)"
    and u: "u = (let use = implicit_uses ?name u0 in
      if only_writes_first ot i then use else use\<lparr>cregs := map2 (\<or>) (cregs use) (cregs d)\<rparr>)"
    using ud by (auto simp: insn_get_usedef_implicit_def only_writes_first_starts Let_def split: Option.bind_splits)
  have m: "regset_ok u0" "regset_ok d" "members u0 = later_regs 0 (i_op i) \<union> rep_regs (i_op i)"
    "members d = first_reg 0 (i_op i)"
    using usedef_rep_loop_members [OF loop] regset_clear_all_correct by auto
  have cd: "cregs d ! r \<longleftrightarrow> (True, int r) \<in> members d" using m(2) r by (simp add: members_const regset_defs)
  have "members d = set (named_sets i)"
    by (cases "i_op i") (simp_all add: m named_sets_def first_reg_def)
  then show sets: "cregs d ! r \<longleftrightarrow> (True, int r) \<in> set (named_sets i)" by (simp add: cd)
  let ?v = "implicit_uses ?name u0"
  have v: "regset_ok ?v" "members u0 \<subseteq> members ?v" using implicit_uses_grows [OF m(1)] by blast+
  have cv: "cregs ?v ! r \<longleftrightarrow> (True, int r) \<in> members ?v" using v(1) r by (simp add: members_const regset_defs)
  have cu: "cregs u ! r \<longleftrightarrow> cregs ?v ! r \<or> \<not> only_writes_first ot i \<and> cregs d ! r"
    using v(1) m(2) r by (simp add: u Let_def regset_defs)
  show "\<not> cregs u ! r \<Longrightarrow> cregs d ! r \<Longrightarrow> replaces_reg ot r i"
    using cu sets by (auto simp: replaces_reg_def)
  assume "reads_reg ot r i"
  then consider "(True, int r) \<in> set (named_reads ot i)"
    | p rs where "(p, rs) \<in> set implicit_table" "mnemonic ?name p" "r \<in> set rs"
    | "r \<in> {R_ECX, R_ESI, R_EDI}" "list_ex is_rep_prefix (i_op i)"
    by (auto simp: reads_reg_def list_ex_iff is_rep_prefix_def PREFIX_REPZ_def PREFIX_REPNZ_def)
  then show "cregs u ! r"
  proof cases
    case 1
    then have "(True, int r) \<in> members u0 \<or> \<not> only_writes_first ot i \<and> (True, int r) \<in> members d"
      by (cases "i_op i") (auto simp: m named_reads_def first_reg_def later_regs_Suc [of 0, simplified] split: if_splits)
    then show ?thesis using v(2) cu cv cd by blast
  next
    case 2
    then show ?thesis using implicit_uses_table [OF m(1)] cu cv by blast
  next
    case 3
    then have "(True, int r) \<in> members u0" by (auto simp: m rep_regs_def)
    then show ?thesis using v(2) cu cv by blast
  qed
qed

section \<open>Status flags\<close>

text \<open>
  The x86 instructions that read a status flag: conditional jumps, sets and moves, and those that
  work with the carry or adjust flag, store the flags or test them. Moves and the others may have
  the letter of an operand size.
\<close>

definition conditions :: "string list" where
  "conditions =
     [''o'', ''no'', ''b'', ''c'', ''nae'', ''ae'', ''nb'', ''nc'', ''e'', ''z'', ''ne'', ''nz'', ''be'', ''na'', ''a'', ''nbe'',
      ''s'', ''ns'', ''p'', ''pe'', ''np'', ''po'', ''l'', ''nge'', ''ge'', ''nl'', ''le'', ''ng'', ''g'', ''nle'']"

definition sized :: "string list \<Rightarrow> string list" where
  "sized names = concat (map (\<lambda>n. [n, n @ ''b'', n @ ''w'', n @ ''l'']) names)"

definition status_readers :: "string list" where
  "status_readers =
     map ((@) ''j'') conditions @ map ((@) ''set'') conditions @ sized (map ((@) ''cmov'') conditions) @
     map ((@) ''fcmov'') [''b'', ''e'', ''be'', ''u'', ''nb'', ''ne'', ''nbe'', ''nu''] @
     sized [''adc'', ''sbb'', ''rcl'', ''rcr'', ''pushf'', ''lahf'', ''int'', ''into'', ''loope'', ''loopz'', ''loopne'',
            ''loopnz'', ''cmc'', ''salc'', ''aaa'', ''aas'', ''daa'', ''das'']"

text \<open>
  Those that \<^verbatim>\<open>insn_reads_flags\<close> takes for others of a shorter name with one more letter:
  \<open>pushf\<close> for \<open>push\<close>, \<open>salc\<close> for \<open>sal\<close> and \<open>sete\<close> for \<open>set\<close>.
\<close>

definition missed_readers :: "string list" where
  "missed_readers = [''pushf'', ''salc''] @ map ((@) ''set'') (filter (\<lambda>c. length c = 1) conditions)"

definition reads_status :: "btmod_opctable \<Rightarrow> insn \<Rightarrow> bool" where
  "reads_status ot i \<longleftrightarrow> opctable_name ot (i_opc i) \<in> set status_readers"

definition missed_reader :: "btmod_opctable \<Rightarrow> insn \<Rightarrow> bool" where
  "missed_reader ot i \<longleftrightarrow> opctable_name ot (i_opc i) \<in> set missed_readers"

text \<open>
  The instructions after which no status flag has its old value that the code may still use: those
  of arithmetic, logic and comparison, \<open>popf\<close>, and a return by the calling convention. A string
  comparison counts also when it is repeated, although with a count of zero it leaves the flags.
\<close>

definition replaces_status :: "btmod_opctable \<Rightarrow> insn \<Rightarrow> bool" where
  "replaces_status ot i \<longleftrightarrow>
     (\<exists>p\<in>{''add'', ''adc'', ''sub'', ''sbb'', ''neg'', ''cmp'', ''cmpxchg'', ''test'', ''and'', ''or'', ''xor'', ''mul'', ''imul'',
          ''div'', ''idiv'', ''scas'', ''popf'', ''ret''}. mnemonic (opctable_name ot (i_opc i)) p)"

lemma opcode_matches_mnemonic: "opcode_matches opc p \<longleftrightarrow> mnemonic opc p"
proof -
  have "opcode_matches opc p \<longleftrightarrow> (\<exists>x. opc = p @ x \<and> length x \<le> 1)"
  proof (cases "strstart opc p")
    case None
    then have "opc \<noteq> p @ x" for x using strstart_Some [of opc p x] by simp
    with None show ?thesis by (simp add: opcode_matches_def)
  next
    case (Some x)
    then have "opc = p @ x" by (simp add: strstart_Some)
    with Some show ?thesis by (simp add: opcode_matches_def)
  qed
  moreover have "length x \<le> 1 \<longleftrightarrow> x = [] \<or> (\<exists>c. x = [c])" for x :: string by (cases x) auto
  ultimately show ?thesis by (auto simp: mnemonic_iff)
qed

lemma insn_sets_flags_replaces: "insn_sets_flags ot i \<Longrightarrow> replaces_status ot i"
  unfolding insn_sets_flags_def replaces_status_def list_ex_iff opcode_matches_mnemonic by auto

text \<open>Every other reader is recognised.\<close>

definition name_reads :: "string \<Rightarrow> bool" where
  "name_reads n = insn_reads_flags (opctable_init\<lparr>nametable := [n]\<rparr>) \<lparr>i_opc = 0, i_op = []\<rparr>"

lemma insn_reads_flags_name: "insn_reads_flags ot i \<longleftrightarrow> name_reads (opctable_name ot (i_opc i))"
  by (simp add: name_reads_def insn_reads_flags_def insn_sets_flags_def opctable_name_def)

lemma name_reads_groups:
  "strstart c ''mp'' = None \<Longrightarrow> name_reads (''j'' @ c)"
  "2 \<le> length c \<Longrightarrow> name_reads (''set'' @ c)"
  "name_reads (''cmov'' @ c)"
  "name_reads (''fcmov'' @ c)"
  by (simp_all add: name_reads_def insn_reads_flags_def insn_sets_flags_def opctable_name_def opcode_matches_def)

lemma name_reads_sized:
  "list_all (\<lambda>n. n \<in> {''pushf'', ''salc''} \<or> name_reads n)
     (sized [''adc'', ''sbb'', ''rcl'', ''rcr'', ''pushf'', ''lahf'', ''int'', ''into'', ''loope'', ''loopz'', ''loopne'',
            ''loopnz'', ''cmc'', ''salc'', ''aaa'', ''aas'', ''daa'', ''das''])"
  by code_simp

lemma conditions_jump: "list_all (\<lambda>c. strstart c ''mp'' = None \<and> c \<noteq> []) conditions"
  by code_simp

lemma status_readers_seen: "n \<in> set status_readers \<Longrightarrow> n \<in> set missed_readers \<or> name_reads n"
proof -
  assume "n \<in> set status_readers"
  then consider c where "c \<in> set conditions" "n = ''j'' @ c" | c where "c \<in> set conditions" "n = ''set'' @ c"
    | c where "n = ''cmov'' @ c" | c where "n = ''fcmov'' @ c" | "n \<in> {''pushf'', ''salc''}" | "name_reads n"
    using name_reads_sized unfolding status_readers_def
    by (auto simp: list_all_iff sized_def simp del: append.simps(2))
  then show ?thesis
  proof cases
    case (2 c)
    then have "c \<noteq> []" using conditions_jump unfolding list_all_iff by blast
    then have "length c = 1 \<or> 2 \<le> length c" by (cases c) (auto simp: Suc_le_eq)
    with 2 show ?thesis using name_reads_groups(2) by (auto simp: missed_readers_def)
  qed (use conditions_jump name_reads_groups in \<open>auto simp: list_all_iff missed_readers_def\<close>)
qed

lemma reads_status_reads_flags: "reads_status ot i \<Longrightarrow> \<not> missed_reader ot i \<Longrightarrow> insn_reads_flags ot i"
  using status_readers_seen by (auto simp: reads_status_def missed_reader_def insn_reads_flags_name)

text \<open>And those are indeed missed.\<close>

lemma missed_readers_missed: "list_all (\<lambda>n. n \<in> set status_readers \<and> \<not> name_reads n) missed_readers"
  by code_simp

end
