(* ===== verification/Instrument_Props.thy ===== *)
theory Instrument_Props
  imports Instrument Insn_Reads
begin

text \<open>
  The scan of \<^verbatim>\<open>check_dead_flags_and_tregs\<close> against a specification of deadness: flags or a
  register are dead at an address when the straight-line code from there sets them before it
  uses them. The scan is first related to what \<^verbatim>\<open>peep/insn.c\<close> reports of the instructions, and
  then to what the instructions read and set by their operands and mnemonics (Insn_Reads).
\<close>

section \<open>Deadness\<close>

inductive dead_at ::
    "(u32 \<Rightarrow> insn \<times> nat) \<Rightarrow> (insn \<Rightarrow> bool) \<Rightarrow> (insn \<Rightarrow> bool) \<Rightarrow> (insn \<Rightarrow> bool) \<Rightarrow> u32 \<Rightarrow> bool"
  for dis uses sets_it ends where
  dead_here: "dis a = (i, n) \<Longrightarrow> \<not> uses i \<Longrightarrow> sets_it i \<Longrightarrow> dead_at dis uses sets_it ends a"
| dead_later: "dis a = (i, n) \<Longrightarrow> \<not> uses i \<Longrightarrow> \<not> ends i \<Longrightarrow> dead_at dis uses sets_it ends (a + of_nat n) \<Longrightarrow>
    dead_at dis uses sets_it ends a"

definition flags_dead :: "bt_env \<Rightarrow> u32 \<Rightarrow> bool" where
  "flags_dead env =
     dead_at (e_disas env) (insn_reads_flags (e_ot env)) (insn_sets_flags (e_ot env)) (insn_is_terminating (e_ot env))"

definition reg_uses :: "bt_env \<Rightarrow> nat \<Rightarrow> insn \<Rightarrow> bool" where
  "reg_uses env r i = (case insn_get_usedef_implicit (e_ot env) i of None \<Rightarrow> True | Some (u, d) \<Rightarrow> cregs u ! r)"

definition reg_defs :: "bt_env \<Rightarrow> nat \<Rightarrow> insn \<Rightarrow> bool" where
  "reg_defs env r i = (case insn_get_usedef_implicit (e_ot env) i of None \<Rightarrow> False | Some (u, d) \<Rightarrow> cregs d ! r)"

definition reg_dead :: "bt_env \<Rightarrow> nat \<Rightarrow> u32 \<Rightarrow> bool" where
  "reg_dead env r = dead_at (e_disas env) (reg_uses env r) (reg_defs env r) (insn_is_terminating (e_ot env))"

text \<open>The code from an address reaches an instruction that ends the block.\<close>

inductive block_ends :: "bt_env \<Rightarrow> u32 \<Rightarrow> bool" for env where
  ends_here: "e_disas env a = (i, n) \<Longrightarrow> insn_is_terminating (e_ot env) i \<Longrightarrow> block_ends env a"
| ends_later: "e_disas env a = (i, n) \<Longrightarrow> insn_get_usedef_implicit (e_ot env) i \<noteq> None \<Longrightarrow>
    block_ends env (a + of_nat n) \<Longrightarrow> block_ends env a"

lemma flags_dead_here:
  "e_disas env a = (i, n) \<Longrightarrow> \<not> insn_reads_flags (e_ot env) i \<Longrightarrow> insn_sets_flags (e_ot env) i \<Longrightarrow> flags_dead env a"
  unfolding flags_dead_def by (rule dead_here)

lemma flags_dead_later:
  "e_disas env a = (i, n) \<Longrightarrow> \<not> insn_reads_flags (e_ot env) i \<Longrightarrow> \<not> insn_is_terminating (e_ot env) i \<Longrightarrow>
    flags_dead env (a + of_nat n) \<Longrightarrow> flags_dead env a"
  unfolding flags_dead_def by (rule dead_later)

lemma reg_dead_here:
  "e_disas env a = (i, n) \<Longrightarrow> \<not> reg_uses env r i \<Longrightarrow> reg_defs env r i \<Longrightarrow> reg_dead env r a"
  unfolding reg_dead_def by (rule dead_here)

lemma reg_dead_later:
  "e_disas env a = (i, n) \<Longrightarrow> \<not> reg_uses env r i \<Longrightarrow> \<not> insn_is_terminating (e_ot env) i \<Longrightarrow>
    reg_dead env r (a + of_nat n) \<Longrightarrow> reg_dead env r a"
  unfolding reg_dead_def by (rule dead_later)

section \<open>One instruction\<close>

lemma scan_flags_fields [simp]:
  "sc_treg (scan_flags env i st) = sc_treg st" "sc_opt (scan_flags env i st) = sc_opt st"
  "sc_treg_possible (scan_flags env i st) = sc_treg_possible st" "sc_temp (scan_flags env i st) = sc_temp st"
  by (simp_all add: scan_flags_def)

lemma scan_flags_dead:
  "sc_dead (scan_flags env i st) \<Longrightarrow> sc_dead st \<or>
     (sc_flag_possible st \<and> \<not> insn_reads_flags (e_ot env) i \<and> insn_sets_flags (e_ot env) i)"
  "sc_flag_possible (scan_flags env i st) \<Longrightarrow> sc_flag_possible st \<and> \<not> insn_reads_flags (e_ot env) i"
  by (auto simp: scan_flags_def split: if_splits)

text \<open>Either a register that is not used but defined is chosen, or the used ones are struck out.\<close>

definition chosen :: "scan \<Rightarrow> scan \<Rightarrow> nat \<Rightarrow> bool" where
  "chosen st st' r \<longleftrightarrow> sc_opt st' = int r \<and> sc_treg st' = int r \<and> sc_temp st ! r"

definition kept :: "scan \<Rightarrow> scan \<Rightarrow> bool" where
  "kept st st' \<longleftrightarrow> sc_opt st' = sc_opt st \<and> sc_treg st' = sc_treg st"

lemma scan_regs_correct:
  assumes "\<forall>r\<in>set rs. r < length (sc_temp st)" and "distinct rs"
  shows "length (sc_temp (scan_regs use def rs st)) = length (sc_temp st) \<and>
    sc_dead (scan_regs use def rs st) = sc_dead st \<and>
    sc_flag_possible (scan_regs use def rs st) = sc_flag_possible st \<and>
    ((\<exists>r\<in>set rs. chosen st (scan_regs use def rs st) r \<and> \<not> cregs use ! r \<and> cregs def ! r \<and>
        \<not> sc_treg_possible (scan_regs use def rs st)) \<or>
     (kept st (scan_regs use def rs st) \<and>
        (\<forall>r. sc_temp (scan_regs use def rs st) ! r \<longrightarrow> sc_temp st ! r \<and> (r \<in> set rs \<longrightarrow> \<not> cregs use ! r))))"
  using assms
proof (induction rs arbitrary: st)
  case Nil
  then show ?case by (simp add: kept_def)
next
  case (Cons r rs)
  define st1 where "st1 = (if sc_temp st ! r \<and> cregs use ! r then st\<lparr>sc_temp := (sc_temp st)[r := False]\<rparr> else st)"
  have st1: "length (sc_temp st1) = length (sc_temp st)" "sc_dead st1 = sc_dead st"
    "sc_flag_possible st1 = sc_flag_possible st" "kept st st1" "sc_temp st1 ! r \<longleftrightarrow> sc_temp st ! r \<and> \<not> cregs use ! r"
    using Cons.prems(1) by (auto simp: st1_def kept_def)
  have other: "sc_temp st1 ! k \<longleftrightarrow> sc_temp st ! k" if "k \<noteq> r" for k
    using that by (simp add: st1_def)
  have step: "scan_regs use def (r # rs) st =
      (if sc_temp st1 ! r then
         if cregs def ! r then st1\<lparr>sc_opt := int r, sc_treg := int r, sc_treg_possible := False\<rparr>
         else scan_regs use def rs (st1\<lparr>sc_treg_possible := True\<rparr>)
       else scan_regs use def rs st1)"
    by (simp add: st1_def Let_def)
  show ?case
  proof (cases "sc_temp st1 ! r \<and> cregs def ! r")
    case True
    then show ?thesis using step st1 by (simp add: chosen_def)
  next
    case False
    define st2 where "st2 = (if sc_temp st1 ! r then st1\<lparr>sc_treg_possible := True\<rparr> else st1)"
    have res: "scan_regs use def (r # rs) st = scan_regs use def rs st2" using False step by (simp add: st2_def)
    have st2: "length (sc_temp st2) = length (sc_temp st)" "sc_dead st2 = sc_dead st"
      "sc_flag_possible st2 = sc_flag_possible st" "kept st st2" "sc_temp st2 = sc_temp st1"
      using st1 by (auto simp: st2_def kept_def)
    have IH: "length (sc_temp (scan_regs use def rs st2)) = length (sc_temp st2) \<and>
      sc_dead (scan_regs use def rs st2) = sc_dead st2 \<and>
      sc_flag_possible (scan_regs use def rs st2) = sc_flag_possible st2 \<and>
      ((\<exists>r\<in>set rs. chosen st2 (scan_regs use def rs st2) r \<and> \<not> cregs use ! r \<and> cregs def ! r \<and>
          \<not> sc_treg_possible (scan_regs use def rs st2)) \<or>
       (kept st2 (scan_regs use def rs st2) \<and>
          (\<forall>r. sc_temp (scan_regs use def rs st2) ! r \<longrightarrow> sc_temp st2 ! r \<and> (r \<in> set rs \<longrightarrow> \<not> cregs use ! r))))"
      by (rule Cons.IH) (use Cons.prems st2(1) in auto)
    have prev: "sc_temp st2 ! k \<Longrightarrow> sc_temp st ! k \<and> (k = r \<longrightarrow> \<not> cregs use ! r)" for k
      using st1(5) other [of k] st2(5) by (cases "k = r") auto
    show ?thesis
      unfolding res
      using IH st2(1-4) prev by (fastforce simp: chosen_def kept_def)
  qed
qed

section \<open>The whole scan\<close>

definition scan_ok :: "bt_env \<Rightarrow> nat \<Rightarrow> u32 \<Rightarrow> scan \<Rightarrow> scan \<Rightarrow> bool" where
  "scan_ok env n a st st' \<longleftrightarrow>
     (sc_dead st' \<longrightarrow> sc_dead st \<or> (sc_flag_possible st \<and> flags_dead env a)) \<and>
     (kept st st' \<or> (sc_treg_possible st \<and> (\<exists>r<n. chosen st st' r \<and> reg_dead env r a)))"

lemma scan_ok_flags:
  assumes "e_disas env a = (i, len)"
  shows "scan_ok env n a st (scan_flags env i st)"
  using scan_flags_dead(1) [of env i st] flags_dead_here [OF assms] by (auto simp: scan_ok_def kept_def)

lemma scan_ok_later:
  assumes d: "e_disas env a = (i, len)" and t: "\<not> insn_is_terminating (e_ot env) i"
    and ud: "insn_get_usedef_implicit (e_ot env) i = Some (use, def)" and n: "n \<le> length (sc_temp st)"
    and st1: "st1 = scan_flags env i st"
    and st2: "st2 = (if sc_treg_possible st1 then scan_regs use def [0..<n] (st1\<lparr>sc_treg_possible := False\<rparr>) else st1)"
    and rest: "scan_ok env n (a + of_nat len) st2 st'"
  shows "scan_ok env n a st st'"
proof -
  let ?r = "scan_regs use def [0..<n] (st1\<lparr>sc_treg_possible := False\<rparr>)"
  have r: "sc_dead ?r = sc_dead st1" "sc_flag_possible ?r = sc_flag_possible st1"
    "(\<exists>r<n. chosen st1 ?r r \<and> \<not> cregs use ! r \<and> cregs def ! r \<and> \<not> sc_treg_possible ?r) \<or>
     (kept st1 ?r \<and> (\<forall>r. sc_temp ?r ! r \<longrightarrow> sc_temp st1 ! r \<and> (r < n \<longrightarrow> \<not> cregs use ! r)))"
    using scan_regs_correct [of "[0..<n]" "st1\<lparr>sc_treg_possible := False\<rparr>" use "def"] n st1
    by (simp_all add: chosen_def kept_def Bex_def)
  have flags: "sc_dead st2 = sc_dead st1" "sc_flag_possible st2 = sc_flag_possible st1" using r(1,2) by (simp_all add: st2)
  have one: "sc_dead st' \<longrightarrow> sc_dead st \<or> (sc_flag_possible st \<and> flags_dead env a)"
    using rest scan_flags_dead [of env i st] flags_dead_here [OF d] flags_dead_later [OF d _ t]
    unfolding scan_ok_def flags st1 by blast
  have ux: "reg_uses env r i = cregs use ! r" "reg_defs env r i = cregs def ! r" for r
    by (simp_all add: reg_uses_def reg_defs_def ud)
  have two: "kept st st' \<or> (sc_treg_possible st \<and> (\<exists>r<n. chosen st st' r \<and> reg_dead env r a))"
  proof (cases "sc_treg_possible st")
    case False
    then show ?thesis using rest by (simp add: scan_ok_def st2 st1 kept_def)
  next
    case True
    then have s2: "st2 = ?r" by (simp add: st2 st1)
    show ?thesis
    proof (cases "\<exists>r<n. chosen st1 ?r r \<and> \<not> cregs use ! r \<and> cregs def ! r \<and> \<not> sc_treg_possible ?r")
      case True
      then obtain r where "r < n" "chosen st1 ?r r" "\<not> cregs use ! r" "cregs def ! r" "\<not> sc_treg_possible ?r" by blast
      moreover then have "kept ?r st'" using rest by (simp add: scan_ok_def s2)
      ultimately show ?thesis
        using reg_dead_here [OF d, of r] \<open>sc_treg_possible st\<close>
        by (auto simp: ux chosen_def kept_def st1 intro!: exI [of _ r])
    next
      case False
      then have k: "kept st1 ?r" "\<And>r. sc_temp ?r ! r \<Longrightarrow> sc_temp st1 ! r \<and> (r < n \<longrightarrow> \<not> cregs use ! r)"
        using r(3) by blast+
      from rest consider "kept ?r st'" | r where "r < n" "chosen ?r st' r" "reg_dead env r (a + of_nat len)"
        by (auto simp: scan_ok_def s2)
      then show ?thesis
      proof cases
        case 1
        with k(1) show ?thesis by (simp add: kept_def st1)
      next
        case 2
        then have "sc_temp st1 ! r" "\<not> cregs use ! r" using k(2) [of r] by (auto simp: chosen_def)
        with 2 \<open>sc_treg_possible st\<close> reg_dead_later [OF d, of r] t show ?thesis
          by (auto simp: ux chosen_def st1 intro!: exI [of _ r])
      qed
    qed
  qed
  from one two show ?thesis by (simp add: scan_ok_def)
qed

lemma scan_loop_correct:
  assumes "block_ends env a" and "n \<le> length (sc_temp st)"
  shows "\<exists>st'. scan_loop env n a st = Some st' \<and> scan_ok env n a st st'"
  using assms
proof (induction arbitrary: st rule: block_ends.induct)
  case (ends_here a i len)
  then show ?case
    using scan_ok_flags [OF ends_here(1), of n st] by (subst scan_loop.simps) (simp add: Let_def)
next
  case (ends_later a i len)
  define st1 where "st1 = scan_flags env i st"
  obtain use "def" where ud: "insn_get_usedef_implicit (e_ot env) i = Some (use, def)"
    using ends_later(2) by auto
  define st2 where
    "st2 = (if sc_treg_possible st1 then scan_regs use def [0..<n] (st1\<lparr>sc_treg_possible := False\<rparr>) else st1)"
  show ?case
  proof (cases "insn_is_terminating (e_ot env) i \<or> (\<not> sc_flag_possible st1 \<and> \<not> sc_treg_possible st1)")
    case True
    then show ?thesis
      using scan_ok_flags [OF ends_later(1), of n st] ends_later(1)
      by (subst scan_loop.simps) (simp add: Let_def st1_def)
  next
    case False
    have "length (sc_temp st2) = length (sc_temp st)"
      using scan_regs_correct [of "[0..<n]" "st1\<lparr>sc_treg_possible := False\<rparr>" use "def"] ends_later.prems
      by (simp add: st2_def st1_def)
    then obtain st' where st': "scan_loop env n (a + of_nat len) st2 = Some st'" "scan_ok env n (a + of_nat len) st2 st'"
      using ends_later.IH [of st2] ends_later.prems by auto
    have "scan_loop env n a st = Some st'"
      using False st'(1) ends_later(1) ud
      by (subst scan_loop.simps) (auto simp: Let_def st1_def st2_def split: if_splits)
    with scan_ok_later [OF ends_later(1) _ ud ends_later.prems st1_def st2_def st'(2)] False
    show ?thesis by blast
  qed
qed

lemma flags_scan_correct:
  "block_ends env a \<Longrightarrow> \<exists>d. check_if_flags_are_dead env a = Some d \<and> (d \<longrightarrow> flags_dead env a)"
proof (induction rule: block_ends.induct)
  case (ends_here a i n)
  then show ?case
    using flags_dead_here [OF ends_here(1)] by (subst check_if_flags_are_dead.simps) auto
next
  case (ends_later a i n)
  then show ?case
    using flags_dead_here [OF ends_later(1)] flags_dead_later [OF ends_later(1)]
    by (subst check_if_flags_are_dead.simps) auto
qed

section \<open>A piece of code\<close>

text \<open>\<^verbatim>\<open>mov (%ebx), %ecx; cmp %edx, %eax; ret\<close> at address 1000, and an emitter that writes one byte for
a rule and three with an edge for the rule of \<^verbatim>\<open>ret\<close>.\<close>

definition code_ot :: btmod_opctable where
  "code_ot = opctable_init\<lparr>nametable := [''(bad)'', ''mov'', ''cmp'', ''ret'']\<rparr>"

definition code_reg :: "nat \<Rightarrow> operand" where
  "code_reg r = scalar_operand op_reg 4 (of_nat r) tag_const"

definition code_load :: operand where
  "code_load = blank_operand\<lparr>otype := op_mem, osize := 4,
     omem := (omem blank_operand)\<lparr>m_addrsize := 4, m_base := 3, m_index := - 1, m_seg := 3\<rparr>\<rparr>"

definition code_mov :: insn where "code_mov = \<lparr>i_opc = 1, i_op = [code_reg 1, code_load, blank_operand]\<rparr>"
definition code_cmp :: insn where "code_cmp = \<lparr>i_opc = 2, i_op = [code_reg 0, code_reg 2, blank_operand]\<rparr>"
definition code_ret :: insn where "code_ret = \<lparr>i_opc = 3, i_op = [blank_operand, blank_operand, blank_operand]\<rparr>"

definition code_insn :: "u32 \<Rightarrow> insn \<times> nat" where
  "code_insn a = (if a = 1000 then (code_mov, 3) else if a = 1003 then (code_cmp, 2) else (code_ret, 1))"

definition code_rule :: peep_entry where
  "code_rule = \<lparr>pe_tmpl = [code_ret], pe_label = 7,
     pe_temporaries = [], pe_constraints = DEFAULT_CPU_CONSTRAINTS, pe_nomatch = []\<rparr>"

definition code_env :: bt_env where
  "code_env = \<lparr>e_ot = code_ot, e_disas = code_insn,
     e_gen = (\<lambda>label params o1 e1 f. if label = 7 then ([0x68, 0xe9, 0x90], [0xc3], False) else ([0x90], [], False)),
     e_mem = (\<lambda>a. ucast a), e_label = (\<lambda>s. int (length s)), e_rules = [code_rule],
     e_tab = \<lparr>elem_cnt = 1, bucket_cnt = 1, buckets = [[0]], min_bucket_count = 1\<rparr>,
     e_ext = extable_start, e_shadow_idt = False, e_shadowmem = 0, e_oldkernel = True, e_inscount = False\<rparr>"

lemma code_env_fields [simp]:
  "e_ot code_env = code_ot" "e_disas code_env = code_insn" "e_ext code_env = extable_start"
  "e_shadow_idt code_env = False" "e_shadowmem code_env = 0" "e_inscount code_env = False"
  by (simp_all add: code_env_def)

lemma code_insn_cases [simp]:
  "code_insn 1000 = (code_mov, 3)" "code_insn 1003 = (code_cmp, 2)" "code_insn 1005 = (code_ret, 1)"
  by (simp_all add: code_insn_def)

lemma code_terminating [simp]:
  "insn_is_terminating code_ot code_mov = False" "insn_is_terminating code_ot code_cmp = False"
  "insn_is_terminating code_ot code_ret = True"
  by code_simp+

lemma code_flags [simp]:
  "insn_reads_flags code_ot code_mov = False" "insn_sets_flags code_ot code_mov = False"
  "insn_reads_flags code_ot code_cmp = False" "insn_sets_flags code_ot code_cmp = True"
  by code_simp+

lemma code_usedef [simp]:
  "insn_get_usedef_implicit code_ot code_mov =
     Some (regset_clear_all\<lparr>cregs := [False, False, False, True, False, False, False, False]\<rparr>,
           regset_clear_all\<lparr>cregs := [False, True, False, False, False, False, False, False]\<rparr>)"
  "insn_get_usedef_implicit code_ot code_cmp =
     Some (regset_clear_all\<lparr>cregs := [True, False, True, False, False, False, False, False]\<rparr>,
           regset_clear_all\<lparr>cregs := [True, False, False, False, False, False, False, False]\<rparr>)"
  by code_simp+

lemma code_block_ends: "block_ends code_env 1000"
proof -
  have "block_ends code_env 1005" by (rule ends_here [of _ _ code_ret 1]) simp_all
  then have "block_ends code_env 1003" by (intro ends_later [of _ 1003 code_cmp 2]) simp_all
  then show ?thesis by (intro ends_later [of _ 1000 code_mov 3]) simp_all
qed

section \<open>The property\<close>

text \<open>The scan, in the terms of the code's own tables.\<close>

lemma check_dead_scan:
  assumes "block_ends env a" and "n \<le> 8" and "insn_get_usedef_implicit (e_ot env) insn \<noteq> None"
  shows "\<exists>treg opt dead. check_dead_flags_and_tregs env a rep insn n = Some (treg, opt, dead) \<and>
    (dead \<longrightarrow> flags_dead env a) \<and>
    (opt \<noteq> - 1 \<longrightarrow> treg = opt \<and> (\<exists>r<n. opt = int r \<and> r \<noteq> R_ESP \<and> reg_dead env r a)) \<and>
    (opt = - 1 \<and> \<not> rep \<and> treg \<noteq> - 1 \<longrightarrow>
       (\<exists>r<n. treg = int r \<and> r \<noteq> R_ESP \<and> \<not> reg_uses env r insn \<and> \<not> reg_defs env r insn)) \<and>
    (opt = - 1 \<and> rep \<longrightarrow> treg = int R_EBX)"
proof -
  obtain use "def" where ud: "insn_get_usedef_implicit (e_ot env) insn = Some (use, def)" using assms(3) by auto
  define c where "c = find (\<lambda>r. sc_temp scan_start ! r \<and> \<not> cregs use ! r \<and> \<not> cregs def ! r) [0..<n]"
  define st where "st =
    (if rep then scan_start\<lparr>sc_temp := (sc_temp scan_start)[R_ECX := False, R_ESI := False, R_EDI := False], sc_treg := int R_EBX\<rparr>
     else case c of None \<Rightarrow> scan_start | Some r \<Rightarrow> scan_start\<lparr>sc_treg := int r\<rparr>)"
  have chk: "check_dead_flags_and_tregs env a rep insn n =
      map_option (\<lambda>st. (sc_treg st, sc_opt st, sc_dead st)) (scan_loop env n a st)"
    by (simp add: check_dead_flags_and_tregs_def ud c_def st_def split: option.splits)
  have st: "sc_opt st = - 1" "\<not> sc_dead st" "length (sc_temp st) = 8" "\<not> sc_temp st ! R_ESP"
    by (auto simp: st_def scan_start_def reg_nums split: option.splits)
  have temp4: "\<not> sc_temp scan_start ! R_ESP" by (simp add: scan_start_def reg_nums)
  obtain st' where st': "scan_loop env n a st = Some st'" "scan_ok env n a st st'"
    using scan_loop_correct [OF assms(1), of n st] assms(2) st(3) by auto
  have start: "\<not> rep \<and> sc_treg st \<noteq> - 1 \<longrightarrow>
      (\<exists>r<n. sc_treg st = int r \<and> r \<noteq> R_ESP \<and> \<not> reg_uses env r insn \<and> \<not> reg_defs env r insn)"
  proof (cases c)
    case None
    then show ?thesis by (simp add: st_def scan_start_def)
  next
    case (Some r)
    then have "r < n" "sc_temp scan_start ! r" "\<not> cregs use ! r" "\<not> cregs def ! r"
      using find_SomeD [OF Some [unfolded c_def]] by auto
    moreover then have "r \<noteq> R_ESP" using temp4 by auto
    ultimately show ?thesis using Some by (auto simp: st_def reg_uses_def reg_defs_def ud)
  qed
  have rep: "rep \<longrightarrow> sc_treg st = int R_EBX" by (simp add: st_def)
  have "sc_opt st' \<noteq> - 1 \<longrightarrow> (\<exists>r<n. sc_opt st' = int r \<and> sc_treg st' = int r \<and> r \<noteq> R_ESP \<and> reg_dead env r a)"
    and "sc_opt st' = - 1 \<longrightarrow> sc_treg st' = sc_treg st" and "sc_dead st' \<longrightarrow> flags_dead env a"
    using st'(2) st by (auto simp: scan_ok_def kept_def chosen_def)
  with start rep st'(1) chk show ?thesis by auto
qed

text \<open>Deadness for what is read and replaced, and how it follows from the above.\<close>

lemma dead_at_mono:
  assumes "dead_at dis uses sets_it ends a"
    and "\<And>i. \<not> uses i \<Longrightarrow> \<not> uses' i" and "\<And>i. \<not> uses i \<Longrightarrow> sets_it i \<Longrightarrow> sets' i"
  shows "dead_at dis uses' sets' ends a"
  using assms(1)
proof (induction rule: dead_at.induct)
  case (dead_here a i n)
  then show ?case using assms(2,3) by (blast intro: dead_at.dead_here)
next
  case (dead_later a i n)
  then show ?case using assms(2) by (blast intro: dead_at.dead_later)
qed

lemma flags_dead_status:
  "flags_dead env a \<Longrightarrow>
    dead_at (e_disas env) (\<lambda>i. reads_status (e_ot env) i \<and> \<not> missed_reader (e_ot env) i) (replaces_status (e_ot env))
      (insn_is_terminating (e_ot env)) a"
  unfolding flags_dead_def
  by (erule dead_at_mono) (auto simp: insn_sets_flags_replaces dest: reads_status_reads_flags)

lemma reg_uses_reads: "r < 8 \<Longrightarrow> \<not> reg_uses env r i \<Longrightarrow> \<not> reads_reg (e_ot env) r i"
  by (auto simp: reg_uses_def split: option.splits dest: insn_get_usedef_implicit_reads(1))

lemma reg_dead_replaced:
  assumes "reg_dead env r a" and "r < 8"
  shows "dead_at (e_disas env) (reads_reg (e_ot env) r) (replaces_reg (e_ot env) r) (insn_is_terminating (e_ot env)) a"
  using assms(1) unfolding reg_dead_def
proof (rule dead_at_mono)
  show "\<not> reg_uses env r i \<Longrightarrow> \<not> reads_reg (e_ot env) r i" for i by (rule reg_uses_reads [OF assms(2)])
  show "\<not> reg_uses env r i \<Longrightarrow> reg_defs env r i \<Longrightarrow> replaces_reg (e_ot env) r i" for i
    using insn_get_usedef_implicit_reads(3) [OF _ assms(2)]
    by (auto simp: reg_uses_def reg_defs_def split: option.splits)
qed

text \<open>
  C26. When the code from an address reaches the end of a block, the scan returns. If it reports
  the flags dead, the code from there comes to an instruction that replaces the status flags
  before any that reads one, where \<open>sete\<close> and the other sets of one condition letter, \<open>pushf\<close> and
  \<open>salc\<close> do not count as readers: the code misses these. If it reports a register that need not
  be saved, that register is the one to use, is not the stack pointer, and the code from there
  comes to a move or \<open>lea\<close> into it before any instruction that names it in an operand it reads,
  or reads it by the table of mnemonics or a repeat prefix. Reads by mnemonics that are not in the
  table (\<open>cltd\<close>, \<open>cwtl\<close>, \<open>cpuid\<close>) are not seen, and a move into a part of a register counts as
  one into all of it. A register that has to be saved is not one the instruction itself reads or
  sets, and for a repeated string instruction it is EBX.
\<close>

theorem check_dead_correct:
  assumes "block_ends env a" and "n \<le> 8" and "insn_get_usedef_implicit (e_ot env) insn \<noteq> None"
  shows "\<exists>treg opt dead. check_dead_flags_and_tregs env a rep insn n = Some (treg, opt, dead) \<and>
    (dead \<longrightarrow> dead_at (e_disas env) (\<lambda>i. reads_status (e_ot env) i \<and> \<not> missed_reader (e_ot env) i)
       (replaces_status (e_ot env)) (insn_is_terminating (e_ot env)) a) \<and>
    (opt \<noteq> - 1 \<longrightarrow> treg = opt \<and> (\<exists>r<n. opt = int r \<and> r \<noteq> R_ESP \<and>
       dead_at (e_disas env) (reads_reg (e_ot env) r) (replaces_reg (e_ot env) r) (insn_is_terminating (e_ot env)) a)) \<and>
    (opt = - 1 \<and> \<not> rep \<and> treg \<noteq> - 1 \<longrightarrow>
       (\<exists>r<n. treg = int r \<and> r \<noteq> R_ESP \<and> \<not> reads_reg (e_ot env) r insn \<and> (True, int r) \<notin> set (named_sets insn))) \<and>
    (opt = - 1 \<and> rep \<longrightarrow> treg = int R_EBX)"
proof -
  obtain treg opt dead where chk: "check_dead_flags_and_tregs env a rep insn n = Some (treg, opt, dead)"
    and flags: "dead \<longrightarrow> flags_dead env a"
    and opt: "opt \<noteq> - 1 \<longrightarrow> treg = opt \<and> (\<exists>r<n. opt = int r \<and> r \<noteq> R_ESP \<and> reg_dead env r a)"
    and save: "opt = - 1 \<and> \<not> rep \<and> treg \<noteq> - 1 \<longrightarrow>
      (\<exists>r<n. treg = int r \<and> r \<noteq> R_ESP \<and> \<not> reg_uses env r insn \<and> \<not> reg_defs env r insn)"
    and rep: "opt = - 1 \<and> rep \<longrightarrow> treg = int R_EBX"
    using check_dead_scan [OF assms] by blast
  have r8: "r < n \<Longrightarrow> r < 8" for r using assms(2) by simp
  have sets: "(True, int r) \<notin> set (named_sets insn)" if "r < n" "\<not> reg_defs env r insn" for r
    using that assms(3) insn_get_usedef_implicit_reads(2) [OF _ r8] by (fastforce simp: reg_defs_def)
  have "opt \<noteq> - 1 \<longrightarrow> treg = opt \<and> (\<exists>r<n. opt = int r \<and> r \<noteq> R_ESP \<and>
      dead_at (e_disas env) (reads_reg (e_ot env) r) (replaces_reg (e_ot env) r) (insn_is_terminating (e_ot env)) a)"
    using opt reg_dead_replaced [OF _ r8] by blast
  moreover have "opt = - 1 \<and> \<not> rep \<and> treg \<noteq> - 1 \<longrightarrow>
      (\<exists>r<n. treg = int r \<and> r \<noteq> R_ESP \<and> \<not> reads_reg (e_ot env) r insn \<and> (True, int r) \<notin> set (named_sets insn))"
    using save reg_uses_reads [OF r8] sets by blast
  ultimately show ?thesis using chk flags flags_dead_status rep by blast
qed

theorem check_dead_correct_witness:
  "\<exists>r<8. check_dead_flags_and_tregs code_env 1000 False (fst (code_insn 1000)) 8 = Some (int r, int r, True) \<and>
     r \<noteq> R_ESP \<and> dead_at code_insn (reads_reg code_ot r) (replaces_reg code_ot r) (insn_is_terminating code_ot) 1000 \<and>
     dead_at code_insn (\<lambda>i. reads_status code_ot i \<and> \<not> missed_reader code_ot i) (replaces_status code_ot)
       (insn_is_terminating code_ot) 1000"
proof -
  have u: "insn_get_usedef_implicit (e_ot code_env) (fst (code_insn 1000)) \<noteq> None" by simp
  have e: "check_dead_flags_and_tregs code_env 1000 False (fst (code_insn 1000)) 8 = Some (1, 1, True)"
    by (simp add: check_dead_flags_and_tregs_def scan_start_def scan_loop.simps scan_flags_def upt_rec)
  have d: "e_disas code_env = code_insn" by (simp add: code_env_def)
  from check_dead_correct [OF code_block_ends _ u, of 8 False] e show ?thesis by (auto simp: d)
qed

end
