(* ===== verification/Translate_Props.thy ===== *)
theory Translate_Props
  imports Translate Instrument_Props
begin

text \<open>
  The two passes of the translator agree: the second one fills exactly the memory that the first
  one measured, and the boundaries it records make a well-formed block.
\<close>

section \<open>One instruction\<close>

text \<open>
  Assumptions on the decoder and the generator: an instruction is not empty, the code for a rule
  or a snippet is not empty, and with the instrumentation on only the string instructions it has
  snippets for are repeated.
\<close>

definition has_snippet :: "bt_env \<Rightarrow> insn \<Rightarrow> bool" where
  "has_snippet env insn \<longleftrightarrow>
     (let opc = opctable_name (e_ot env) (i_opc insn)
      in starts opc ''movs'' \<or> starts opc ''stos'' \<or> starts opc ''cmps'' \<or> starts opc ''scas'')"

definition decodes :: "bt_env \<Rightarrow> bool" where
  "decodes env \<longleftrightarrow> (\<forall>a. 0 < snd (e_disas env a) \<and>
     (e_shadow_idt env \<and> insn_has_rep_prefix (fst (e_disas env a)) \<longrightarrow> has_snippet env (fst (e_disas env a))))"

definition generates :: "bt_env \<Rightarrow> bool" where
  "generates env \<longleftrightarrow> (\<forall>label params o1 e1 f. fst (e_gen env label params o1 e1 f) \<noteq> [])"

definition longer :: "emit \<Rightarrow> emit \<Rightarrow> bool" where
  "longer em em' \<longleftrightarrow> extends em em' \<and> length (em_code em) < length (em_code em')"

lemma longer_trans1: "longer a b \<Longrightarrow> extends b c \<Longrightarrow> longer a c"
  by (auto simp: longer_def extends_def)

lemma longer_trans2: "extends a b \<Longrightarrow> longer b c \<Longrightarrow> longer a c"
  by (auto simp: longer_def extends_def)

lemma longer_emit_bytes: "c \<noteq> [] \<Longrightarrow> longer em (emit_bytes c e em)"
  by (auto simp: longer_def) (simp add: emit_bytes_def)

lemma longer_peepgen_code: "generates env \<Longrightarrow> longer em (fst (peepgen_code env label params f em))"
  by (auto simp: peepgen_code_def generates_def split: prod.splits intro!: longer_emit_bytes) (metis fst_conv)

lemma longer_peepgen_emit: "generates env \<Longrightarrow> longer em (peepgen_emit_code env label params em)"
  by (simp add: peepgen_emit_code_def longer_peepgen_code)

lemma peep_translate_longer:
  assumes "generates env" and "peep_translate env insns f em = Some (peep, em', t)"
  shows "extends em em'" and "peep \<Longrightarrow> longer em em'"
proof -
  show "extends em em'" using assms(2) by (rule extends_peep_translate)
  show "longer em em'" if peep
    using assms(2) that longer_peepgen_code [OF assms(1)]
    by (auto simp: peep_translate_def Let_def split: option.splits prod.splits) (metis fst_conv)
qed

lemma save_and_check_extends:
  assumes "save_and_check env d o' t body em = Some em'" and "\<And>x x'. body x = Some x' \<Longrightarrow> extends x x'"
  shows "extends em em'" and "(\<And>x x'. body x = Some x' \<Longrightarrow> longer x x') \<Longrightarrow> longer em em'"
proof -
  let ?e = "\<lambda>c l p x. if c then peepgen_emit_code env l p x else x"
  have e: "extends x (?e c l p x)" for c l p x by simp
  let ?pre = "?e (o' = - 1) (e_label env ''push_treg'') [t] (?e (\<not> d) (e_label env ''pushfl'') [] em)"
  obtain x where x: "body ?pre = Some x"
    "em' = ?e (\<not> d) (e_label env ''popfl'') [] (?e (o' = - 1) (e_label env ''pop_treg'') [t] x)"
    using assms(1) by (auto simp: save_and_check_def Let_def split: option.splits)
  have pre: "extends em ?pre" by (rule extends_trans [OF e e])
  have post: "extends x em'" unfolding x(2) by (rule extends_trans [OF e e])
  show "extends em em'"
    using extends_trans [OF extends_trans [OF pre assms(2) [OF x(1)]] post] .
  show "longer em em'" if "\<And>x x'. body x = Some x' \<Longrightarrow> longer x x'"
    using longer_trans1 [OF longer_trans2 [OF pre that [OF x(1)]] post] .
qed

lemma extends_gen_shadow_code: "extends em (gen_shadow_code env insn j s t z eip em)"
  by (simp add: gen_shadow_code_def Let_def)

lemma extends_gen_shadow_str_code:
  "gen_shadow_str_code env insn s t z eip em = Some em' \<Longrightarrow> extends em em'"
  by (auto simp: gen_shadow_str_code_def Let_def split: if_splits option.splits)

lemma longer_gen_shadow_str_code:
  "generates env \<Longrightarrow> has_snippet env insn \<Longrightarrow> gen_shadow_str_code env insn s t z eip em = Some em' \<Longrightarrow> longer em em'"
  by (auto simp: gen_shadow_str_code_def has_snippet_def Let_def longer_peepgen_emit split: if_splits option.splits)

lemma instrument_memory_longer:
  assumes "instrument_memory env eip insn em = Some (g, em')"
  shows "extends em em'" and "generates env \<Longrightarrow> g \<Longrightarrow> (insn_has_rep_prefix insn \<longrightarrow> has_snippet env insn) \<Longrightarrow> longer em em'"
proof -
  have rp: "rp = insn_has_rep_prefix insn" if "instrument_decide env eip insn = Some (Some (j, s, rp, z, t, o', d))" for j s rp z t o' d
    using that by (auto simp: instrument_decide_def Let_def split: prod.splits bool.splits option.splits if_splits)
  have "extends em em' \<and> (generates env \<longrightarrow> g \<longrightarrow> (insn_has_rep_prefix insn \<longrightarrow> has_snippet env insn) \<longrightarrow> longer em em')"
  proof (cases "instrument_decide env eip insn")
    case None
    with assms show ?thesis by (simp add: instrument_memory_def)
  next
    case (Some r)
    show ?thesis
    proof (cases r)
      case None
      with Some assms show ?thesis by (auto simp: instrument_memory_def)
    next
      case (Some x)
      obtain j s rp z t o' d where x: "x = (j, s, rp, z, t, o', d)" by (cases x) auto
      let ?body = "if \<not> rp then \<lambda>em. Some (gen_shadow_code env insn j s t z eip em)
                 else gen_shadow_str_code env insn s t z eip"
      have sc: "save_and_check env d o' t ?body em = Some em'" "g = rp"
        using assms \<open>instrument_decide env eip insn = Some r\<close> Some x by (auto simp: instrument_memory_def)
      have ext: "extends y y'" if "?body y = Some y'" for y y'
        using that extends_gen_shadow_code extends_gen_shadow_str_code by (cases rp) auto
      have "longer em em'" if "generates env" g "insn_has_rep_prefix insn \<longrightarrow> has_snippet env insn"
      proof (rule save_and_check_extends(2) [OF sc(1) ext])
        have "has_snippet env insn"
          using that rp [of j s rp z t o' d] sc(2) x \<open>instrument_decide env eip insn = Some r\<close> Some by simp
        then show "longer y y'" if "?body y = Some y'" for y y'
          using that longer_gen_shadow_str_code [OF \<open>generates env\<close>] sc(2) \<open>g\<close> by auto
      qed
      with save_and_check_extends(1) [OF sc(1) ext] show ?thesis by blast
    qed
  qed
  then show "extends em em'" "generates env \<Longrightarrow> g \<Longrightarrow> (insn_has_rep_prefix insn \<longrightarrow> has_snippet env insn) \<Longrightarrow> longer em em'"
    by simp_all
qed

text \<open>
  Every instruction adds code. A \<open>code_generated\<close> left over from an earlier instruction matters
  only without instrumentation, where it stays false.
\<close>

lemma emit_insn_longer:
  assumes e: "emit_insn env a i cg em = Some (cg', em', t)" and g: "generates env" and n: "0 < snd i"
    and rep: "e_shadow_idt env \<and> insn_has_rep_prefix (fst i) \<longrightarrow> has_snippet env (fst i)"
    and cg: "\<not> (e_shadow_idt env \<and> e_shadowmem env > 0) \<longrightarrow> \<not> cg"
  shows "longer em em'" and "\<not> (e_shadow_idt env \<and> e_shadowmem env > 0) \<longrightarrow> \<not> cg'"
proof -
  obtain cg1 em1 peep em2 clears where
    i: "(if e_shadow_idt env \<and> e_shadowmem env > 0 then instrument_memory env a (fst i) em else Some (cg, em)) = Some (cg1, em1)"
    and p: "peep_translate env [fst i] (a + of_nat (snd i)) em1 = Some (peep, em2, clears)"
    and r: "cg' = cg1" "em' = (if \<not> peep \<and> \<not> cg1 then emit_bytes (mode_translate (e_mem env) a (snd i)) [] em2 else em2)"
    using e unfolding emit_insn_def Let_def by (auto split: option.splits prod.splits)
  have e1: "extends em em1" "cg1 \<Longrightarrow> longer em em1"
    using i cg instrument_memory_longer [of env a "fst i" em cg1 em1] g rep by (auto split: if_splits)
  note e2 = peep_translate_longer [OF g p]
  have m: "mode_translate (e_mem env) a (snd i) \<noteq> []" using n by (simp add: mode_translate_def)
  show "longer em em'"
  proof (cases peep)
    case True
    then show ?thesis using r(2) longer_trans2 [OF e1(1) e2(2)] by simp
  next
    case False
    show ?thesis
    proof (cases cg1)
      case True
      then show ?thesis using r(2) longer_trans1 [OF e1(2) e2(1)] by simp
    next
      case c: False
      have "longer em2 em'" using \<open>\<not> peep\<close> c r(2) longer_emit_bytes [OF m] by simp
      then show ?thesis using longer_trans2 [OF extends_trans [OF e1(1) e2(1)]] by blast
    qed
  qed
  show "\<not> (e_shadow_idt env \<and> e_shadowmem env > 0) \<longrightarrow> \<not> cg'" using i r(1) cg by (auto split: if_splits)
qed

lemma emit_insn_growth:
  assumes "position_free env" and "emit_insn env a i cg em = Some (cg', em', t)"
  shows "\<exists>em2'. emit_insn env a i cg em2 = Some (cg', em2', t) \<and> same_growth em em' em2 em2'"
proof -
  obtain em1 peep emp clears where
    i: "(if e_shadow_idt env \<and> e_shadowmem env > 0 then instrument_memory env a (fst i) em else Some (cg, em)) = Some (cg', em1)"
    and p: "peep_translate env [fst i] (a + of_nat (snd i)) em1 = Some (peep, emp, clears)"
    and r: "em' = (if \<not> peep \<and> \<not> cg' then emit_bytes (mode_translate (e_mem env) a (snd i)) [] emp else emp)"
      "t = (peep \<and> (insn_is_terminating (e_ot env) (fst i) \<and> \<not> clears))"
    using assms(2) unfolding emit_insn_def Let_def by (auto split: option.splits prod.splits)
  obtain b1 where
    b1: "(if e_shadow_idt env \<and> e_shadowmem env > 0 then instrument_memory env a (fst i) em2 else Some (cg, em2)) = Some (cg', b1)"
    "same_growth em em1 em2 b1"
    using i instrument_memory_growth [OF assms(1), of a "fst i" em cg' em1 em2] by (auto split: if_splits)
  obtain b2 where b2: "peep_translate env [fst i] (a + of_nat (snd i)) b1 = Some (peep, b2, clears)" "same_growth em1 emp b1 b2"
    using peep_translate_growth [OF assms(1) p] by blast
  let ?b' = "if \<not> peep \<and> \<not> cg' then emit_bytes (mode_translate (e_mem env) a (snd i)) [] b2 else b2"
  have "same_growth emp em' b2 ?b'" by (simp add: r(1) same_growth_emit_bytes)
  then have "same_growth em em' em2 ?b'"
    using same_growth_trans [OF same_growth_trans [OF b1(2) b2(2)]] by blast
  moreover have "emit_insn env a i cg em2 = Some (cg', ?b', t)"
    using b1(1) b2(1) r(2) by (simp add: emit_insn_def Let_def)
  ultimately show ?thesis by blast
qed

lemma note_exception_defined: "extable_ok (e_ext env) \<Longrightarrow> \<exists>m'. note_exception env tmode a out m = Some m'"
  using search_exception_tables_ok [of "e_ext env" a]
  by (auto simp: note_exception_def split: option.splits)

section \<open>Traces of the loop\<close>

text \<open>The states after each instruction, from the state before the first one to the end of the block.\<close>

fun trace :: "bt_env \<Rightarrow> bool \<Rightarrow> tstate \<Rightarrow> tstate list \<Rightarrow> bool" where
  "trace env tmode s [] = False"
| "trace env tmode s [s'] = (translate_insn env tmode s = Some (s', True))"
| "trace env tmode s (s' # s'' # rs) = (translate_insn env tmode s = Some (s', False) \<and> trace env tmode s' (s'' # rs))"

lemma trace_nonempty [simp]: "trace env tmode s rs \<Longrightarrow> rs \<noteq> []"
  by (cases rs) auto

lemma trace_step:
  "trace env tmode s rs \<Longrightarrow> i < length rs \<Longrightarrow>
    translate_insn env tmode ((s # rs) ! i) = Some (rs ! i, i + 1 = length rs)"
proof (induction env tmode s rs arbitrary: i rule: trace.induct)
  case (3 env tmode s s' s'' rs)
  then show ?case by (cases i) auto
qed auto

text \<open>The boundaries that the second pass records along a trace.\<close>

definition tc_entries :: "tstate list \<Rightarrow> u16 list" where
  "tc_entries ss = map (\<lambda>s. of_nat (length (em_code (ts_em s)))) ss"

definition eip_entries :: "u32 \<Rightarrow> tstate list \<Rightarrow> u16 list" where
  "eip_entries eip ss = map (\<lambda>s. ucast (ts_ptr s - eip)) ss"

definition overwrite :: "nat \<Rightarrow> 'a list \<Rightarrow> 'a list \<Rightarrow> 'a list" where
  "overwrite n ys xs = take n xs @ ys @ drop (n + length ys) xs"

lemma overwrite_Cons:
  "n < length xs \<Longrightarrow> overwrite (Suc n) ys (xs[n := y]) = overwrite n (y # ys) xs"
  by (simp add: overwrite_def take_Suc_conv_app_nth drop_update_cancel)

lemma overwrite_one: "n < length xs \<Longrightarrow> xs[n := y] = overwrite n [y] xs"
  by (simp add: overwrite_def upd_conv_take_nth_drop)

lemma loop_trace_first:
  "trace env False s rs \<Longrightarrow> n + length rs \<le> MAX_TU_SIZE \<Longrightarrow>
    translate_loop env False tb n s = Some (tb, last rs, n + length rs, ts_ptr (last (s # butlast rs)))"
proof (induction env "False" s rs arbitrary: n rule: trace.induct)
  case (2 env s s')
  then show ?case by (subst translate_loop.simps) (simp add: put_tc_def put_eip_def)
next
  case (3 env s s' s'' rs)
  then show ?case by (subst translate_loop.simps) (simp add: put_tc_def put_eip_def)
qed simp

lemma loop_trace_second:
  "trace env True s rs \<Longrightarrow> n + length rs \<le> MAX_TU_SIZE \<Longrightarrow>
    n + length rs \<le> length (tc_boundaries tb) \<Longrightarrow> n + length rs \<le> length (eip_boundaries tb) \<Longrightarrow>
    translate_loop env True tb n s =
      Some (tb\<lparr>tc_boundaries := overwrite n (tc_entries (s # butlast rs)) (tc_boundaries tb),
               eip_boundaries := overwrite n (eip_entries (eip_virt tb) rs) (eip_boundaries tb)\<rparr>,
            last rs, n + length rs, ts_ptr (last (s # butlast rs)))"
proof (induction env "True" s rs arbitrary: n tb rule: trace.induct)
  case (2 env s s')
  then show ?case
    by (subst translate_loop.simps)
      (simp add: put_tc_def put_eip_def set_at_def tc_entries_def eip_entries_def overwrite_one)
next
  case (3 env s s' s'' rs)
  then show ?case
    by (subst translate_loop.simps)
      (simp add: put_tc_def put_eip_def set_at_def tc_entries_def eip_entries_def overwrite_Cons)
qed simp

text \<open>A trace of the first pass gives one of any pass whose output is elsewhere.\<close>

definition alike :: "tstate \<Rightarrow> tstate \<Rightarrow> bool" where
  "alike s s2 \<longleftrightarrow> ts_ptr s2 = ts_ptr s \<and> ts_cg s2 = ts_cg s"

lemma translate_insn_growth:
  assumes "position_free env" and "extable_ok (e_ext env)"
    and "translate_insn env tmode s = Some (s', t)" and "alike s s2"
  shows "\<exists>s2'. translate_insn env tmode2 s2 = Some (s2', t) \<and> alike s' s2' \<and>
    same_growth (ts_em s) (ts_em s') (ts_em s2) (ts_em s2')"
proof -
  let ?i = "e_disas env (ts_ptr s)"
  obtain cg em m where e: "emit_insn env (ts_ptr s) ?i (ts_cg s) (ts_em s) = Some (cg, em, t)"
    "s' = \<lparr>ts_ptr = ts_ptr s + of_nat (snd ?i), ts_cg = cg, ts_em = em, ts_mod = m\<rparr>"
    using assms(3) by (auto simp: translate_insn_def Let_def split: option.splits)
  obtain em2 where e2: "emit_insn env (ts_ptr s) ?i (ts_cg s) (ts_em s2) = Some (cg, em2, t)"
    "same_growth (ts_em s) em (ts_em s2) em2"
    using emit_insn_growth [OF assms(1) e(1)] by blast
  obtain m2 where "note_exception env tmode2 (ts_ptr s) (optr (ts_em s2)) (ts_mod s2) = Some m2"
    using note_exception_defined [OF assms(2)] by blast
  with e e2 assms(4) show ?thesis
    by (auto simp: translate_insn_def Let_def alike_def)
qed

lemma trace_growth:
  "trace env tmode s rs \<Longrightarrow> position_free env \<Longrightarrow> extable_ok (e_ext env) \<Longrightarrow> alike s s2 \<Longrightarrow>
    \<exists>rs2. trace env tmode2 s2 rs2 \<and> length rs2 = length rs \<and> alike (last rs) (last rs2) \<and>
      alike (last (s # butlast rs)) (last (s2 # butlast rs2)) \<and>
      same_growth (ts_em s) (ts_em (last rs)) (ts_em s2) (ts_em (last rs2))"
proof (induction env tmode s rs arbitrary: s2 rule: trace.induct)
  case (1 env tmode s)
  then show ?case by simp
next
  case (2 env tmode s s')
  then obtain s2' where "translate_insn env tmode2 s2 = Some (s2', True)" "alike s' s2'"
    "same_growth (ts_em s) (ts_em s') (ts_em s2) (ts_em s2')"
    using translate_insn_growth [of env tmode s s' True s2 tmode2] by auto
  with 2 show ?case by (intro exI [of _ "[s2']"]) simp
next
  case (3 env tmode s s' s'' rs)
  obtain s2' where s2': "translate_insn env tmode2 s2 = Some (s2', False)" "alike s' s2'"
    "same_growth (ts_em s) (ts_em s') (ts_em s2) (ts_em s2')"
    using translate_insn_growth [of env tmode s s' False s2 tmode2] 3 by auto
  obtain rs2 where rs2: "trace env tmode2 s2' rs2" "length rs2 = length (s'' # rs)" "alike (last (s'' # rs)) (last rs2)"
    "alike (last (s' # butlast (s'' # rs))) (last (s2' # butlast rs2))"
    "same_growth (ts_em s') (ts_em (last (s'' # rs))) (ts_em s2') (ts_em (last rs2))"
    using "3.IH" [of s2'] "3.prems" s2'(2) by auto
  obtain r2 rs2' where r: "rs2 = r2 # rs2'" using trace_nonempty [OF rs2(1)] by (cases rs2) auto
  have "trace env tmode2 s2 (s2' # rs2)" using s2'(1) rs2(1) r by simp
  moreover have "same_growth (ts_em s) (ts_em (last (s' # s'' # rs))) (ts_em s2) (ts_em (last (s2' # rs2)))"
    using same_growth_trans [OF s2'(3) rs2(5)] r by simp
  ultimately show ?case
    using rs2 r by (intro exI [of _ "s2' # rs2"]) (simp split: if_splits)
qed

section \<open>Blocks that end\<close>

text \<open>
  Within \<open>k\<close> instructions from \<open>p\<close> there is one whose code ends the block: it is terminating
  and a rule matches it whose code does not continue the block.
\<close>

fun ends_within :: "bt_env \<Rightarrow> nat \<Rightarrow> u32 \<Rightarrow> bool \<Rightarrow> bool" where
  "ends_within env 0 p cg = False"
| "ends_within env (Suc k) p cg =
     (case emit_insn env p (e_disas env p) cg \<lparr>em_cbase = 0, em_ebase = 0, em_code = [], em_edge = []\<rparr> of
        None \<Rightarrow> False
      | Some (cg', em, t) \<Rightarrow> t \<or> ends_within env k (p + of_nat (snd (e_disas env p))) cg')"

lemma ends_trace:
  "ends_within env k (ts_ptr s) (ts_cg s) \<Longrightarrow> position_free env \<Longrightarrow>
    \<exists>rs. trace env False s rs \<and> length rs \<le> k \<and> ts_mod (last rs) = ts_mod s"
proof (induction k arbitrary: s)
  case (Suc k)
  let ?i = "e_disas env (ts_ptr s)"
  obtain cg' em0 t where e0: "emit_insn env (ts_ptr s) ?i (ts_cg s) \<lparr>em_cbase = 0, em_ebase = 0, em_code = [], em_edge = []\<rparr> = Some (cg', em0, t)"
    "t \<or> ends_within env k (ts_ptr s + of_nat (snd ?i)) cg'"
    using Suc.prems(1) by (auto split: option.splits)
  obtain em where e: "emit_insn env (ts_ptr s) ?i (ts_cg s) (ts_em s) = Some (cg', em, t)"
    using emit_insn_growth [OF Suc.prems(2) e0(1)] by blast
  define s' where "s' = \<lparr>ts_ptr = ts_ptr s + of_nat (snd ?i), ts_cg = cg', ts_em = em, ts_mod = ts_mod s\<rparr>"
  have step: "translate_insn env False s = Some (s', t)"
    using e by (simp add: translate_insn_def note_exception_def Let_def s'_def)
  show ?case
  proof (cases t)
    case True
    with step show ?thesis by (intro exI [of _ "[s']"]) (simp add: s'_def)
  next
    case False
    then obtain rs where rs: "trace env False s' rs" "length rs \<le> k" "ts_mod (last rs) = ts_mod s'"
      using Suc.IH [of s'] Suc.prems(2) e0(2) by (auto simp: s'_def)
    then obtain r rs' where "rs = r # rs'" by (cases rs) auto
    with rs step False show ?thesis by (intro exI [of _ "s' # rs"]) (simp add: s'_def)
  qed
qed simp

section \<open>Boundaries\<close>

text \<open>The bytes of the first instructions from \<open>p\<close>.\<close>

fun code_bytes :: "bt_env \<Rightarrow> u32 \<Rightarrow> nat \<Rightarrow> nat" where
  "code_bytes env p 0 = 0"
| "code_bytes env p (Suc k) = code_bytes env p k + snd (e_disas env (p + of_nat (code_bytes env p k)))"

definition no_leftover :: "bt_env \<Rightarrow> tstate \<Rightarrow> bool" where
  "no_leftover env s \<longleftrightarrow> (\<not> (e_shadow_idt env \<and> e_shadowmem env > 0) \<longrightarrow> \<not> ts_cg s)"

lemma translate_insn_step:
  assumes "translate_insn env tmode s = Some (s', t)" and "generates env" and "decodes env" and "no_leftover env s"
  shows "ts_ptr s' = ts_ptr s + of_nat (snd (e_disas env (ts_ptr s)))" and "longer (ts_em s) (ts_em s')"
    and "no_leftover env s'"
proof -
  let ?i = "e_disas env (ts_ptr s)"
  obtain cg em where e: "emit_insn env (ts_ptr s) ?i (ts_cg s) (ts_em s) = Some (cg, em, t)"
    "ts_ptr s' = ts_ptr s + of_nat (snd ?i)" "ts_cg s' = cg" "ts_em s' = em"
    using assms(1) by (auto simp: translate_insn_def Let_def split: option.splits)
  have d: "0 < snd ?i" "e_shadow_idt env \<and> insn_has_rep_prefix (fst ?i) \<longrightarrow> has_snippet env (fst ?i)"
    using assms(3) by (simp_all add: decodes_def)
  note l = emit_insn_longer [OF e(1) assms(2) d assms(4) [unfolded no_leftover_def]]
  show "ts_ptr s' = ts_ptr s + of_nat (snd (e_disas env (ts_ptr s)))" by (rule e(2))
  show "longer (ts_em s) (ts_em s')" "no_leftover env s'" using l e by (simp_all add: no_leftover_def)
qed

text \<open>Along a trace, the pointer advances by the instructions and the code grows.\<close>

lemma trace_states:
  assumes "trace env tmode s rs" and "generates env" and "decodes env" and "no_leftover env s"
  shows "i \<le> length rs \<Longrightarrow>
    ts_ptr ((s # rs) ! i) = ts_ptr s + of_nat (code_bytes env (ts_ptr s) i) \<and> no_leftover env ((s # rs) ! i)"
    and "i < length rs \<Longrightarrow> longer (ts_em ((s # rs) ! i)) (ts_em (rs ! i))"
proof -
  have main: "i \<le> length rs \<Longrightarrow>
    ts_ptr ((s # rs) ! i) = ts_ptr s + of_nat (code_bytes env (ts_ptr s) i) \<and> no_leftover env ((s # rs) ! i)" for i
  proof (induction i)
    case 0
    then show ?case using assms(4) by simp
  next
    case (Suc i)
    note step = translate_insn_step [OF trace_step [OF assms(1)] assms(2,3), of i]
    from Suc step show ?case by simp
  qed
  then show "i \<le> length rs \<Longrightarrow>
    ts_ptr ((s # rs) ! i) = ts_ptr s + of_nat (code_bytes env (ts_ptr s) i) \<and> no_leftover env ((s # rs) ! i)" .
  show "longer (ts_em ((s # rs) ! i)) (ts_em (rs ! i))" if "i < length rs"
    using translate_insn_step(2) [OF trace_step [OF assms(1) that] assms(2,3)] main [of i] that by simp
qed

lemma trace_extends:
  assumes "trace env tmode s rs" and "generates env" and "decodes env" and "no_leftover env s"
  shows "j \<le> length rs \<Longrightarrow> i \<le> j \<Longrightarrow> extends (ts_em ((s # rs) ! i)) (ts_em ((s # rs) ! j))"
proof (induction j)
  case (Suc j)
  show ?case
  proof (cases "i = Suc j")
    case False
    then have "extends (ts_em ((s # rs) ! i)) (ts_em ((s # rs) ! j))" using Suc by simp
    moreover have "extends (ts_em ((s # rs) ! j)) (ts_em ((s # rs) ! Suc j))"
      using trace_states(2) [OF assms, of j] Suc.prems by (simp add: longer_def)
    ultimately show ?thesis by (rule extends_trans)
  qed simp
qed simp

text \<open>The block with the boundaries of a trace.\<close>

definition block_of :: "tb_t \<Rightarrow> tstate \<Rightarrow> tstate list \<Rightarrow> tb_t" where
  "block_of tb s rs = tb\<lparr>end_eip := ts_ptr (last (s # butlast rs)),
     tc_boundaries := tc_entries (s # rs), eip_boundaries := eip_entries (eip_virt tb) rs\<rparr>"

lemma unat_of_nat16: "n < 2 ^ 16 \<Longrightarrow> unat (of_nat n :: u16) = n"
  by (simp add: unat_of_nat take_bit_nat_eq_self)

lemma unat_ucast_of_nat32: "n < 2 ^ 16 \<Longrightarrow> unat (ucast (of_nat n :: u32) :: u16) = n"
proof -
  assume n: "n < 2 ^ 16"
  then have "unat (of_nat n :: u32) = n" by (simp add: unat_of_nat take_bit_nat_eq_self)
  with n show ?thesis by (simp add: unsigned_ucast_eq take_bit_nat_eq_self)
qed

lemma block_of_offsets:
  assumes tr: "trace env tmode s rs" and gd: "generates env" "decodes env" "no_leftover env s"
    and start: "ts_ptr s = eip_virt tb" "em_code (ts_em s) = []" and n: "num_insns tb = length rs"
    and fits: "length (em_code (ts_em (last rs))) < 2 ^ 16" "code_bytes env (eip_virt tb) (length rs) < 2 ^ 16"
  shows "i \<le> length rs \<Longrightarrow> tc_off (block_of tb s rs) i = length (em_code (ts_em ((s # rs) ! i)))"
    and "i \<le> length rs \<Longrightarrow> eip_off (block_of tb s rs) i = code_bytes env (eip_virt tb) i"
proof -
  have last: "last rs = (s # rs) ! length rs"
    using trace_nonempty [OF tr] by (metis last_conv_nth last_ConsR length_Cons diff_Suc_1 list.distinct(1))
  show "tc_off (block_of tb s rs) i = length (em_code (ts_em ((s # rs) ! i)))" if i: "i \<le> length rs"
  proof -
    have "length (em_code (ts_em ((s # rs) ! i))) < 2 ^ 16"
      using trace_extends [OF tr gd order_refl i] fits(1) by (auto simp: extends_def last)
    moreover have "tc_boundaries (block_of tb s rs) ! i = of_nat (length (em_code (ts_em ((s # rs) ! i))))"
      using i unfolding block_of_def tc_entries_def by (simp del: list.map)
    ultimately show ?thesis by (simp add: tc_off_def unat_of_nat16)
  qed
  have mono: "code_bytes env p a \<le> code_bytes env p b" if "a \<le> b" for a b p
    using that by (induction b) (auto simp: le_Suc_eq)
  show "eip_off (block_of tb s rs) i = code_bytes env (eip_virt tb) i" if i: "i \<le> length rs"
  proof (cases i)
    case 0
    then show ?thesis by (simp add: eip_off_def)
  next
    case (Suc k)
    have "code_bytes env (eip_virt tb) i < 2 ^ 16" using mono [OF i] fits(2) by (rule le_less_trans)
    moreover have "ts_ptr (rs ! k) - eip_virt tb = of_nat (code_bytes env (eip_virt tb) i)"
      using trace_states(1) [OF tr gd, of i] i Suc start(1) by (simp del: code_bytes.simps)
    ultimately show ?thesis
      using i Suc by (simp add: eip_off_def block_of_def eip_entries_def unat_ucast_of_nat32 del: code_bytes.simps)
  qed
qed

lemma block_of_wf:
  assumes tr: "trace env tmode s rs" and gd: "generates env" "decodes env" "no_leftover env s"
    and start: "ts_ptr s = eip_virt tb" "em_code (ts_em s) = []" and n: "num_insns tb = length rs"
    and fits: "length (em_code (ts_em (last rs))) < 2 ^ 16" "code_bytes env (eip_virt tb) (length rs) < 2 ^ 16"
    and top: "unat (eip_virt tb) + code_bytes env (eip_virt tb) (length rs) < 2 ^ 32"
      "unat (tc_ptr tb) + length (em_code (ts_em (last rs))) < 2 ^ 32"
  shows "tb_wf (block_of tb s rs)"
proof -
  note off = block_of_offsets [OF assms(1-9)]
  have last: "last rs = (s # rs) ! length rs"
    using trace_nonempty [OF tr] by (metis last_conv_nth last_ConsR length_Cons diff_Suc_1 list.distinct(1))
  let ?tb = "block_of tb s rs"
  have f: "num_insns ?tb = length rs" "eip_virt ?tb = eip_virt tb" "tc_ptr ?tb = tc_ptr tb"
    "length (eip_boundaries ?tb) = length rs" "length (tc_boundaries ?tb) = length rs + 1"
    using n by (simp_all add: block_of_def eip_entries_def tc_entries_def)
  have "eip_off ?tb i < eip_off ?tb (i + 1) \<and> tc_off ?tb i < tc_off ?tb (i + 1)" if i: "i < length rs" for i
    using off [of i] off [of "i + 1"] i trace_states(2) [OF tr gd i] gd(2) by (simp add: longer_def decodes_def)
  moreover have "tc_off ?tb 0 = 0" using off(1) [of 0] start(2) by simp
  moreover have "0 < length rs" using trace_nonempty [OF tr] by simp
  ultimately show ?thesis
    using f off [of "length rs"] top last unfolding tb_wf_def by simp
qed

section \<open>Both passes\<close>

text \<open>What \<^verbatim>\<open>tb_malloc\<close> leaves between the passes: the first pass's counts, and arrays for them.\<close>

definition sized_like :: "tb_t \<Rightarrow> tb_t \<Rightarrow> bool" where
  "sized_like tb1 tb2 \<longleftrightarrow> eip_virt tb2 = eip_virt tb1 \<and> num_insns tb2 = num_insns tb1 \<and>
     length (tc_boundaries tb2) = num_insns tb1 + 1 \<and> length (eip_boundaries tb2) = num_insns tb1"

definition start_state :: "tb_t \<Rightarrow> mod_table \<Rightarrow> u32 \<Rightarrow> u32 \<Rightarrow> tstate" where
  "start_state tb m cbase ebase = \<lparr>ts_ptr = eip_virt tb, ts_cg = False,
     ts_em = \<lparr>em_cbase = cbase, em_ebase = ebase, em_code = [], em_edge = []\<rparr>, ts_mod = m\<rparr>"

text \<open>The lengths fit the 16-bit boundaries, and neither range wraps around.\<close>

definition fits :: "bt_env \<Rightarrow> tb_t \<Rightarrow> tstate list \<Rightarrow> bool" where
  "fits env tb rs \<longleftrightarrow> length (em_code (ts_em (last rs))) < 2 ^ 16 \<and> code_bytes env (eip_virt tb) (length rs) < 2 ^ 16 \<and>
     unat (eip_virt tb) + code_bytes env (eip_virt tb) (length rs) < 2 ^ 32 \<and>
     unat (tc_ptr tb) + length (em_code (ts_em (last rs))) < 2 ^ 32"

lemma translate_first:
  assumes "\<not> e_inscount env" and "trace env False (start_state tb m tpage tpage) rs" and "length rs \<le> MAX_TU_SIZE"
  shows "translate env tpage m tb False =
    Some (tb\<lparr>end_eip := ts_ptr (last (start_state tb m tpage tpage # butlast rs)), num_insns := length rs,
             code_len := of_nat (length (em_code (ts_em (last rs)))),
             edge_len := of_nat (length (em_edge (ts_em (last rs))))\<rparr>, ts_em (last rs), ts_mod (last rs))"
  using loop_trace_first [OF assms(2), of 0 tb] assms(1,3)
  by (simp add: translate_def start_state_def)

lemma translate_second:
  assumes "\<not> e_inscount env" and tr: "trace env True (start_state tb m (tc_ptr tb) (edge_ptr tb)) rs"
    and len: "length rs \<le> MAX_TU_SIZE" "num_insns tb = length rs"
      "length (tc_boundaries tb) = length rs + 1" "length (eip_boundaries tb) = length rs"
  shows "translate env tpage m tb True =
    Some (block_of tb (start_state tb m (tc_ptr tb) (edge_ptr tb)) rs, ts_em (last rs), ts_mod (last rs))"
proof -
  let ?s = "start_state tb m (tc_ptr tb) (edge_ptr tb)"
  have ne: "rs \<noteq> []" using trace_nonempty [OF tr] .
  have l: "length (tc_entries (?s # butlast rs)) = length rs" "length (eip_entries (eip_virt tb) rs) = length rs"
    using ne by (simp_all add: tc_entries_def eip_entries_def)
  have e: "overwrite 0 (eip_entries (eip_virt tb) rs) (eip_boundaries tb) = eip_entries (eip_virt tb) rs"
    using l(2) len(4) by (simp add: overwrite_def)
  obtain x where x: "overwrite 0 (tc_entries (?s # butlast rs)) (tc_boundaries tb) = tc_entries (?s # butlast rs) @ [x]"
  proof -
    have "length (drop (length rs) (tc_boundaries tb)) = 1" using len(3) by simp
    then obtain x where "drop (length rs) (tc_boundaries tb) = [x]"
      by (metis One_nat_def length_0_conv length_Suc_conv)
    with l(1) that show thesis by (simp add: overwrite_def)
  qed
  have c: "(tc_entries (?s # butlast rs) @ [x])[length rs := of_nat (length (em_code (ts_em (last rs))))] = tc_entries (?s # rs)"
  proof -
    have "(tc_entries (?s # butlast rs) @ [x])[length rs := y] = tc_entries (?s # butlast rs) @ [y]" for y
      using l(1) by (metis list_update_length)
    then show ?thesis using ne by (simp add: tc_entries_def) (metis (no_types, lifting) append_butlast_last_id list.simps(8,9) map_append)
  qed
  show ?thesis
    using loop_trace_second [OF tr, of 0 tb] assms(1) len(1,3,4) e x c l(1)
    by (simp add: translate_def start_state_def [symmetric] put_tc_def set_at_def block_of_def)
qed

text \<open>The block with the measurements of the first pass, whose trace is \<open>rs\<close>.\<close>

definition measured :: "tb_t \<Rightarrow> tstate \<Rightarrow> tstate list \<Rightarrow> tb_t" where
  "measured tb s rs = tb\<lparr>end_eip := ts_ptr (last (s # butlast rs)), num_insns := length rs,
     code_len := of_nat (length (em_code (ts_em (last rs)))), edge_len := of_nat (length (em_edge (ts_em (last rs))))\<rparr>"

lemma measured_fields [simp]:
  "eip_virt (measured tb s rs) = eip_virt tb" "num_insns (measured tb s rs) = length rs"
  "code_len (measured tb s rs) = of_nat (length (em_code (ts_em (last rs))))"
  "edge_len (measured tb s rs) = of_nat (length (em_edge (ts_em (last rs))))"
  "end_eip (measured tb s rs) = ts_ptr (last (s # butlast rs))"
  by (simp_all add: measured_def)

lemma both_passes:
  assumes env: "position_free env" "extable_ok (e_ext env)" "\<not> e_inscount env"
    and ends: "ends_within env MAX_TU_SIZE (eip_virt tb) False"
  shows "\<exists>rs1. let s1 = start_state tb m tpage tpage; tb1 = measured tb s1 rs1 in
    length rs1 \<le> MAX_TU_SIZE \<and> rs1 \<noteq> [] \<and> translate env tpage m tb False = Some (tb1, ts_em (last rs1), m) \<and>
    (\<forall>tb2. sized_like tb1 tb2 \<longrightarrow>
      (\<exists>rs. let s = start_state tb2 m (tc_ptr tb2) (edge_ptr tb2) in
        trace env True s rs \<and> length rs = length rs1 \<and>
        translate env tpage m tb2 True = Some (block_of tb2 s rs, ts_em (last rs), ts_mod (last rs)) \<and>
        end_eip (block_of tb2 s rs) = end_eip tb1 \<and>
        length (em_code (ts_em (last rs))) = length (em_code (ts_em (last rs1))) \<and>
        length (em_edge (ts_em (last rs))) = length (em_edge (ts_em (last rs1)))))"
proof -
  let ?s1 = "start_state tb m tpage tpage"
  obtain rs1 where rs1: "trace env False ?s1 rs1" "length rs1 \<le> MAX_TU_SIZE" "ts_mod (last rs1) = m"
    using ends_trace [of env MAX_TU_SIZE ?s1] ends env(1) by (auto simp: start_state_def)
  let ?tb1 = "measured tb ?s1 rs1"
  have first: "translate env tpage m tb False = Some (?tb1, ts_em (last rs1), m)"
    using translate_first [OF env(3) rs1(1,2)] rs1(3) by (simp add: measured_def)
  have second: "\<exists>rs. let s = start_state tb2 m (tc_ptr tb2) (edge_ptr tb2) in
        trace env True s rs \<and> length rs = length rs1 \<and>
        translate env tpage m tb2 True = Some (block_of tb2 s rs, ts_em (last rs), ts_mod (last rs)) \<and>
        end_eip (block_of tb2 s rs) = end_eip ?tb1 \<and>
        length (em_code (ts_em (last rs))) = length (em_code (ts_em (last rs1))) \<and>
        length (em_edge (ts_em (last rs))) = length (em_edge (ts_em (last rs1)))"
    if tb2: "sized_like ?tb1 tb2" for tb2
  proof -
    let ?s = "start_state tb2 m (tc_ptr tb2) (edge_ptr tb2)"
    have eip: "eip_virt tb2 = eip_virt tb" using tb2 by (simp add: sized_like_def)
    have al: "alike ?s1 ?s" by (simp add: alike_def start_state_def eip)
    obtain rs where rs: "trace env True ?s rs" "length rs = length rs1" 
      "alike (last (?s1 # butlast rs1)) (last (?s # butlast rs))"
      "same_growth (ts_em ?s1) (ts_em (last rs1)) (ts_em ?s) (ts_em (last rs))"
      using trace_growth [OF rs1(1) env(1,2) al, of True] by blast
    have n: "num_insns tb2 = length rs" "length (tc_boundaries tb2) = length rs + 1" "length (eip_boundaries tb2) = length rs"
      using tb2 rs(2) by (simp_all add: sized_like_def)
    have "length (em_code (ts_em (last rs))) = length (em_code (ts_em (last rs1)))"
      "length (em_edge (ts_em (last rs))) = length (em_edge (ts_em (last rs1)))"
      using rs(4) by (simp_all add: same_growth_def start_state_def)
    moreover have "end_eip (block_of tb2 ?s rs) = end_eip ?tb1"
      using rs(3) by (simp add: block_of_def alike_def del: last.simps)
    ultimately show ?thesis
      using translate_second [OF env(3) rs(1) _ n] rs1(2) rs(1,2) by (intro exI [of _ rs]) (simp add: Let_def)
  qed
  have "rs1 \<noteq> []" using trace_nonempty [OF rs1(1)] .
  then show ?thesis using first rs1(2) second unfolding Let_def by blast
qed

text \<open>If the lengths fit, the block of a trace is well-formed and its boundaries are the trace's.\<close>

lemma block_of_fits:
  assumes tr: "trace env True (start_state tb m (tc_ptr tb) (edge_ptr tb)) rs" and gd: "generates env" "decodes env"
    and n: "num_insns tb = length rs" and f: "fits env tb rs"
  defines "s \<equiv> start_state tb m (tc_ptr tb) (edge_ptr tb)"
  shows "tb_wf (block_of tb s rs)"
    and "i \<le> length rs \<Longrightarrow> insn_start (block_of tb s rs) i = ts_ptr ((s # rs) ! i)"
    and "i \<le> length rs \<Longrightarrow> tc_off (block_of tb s rs) i = length (em_code (ts_em ((s # rs) ! i)))"
    and "i \<le> length rs \<Longrightarrow> eip_off (block_of tb s rs) i = code_bytes env (eip_virt tb) i"
proof -
  have nl: "no_leftover env s" by (simp add: no_leftover_def start_state_def s_def)
  have st: "ts_ptr s = eip_virt tb" "em_code (ts_em s) = []" by (simp_all add: start_state_def s_def)
  note tr = tr [folded s_def]
  note off = block_of_offsets [OF tr gd nl st n]
  show "tb_wf (block_of tb s rs)"
    by (rule block_of_wf [OF tr gd nl st n]) (use f in \<open>simp_all add: fits_def\<close>)
  show "insn_start (block_of tb s rs) i = ts_ptr ((s # rs) ! i)" if "i \<le> length rs"
    using off(2) [of i] trace_states(1) [OF tr gd nl that] that f
    by (simp add: insn_start_def fits_def st(1) block_of_def)
  show "i \<le> length rs \<Longrightarrow> tc_off (block_of tb s rs) i = length (em_code (ts_em ((s # rs) ! i)))"
    "i \<le> length rs \<Longrightarrow> eip_off (block_of tb s rs) i = code_bytes env (eip_virt tb) i"
    using off f by (simp_all add: fits_def)
qed

text \<open>
  C27. When the block ends within 2000 instructions and the generator's code has the same length
  wherever it is put, both passes succeed: the first counts the instructions and measures the
  code and the edge code; the second, given arrays for that many instructions, writes exactly as
  much, ends at the same instruction and records the boundaries of every instruction. If the
  lengths fit the 16-bit boundaries the block is well-formed: instruction \<open>i\<close> of the guest starts
  where the \<open>i\<close>-th step of the trace decodes it, and its code where that step's output starts.
\<close>

theorem translate_correct:
  assumes env: "position_free env" "extable_ok (e_ext env)" "generates env" "decodes env" "\<not> e_inscount env"
    and ends: "ends_within env MAX_TU_SIZE (eip_virt tb) False"
  shows "\<exists>tb1 em1. translate env tpage m tb False = Some (tb1, em1, m) \<and>
    eip_virt tb1 = eip_virt tb \<and> 0 < num_insns tb1 \<and> num_insns tb1 \<le> MAX_TU_SIZE \<and>
    (\<forall>tb2. sized_like tb1 tb2 \<longrightarrow>
      (\<exists>rs. let s = start_state tb2 m (tc_ptr tb2) (edge_ptr tb2); tb3 = block_of tb2 s rs in
        translate env tpage m tb2 True = Some (tb3, ts_em (last rs), ts_mod (last rs)) \<and>
        trace env True s rs \<and> length rs = num_insns tb1 \<and> end_eip tb3 = end_eip tb1 \<and>
        code_len tb1 = of_nat (length (em_code (ts_em (last rs)))) \<and>
        edge_len tb1 = of_nat (length (em_edge (ts_em (last rs)))) \<and>
        (fits env tb2 rs \<longrightarrow> tb_wf tb3 \<and>
           (\<forall>i\<le>num_insns tb1. insn_start tb3 i = ts_ptr ((s # rs) ! i) \<and>
              tc_off tb3 i = length (em_code (ts_em ((s # rs) ! i)))))))"
proof -
  obtain rs1 where p: "length rs1 \<le> MAX_TU_SIZE" "rs1 \<noteq> []"
      "translate env tpage m tb False = Some (measured tb (start_state tb m tpage tpage) rs1, ts_em (last rs1), m)"
    and q: "\<And>tb2. sized_like (measured tb (start_state tb m tpage tpage) rs1) tb2 \<Longrightarrow>
      (\<exists>rs. let s = start_state tb2 m (tc_ptr tb2) (edge_ptr tb2) in
        trace env True s rs \<and> length rs = length rs1 \<and>
        translate env tpage m tb2 True = Some (block_of tb2 s rs, ts_em (last rs), ts_mod (last rs)) \<and>
        end_eip (block_of tb2 s rs) = end_eip (measured tb (start_state tb m tpage tpage) rs1) \<and>
        length (em_code (ts_em (last rs))) = length (em_code (ts_em (last rs1))) \<and>
        length (em_edge (ts_em (last rs))) = length (em_edge (ts_em (last rs1))))"
    using both_passes [OF env(1,2,5) ends, of m tpage] unfolding Let_def by blast
  let ?tb1 = "measured tb (start_state tb m tpage tpage) rs1"
  have "\<exists>rs. let s = start_state tb2 m (tc_ptr tb2) (edge_ptr tb2); tb3 = block_of tb2 s rs in
        translate env tpage m tb2 True = Some (tb3, ts_em (last rs), ts_mod (last rs)) \<and>
        trace env True s rs \<and> length rs = num_insns ?tb1 \<and> end_eip tb3 = end_eip ?tb1 \<and>
        code_len ?tb1 = of_nat (length (em_code (ts_em (last rs)))) \<and>
        edge_len ?tb1 = of_nat (length (em_edge (ts_em (last rs)))) \<and>
        (fits env tb2 rs \<longrightarrow> tb_wf tb3 \<and>
           (\<forall>i\<le>num_insns ?tb1. insn_start tb3 i = ts_ptr ((s # rs) ! i) \<and>
              tc_off tb3 i = length (em_code (ts_em ((s # rs) ! i)))))"
    if tb2: "sized_like ?tb1 tb2" for tb2
  proof -
    obtain rs where rs: "trace env True (start_state tb2 m (tc_ptr tb2) (edge_ptr tb2)) rs" "length rs = length rs1"
      "translate env tpage m tb2 True = Some (block_of tb2 (start_state tb2 m (tc_ptr tb2) (edge_ptr tb2)) rs,
         ts_em (last rs), ts_mod (last rs))"
      "end_eip (block_of tb2 (start_state tb2 m (tc_ptr tb2) (edge_ptr tb2)) rs) = end_eip ?tb1"
      "length (em_code (ts_em (last rs))) = length (em_code (ts_em (last rs1)))"
      "length (em_edge (ts_em (last rs))) = length (em_edge (ts_em (last rs1)))"
      using q [OF tb2] unfolding Let_def by blast
    have n: "num_insns tb2 = length rs" using tb2 rs(2) by (simp add: sized_like_def)
    show ?thesis
      using rs block_of_fits [OF rs(1) env(3,4) n] unfolding Let_def by (intro exI [of _ rs]) simp
  qed
  with p show ?thesis by (intro exI [of _ ?tb1] exI [of _ "ts_em (last rs1)"]) simp
qed

definition code_tb :: tb_t where
  "code_tb = \<lparr>eip_virt = 1000, end_eip = 0, edge_len = 0, code_len = 0, num_insns = 0, num_jumps = 0,
     tc_ptr = 0, edge_ptr = 0, eip_boundaries = [], tc_boundaries = [], jump_boundaries = [], alignment = 0\<rparr>"

lemma code_env_ok:
  "position_free code_env" "extable_ok (e_ext code_env)" "generates code_env" "decodes code_env" "\<not> e_inscount code_env"
  by (simp_all add: position_free_def code_env_def generates_def decodes_def code_insn_def extable_ok_def extable_start_def)

lemma code_rules [simp]:
  "peep_rule (e_rules code_env) (e_tab code_env) [code_mov] = Some None"
  "peep_rule (e_rules code_env) (e_tab code_env) [code_cmp] = Some None"
  "peep_rule (e_rules code_env) (e_tab code_env) [code_ret] = Some (Some (7, []))"
  by code_simp+

lemma code_ends: "ends_within code_env MAX_TU_SIZE 1000 False"
proof -
  have e: "emit_insn code_env a i cg em =
      (case peep_rule (e_rules code_env) (e_tab code_env) [fst i] of
         None \<Rightarrow> None
       | Some None \<Rightarrow> Some (cg, if \<not> cg then emit_bytes (mode_translate (e_mem code_env) a (snd i)) [] em else em, False)
       | Some (Some (label, params)) \<Rightarrow>
           let (em, clears) = peepgen_code code_env label params (a + of_nat (snd i)) em
           in Some (cg, em, insn_is_terminating code_ot (fst i) \<and> \<not> clears))" for a i cg em
    by (simp add: emit_insn_def peep_translate_def Let_def split: option.splits prod.splits)
  have g: "\<exists>em'. peepgen_code code_env 7 [] f em = (em', False)" for f em
    by (simp add: peepgen_code_def code_env_def)
  have "ends_within code_env (Suc (Suc (Suc k))) 1000 False" for k
    using g [of 1006] by (auto simp: e split: prod.splits) (metis prod.inject)
  from this [of 1997] show ?thesis by (simp only: MAX_TU_SIZE_def) (simp add: numeral_eq_Suc)
qed

theorem translate_correct_witness:
  "\<exists>tb1 em1. translate code_env 4096 \<lparr>mod_base = 0, mod_entries = [], num_exentries = 0\<rparr> code_tb False =
      Some (tb1, em1, \<lparr>mod_base = 0, mod_entries = [], num_exentries = 0\<rparr>) \<and> 0 < num_insns tb1"
proof -
  have "ends_within code_env MAX_TU_SIZE (eip_virt code_tb) False" using code_ends by (simp add: code_tb_def)
  from translate_correct [OF code_env_ok this] show ?thesis by blast
qed

end
