(* ===== verification/Btfix.thy ===== *)
theory Btfix
  imports Extable Insn Jumptable2
begin

text \<open>
  The second part of \<^verbatim>\<open>btfix.c\<close>: finding the guest address for an address in the edge code, and
  the repair of the stacks of all threads when the module stops, so that no thread returns into the
  translation cache. Memory is bytes, words are little-endian.
\<close>

section \<open>Memory\<close>

type_synonym memory = "u32 \<Rightarrow> u8"

definition read32 :: "memory \<Rightarrow> u32 \<Rightarrow> u32" where
  "read32 m a = ucast (m a) OR push_bit 8 (ucast (m (a + 1))) OR push_bit 16 (ucast (m (a + 2))) OR
     push_bit 24 (ucast (m (a + 3)))"

definition store32 :: "memory \<Rightarrow> u32 \<Rightarrow> u32 \<Rightarrow> memory" where
  "store32 m a w = m(a := ucast w, a + 1 := ucast (drop_bit 8 w), a + 2 := ucast (drop_bit 16 w),
     a + 3 := ucast (drop_bit 24 w))"

fun write_bytes :: "u32 \<Rightarrow> u8 list \<Rightarrow> memory \<Rightarrow> memory" where
  "write_bytes a [] m = m"
| "write_bytes a (b # bs) m = write_bytes (a + 1) bs (m(a := b))"

lemma bytes_word:
  fixes w :: u32
  shows "ucast (ucast w :: u8) OR push_bit 8 (ucast (ucast (drop_bit 8 w) :: u8)) OR
   push_bit 16 (ucast (ucast (drop_bit 16 w) :: u8)) OR push_bit 24 (ucast (ucast (drop_bit 24 w) :: u8)) = w" (is "?l = w")
proof (rule bit_word_eqI)
  fix n assume n: "n < LENGTH(32)"
  then consider "n < 8" | "8 \<le> n" "n < 16" | "16 \<le> n" "n < 24" | "24 \<le> n" by linarith
  then show "bit ?l n = bit w n" using n by cases (auto simp: bit_simps)
qed

lemma read_store_same [simp]: "read32 (store32 m a w) a = w"
  using bytes_word [of w] by (simp add: read32_def store32_def)

lemma store32_other: "x \<notin> {a, a + 1, a + 2, a + 3} \<Longrightarrow> store32 m a w x = m x"
  by (simp add: store32_def)

lemma read32_cong:
  "m a = m' a \<Longrightarrow> m (a + 1) = m' (a + 1) \<Longrightarrow> m (a + 2) = m' (a + 2) \<Longrightarrow> m (a + 3) = m' (a + 3) \<Longrightarrow>
    read32 m a = read32 m' a"
  by (simp add: read32_def)

section \<open>Addresses in the edge code\<close>

text \<open>
  \<open>dec m a\<close> is the instruction decoded at \<open>a\<close> in the memory \<open>m\<close>, with its length. The code that
  records the guest address and the jump to chain is \<^verbatim>\<open>movl eip, ...; movl prev_tb, ...\<close>; the
  loop does not return when neither is found. The last result is 1 unless a jump comes first.
\<close>

type_synonym decoder = "memory \<Rightarrow> u32 \<Rightarrow> insn \<times> nat"

text \<open>A value that is read as an unsigned word.\<close>

definition value32 :: "operand \<Rightarrow> u32 option" where
  "value32 op = map_option of_int (operand_get_value op)"

partial_function (option) fetch_loop ::
    "btmod_opctable \<Rightarrow> decoder \<Rightarrow> memory \<Rightarrow> u32 \<Rightarrow> u32 \<Rightarrow> u32 \<Rightarrow> bool \<Rightarrow> (bool \<times> u32 \<times> u32) option" where
  "fetch_loop ot dec m cur_eip eip prev_tb next_insn_is_prev_tb =
     (let insn = fst (dec m cur_eip); len = snd (dec m cur_eip); opc = opctable_name ot (i_opc insn) in
      if starts opc ''mov'' then
        (case value32 (opn insn 1) of
           None \<Rightarrow> None
         | Some v \<Rightarrow> fetch_loop ot dec m (cur_eip + of_nat len) v prev_tb True)
      else if next_insn_is_prev_tb then map_option (\<lambda>v. (True, eip, v)) (value32 (opn insn 0))
      else if starts opc ''j'' then Some (False, eip, prev_tb)
      else fetch_loop ot dec m (cur_eip + of_nat len) eip prev_tb next_insn_is_prev_tb)"

definition fetch_eip_and_prev_tb ::
    "btmod_opctable \<Rightarrow> decoder \<Rightarrow> memory \<Rightarrow> u32 \<Rightarrow> u32 \<Rightarrow> u32 \<Rightarrow> (bool \<times> u32 \<times> u32) option" where
  "fetch_eip_and_prev_tb ot dec m cur_eip eip prev_tb = fetch_loop ot dec m cur_eip eip prev_tb False"

text \<open>The tables a cache address is looked up in; \<open>loc\<close> is the place of the probe on the stack.\<close>

record caches =
  c_info :: malloc_info
  c_tbs :: tb_map
  c_tree :: rbstate
  c_loc :: ptr

fun fetch_edge_loop :: "nat \<Rightarrow> btmod_opctable \<Rightarrow> decoder \<Rightarrow> caches \<Rightarrow> memory \<Rightarrow> u32 \<Rightarrow> u32 option" where
  "fetch_edge_loop 0 ot dec c m cur_eip = Some 0"
| "fetch_edge_loop (Suc j) ot dec c m cur_eip =
     (let insn = fst (dec m cur_eip); len = snd (dec m cur_eip); opc = opctable_name ot (i_opc insn) in
      if starts opc ''jmp'' then
        (case value32 (opn insn 0) of
           None \<Rightarrow> None
         | Some off \<Rightarrow>
             if addr_to_pool (c_info c) off = int POOL_TC
             then tb_tc_ptr_to_eip_virt (c_loc c) (c_tbs c) (c_tree c) off
             else fetch_edge_loop j ot dec c m off)
      else fetch_edge_loop j ot dec c m (cur_eip + of_nat len))"

definition fetch_eip_from_edge :: "btmod_opctable \<Rightarrow> decoder \<Rightarrow> caches \<Rightarrow> memory \<Rightarrow> u32 \<Rightarrow> u32 option" where
  "fetch_eip_from_edge ot dec c m cur_eip = fetch_edge_loop 10 ot dec c m cur_eip"

section \<open>Repair of the stacks\<close>

text \<open>The guest address for a return address, 0 when it is not in the caches.\<close>

definition orig_eip :: "btmod_opctable \<Rightarrow> decoder \<Rightarrow> caches \<Rightarrow> memory \<Rightarrow> u32 \<Rightarrow> u32 option" where
  "orig_eip ot dec c m ret_eip =
     (let pool = addr_to_pool (c_info c) ret_eip in
      if pool = int POOL_TC then tb_tc_ptr_to_eip_virt (c_loc c) (c_tbs c) (c_tree c) ret_eip
      else if pool = int POOL_EDGE then fetch_eip_from_edge ot dec c m ret_eip
      else Some 0)"

text \<open>The walk along the frame pointers of a stack, down to its lowest page; a cycle does not end.\<close>

partial_function (option) walk_frames ::
    "btmod_opctable \<Rightarrow> decoder \<Rightarrow> caches \<Rightarrow> u32 \<Rightarrow> u32 \<Rightarrow> memory \<Rightarrow> memory option" where
  "walk_frames ot dec c stack ebp m =
     (if ebp > stack then
        (case orig_eip ot dec c m (read32 m (ebp + 4)) of
           None \<Rightarrow> None
         | Some eip \<Rightarrow>
             let m = (if eip \<noteq> 0 then store32 m (ebp + 4) eip else m)
             in walk_frames ot dec c stack (read32 m ebp) m)
      else Some m)"

text \<open>
  The threads are listed with whether they are the current one and their saved stack pointer;
  \<open>thread_size\<close> is the kernel's \<^verbatim>\<open>THREAD_SIZE\<close>.
\<close>

fun push_orig_eips :: "btmod_opctable \<Rightarrow> decoder \<Rightarrow> caches \<Rightarrow> u32 \<Rightarrow> (bool \<times> u32) list \<Rightarrow> memory \<Rightarrow> memory option" where
  "push_orig_eips ot dec c thread_size [] m = Some m"
| "push_orig_eips ot dec c thread_size ((current, esp) # ts) m =
     (if current then push_orig_eips ot dec c thread_size ts m
      else
        (case walk_frames ot dec c (esp AND NOT (thread_size - 1)) (read32 m esp) m of
           None \<Rightarrow> None
         | Some m \<Rightarrow> push_orig_eips ot dec c thread_size ts m))"

section \<open>Chains of frames\<close>

text \<open>The frames of a stack, and the bytes of their return addresses and of their links.\<close>

fun frames :: "memory \<Rightarrow> u32 \<Rightarrow> u32 \<Rightarrow> u32 list \<Rightarrow> bool" where
  "frames m stack ebp [] = (\<not> ebp > stack)"
| "frames m stack ebp (f # fs) = (ebp = f \<and> f > stack \<and> frames m stack (read32 m f) fs)"

definition word_at :: "u32 \<Rightarrow> u32 set" where
  "word_at a = {a, a + 1, a + 2, a + 3}"

definition ret_slots :: "u32 list \<Rightarrow> u32 set" where
  "ret_slots fs = (\<Union>f\<in>set fs. word_at (f + 4))"

text \<open>Return addresses and links of the frames do not share bytes.\<close>

definition apart :: "u32 list \<Rightarrow> bool" where
  "apart fs \<longleftrightarrow> distinct fs \<and>
     (\<forall>f\<in>set fs. \<forall>g\<in>set fs. word_at (f + 4) \<inter> word_at g = {} \<and> (f \<noteq> g \<longrightarrow> word_at (f + 4) \<inter> word_at (g + 4) = {}))"

lemma read32_agree: "(\<And>x. x \<in> word_at a \<Longrightarrow> m x = m' x) \<Longrightarrow> read32 m a = read32 m' a"
  by (rule read32_cong) (simp_all add: word_at_def)

lemma store32_agree: "x \<notin> word_at a \<Longrightarrow> store32 m a w x = m x"
  by (simp add: store32_def word_at_def)

lemma read_store_apart: "word_at a \<inter> word_at b = {} \<Longrightarrow> read32 (store32 m a w) b = read32 m b"
  by (rule read32_agree) (auto intro: store32_agree)

lemma frames_agree:
  "frames m stack ebp fs \<Longrightarrow> (\<And>f x. f \<in> set fs \<Longrightarrow> x \<in> word_at f \<Longrightarrow> m' x = m x) \<Longrightarrow> frames m' stack ebp fs"
proof (induction m stack ebp fs rule: frames.induct)
  case (2 m stack ebp f fs)
  have "read32 m' f = read32 m f" by (rule read32_agree) (use 2 in auto)
  moreover have "frames m' stack (read32 m f) fs"
    by (rule "2.IH") (use "2.prems" in auto)
  ultimately show ?case using "2.prems"(1) by simp
qed simp

text \<open>What a return address becomes.\<close>

definition repaired :: "u32 option \<Rightarrow> u32 \<Rightarrow> u32" where
  "repaired eip r = (case eip of Some e \<Rightarrow> if e \<noteq> 0 then e else r | None \<Rightarrow> r)"

lemma walk_frames_correct:
  assumes orig: "\<And>m' r. (\<forall>x. x \<notin> ret_slots F \<longrightarrow> m' x = m0 x) \<Longrightarrow> orig_eip ot dec c m' r = og r"
    and F: "apart F"
  shows "frames m stack ebp fs \<Longrightarrow> \<forall>x. x \<notin> ret_slots F \<longrightarrow> m x = m0 x \<Longrightarrow> set fs \<subseteq> set F \<Longrightarrow> distinct fs \<Longrightarrow>
    \<forall>f\<in>set fs. og (read32 m (f + 4)) \<noteq> None \<Longrightarrow>
    \<exists>m'. walk_frames ot dec c stack ebp m = Some m' \<and>
      (\<forall>f\<in>set fs. read32 m' (f + 4) = repaired (og (read32 m (f + 4))) (read32 m (f + 4))) \<and>
      (\<forall>x. x \<notin> ret_slots fs \<longrightarrow> m' x = m x)"
proof (induction fs arbitrary: m ebp)
  case Nil
  then have "\<not> ebp > stack" by simp
  then have "walk_frames ot dec c stack ebp m = Some m" by (subst walk_frames.simps) simp
  then show ?case by simp
next
  case (Cons f fs)
  let ?r = "read32 m (f + 4)"
  obtain e where e: "og ?r = Some e" using Cons.prems(5) by auto
  define m1 where "m1 = (if e \<noteq> 0 then store32 m (f + 4) e else m)"
  have fF: "f \<in> set F" using Cons.prems(3) by simp
  have m1: "m1 x = m x" if "x \<notin> word_at (f + 4)" for x
    using store32_agree [OF that] by (simp add: m1_def)
  have rf: "read32 m1 f = read32 m f"
    by (rule read32_agree) (use F fF m1 in \<open>force simp: apart_def\<close>)
  have slot: "read32 m1 (g + 4) = read32 m (g + 4)" if "g \<in> set fs" for g
  proof (rule read32_agree)
    fix x assume x: "x \<in> word_at (g + 4)"
    have "g \<in> set F" "f \<noteq> g" using that Cons.prems(3,4) by auto
    then have "word_at (f + 4) \<inter> word_at (g + 4) = {}" using F fF unfolding apart_def by blast
    with x m1 show "m1 x = m x" by blast
  qed
  have link: "m1 x = m x" if "g \<in> set fs" "x \<in> word_at g" for g x
  proof -
    have "word_at (f + 4) \<inter> word_at g = {}" using F fF that(1) Cons.prems(3) unfolding apart_def by force
    with that(2) m1 show ?thesis by blast
  qed
  have "frames m stack (read32 m f) fs" using Cons.prems(1) by simp
  then have "frames m1 stack (read32 m1 f) fs" unfolding rf by (rule frames_agree) (rule link)
  moreover have "\<forall>x. x \<notin> ret_slots F \<longrightarrow> m1 x = m0 x"
    using Cons.prems(2) m1 fF by (auto simp: ret_slots_def)
  ultimately obtain m' where m': "walk_frames ot dec c stack (read32 m1 f) m1 = Some m'"
    "\<forall>g\<in>set fs. read32 m' (g + 4) = repaired (og (read32 m1 (g + 4))) (read32 m1 (g + 4))"
    "\<forall>x. x \<notin> ret_slots fs \<longrightarrow> m' x = m1 x"
    using Cons.IH [of m1 "read32 m1 f"] Cons.prems(3-5) slot by auto
  have "walk_frames ot dec c stack ebp m = Some m'"
    using Cons.prems(1,2) orig [of m ?r] e m'(1)
    by (subst walk_frames.simps) (auto simp: m1_def Let_def split: if_splits)
  moreover have "read32 m' (f + 4) = repaired (og ?r) ?r"
  proof -
    have "read32 m' (f + 4) = read32 m1 (f + 4)"
    proof (rule read32_agree)
      fix x assume x: "x \<in> word_at (f + 4)"
      have "x \<notin> word_at (g + 4)" if "g \<in> set fs" for g
      proof -
        have "g \<in> set F" "f \<noteq> g" using that Cons.prems(3,4) by auto
        then have "word_at (f + 4) \<inter> word_at (g + 4) = {}" using F fF unfolding apart_def by blast
        with x show ?thesis by blast
      qed
      then show "m' x = m1 x" using m'(3) by (auto simp: ret_slots_def)
    qed
    then show ?thesis by (simp add: m1_def e repaired_def)
  qed
  moreover have "\<forall>x. x \<notin> ret_slots (f # fs) \<longrightarrow> m' x = m x"
    using m'(3) m1 by (auto simp: ret_slots_def)
  ultimately show ?case using m'(2) slot by auto
qed

section \<open>All threads\<close>

text \<open>
  The frames of every thread that is not the current one: \<open>fss\<close> has a list for each thread of the
  list. The saved stack pointers point at words that are not return addresses.
\<close>

definition thread_frames :: "memory \<Rightarrow> u32 \<Rightarrow> (bool \<times> u32) \<Rightarrow> u32 list \<Rightarrow> bool" where
  "thread_frames m thread_size t fs \<longleftrightarrow>
     (if fst t then fs = [] else frames m (snd t AND NOT (thread_size - 1)) (read32 m (snd t)) fs)"

lemma push_orig_eips_walk:
  assumes orig: "\<And>m' r. (\<forall>x. x \<notin> ret_slots F \<longrightarrow> m' x = m0 x) \<Longrightarrow> orig_eip ot dec c m' r = og r"
    and F: "apart F"
  shows "list_all2 (thread_frames m thread_size) ts fss \<Longrightarrow> \<forall>x. x \<notin> ret_slots F \<longrightarrow> m x = m0 x \<Longrightarrow>
    set (concat fss) \<subseteq> set F \<Longrightarrow> distinct (concat fss) \<Longrightarrow>
    \<forall>f\<in>set (concat fss). og (read32 m (f + 4)) \<noteq> None \<Longrightarrow>
    \<forall>t\<in>set ts. \<not> fst t \<longrightarrow> word_at (snd t) \<inter> ret_slots F = {} \<Longrightarrow>
    \<exists>m'. push_orig_eips ot dec c thread_size ts m = Some m' \<and>
      (\<forall>f\<in>set (concat fss). read32 m' (f + 4) = repaired (og (read32 m (f + 4))) (read32 m (f + 4))) \<and>
      (\<forall>x. x \<notin> ret_slots (concat fss) \<longrightarrow> m' x = m x)"
proof (induction ts arbitrary: fss m)
  case Nil
  then show ?case by simp
next
  case (Cons t ts)
  obtain fs fss' where fss: "fss = fs # fss'" "thread_frames m thread_size t fs" "list_all2 (thread_frames m thread_size) ts fss'"
    using Cons.prems(1) by (auto simp: list_all2_Cons1)
  obtain current esp where t: "t = (current, esp)" by fastforce
  have disj: "word_at (f + 4) \<inter> word_at (g + 4) = {}" if "f \<in> set fs" "g \<in> set (concat fss')" for f g
  proof -
    have "f \<noteq> g" "f \<in> set F" "g \<in> set F" using that Cons.prems(3,4) by (auto simp: fss(1))
    with F show ?thesis by (auto simp: apart_def)
  qed
  obtain m1 where m1: "push_orig_eips ot dec c thread_size (t # ts) m = push_orig_eips ot dec c thread_size ts m1"
    "\<forall>f\<in>set fs. read32 m1 (f + 4) = repaired (og (read32 m (f + 4))) (read32 m (f + 4))"
    "\<forall>x. x \<notin> ret_slots fs \<longrightarrow> m1 x = m x"
  proof (cases current)
    case True
    with that [of m] fss(2) t show thesis by (simp add: thread_frames_def)
  next
    case False
    obtain m1 where "walk_frames ot dec c (esp AND NOT (thread_size - 1)) (read32 m esp) m = Some m1"
      "\<forall>f\<in>set fs. read32 m1 (f + 4) = repaired (og (read32 m (f + 4))) (read32 m (f + 4))"
      "\<forall>x. x \<notin> ret_slots fs \<longrightarrow> m1 x = m x"
      using walk_frames_correct [OF orig F, of m0 m "esp AND NOT (thread_size - 1)" "read32 m esp" fs] False fss t Cons.prems(2-5)
      by (auto simp: thread_frames_def)
    with that [of m1] False t show thesis by simp
  qed
  have sub: "ret_slots fs \<subseteq> ret_slots F" using Cons.prems(3) by (auto simp: ret_slots_def fss(1))
  have same: "read32 m1 (g + 4) = read32 m (g + 4)" if "g \<in> set (concat fss')" for g
    by (rule read32_agree) (use m1(3) disj that in \<open>fastforce simp: ret_slots_def\<close>)
  have link: "m1 x = m x" if "g \<in> set (concat fss')" "x \<in> word_at g" for g x
  proof -
    have "x \<notin> ret_slots F" using F that Cons.prems(3) by (force simp: apart_def ret_slots_def fss(1))
    with m1(3) sub show ?thesis by blast
  qed
  have "list_all2 (thread_frames m1 thread_size) ts fss'"
    unfolding list_all2_conv_all_nth
  proof (intro conjI allI impI)
    show "length ts = length fss'" using fss(3) by (rule list_all2_lengthD)
    fix i assume i: "i < length ts"
    have tf: "thread_frames m thread_size (ts ! i) (fss' ! i)" by (rule list_all2_nthD [OF fss(3) i])
    have "fss' ! i \<in> set fss'" using i fss(3) by (simp add: list_all2_lengthD)
    show "thread_frames m1 thread_size (ts ! i) (fss' ! i)"
    proof (cases "fst (ts ! i)")
      case True
      with tf show ?thesis by (simp add: thread_frames_def)
    next
      case False
      then have "word_at (snd (ts ! i)) \<inter> ret_slots F = {}" using Cons.prems(6) i by simp
      then have rd: "read32 m1 (snd (ts ! i)) = read32 m (snd (ts ! i))"
        by (intro read32_agree) (use m1(3) sub in blast)
      have "frames m (snd (ts ! i) AND NOT (thread_size - 1)) (read32 m (snd (ts ! i))) (fss' ! i)"
        using tf False by (simp add: thread_frames_def)
      then have "frames m1 (snd (ts ! i) AND NOT (thread_size - 1)) (read32 m1 (snd (ts ! i))) (fss' ! i)"
        unfolding rd by (rule frames_agree) (rule link, use \<open>fss' ! i \<in> set fss'\<close> in auto)
      with False show ?thesis by (simp add: thread_frames_def)
    qed
  qed
  moreover have "\<forall>x. x \<notin> ret_slots F \<longrightarrow> m1 x = m0 x"
  proof (intro allI impI)
    fix x assume x: "x \<notin> ret_slots F"
    then have "x \<notin> ret_slots fs" using sub by auto
    then have "m1 x = m x" using m1(3) by simp
    with x Cons.prems(2) show "m1 x = m0 x" by simp
  qed
  ultimately obtain m' where m': "push_orig_eips ot dec c thread_size ts m1 = Some m'"
    "\<forall>f\<in>set (concat fss'). read32 m' (f + 4) = repaired (og (read32 m1 (f + 4))) (read32 m1 (f + 4))"
    "\<forall>x. x \<notin> ret_slots (concat fss') \<longrightarrow> m' x = m1 x"
    using Cons.IH [of m1 fss'] Cons.prems(3-6) same by (auto simp: fss(1))
  have "read32 m' (f + 4) = read32 m1 (f + 4)" if "f \<in> set fs" for f
    by (rule read32_agree) (use m'(3) disj that in \<open>fastforce simp: ret_slots_def\<close>)
  then have "\<forall>f\<in>set (concat fss). read32 m' (f + 4) = repaired (og (read32 m (f + 4))) (read32 m (f + 4))"
    using m'(2) m1(2) same by (auto simp: fss(1))
  moreover have "\<forall>x. x \<notin> ret_slots (concat fss) \<longrightarrow> m' x = m x"
    using m'(3) m1(3) by (auto simp: fss(1) ret_slots_def)
  ultimately show ?case using m1(1) m'(1) by auto
qed

end
