(* ===== verification/Btfix_Props.thy ===== *)
theory Btfix_Props
  imports Btfix Tb_Props
begin

text \<open>
  Stopping the module: which return addresses of the sleeping threads leave the caches, and to
  which guest addresses.
\<close>

section \<open>Where a return address leads\<close>

text \<open>
  The code at \<open>a\<close>, followed along its jumps for \<open>n\<close> instructions, comes with the last of these to
  a jump to \<open>t\<close> in the translation cache, the first such jump. A jump is by its mnemonic \<open>jmp\<close> and
  goes to the value of its operand.
\<close>

inductive leads_to :: "btmod_opctable \<Rightarrow> (u32 \<Rightarrow> insn \<times> nat) \<Rightarrow> malloc_info \<Rightarrow> nat \<Rightarrow> u32 \<Rightarrow> u32 \<Rightarrow> bool"
  for ot code info where
  into_cache: "code a = (i, len) \<Longrightarrow> starts (opctable_name ot (i_opc i)) ''jmp'' \<Longrightarrow> value32 (opn i 0) = Some t \<Longrightarrow>
    addr_to_pool info t = int POOL_TC \<Longrightarrow> leads_to ot code info (Suc 0) a t"
| by_jump: "code a = (i, len) \<Longrightarrow> starts (opctable_name ot (i_opc i)) ''jmp'' \<Longrightarrow> value32 (opn i 0) = Some b \<Longrightarrow>
    addr_to_pool info b \<noteq> int POOL_TC \<Longrightarrow> leads_to ot code info n b t \<Longrightarrow> leads_to ot code info (Suc n) a t"
| straight_on: "code a = (i, len) \<Longrightarrow> \<not> starts (opctable_name ot (i_opc i)) ''jmp'' \<Longrightarrow>
    leads_to ot code info n (a + of_nat len) t \<Longrightarrow> leads_to ot code info (Suc n) a t"

text \<open>The loop finds this place when it is within its bound, and gives 0 when there is none.\<close>

lemma fetch_edge_found:
  "leads_to ot code info n a t \<Longrightarrow> n \<le> j \<Longrightarrow> dec m = code \<Longrightarrow> c_info c = info \<Longrightarrow>
    fetch_edge_loop j ot dec c m a = tb_tc_ptr_to_eip_virt (c_loc c) (c_tbs c) (c_tree c) t"
proof (induction arbitrary: j rule: leads_to.induct)
  case (into_cache a i len t)
  then show ?case by (cases j) simp_all
next
  case (by_jump a i len b n t)
  then show ?case by (cases j) simp_all
next
  case (straight_on a i len n t)
  then show ?case by (cases j) simp_all
qed

lemma fetch_edge_none:
  "\<forall>n\<le>j. \<forall>t. \<not> leads_to ot (dec m) (c_info c) n a t \<Longrightarrow> fetch_edge_loop j ot dec c m a = Some e \<Longrightarrow> e = 0"
proof (induction j arbitrary: a)
  case (Suc j)
  obtain i len where d: "dec m a = (i, len)" by fastforce
  show ?case
  proof (cases "starts (opctable_name ot (i_opc i)) ''jmp''")
    case True
    with Suc.prems(2) d obtain b where b: "value32 (opn i 0) = Some b" by (auto split: option.splits)
    have tc: "addr_to_pool (c_info c) b \<noteq> int POOL_TC"
    proof
      assume "addr_to_pool (c_info c) b = int POOL_TC"
      then have "leads_to ot (dec m) (c_info c) (Suc 0) a b" by (rule into_cache [where code = "dec m", OF d True b])
      with Suc.prems(1) show False by (meson Suc_le_mono le0)
    qed
    have "\<forall>n\<le>j. \<forall>t. \<not> leads_to ot (dec m) (c_info c) n b t"
      using Suc.prems(1) by_jump [where code = "dec m", OF d True b tc] by (meson Suc_le_mono)
    moreover have "fetch_edge_loop j ot dec c m b = Some e" using Suc.prems(2) d True b tc by simp
    ultimately show ?thesis by (rule Suc.IH)
  next
    case False
    have "\<forall>n\<le>j. \<forall>t. \<not> leads_to ot (dec m) (c_info c) n (a + of_nat len) t"
      using Suc.prems(1) straight_on [where code = "dec m", OF d False] by (meson Suc_le_mono)
    moreover have "fetch_edge_loop j ot dec c m (a + of_nat len) = Some e" using Suc.prems(2) d False by simp
    ultimately show ?thesis by (rule Suc.IH)
  qed
qed simp

text \<open>
  A return address resumes at \<open>t\<close> in the translation cache: it is \<open>t\<close> itself, or is in the edge
  code and leads there within ten instructions.
\<close>

definition resumes_at :: "btmod_opctable \<Rightarrow> (u32 \<Rightarrow> insn \<times> nat) \<Rightarrow> malloc_info \<Rightarrow> u32 \<Rightarrow> u32 \<Rightarrow> bool" where
  "resumes_at ot code info r t \<longleftrightarrow>
     (addr_to_pool info r = int POOL_TC \<and> t = r) \<or>
     (addr_to_pool info r = int POOL_EDGE \<and> (\<exists>n\<le>10. leads_to ot code info n r t))"

definition in_translation :: "tb_t \<Rightarrow> nat \<Rightarrow> u32 \<Rightarrow> bool" where
  "in_translation tb i t \<longleftrightarrow>
     i < num_insns tb \<and> unat (tc_ptr tb) + tc_off tb i \<le> unat t \<and> unat t < unat (tc_ptr tb) + tc_off tb (i + 1)"

lemma orig_eip_resumes:
  "resumes_at ot (dec m) (c_info c) r t \<Longrightarrow>
    orig_eip ot dec c m r = tb_tc_ptr_to_eip_virt (c_loc c) (c_tbs c) (c_tree c) t"
  by (auto simp: resumes_at_def orig_eip_def pool_defs fetch_eip_from_edge_def intro: fetch_edge_found)

lemma orig_eip_stays:
  assumes "\<forall>t. \<not> resumes_at ot (dec m) (c_info c) r t" and "orig_eip ot dec c m r = Some e"
  shows "e = 0"
proof (cases "addr_to_pool (c_info c) r = int POOL_EDGE")
  case True
  then have "\<forall>n\<le>10. \<forall>t. \<not> leads_to ot (dec m) (c_info c) n r t" using assms(1) by (auto simp: resumes_at_def)
  moreover have "fetch_edge_loop 10 ot dec c m r = Some e"
    using assms(2) True by (simp add: orig_eip_def pool_defs fetch_eip_from_edge_def)
  ultimately show ?thesis by (rule fetch_edge_none)
next
  case False
  with assms show ?thesis by (auto simp: resumes_at_def orig_eip_def split: if_splits)
qed

lemma orig_eip_cached:
  assumes tree: "tc_tree_ok (c_tbs c) (c_tree c) xs" "c_loc c \<notin> set xs" "\<forall>p\<in>set xs. tb_wf (c_tbs c p)"
    and t: "resumes_at ot (dec m) (c_info c) r t" and p: "p \<in> set xs" and i: "in_translation (c_tbs c p) i t"
  shows "orig_eip ot dec c m r = Some (insn_start (c_tbs c p) i)"
proof -
  have i': "i < num_insns (c_tbs c p)" "unat (tc_ptr (c_tbs c p)) + tc_off (c_tbs c p) i \<le> unat t"
    "unat t < unat (tc_ptr (c_tbs c p)) + tc_off (c_tbs c p) (i + 1)" using i by (simp_all add: in_translation_def)
  have wf: "tb_wf (c_tbs c p)" using tree(3) p by blast
  have inc: "in_cache_of (c_tbs c p) t" using insn_in_cache [OF wf i'] .
  have "tc_range_ok (c_tbs c) p" using tree(1) p by (simp add: tc_tree_ok_def)
  then have "unat t + 1 < 2 ^ 32" using inc by (simp add: tc_range_ok_def in_cache_of_def)
  from tb_find_cached [OF tree(1,2) this p inc] tc_to_eip_loop_insn [OF wf i', of 0] orig_eip_resumes [where dec = dec and m = m, OF t]
  show ?thesis by (simp add: tb_tc_ptr_to_eip_virt_def)
qed

lemma orig_eip_no_block:
  assumes tree: "tc_tree_ok (c_tbs c) (c_tree c) xs" "c_loc c \<notin> set xs"
    and t: "resumes_at ot (dec m) (c_info c) r t" "unat t + 1 < 2 ^ 32" "\<forall>p\<in>set xs. \<not> in_cache_of (c_tbs c p) t"
  shows "orig_eip ot dec c m r = Some 0"
proof -
  have "find (\<lambda>p. in_cache_of (c_tbs c p) t) xs = None" using t(3) by (simp add: find_None_iff)
  then show ?thesis
    using tb_find_first [OF tree t(2)] orig_eip_resumes [where dec = dec and m = m, OF t(1)] by (simp add: tb_tc_ptr_to_eip_virt_def)
qed

section \<open>The repair\<close>

text \<open>
  C28. When the frames of the threads are finite chains whose return addresses share no bytes with
  links and each other, and the guest address of every return address is defined, the repair
  returns. A return address that resumes inside the translation of instruction \<open>i\<close> of a block,
  because it lies there or in edge code that jumps there within ten instructions, becomes the
  address of that guest instruction. One that resumes in no block stays as it is: so does an
  address outside the caches, but also one in edge code from which no jump into the translation
  cache is found in ten instructions. Nothing but the return addresses changes.
\<close>

theorem push_orig_eips_correct:
  assumes tree: "tc_tree_ok (c_tbs c) (c_tree c) xs" "c_loc c \<notin> set xs" "\<forall>p\<in>set xs. tb_wf (c_tbs c p)"
    and frames: "list_all2 (thread_frames m thread_size) ts fss" "apart (concat fss)"
      "\<forall>t\<in>set ts. \<not> fst t \<longrightarrow> word_at (snd t) \<inter> ret_slots (concat fss) = {}"
    and code: "\<forall>m'. (\<forall>x. x \<notin> ret_slots (concat fss) \<longrightarrow> m' x = m x) \<longrightarrow> dec m' = dec m"
    and defined: "\<forall>f\<in>set (concat fss). orig_eip ot dec c m (read32 m (f + 4)) \<noteq> None"
  shows "\<exists>m'. push_orig_eips ot dec c thread_size ts m = Some m' \<and>
    (\<forall>f\<in>set (concat fss). \<forall>p\<in>set xs. \<forall>t i.
       resumes_at ot (dec m) (c_info c) (read32 m (f + 4)) t \<and> in_translation (c_tbs c p) i t \<and>
       insn_start (c_tbs c p) i \<noteq> 0 \<longrightarrow> read32 m' (f + 4) = insn_start (c_tbs c p) i) \<and>
    (\<forall>f\<in>set (concat fss).
       (\<forall>t. resumes_at ot (dec m) (c_info c) (read32 m (f + 4)) t \<longrightarrow>
          unat t + 1 < 2 ^ 32 \<and> (\<forall>p\<in>set xs. \<not> in_cache_of (c_tbs c p) t)) \<longrightarrow>
       read32 m' (f + 4) = read32 m (f + 4)) \<and>
    (\<forall>x. x \<notin> ret_slots (concat fss) \<longrightarrow> m' x = m x)"
proof -
  have edge: "fetch_edge_loop j ot dec c m' r = fetch_edge_loop j ot dec c m r" if "dec m' = dec m" for j m' r
    by (induction j arbitrary: r) (simp_all only: fetch_edge_loop.simps that)
  have orig: "orig_eip ot dec c m' r = orig_eip ot dec c m r" if "\<forall>x. x \<notin> ret_slots (concat fss) \<longrightarrow> m' x = m x" for m' r
  proof -
    have d: "dec m' = dec m" using code that by blast
    show ?thesis by (simp only: orig_eip_def fetch_eip_from_edge_def edge [OF d])
  qed
  have "distinct (concat fss)" using frames(2) by (simp add: apart_def)
  then obtain m' where m': "push_orig_eips ot dec c thread_size ts m = Some m'"
    "\<forall>f\<in>set (concat fss). read32 m' (f + 4) = repaired (orig_eip ot dec c m (read32 m (f + 4))) (read32 m (f + 4))"
    "\<forall>x. x \<notin> ret_slots (concat fss) \<longrightarrow> m' x = m x"
    using push_orig_eips_walk [OF orig frames(2), of m m thread_size ts fss] frames(1,3) defined by auto
  have "read32 m' (f + 4) = insn_start (c_tbs c p) i"
    if "f \<in> set (concat fss)" "p \<in> set xs" "resumes_at ot (dec m) (c_info c) (read32 m (f + 4)) t"
      "in_translation (c_tbs c p) i t" "insn_start (c_tbs c p) i \<noteq> 0" for f p t i
    using bspec [OF m'(2) that(1)] that(5) orig_eip_cached [where dec = dec and m = m, OF tree that(3,2,4)] by (simp add: repaired_def)
  moreover have "read32 m' (f + 4) = read32 m (f + 4)"
    if "f \<in> set (concat fss)" "\<forall>t. resumes_at ot (dec m) (c_info c) (read32 m (f + 4)) t \<longrightarrow>
          unat t + 1 < 2 ^ 32 \<and> (\<forall>p\<in>set xs. \<not> in_cache_of (c_tbs c p) t)" for f
  proof -
    have "orig_eip ot dec c m (read32 m (f + 4)) \<noteq> None" by (rule bspec [OF defined that(1)])
    then obtain e where e: "orig_eip ot dec c m (read32 m (f + 4)) = Some e" by blast
    have "e = 0"
      using that(2) orig_eip_stays [OF _ e] orig_eip_no_block [OF tree(1,2), of ot dec m "read32 m (f + 4)"] e
      by (metis option.inject)
    with bspec [OF m'(2) that(1)] e show ?thesis by (simp add: repaired_def)
  qed
  ultimately show ?thesis using m'(1,3) by (intro exI [of _ m']) blast
qed

text \<open>
  A sleeping thread with two frames, beside the current one: the inner returns to cache address
  2015, the outer to edge code at 9000, whose second instruction jumps to 2015.
\<close>

definition fix_caches :: caches where
  "fix_caches = \<lparr>c_info = \<lparr>pool_range = [],
       cinfo = \<lparr>chunk_start = 1000, chunk_end = 5000, chunk_cur = 1000\<rparr> #
         replicate 23 \<lparr>chunk_start = 0, chunk_end = 0, chunk_cur = 0\<rparr> @
         [\<lparr>chunk_start = 9000, chunk_end = 9500, chunk_cur = 9000\<rparr>]\<rparr>,
     c_tbs = demo_tb, c_tree = heap123, c_loc = 9\<rparr>"

definition fix_ot :: btmod_opctable where
  "fix_ot = opctable_init\<lparr>nametable := [''mov'', ''jmp'']\<rparr>"

definition fix_code :: "u32 \<Rightarrow> insn \<times> nat" where
  "fix_code a = (if a = 9003 then (\<lparr>i_opc = 1, i_op = [scalar_operand op_imm 4 2015 tag_const]\<rparr>, 5)
                 else (\<lparr>i_opc = 0, i_op = []\<rparr>, 3))"

definition fix_mem :: memory where
  "fix_mem = store32 (store32 (store32 (store32 (\<lambda>_. 0) 0x10100 0x10200) 0x10200 0x10300) 0x10204 2015) 0x10304 9000"

lemma fix_mem_reads:
  "read32 fix_mem 0x10100 = 0x10200" "read32 fix_mem 0x10200 = 0x10300" "read32 fix_mem 0x10204 = 2015"
  "read32 fix_mem 0x10300 = 0" "read32 fix_mem 0x10304 = 9000"
proof -
  have "read32 fix_mem 0x10300 = read32 (\<lambda>_. 0) 0x10300"
    unfolding fix_mem_def by (rule read32_cong) (simp_all add: store32_def)
  then show "read32 fix_mem 0x10300 = 0" by (simp add: read32_def)
  show "read32 fix_mem 0x10100 = 0x10200" "read32 fix_mem 0x10200 = 0x10300" "read32 fix_mem 0x10204 = 2015"
    unfolding fix_mem_def by (simp_all add: read_store_apart word_at_def)
qed (simp add: fix_mem_def)

lemma fix_pools:
  "addr_to_pool (c_info fix_caches) 2015 = int POOL_TC" "addr_to_pool (c_info fix_caches) 9000 = int POOL_EDGE"
  by code_simp+

lemma fix_leads: "leads_to fix_ot fix_code (c_info fix_caches) 2 9000 2015"
proof -
  let ?L = "leads_to fix_ot fix_code (c_info fix_caches)"
  have v: "value32 (opn (fst (fix_code 9003)) 0) = Some 2015" "starts (opctable_name fix_ot (i_opc (fst (fix_code 9003)))) ''jmp''"
    "\<not> starts (opctable_name fix_ot (i_opc (fst (fix_code 9000)))) ''jmp''" "snd (fix_code 9000) = 3"
    by code_simp+
  have jump: "?L (Suc 0) 9003 2015"
    by (rule into_cache [where i = "fst (fix_code 9003)" and len = "snd (fix_code 9003)"]) (simp_all add: v fix_pools)
  have "?L (Suc (Suc 0)) 9000 2015"
    by (rule straight_on [where i = "fst (fix_code 9000)" and len = 3]) (use jump v in \<open>simp_all add: prod_eq_iff\<close>)
  then show ?thesis by (simp add: numeral_2_eq_2)
qed

theorem push_orig_eips_correct_witness:
  "\<exists>m'. push_orig_eips fix_ot (\<lambda>_. fix_code) fix_caches 8192 [(True, 0), (False, 0x10100)] fix_mem = Some m' \<and>
     read32 m' 0x10204 = 202 \<and> read32 m' 0x10304 = 202"
proof -
  let ?dec = "\<lambda>_. fix_code"
  let ?R = "resumes_at fix_ot (?dec fix_mem) (c_info fix_caches)"
  have tree: "tc_tree_ok (c_tbs fix_caches) (c_tree fix_caches) [1, 2, 3]" "c_loc fix_caches \<notin> set [1, 2, 3]"
    using demo_tc_tree by (simp_all add: fix_caches_def)
  have wf: "\<forall>p\<in>set [1, 2, 3]. tb_wf (c_tbs fix_caches p)"
    by (simp add: fix_caches_def tb_wf_def demo_tb_def eip_off_def tc_off_def less_2_cases_iff)
  have st: "insn_start (c_tbs fix_caches 2) 1 = 202" by (simp add: fix_caches_def demo_tb_def insn_start_def eip_off_def)
  have inside: "in_translation (c_tbs fix_caches 2) 1 2015"
    by (simp add: in_translation_def fix_caches_def demo_tb_def tc_off_def)
  have p: "2 \<in> set [1, 2, 3 :: ptr]" by simp
  have res: "?R 2015 2015" "?R 9000 2015"
    using fix_pools fix_leads by (auto simp: resumes_at_def intro!: exI [of _ 2])
  have fr: "list_all2 (thread_frames fix_mem 8192) [(True, 0), (False, 0x10100)] [[], [0x10200, 0x10300]]"
    using fix_mem_reads by (simp add: thread_frames_def)
  have ap: "apart (concat [[], [0x10200, 0x10300]])" by (simp add: apart_def word_at_def)
  have "orig_eip fix_ot ?dec fix_caches fix_mem r = Some 202" if "?R r 2015" for r
    using orig_eip_cached [where dec = ?dec and m = fix_mem, OF tree wf that p inside] st by simp
  then have d: "\<forall>f\<in>set (concat [[], [0x10200, 0x10300]]). orig_eip fix_ot ?dec fix_caches fix_mem (read32 fix_mem (f + 4)) \<noteq> None"
    using fix_mem_reads res by simp
  from push_orig_eips_correct [OF tree wf fr ap _ _ d] obtain m' where m':
    "push_orig_eips fix_ot ?dec fix_caches 8192 [(True, 0), (False, 0x10100)] fix_mem = Some m'"
    "\<forall>f\<in>set (concat [[], [0x10200, 0x10300]]). \<forall>p\<in>set [1, 2, 3]. \<forall>t i.
       ?R (read32 fix_mem (f + 4)) t \<and> in_translation (c_tbs fix_caches p) i t \<and>
       insn_start (c_tbs fix_caches p) i \<noteq> 0 \<longrightarrow> read32 m' (f + 4) = insn_start (c_tbs fix_caches p) i"
    by (auto simp: ret_slots_def word_at_def)
  have new: "read32 m' (f + 4) = 202" if "f \<in> {0x10200, 0x10300}" "?R (read32 fix_mem (f + 4)) 2015" for f
  proof -
    have "f \<in> set (concat [[], [0x10200, 0x10300]])" using that(1) by simp
    from m'(2) [rule_format, OF this p, of 2015 1] that(2) inside st show ?thesis by simp
  qed
  have "read32 m' 0x10204 = 202" "read32 m' 0x10304 = 202"
    using new [of "0x10200"] new [of "0x10300"] res fix_mem_reads by simp_all
  with m'(1) show ?thesis by blast
qed

end
