(* ===== verification/Bt_main.thy ===== *)
theory Bt_main
  imports Translate Btfix Jumptable1
begin

text \<open>
  The translator's entry points (\<^verbatim>\<open>bt_main.c\<close>): the block for a guest address, the chaining of
  the jump that missed it, the entry from translated code, and the shadow interrupt table.
\<close>

section \<open>State\<close>

text \<open>\<^verbatim>\<open>vcpu_t\<close> of \<^verbatim>\<open>sys/vcpu.h\<close>.\<close>

record vcpu_t =
  vc_eip :: u32
  vc_prev_tb :: u32
  vc_edge :: u32
  vc_callout_label :: u32

text \<open>
  The parts of \<^verbatim>\<open>btmod\<close> that the functions change, with the blocks, the tables of the cpus, the
  module's exception table and memory. \<open>lock_owner\<close> is the cpu that translates, \<open>0xff\<close> for none.
\<close>

record bt_state =
  bs_info :: malloc_info
  bs_tbs :: tb_map
  bs_jt2 :: rbstate
  bs_tc :: rbstate
  bs_mod :: mod_table
  bs_jt1 :: "nat \<Rightarrow> u64 list"
  bs_mem :: memory
  lock_owner :: nat
  bs_vcpu :: "nat \<Rightarrow> vcpu_t"

text \<open>
  What does not change: the tables of rules, the decoder, the scratch page, the place of local
  blocks on the stack, and what the memory of a new block's descriptor holds.
\<close>

record bt_conf =
  cf_env :: bt_env
  cf_dec :: decoder
  cf_tpage :: u32
  cf_loc :: ptr
  cf_raw :: tb_t

definition env_of :: "bt_conf \<Rightarrow> bt_state \<Rightarrow> bt_env" where
  "env_of cfg st = (cf_env cfg)\<lparr>e_disas := cf_dec cfg (bs_mem st), e_mem := bs_mem st\<rparr>"

section \<open>The block for an address\<close>

text \<open>
  Translation of a new block; its node is the address of its descriptor. The two passes read the
  guest's code, which the translation does not change; the second one's output is in memory
  afterwards.
\<close>

definition gen_block :: "bt_conf \<Rightarrow> u32 \<Rightarrow> bt_state \<Rightarrow> (ptr \<times> bt_state) option" where
  "gen_block cfg eip st =
     (case alloc_a_tb (bs_info st) (cf_raw cfg) of
        None \<Rightarrow> None
      | Some (p, tb, info) \<Rightarrow>
          (case translate (env_of cfg st) (cf_tpage cfg) (bs_mod st) (tb\<lparr>eip_virt := eip\<rparr>) False of
             None \<Rightarrow> None
           | Some (tb, em, m) \<Rightarrow>
               (case tb_malloc info tb of
                  None \<Rightarrow> None
                | Some (tb, info) \<Rightarrow>
                    (case translate (env_of cfg st) (cf_tpage cfg) m tb True of
                       None \<Rightarrow> None
                     | Some (tb, em, m) \<Rightarrow>
                         let x = unat p; tbs = (bs_tbs st)(x := tb) in
                         (case jumptable2_add tbs (bs_jt2 st) x of
                            None \<Rightarrow> None
                          | Some jt2 \<Rightarrow>
                              (case tb_add tbs (bs_tc st) x of
                                 None \<Rightarrow> None
                               | Some tc \<Rightarrow>
                                   Some (x, st\<lparr>bs_info := info, bs_tbs := tbs, bs_jt2 := jt2, bs_tc := tc, bs_mod := m,
                                     bs_mem := write_bytes (em_ebase em) (em_edge em)
                                       (write_bytes (em_cbase em) (em_code em) (bs_mem st))\<rparr>)))))))"

text \<open>A jump into the middle of a block is recorded in it.\<close>

definition tb_gen_translate_code :: "bt_conf \<Rightarrow> u32 \<Rightarrow> bt_state \<Rightarrow> (u32 \<times> bt_state) option" where
  "tb_gen_translate_code cfg eip st =
     (case jumptable2_find (cf_loc cfg) (bs_tbs st) (bs_jt2 st) eip of
        None \<Rightarrow> None
      | Some r \<Rightarrow>
          (case (case r of Some p \<Rightarrow> Some (p, st) | None \<Rightarrow> gen_block cfg eip st) of
             None \<Rightarrow> None
           | Some (p, st) \<Rightarrow>
               let tb = bs_tbs st p in
               if eip_virt tb = eip then Some (tc_ptr tb, st)
               else
                 let tc_offset = eip_virt_to_tc_ptr tb eip in
                 (case tb_add_jump (bs_info st) tb (ucast (tc_offset - tc_ptr tb)) of
                    None \<Rightarrow> None
                  | Some (tb, info) \<Rightarrow> Some (tc_offset, st\<lparr>bs_info := info, bs_tbs := (bs_tbs st)(p := tb)\<rparr>))))"

text \<open>
  \<open>v\<close> is the virtual cpu that asks, \<open>cpu\<close> the one the code runs on. The jump that missed the
  block holds the distance from its end to the target, at the address \<open>prev_tb\<close>.
\<close>

definition chain :: "u32 \<Rightarrow> u32 \<Rightarrow> memory \<Rightarrow> memory" where
  "chain prev_tb tc m = (if prev_tb \<noteq> 0 then store32 m prev_tb (tc - (prev_tb + 4)) else m)"

definition vcpu_get_eip :: "vcpu_t \<Rightarrow> u32" where
  "vcpu_get_eip vcpu = vc_eip vcpu"

definition tb_gen_translated_code :: "bt_conf \<Rightarrow> nat \<Rightarrow> nat \<Rightarrow> bt_state \<Rightarrow> (u32 \<times> bt_state) option" where
  "tb_gen_translated_code cfg cpu v st =
     (let eip_virt = vcpu_get_eip (bs_vcpu st v) in
      case tb_gen_translate_code cfg eip_virt (st\<lparr>lock_owner := v\<rparr>) of
        None \<Rightarrow> None
      | Some (tc_offset, st) \<Rightarrow>
          Some (tc_offset, st\<lparr>lock_owner := 0xff, bs_jt1 := jumptable1_add cpu eip_virt tc_offset (bs_jt1 st),
            bs_mem := chain (vc_prev_tb (bs_vcpu st v)) tc_offset (bs_mem st)\<rparr>))"

definition set_vcpu :: "nat \<Rightarrow> u32 \<Rightarrow> u32 \<Rightarrow> bt_state \<Rightarrow> bt_state" where
  "set_vcpu v eip prev_tb st =
     st\<lparr>bs_vcpu := (bs_vcpu st)(v := (bs_vcpu st v)\<lparr>vc_eip := eip, vc_prev_tb := prev_tb\<rparr>)\<rparr>"

text \<open>
  The entry from translated code: \<open>tx_target\<close> is the guest address it wants and the cache address
  it gets; the address of the jump to chain is the ninth word of the guest's stack. A fault
  during translation enters again, which is only reported.
\<close>

definition monitor_entry :: "bt_conf \<Rightarrow> nat \<Rightarrow> nat \<Rightarrow> u32 \<Rightarrow> u32 \<Rightarrow> bt_state \<Rightarrow> (u32 \<times> bt_state) option" where
  "monitor_entry cfg cpu v gsptr tx_target st =
     (if lock_owner st \<noteq> v
      then tb_gen_translated_code cfg cpu v (set_vcpu v tx_target (read32 (bs_mem st) (gsptr + 4 * 8)) st)
      else Some (tx_target, st))"

section \<open>Patching addresses\<close>

text \<open>The walk does not advance at a return address of 0.\<close>

partial_function (option) patch_frames :: "bt_conf \<Rightarrow> nat \<Rightarrow> nat \<Rightarrow> u32 \<Rightarrow> u32 \<Rightarrow> bt_state \<Rightarrow> bt_state option" where
  "patch_frames cfg cpu v stack ebp st =
     (if ebp > stack then
        let eip = read32 (bs_mem st) (ebp + 4); st = set_vcpu v eip (vc_prev_tb (bs_vcpu st v)) st in
        if eip \<noteq> 0 then
          (case tb_gen_translated_code cfg cpu v st of
             None \<Rightarrow> None
           | Some (tc, st) \<Rightarrow>
               let st = (if tc \<noteq> 0 then st\<lparr>bs_mem := store32 (bs_mem st) (ebp + 4) tc\<rparr> else st)
               in patch_frames cfg cpu v stack (read32 (bs_mem st) ebp) st)
        else patch_frames cfg cpu v stack ebp st
      else Some st)"

text \<open>A thread is listed with whether it is skipped, as the current or a running one.\<close>

fun patch_translated_eips :: "bt_conf \<Rightarrow> nat \<Rightarrow> nat \<Rightarrow> u32 \<Rightarrow> (bool \<times> u32) list \<Rightarrow> bt_state \<Rightarrow> bt_state option" where
  "patch_translated_eips cfg cpu v thread_size [] st = Some st"
| "patch_translated_eips cfg cpu v thread_size ((skip, esp) # ts) st =
     (if skip then patch_translated_eips cfg cpu v thread_size ts st
      else
        (case patch_frames cfg cpu v (esp AND NOT (thread_size - 1)) (read32 (bs_mem st) esp) st of
           None \<Rightarrow> None
         | Some st \<Rightarrow> patch_translated_eips cfg cpu v thread_size ts st))"

definition is_edge_cache_addr :: "bt_state \<Rightarrow> u32 \<Rightarrow> bool" where
  "is_edge_cache_addr st eip \<longleftrightarrow> addr_to_pool (bs_info st) eip = int POOL_EDGE"

definition insn_is_push_es :: "memory \<Rightarrow> u32 \<Rightarrow> bool" where
  "insn_is_push_es m a \<longleftrightarrow> m a = 0x06"

text \<open>
  The code of an interrupt handler is translated ahead, along all its direct jumps, until it
  pushes \<^verbatim>\<open>%es\<close>; a loop in the code does not end.
\<close>

partial_function (option) patch_until_fs_seen :: "bt_conf \<Rightarrow> nat \<Rightarrow> nat \<Rightarrow> u32 \<Rightarrow> bt_state \<Rightarrow> bt_state option" where
  "patch_until_fs_seen cfg cpu v cur_eip st =
     (if insn_is_push_es (bs_mem st) cur_eip then Some st
      else
        let insn = fst (cf_dec cfg (bs_mem st) cur_eip); len = snd (cf_dec cfg (bs_mem st) cur_eip);
            ot = e_ot (cf_env cfg); opc = opctable_name ot (i_opc insn)
        in if starts opc ''j'' \<and> otype (opn insn 0) = op_imm then
             (case value32 (opn insn 0) of
                None \<Rightarrow> None
              | Some new_eip \<Rightarrow>
                  (case (if is_edge_cache_addr st new_eip then
                           (case fetch_eip_and_prev_tb ot (cf_dec cfg) (bs_mem st) new_eip 0 0 of
                              None \<Rightarrow> None
                            | Some (True, eip, prev_tb) \<Rightarrow>
                                map_option (\<lambda>(tc, st). (Some tc, st)) (tb_gen_translated_code cfg cpu v (set_vcpu v eip prev_tb st))
                            | Some (False, _, _) \<Rightarrow> Some (None, st))
                         else Some (Some new_eip, st)) of
                     None \<Rightarrow> None
                   | Some (None, st) \<Rightarrow> Some st
                   | Some (Some new_eip, st) \<Rightarrow>
                       Option.bind (patch_until_fs_seen cfg cpu v new_eip st)
                         (\<lambda>st. if starts opc ''jmp'' then Some st
                               else patch_until_fs_seen cfg cpu v (cur_eip + of_nat len) st)))
           else if insn_is_terminating ot insn then Some st
           else patch_until_fs_seen cfg cpu v (cur_eip + of_nat len) st)"

section \<open>The shadow interrupt table\<close>

definition tb_gen_translated_code_idt :: "bt_conf \<Rightarrow> nat \<Rightarrow> nat \<Rightarrow> bt_state \<Rightarrow> (u32 \<times> bt_state) option" where
  "tb_gen_translated_code_idt cfg cpu v st =
     (case tb_gen_translated_code cfg cpu v (set_vcpu v (vc_eip (bs_vcpu st v)) 0 st) of
        None \<Rightarrow> None
      | Some (tc, st) \<Rightarrow> map_option (Pair tc) (patch_until_fs_seen cfg cpu v tc st))"

record gate_desc =
  gd_a :: u32
  gd_b :: u32

definition bt_read_idt_addr :: "gate_desc list \<Rightarrow> nat \<Rightarrow> u32" where
  "bt_read_idt_addr idt gate = (gd_a (idt ! gate) AND 0xffff) OR (gd_b (idt ! gate) AND 0xffff0000)"

definition bt_put_idt_addr :: "gate_desc list \<Rightarrow> nat \<Rightarrow> u32 \<Rightarrow> gate_desc list" where
  "bt_put_idt_addr idt gate addr =
     idt[gate := (idt ! gate)\<lparr>gd_a := (gd_a (idt ! gate) AND 0xffff0000) OR (addr AND 0xffff),
                             gd_b := (gd_b (idt ! gate) AND 0x0000ffff) OR (addr AND 0xffff0000)\<rparr>]"

definition set_eip :: "nat \<Rightarrow> u32 \<Rightarrow> bt_state \<Rightarrow> bt_state" where
  "set_eip v eip st = set_vcpu v eip (vc_prev_tb (bs_vcpu st v)) st"

text \<open>The non-maskable interrupt and the vectors from 20 to 31 keep their gates.\<close>

fun shadow_gates ::
    "bt_conf \<Rightarrow> nat \<Rightarrow> nat \<Rightarrow> nat list \<Rightarrow> gate_desc list \<Rightarrow> bt_state \<Rightarrow> (gate_desc list \<times> bt_state) option" where
  "shadow_gates cfg cpu v [] table st = Some (table, st)"
| "shadow_gates cfg cpu v (i # is) table st =
     (let st = set_eip v (bt_read_idt_addr table i) st in
      if vc_eip (bs_vcpu st v) \<noteq> 0 \<and> (i < 20 \<or> i > 31) \<and> i \<noteq> 2 then
        (case tb_gen_translated_code_idt cfg cpu v st of
           None \<Rightarrow> None
         | Some (tc, st) \<Rightarrow> shadow_gates cfg cpu v is (bt_put_idt_addr table i tc) st)
      else shadow_gates cfg cpu v is table st)"

text \<open>
  \<open>native\<close> is the table the processor uses and \<open>native_sysenter\<close> its entry for system calls; the
  result is the new value of \<^verbatim>\<open>target_sysenter\<close> and the shadow table, of \<open>256\<close> gates.
\<close>

definition create_shadow_idt ::
    "bt_conf \<Rightarrow> nat \<Rightarrow> nat \<Rightarrow> gate_desc list \<Rightarrow> u64 \<Rightarrow> u64 \<Rightarrow> bt_state \<Rightarrow> (u64 \<times> gate_desc list \<times> bt_state) option" where
  "create_shadow_idt cfg cpu v native native_sysenter target_sysenter st =
     (let st = set_eip v (ucast (native_sysenter AND 0xffffffff)) st in
      case (if vc_eip (bs_vcpu st v) \<noteq> 0
            then map_option (\<lambda>(tc, st). (ucast tc, st)) (tb_gen_translated_code_idt cfg cpu v st)
            else Some (target_sysenter, st)) of
        None \<Rightarrow> None
      | Some (target_sysenter, st) \<Rightarrow>
          map_option (Pair target_sysenter) (shadow_gates cfg cpu v [0..<256] native st))"

end
