(* ===== verification/Btmod.thy ===== *)
theory Btmod
  imports Bt_main Hash_Props
begin

text \<open>
  The module (\<^verbatim>\<open>btmod.c\<close>): its start and stop, the per-cpu data of the instrumentation, the
  loading of the interrupt tables and the requests of the user-level tools.
\<close>

section \<open>Log flags\<close>

text \<open>\<^verbatim>\<open>loglevel\<close> of \<^verbatim>\<open>lib/debug.c\<close>.\<close>

definition VCPU_LOG_TRANSLATE :: u32 where "VCPU_LOG_TRANSLATE = push_bit 10 1"

definition vcpu_set_log :: "u32 \<Rightarrow> u32 \<Rightarrow> u32" where
  "vcpu_set_log log_flags loglevel = loglevel OR log_flags"

definition vcpu_clear_log :: "u32 \<Rightarrow> u32 \<Rightarrow> u32" where
  "vcpu_clear_log log_flags loglevel = loglevel AND NOT log_flags"

definition vcpu_get_log_flags :: "u32 \<Rightarrow> u32" where
  "vcpu_get_log_flags loglevel = loglevel"

section \<open>Per-cpu data\<close>

text \<open>The instrumentation counts in \<open>shadowregs\<close> and marks its accesses with the masks of its cpu.\<close>

record percpu =
  shadowregs :: "u64 list"
  read_mask_b :: u8
  write_mask_b :: u8
  read_mask_w :: u16
  write_mask_w :: u16
  read_mask_l :: u32
  write_mask_l :: u32
  unmask_b :: u8
  unmask_w :: u16
  unmask_l :: u32
  tsptr :: u32
  vptr :: u32

definition NUM_SHADOWREGS :: nat where "NUM_SHADOWREGS = 8"

text \<open>A shift of an \<^verbatim>\<open>int\<close> by 32 or more is undefined; \<open>lanes x ns\<close> is \<open>x\<close> shifted by each of \<open>ns\<close>.\<close>

definition shift_int :: "u32 \<Rightarrow> nat \<Rightarrow> u32 option" where
  "shift_int x n = (if n < 32 then Some (push_bit n x) else None)"

fun lanes :: "u32 \<Rightarrow> nat list \<Rightarrow> u32 option" where
  "lanes x [] = Some 0"
| "lanes x (n # ns) = do { a \<leftarrow> shift_int x n; b \<leftarrow> lanes x ns; Some (a OR b) }"

definition set_masks :: "nat \<Rightarrow> percpu \<Rightarrow> percpu option" where
  "set_masks i pc =
     (let r = 2 * i in do {
        rb \<leftarrow> lanes 1 [r];
        wb \<leftarrow> lanes 3 [r];
        rw \<leftarrow> lanes 1 [r, r + 8];
        ww \<leftarrow> lanes 3 [r, r + 8];
        rl \<leftarrow> lanes 1 [r, r + 8, r + 16, r + 24];
        wl \<leftarrow> lanes 3 [r, r + 8, r + 16, r + 24];
        Some (pc\<lparr>read_mask_b := ucast rb, write_mask_b := ucast wb, read_mask_w := ucast rw, write_mask_w := ucast ww,
                read_mask_l := rl, write_mask_l := wl, unmask_b := ucast (NOT wb), unmask_w := ucast (NOT ww),
                unmask_l := NOT wl\<rparr>)
      })"

text \<open>\<open>shadowmem_start\<close> is \<^verbatim>\<open>_shadowmem_start\<close>, 0 without the instrumentation's memory.\<close>

fun init_shadow_data :: "u32 \<Rightarrow> nat \<Rightarrow> (nat \<Rightarrow> percpu) \<Rightarrow> (nat \<Rightarrow> percpu) option" where
  "init_shadow_data shadowmem_start 0 pcs = Some pcs"
| "init_shadow_data shadowmem_start (Suc i) pcs = do {
     pcs \<leftarrow> init_shadow_data shadowmem_start i pcs;
     let pc = (pcs i)\<lparr>shadowregs := replicate NUM_SHADOWREGS 0\<rparr>;
     pc \<leftarrow> (if shadowmem_start \<noteq> 0 then set_masks i pc else Some pc);
     Some (pcs(i := pc))
   }"

section \<open>State\<close>

text \<open>
  The variables of the module, with what it gets from the kernel: \<open>md_pages\<close> are the pages and
  \<open>md_areas\<close> the per-cpu areas it holds, \<open>md_ports\<close> what it has written to ports. A pointer that is
  0 has not been set; \<open>md_live\<close> says whether the memory of \<^verbatim>\<open>bt\<close> is allocated, so that a use after
  it was freed is undefined. The processor's table register and the entry for system calls are
  \<open>md_idtr\<close> and \<open>md_sysenter\<close>.
\<close>

datatype idt_table = Native_idt | Shadow_idt

record md_state =
  md_inited :: bool
  md_live :: bool
  md_bt :: u32
  md_v :: u32
  md_tpage :: u32
  md_smp_cpus :: nat
  md_peep_tab :: hash
  md_s :: bt_state
  md_ext :: extable_state
  md_cpu :: "nat \<Rightarrow> percpu"
  md_mon_stack :: "nat \<Rightarrow> u32"
  md_pages :: "u32 list"
  md_areas :: "u32 list"
  md_vm :: vm_state
  md_loglevel :: u32
  md_native_sysenter :: u64
  md_target_sysenter :: u64
  md_shadow :: "gate_desc list"
  md_shadow_loaded :: bool
  md_idtr :: idt_table
  md_sysenter :: u32
  md_ports :: "(nat \<times> u32) list"
  md_copied :: "u64 list list"

text \<open>
  What the kernel's allocators return, in the order of their calls, and the other values the
  module finds: the sizes of its structures, the memory of the jump table, the native tables.
  \<open>k_conf\<close> has the rules and the decoder, with the table of opcodes \<^verbatim>\<open>opc_init\<close> fills.
\<close>

record kernel =
  k_user_extable :: bool
  k_conf :: bt_conf
  k_sizeof_btmod :: int
  k_sizeof_vcpu :: int
  k_vm_bt :: "int \<Rightarrow> u32"
  k_vm_v :: "int \<Rightarrow> u32"
  k_vm_ext :: "int \<Rightarrow> u32"
  k_vm_pools :: "(int \<Rightarrow> u32) list"
  k_areas :: "u32 \<times> u32 \<times> u32 \<times> u32"
  k_area_at :: "u32 \<Rightarrow> u32"
  k_peep_allocated :: bool
  k_peep_room :: "u32 \<Rightarrow> bool"
  k_page :: u32
  k_stack :: "nat \<Rightarrow> u32"
  k_callout_label :: u32
  k_shadowmem_start :: u32
  k_cpu :: nat
  k_native :: "gate_desc list"
  k_sysenter :: u64
  k_thread_size :: u32
  k_sort :: sort_func
  k_oldkernel :: bool

definition conf_of :: "kernel \<Rightarrow> md_state \<Rightarrow> bt_conf" where
  "conf_of k st = (k_conf k)\<lparr>cf_tpage := md_tpage st,
     cf_env := (cf_env (k_conf k))\<lparr>e_tab := md_peep_tab st, e_ext := md_ext st, e_shadow_idt := md_shadow_loaded st,
       e_shadowmem := k_shadowmem_start k, e_oldkernel := k_oldkernel k\<rparr>\<rparr>"

section \<open>The exception table of the module\<close>

text \<open>The new table has the addresses of the old entries, but not their fixups.\<close>

definition alloc_module_extable :: "(int \<Rightarrow> u32) \<Rightarrow> mod_table \<Rightarrow> vm_state \<Rightarrow> (bool \<times> mod_table \<times> vm_state) option" where
  "alloc_module_extable vm m vms =
     (let (p, vms) = btalloc vm (8 * MAX_EXTABLE_EIPS) vms in
      if p = 0 then Some (False, m, vms)
      else if num_exentries m > nat MAX_EXTABLE_EIPS \<or> num_exentries m > length (mod_entries m) then None
      else Some (True, m\<lparr>mod_base := p,
             mod_entries := map (\<lambda>e. \<lparr>ex_insn = ex_insn e, ex_fixup = 0\<rparr>) (take (num_exentries m) (mod_entries m)) @
               replicate (nat MAX_EXTABLE_EIPS - num_exentries m) \<lparr>ex_insn = 0, ex_fixup = 0\<rparr>\<rparr>, vms))"

definition free_module_extable :: "mod_table \<Rightarrow> vm_state \<Rightarrow> mod_table \<times> vm_state" where
  "free_module_extable m vms = (m\<lparr>num_exentries := 0\<rparr>, btfree (mod_base m) (8 * MAX_EXTABLE_EIPS) vms)"

section \<open>Start\<close>

text \<open>
  The parts of \<^verbatim>\<open>init_bt\<close>, in its order, each with its success; the rest is not done after a
  failure, and nothing is given back.
\<close>

type_synonym init_step = "md_state \<Rightarrow> (bool \<times> md_state) option"

definition zero_info :: malloc_info where
  "zero_info = \<lparr>pool_range = replicate 3 (0, 0),
     cinfo = replicate 60 \<lparr>chunk_start = 0, chunk_end = 0, chunk_cur = 0\<rparr>\<rparr>"

definition init_btmod :: "kernel \<Rightarrow> init_step" where
  "init_btmod k st =
     (let (p, vm) = btalloc (k_vm_bt k) (k_sizeof_btmod k) (md_vm st);
          st = st\<lparr>md_bt := p, md_vm := vm\<rparr>
      in if p = 0 then Some (False, st)
         else Some (True, st\<lparr>md_live := True, md_v := 0, md_tpage := 0, md_s := (md_s st)\<lparr>bs_info := zero_info\<rparr>\<rparr>))"

definition zero_vcpu :: vcpu_t where
  "zero_vcpu = \<lparr>vc_eip = 0, vc_prev_tb = 0, vc_edge = 0, vc_callout_label = 0\<rparr>"

definition init_vcpus :: "kernel \<Rightarrow> nat \<Rightarrow> init_step" where
  "init_vcpus k smp_cpus st =
     (let (p, vm) = btalloc (k_vm_v k) (k_sizeof_vcpu k * int smp_cpus) (md_vm st);
          st = st\<lparr>md_v := p, md_vm := vm\<rparr>
      in if p = 0 then Some (False, st)
         else Some (True, st\<lparr>md_mon_stack := (\<lambda>_. 0), md_s := (md_s st)\<lparr>bs_vcpu := (\<lambda>_. zero_vcpu)\<rparr>\<rparr>))"

definition init_jumptable1 :: "kernel \<Rightarrow> nat \<Rightarrow> init_step" where
  "init_jumptable1 k smp_cpus st =
     (let (ok, areas) = alloc_jumptable1 (k_areas k) (k_area_at k);
          st = st\<lparr>md_areas := areas\<rparr>
      in Some (if \<not> ok then (False, st)
               else (True, st\<lparr>md_smp_cpus := smp_cpus,
                      md_s := (md_s st)\<lparr>bs_jt1 := clear_jumptable1 smp_cpus (bs_jt1 (md_s st))\<rparr>\<rparr>)))"

definition init_peep :: "kernel \<Rightarrow> init_step" where
  "init_peep k st =
     map_option (\<lambda>(ok, h). (ok, st\<lparr>md_peep_tab := h\<rparr>))
       (peep_init (e_rules (cf_env (k_conf k))) (k_peep_allocated k) (k_peep_room k))"

definition init_tpage :: "kernel \<Rightarrow> init_step" where
  "init_tpage k st =
     (let st = st\<lparr>md_tpage := k_page k\<rparr>
      in Some (if k_page k = 0 then (False, st) else (True, st\<lparr>md_pages := k_page k # md_pages st\<rparr>)))"

definition init_pools :: "kernel \<Rightarrow> init_step" where
  "init_pools k st =
     (let (ok, info, vm) = malloc_init (k_vm_pools k) (bs_info (md_s st)) (md_vm st);
          st = st\<lparr>md_vm := vm, md_s := (md_s st)\<lparr>bs_info := info\<rparr>\<rparr>
      in Some (if \<not> ok then (False, st)
               else (True, st\<lparr>md_s := (md_s st)\<lparr>bs_jt2 := jumptable2_init (bs_jt2 (md_s st)), bs_tc := tb_init (bs_tc (md_s st))\<rparr>\<rparr>)))"

definition init_module_extable :: "kernel \<Rightarrow> init_step" where
  "init_module_extable k st =
     map_option (\<lambda>(ok, m, vm). (ok, st\<lparr>md_vm := vm, md_s := (md_s st)\<lparr>bs_mod := m\<rparr>\<rparr>))
       (alloc_module_extable (k_vm_ext k) (bs_mod (md_s st)) (md_vm st))"

text \<open>
  \<^verbatim>\<open>init_bt_vcpu\<close> for one virtual cpu. The per-cpu data is set up to the cpu before it, so that
  of the last cpu is never set.
\<close>

definition init_one_vcpu :: "kernel \<Rightarrow> nat \<Rightarrow> init_step" where
  "init_one_vcpu k i st =
     (if k_stack k i = 0 then Some (False, st\<lparr>md_mon_stack := (md_mon_stack st)(i := 0)\<rparr>)
      else
        let st = st\<lparr>md_mon_stack := (md_mon_stack st)(i := k_stack k i), md_pages := k_stack k i # md_pages st,
               md_cpu := (md_cpu st)(i := (md_cpu st i)\<lparr>tsptr := k_stack k i + 2 * 4096,
                                                       vptr := md_v st + of_nat i * of_int (k_sizeof_vcpu k)\<rparr>)\<rparr>
        in map_option (\<lambda>pcs. (True, st\<lparr>md_cpu := pcs,
             md_s := (md_s st)\<lparr>bs_vcpu := (bs_vcpu (md_s st))(i := (bs_vcpu (md_s st) i)\<lparr>vc_callout_label := k_callout_label k, vc_prev_tb := 0\<rparr>)\<rparr>,
             md_loglevel := vcpu_set_log VCPU_LOG_TRANSLATE (md_loglevel st)\<rparr>))
           (init_shadow_data (k_shadowmem_start k) i (md_cpu st)))"

fun run_steps :: "init_step list \<Rightarrow> init_step" where
  "run_steps [] st = Some (True, st)"
| "run_steps (f # fs) st =
     (case f st of None \<Rightarrow> None | Some (False, st) \<Rightarrow> Some (False, st) | Some (True, st) \<Rightarrow> run_steps fs st)"

definition init_bt_vcpu :: "kernel \<Rightarrow> nat \<Rightarrow> init_step" where
  "init_bt_vcpu k smp_cpus = run_steps (map (init_one_vcpu k) [0..<smp_cpus])"

definition init_parts :: "kernel \<Rightarrow> nat \<Rightarrow> init_step list" where
  "init_parts k smp_cpus =
     [init_btmod k, init_vcpus k smp_cpus, init_jumptable1 k smp_cpus, init_peep k, init_tpage k, init_pools k,
      init_module_extable k, init_bt_vcpu k smp_cpus]"

definition init_bt :: "kernel \<Rightarrow> nat \<Rightarrow> md_state \<Rightarrow> (nat \<times> md_state) option" where
  "init_bt k smp_cpus st =
     (if k_user_extable k \<and> \<not> extable_is_inited (md_ext st) then Some (1, st)
      else if md_inited st then Some (1, st)
      else
        (case run_steps (init_parts k smp_cpus) (st\<lparr>md_inited := True\<rparr>) of
           None \<Rightarrow> None
         | Some (False, st) \<Rightarrow> Some (1, st)
         | Some (True, st) \<Rightarrow>
             (let st = st\<lparr>md_native_sysenter := k_sysenter k\<rparr> in
              case create_shadow_idt (conf_of k st) (k_cpu k) 0 (k_native k) (k_sysenter k) (md_target_sysenter st) (md_s st) of
                None \<Rightarrow> None
              | Some (target, table, s) \<Rightarrow> Some (0, st\<lparr>md_target_sysenter := target, md_shadow := table, md_s := s\<rparr>))))"

section \<open>Stop\<close>

text \<open>
  \<open>threads\<close> are the kernel's threads, for the repair of their stacks. The pages given back are
  removed from those held, once each; \<^verbatim>\<open>__inited\<close> stays set.
\<close>

definition caches_of :: "kernel \<Rightarrow> md_state \<Rightarrow> caches" where
  "caches_of k st = \<lparr>c_info = bs_info (md_s st), c_tbs = bs_tbs (md_s st), c_tree = bs_tc (md_s st), c_loc = cf_loc (k_conf k)\<rparr>"

definition free_stacks :: "nat \<Rightarrow> md_state \<Rightarrow> u32 list" where
  "free_stacks smp_cpus st = foldl (\<lambda>ps i. remove1 (md_mon_stack st i) ps) (md_pages st) [0..<smp_cpus]"

definition stop_bt :: "kernel \<Rightarrow> (bool \<times> u32) list \<Rightarrow> nat \<Rightarrow> md_state \<Rightarrow> (nat \<times> md_state) option" where
  "stop_bt k threads smp_cpus st =
     (if \<not> md_live st \<or> (md_v st = 0 \<and> smp_cpus > 0) then None
      else
        (case push_orig_eips (e_ot (cf_env (k_conf k))) (cf_dec (k_conf k)) (caches_of k st) (k_thread_size k) threads (bs_mem (md_s st)) of
           None \<Rightarrow> None
         | Some mem \<Rightarrow>
             let vm = malloc_uninit (bs_info (md_s st)) (md_vm st);
                 (m, vm) = free_module_extable (bs_mod (md_s st)) vm;
                 vm = btfree (md_v st) (k_sizeof_vcpu k * int smp_cpus) vm;
                 vm = btfree (md_bt st) (k_sizeof_btmod k) vm
             in Some (0, st\<lparr>md_live := False, md_pages := remove1 (md_tpage st) (free_stacks smp_cpus st),
                      md_areas := free_jumptable1 (k_areas k) (md_areas st), md_vm := vm,
                      md_s := (md_s st)\<lparr>bs_mem := mem, bs_mod := m\<rparr>\<rparr>)))"

section \<open>The interrupt tables\<close>

definition load_native_idt :: "md_state \<Rightarrow> md_state" where
  "load_native_idt st = st\<lparr>md_idtr := Native_idt, md_sysenter := ucast (md_native_sysenter st AND 0xffffffff)\<rparr>"

definition translate_idt :: "md_state \<Rightarrow> md_state" where
  "translate_idt st =
     (let st = st\<lparr>md_idtr := Shadow_idt\<rparr>;
          st = (if md_target_sysenter st \<noteq> 0 then st\<lparr>md_sysenter := ucast (md_target_sysenter st AND 0xffffffff)\<rparr> else st)
      in st\<lparr>md_shadow_loaded := True\<rparr>)"

definition DUMP_PORT :: nat where "DUMP_PORT = 0xa004"
definition RESET_PORT :: nat where "RESET_PORT = 0xa005"

definition dump_shadow_memory :: "kernel \<Rightarrow> md_state \<Rightarrow> md_state" where
  "dump_shadow_memory k st =
     (if k_shadowmem_start k \<noteq> 0 then st\<lparr>md_ports := md_ports st @ [(DUMP_PORT, k_shadowmem_start k)]\<rparr> else st)"

definition reset_shadow_memory :: "kernel \<Rightarrow> md_state \<Rightarrow> md_state" where
  "reset_shadow_memory k st =
     (if k_shadowmem_start k \<noteq> 0 then st\<lparr>md_ports := md_ports st @ [(RESET_PORT, k_shadowmem_start k)]\<rparr> else st)"

section \<open>Requests\<close>

text \<open>
  The requests with their arguments; the arguments of \<open>STOP_BT\<close> include the kernel's threads.
  \<open>READ_SHADOW_REG\<close> has the result of \<^verbatim>\<open>copy_to_user\<close>. \<open>INIT_EXTABLE\<close> has what is copied from
  user space: nothing when the descriptor cannot be read, else the length, the entries and
  whether some of them could not be read, and the memory for the table.
\<close>

datatype request =
    STOP_BT "(bool \<times> u32) list" nat
  | INIT_BT nat
  | BT_SET_MODE
  | TRANSLATE_IDT
  | LOAD_NATIVE_IDT
  | TRANSLATE_DEBUG_CODE
  | READ_SHADOW_REG int
  | INIT_EXTABLE "(int \<times> (exception_table_entry list \<times> bool) \<times> (int \<Rightarrow> u32)) option"
  | OTHER

definition device_ioctl :: "kernel \<Rightarrow> request \<Rightarrow> md_state \<Rightarrow> (int \<times> md_state) option" where
  "device_ioctl k req st =
     (case req of
        STOP_BT threads n \<Rightarrow> map_option (\<lambda>(_, st). (0, st)) (stop_bt k threads n (dump_shadow_memory k st))
      | INIT_BT n \<Rightarrow> map_option (\<lambda>(ret, st). (int ret, reset_shadow_memory k st)) (init_bt k n st)
      | BT_SET_MODE \<Rightarrow> Some (0, st)
      | TRANSLATE_IDT \<Rightarrow> Some (0, translate_idt st)
      | LOAD_NATIVE_IDT \<Rightarrow> Some (0, load_native_idt st)
      | TRANSLATE_DEBUG_CODE \<Rightarrow> Some (0, st)
      | READ_SHADOW_REG ret \<Rightarrow> Some (ret, st\<lparr>md_copied := md_copied st @ [take 5 (shadowregs (md_cpu st (k_cpu k)))]\<rparr>)
      | INIT_EXTABLE None \<Rightarrow> Some (0, st)
      | INIT_EXTABLE (Some (len, user, vm)) \<Rightarrow>
          (let (ret, ext, vms) = init_exception_table (k_sort k) (k_oldkernel k) vm user len (md_ext st) (md_vm st)
           in Some (ret, st\<lparr>md_ext := ext, md_vm := vms\<rparr>))
      | OTHER \<Rightarrow> Some (1, st))"

fun run_ioctls :: "kernel \<Rightarrow> request list \<Rightarrow> md_state \<Rightarrow> (int list \<times> md_state) option" where
  "run_ioctls k [] st = Some ([], st)"
| "run_ioctls k (r # rs) st = do {
     (ret, st) \<leftarrow> device_ioctl k r st;
     (rets, st) \<leftarrow> run_ioctls k rs st;
     Some (ret # rets, st)
   }"

end
