(* ===== verification/Bt_main_Props.thy ===== *)
theory Bt_main_Props
  imports Bt_main Tb_Props Translate_Props
begin

text \<open>
  A request for the translation of a guest address: the invariant of the translator's state, and
  what the request leaves in memory, in the two tables of blocks and in the pools.
\<close>

section \<open>Bytes in memory\<close>

lemma write_bytes_at:
  "unat a + length bs < 2 ^ 32 \<Longrightarrow> write_bytes a bs m x =
    (if unat a \<le> unat x \<and> unat x < unat a + length bs then bs ! (unat x - unat a) else m x)"
proof (induction bs arbitrary: a m)
  case (Cons b bs)
  have a1: "unat (a + 1) = unat a + 1" using Cons.prems by (subst unat_add_plain) simp_all
  have "x = a \<longleftrightarrow> unat x = unat a" by (simp add: word_unat_eq_iff)
  then show ?case using Cons a1 by (auto simp: nth_Cons' Suc_le_eq)
qed auto

lemma write_bytes_read:
  "unat a + length bs < 2 ^ 32 \<Longrightarrow> k < length bs \<Longrightarrow> write_bytes a bs m (a + of_nat k) = bs ! k"
proof -
  assume a: "unat a + length bs < 2 ^ 32" "k < length bs"
  have "unat (a + of_nat k) = unat a + k"
    using a by (subst unat_add_plain) (simp_all add: unat_of_nat take_bit_nat_eq_self)
  with a show ?thesis by (simp add: write_bytes_at)
qed

section \<open>Allocation\<close>

text \<open>Requests keep the bounds of the chunks.\<close>

definition bounds :: "malloc_info \<Rightarrow> (u32 \<times> u32) list" where
  "bounds info = map (\<lambda>c. (chunk_start c, chunk_end c)) (cinfo info)"

definition outside :: "malloc_info \<Rightarrow> nat \<Rightarrow> bool" where
  "outside info a \<longleftrightarrow> (\<forall>(s, e)\<in>set (bounds info). a \<notin> {unat s..<unat e})"

lemma outside_unused: "pool_ok info \<Longrightarrow> outside info a \<Longrightarrow> a \<notin> all_used info"
  by (fastforce simp: outside_def bounds_def all_used_def used_addrs_def pool_ok_def chunk_ok_def word_le_nat_alt)

lemma plain_request_mono: "plain_request info n \<Longrightarrow> unat k \<le> unat n \<Longrightarrow> plain_request info k"
  by (fastforce simp: plain_request_def)

definition served :: "malloc_info \<Rightarrow> malloc_info \<Rightarrow> bool" where
  "served info info' \<longleftrightarrow> pool_ok info' \<and> bounds info' = bounds info \<and> all_used info \<subseteq> all_used info' \<and>
     (\<forall>n. plain_request info' n \<longleftrightarrow> plain_request info n)"

lemma served_trans: "served a b \<Longrightarrow> served b c \<Longrightarrow> served a c"
  by (auto simp: served_def)

lemma served_outside: "served a b \<Longrightarrow> outside b x \<longleftrightarrow> outside a x"
  by (simp add: served_def outside_def)

lemma malloc_served:
  assumes "pool_ok info" and "pool < 3" and "plain_request info sz" and "malloc_from_pool info pool sz = Some (a, info')"
  shows "served info info'" and "all_used info' = all_used info \<union> block a sz" and "block a sz \<inter> all_used info = {}"
    and "unat a + unat sz < 2 ^ 32"
proof -
  note m = malloc_from_pool_ok [OF assms]
  obtain j where "info' = info\<lparr>cinfo := (cinfo info)[j := (cinfo info ! j)\<lparr>chunk_cur := chunk_cur (cinfo info ! j) + sz\<rparr>]\<rparr>"
    using malloc_from_pool_alloc [OF assms] by metis
  then have "bounds info' = bounds info"
    by (cases "j < length (cinfo info)") (auto simp: bounds_def list_eq_iff_nth_eq nth_list_update)
  with m show "served info info'" "all_used info' = all_used info \<union> block a sz" "block a sz \<inter> all_used info = {}"
    by (simp_all add: served_def block_def)
  show "unat a + unat sz < 2 ^ 32" by (rule malloc_plain_end [OF assms])
qed

lemma kmalloc_served:
  assumes "pool_ok info" and "pool < 3" and "plain_request info sz" and "tb_kmalloc info sz pool = Some (a, info')"
  shows "served info info'" and "all_used info' = all_used info \<union> block a sz" and "block a sz \<inter> all_used info = {}"
    and "unat a + unat sz < 2 ^ 32"
proof -
  have z: "info' = info \<and> a = 0" if "sz = 0" using that assms(4) by (simp add: tb_kmalloc_def)
  have nz: "malloc_from_pool info pool sz = Some (a, info')" if "sz \<noteq> 0" using that assms(4) by (simp add: tb_kmalloc_def)
  note m = malloc_served [OF assms(1-3) nz]
  show "served info info'" using m(1) z assms(1) by (cases "sz = 0") (simp_all add: served_def)
  show "all_used info' = all_used info \<union> block a sz" using m(2) z by (cases "sz = 0") (simp_all add: block_def)
  show "block a sz \<inter> all_used info = {}" using m(3) by (cases "sz = 0") (simp_all add: block_def)
  show "unat a + unat sz < 2 ^ 32" using m(4) z by (cases "sz = 0") simp_all
qed

lemma tb_malloc_block:
  assumes ok: "pool_ok info" and plain: "plain_request info 131072"
    and sz: "unat (code_len tb) < 65536" "unat (edge_len tb) < 65536" "num_insns tb < 65535"
    and res: "tb_malloc info tb = Some (tb', info')"
  shows "served info info'" and "sized_like tb tb'" and "end_eip tb' = end_eip tb" "code_len tb' = code_len tb"
      "edge_len tb' = edge_len tb" "num_jumps tb' = 0"
    and "block (tc_ptr tb') (code_len tb) \<subseteq> all_used info'" "block (edge_ptr tb') (edge_len tb) \<subseteq> all_used info'"
    and "block (tc_ptr tb') (code_len tb) \<inter> all_used info = {}" "block (edge_ptr tb') (edge_len tb) \<inter> all_used info = {}"
    and "block (tc_ptr tb') (code_len tb) \<inter> block (edge_ptr tb') (edge_len tb) = {}"
    and "unat (tc_ptr tb') + unat (code_len tb) < 2 ^ 32" "unat (edge_ptr tb') + unat (edge_len tb) < 2 ^ 32"
proof -
  obtain a i1 b i2 c i3 d where k: "tb_kmalloc info (code_len tb) POOL_TC = Some (a, i1)"
      "tb_kmalloc i1 (edge_len tb) POOL_EDGE = Some (b, i2)"
      "tb_kmalloc i2 (of_nat ((num_insns tb + 1) * 2)) POOL_KMALLOC = Some (c, i3)"
      "tb_kmalloc i3 (of_nat (num_insns tb * 2)) POOL_KMALLOC = Some (d, info')"
    and tb': "tb' = tb\<lparr>num_jumps := 0, tc_ptr := a, edge_ptr := b, tc_boundaries := replicate (num_insns tb + 1) 0,
      eip_boundaries := replicate (num_insns tb) 0\<rparr>"
    using res unfolding tb_malloc_def Let_def by (auto split: option.splits simp del: of_nat_mult of_nat_add of_nat_Suc)
  have pools: "POOL_TC < 3" "POOL_EDGE < 3" "POOL_KMALLOC < 3" by (simp_all add: pool_defs)
  have small: "unat (of_nat n :: u32) \<le> unat (131072 :: u32)" if "n \<le> 131072" for n
    using that by (simp add: unat_of_nat take_bit_nat_eq_self)
  have sizes: "unat (code_len tb) \<le> unat (131072 :: u32)" "unat (edge_len tb) \<le> unat (131072 :: u32)"
    "unat (of_nat ((num_insns tb + 1) * 2) :: u32) \<le> unat (131072 :: u32)" "unat (of_nat (num_insns tb * 2) :: u32) \<le> unat (131072 :: u32)"
    using sz by (simp, simp, intro small, simp, intro small, simp)
  note m1 = kmalloc_served [OF ok pools(1) plain_request_mono [OF plain sizes(1)] k(1)]
  have 1: "pool_ok i1" "plain_request i1 131072" using m1(1) plain by (simp_all add: served_def)
  note m2 = kmalloc_served [OF 1(1) pools(2) plain_request_mono [OF 1(2) sizes(2)] k(2)]
  have 2: "pool_ok i2" "plain_request i2 131072" using m2(1) 1 by (simp_all add: served_def)
  note m3 = kmalloc_served [OF 2(1) pools(3) plain_request_mono [OF 2(2) sizes(3)] k(3)]
  have 3: "pool_ok i3" "plain_request i3 131072" using m3(1) 2 by (simp_all add: served_def)
  note m4 = kmalloc_served [OF 3(1) pools(3) plain_request_mono [OF 3(2) sizes(4)] k(4)]
  have s2: "served i2 info'" by (rule served_trans [OF m3(1) m4(1)])
  show "served info info'" by (rule served_trans [OF served_trans [OF m1(1) m2(1)] s2])
  show "sized_like tb tb'" "end_eip tb' = end_eip tb" "code_len tb' = code_len tb" "edge_len tb' = edge_len tb" "num_jumps tb' = 0"
    by (simp_all add: tb' sized_like_def)
  have ptrs: "tc_ptr tb' = a" "edge_ptr tb' = b" by (simp_all add: tb')
  have u: "all_used i1 \<subseteq> all_used i2" "all_used i2 \<subseteq> all_used info'" using m2(1) s2 by (simp_all add: served_def)
  show "block (tc_ptr tb') (code_len tb) \<subseteq> all_used info'" "block (edge_ptr tb') (edge_len tb) \<subseteq> all_used info'"
    using u m1(2) m2(2) unfolding ptrs by blast+
  show "block (tc_ptr tb') (code_len tb) \<inter> all_used info = {}" using m1(3) by (simp add: ptrs)
  show "block (edge_ptr tb') (edge_len tb) \<inter> all_used info = {}" "block (tc_ptr tb') (code_len tb) \<inter> block (edge_ptr tb') (edge_len tb) = {}"
    using m2(3) m1(2) unfolding ptrs by blast+
  show "unat (tc_ptr tb') + unat (code_len tb) < 2 ^ 32" "unat (edge_ptr tb') + unat (edge_len tb) < 2 ^ 32"
    using m1(4) m2(4) by (simp_all add: ptrs)
qed

section \<open>The invariant\<close>

text \<open>
  \<open>B\<close> are the nodes of the blocks, the addresses of their descriptors. Descriptors and code lie in
  memory the pools have handed out, both tables hold exactly the blocks, and neither the null
  address nor the address of the local block of a search lies in a chunk.
\<close>

definition desc :: "ptr \<Rightarrow> nat set" where
  "desc p = {p..<p + 80}"

definition code_area :: "tb_t \<Rightarrow> nat set" where
  "code_area tb = {unat (tc_ptr tb)..<unat (tc_ptr tb) + tc_size tb}"

definition bt_inv :: "bt_conf \<Rightarrow> bt_state \<Rightarrow> ptr set \<Rightarrow> bool" where
  "bt_inv cfg st B \<longleftrightarrow> pool_ok (bs_info st) \<and> plain_request (bs_info st) 131072 \<and>
     outside (bs_info st) 0 \<and> outside (bs_info st) (cf_loc cfg) \<and>
     (\<exists>xs. jt2_ok (bs_tbs st) (bs_jt2 st) xs \<and> set xs = B) \<and>
     (\<exists>xs. tc_tree_ok (bs_tbs st) (bs_tc st) xs \<and> set xs = B) \<and>
     (\<forall>p\<in>B. tb_wf (bs_tbs st p) \<and> desc p \<subseteq> all_used (bs_info st) \<and> code_area (bs_tbs st p) \<subseteq> all_used (bs_info st))"

lemma bt_inv_loc:
  assumes "bt_inv cfg st B"
  shows "cf_loc cfg \<notin> B"
proof
  assume "cf_loc cfg \<in> B"
  then have "desc (cf_loc cfg) \<subseteq> all_used (bs_info st)" using assms by (simp add: bt_inv_def)
  then have "cf_loc cfg \<in> all_used (bs_info st)" by (auto simp: desc_def)
  moreover have "cf_loc cfg \<notin> all_used (bs_info st)"
    by (rule outside_unused) (use assms in \<open>simp_all add: bt_inv_def\<close>)
  ultimately show False by simp
qed

lemma jt2_ok_other: "x \<notin> set xs \<Longrightarrow> jt2_ok tbs rb xs \<Longrightarrow> jt2_ok (tbs(x := tb)) rb xs"
  unfolding jt2_ok_def
  by (auto simp: eip_range_ok_def intro: sorted_wrt_mono_rel [rotated])

lemma tc_tree_ok_other: "x \<notin> set xs \<Longrightarrow> tc_tree_ok tbs rb xs \<Longrightarrow> tc_tree_ok (tbs(x := tb)) rb xs"
  unfolding tc_tree_ok_def
  by (auto simp: tc_range_ok_def tc_less_def intro: sorted_wrt_mono_rel [rotated])

text \<open>The first block, in the order of their starts, that covers an address is found.\<close>

lemma first_block_found:
  assumes inv: "bt_inv cfg st B" and p: "p \<in> B" "covers (bs_tbs st p) e"
    and first: "\<forall>q\<in>B. covers (bs_tbs st q) e \<longrightarrow> eip_virt (bs_tbs st p) \<le> eip_virt (bs_tbs st q)"
  shows "jumptable2_find (cf_loc cfg) (bs_tbs st) (bs_jt2 st) e = Some (Some p)"
proof -
  obtain xs where xs: "jt2_ok (bs_tbs st) (bs_jt2 st) xs" "set xs = B" using inv by (auto simp: bt_inv_def)
  have loc: "cf_loc cfg \<notin> set xs" using bt_inv_loc [OF inv] xs(2) by simp
  note f = jumptable2_find_first [OF xs(1) loc, of e]
  have le: "sorted_wrt (\<lambda>a b. eip_virt (bs_tbs st a) \<le> eip_virt (bs_tbs st b)) xs"
    using xs(1) unfolding jt2_ok_def by (elim conjE) (erule sorted_wrt_mono_rel [rotated], auto)
  obtain q where q: "find (\<lambda>p. covers (bs_tbs st p) e) xs = Some q"
    using p xs(2) by (cases "find (\<lambda>p. covers (bs_tbs st p) e) xs") (auto simp: find_None_iff)
  from find_least [OF q le] p first xs(2) have "eip_virt (bs_tbs st q) = eip_virt (bs_tbs st p)" "q \<in> B"
    by (auto intro: order_antisym)
  then have "q = p"
    using sorted_wrt_pair [of "\<lambda>a b. eip_virt (bs_tbs st a) < eip_virt (bs_tbs st b) \<and> end_eip (bs_tbs st a) \<le> end_eip (bs_tbs st b)" xs q p]
      xs p(1) by (auto simp: jt2_ok_def)
  with f q show ?thesis by simp
qed

lemma not_covered_not_found:
  assumes inv: "bt_inv cfg st B" and "\<forall>q\<in>B. \<not> covers (bs_tbs st q) e"
  shows "jumptable2_find (cf_loc cfg) (bs_tbs st) (bs_jt2 st) e = Some None"
proof -
  obtain xs where xs: "jt2_ok (bs_tbs st) (bs_jt2 st) xs" "set xs = B" using inv by (auto simp: bt_inv_def)
  have "cf_loc cfg \<notin> set xs" using bt_inv_loc [OF inv] xs(2) by simp
  from jumptable2_find_first [OF xs(1) this, of e] show ?thesis
    using assms(2) xs(2) by (simp add: find_None_iff)
qed

text \<open>The cache address of an instruction's code is mapped back to the instruction.\<close>

lemma code_to_insn:
  assumes inv: "bt_inv cfg st B" and p: "p \<in> B" and i: "i < num_insns (bs_tbs st p)"
  shows "tb_tc_ptr_to_eip_virt (cf_loc cfg) (bs_tbs st) (bs_tc st) (tc_ptr (bs_tbs st p) + ucast (tc_boundaries (bs_tbs st p) ! i)) =
    Some (insn_start (bs_tbs st p) i)"
proof -
  let ?tb = "bs_tbs st p"
  obtain xs where xs: "tc_tree_ok (bs_tbs st) (bs_tc st) xs" "set xs = B" using inv by (auto simp: bt_inv_def)
  have wf: "tb_wf ?tb" using inv p by (simp add: bt_inv_def)
  let ?a = "tc_ptr ?tb + ucast (tc_boundaries ?tb ! i)"
  have u: "unat ?a = unat (tc_ptr ?tb) + tc_off ?tb i" using tc_boundary [OF wf, of i] i by simp
  have lt: "tc_off ?tb i < tc_off ?tb (i + 1)" using wf i by (simp add: tb_wf_def)
  have inc: "in_cache_of ?tb ?a" by (rule insn_in_cache [OF wf i]) (use u lt in simp_all)
  have "tc_range_ok (bs_tbs st) p" using xs p by (simp add: tc_tree_ok_def)
  then have "unat ?a + 1 < 2 ^ 32" using inc by (simp add: tc_range_ok_def in_cache_of_def)
  from tb_find_cached [OF xs(1) _ this _ inc] bt_inv_loc [OF inv] xs(2) p
    tc_to_eip_loop_insn [OF wf i, of ?a 0] u lt
  show ?thesis by (simp add: tb_tc_ptr_to_eip_virt_def)
qed

lemma insn_covered:
  assumes wf: "tb_wf tb" and e: "end_eip tb = insn_start tb (num_insns tb - 1)" and i: "i < num_insns tb"
  shows "covers tb (insn_start tb i)"
proof -
  have "eip_off tb i \<le> eip_off tb (num_insns tb - 1)" using tb_wf_mono_le [OF wf, of i "num_insns tb - 1"] i by simp
  then show ?thesis
    using insn_start_unat [OF wf, of i] insn_start_unat [OF wf, of "num_insns tb - 1"] i e
    by (simp add: covers_def word_le_nat_alt)
qed

text \<open>A request for an instruction of a block that is found gets the address of its code.\<close>

lemma request_insn:
  assumes inv: "bt_inv cfg st B" and p: "p \<in> B" and i: "i < num_insns (bs_tbs st p)"
    and f: "jumptable2_find (cf_loc cfg) (bs_tbs st) (bs_jt2 st) (insn_start (bs_tbs st p) i) = Some (Some p)"
    and room: "i = 0 \<or> malloc_from_pool (bs_info st) POOL_KMALLOC (of_nat ((num_jumps (bs_tbs st p) + 1) * 2)) \<noteq> None"
  shows "\<exists>st'. tb_gen_translate_code cfg (insn_start (bs_tbs st p) i) st =
    Some (tc_ptr (bs_tbs st p) + ucast (tc_boundaries (bs_tbs st p) ! i), st')"
proof -
  let ?tb = "bs_tbs st p"
  have wf: "tb_wf ?tb" using inv p by (simp add: bt_inv_def)
  note r = eip_tc_roundtrip(1) [OF wf i]
  show ?thesis
  proof (cases "i = 0")
    case True
    have "tc_boundaries ?tb ! 0 = 0" using wf by (simp add: tb_wf_def tc_off_def unat_eq_0)
    then show ?thesis using f True by (simp add: tb_gen_translate_code_def insn_start_def eip_off_def Let_def)
  next
    case False
    have "0 < eip_off ?tb i" using tb_wf_mono [OF wf, of 0 i] False i by simp
    then have "insn_start ?tb i \<noteq> eip_virt ?tb"
      using insn_start_unat [OF wf, of i] i by auto
    moreover obtain tb' info' where "tb_add_jump (bs_info st) ?tb (ucast (eip_virt_to_tc_ptr ?tb (insn_start ?tb i) - tc_ptr ?tb)) = Some (tb', info')"
    proof (atomize_elim)
      show "\<exists>tb' info'. tb_add_jump (bs_info st) ?tb (ucast (eip_virt_to_tc_ptr ?tb (insn_start ?tb i) - tc_ptr ?tb)) = Some (tb', info')"
        using room False
        by (auto simp: tb_add_jump_def tb_kmalloc_def Let_def simp del: of_nat_mult of_nat_add of_nat_Suc split: option.splits)
    qed
    ultimately show ?thesis using f by (simp add: tb_gen_translate_code_def Let_def r)
  qed
qed

section \<open>A new block\<close>

text \<open>
  The assumptions on the decoder, the generator and the exception table, as for the two passes.
\<close>

definition env_ok :: "bt_env \<Rightarrow> bool" where
  "env_ok env \<longleftrightarrow> position_free env \<and> extable_ok (e_ext env) \<and> generates env \<and> decodes env \<and> \<not> e_inscount env"

text \<open>
  The first pass's measurements: the code fits the 16-bit boundaries and the guest code does not
  wrap around.
\<close>

definition measures :: "bt_env \<Rightarrow> u32 \<Rightarrow> nat \<Rightarrow> emit \<Rightarrow> bool" where
  "measures env eip n em \<longleftrightarrow> length (em_code em) < 2 ^ 16 \<and> length (em_edge em) < 2 ^ 16 \<and>
     code_bytes env eip n < 2 ^ 16 \<and> unat eip + code_bytes env eip n < 2 ^ 32"

lemma first_pass:
  assumes env: "env_ok env" and ends: "ends_within env MAX_TU_SIZE (eip_virt tb0) False"
    and first: "translate env tpage m tb0 False = Some (tb1, em1, m1)"
  shows "code_len tb1 = of_nat (length (em_code em1))" "edge_len tb1 = of_nat (length (em_edge em1))"
    "num_insns tb1 \<le> MAX_TU_SIZE" "eip_virt tb1 = eip_virt tb0"
proof -
  have e: "position_free env" "extable_ok (e_ext env)" "\<not> e_inscount env" using env by (simp_all add: env_ok_def)
  obtain rs1 where "length rs1 \<le> MAX_TU_SIZE"
    "translate env tpage m tb0 False = Some (measured tb0 (start_state tb0 m tpage tpage) rs1, ts_em (last rs1), m)"
    using both_passes [OF e ends, of m tpage] unfolding Let_def by blast
  with first show "code_len tb1 = of_nat (length (em_code em1))" "edge_len tb1 = of_nat (length (em_edge em1))"
    "num_insns tb1 \<le> MAX_TU_SIZE" "eip_virt tb1 = eip_virt tb0" by auto
qed

lemma two_passes_block:
  assumes env: "env_ok env" and ends: "ends_within env MAX_TU_SIZE (eip_virt tb0) False"
    and first: "translate env tpage m tb0 False = Some (tb1, em1, m1)"
    and small: "measures env (eip_virt tb0) (num_insns tb1) em1"
    and sized: "sized_like tb1 tb2" and tc: "unat (tc_ptr tb2) + length (em_code em1) < 2 ^ 32"
  obtains tb em m2 where "translate env tpage m1 tb2 True = Some (tb, em, m2)"
    "tb = tb2\<lparr>end_eip := end_eip tb1, tc_boundaries := tc_boundaries tb, eip_boundaries := eip_boundaries tb\<rparr>"
    "length (em_code em) = length (em_code em1)" "length (em_edge em) = length (em_edge em1)"
    "em_cbase em = tc_ptr tb2" "em_ebase em = edge_ptr tb2"
    "tb_wf tb" "tc_size tb = length (em_code em)" "end_eip tb = insn_start tb (num_insns tb - 1)"
    "\<forall>i<num_insns tb. insn_start tb i = eip_virt tb0 + of_nat (code_bytes env (eip_virt tb0) i)"
proof -
  have e: "position_free env" "extable_ok (e_ext env)" "generates env" "decodes env" "\<not> e_inscount env"
    using env by (simp_all add: env_ok_def)
  obtain rs1 where p: "length rs1 \<le> MAX_TU_SIZE" "rs1 \<noteq> []"
      "translate env tpage m tb0 False = Some (measured tb0 (start_state tb0 m tpage tpage) rs1, ts_em (last rs1), m)"
    and q: "\<And>tb2. sized_like (measured tb0 (start_state tb0 m tpage tpage) rs1) tb2 \<Longrightarrow>
      (\<exists>rs. let s = start_state tb2 m (tc_ptr tb2) (edge_ptr tb2) in
        trace env True s rs \<and> length rs = length rs1 \<and>
        translate env tpage m tb2 True = Some (block_of tb2 s rs, ts_em (last rs), ts_mod (last rs)) \<and>
        end_eip (block_of tb2 s rs) = end_eip (measured tb0 (start_state tb0 m tpage tpage) rs1) \<and>
        length (em_code (ts_em (last rs))) = length (em_code (ts_em (last rs1))) \<and>
        length (em_edge (ts_em (last rs))) = length (em_edge (ts_em (last rs1))))"
    using both_passes [OF e(1,2,5) ends, of m tpage] unfolding Let_def by blast
  have tb1: "tb1 = measured tb0 (start_state tb0 m tpage tpage) rs1" "em1 = ts_em (last rs1)" "m1 = m"
    using first p(3) by auto
  let ?s = "start_state tb2 m (tc_ptr tb2) (edge_ptr tb2)"
  obtain rs where rs: "trace env True ?s rs" "length rs = length rs1"
      "translate env tpage m tb2 True = Some (block_of tb2 ?s rs, ts_em (last rs), ts_mod (last rs))"
      "end_eip (block_of tb2 ?s rs) = end_eip tb1"
      "length (em_code (ts_em (last rs))) = length (em_code em1)" "length (em_edge (ts_em (last rs))) = length (em_edge em1)"
    using q sized unfolding tb1 Let_def by blast
  have eip: "eip_virt tb2 = eip_virt tb0" using sized tb1 by (simp add: sized_like_def)
  have n: "num_insns tb2 = length rs" using sized tb1 rs(2) by (simp add: sized_like_def)
  have n1: "num_insns tb1 = length rs" using tb1 rs(2) by simp
  have fit: "fits env tb2 rs" using small tc rs(5) eip n1 by (simp add: fits_def measures_def)
  note b = block_of_fits [OF rs(1) e(3,4) n fit]
  let ?tb = "block_of tb2 ?s rs"
  have nl: "no_leftover env ?s" by (simp add: no_leftover_def start_state_def)
  have rs0: "rs \<noteq> []" using trace_nonempty [OF rs(1)] .
  have last: "last rs = (?s # rs) ! length rs" using rs0 by (simp add: last_conv_nth)
  have ext: "extends (ts_em ?s) (ts_em (last rs))"
    using trace_extends [OF rs(1) e(3,4) nl, of "length rs" 0] by (simp add: last)
  have last2: "last (?s # butlast rs) = (?s # rs) ! (length rs - 1)"
    using rs0 by (cases rs rule: rev_cases) (simp_all add: last_conv_nth nth_append nth_Cons')
  have num: "num_insns ?tb = length rs" by (simp add: block_of_def n)
  show thesis
  proof (rule that)
    show "translate env tpage m1 tb2 True = Some (?tb, ts_em (last rs), ts_mod (last rs))" using rs(3) tb1(3) by simp
    show "?tb = tb2\<lparr>end_eip := end_eip tb1, tc_boundaries := tc_boundaries ?tb, eip_boundaries := eip_boundaries ?tb\<rparr>"
      using rs(4) by (simp add: block_of_def)
    show "em_cbase (ts_em (last rs)) = tc_ptr tb2" "em_ebase (ts_em (last rs)) = edge_ptr tb2"
      using ext by (auto simp: extends_def start_state_def)
    show "tb_wf ?tb" by (rule b(1))
    show "tc_size ?tb = length (em_code (ts_em (last rs)))"
      using b(3) [of "length rs"] last by (simp add: tc_size_def tc_off_def num)
    have "end_eip ?tb = ts_ptr ((?s # rs) ! (length rs - 1))" using last2 by (simp add: block_of_def)
    then show "end_eip ?tb = insn_start ?tb (num_insns ?tb - 1)" using b(2) [of "length rs - 1"] num by simp
    show "\<forall>i<num_insns ?tb. insn_start ?tb i = eip_virt tb0 + of_nat (code_bytes env (eip_virt tb0) i)"
      using b(4) num eip by (simp add: insn_start_def) (simp add: block_of_def eip)
  qed (use rs in simp_all)
qed

text \<open>Adding a block in fresh memory keeps the invariant.\<close>

lemma add_block_inv:
  assumes inv: "bt_inv cfg st B" and s: "served (bs_info st) info"
    and x: "desc x \<subseteq> all_used info" "desc x \<inter> all_used (bs_info st) = {}"
    and wf: "tb_wf tb" "end_eip tb = insn_start tb (num_insns tb - 1)"
    and code: "code_area tb \<subseteq> all_used info" "code_area tb \<inter> all_used (bs_info st) = {}"
    and new: "\<forall>q\<in>B. \<not> covers (bs_tbs st q) (eip_virt tb)"
    and after: "\<forall>q\<in>B. eip_virt tb < eip_virt (bs_tbs st q) \<longrightarrow> end_eip tb \<le> end_eip (bs_tbs st q)"
  defines "tbs \<equiv> (bs_tbs st)(x := tb)"
  obtains jt2 tc where "jumptable2_add tbs (bs_jt2 st) x = Some jt2" "tb_add tbs (bs_tc st) x = Some tc" "x \<notin> B"
    "\<And>m mem. bt_inv cfg (st\<lparr>bs_info := info, bs_tbs := tbs, bs_jt2 := jt2, bs_tc := tc, bs_mod := m, bs_mem := mem\<rparr>) (insert x B)"
proof -
  obtain xs ys where xs: "jt2_ok (bs_tbs st) (bs_jt2 st) xs" "set xs = B" and ys: "tc_tree_ok (bs_tbs st) (bs_tc st) ys" "set ys = B"
    using inv by (auto simp: bt_inv_def)
  have old: "tb_wf (bs_tbs st p)" "desc p \<subseteq> all_used (bs_info st)" "code_area (bs_tbs st p) \<subseteq> all_used (bs_info st)" if "p \<in> B" for p
    using inv that by (auto simp: bt_inv_def)
  have base: "pool_ok (bs_info st)" "plain_request (bs_info st) 131072" "outside (bs_info st) 0" "outside (bs_info st) (cf_loc cfg)"
    using inv by (simp_all add: bt_inv_def)
  have used: "all_used (bs_info st) \<subseteq> all_used info" using s by (simp add: served_def)
  have info: "pool_ok info" "plain_request info 131072" "outside info 0" "outside info (cf_loc cfg)"
    using s base served_outside [OF s] by (simp_all add: served_def)
  have xin: "x \<in> desc x" by (simp add: desc_def)
  have xB: "x \<notin> B" using old(2) xin x(2) by blast
  have same: "tbs p = bs_tbs st p" if "p \<in> B" for p using that xB by (auto simp: tbs_def)
  have "x \<noteq> 0" using outside_unused [OF info(1,3)] x(1) xin by (metis subsetD)
  then have nil: "x \<noteq> nil" by (simp add: nil_def)
  have n: "0 < num_insns tb" using wf(1) by (simp add: tb_wf_def)
  have c0: "covers tb (eip_virt tb)" using insn_covered [OF wf n] by (simp add: insn_start_def eip_off_def)
  have er: "eip_range_ok tbs x" using c0 by (simp add: eip_range_ok_def covers_def tbs_def)
  have "0 < tc_off tb (num_insns tb)" using tb_wf_mono [OF wf(1), of 0 "num_insns tb"] n by simp
  then have tr: "tc_range_ok tbs x" using wf(1) by (simp add: tc_range_ok_def tbs_def tc_size_def tb_wf_def tc_off_def)
  have jt: "jt2_ok tbs (bs_jt2 st) xs" using jt2_ok_other [OF _ xs(1), of x tb] xB xs(2) by (simp add: tbs_def)
  have tt: "tc_tree_ok tbs (bs_tc st) ys" using tc_tree_ok_other [OF _ ys(1), of x tb] xB ys(2) by (simp add: tbs_def)
  have x1: "x \<notin> set xs" "x \<notin> set ys" using xB xs(2) ys(2) by simp_all
  have "\<forall>p\<in>set xs. \<not> covers (tbs p) (eip_virt (tbs x))" using new same xs(2) by (simp add: tbs_def)
  moreover have "\<forall>p\<in>set xs. eip_virt (tbs x) < eip_virt (tbs p) \<longrightarrow> end_eip (tbs x) \<le> end_eip (tbs p)"
    using after same xs(2) by (simp add: tbs_def)
  ultimately obtain jt2 xs' where j: "jumptable2_add tbs (bs_jt2 st) x = Some jt2" "jt2_ok tbs jt2 xs'" "set xs' = insert x B"
    using jumptable2_add_ok [OF jt x1(1) nil er] xs(2) by blast
  have "code_area (tbs x) \<inter> code_area (tbs p) = {}" if "p \<in> B" for p
    using old(3) [OF that] same [OF that] code(2) by (simp add: tbs_def) blast
  then have "\<forall>p\<in>set ys. {unat (tc_ptr (tbs x))..<unat (tc_ptr (tbs x)) + tc_size (tbs x)} \<inter>
      {unat (tc_ptr (tbs p))..<unat (tc_ptr (tbs p)) + tc_size (tbs p)} = {}"
    using ys(2) by (simp add: code_area_def)
  from tb_add_ok [OF tt x1(2) nil tr this] ys(2) obtain tc ys'
    where c: "tb_add tbs (bs_tc st) x = Some tc" "tc_tree_ok tbs tc ys'" "set ys' = insert x B" by blast
  have blocks: "tb_wf (tbs p) \<and> desc p \<subseteq> all_used info \<and> code_area (tbs p) \<subseteq> all_used info" if "p \<in> insert x B" for p
  proof (cases "p = x")
    case True
    then show ?thesis using wf(1) x(1) code(1) by (simp add: tbs_def)
  next
    case False
    then have "p \<in> B" using that by simp
    then show ?thesis using old [of p] same used by (simp add: subset_trans)
  qed
  have "bt_inv cfg (st\<lparr>bs_info := info, bs_tbs := tbs, bs_jt2 := jt2, bs_tc := tc, bs_mod := m, bs_mem := mem\<rparr>) (insert x B)" for m mem
    using info j(2,3) c(2,3) blocks unfolding bt_inv_def by (simp del: insert_iff) blast
  with j(1) c(1) xB show thesis by (rule that)
qed

text \<open>What the translation of a new block leaves: its code in memory that was free, both tables with it.\<close>

lemma gen_block_ok:
  assumes inv: "bt_inv cfg st B" and env: "env_ok (env_of cfg st)" and ends: "ends_within (env_of cfg st) MAX_TU_SIZE eip False"
    and new: "\<forall>q\<in>B. \<not> covers (bs_tbs st q) eip"
    and p: "alloc_a_tb (bs_info st) (cf_raw cfg) = Some (p, tb0, info1)"
    and first: "translate (env_of cfg st) (cf_tpage cfg) (bs_mod st) (tb0\<lparr>eip_virt := eip\<rparr>) False = Some (tb1, em1, m1)"
    and small: "measures (env_of cfg st) eip (num_insns tb1) em1"
    and mem: "tb_malloc info1 tb1 = Some (tb2, info2)"
    and after: "\<forall>q\<in>B. eip < eip_virt (bs_tbs st q) \<longrightarrow> end_eip tb1 \<le> end_eip (bs_tbs st q)"
  obtains tb em st' where "gen_block cfg eip st = Some (unat p, st')" "unat p \<notin> B"
    "translate (env_of cfg st) (cf_tpage cfg) m1 tb2 True = Some (tb, em, bs_mod st')"
    "bs_tbs st' = (bs_tbs st)(unat p := tb)" "bt_inv cfg st' (insert (unat p) B)" "bs_info st' = info2"
    "eip_virt tb = eip" "tc_ptr tb = tc_ptr tb2" "edge_ptr tb = edge_ptr tb2" "num_jumps tb = 0" "num_insns tb = num_insns tb1"
    "tc_size tb = length (em_code em)" "end_eip tb = insn_start tb (num_insns tb - 1)"
    "\<forall>i<num_insns tb. insn_start tb i = eip + of_nat (code_bytes (env_of cfg st) eip i)"
    "\<forall>k<length (em_code em). bs_mem st' (tc_ptr tb + of_nat k) = em_code em ! k"
    "\<forall>k<length (em_edge em). bs_mem st' (edge_ptr tb + of_nat k) = em_edge em ! k"
    "\<forall>a. unat a \<in> all_used (bs_info st) \<longrightarrow> bs_mem st' a = bs_mem st a"
proof -
  let ?env = "env_of cfg st"
  have base: "pool_ok (bs_info st)" "plain_request (bs_info st) 131072" using inv by (simp_all add: bt_inv_def)
  have sz: "unat (sizeof_tb + 3) = 83" by (simp add: sizeof_tb_def)
  have pl: "plain_request (bs_info st) (sizeof_tb + 3)" by (rule plain_request_mono [OF base(2)]) (simp add: sz)
  obtain a where a: "malloc_from_pool (bs_info st) POOL_KMALLOC (sizeof_tb + 3) = Some (a, info1)"
      "block p sizeof_tb \<subseteq> block a (sizeof_tb + 3)"
    using alloc_a_tb_block [OF base(1) pl p] by metis
  have k3: "POOL_KMALLOC < 3" by (simp add: pool_defs)
  note ma = malloc_served [OF base(1) k3 pl a(1)]
  have i1: "pool_ok info1" "plain_request info1 131072" using ma(1) base by (simp_all add: served_def)
  have len: "length (em_code em1) < 65536" "length (em_edge em1) < 65536" using small by (simp_all add: measures_def)
  define tbe where "tbe = tb0\<lparr>eip_virt := eip\<rparr>"
  have eipe: "eip_virt tbe = eip" by (simp add: tbe_def)
  note first' = first [folded tbe_def]
  have ends': "ends_within ?env MAX_TU_SIZE (eip_virt tbe) False" using ends by (simp add: eipe)
  note tb1 = first_pass [OF env ends' first', unfolded eipe]
  have lens: "unat (code_len tb1) = length (em_code em1)" "unat (edge_len tb1) = length (em_edge em1)"
    using tb1(1,2) len by (simp_all add: unat_of_nat take_bit_nat_eq_self)
  have num: "num_insns tb1 < 65535" using tb1(3) by (simp add: MAX_TU_SIZE_def)
  note mb = tb_malloc_block [OF i1 _ _ num mem, unfolded lens, OF len]
  have tc: "unat (tc_ptr tb2) + length (em_code em1) < 2 ^ 32" using mb(12) .
  obtain tb em m2 where t: "translate ?env (cf_tpage cfg) m1 tb2 True = Some (tb, em, m2)"
    "tb = tb2\<lparr>end_eip := end_eip tb1, tc_boundaries := tc_boundaries tb, eip_boundaries := eip_boundaries tb\<rparr>"
    "length (em_code em) = length (em_code em1)" "length (em_edge em) = length (em_edge em1)"
    "em_cbase em = tc_ptr tb2" "em_ebase em = edge_ptr tb2"
    "tb_wf tb" "tc_size tb = length (em_code em)" "end_eip tb = insn_start tb (num_insns tb - 1)"
    "\<forall>i<num_insns tb. insn_start tb i = eip + of_nat (code_bytes ?env eip i)"
    using small by (rule two_passes_block [OF env ends' first' _ mb(2) tc, unfolded eipe])
  have f: "tc_ptr tb = tc_ptr tb2" "edge_ptr tb = edge_ptr tb2" "eip_virt tb = eip" "num_insns tb = num_insns tb1"
    "num_jumps tb = 0" "end_eip tb = end_eip tb1"
    using mb(2,3,6) tb1(4) by (subst t(2), simp add: sized_like_def)+
  have s: "served (bs_info st) info2" by (rule served_trans [OF ma(1) mb(1)])
  have dx: "desc (unat p) = block p sizeof_tb" by (simp add: desc_def block_def sizeof_tb_def)
  have sub: "all_used info1 \<subseteq> all_used info2" using mb(1) by (simp add: served_def)
  have x: "desc (unat p) \<subseteq> all_used info2" "desc (unat p) \<inter> all_used (bs_info st) = {}"
    using a(2) ma(2,3) sub unfolding dx by blast+
  have code: "code_area tb = block (tc_ptr tb2) (code_len tb1)"
    using t(3,8) f(1) lens(1) by (simp add: code_area_def block_def)
  have sub0: "all_used (bs_info st) \<subseteq> all_used info1" using ma(1) by (simp add: served_def)
  have c: "code_area tb \<subseteq> all_used info2" "code_area tb \<inter> all_used (bs_info st) = {}"
    using mb(7,9) sub0 unfolding code by blast+
  have new': "\<forall>q\<in>B. \<not> covers (bs_tbs st q) (eip_virt tb)" using new by (simp add: f)
  have after': "\<forall>q\<in>B. eip_virt tb < eip_virt (bs_tbs st q) \<longrightarrow> end_eip tb \<le> end_eip (bs_tbs st q)"
    using after by (simp add: f)
  define tbs where "tbs = (bs_tbs st)(unat p := tb)"
  obtain jt2 tc where j: "jumptable2_add tbs (bs_jt2 st) (unat p) = Some jt2" "tb_add tbs (bs_tc st) (unat p) = Some tc" "unat p \<notin> B"
    "\<And>m mem. bt_inv cfg (st\<lparr>bs_info := info2, bs_tbs := tbs, bs_jt2 := jt2, bs_tc := tc, bs_mod := m, bs_mem := mem\<rparr>) (insert (unat p) B)"
    using add_block_inv [OF inv s x t(7,9) c new' after', folded tbs_def] by blast
  define m3 where "m3 = write_bytes (em_cbase em) (em_code em) (bs_mem st)"
  define m4 where "m4 = write_bytes (em_ebase em) (em_edge em) m3"
  let ?st = "st\<lparr>bs_info := info2, bs_tbs := tbs, bs_jt2 := jt2, bs_tc := tc, bs_mod := m2, bs_mem := m4\<rparr>"
  have g: "gen_block cfg eip st = Some (unat p, ?st)"
    using p first mem t(1) j(1,2) by (simp add: gen_block_def Let_def tbs_def m3_def m4_def)
  have eb: "unat (em_ebase em) + length (em_edge em) < 2 ^ 32" using mb(13) t(4,6) by simp
  have cb: "unat (em_cbase em) + length (em_code em) < 2 ^ 32" using tc t(3,5) by simp
  have edges: "m4 (edge_ptr tb + of_nat k) = em_edge em ! k" if "k < length (em_edge em)" for k
    using write_bytes_read [OF eb that] by (simp add: m4_def f t(6))
  have eb': "block (edge_ptr tb2) (edge_len tb1) = {unat (em_ebase em)..<unat (em_ebase em) + length (em_edge em)}"
    using lens(2) t(4,6) by (simp add: block_def)
  have cb': "block (tc_ptr tb2) (code_len tb1) = {unat (em_cbase em)..<unat (em_cbase em) + length (em_code em)}"
    using lens(1) t(3,5) by (simp add: block_def)
  have codes: "m4 (tc_ptr tb + of_nat k) = em_code em ! k" if k: "k < length (em_code em)" for k
  proof -
    have u: "unat (tc_ptr tb + of_nat k) = unat (em_cbase em) + k"
      using cb k by (subst unat_add_plain) (simp_all add: f t(5) unat_of_nat take_bit_nat_eq_self)
    have "unat (tc_ptr tb + of_nat k) \<in> block (tc_ptr tb2) (code_len tb1)" using k unfolding cb' u by simp
    then have "unat (tc_ptr tb + of_nat k) \<notin> block (edge_ptr tb2) (edge_len tb1)" using mb(11) by blast
    then have "m4 (tc_ptr tb + of_nat k) = m3 (tc_ptr tb + of_nat k)" unfolding m4_def eb' by (auto simp: write_bytes_at [OF eb])
    then show ?thesis using write_bytes_read [OF cb k] by (simp add: m3_def f t(5))
  qed
  have others: "m4 y = bs_mem st y" if "unat y \<in> all_used (bs_info st)" for y
  proof -
    have "unat y \<notin> block (edge_ptr tb2) (edge_len tb1)" "unat y \<notin> block (tc_ptr tb2) (code_len tb1)"
      using that mb(9,10) sub0 by blast+
    then show ?thesis unfolding m4_def m3_def eb' cb' by (auto simp: write_bytes_at [OF eb] write_bytes_at [OF cb])
  qed
  show thesis
    by (rule that [of _ tb em, OF g j(3)]) (use t(1,8,9,10) f j(4) edges codes others in \<open>simp_all add: tbs_def\<close>)
qed

text \<open>
  C29. A request for an address that no block covers returns when the pools have room, and keeps
  the invariant of the translator's state with one block more. The code of the second pass is in
  memory at the address returned, no byte in use before has changed, and the block's instructions
  are those decoded from the requested address. A later request for any of its instructions
  returns the address of that instruction's code, recording a jump when it is not the first one,
  and this address is mapped back to the instruction.
\<close>

theorem tb_gen_translate_code_correct:
  assumes inv: "bt_inv cfg st B" and env: "env_ok (env_of cfg st)" and ends: "ends_within (env_of cfg st) MAX_TU_SIZE eip False"
    and new: "\<forall>q\<in>B. \<not> covers (bs_tbs st q) eip"
    and p: "alloc_a_tb (bs_info st) (cf_raw cfg) = Some (p, tb0, info1)"
    and first: "translate (env_of cfg st) (cf_tpage cfg) (bs_mod st) (tb0\<lparr>eip_virt := eip\<rparr>) False = Some (tb1, em1, m1)"
    and small: "measures (env_of cfg st) eip (num_insns tb1) em1"
    and mem: "tb_malloc info1 tb1 = Some (tb2, info2)"
    and after: "\<forall>q\<in>B. eip < eip_virt (bs_tbs st q) \<longrightarrow> end_eip tb1 \<le> end_eip (bs_tbs st q)"
  shows "\<exists>tb em st'. tb_gen_translate_code cfg eip st = Some (tc_ptr tb, st') \<and>
    translate (env_of cfg st) (cf_tpage cfg) m1 tb2 True = Some (tb, em, bs_mod st') \<and>
    unat p \<notin> B \<and> bt_inv cfg st' (insert (unat p) B) \<and> bs_tbs st' = (bs_tbs st)(unat p := tb) \<and>
    (\<forall>k<length (em_code em). bs_mem st' (tc_ptr tb + of_nat k) = em_code em ! k) \<and>
    (\<forall>k<length (em_edge em). bs_mem st' (edge_ptr tb + of_nat k) = em_edge em ! k) \<and>
    (\<forall>a. unat a \<in> all_used (bs_info st) \<longrightarrow> bs_mem st' a = bs_mem st a) \<and>
    (\<forall>i<num_insns tb. insn_start tb i = eip + of_nat (code_bytes (env_of cfg st) eip i) \<and>
      tb_tc_ptr_to_eip_virt (cf_loc cfg) (bs_tbs st') (bs_tc st') (tc_ptr tb + ucast (tc_boundaries tb ! i)) = Some (insn_start tb i) \<and>
      (i = 0 \<or> malloc_from_pool info2 POOL_KMALLOC 2 \<noteq> None \<longrightarrow>
         (\<exists>st''. tb_gen_translate_code cfg (insn_start tb i) st' = Some (tc_ptr tb + ucast (tc_boundaries tb ! i), st''))))"
proof -
  obtain tb em st' where g: "gen_block cfg eip st = Some (unat p, st')" "unat p \<notin> B"
    "translate (env_of cfg st) (cf_tpage cfg) m1 tb2 True = Some (tb, em, bs_mod st')"
    "bs_tbs st' = (bs_tbs st)(unat p := tb)" "bt_inv cfg st' (insert (unat p) B)" "bs_info st' = info2"
    "eip_virt tb = eip" "tc_ptr tb = tc_ptr tb2" "edge_ptr tb = edge_ptr tb2" "num_jumps tb = 0" "num_insns tb = num_insns tb1"
    "tc_size tb = length (em_code em)" "end_eip tb = insn_start tb (num_insns tb - 1)"
    "\<forall>i<num_insns tb. insn_start tb i = eip + of_nat (code_bytes (env_of cfg st) eip i)"
    "\<forall>k<length (em_code em). bs_mem st' (tc_ptr tb + of_nat k) = em_code em ! k"
    "\<forall>k<length (em_edge em). bs_mem st' (edge_ptr tb + of_nat k) = em_edge em ! k"
    "\<forall>a. unat a \<in> all_used (bs_info st) \<longrightarrow> bs_mem st' a = bs_mem st a"
    by (rule gen_block_ok [OF assms])
  have tb: "bs_tbs st' (unat p) = tb" by (simp add: g(4))
  have wf: "tb_wf tb" using g(5) tb by (auto simp: bt_inv_def)
  have old: "bs_tbs st' q = bs_tbs st q" if "q \<in> B" for q using that g(2,4) by auto
  have ret: "tb_gen_translate_code cfg eip st = Some (tc_ptr tb, st')"
    using not_covered_not_found [OF inv new] g(1,7) tb by (simp add: tb_gen_translate_code_def Let_def)
  have insn: "tb_tc_ptr_to_eip_virt (cf_loc cfg) (bs_tbs st') (bs_tc st') (tc_ptr tb + ucast (tc_boundaries tb ! i)) = Some (insn_start tb i)"
    if i: "i < num_insns tb" for i
    using code_to_insn [OF g(5), of "unat p" i] i tb by simp
  have again: "\<exists>st''. tb_gen_translate_code cfg (insn_start tb i) st' = Some (tc_ptr tb + ucast (tc_boundaries tb ! i), st'')"
    if i: "i < num_insns tb" and room: "i = 0 \<or> malloc_from_pool info2 POOL_KMALLOC 2 \<noteq> None" for i
  proof -
    have c: "covers tb (insn_start tb i)" by (rule insn_covered [OF wf g(13) i])
    have le: "eip \<le> insn_start tb i" using c g(7) by (simp add: covers_def)
    have "eip_virt tb \<le> eip_virt (bs_tbs st' q)" if "q \<in> insert (unat p) B" "covers (bs_tbs st' q) (insn_start tb i)" for q
    proof (cases "q = unat p")
      case False
      then have "q \<in> B" using that(1) by simp
      moreover have "\<not> covers (bs_tbs st q) eip" using new \<open>q \<in> B\<close> by blast
      ultimately show ?thesis using that(2) old [of q] le g(7) by (auto simp: covers_def)
    qed (simp add: tb)
    then have "jumptable2_find (cf_loc cfg) (bs_tbs st') (bs_jt2 st') (insn_start (bs_tbs st' (unat p)) i) = Some (Some (unat p))"
      using c tb by (intro first_block_found [OF g(5)]) simp_all
    from request_insn [OF g(5) _ _ this] i room g(6,10) tb show ?thesis by simp
  qed
  show ?thesis
    using ret g(2-5,14-17) insn again by (intro exI [of _ tb] exI [of _ em] exI [of _ st']) simp
qed

text \<open>A state without blocks.\<close>

definition bt_conf0 :: bt_conf where
  "bt_conf0 = \<lparr>cf_env = code_env, cf_dec = (\<lambda>_. code_insn), cf_tpage = 4096, cf_loc = 9, cf_raw = code_tb\<rparr>"

definition bt_state0 :: bt_state where
  "bt_state0 = \<lparr>bs_info = demo_pools, bs_tbs = (\<lambda>_. code_tb), bs_jt2 = jumptable2_init heap123, bs_tc = tb_init heap123,
     bs_mod = \<lparr>mod_base = 0, mod_entries = [], num_exentries = 0\<rparr>, bs_jt1 = (\<lambda>_. replicate jt_len 0), bs_mem = (\<lambda>a. ucast a),
     lock_owner = 0xff, bs_vcpu = (\<lambda>_. \<lparr>vc_eip = 0, vc_prev_tb = 0, vc_edge = 0, vc_callout_label = 0\<rparr>)\<rparr>"

lemma env0: "env_of bt_conf0 bt_state0 = code_env"
  by (simp add: env_of_def bt_conf0_def bt_state0_def code_env_def)

lemma outside_demo: "a < 262144 \<Longrightarrow> outside demo_pools a"
proof -
  assume a: "a < 262144"
  have "unat s > a" if s: "(s, e) \<in> set (bounds demo_pools)" for s e
  proof -
    obtain i where i: "i < 60" "s = (demo_areas ! i) 262144"
      using s demo_areas_good by (auto simp: bounds_def demo_pools_ok(3) fresh_chunk_def in_set_conv_nth good_areas_def)
    with demo_area [OF i(1)] a show ?thesis by simp
  qed
  then show ?thesis by (fastforce simp: outside_def)
qed

lemma inv0: "bt_inv bt_conf0 bt_state0 {}"
proof -
  have "plain_request demo_pools 131072" by (rule demo_plain) simp
  moreover have "outside demo_pools 0" "outside demo_pools 9" by (rule outside_demo, simp)+
  moreover have "jt2_ok tbs (jumptable2_init heap123) []" "tc_tree_ok tbs (tb_init heap123) []" for tbs
    by (rule jumptable2_init_ok, rule tb_init_ok)
  ultimately show ?thesis
    unfolding bt_inv_def by (simp add: bt_conf0_def bt_state0_def demo_pools_ok(1))
qed

lemma insn0:
  "emit_insn code_env 1000 (code_mov, 3) False em = Some (False, emit_bytes (mode_translate (e_mem code_env) 1000 3) [] em, False)"
  "emit_insn code_env 1003 (code_cmp, 2) False em = Some (False, emit_bytes (mode_translate (e_mem code_env) 1003 2) [] em, False)"
  "emit_insn code_env 1005 (code_ret, Suc 0) False em = Some (False, emit_bytes [0x68, 0xe9, 0x90] [0xc3] em, True)"
  by (simp_all add: emit_insn_def peep_translate_def peepgen_code_def Let_def) (simp add: code_env_def)

lemma first0:
  "\<exists>tb1 em1. translate code_env 4096 m (tb\<lparr>eip_virt := 1000\<rparr>) False = Some (tb1, em1, m) \<and>
     num_insns tb1 = 3 \<and> code_len tb1 = 8 \<and> edge_len tb1 = 1 \<and> length (em_code em1) = 8 \<and> length (em_edge em1) = 1"
  by (simp add: translate_def translate_loop.simps MAX_TU_SIZE_def put_tc_def put_eip_def translate_insn_def Let_def
      note_exception_def insn0 emit_bytes_def mode_translate_def)

lemma alloc0:
  "\<exists>p tb0 info1. alloc_a_tb demo_pools tb = Some (p, tb0, info1) \<and>
     (\<forall>tb1. num_insns tb1 = 3 \<and> code_len tb1 = 8 \<and> edge_len tb1 = 1 \<longrightarrow> tb_malloc info1 tb1 \<noteq> None)"
proof -
  have len: "length (cinfo demo_pools) = 60" using demo_pools_ok(1) by (simp add: pool_ok_def pool_defs)
  define info1 where "info1 = demo_pools\<lparr>cinfo := (cinfo demo_pools)[40 := (fresh_chunk 10747904)\<lparr>chunk_cur := 10747987\<rparr>]\<rparr>"
  have "malloc_from_pool demo_pools 2 83 = Some (10747904, info1)"
    using demo_chunk [of 40] by (simp add: malloc_from_pool_def demo_range malloc_loop.simps [of _ 40] fresh_chunk_def info1_def)
  then have "\<exists>p tb0. alloc_a_tb demo_pools tb = Some (p, tb0, info1)"
    by (simp add: alloc_a_tb_def tb_kmalloc_def sizeof_tb_def pool_defs Let_def)
  moreover have "tb_malloc info1 tb1 \<noteq> None" if "num_insns tb1 = 3" "code_len tb1 = 8" "edge_len tb1 = 1" for tb1
    using demo_chunk [of 0] demo_chunk [of 24] len that
    by (simp add: tb_malloc_def tb_kmalloc_def pool_defs malloc_from_pool_def demo_range fresh_chunk_def info1_def
        malloc_loop.simps [of _ 0] malloc_loop.simps [of _ 24] malloc_loop.simps [of _ 40])
  ultimately show ?thesis by blast
qed

theorem tb_gen_translate_code_correct_witness:
  "\<exists>tc st' p. tb_gen_translate_code bt_conf0 1000 bt_state0 = Some (tc, st') \<and> bt_inv bt_conf0 st' {p}"
proof -
  obtain p tb0 info1 where a: "alloc_a_tb demo_pools code_tb = Some (p, tb0, info1)"
    "\<forall>tb1. num_insns tb1 = 3 \<and> code_len tb1 = 8 \<and> edge_len tb1 = 1 \<longrightarrow> tb_malloc info1 tb1 \<noteq> None"
    using alloc0 by blast
  obtain tb1 em1 where f: "translate code_env 4096 (bs_mod bt_state0) (tb0\<lparr>eip_virt := 1000\<rparr>) False = Some (tb1, em1, bs_mod bt_state0)"
    "num_insns tb1 = 3" "code_len tb1 = 8" "edge_len tb1 = 1" "length (em_code em1) = 8" "length (em_edge em1) = 1"
    using first0 by blast
  obtain tb2 info2 where m: "tb_malloc info1 tb1 = Some (tb2, info2)" using a(2) f(2-4) by auto
  have env: "env_ok (env_of bt_conf0 bt_state0)" using code_env_ok by (simp add: env0 env_ok_def)
  have ends: "ends_within (env_of bt_conf0 bt_state0) MAX_TU_SIZE 1000 False" using code_ends by (simp add: env0)
  have bytes: "code_bytes code_env 1000 3 = 6" by (simp add: numeral_3_eq_3)
  have small: "measures (env_of bt_conf0 bt_state0) 1000 (num_insns tb1) em1"
    unfolding env0 f(2) measures_def f(5,6) bytes by simp
  have p: "alloc_a_tb (bs_info bt_state0) (cf_raw bt_conf0) = Some (p, tb0, info1)"
    using a(1) by (simp add: bt_state0_def bt_conf0_def)
  have t: "translate (env_of bt_conf0 bt_state0) (cf_tpage bt_conf0) (bs_mod bt_state0) (tb0\<lparr>eip_virt := 1000\<rparr>) False =
      Some (tb1, em1, bs_mod bt_state0)"
    using f(1) by (simp add: env0) (simp add: bt_conf0_def)
  from tb_gen_translate_code_correct [OF inv0 env ends _ p t small m] show ?thesis by fastforce
qed

end
