(* ===== verification/Btmod_Props.thy ===== *)
theory Btmod_Props
  imports Btmod Bt_main_Props
begin

text \<open>
  The start of the module: what it sets up when every allocation succeeds, and that it is
  attempted once only.
\<close>

section \<open>The masks of a cpu\<close>

lemma set_masks_small: "i < 4 \<Longrightarrow> \<exists>pc'. set_masks i pc = Some pc'"
  by (simp add: set_masks_def shift_int_def Let_def)

lemma set_masks_idem: "set_masks i pc = Some pc' \<Longrightarrow> set_masks i pc' = Some pc'"
  by (auto simp: set_masks_def shift_int_def Let_def split: Option.bind_splits if_splits)

lemma set_masks_other: "set_masks i pc = Some pc' \<Longrightarrow> shadowregs pc' = shadowregs pc \<and> tsptr pc' = tsptr pc \<and> vptr pc' = vptr pc"
  by (auto simp: set_masks_def Let_def split: Option.bind_splits)

text \<open>A cpu writes its own two bits of each byte, and reads by the lower one.\<close>

lemma masks_of:
  assumes "set_masks i pc = Some pc" and "i < 4"
  shows "unmask_b pc = NOT (write_mask_b pc)" "unmask_w pc = NOT (write_mask_w pc)" "unmask_l pc = NOT (write_mask_l pc)"
    and "read_mask_b pc AND write_mask_b pc = read_mask_b pc" "read_mask_w pc AND write_mask_w pc = read_mask_w pc"
      "read_mask_l pc AND write_mask_l pc = read_mask_l pc"
proof -
  have "i = 0 \<or> i = 1 \<or> i = 2 \<or> i = 3" using assms(2) by auto
  then show "unmask_b pc = NOT (write_mask_b pc)" "unmask_w pc = NOT (write_mask_w pc)" "unmask_l pc = NOT (write_mask_l pc)"
    "read_mask_b pc AND write_mask_b pc = read_mask_b pc" "read_mask_w pc AND write_mask_w pc = read_mask_w pc"
    "read_mask_l pc AND write_mask_l pc = read_mask_l pc"
    using assms(1) by (cases pc; auto simp: set_masks_def shift_int_def Let_def)+
qed

lemma masks_disjoint:
  assumes "set_masks i pc = Some pc" and "set_masks j pc2 = Some pc2" and "i < j" and "j < 4"
  shows "write_mask_b pc AND write_mask_b pc2 = 0" "write_mask_w pc AND write_mask_w pc2 = 0" "write_mask_l pc AND write_mask_l pc2 = 0"
proof -
  have "(i = 0 \<and> (j = 1 \<or> j = 2 \<or> j = 3)) \<or> (i = 1 \<and> (j = 2 \<or> j = 3)) \<or> (i = 2 \<and> j = 3)" using assms(3,4) by auto
  then show "write_mask_b pc AND write_mask_b pc2 = 0" "write_mask_w pc AND write_mask_w pc2 = 0" "write_mask_l pc AND write_mask_l pc2 = 0"
    using assms(1,2) by (cases pc; cases pc2; auto simp: set_masks_def shift_int_def Let_def)+
qed

section \<open>The parts of the start\<close>

lemma run_steps_next: "f st = Some (True, st1) \<Longrightarrow> run_steps (f # fs) st = run_steps fs st1"
  by simp

lemma run_steps_append: "run_steps fs st = Some (True, st1) \<Longrightarrow> run_steps (fs @ gs) st = run_steps gs st1"
  by (induction fs arbitrary: st) (auto split: option.splits bool.splits)

lemma init_shadow_data_ok:
  "shadowmem_start = 0 \<or> n \<le> 4 \<Longrightarrow> \<exists>pcs'. init_shadow_data shadowmem_start n pcs = Some pcs' \<and>
     (\<forall>j<n. shadowregs (pcs' j) = replicate NUM_SHADOWREGS 0 \<and> (shadowmem_start \<noteq> 0 \<longrightarrow> set_masks j (pcs' j) = Some (pcs' j))) \<and>
     (\<forall>j. tsptr (pcs' j) = tsptr (pcs j) \<and> vptr (pcs' j) = vptr (pcs j))"
proof (induction n)
  case (Suc i)
  then obtain pcs1 where p: "init_shadow_data shadowmem_start i pcs = Some pcs1"
    "\<forall>j<i. shadowregs (pcs1 j) = replicate NUM_SHADOWREGS 0 \<and> (shadowmem_start \<noteq> 0 \<longrightarrow> set_masks j (pcs1 j) = Some (pcs1 j))"
    "\<forall>j. tsptr (pcs1 j) = tsptr (pcs j) \<and> vptr (pcs1 j) = vptr (pcs j)" by auto
  let ?pc = "(pcs1 i)\<lparr>shadowregs := replicate NUM_SHADOWREGS 0\<rparr>"
  obtain pc where pc: "(if shadowmem_start \<noteq> 0 then set_masks i ?pc else Some ?pc) = Some pc"
    using Suc.prems set_masks_small [of i ?pc] by (cases "shadowmem_start = 0") auto
  have "shadowregs pc = replicate NUM_SHADOWREGS 0 \<and> tsptr pc = tsptr (pcs1 i) \<and> vptr pc = vptr (pcs1 i) \<and>
      (shadowmem_start \<noteq> 0 \<longrightarrow> set_masks i pc = Some pc)"
    using pc set_masks_idem set_masks_other [of i ?pc pc] by (auto split: if_splits)
  with p pc show ?case by (intro exI [of _ "pcs1(i := pc)"]) (simp add: Let_def less_Suc_eq fun_upd_def)
qed simp

text \<open>What setting up the virtual cpus leaves alone.\<close>

definition same_tables :: "md_state \<Rightarrow> md_state \<Rightarrow> bool" where
  "same_tables a b \<longleftrightarrow> bs_info (md_s b) = bs_info (md_s a) \<and> bs_tbs (md_s b) = bs_tbs (md_s a) \<and>
     bs_jt2 (md_s b) = bs_jt2 (md_s a) \<and> bs_tc (md_s b) = bs_tc (md_s a) \<and> bs_jt1 (md_s b) = bs_jt1 (md_s a) \<and>
     bs_mod (md_s b) = bs_mod (md_s a) \<and> md_inited b = md_inited a \<and> md_live b = md_live a \<and> md_v b = md_v a \<and>
     md_tpage b = md_tpage a \<and> md_smp_cpus b = md_smp_cpus a"

lemma same_tables_trans: "same_tables a b \<Longrightarrow> same_tables b c \<Longrightarrow> same_tables a c"
  by (simp add: same_tables_def)

definition cpu_set_up :: "kernel \<Rightarrow> percpu \<Rightarrow> nat \<Rightarrow> bool" where
  "cpu_set_up k pc i \<longleftrightarrow> shadowregs pc = replicate NUM_SHADOWREGS 0 \<and>
     (k_shadowmem_start k \<noteq> 0 \<longrightarrow> set_masks i pc = Some pc)"

lemma init_bt_vcpu_ok:
  assumes "\<forall>i<n. k_stack k i \<noteq> 0" and "k_shadowmem_start k = 0 \<or> n \<le> 5"
  shows "\<exists>st'. init_bt_vcpu k n st = Some (True, st') \<and> same_tables st st' \<and>
    (\<forall>i. i + 1 < n \<longrightarrow> cpu_set_up k (md_cpu st' i) i) \<and>
    (\<forall>i<n. vptr (md_cpu st' i) = md_v st + of_nat i * of_int (k_sizeof_vcpu k) \<and>
       tsptr (md_cpu st' i) = k_stack k i + 8192 \<and> md_mon_stack st' i = k_stack k i \<and>
       vc_prev_tb (bs_vcpu (md_s st') i) = 0 \<and> vc_callout_label (bs_vcpu (md_s st') i) = k_callout_label k)"
  using assms
proof (induction n)
  case 0
  then show ?case by (simp add: init_bt_vcpu_def same_tables_def)
next
  case (Suc n)
  then obtain st1 where s: "run_steps (map (init_one_vcpu k) [0..<n]) st = Some (True, st1)" "same_tables st st1"
    "\<forall>i<n. vptr (md_cpu st1 i) = md_v st + of_nat i * of_int (k_sizeof_vcpu k) \<and>
       tsptr (md_cpu st1 i) = k_stack k i + 8192 \<and> md_mon_stack st1 i = k_stack k i \<and>
       vc_prev_tb (bs_vcpu (md_s st1) i) = 0 \<and> vc_callout_label (bs_vcpu (md_s st1) i) = k_callout_label k"
    by (auto simp: init_bt_vcpu_def)
  let ?cpu = "(md_cpu st1)(n := (md_cpu st1 n)\<lparr>tsptr := k_stack k n + 8192, vptr := md_v st1 + of_nat n * of_int (k_sizeof_vcpu k)\<rparr>)"
  obtain pcs where p: "init_shadow_data (k_shadowmem_start k) n ?cpu = Some pcs"
    "\<forall>j<n. cpu_set_up k (pcs j) j" "\<forall>j. tsptr (pcs j) = tsptr (?cpu j) \<and> vptr (pcs j) = vptr (?cpu j)"
    using init_shadow_data_ok [of "k_shadowmem_start k" n ?cpu] Suc.prems(2) by (auto simp: cpu_set_up_def)
  obtain st2 where st2: "init_one_vcpu k n st1 = Some (True, st2)" "same_tables st1 st2" "md_cpu st2 = pcs"
    "md_mon_stack st2 = (md_mon_stack st1)(n := k_stack k n)"
    "bs_vcpu (md_s st2) = (bs_vcpu (md_s st1))(n := (bs_vcpu (md_s st1) n)\<lparr>vc_callout_label := k_callout_label k, vc_prev_tb := 0\<rparr>)"
    using p(1) Suc.prems(1) by (simp add: init_one_vcpu_def Let_def same_tables_def)
  have "run_steps (map (init_one_vcpu k) [0..<n] @ [init_one_vcpu k n]) st = Some (True, st2)"
    using run_steps_append [OF s(1), of "[init_one_vcpu k n]"] st2(1) by simp
  then have "init_bt_vcpu k (Suc n) st = Some (True, st2)" by (simp add: init_bt_vcpu_def)
  moreover have "md_v st1 = md_v st" using s(2) by (simp add: same_tables_def)
  ultimately show ?case
    using s(3) p(2,3) st2(2-5) same_tables_trans [OF s(2) st2(2)] by (intro exI [of _ st2]) (simp add: less_Suc_eq)
qed

lemma run_steps_inv:
  "run_steps fs st = Some (ok, st') \<Longrightarrow> (\<And>f a ok b. f \<in> set fs \<Longrightarrow> f a = Some (ok, b) \<Longrightarrow> Q b = Q a) \<Longrightarrow> Q st' = Q st"
proof (induction fs arbitrary: st)
  case (Cons f fs)
  obtain r st1 where f: "f st = Some (r, st1)" using Cons.prems(1) by (cases "f st") auto
  have q: "Q st1 = Q st" using Cons.prems(2) [of f st r st1] f by simp
  show ?case
  proof (cases r)
    case True
    then have "run_steps fs st1 = Some (ok, st')" using Cons.prems(1) f by simp
    then have "Q st' = Q st1" by (rule Cons.IH) (use Cons.prems(2) in auto)
    with q show ?thesis by simp
  next
    case False
    with Cons.prems(1) f q show ?thesis by simp
  qed
qed simp

lemma init_bt_vcpu_peep: "init_bt_vcpu k n st = Some (ok, st') \<Longrightarrow> md_peep_tab st' = md_peep_tab st"
  unfolding init_bt_vcpu_def
  by (rule run_steps_inv [where Q = md_peep_tab]) (auto simp: init_one_vcpu_def Let_def split: if_splits)

text \<open>Every allocation of the start succeeds, and its areas lie where the pools can use them.\<close>

definition allocations_succeed :: "kernel \<Rightarrow> nat \<Rightarrow> bool" where
  "allocations_succeed k n \<longleftrightarrow> k_vm_bt k (page_align (k_sizeof_btmod k)) \<noteq> 0 \<and>
     k_vm_v k (page_align (k_sizeof_vcpu k * int n)) \<noteq> 0 \<and> k_vm_ext k (page_align (8 * MAX_EXTABLE_EIPS)) \<noteq> 0 \<and>
     fst (alloc_jumptable1 (k_areas k) (k_area_at k)) \<and> k_page k \<noteq> 0 \<and> (\<forall>i<n. k_stack k i \<noteq> 0) \<and>
     good_areas (k_vm_pools k) \<and>
     (\<forall>i<60. let a = unat ((k_vm_pools k ! i) 262144) in
        a + 262144 + 131072 < 2 ^ 32 \<and> cf_loc (k_conf k) \<notin> {a..<a + 262144})"

lemma btalloc_ok: "vm (page_align sz) \<noteq> 0 \<Longrightarrow> \<exists>vms'. btalloc vm sz vms = (vm (page_align sz), vms')"
  by (simp add: btalloc_def Let_def)

lemma pools_ready:
  assumes "allocations_succeed k n" and "malloc_init (k_vm_pools k) zero_info vm = (True, info, vm')"
  shows "pool_ok info" "all_used info = {}" "plain_request info 131072" "outside info 0" "outside info (cf_loc (k_conf k))"
proof -
  have good: "good_areas (k_vm_pools k)" using assms(1) by (simp add: allocations_succeed_def)
  have i: "pool_ok info" "all_used info = {}" "cinfo info = map (\<lambda>vm. fresh_chunk (vm 262144)) (k_vm_pools k)"
    using malloc_init_all [OF good, of zero_info vm] assms(2) by (auto simp: zero_info_def)
  show "pool_ok info" "all_used info = {}" by (rule i)+
  have c: "\<exists>a. c = fresh_chunk a \<and> a \<noteq> 0 \<and> unat a + 262144 + 131072 < 2 ^ 32 \<and> cf_loc (k_conf k) \<notin> {unat a..<unat a + 262144}"
    if c: "c \<in> set (cinfo info)" for c
  proof -
    have len: "length (k_vm_pools k) = 60" using good by (simp add: good_areas_def)
    obtain j where j: "j < 60" "c = fresh_chunk ((k_vm_pools k ! j) 262144)"
      using c len by (auto simp: i(3) in_set_conv_nth)
    have "(k_vm_pools k ! j) 262144 \<noteq> 0" using good j(1) by (simp add: good_areas_def)
    moreover have "let a = unat ((k_vm_pools k ! j) 262144) in a + 262144 + 131072 < 2 ^ 32 \<and> cf_loc (k_conf k) \<notin> {a..<a + 262144}"
      using assms(1) j(1) unfolding allocations_succeed_def by blast
    ultimately show ?thesis using j(2) by (auto simp: Let_def)
  qed
  have e: "unat (chunk_end (fresh_chunk a)) = unat a + 262128" if "unat a + 262144 + 131072 < 2 ^ 32" for a
    using that by (intro fresh_chunk_end) simp
  show "plain_request info 131072" unfolding plain_request_def using c e by fastforce
  have s: "chunk_start (fresh_chunk a) = a" for a by (simp add: fresh_chunk_def)
  show "outside info 0"
    unfolding outside_def bounds_def using c s by (fastforce simp: unat_eq_0)
  show "outside info (cf_loc (k_conf k))"
    unfolding outside_def bounds_def using c s e by fastforce
qed

lemma init_parts_ok:
  assumes ok: "allocations_succeed k n" and peep: "peep_init (e_rules (cf_env (k_conf k))) (k_peep_allocated k) (k_peep_room k) = Some (True, h)"
    and ex: "num_exentries (bs_mod (md_s st)) \<le> 4096" "num_exentries (bs_mod (md_s st)) \<le> length (mod_entries (bs_mod (md_s st)))"
    and cpus: "k_shadowmem_start k = 0 \<or> n \<le> 5"
  obtains st1 st' where "run_steps (init_parts k n) st = Some (True, st')" "init_bt_vcpu k n st1 = Some (True, st')" "same_tables st1 st'"
    "md_peep_tab st1 = h" "md_inited st1 = md_inited st" "md_live st1" "md_smp_cpus st1 = n"
    "pool_ok (bs_info (md_s st1))" "plain_request (bs_info (md_s st1)) 131072"
    "outside (bs_info (md_s st1)) 0" "outside (bs_info (md_s st1)) (cf_loc (k_conf k))"
    "bs_jt2 (md_s st1) = jumptable2_init (bs_jt2 (md_s st))" "bs_tc (md_s st1) = tb_init (bs_tc (md_s st))"
    "bs_jt1 (md_s st1) = clear_jumptable1 n (bs_jt1 (md_s st))" "num_exentries (bs_mod (md_s st1)) = num_exentries (bs_mod (md_s st))"
proof -
  let ?p = "k_vm_bt k (page_align (k_sizeof_btmod k))" and ?v = "k_vm_v k (page_align (k_sizeof_vcpu k * int n))"
    and ?x = "k_vm_ext k (page_align (8 * MAX_EXTABLE_EIPS))"
  have nz: "?p \<noteq> 0" "?v \<noteq> 0" "?x \<noteq> 0" "fst (alloc_jumptable1 (k_areas k) (k_area_at k))" "k_page k \<noteq> 0"
    and stacks: "\<forall>i<n. k_stack k i \<noteq> 0" and good: "good_areas (k_vm_pools k)"
    using ok by (simp_all add: allocations_succeed_def)
  obtain a1 where "init_btmod k st = Some (True, a1)" and 1: "md_live a1" "md_inited a1 = md_inited st"
      "md_s a1 = (md_s st)\<lparr>bs_info := zero_info\<rparr>"
    and s1: "init_btmod k st = Some (True, a1)"
    using btalloc_ok [of "k_vm_bt k" "k_sizeof_btmod k" "md_vm st"] nz(1) by (auto simp: init_btmod_def)
  obtain a2 where s2: "init_vcpus k n a1 = Some (True, a2)" and 2: "md_live a2" "md_inited a2 = md_inited st"
      "md_s a2 = (md_s st)\<lparr>bs_info := zero_info, bs_vcpu := (\<lambda>_. zero_vcpu)\<rparr>"
    using btalloc_ok [of "k_vm_v k" "k_sizeof_vcpu k * int n" "md_vm a1"] nz(2) 1 by (auto simp: init_vcpus_def)
  obtain a3 where s3: "init_jumptable1 k n a2 = Some (True, a3)" and 3: "md_live a3" "md_inited a3 = md_inited st" "md_smp_cpus a3 = n"
      "md_s a3 = (md_s st)\<lparr>bs_info := zero_info, bs_vcpu := (\<lambda>_. zero_vcpu), bs_jt1 := clear_jumptable1 n (bs_jt1 (md_s st))\<rparr>"
    using nz(4) 2 by (cases "alloc_jumptable1 (k_areas k) (k_area_at k)") (auto simp: init_jumptable1_def)
  obtain a4 where s4: "init_peep k a3 = Some (True, a4)" and 4: "md_live a4" "md_inited a4 = md_inited st" "md_smp_cpus a4 = n"
      "md_s a4 = md_s a3" "md_peep_tab a4 = h"
    using peep 3 by (auto simp: init_peep_def)
  obtain a5 where s5: "init_tpage k a4 = Some (True, a5)" and 5: "md_live a5" "md_inited a5 = md_inited st" "md_smp_cpus a5 = n"
      "md_s a5 = md_s a3" "md_peep_tab a5 = h"
    using nz(5) 4 by (auto simp: init_tpage_def Let_def)
  have z: "bs_info (md_s a5) = zero_info" using 5(4) 3(4) by simp
  obtain info vm where m: "malloc_init (k_vm_pools k) zero_info (md_vm a5) = (True, info, vm)"
    using malloc_init_all [OF good, of zero_info "md_vm a5"] by (auto simp: zero_info_def)
  obtain a6 where s6: "init_pools k a5 = Some (True, a6)" and 6: "md_live a6" "md_inited a6 = md_inited st" "md_smp_cpus a6 = n"
      "md_s a6 = (md_s a3)\<lparr>bs_info := info, bs_jt2 := jumptable2_init (bs_jt2 (md_s st)), bs_tc := tb_init (bs_tc (md_s st))\<rparr>"
      "md_peep_tab a6 = h"
    using m z 5 3(4) by (auto simp: init_pools_def)
  have mod6: "bs_mod (md_s a6) = bs_mod (md_s st)" by (simp add: 6(4) 3(4))
  obtain m7 vm7 where am: "alloc_module_extable (k_vm_ext k) (bs_mod (md_s st)) (md_vm a6) = Some (True, m7, vm7)"
      "num_exentries m7 = num_exentries (bs_mod (md_s st))"
    using btalloc_ok [of "k_vm_ext k" "8 * MAX_EXTABLE_EIPS" "md_vm a6"] nz(3) ex
    by (auto simp: alloc_module_extable_def MAX_EXTABLE_EIPS_def)
  obtain a7 where s7: "init_module_extable k a6 = Some (True, a7)" and 7: "md_live a7" "md_inited a7 = md_inited st" "md_smp_cpus a7 = n"
      "md_s a7 = (md_s a6)\<lparr>bs_mod := m7\<rparr>" "md_peep_tab a7 = h" "num_exentries m7 = num_exentries (bs_mod (md_s st))"
    using am 6(1-3,5) by (auto simp: init_module_extable_def mod6)
  obtain st' where s8: "init_bt_vcpu k n a7 = Some (True, st')" "same_tables a7 st'"
    using init_bt_vcpu_ok [OF stacks cpus, of a7] by blast
  have "run_steps (init_parts k n) st = Some (True, st')"
    using s1 s2 s3 s4 s5 s6 s7 s8(1) by (simp add: init_parts_def)
  moreover note pools_ready [OF ok m]
  ultimately show thesis using s8 7 6 3 by (intro that [of st' a7]) simp_all
qed

section \<open>The start\<close>

text \<open>
  C30. When every allocation succeeds, the start returns unless the shadow table's creation does
  not: it reaches that with empty pools and tables that satisfy the translator's invariant, with
  the rules in their table, all slots of the jump table cleared, and, for every cpu but the last,
  the counters cleared and masks that share no bit with those of another cpu.
\<close>

theorem init_bt_correct:
  assumes ok: "allocations_succeed k n" and peep: "peep_init (e_rules (cf_env (k_conf k))) (k_peep_allocated k) (k_peep_room k) = Some (True, h)"
    and ex: "num_exentries (bs_mod (md_s st)) \<le> 4096" "num_exentries (bs_mod (md_s st)) \<le> length (mod_entries (bs_mod (md_s st)))"
    and cpus: "k_shadowmem_start k = 0 \<or> n \<le> 5" and jt: "\<forall>c<n. length (bs_jt1 (md_s st) c) = jt_len"
    and fresh: "\<not> md_inited st" "k_user_extable k \<longrightarrow> extable_is_inited (md_ext st)"
  shows "\<exists>st1. bt_inv (conf_of k st1) (md_s st1) {} \<and> md_peep_tab st1 = h \<and> md_inited st1 \<and> md_live st1 \<and> md_smp_cpus st1 = n \<and>
    (\<forall>c<n. \<forall>i<4096. bs_jt1 (md_s st1) c ! i = 0) \<and>
    (\<forall>i. i + 1 < n \<longrightarrow> shadowregs (md_cpu st1 i) = replicate NUM_SHADOWREGS 0) \<and>
    (k_shadowmem_start k \<noteq> 0 \<longrightarrow> (\<forall>i j. i < j \<and> j + 1 < n \<longrightarrow>
       write_mask_l (md_cpu st1 i) AND write_mask_l (md_cpu st1 j) = 0 \<and>
       read_mask_l (md_cpu st1 i) AND write_mask_l (md_cpu st1 i) = read_mask_l (md_cpu st1 i) \<and>
       unmask_l (md_cpu st1 i) = NOT (write_mask_l (md_cpu st1 i)))) \<and>
    init_bt k n st =
      map_option (\<lambda>(target, table, s). (0, st1\<lparr>md_target_sysenter := target, md_shadow := table, md_s := s\<rparr>))
        (create_shadow_idt (conf_of k st1) (k_cpu k) 0 (k_native k) (k_sysenter k) (md_target_sysenter st1) (md_s st1))"
proof -
  let ?st = "st\<lparr>md_inited := True\<rparr>"
  have ex': "num_exentries (bs_mod (md_s ?st)) \<le> 4096" "num_exentries (bs_mod (md_s ?st)) \<le> length (mod_entries (bs_mod (md_s ?st)))"
    using ex by simp_all
  obtain a st2 where p: "run_steps (init_parts k n) ?st = Some (True, st2)" "init_bt_vcpu k n a = Some (True, st2)" "same_tables a st2"
    "md_peep_tab a = h" "md_inited a = md_inited ?st" "md_live a" "md_smp_cpus a = n"
    "pool_ok (bs_info (md_s a))" "plain_request (bs_info (md_s a)) 131072"
    "outside (bs_info (md_s a)) 0" "outside (bs_info (md_s a)) (cf_loc (k_conf k))"
    "bs_jt2 (md_s a) = jumptable2_init (bs_jt2 (md_s ?st))" "bs_tc (md_s a) = tb_init (bs_tc (md_s ?st))"
    "bs_jt1 (md_s a) = clear_jumptable1 n (bs_jt1 (md_s ?st))" "num_exentries (bs_mod (md_s a)) = num_exentries (bs_mod (md_s ?st))"
    by (rule init_parts_ok [OF ok peep ex' cpus])
  have stacks: "\<forall>i<n. k_stack k i \<noteq> 0" using ok by (simp add: allocations_succeed_def)
  obtain st3 where v: "init_bt_vcpu k n a = Some (True, st3)" "\<forall>i. i + 1 < n \<longrightarrow> cpu_set_up k (md_cpu st3 i) i"
    using init_bt_vcpu_ok [OF stacks cpus, of a] by blast
  then have v: "\<forall>i. i + 1 < n \<longrightarrow> cpu_set_up k (md_cpu st2 i) i" using p(2) by simp
  have ph: "md_peep_tab st2 = h" using init_bt_vcpu_peep [OF p(2)] p(4) by simp
  let ?st1 = "st2\<lparr>md_native_sysenter := k_sysenter k\<rparr>"
  have inv: "bt_inv (conf_of k ?st1) (md_s ?st1) {}"
    using p(3,8-13) jumptable2_init_ok tb_init_ok by (simp add: bt_inv_def conf_of_def same_tables_def)
  have clear: "bs_jt1 (md_s ?st1) c ! i = 0" if "c < n" "i < 4096" for c i
    using clear_jumptable1_slots [of n "bs_jt1 (md_s st)" c] jt that p(3,14) by (simp add: same_tables_def)
  have masks: "write_mask_l (md_cpu ?st1 i) AND write_mask_l (md_cpu ?st1 j) = 0 \<and>
       read_mask_l (md_cpu ?st1 i) AND write_mask_l (md_cpu ?st1 i) = read_mask_l (md_cpu ?st1 i) \<and>
       unmask_l (md_cpu ?st1 i) = NOT (write_mask_l (md_cpu ?st1 i))"
    if sm: "k_shadowmem_start k \<noteq> 0" and ij: "i < j" "j + 1 < n" for i j
  proof -
    have m: "set_masks i (md_cpu st2 i) = Some (md_cpu st2 i)" "set_masks j (md_cpu st2 j) = Some (md_cpu st2 j)" "j < 4"
      using v sm ij cpus by (simp_all add: cpu_set_up_def)
    from masks_disjoint(3) [OF m(1,2) ij(1) m(3)] masks_of(3,6) [OF m(1)] m(3) ij(1) show ?thesis by simp
  qed
  have "init_bt k n st =
      map_option (\<lambda>(target, table, s). (0, ?st1\<lparr>md_target_sysenter := target, md_shadow := table, md_s := s\<rparr>))
        (create_shadow_idt (conf_of k ?st1) (k_cpu k) 0 (k_native k) (k_sysenter k) (md_target_sysenter ?st1) (md_s ?st1))"
    using p(1) fresh by (auto simp: init_bt_def Let_def split: option.splits)
  moreover have "md_peep_tab ?st1 = h" "md_inited ?st1" "md_live ?st1" "md_smp_cpus ?st1 = n"
    using p(3,5-7) ph by (simp_all add: same_tables_def)
  moreover have "\<forall>i. i + 1 < n \<longrightarrow> shadowregs (md_cpu ?st1 i) = replicate NUM_SHADOWREGS 0"
    using v by (simp add: cpu_set_up_def)
  moreover have "\<forall>c<n. \<forall>i<4096. bs_jt1 (md_s ?st1) c ! i = 0" using clear by blast
  moreover have "k_shadowmem_start k \<noteq> 0 \<longrightarrow> (\<forall>i j. i < j \<and> j + 1 < n \<longrightarrow>
       write_mask_l (md_cpu ?st1 i) AND write_mask_l (md_cpu ?st1 j) = 0 \<and>
       read_mask_l (md_cpu ?st1 i) AND write_mask_l (md_cpu ?st1 i) = read_mask_l (md_cpu ?st1 i) \<and>
       unmask_l (md_cpu ?st1 i) = NOT (write_mask_l (md_cpu ?st1 i)))" using masks by blast
  moreover note inv
  ultimately show ?thesis by (intro exI [of _ ?st1] conjI)
qed

definition kernel0 :: kernel where
  "kernel0 = \<lparr>k_user_extable = False, k_conf = bt_conf0\<lparr>cf_env := code_env\<lparr>e_rules := []\<rparr>\<rparr>, k_sizeof_btmod = 4000,
     k_sizeof_vcpu = 400, k_vm_bt = (\<lambda>_. 4096), k_vm_v = (\<lambda>_. 8192), k_vm_ext = (\<lambda>_. 12288), k_vm_pools = demo_areas,
     k_areas = (1, 2, 3, 4), k_area_at = (\<lambda>a. a * 8192), k_peep_allocated = True, k_peep_room = (\<lambda>_. True), k_page = 65536,
     k_stack = (\<lambda>_. 131072), k_callout_label = 77, k_shadowmem_start = 64, k_cpu = 0, k_native = [], k_sysenter = 0,
     k_thread_size = 8192, k_sort = (\<lambda>_. sort_key ex_insn), k_oldkernel = True\<rparr>"

definition module0 :: md_state where
  "module0 = \<lparr>md_inited = False, md_live = False, md_bt = 0, md_v = 0, md_tpage = 0, md_smp_cpus = 0,
     md_peep_tab = e_tab code_env, md_s = bt_state0, md_ext = extable_start, md_cpu = (\<lambda>_. \<lparr>shadowregs = [], read_mask_b = 0,
       write_mask_b = 0, read_mask_w = 0, write_mask_w = 0, read_mask_l = 0, write_mask_l = 0, unmask_b = 0, unmask_w = 0,
       unmask_l = 0, tsptr = 0, vptr = 0\<rparr>), md_mon_stack = (\<lambda>_. 0), md_pages = [], md_areas = [], md_vm = demo_vm, md_loglevel = 0,
     md_native_sysenter = 0, md_target_sysenter = 0, md_shadow = [], md_shadow_loaded = False, md_idtr = Native_idt,
     md_sysenter = 0, md_ports = [], md_copied = []\<rparr>"

lemma kernel0_allocations: "allocations_succeed kernel0 3"
proof -
  have "let a = unat ((demo_areas ! i) 262144) in a + 262144 + 131072 < 2 ^ 32 \<and> 9 \<notin> {a..<a + 262144}" if "i < 60" for i
    using demo_area [OF that] that by (simp add: Let_def)
  moreover have "fst (alloc_jumptable1 (1, 2, 3, 4) (\<lambda>a. a * 8192))" by (simp add: alloc_jumptable1_def continuous_blocks_def)
  ultimately show ?thesis
    by (simp add: allocations_succeed_def kernel0_def bt_conf0_def demo_areas_good)
qed

theorem init_bt_correct_witness:
  "\<exists>st1. bt_inv (conf_of kernel0 st1) (md_s st1) {} \<and> md_inited st1 \<and>
    write_mask_l (md_cpu st1 0) AND write_mask_l (md_cpu st1 1) = 0"
proof -
  obtain h where "peep_init (e_rules (cf_env (k_conf kernel0))) (k_peep_allocated kernel0) (k_peep_room kernel0) = Some (True, h)"
    by (auto simp: peep_init_def kernel0_def hash_init_size_def Let_def)
  note c = init_bt_correct [OF kernel0_allocations this, of module0]
  have "k_shadowmem_start kernel0 \<noteq> 0" "k_user_extable kernel0 = False" by (simp_all add: kernel0_def)
  with c show ?thesis by (fastforce simp: module0_def bt_state0_def)
qed

section \<open>Once\<close>

lemma device_ioctl_inited:
  "md_inited st \<Longrightarrow> device_ioctl k r st = Some (ret, st') \<Longrightarrow> md_inited st'"
proof (cases r)
  case (STOP_BT threads n)
  assume "md_inited st" "device_ioctl k r st = Some (ret, st')"
  with STOP_BT show ?thesis
    by (auto simp: device_ioctl_def stop_bt_def dump_shadow_memory_def Let_def split: if_splits option.splits prod.splits)
qed (auto simp: device_ioctl_def init_bt_def reset_shadow_memory_def translate_idt_def load_native_idt_def Let_def
    split: if_splits option.splits prod.splits)

lemma init_again: "md_inited st \<Longrightarrow> init_bt k n st = Some (1, st)"
  by (simp add: init_bt_def)

lemma init_sets_inited:
  assumes "init_bt k n st = Some (ret, st')" and "k_user_extable k \<longrightarrow> extable_is_inited (md_ext st)"
  shows "md_inited st'"
proof (cases "md_inited st")
  case True
  with assms show ?thesis by (simp add: init_again)
next
  case False
  have "md_inited st2 = md_inited (st\<lparr>md_inited := True\<rparr>)" if "run_steps (init_parts k n) (st\<lparr>md_inited := True\<rparr>) = Some (ok, st2)" for ok st2
    using that
  proof (rule run_steps_inv [where Q = md_inited])
    fix f a ok b
    assume "f \<in> set (init_parts k n)" and f: "f a = Some (ok, b)"
    then consider "f \<in> {init_btmod k, init_vcpus k n, init_jumptable1 k n, init_peep k, init_tpage k, init_pools k, init_module_extable k}"
      | "f = init_bt_vcpu k n" by (auto simp: init_parts_def)
    then show "md_inited b = md_inited a"
    proof cases
      case 1
      with f show ?thesis
        by (auto simp: init_btmod_def init_vcpus_def init_jumptable1_def init_peep_def init_tpage_def init_pools_def
            init_module_extable_def Let_def split: if_splits prod.splits)
    next
      case 2
      then have "run_steps (map (init_one_vcpu k) [0..<n]) a = Some (ok, b)" using f by (simp add: init_bt_vcpu_def)
      then show ?thesis
        by (rule run_steps_inv [where Q = md_inited]) (auto simp: init_one_vcpu_def Let_def split: if_splits)
    qed
  qed
  with False assms show ?thesis by (auto simp: init_bt_def Let_def split: if_splits option.splits bool.splits prod.splits)
qed

text \<open>
  C31. The module is started at most once: after a first attempt that passed the check of the
  exception table, successful or not, every later request to start it is refused, whatever
  requests came between, a request to stop it included. The refused start itself changes nothing;
  the request still resets the shadow memory, a write to its port if there is one, and changes
  nothing else.
\<close>

theorem init_bt_once:
  assumes "init_bt k n st = Some (ret, st1)" and "k_user_extable k \<longrightarrow> extable_is_inited (md_ext st)"
    and "run_ioctls k rs st1 = Some (rets, st2)"
  shows "length rets = length rs \<and> (\<forall>i<length rs. \<forall>m. rs ! i = INIT_BT m \<longrightarrow> rets ! i = 1) \<and>
    init_bt k m st2 = Some (1, st2) \<and>
    device_ioctl k (INIT_BT m) st2 =
      Some (1, if k_shadowmem_start k \<noteq> 0 then st2\<lparr>md_ports := md_ports st2 @ [(RESET_PORT, k_shadowmem_start k)]\<rparr> else st2)"
proof -
  have "length rets = length rs \<and> (\<forall>i<length rs. \<forall>m. rs ! i = INIT_BT m \<longrightarrow> rets ! i = 1) \<and> md_inited st2"
    if "md_inited st1" "run_ioctls k rs st1 = Some (rets, st2)" for st1 rets
    using that
  proof (induction rs arbitrary: st1 rets)
    case (Cons r rs)
    obtain ret a rets' where r: "device_ioctl k r st1 = Some (ret, a)" "run_ioctls k rs a = Some (rets', st2)" "rets = ret # rets'"
      using Cons.prems(2) by (auto split: Option.bind_splits)
    have "ret = 1" if "r = INIT_BT m" for m
      using r(1) Cons.prems(1) that by (simp add: device_ioctl_def init_again)
    moreover note Cons.IH [OF device_ioctl_inited [OF Cons.prems(1) r(1)] r(2)]
    ultimately show ?case using r(3) by (auto simp: nth_Cons split: nat.splits)
  qed simp
  from this [OF init_sets_inited [OF assms(1,2)] assms(3)] show ?thesis
    by (simp add: init_again device_ioctl_def reset_shadow_memory_def)
qed

theorem init_bt_once_witness:
  "\<exists>st1. init_bt (kernel0\<lparr>k_page := 0\<rparr>) 1 module0 = Some (1, st1) \<and> init_bt (kernel0\<lparr>k_page := 0\<rparr>) 1 st1 = Some (1, st1) \<and>
     map_option fst (device_ioctl (kernel0\<lparr>k_page := 0\<rparr>) (INIT_BT 1) st1) = Some 1"
proof -
  let ?k = "kernel0\<lparr>k_page := 0\<rparr>"
  obtain st1 where i: "init_bt ?k 1 module0 = Some (1, st1)"
    by (auto simp: init_bt_def init_parts_def kernel0_def module0_def init_btmod_def init_vcpus_def init_jumptable1_def init_peep_def
        init_tpage_def btalloc_def Let_def alloc_jumptable1_def continuous_blocks_def peep_init_def hash_init_size_def page_align_def)
  have "run_ioctls ?k [] st1 = Some ([], st1)" by simp
  from init_bt_once [OF i _ this] i show ?thesis by (auto simp: kernel0_def)
qed

end
