(* ===== verification/Gen_Files.thy ===== *)
theory Gen_Files
  imports Cpu_constraints Insn
begin

text \<open>
  The intermediate text files of the build's generator (\<^verbatim>\<open>peepgen.c\<close>): one run of the generator
  writes the assignments, processor constraints and conflict pairs of the rules, each under the
  name of its rule, and a later run reads them in the same order. A file being read is the text
  that is left of it. \<open>Undef\<close> and \<open>None\<close> are accesses outside a buffer and uses of a buffer that
  was not filled.
\<close>

definition PEEP_PREFIX_STR :: string where "PEEP_PREFIX_STR = ''peep_''"
definition SNIPPET_PREFIX_STR :: string where "SNIPPET_PREFIX_STR = PEEP_PREFIX_STR @ ''snippet_''"
definition MODE16_STR :: string where "MODE16_STR = ''mode16_''"

definition nl :: string where "nl = [CHR 0x0A]"

section \<open>Lines\<close>

text \<open>
  \<^verbatim>\<open>fscanf\<close> with \<^verbatim>\<open>%[^\n]\n\<close> into a buffer of \<open>n\<close> bytes: at the end of the file \<^verbatim>\<open>EOF\<close>, else a
  line, after which all white space is skipped. An empty line is not read; it can only be the
  first of a file, when the buffer is not filled yet.
\<close>

datatype scanned = End_of_file | Line string string | Bad_line

definition scan_line :: "nat \<Rightarrow> string \<Rightarrow> scanned" where
  "scan_line n fp =
     (if fp = [] then End_of_file
      else
        let line = takeWhile (\<lambda>c. c \<noteq> CHR 0x0A) fp;
            rest = dropWhile (\<lambda>c. isspace (ch c)) (dropWhile (\<lambda>c. c \<noteq> CHR 0x0A) fp)
        in if line = [] \<or> length line \<ge> n then Bad_line else Line line rest)"

lemma scan_line_shorter: "scan_line n fp = Line line rest \<Longrightarrow> length rest < length fp"
  by (auto simp: scan_line_def Let_def split: if_splits intro: str2assignments_rest)

section \<open>Assignments\<close>

definition output_assignments :: "string \<Rightarrow> assignments \<Rightarrow> string option" where
  "output_assignments label as =
     do { buf \<leftarrow> assignments2str as; Some (label @ '':'' @ nl @ buf @ nl) }"

text \<open>
  The lines between the name of the entry and the next name, which is left in the file.
\<close>

function read_assignments_loop :: "string \<Rightarrow> string \<Rightarrow> bool \<Rightarrow> string \<Rightarrow> (string \<times> string) option" where
  "read_assignments_loop index_name fp inside_entry buf =
     (case scan_line 80 fp of
        End_of_file \<Rightarrow> Some (buf, fp)
      | Bad_line \<Rightarrow> None
      | Line line rest \<Rightarrow>
          if starts line PEEP_PREFIX_STR then
            (if inside_entry then Some (buf, fp)
             else read_assignments_loop index_name rest (line = index_name @ '':'') buf)
          else if inside_entry then read_assignments_loop index_name rest True (buf @ line @ nl)
          else read_assignments_loop index_name rest False buf)"
  by pat_completeness auto

termination
  by (relation "measure (\<lambda>(_, fp, _, _). length fp)") (auto intro: scan_line_shorter)

declare read_assignments_loop.simps [simp del]

text \<open>The buffer has 512 bytes; a text that is not accepted leaves the assignments unfinished.\<close>

definition read_assignments :: "string \<Rightarrow> string \<Rightarrow> (assignments \<times> string) option" where
  "read_assignments fp index_name =
     (case read_assignments_loop index_name fp False [] of
        None \<Rightarrow> None
      | Some (buf, fp) \<Rightarrow>
          if length buf \<ge> 512 then None
          else case str2assignments buf of Parsed as \<Rightarrow> Some (as, fp) | _ \<Rightarrow> None)"

section \<open>Processor constraints\<close>

definition output_cpu_constraints :: "string \<Rightarrow> u64 \<Rightarrow> string" where
  "output_cpu_constraints label c = label @ '':'' @ nl @ cpu_constraints2str c @ nl"

text \<open>
  The line behind the name of the entry. A line that starts like a name is taken for one also
  inside the entry; at the end of the file the last line counts.
\<close>

function entry_line_loop :: "nat \<Rightarrow> string \<Rightarrow> string \<Rightarrow> bool \<Rightarrow> string option \<Rightarrow> (string \<times> string) option" where
  "entry_line_loop n index_name fp inside_entry prev =
     (case scan_line n fp of
        End_of_file \<Rightarrow> map_option (\<lambda>line. (line, fp)) prev
      | Bad_line \<Rightarrow> None
      | Line line rest \<Rightarrow>
          if starts line PEEP_PREFIX_STR
          then entry_line_loop n index_name rest (inside_entry \<or> line = index_name @ '':'') (Some line)
          else if inside_entry then Some (line, rest)
          else entry_line_loop n index_name rest False (Some line))"
  by pat_completeness auto

termination
  by (relation "measure (\<lambda>(_, _, fp, _, _). length fp)") (auto intro: scan_line_shorter)

declare entry_line_loop.simps [simp del]

definition read_cpu_constraints :: "string \<Rightarrow> string \<Rightarrow> (u64 \<times> string) option" where
  "read_cpu_constraints fp index_name =
     do {
       (line, fp) \<leftarrow> entry_line_loop 80 index_name fp False None;
       c \<leftarrow> str2cpu_constraints line;
       Some (c, fp)
     }"

section \<open>Conflict pairs\<close>

definition MAX_NOMATCH_PAIRS :: nat where "MAX_NOMATCH_PAIRS = 32"

text \<open>\<open>None\<close> when a pair is not readable or the array of 32 pairs is too short.\<close>

fun nomatch_pairs_loop :: "nat \<Rightarrow> string \<Rightarrow> nomatch_pair list option" where
  "nomatch_pairs_loop 0 s = None"
| "nomatch_pairs_loop (Suc room) s =
     (case str2nomatch_pair s of
        Parsed (p, nchars) \<Rightarrow>
          (if drop nchars s = [] then Some [p] else map_option (Cons p) (nomatch_pairs_loop room (drop nchars s)))
      | _ \<Rightarrow> None)"

definition read_nomatch_pairs :: "string \<Rightarrow> string \<Rightarrow> (nomatch_pair list \<times> string) option" where
  "read_nomatch_pairs fp index_name =
     do {
       (line, fp) \<leftarrow> entry_line_loop 8192 index_name fp False None;
       ps \<leftarrow> (if line = ''none'' then Some [] else nomatch_pairs_loop MAX_NOMATCH_PAIRS line);
       Some (ps, fp)
     }"

fun nomatch_pairs2str :: "nomatch_pair list \<Rightarrow> string option" where
  "nomatch_pairs2str [] = Some []"
| "nomatch_pairs2str (p # ps) = do { s \<leftarrow> nomatch_pair2str p; r \<leftarrow> nomatch_pairs2str ps; Some (s @ r) }"

text \<open>The text of the pairs of an entry, written over the word that stands for no pairs.\<close>

definition nomatch_pairs_line :: "nomatch_pair list \<Rightarrow> string option" where
  "nomatch_pairs_line ps = (if ps = [] then Some ''none'' else nomatch_pairs2str ps)"

end
