(* ===== verification/Gen_Code.thy ===== *)
theory Gen_Code
  imports Gen_Files
begin

text \<open>
  The part of the build's generator (\<^verbatim>\<open>peepgen.c\<close>) that turns the assembled code of the rules
  into the C function \<^verbatim>\<open>peepgen_code\<close>. The output file is a list of C statements, which
  \<open>cstmt_text\<close> prints the way the generator does; their meaning is given by \<open>exec\<close>. The object
  file is a record: its text section, its symbols and the relocations of the text.
  A result \<open>None\<close> is an exit of the generator, an access outside an array or a value that is not set.
\<close>

section \<open>The object file\<close>

record elf_sym =
  st_name :: string
  st_value :: u32

record elf_rel =
  r_offset :: u32
  r_sym :: string
  r_type :: nat

record object_file =
  o_text :: "u8 list"
  o_syms :: "elf_sym list"
  o_relocs :: "elf_rel list"

definition R_386_32 :: nat where "R_386_32 = 1"
definition R_386_PC32 :: nat where "R_386_PC32 = 2"
definition R_386_16 :: nat where "R_386_16 = 20"

definition NUM_SEGS :: nat where "NUM_SEGS = 6"

definition symval_compare :: "elf_sym \<Rightarrow> elf_sym \<Rightarrow> int" where
  "symval_compare a b = sint (st_value a - st_value b)"

text \<open>\<open>srt\<close> is the sort of the C library.\<close>

type_synonym sym_sort = "(elf_sym \<Rightarrow> elf_sym \<Rightarrow> int) \<Rightarrow> elf_sym list \<Rightarrow> elf_sym list"

definition get_symtab_entries :: "sym_sort \<Rightarrow> object_file \<Rightarrow> string \<Rightarrow> elf_sym list" where
  "get_symtab_entries srt obj prefix = srt symval_compare (filter (\<lambda>s. starts (st_name s) prefix) (o_syms obj))"

text \<open>The size of the code between two symbols, and the code itself.\<close>

definition sym_size :: "elf_sym \<Rightarrow> elf_sym \<Rightarrow> nat" where
  "sym_size s s' = unat (st_value s' - st_value s)"

definition text_bytes :: "object_file \<Rightarrow> u32 \<Rightarrow> nat \<Rightarrow> u8 list option" where
  "text_bytes obj start n =
     (if unat start + n \<le> length (o_text obj) then Some (take n (drop (unat start) (o_text obj))) else None)"

section \<open>Statements\<close>

datatype area = gen_code_ptr | gen_edge_ptr

text \<open>The assignments to one byte at an offset of a pointer.\<close>

datatype bstmt =
    Or_byte area nat u8
  | And_not_byte area nat u8
  | Set_byte area nat u8

text \<open>
  In the order of the constructors: a copy from the bytes of an entry, a parameter, a pointer
  plus an offset, a variable plus 4, clearing \<^verbatim>\<open>*is_terminating\<close>, the three kinds of
  relocations with their symbol and addend, a test of one bit of a register variable, a switch
  over the segments, in which an absent case calls \<^verbatim>\<open>ABORT\<close>, and the advance of a pointer.
\<close>

datatype cstmt =
    Memcpy area string nat nat
  | Take_param string
  | Set_ptr string area int
  | Set_plus4 string string
  | Clear_terminating
  | Store32 area int string u32
  | Store16 area int string u32
  | Store_pc32 area int string u32
  | If_bit string nat "bstmt list" "bstmt list"
  | Switch_on string "bstmt list option list"
  | Advance area nat

subsection \<open>Their text\<close>

fun area_text :: "area \<Rightarrow> string" where
  "area_text gen_code_ptr = ''gen_code_ptr''"
| "area_text gen_edge_ptr = ''gen_edge_ptr''"

definition hex_byte :: "u8 \<Rightarrow> string" where "hex_byte x = ''0x'' @ show_hex (unat x)"

fun bstmt_text :: "string \<Rightarrow> bstmt \<Rightarrow> string" where
  "bstmt_text ind (Or_byte a k x) = ind @ ''*('' @ area_text a @ '' + '' @ show_dec k @ '') |= '' @ hex_byte x @ '';'' @ nl"
| "bstmt_text ind (And_not_byte a k x) = ind @ ''*('' @ area_text a @ '' + '' @ show_dec k @ '') &= ~'' @ hex_byte x @ '';'' @ nl"
| "bstmt_text ind (Set_byte a k x) = ind @ ''*('' @ area_text a @ '' + '' @ show_dec k @ '') = '' @ hex_byte x @ '';'' @ nl"

definition bstmts_text :: "string \<Rightarrow> bstmt list \<Rightarrow> string" where
  "bstmts_text ind ss = concat (map (bstmt_text ind) ss)"

definition case_text :: "nat \<Rightarrow> bstmt list option \<Rightarrow> string" where
  "case_text i c =
     ''    case '' @ show_dec i @ '': {'' @ nl @
     (case c of Some ss \<Rightarrow> bstmts_text ''      '' ss | None \<Rightarrow> ''      ABORT();'' @ nl) @
     ''    }'' @ nl @ ''    break;'' @ nl"

definition place_text :: "area \<Rightarrow> int \<Rightarrow> string" where
  "place_text a k = ''('' @ area_text a @ '' + '' @ show_int k @ '')''"

fun cstmt_text :: "cstmt \<Rightarrow> string" where
  "cstmt_text (Memcpy gen_code_ptr name from n) =
     ''  memcpy(gen_code_ptr, '' @ name @ ''_code, '' @ show_dec n @ '');'' @ nl"
| "cstmt_text (Memcpy gen_edge_ptr name from n) =
     ''  memcpy(gen_edge_ptr, '' @ name @ ''_code + '' @ show_dec from @ '', '' @ show_dec n @ '');'' @ nl"
| "cstmt_text (Take_param v) = ''  '' @ v @ '' = *peep_param_ptr++;'' @ nl"
| "cstmt_text (Set_ptr v a k) = ''  '' @ v @ '' = (long)'' @ area_text a @ '' + '' @ show_int k @ '';'' @ nl"
| "cstmt_text (Set_plus4 v w) = ''  '' @ v @ '' = '' @ w @ '' + 4;'' @ nl"
| "cstmt_text Clear_terminating = ''  *is_terminating = false;'' @ nl"
| "cstmt_text (Store32 a k s addend) =
     ''  *(uint32_t *)'' @ place_text a k @ '' = (long)'' @ s @ '' + '' @ show_int (sint addend) @ '';'' @ nl"
| "cstmt_text (Store16 a k s addend) =
     ''  *(uint16_t *)'' @ place_text a k @ '' = (long)'' @ s @ '' + '' @ show_int (sint addend) @ '';'' @ nl"
| "cstmt_text (Store_pc32 a k s addend) =
     ''  *(uint32_t *)'' @ place_text a k @ '' = (long)'' @ s @ '' - (long)'' @ place_text a k @ '' + '' @
     show_int (sint addend) @ '';'' @ nl"
| "cstmt_text (If_bit v i ss ts) =
     ''  if ('' @ v @ '' & (1 << '' @ show_dec i @ '')) {'' @ nl @ bstmts_text ''    '' ss @
     ''  } else {'' @ nl @ bstmts_text ''    '' ts @ ''  }'' @ nl"
| "cstmt_text (Switch_on v cs) =
     ''  switch('' @ v @ '') {'' @ nl @ concat (map2 case_text [0..<length cs] cs) @ ''  }'' @ nl"
| "cstmt_text (Advance a n) = ''  '' @ area_text a @ '' += '' @ show_dec n @ '';'' @ nl"

section \<open>Names\<close>

text \<open>The least power of two that is not below the value; without one the loop does not end.\<close>

definition is_power_of_two :: "u32 \<Rightarrow> (bool \<times> nat) option" where
  "is_power_of_two val =
     map_option (\<lambda>i. (val = push_bit i 1, i)) (find (\<lambda>i. val \<le> push_bit i 1) [0..<32])"

datatype regtype = REGTYPE_REG | REGTYPE_SEG

text \<open>
  The name of a variant is that of its entry, the kind of its variable, the number of the
  variable and its value, with underscores between them; the parts are copied to a buffer of
  eight bytes.
\<close>

definition parse_regtype :: "string \<Rightarrow> regtype option" where
  "parse_regtype rbuf =
     (if rbuf = ''r'' then Some REGTYPE_REG else if rbuf = ''s'' then Some REGTYPE_SEG else None)"

definition parse_vname :: "string \<Rightarrow> string \<Rightarrow> (regtype \<times> int \<times> int) option" where
  "parse_vname vname name =
     do {
       (kind, rest) \<leftarrow> split_at (CHR ''_'') (drop (length name + 1) vname);
       (number, value) \<leftarrow> split_at (CHR ''_'') rest;
       if length kind > 7 \<or> length number > 7 \<or> length value > 6 then None
       else do { t \<leftarrow> parse_regtype kind; Some (t, atoi number, atoi value) }
     }"

text \<open>The name of a register or segment variable without its percent sign.\<close>

definition get_regname :: "int \<Rightarrow> string option" where
  "get_regname regno = map_option tl (operand2str (scalar_operand op_reg 4 (of_int regno) tag_var))"

definition get_segname :: "int \<Rightarrow> string option" where
  "get_segname segno = map_option tl (operand2str (scalar_operand op_seg 0 (of_int segno) tag_var))"

definition var_name :: "regtype \<Rightarrow> int \<Rightarrow> string option" where
  "var_name t regno = (case t of REGTYPE_REG \<Rightarrow> get_regname regno | REGTYPE_SEG \<Rightarrow> get_segname regno)"

fun is_variable_name :: "string \<Rightarrow> assignments \<Rightarrow> bool option" where
  "is_variable_name name [] =
     Some (name = ''tc_next_eip'' \<or> name = ''gen_code_ptr'' \<or> name = ''gen_edge_ptr'' \<or>
           name = ''fallthrough_addr'' \<or> name = ''edge2_end'' \<or> name = ''edge1_end'')"
| "is_variable_name name ((var, v) # as) =
     do {
       vname \<leftarrow> operand2str var;
       if name = vname then Some True
       else if starts name ''target_'' \<and> drop 7 name = vname then Some True
       else if char_at vname 0 = CHR ''%'' \<and> name = tl vname then Some True
       else is_variable_name name as
     }"

text \<open>
  The expression for a symbol, cut to its buffer, and whether the symbol needs a declaration,
  which no caller asks for.
\<close>

definition get_reloc_expr :: "nat \<Rightarrow> string \<Rightarrow> assignments \<Rightarrow> (string \<times> bool) option" where
  "get_reloc_expr name_size sym_name as =
     do {
       b \<leftarrow> is_variable_name sym_name as;
       let e = take (name_size - 1) (''(long)'' @ sym_name) in
       Some (e, \<not> b \<and> sym_name \<noteq> ''vcpu'' \<and> sym_name \<noteq> ''monitor'')
     }"

text \<open>The symbol in the expression.\<close>

definition reloc_symbol :: "string \<Rightarrow> string" where "reloc_symbol e = drop 6 e"

section \<open>Jumps out of a block\<close>

text \<open>An offset in the code of an entry: the part before \<open>code_size\<close> is code, the rest edge code.\<close>

definition place :: "nat \<Rightarrow> nat \<Rightarrow> area \<times> nat" where
  "place code_size b = (if b < code_size then (gen_code_ptr, b) else (gen_edge_ptr, b - code_size))"

definition relocs_in :: "object_file \<Rightarrow> elf_sym \<Rightarrow> elf_sym \<Rightarrow> elf_rel list" where
  "relocs_in obj s s' = filter (\<lambda>r. st_value s \<le> r_offset r \<and> r_offset r < st_value s') (o_relocs obj)"

definition occurs :: "string \<Rightarrow> string \<Rightarrow> bool" where "occurs s p \<longleftrightarrow> strstr s p \<noteq> None"

definition joFF_values :: "string \<Rightarrow> nat \<Rightarrow> nat \<Rightarrow> cstmt list" where
  "joFF_values relname reloc_offset code_len =
     (let (a, k) = place code_len reloc_offset in
      (if occurs relname ''target_C0'' then [Set_ptr ''joFF0'' a (int k)] else []) @
      (if occurs relname ''tc_next_eip'' then
         [Set_ptr ''joFF1'' a (int k)] @ (if a = gen_edge_ptr then [Set_plus4 ''edge1_end'' ''joFF1''] else [])
       else []) @
      (if occurs relname ''end_Block'' then
         [Set_ptr ''joFF2'' a (int k), Set_plus4 ''edge2_end'' ''joFF2'', Clear_terminating]
       else []))"

text \<open>The statements for all elements of a list, in order.\<close>

fun collect :: "('a \<Rightarrow> 'b list option) \<Rightarrow> 'a list \<Rightarrow> 'b list option" where
  "collect f [] = Some []"
| "collect f (x # xs) = do { ys \<leftarrow> f x; zs \<leftarrow> collect f xs; Some (ys @ zs) }"

definition output_joFF_values ::
    "object_file \<Rightarrow> elf_sym \<Rightarrow> elf_sym \<Rightarrow> assignments \<Rightarrow> nat \<Rightarrow> cstmt list option" where
  "output_joFF_values obj s s' as code_len =
     collect (\<lambda>r. do {
                (relname, _) \<leftarrow> get_reloc_expr 64 (r_sym r) as;
                Some (joFF_values relname (unat (r_offset r - st_value s)) code_len)
              }) (relocs_in obj s s')"

section \<open>Relocations\<close>

fun le_bytes :: "u8 list \<Rightarrow> u32" where
  "le_bytes [] = 0"
| "le_bytes (b # bs) = ucast b OR push_bit 8 (le_bytes bs)"

definition reloc_stmt ::
    "object_file \<Rightarrow> assignments \<Rightarrow> elf_sym \<Rightarrow> nat \<Rightarrow> elf_rel \<Rightarrow> cstmt list option" where
  "reloc_stmt obj as s code_size r =
     do {
       (relname, _) \<leftarrow> get_reloc_expr 64 (r_sym r) as;
       let (a, k) = place code_size (unat (r_offset r - st_value s)) in
       if r_type r = R_386_32 then
         do { bs \<leftarrow> text_bytes obj (r_offset r) 4; Some [Store32 a (int k) (reloc_symbol relname) (le_bytes bs)] }
       else if r_type r = R_386_16 then
         do { bs \<leftarrow> text_bytes obj (r_offset r) 2; Some [Store16 a (int k) (reloc_symbol relname) (le_bytes bs)] }
       else if r_type r = R_386_PC32 then
         do { bs \<leftarrow> text_bytes obj (r_offset r) 4; Some [Store_pc32 a (int k) (reloc_symbol relname) (le_bytes bs)] }
       else None
     }"

definition output_constant_variable_code ::
    "object_file \<Rightarrow> elf_sym \<Rightarrow> elf_sym \<Rightarrow> assignments \<Rightarrow> nat \<Rightarrow> cstmt list option" where
  "output_constant_variable_code obj s s' as code_size =
     collect (reloc_stmt obj as s code_size) (relocs_in obj s s')"

section \<open>Register variables\<close>

text \<open>
  The code of the variants of one variable, by the value of the variable: eight entries, absent
  where the value is not allowed. The comparison of a byte looks at the first six entries only.
\<close>

type_synonym variant_codes = "u8 list option list"

fun identical_bytes :: "u8 option \<Rightarrow> variant_codes \<Rightarrow> nat \<Rightarrow> bool" where
  "identical_bytes known [] b = True"
| "identical_bytes known (None # cs) b = identical_bytes known cs b"
| "identical_bytes None (Some c # cs) b = identical_bytes (Some (c ! b)) cs b"
| "identical_bytes (Some byteval) (Some c # cs) b =
     (if c ! b \<noteq> byteval then False else identical_bytes (Some byteval) cs b)"

definition is_identical_byte :: "variant_codes \<Rightarrow> nat \<Rightarrow> bool" where
  "is_identical_byte code b = identical_bytes None (take NUM_SEGS code) b"

definition prefix_bytes :: "u8 list" where "prefix_bytes = [0x26, 0x2e, 0x36, 0x3e, 0x64, 0x65]"

definition is_seg_prefix_byte :: "variant_codes \<Rightarrow> nat \<Rightarrow> bool" where
  "is_seg_prefix_byte code b =
     list_all (\<lambda>i. case code ! i of None \<Rightarrow> True | Some c \<Rightarrow> c ! b = prefix_bytes ! i) [0..<NUM_SEGS]"

text \<open>The codes of a pair of values that differ in one bit: with the bit set and without it.\<close>

definition both_codes :: "variant_codes \<Rightarrow> nat \<Rightarrow> nat \<Rightarrow> (u8 list \<times> u8 list) option" where
  "both_codes code i j = do { c_set \<leftarrow> code ! i; c_reset \<leftarrow> code ! j; Some (c_set, c_reset) }"

definition regbit_pair :: "variant_codes \<Rightarrow> nat \<Rightarrow> nat \<Rightarrow> (u8 list \<times> u8 list) option" where
  "regbit_pair code num_regbits i =
     (case both_codes code (2 ^ i) 0 of
        Some p \<Rightarrow> Some p
      | None \<Rightarrow>
          (case find (\<lambda>j. j \<noteq> i \<and> both_codes code (2 ^ j + 2 ^ i) (2 ^ j) \<noteq> None) [0..<num_regbits] of
             None \<Rightarrow> None
           | Some j \<Rightarrow> both_codes code (2 ^ j + 2 ^ i) (2 ^ j)))"

text \<open>
  The statements that set or clear a bit of the variable in the bytes \<open>bs\<close>, none when a byte
  depends on the variable and no pair of values shows how.
\<close>

fun regbit_stmts ::
    "variant_codes \<Rightarrow> regtype \<Rightarrow> nat \<Rightarrow> nat \<Rightarrow> bool \<Rightarrow> nat \<Rightarrow> nat list \<Rightarrow> bstmt list option" where
  "regbit_stmts code t num_regbits i on code_size [] = Some []"
| "regbit_stmts code t num_regbits i on code_size (b # bs) =
     (if is_identical_byte code b \<or> (t = REGTYPE_SEG \<and> is_seg_prefix_byte code b)
      then regbit_stmts code t num_regbits i on code_size bs
      else
        case regbit_pair code num_regbits i of
          None \<Rightarrow> None
        | Some (c_set, c_reset) \<Rightarrow>
            let x = c_set ! b XOR c_reset ! b; (a, k) = place code_size b in
            do {
              ss \<leftarrow> regbit_stmts code t num_regbits i on code_size bs;
              Some ((if x \<noteq> 0 then [if on then Or_byte a k x else And_not_byte a k x] else []) @ ss)
            })"

definition output_regbit_code :: "variant_codes \<Rightarrow> nat \<Rightarrow> regtype \<Rightarrow> nat \<Rightarrow> bool \<Rightarrow> nat \<Rightarrow> bstmt list option" where
  "output_regbit_code code sz t i on code_size =
     do {
       (_, num_regbits) \<leftarrow> is_power_of_two (of_nat NUM_REGS);
       Some (case regbit_stmts code t num_regbits i on code_size [0..<sz] of Some ss \<Rightarrow> ss | None \<Rightarrow> [])
     }"

text \<open>The array of the variants of one variable; each has its name and its code.\<close>

fun codes_for :: "(string \<times> u8 list) list \<Rightarrow> string \<Rightarrow> regtype \<Rightarrow> int \<Rightarrow> variant_codes \<Rightarrow> variant_codes option" where
  "codes_for [] name t regno code = Some code"
| "codes_for ((vname, c) # vs) name t regno code =
     do {
       (vt, vregno, regval) \<leftarrow> parse_vname vname name;
       if vt \<noteq> t \<or> vregno \<noteq> regno then codes_for vs name t regno code
       else if 0 \<le> regval \<and> nat regval < length code
       then codes_for vs name t regno (code[nat regval := Some c])
       else None
     }"

definition regbit_tests :: "string \<Rightarrow> variant_codes \<Rightarrow> nat \<Rightarrow> regtype \<Rightarrow> nat \<Rightarrow> nat \<Rightarrow> cstmt list option" where
  "regbit_tests regname code sz t code_size i =
     do {
       on \<leftarrow> output_regbit_code code sz t i True code_size;
       if on = [] then Some []
       else do { off \<leftarrow> output_regbit_code code sz t i False code_size; Some [If_bit regname i on off] }
     }"

text \<open>The bytes that are prefixes are assigned, by a switch over the segments.\<close>

definition set_prefixes :: "variant_codes \<Rightarrow> nat \<Rightarrow> nat \<Rightarrow> u8 list \<Rightarrow> bstmt list" where
  "set_prefixes code sz code_size c =
     map (\<lambda>b. let (a, k) = place code_size b in Set_byte a k (c ! b)) (filter (is_seg_prefix_byte code) [0..<sz])"

definition seg_prefix_present :: "variant_codes \<Rightarrow> nat \<Rightarrow> bool" where
  "seg_prefix_present code sz \<longleftrightarrow>
     list_ex (\<lambda>i. code ! i \<noteq> None \<and> list_ex (is_seg_prefix_byte code) [0..<sz]) [0..<NUM_SEGS]"

definition seg_switch :: "string \<Rightarrow> variant_codes \<Rightarrow> nat \<Rightarrow> nat \<Rightarrow> cstmt list" where
  "seg_switch regname code sz code_size =
     (if seg_prefix_present code sz
      then [Switch_on regname (map (map_option (set_prefixes code sz code_size)) (take NUM_SEGS code))]
      else [])"

definition output_regvar_code ::
    "(string \<times> u8 list) list \<Rightarrow> string \<Rightarrow> nat \<Rightarrow> regtype \<Rightarrow> int \<Rightarrow> nat \<Rightarrow> cstmt list option" where
  "output_regvar_code variants name sz t regno code_size =
     do {
       (_, num_regbits) \<leftarrow> is_power_of_two (of_nat NUM_REGS);
       regname \<leftarrow> var_name t regno;
       code \<leftarrow> codes_for variants name t regno (replicate NUM_REGS None);
       tests \<leftarrow> collect (regbit_tests regname code sz t code_size) [0..<num_regbits];
       Some (tests @ (if t = REGTYPE_SEG then seg_switch regname code sz code_size else []))
     }"

text \<open>
  One variable after the other, in the order of their first variants. The hash table holds the
  variables that are done.
\<close>

fun regvars_loop ::
    "(string \<times> u8 list) list \<Rightarrow> (string \<times> u8 list) list \<Rightarrow> string \<Rightarrow> nat \<Rightarrow> nat \<Rightarrow> (regtype \<times> int) list \<Rightarrow>
     cstmt list option" where
  "regvars_loop variants [] name sz code_size seen = Some []"
| "regvars_loop variants ((vname, c) # vs) name sz code_size seen =
     (if length c \<noteq> sz then None
      else do {
        (t, regno, _) \<leftarrow> parse_vname vname name;
        if (t, regno) \<in> set seen then regvars_loop variants vs name sz code_size seen
        else do {
          ss \<leftarrow> output_regvar_code variants name sz t regno code_size;
          rest \<leftarrow> regvars_loop variants vs name sz code_size ((t, regno) # seen);
          Some (ss @ rest)
        }
      })"

definition output_register_variable_code ::
    "(string \<times> u8 list) list \<Rightarrow> string \<Rightarrow> nat \<Rightarrow> nat \<Rightarrow> cstmt list option" where
  "output_register_variable_code variants name sz code_size =
     regvars_loop variants variants name sz code_size []"

section \<open>Entries\<close>

text \<open>
  The offset of each edge in the code of an entry, 16 bits wide; the last of the symbols in the
  entry counts, and 0xffff stands for no edge.
\<close>

definition edge_str :: "nat \<Rightarrow> string" where "edge_str edgenum = ''.edge'' @ show_dec edgenum"

definition in_entry :: "elf_sym \<Rightarrow> nat \<Rightarrow> elf_sym \<Rightarrow> bool" where
  "in_entry entry entry_size s \<longleftrightarrow>
     st_value entry \<le> st_value s \<and> st_value s < st_value entry + of_nat entry_size"

definition edge_offset :: "sym_sort \<Rightarrow> object_file \<Rightarrow> elf_sym \<Rightarrow> nat \<Rightarrow> nat \<Rightarrow> u16" where
  "edge_offset srt obj entry entry_size edgenum =
     fold (\<lambda>s off. ucast (st_value s - st_value entry))
       (filter (in_entry entry entry_size) (get_symtab_entries srt obj (edge_str edgenum))) 0xffff"

definition output_edge_offsets :: "sym_sort \<Rightarrow> object_file \<Rightarrow> elf_sym \<Rightarrow> nat \<Rightarrow> u16 list" where
  "output_edge_offsets srt obj entry entry_size =
     map (edge_offset srt obj entry entry_size) [0, 1, 2]"

text \<open>The end of the code: the first edge, or 0xffff.\<close>

definition first_edge :: "u16 list \<Rightarrow> nat" where
  "first_edge edges = fold (\<lambda>e n. if e \<noteq> 0xffff \<and> n > unat e then unat e else n) edges 0xffff"

definition edge_targets :: "u16 list \<Rightarrow> nat \<Rightarrow> cstmt list" where
  "edge_targets edges code_size =
     concat (map2 (\<lambda>v e. if e \<noteq> 0xffff then [Set_ptr v gen_edge_ptr (int (unat e) - int code_size)] else [])
       [''target_C0'', ''tc_next_eip'', ''end_Block''] edges)"

text \<open>
  The entry itself and the entries behind it whose names go on with an underscore; behind the
  last entry the loop reads outside the array.
\<close>

fun get_num_variants_loop :: "string \<Rightarrow> elf_sym list \<Rightarrow> nat \<Rightarrow> nat option" where
  "get_num_variants_loop name [] n = None"
| "get_num_variants_loop name (s # ss) n =
     (if starts (st_name s) (name @ ''_'') then get_num_variants_loop name ss (n + 1) else Some n)"

definition get_num_variants :: "elf_sym list \<Rightarrow> string \<Rightarrow> nat option" where
  "get_num_variants entries name = get_num_variants_loop name (tl entries) 1"

text \<open>The names and codes of \<open>n\<close> entries.\<close>

fun entry_codes :: "object_file \<Rightarrow> elf_sym list \<Rightarrow> nat \<Rightarrow> (string \<times> u8 list) list option" where
  "entry_codes obj (s # s' # ss) (Suc n) =
     do {
       c \<leftarrow> text_bytes obj (st_value s) (sym_size s s');
       cs \<leftarrow> entry_codes obj (s' # ss) n;
       Some ((st_name s, c) # cs)
     }"
| "entry_codes obj ss 0 = Some []"
| "entry_codes obj ss (Suc n) = None"

text \<open>
  The number of entries that are done, the bytes of the entry, which go to an assembly file, and
  the statements. An entry without code is done with nothing, and counts as no entry at all.
\<close>

definition output_gencode_for_entry ::
    "object_file \<Rightarrow> elf_sym list \<Rightarrow> assignments \<Rightarrow> nat \<Rightarrow> (nat \<times> u8 list \<times> cstmt list) option" where
  "output_gencode_for_entry obj entries as code_size =
     (let s = entries ! 0; s' = entries ! 1; sz = sym_size s s'; name = st_name s in
      if sz = 0 then Some (0, [], [])
      else if code_size \<noteq> 0xffff \<and> code_size \<ge> sz then None
      else
        let code_size = (if code_size = 0xffff then sz else code_size); edge_size = sz - code_size in
        do {
          num_variants \<leftarrow> get_num_variants entries name;
          codes \<leftarrow> entry_codes obj entries num_variants;
          joFF \<leftarrow> output_joFF_values obj s s' as code_size;
          regs \<leftarrow> output_register_variable_code (tl codes) name sz code_size;
          consts \<leftarrow> output_constant_variable_code obj s s' as code_size;
          Some (num_variants, snd (hd codes),
            [Memcpy gen_code_ptr name 0 code_size] @
            (if edge_size \<noteq> 0 then [Memcpy gen_edge_ptr name code_size edge_size] else []) @
            joFF @ regs @ consts @ [Advance gen_code_ptr code_size] @
            (if edge_size \<noteq> 0 then [Advance gen_edge_ptr edge_size] else []))
        })"

text \<open>The parameters are read in the order of the variables.\<close>

fun take_params :: "assignments \<Rightarrow> cstmt list option" where
  "take_params [] = Some []"
| "take_params ((var, v) # as) =
     do {
       opstr \<leftarrow> operand2str var;
       rest \<leftarrow> take_params as;
       Some (Take_param (if char_at opstr 0 = CHR ''%'' then tl opstr else opstr) # rest)
     }"

text \<open>A case of the switch over the labels.\<close>

record gen_case =
  gc_name :: string
  gc_code :: "u8 list"
  gc_body :: "cstmt list"

definition gen_case_for ::
    "sym_sort \<Rightarrow> object_file \<Rightarrow> elf_sym list \<Rightarrow> assignments \<Rightarrow> (nat \<times> gen_case) option" where
  "gen_case_for srt obj entries as =
     (let s = entries ! 0; s' = entries ! 1; sz = sym_size s s';
          edges = output_edge_offsets srt obj s sz; code_size = first_edge edges in
      do {
        params \<leftarrow> take_params as;
        (num_variants, bytes, body) \<leftarrow> output_gencode_for_entry obj entries as code_size;
        Some (num_variants,
          \<lparr>gc_name = st_name s, gc_code = bytes, gc_body = params @ edge_targets edges code_size @ body\<rparr>)
      })"

section \<open>The file\<close>

text \<open>
  The loop over the entries; it goes on by the number of entries that are done, and does not end
  when that is none. \<open>vars\<close> is the file of the variables.
\<close>

partial_function (option) gencode_loop ::
    "sym_sort \<Rightarrow> object_file \<Rightarrow> elf_sym list \<Rightarrow> string \<Rightarrow> gen_case list option option" where
  "gencode_loop srt obj entries vars =
     (if length entries \<le> 1 then Some (Some [])
      else
        case read_assignments vars (st_name (entries ! 0)) of
          None \<Rightarrow> Some None
        | Some (as, vars) \<Rightarrow>
            (case gen_case_for srt obj entries as of
               None \<Rightarrow> Some None
             | Some (num_variants, c) \<Rightarrow>
                 Option.bind (gencode_loop srt obj (drop num_variants entries) vars)
                   (\<lambda>cs. Some (map_option (Cons c) cs))))"

definition output_gencode :: "sym_sort \<Rightarrow> object_file \<Rightarrow> string \<Rightarrow> gen_case list option option" where
  "output_gencode srt obj vars = gencode_loop srt obj (get_symtab_entries srt obj PEEP_PREFIX_STR) vars"

text \<open>The text of a case and the lines of the assembly file with its bytes.\<close>

definition case_body_text :: "gen_case \<Rightarrow> string" where
  "case_body_text c =
     ''case '' @ gc_name c @ '': {'' @ nl @ ''  void '' @ gc_name c @ ''_code(void);'' @ nl @
     concat (map cstmt_text (gc_body c)) @ ''}'' @ nl @ ''break;'' @ nl @ nl"

text \<open>The format \<^verbatim>\<open>%#x\<close>, which has no prefix for zero.\<close>

definition alt_hex :: "u8 \<Rightarrow> string" where
  "alt_hex x = (if x = 0 then ''0'' else ''0x'' @ show_hex (unat x))"

fun byte_list :: "u8 list \<Rightarrow> string" where
  "byte_list [] = []"
| "byte_list [b] = alt_hex b @ nl"
| "byte_list (b # b' # bs) = alt_hex b @ '','' @ byte_list (b' # bs)"

definition code_bytes_text :: "gen_case \<Rightarrow> string" where
  "code_bytes_text c =
     (if gc_code c = [] then []
      else ''.global '' @ gc_name c @ ''_code'' @ nl @ gc_name c @ ''_code:'' @ nl @ ''.byte '' @ byte_list (gc_code c))"

end
