(* ===== verification/Gen_Exec.thy ===== *)
theory Gen_Exec
  imports Gen_Code
begin

text \<open>
  The meaning of the statements the generator prints into \<^verbatim>\<open>peepgen_code\<close>, and the function
  they make up: what it appends to the code and to the edge code for a label and its parameters.
  The state holds the local variables, the parameters not read yet, the bytes that are written
  at each of the two pointers and how far each pointer was moved. \<open>None\<close> is an access outside
  these bytes, a variable without a value, or one that is not declared. \<^verbatim>\<open>ABORT\<close> in the module
  prints a message and goes on.
\<close>

section \<open>State\<close>

record cenv =
  ce_optr :: u32
  ce_eptr :: u32
  ce_extern :: "string \<Rightarrow> u32"
  ce_bytes :: "string \<Rightarrow> u8 list"

record cstate =
  cs_vars :: "string \<Rightarrow> u32 option"
  cs_params :: "int list"
  cs_code :: "u8 list"
  cs_edge :: "u8 list"
  cs_coff :: nat
  cs_eoff :: nat
  cs_clears :: bool

fun cs_mem :: "area \<Rightarrow> cstate \<Rightarrow> u8 list" where
  "cs_mem gen_code_ptr st = cs_code st"
| "cs_mem gen_edge_ptr st = cs_edge st"

fun set_mem :: "area \<Rightarrow> u8 list \<Rightarrow> cstate \<Rightarrow> cstate" where
  "set_mem gen_code_ptr bs st = st\<lparr>cs_code := bs\<rparr>"
| "set_mem gen_edge_ptr bs st = st\<lparr>cs_edge := bs\<rparr>"

fun cs_off :: "area \<Rightarrow> cstate \<Rightarrow> nat" where
  "cs_off gen_code_ptr st = cs_coff st"
| "cs_off gen_edge_ptr st = cs_eoff st"

fun advance :: "area \<Rightarrow> nat \<Rightarrow> cstate \<Rightarrow> cstate" where
  "advance gen_code_ptr n st = st\<lparr>cs_coff := cs_coff st + n\<rparr>"
| "advance gen_edge_ptr n st = st\<lparr>cs_eoff := cs_eoff st + n\<rparr>"

fun pointer :: "cenv \<Rightarrow> area \<Rightarrow> cstate \<Rightarrow> u32" where
  "pointer env gen_code_ptr st = ce_optr env + of_nat (cs_coff st)"
| "pointer env gen_edge_ptr st = ce_eptr env + of_nat (cs_eoff st)"

text \<open>The local variables that are declared; those of the second list start as -1.\<close>

definition unset_locals :: "string list" where
  "unset_locals =
     [''joFF0'', ''joFF1'', ''joFF2'', ''C0'', ''C1'', ''C2'', ''target_C0'', ''tc_next_eip'', ''end_Block'',
      ''edge1_end'', ''edge2_end'']"

definition set_locals :: "string list" where
  "set_locals = [''vr0d'', ''vr1d'', ''vr2d'', ''vseg0'', ''tr0d'', ''tr1d'', ''tr2d'']"

definition start_vars :: "u32 \<Rightarrow> string \<Rightarrow> u32 option" where
  "start_vars fallthrough_addr v =
     (if v \<in> set set_locals then Some (- 1) else if v = ''fallthrough_addr'' then Some fallthrough_addr else None)"

definition is_local :: "string \<Rightarrow> bool" where
  "is_local v \<longleftrightarrow> v \<in> set unset_locals \<or> v \<in> set set_locals \<or> v = ''fallthrough_addr''"

text \<open>
  The value of a name. The addresses of functions and data of the module are given, as are the
  locals that hold such addresses.
\<close>

definition eval_name :: "cenv \<Rightarrow> string \<Rightarrow> cstate \<Rightarrow> u32 option" where
  "eval_name env v st =
     (if v = ''gen_code_ptr'' then Some (pointer env gen_code_ptr st)
      else if v = ''gen_edge_ptr'' then Some (pointer env gen_edge_ptr st)
      else if is_local v then cs_vars st v
      else Some (ce_extern env v))"

definition set_var :: "string \<Rightarrow> u32 \<Rightarrow> cstate \<Rightarrow> cstate option" where
  "set_var v x st = (if is_local v then Some (st\<lparr>cs_vars := (cs_vars st)(v := Some x)\<rparr>) else None)"

section \<open>Memory\<close>

definition put_bytes :: "nat \<Rightarrow> 'a list \<Rightarrow> 'a list \<Rightarrow> 'a list" where
  "put_bytes n bs xs = take n xs @ bs @ drop (n + length bs) xs"

definition store_bytes :: "area \<Rightarrow> int \<Rightarrow> u8 list \<Rightarrow> cstate \<Rightarrow> cstate option" where
  "store_bytes a k bs st =
     (if 0 \<le> k \<and> cs_off a st + nat k + length bs \<le> length (cs_mem a st)
      then Some (set_mem a (put_bytes (cs_off a st + nat k) bs (cs_mem a st)) st) else None)"

definition copy_bytes :: "area \<Rightarrow> u8 list \<Rightarrow> cstate \<Rightarrow> cstate option" where
  "copy_bytes a bs st =
     (if cs_off a st \<le> length (cs_mem a st) then Some (set_mem a (put_bytes (cs_off a st) bs (cs_mem a st)) st)
      else None)"

definition bytes32 :: "u32 \<Rightarrow> u8 list" where
  "bytes32 x = map (\<lambda>i. ucast (drop_bit (8 * i) x)) [0..<4]"

definition bytes16 :: "u32 \<Rightarrow> u8 list" where
  "bytes16 x = map (\<lambda>i. ucast (drop_bit (8 * i) x)) [0..<2]"

definition change_byte :: "area \<Rightarrow> nat \<Rightarrow> (u8 \<Rightarrow> u8) \<Rightarrow> cstate \<Rightarrow> cstate option" where
  "change_byte a k f st =
     (let p = cs_off a st + k in
      if p < length (cs_mem a st) then Some (set_mem a ((cs_mem a st)[p := f (cs_mem a st ! p)]) st) else None)"

section \<open>Execution\<close>

fun run_bstmt :: "bstmt \<Rightarrow> cstate \<Rightarrow> cstate option" where
  "run_bstmt (Or_byte a k x) st = change_byte a k (\<lambda>y. y OR x) st"
| "run_bstmt (And_not_byte a k x) st = change_byte a k (\<lambda>y. y AND NOT x) st"
| "run_bstmt (Set_byte a k x) st = change_byte a k (\<lambda>_. x) st"

fun run_all :: "('s \<Rightarrow> 'c \<Rightarrow> 'c option) \<Rightarrow> 's list \<Rightarrow> 'c \<Rightarrow> 'c option" where
  "run_all f [] st = Some st"
| "run_all f (s # ss) st = do { st \<leftarrow> f s st; run_all f ss st }"

fun exec :: "cenv \<Rightarrow> cstmt \<Rightarrow> cstate \<Rightarrow> cstate option" where
  "exec env (Memcpy a name from n) st =
     (if from + n \<le> length (ce_bytes env name) then copy_bytes a (take n (drop from (ce_bytes env name))) st else None)"
| "exec env (Take_param v) st =
     (case cs_params st of [] \<Rightarrow> None | p # ps \<Rightarrow> set_var v (of_int p) (st\<lparr>cs_params := ps\<rparr>))"
| "exec env (Set_ptr v a k) st = set_var v (pointer env a st + of_int k) st"
| "exec env (Set_plus4 v w) st = do { x \<leftarrow> eval_name env w st; set_var v (x + 4) st }"
| "exec env Clear_terminating st = Some (st\<lparr>cs_clears := True\<rparr>)"
| "exec env (Store32 a k s addend) st =
     do { x \<leftarrow> eval_name env s st; store_bytes a k (bytes32 (x + addend)) st }"
| "exec env (Store16 a k s addend) st =
     do { x \<leftarrow> eval_name env s st; store_bytes a k (bytes16 (x + addend)) st }"
| "exec env (Store_pc32 a k s addend) st =
     do {
       x \<leftarrow> eval_name env s st;
       store_bytes a k (bytes32 (x - (pointer env a st + of_int k) + addend)) st
     }"
| "exec env (If_bit v i ss ts) st =
     do { x \<leftarrow> eval_name env v st; run_all run_bstmt (if bit x i then ss else ts) st }"
| "exec env (Switch_on v cs) st =
     do {
       x \<leftarrow> eval_name env v st;
       if unat x < length cs then (case cs ! unat x of Some ss \<Rightarrow> run_all run_bstmt ss st | None \<Rightarrow> Some st)
       else Some st
     }"
| "exec env (Advance a n) st = Some (advance a n st)"

section \<open>The generated function\<close>

definition start_state :: "int list \<Rightarrow> u32 \<Rightarrow> cstate" where
  "start_state params fallthrough_addr =
     \<lparr>cs_vars = start_vars fallthrough_addr, cs_params = params, cs_code = [], cs_edge = [],
      cs_coff = 0, cs_eoff = 0, cs_clears = False\<rparr>"

text \<open>What lies before the pointers at the end, and whether \<^verbatim>\<open>*is_terminating\<close> was cleared.\<close>

definition appended :: "cstate \<Rightarrow> u8 list \<times> u8 list \<times> bool" where
  "appended st = (take (cs_coff st) (cs_code st), take (cs_eoff st) (cs_edge st), cs_clears st)"

text \<open>The bytes that an entry's \<^verbatim>\<open>_code\<close> symbol stands for in the assembly file.\<close>

definition code_of :: "gen_case list \<Rightarrow> string \<Rightarrow> u8 list" where
  "code_of cases name = (case find (\<lambda>c. gc_name c = name) cases of Some c \<Rightarrow> gc_code c | None \<Rightarrow> [])"

definition run_case ::
    "gen_case list \<Rightarrow> (string \<Rightarrow> u32) \<Rightarrow> gen_case \<Rightarrow> int list \<Rightarrow> u32 \<Rightarrow> u32 \<Rightarrow> u32 \<Rightarrow> cstate option" where
  "run_case cases extern c params o_ptr e_ptr fallthrough_addr =
     run_all (exec \<lparr>ce_optr = o_ptr, ce_eptr = e_ptr, ce_extern = extern, ce_bytes = code_of cases\<rparr>)
       (gc_body c) (start_state params fallthrough_addr)"

text \<open>
  \<open>number\<close> is the enumeration of the labels; a label without a case appends nothing. A run that
  leaves defined behaviour is given an empty result.
\<close>

definition generated ::
    "gen_case list \<Rightarrow> (string \<Rightarrow> int) \<Rightarrow> (string \<Rightarrow> u32) \<Rightarrow> int \<Rightarrow> int list \<Rightarrow> u32 \<Rightarrow> u32 \<Rightarrow> u32 \<Rightarrow>
     u8 list \<times> u8 list \<times> bool" where
  "generated cases number extern label params o_ptr e_ptr fallthrough_addr =
     (case find (\<lambda>c. number (gc_name c) = label) cases of
        None \<Rightarrow> ([], [], False)
      | Some c \<Rightarrow>
          (case run_case cases extern c params o_ptr e_ptr fallthrough_addr of
             None \<Rightarrow> ([], [], False)
           | Some st \<Rightarrow> appended st))"

end
