(* ===== verification/Gen_Regs.thy ===== *)
theory Gen_Regs
  imports Gen_Exec
begin

text \<open>
  The statements that the generator prints for the register and segment variables of a rule:
  run on the code of one choice of registers, they turn it into the code of another choice.
\<close>

section \<open>The output as one list\<close>

definition out :: "cstate \<Rightarrow> u8 list" where "out st = cs_code st @ cs_edge st"

definition laid_out :: "nat \<Rightarrow> nat \<Rightarrow> cstate \<Rightarrow> bool" where
  "laid_out cs sz st \<longleftrightarrow> cs \<le> sz \<and> length (cs_code st) = cs \<and> length (cs_edge st) = sz - cs \<and>
     cs_coff st = 0 \<and> cs_eoff st = 0"

definition set_out :: "nat \<Rightarrow> u8 list \<Rightarrow> cstate \<Rightarrow> cstate" where
  "set_out cs bs st = st\<lparr>cs_code := take cs bs, cs_edge := drop cs bs\<rparr>"

lemma length_out: "laid_out cs sz st \<Longrightarrow> length (out st) = sz"
  by (simp add: laid_out_def out_def)

lemma out_set_out [simp]: "out (set_out cs bs st) = bs"
  by (simp add: out_def set_out_def)

lemma set_out_twice [simp]: "set_out cs bs (set_out cs bs' st) = set_out cs bs st"
  by (simp add: set_out_def)

lemma set_out_same: "laid_out cs sz st \<Longrightarrow> set_out cs (out st) st = st"
  by (simp add: laid_out_def out_def set_out_def)

lemma laid_out_set_out [simp]: "laid_out cs sz st \<Longrightarrow> length bs = sz \<Longrightarrow> laid_out cs sz (set_out cs bs st)"
  by (simp add: laid_out_def set_out_def)

lemma set_out_fields [simp]:
  "cs_vars (set_out cs bs st) = cs_vars st" "cs_params (set_out cs bs st) = cs_params st"
  "cs_clears (set_out cs bs st) = cs_clears st" "cs_coff (set_out cs bs st) = cs_coff st"
  "cs_eoff (set_out cs bs st) = cs_eoff st"
  by (simp_all add: set_out_def)

lemma eval_set_out [simp]: "eval_name env v (set_out cs bs st) = eval_name env v st"
  by (simp add: eval_name_def)

lemma change_byte_place:
  assumes "laid_out cs sz st" and "b < sz" and "place cs b = (a, k)"
  shows "change_byte a k f st = Some (set_out cs ((out st)[b := f (out st ! b)]) st)"
  using assms by (auto simp: place_def change_byte_def laid_out_def set_out_def out_def nth_append
      list_update_append split: if_splits)

lemma run_all_append: "run_all f (xs @ ys) st = Option.bind (run_all f xs st) (run_all f ys)"
  by (induction xs arbitrary: st) (simp_all split: bind_splits)

section \<open>One bit of a variable\<close>

text \<open>What the statements for one bit do to a byte.\<close>

definition bit_byte :: "variant_codes \<Rightarrow> regtype \<Rightarrow> nat \<Rightarrow> bool \<Rightarrow> nat \<Rightarrow> u8 \<Rightarrow> u8" where
  "bit_byte code t i on b v =
     (if is_identical_byte code b \<or> (t = REGTYPE_SEG \<and> is_seg_prefix_byte code b) then v
      else case regbit_pair code 3 i of
             None \<Rightarrow> v
           | Some (c_set, c_reset) \<Rightarrow>
               if on then v OR (c_set ! b XOR c_reset ! b) else v AND NOT (c_set ! b XOR c_reset ! b))"

lemma num_regbits: "is_power_of_two (of_nat NUM_REGS) = Some (True, 3)"
  by code_simp

lemma run_regbit_stmts:
  assumes "regbit_stmts code t 3 i on cs bs = Some ss" and "laid_out cs sz st" and "\<forall>b\<in>set bs. b < sz"
  shows "run_all run_bstmt ss st =
    Some (set_out cs (fold (\<lambda>b xs. xs[b := bit_byte code t i on b (xs ! b)]) bs (out st)) st)"
  using assms
proof (induction bs arbitrary: ss st)
  case Nil
  then show ?case by (simp add: set_out_same)
next
  case (Cons b bs)
  let ?skip = "is_identical_byte code b \<or> (t = REGTYPE_SEG \<and> is_seg_prefix_byte code b)"
  have b: "b < sz" "b < length (out st)" using Cons.prems length_out by auto
  show ?case
  proof (cases ?skip)
    case True
    then show ?thesis using Cons by (simp add: bit_byte_def)
  next
    case False
    from Cons.prems(1) False obtain c_set c_reset where p: "regbit_pair code 3 i = Some (c_set, c_reset)"
      by (auto split: option.splits)
    obtain a k where ak: "place cs b = (a, k)" by fastforce
    let ?x = "c_set ! b XOR c_reset ! b"
    from Cons.prems(1) False p ak obtain ss' where ss': "regbit_stmts code t 3 i on cs bs = Some ss'"
      and ss: "ss = (if ?x \<noteq> 0 then [if on then Or_byte a k ?x else And_not_byte a k ?x] else []) @ ss'"
      by (auto simp: Let_def split: option.splits bind_splits)
    let ?st = "set_out cs ((out st)[b := bit_byte code t i on b (out st ! b)]) st"
    have l: "laid_out cs sz ?st" using Cons.prems(2) length_out by simp
    have "run_all run_bstmt ss st = run_all run_bstmt ss' ?st"
    proof (cases "?x = 0")
      case True
      then have "bit_byte code t i on b (out st ! b) = out st ! b"
        using False p by (simp add: bit_byte_def split: option.splits)
      then show ?thesis using ss True set_out_same [OF Cons.prems(2)] by (simp add: list_update_id)
    next
      case False
      note change = change_byte_place [OF Cons.prems(2) b(1) ak]
      show ?thesis using ss False \<open>\<not> ?skip\<close> p by (auto simp: change bit_byte_def)
    qed
    then show ?thesis using Cons.IH [OF ss' l] Cons.prems(3) by simp
  qed
qed

lemma fold_update_map:
  assumes "length o1 = n" and "k \<le> n"
  shows "fold (\<lambda>b xs. xs[b := f b (xs ! b)]) [0..<k] o1 = map (\<lambda>b. if b < k then f b (o1 ! b) else o1 ! b) [0..<n]"
  using assms(2)
proof (induction k)
  case 0
  show ?case using assms(1) map_nth [of o1] by simp
next
  case (Suc k)
  then show ?case by (auto intro!: nth_equalityI simp: nth_list_update)
qed

lemma fold_update_all:
  "length o1 = n \<Longrightarrow> fold (\<lambda>b xs. xs[b := f b (xs ! b)]) [0..<n] o1 = map (\<lambda>b. f b (o1 ! b)) [0..<n]"
  by (rule trans [OF fold_update_map]) auto

lemma run_output_regbit_code:
  assumes "output_regbit_code code sz t i on cs = Some ss" and "ss \<noteq> []" and "laid_out cs sz st"
  shows "run_all run_bstmt ss st = Some (set_out cs (map (\<lambda>b. bit_byte code t i on b (out st ! b)) [0..<sz]) st)"
proof -
  have s: "regbit_stmts code t 3 i on cs [0..<sz] = Some ss"
    using assms(1,2) by (auto simp: output_regbit_code_def num_regbits split: option.splits)
  show ?thesis
    using run_regbit_stmts [OF s assms(3)] fold_update_all [OF length_out [OF assms(3)], of "bit_byte code t i on"] by simp
qed

text \<open>When there is nothing to do for a bit, no byte depends on it.\<close>

lemma xor_zero_iff: "(x :: u8) XOR y = 0 \<longleftrightarrow> x = y"
  by (metis xor_self_eq xor.left_neutral bit.xor_left_self xor.right_neutral)

definition fixed_byte :: "variant_codes \<Rightarrow> regtype \<Rightarrow> nat \<Rightarrow> bool" where
  "fixed_byte code t b \<longleftrightarrow> is_identical_byte code b \<or> (t = REGTYPE_SEG \<and> is_seg_prefix_byte code b)"

lemma regbit_stmts_Cons:
  "regbit_stmts code t n i on cs (b # bs) =
     (if fixed_byte code t b then regbit_stmts code t n i on cs bs
      else case regbit_pair code n i of
             None \<Rightarrow> None
           | Some p \<Rightarrow>
               map_option (append (if fst p ! b = snd p ! b then []
                   else let (a, k) = place cs b; x = fst p ! b XOR snd p ! b in
                        [if on then Or_byte a k x else And_not_byte a k x])) (regbit_stmts code t n i on cs bs))"
  by (cases "regbit_stmts code t n i on cs bs"; cases "place cs b")
    (simp_all add: fixed_byte_def xor_zero_iff Let_def split: option.split)

lemma regbit_stmts_None: "regbit_stmts code t 3 i on cs bs = None \<Longrightarrow> regbit_pair code 3 i = None"
proof (induction bs)
  case (Cons b bs)
  then show ?case by (cases "regbit_pair code 3 i") (auto simp: regbit_stmts_Cons simp del: regbit_stmts.simps split: if_splits)
qed simp

lemma regbit_stmts_None_iff:
  "regbit_stmts code t 3 i on cs bs = None \<longleftrightarrow> regbit_pair code 3 i = None \<and> (\<exists>b\<in>set bs. \<not> fixed_byte code t b)"
proof (induction bs)
  case (Cons b bs)
  then show ?case by (cases "regbit_pair code 3 i") (auto simp: regbit_stmts_Cons simp del: regbit_stmts.simps(2))
qed simp

lemma regbit_stmts_Nil:
  "regbit_stmts code t 3 i on cs bs = Some [] \<longleftrightarrow>
   (\<forall>b\<in>set bs. fixed_byte code t b \<or> (\<exists>p. regbit_pair code 3 i = Some p \<and> fst p ! b = snd p ! b))"
proof (induction bs)
  case (Cons b bs)
  obtain a k where "place cs b = (a, k)" by fastforce
  then show ?case using Cons
    by (cases "regbit_pair code 3 i") (auto simp: regbit_stmts_Cons Let_def simp del: regbit_stmts.simps(2))
qed simp

lemma output_regbit_code_Nil:
  "output_regbit_code code sz t i on cs = Some [] \<longleftrightarrow> output_regbit_code code sz t i True cs = Some []"
proof -
  have "(case x of None \<Rightarrow> [] | Some ss \<Rightarrow> ss) = [] \<longleftrightarrow> x = None \<or> x = Some []" for x :: "bstmt list option"
    by (cases x) auto
  then show ?thesis
    by (simp add: output_regbit_code_def num_regbits regbit_stmts_None_iff regbit_stmts_Nil)
qed

lemma bit_byte_Nil:
  assumes "output_regbit_code code sz t i on cs = Some []" and "b < sz"
  shows "bit_byte code t i on' b v = v"
proof (cases "regbit_stmts code t 3 i on cs [0..<sz]")
  case None
  then show ?thesis using regbit_stmts_None by (simp add: bit_byte_def)
next
  case (Some ss)
  then have "regbit_stmts code t 3 i on cs [0..<sz] = Some []"
    using assms(1) by (simp add: output_regbit_code_def num_regbits)
  then show ?thesis using assms(2) by (force simp: regbit_stmts_Nil bit_byte_def fixed_byte_def split: option.splits)
qed

lemma run_regbit_tests:
  assumes "regbit_tests regname code sz t cs i = Some ss" and "laid_out cs sz st"
    and "eval_name env regname st = Some x"
  shows "run_all (exec env) ss st =
    Some (set_out cs (map (\<lambda>b. bit_byte code t i (bit x i) b (out st ! b)) [0..<sz]) st)"
proof -
  obtain on where on: "output_regbit_code code sz t i True cs = Some on"
    using assms(1) by (auto simp: regbit_tests_def split: bind_splits)
  show ?thesis
  proof (cases "on = []")
    case True
    have "map (\<lambda>b. bit_byte code t i (bit x i) b (out st ! b)) [0..<sz] = map (\<lambda>b. out st ! b) [0..<sz]"
      by (rule map_cong) (use on True bit_byte_Nil in auto)
    also have "\<dots> = out st" using length_out [OF assms(2)] map_nth [of "out st"] by simp
    finally show ?thesis using assms(1) on True set_out_same [OF assms(2)] by (simp add: regbit_tests_def)
  next
    case False
    obtain off where off: "output_regbit_code code sz t i False cs = Some off" and ss: "ss = [If_bit regname i on off]"
      using assms(1) on False by (auto simp: regbit_tests_def split: bind_splits)
    have "off \<noteq> []" using off on False output_regbit_code_Nil [of code sz t i False cs] by auto
    then show ?thesis
      using ss assms(3) run_output_regbit_code [OF on False assms(2)] run_output_regbit_code [OF off _ assms(2)] by simp
  qed
qed

section \<open>The code as a function of the variable\<close>

text \<open>
  A variable of an entry: its kind, number and tag, and what a byte of the code holds for it:
  for most bytes one part for each bit of the register number, as the encoding of the machine
  has it, and for a segment prefix the prefix of the segment.
\<close>

record field =
  f_type :: regtype
  f_no :: int
  f_tag :: tag_t
  f_bits :: "nat \<Rightarrow> nat \<Rightarrow> u8"
  f_prefix :: "nat \<Rightarrow> bool"

definition num_values :: "regtype \<Rightarrow> nat" where
  "num_values t = (case t of REGTYPE_REG \<Rightarrow> NUM_REGS | REGTYPE_SEG \<Rightarrow> NUM_SEGS)"

definition allowed :: "regtype \<Rightarrow> tag_t \<Rightarrow> nat \<Rightarrow> bool" where
  "allowed t tag r \<longleftrightarrow> r < num_values t \<and> val_satisfies_tag r tag"

definition part :: "(nat \<Rightarrow> nat \<Rightarrow> u8) \<Rightarrow> nat \<Rightarrow> nat \<Rightarrow> nat \<Rightarrow> u8" where
  "part m r b i = (if bit r i then m i b else 0)"

definition field_val :: "field \<Rightarrow> nat \<Rightarrow> nat \<Rightarrow> u8" where
  "field_val f r b =
     (if f_prefix f b then prefix_bytes ! r
      else part (f_bits f) r b 0 OR part (f_bits f) r b 1 OR part (f_bits f) r b 2)"

definition field_mask :: "field \<Rightarrow> nat \<Rightarrow> u8" where
  "field_mask f b = (if f_prefix f b then - 1 else f_bits f 0 b OR f_bits f 1 b OR f_bits f 2 b)"

definition field_ok :: "field \<Rightarrow> nat \<Rightarrow> bool" where
  "field_ok f sz \<longleftrightarrow>
     (\<forall>b\<in>set [0..<sz]. f_bits f 0 b AND f_bits f 1 b = 0 \<and> f_bits f 0 b AND f_bits f 2 b = 0 \<and>
        f_bits f 1 b AND f_bits f 2 b = 0 \<and> (f_type f = REGTYPE_REG \<longrightarrow> \<not> f_prefix f b))"

text \<open>
  The codes of the variants: absent for values that are not allowed, else the rest \<open>w\<close> of the
  code with the part of the variable; no other byte is taken for a prefix.
\<close>

definition field_codes :: "field \<Rightarrow> (nat \<Rightarrow> u8) \<Rightarrow> nat \<Rightarrow> variant_codes \<Rightarrow> bool" where
  "field_codes f w sz code \<longleftrightarrow>
     length code = NUM_REGS \<and>
     (\<forall>r\<in>set [0..<NUM_REGS]. code ! r =
        (if allowed (f_type f) (f_tag f) r then Some (map (\<lambda>b. w b OR field_val f r b) [0..<sz]) else None)) \<and>
     (\<forall>b\<in>set [0..<sz]. w b AND field_mask f b = 0 \<and>
        (f_type f = REGTYPE_SEG \<longrightarrow> is_seg_prefix_byte code b = f_prefix f b))"

subsection \<open>Which bits the pairs show\<close>

text \<open>
  For each kind, tag and bit, two allowed values among the first six differ in that bit alone,
  one of them being 0 or a power of two, or all allowed values agree on the bit.
\<close>

definition pair_base :: "regtype \<Rightarrow> tag_t \<Rightarrow> nat \<Rightarrow> nat \<Rightarrow> bool" where
  "pair_base t tag i x \<longleftrightarrow> \<not> bit x i \<and> allowed t tag x \<and> allowed t tag (x + 2 ^ i)"

lemma tag_bits_check:
  "\<forall>t\<in>set [REGTYPE_REG, REGTYPE_SEG].
   \<forall>tag\<in>set [tag_const, tag_var, tag_eax, tag_abcd, tag_no_esp, tag_no_eax, tag_no_eax_esp, tag_no_cs_gs, tag_cs_gs].
   \<forall>i\<in>set [0, 1, 2].
     (\<exists>x\<in>set [0, 1, 2, 4]. pair_base t tag i x \<and> x + 2 ^ i < 6) \<or>
     (\<forall>x\<in>set [0, 1, 2, 4]. \<not> pair_base t tag i x) \<and>
     (\<forall>r\<in>set [0..<8]. \<forall>r'\<in>set [0..<8]. allowed t tag r \<longrightarrow> allowed t tag r' \<longrightarrow> bit r i = bit r' i)"
  by code_simp

definition bases :: "nat set" where "bases = {0, 1, 2, 4}"

lemma allowed_small: "allowed t tag r \<Longrightarrow> r < 8"
  by (cases t) (simp_all add: allowed_def num_values_def NUM_REGS_def NUM_SEGS_def)

lemma tag_bits:
  assumes "i < 3"
  shows "(\<exists>x\<in>bases. pair_base t tag i x \<and> x + 2 ^ i < 6) \<or>
    (\<forall>x\<in>bases. \<not> pair_base t tag i x) \<and> (\<forall>r r'. allowed t tag r \<longrightarrow> allowed t tag r' \<longrightarrow> bit r i = bit r' i)"
proof -
  have t: "t \<in> set [REGTYPE_REG, REGTYPE_SEG]" by (cases t) simp_all
  have tag: "tag \<in> set [tag_const, tag_var, tag_eax, tag_abcd, tag_no_esp, tag_no_eax, tag_no_eax_esp, tag_no_cs_gs, tag_cs_gs]"
    by (cases tag) simp_all
  have i: "i \<in> set [0, 1, 2]" using assms by auto
  have b: "bases = set [0, 1, 2, 4]" by (simp add: bases_def)
  have r: "allowed t tag r \<Longrightarrow> r \<in> set [0..<8]" for r using allowed_small by simp
  show ?thesis using tag_bits_check [THEN bspec, OF t, THEN bspec, OF tag, THEN bspec, OF i] r unfolding b by blast
qed

lemma add_bit:
  assumes "x \<in> bases" and "i < 3" and "\<not> bit x i"
  shows "bit (x + 2 ^ i) n \<longleftrightarrow> bit x n \<or> n = i"
proof -
  have "x + 2 ^ i = x OR 2 ^ i"
    by (rule disjunctive_add_eq_or) (use assms(3) in \<open>auto intro!: bit_eqI simp: bit_simps\<close>)
  then show ?thesis by (auto simp: bit_simps)
qed

lemma field_codes_Some:
  "field_codes f w sz code \<Longrightarrow> allowed (f_type f) (f_tag f) r \<Longrightarrow>
   code ! r = Some (map (\<lambda>b. w b OR field_val f r b) [0..<sz])"
  using allowed_small by (simp add: field_codes_def NUM_REGS_def)

lemma both_codes_iff:
  assumes "field_codes f w sz code" and "x < 8" and "y < 8"
  shows "both_codes code y x = Some p \<longleftrightarrow>
    allowed (f_type f) (f_tag f) x \<and> allowed (f_type f) (f_tag f) y \<and>
    p = (map (\<lambda>b. w b OR field_val f y b) [0..<sz], map (\<lambda>b. w b OR field_val f x b) [0..<sz])"
  using assms by (auto simp: field_codes_def both_codes_def NUM_REGS_def)

lemma small_base: "x \<in> bases \<Longrightarrow> i < 3 \<Longrightarrow> \<not> bit x i \<Longrightarrow> x < 8 \<and> x + 2 ^ i < 8"
proof -
  have "\<forall>x\<in>set [0, 1, 2, 4]. \<forall>i\<in>set [0, 1, 2]. \<not> bit (x::nat) i \<longrightarrow> x < 8 \<and> x + 2 ^ i < 8" by code_simp
  moreover assume "x \<in> bases" "i < 3" "\<not> bit x i"
  moreover from \<open>i < 3\<close> have "i \<in> set [0, 1, 2]" by auto
  ultimately show ?thesis unfolding bases_def by (metis list.simps(15) empty_set)
qed

lemma regbit_pair_Some:
  assumes "field_codes f w sz code" and "i < 3" and "regbit_pair code 3 i = Some p"
  shows "\<exists>x\<in>bases. pair_base (f_type f) (f_tag f) i x \<and>
    p = (map (\<lambda>b. w b OR field_val f (x + 2 ^ i) b) [0..<sz], map (\<lambda>b. w b OR field_val f x b) [0..<sz])"
proof (cases "both_codes code (2 ^ i) 0")
  case (Some q)
  have "(2::nat) ^ i < 8" using small_base [of 0 i] assms(2) by (simp add: bases_def)
  then show ?thesis using both_codes_iff [OF assms(1), of 0 "2 ^ i" q] Some assms(3)
    by (auto simp: regbit_pair_def bases_def pair_base_def)
next
  case None
  then obtain j where j: "j \<noteq> i" "j < 3" "both_codes code (2 ^ j + 2 ^ i) (2 ^ j) = Some p"
    using assms(3) by (auto simp: regbit_pair_def find_Some_iff split: option.splits)
  have b: "(2::nat) ^ j \<in> bases" using j(2) by (auto simp: bases_def numeral_3_eq_3 less_Suc_eq)
  have n: "\<not> bit ((2::nat) ^ j) i" using j(1) by (simp add: bit_simps)
  show ?thesis
    using both_codes_iff [OF assms(1), of "2 ^ j" "2 ^ j + 2 ^ i" p] small_base [OF b assms(2) n] j(3) b n
    by (auto simp: pair_base_def)
qed

lemma regbit_pair_None:
  assumes "field_codes f w sz code" and "i < 3" and "regbit_pair code 3 i = None" and "x \<in> bases"
  shows "\<not> pair_base (f_type f) (f_tag f) i x"
proof
  assume x: "pair_base (f_type f) (f_tag f) i x"
  then have s: "x < 8 \<and> x + 2 ^ i < 8" using small_base assms by (simp add: pair_base_def)
  have b: "both_codes code (x + 2 ^ i) x \<noteq> None"
    using both_codes_iff [OF assms(1) s [THEN conjunct1] s [THEN conjunct2]] x by (auto simp: pair_base_def)
  show False
  proof (cases "x = 0")
    case True
    then show ?thesis using b assms(3) by (simp add: regbit_pair_def split: option.splits)
  next
    case False
    then obtain j where j: "j < 3" "x = 2 ^ j" using assms(4) by (auto simp: bases_def intro: that [of 0] that [of 1] that [of 2])
    then have "j \<noteq> i" using x by (auto simp: pair_base_def bit_simps)
    then show ?thesis using b j assms(3)
      by (auto simp: regbit_pair_def find_None_iff find_Some_iff split: option.splits)
  qed
qed

subsection \<open>One byte\<close>

lemma and_zero_iff: "(x :: u8) AND y = 0 \<longleftrightarrow> (\<forall>n. bit x n \<longrightarrow> \<not> bit y n)"
proof
  assume "x AND y = 0"
  then have "bit (x AND y) n = bit (0 :: u8) n" for n by simp
  then show "\<forall>n. bit x n \<longrightarrow> \<not> bit y n" by (simp add: bit_simps)
next
  assume "\<forall>n. bit x n \<longrightarrow> \<not> bit y n"
  then show "x AND y = 0" by (intro bit_eqI) (simp add: bit_simps)
qed

text \<open>The parts of three bits, changed one after the other.\<close>

definition parts :: "(nat \<Rightarrow> u8) \<Rightarrow> (nat \<Rightarrow> bool) \<Rightarrow> u8" where
  "parts m p = (if p 0 then m 0 else 0) OR (if p 1 then m 1 else 0) OR (if p 2 then m 2 else 0)"

definition apart3 :: "(nat \<Rightarrow> u8) \<Rightarrow> bool" where
  "apart3 m \<longleftrightarrow> m 0 AND m 1 = 0 \<and> m 0 AND m 2 = 0 \<and> m 1 AND m 2 = 0"

definition change_part :: "(nat \<Rightarrow> u8) \<Rightarrow> (nat \<Rightarrow> bool) \<Rightarrow> (nat \<Rightarrow> bool) \<Rightarrow> nat \<Rightarrow> u8 \<Rightarrow> u8" where
  "change_part m known p i v = (if known i then (if p i then v OR m i else v AND NOT (m i)) else v)"

lemma bit_change_part:
  "n < LENGTH(8) \<Longrightarrow> bit (change_part m known p i v) n = (if known i \<and> bit (m i) n then p i else bit v n)"
  by (simp add: change_part_def bit_simps)

lemma bit_parts:
  "bit (parts m p) n \<longleftrightarrow> p 0 \<and> bit (m 0) n \<or> p 1 \<and> bit (m 1) n \<or> p 2 \<and> bit (m 2) n"
  by (simp add: parts_def bit_simps)

lemma change_parts:
  assumes "apart3 m" and "u AND (m 0 OR m 1 OR m 2) = 0" and "\<forall>i\<in>{0, 1, 2}. known i \<or> p i = q i"
  shows "change_part m known p 2 (change_part m known p 1 (change_part m known p 0 (u OR parts m q))) = u OR parts m p"
proof (rule bit_word_eqI)
  fix n
  have b: "bit (m 0) n \<longrightarrow> \<not> bit (m 1) n" "bit (m 0) n \<longrightarrow> \<not> bit (m 2) n" "bit (m 1) n \<longrightarrow> \<not> bit (m 2) n"
    using assms(1) by (simp_all add: apart3_def and_zero_iff)
  have "\<forall>n. bit u n \<longrightarrow> \<not> bit (m 0 OR m 1 OR m 2) n" using assms(2) by (simp only: and_zero_iff)
  then have u: "bit u n \<longrightarrow> \<not> bit (m 0) n \<and> \<not> bit (m 1) n \<and> \<not> bit (m 2) n" by (simp add: bit_simps)
  assume n: "n < LENGTH(8)"
  have q: "known 0 \<or> p 0 = q 0" "known 1 \<or> p 1 = q 1" "known 2 \<or> p 2 = q 2" using assms(3) by simp_all
  show "bit (change_part m known p 2 (change_part m known p 1 (change_part m known p 0 (u OR parts m q)))) n =
    bit (u OR parts m p) n"
    unfolding bit_change_part [OF n] bit_or_iff bit_parts using b u q by argo
qed

lemma field_val_parts: "\<not> f_prefix f b \<Longrightarrow> field_val f r b = parts (\<lambda>i. f_bits f i b) (\<lambda>i. bit r i)"
  by (simp add: field_val_def parts_def part_def)

lemma field_apart: "field_ok f sz \<Longrightarrow> b < sz \<Longrightarrow> apart3 (\<lambda>i. f_bits f i b)"
  by (simp add: field_ok_def apart3_def)

lemma field_codes_mask: "field_codes f w sz code \<Longrightarrow> b < sz \<Longrightarrow> w b AND field_mask f b = 0"
  by (simp add: field_codes_def)

lemma field_mask_parts: "\<not> f_prefix f b \<Longrightarrow> field_mask f b = f_bits f 0 b OR f_bits f 1 b OR f_bits f 2 b"
  by (simp add: field_mask_def)

lemma field_rest:
  "field_codes f w sz code \<Longrightarrow> b < sz \<Longrightarrow> \<not> f_prefix f b \<Longrightarrow>
   w b AND (f_bits f 0 b OR f_bits f 1 b OR f_bits f 2 b) = 0"
  using field_codes_mask [of f w sz code b] field_mask_parts [of f b] by metis

lemma parts_xor:
  assumes "apart3 m" and "u AND (m 0 OR m 1 OR m 2) = 0" and "i \<in> {0, 1, 2}" and "\<not> q i"
    and "\<And>n. p n \<longleftrightarrow> q n \<or> n = i"
  shows "(u OR parts m p) XOR (u OR parts m q) = m i"
proof (rule bit_word_eqI)
  fix n
  have b: "bit (m 0) n \<longrightarrow> \<not> bit (m 1) n" "bit (m 0) n \<longrightarrow> \<not> bit (m 2) n" "bit (m 1) n \<longrightarrow> \<not> bit (m 2) n"
    using assms(1) by (simp_all add: apart3_def and_zero_iff)
  have "\<forall>n. bit u n \<longrightarrow> \<not> bit (m 0 OR m 1 OR m 2) n" using assms(2) by (simp only: and_zero_iff)
  then have u: "bit u n \<longrightarrow> \<not> bit (m 0) n \<and> \<not> bit (m 1) n \<and> \<not> bit (m 2) n" by (simp add: bit_simps)
  assume "n < LENGTH(8)"
  then show "bit ((u OR parts m p) XOR (u OR parts m q)) n = bit (m i) n"
    using b u assms(3,4) by (auto simp: parts_def assms(5) bit_simps)
qed

lemma pair_xor:
  assumes "field_codes f w sz code" and "field_ok f sz" and "b < sz" and "\<not> f_prefix f b"
    and "x \<in> bases" and "i < 3" and "pair_base t tag i x"
  shows "(w b OR field_val f (x + 2 ^ i) b) XOR (w b OR field_val f x b) = f_bits f i b"
proof -
  have n: "\<not> bit x i" using assms(7) by (simp add: pair_base_def)
  have i: "i \<in> {0, 1, 2}" using assms(6) by auto
  show ?thesis
    unfolding field_val_parts [where f = f and b = b, OF assms(4)]
    by (rule parts_xor [OF field_apart [OF assms(2,3)] field_rest [OF assms(1,3,4)] i, where q = "bit x"])
      (rule n, rule add_bit [OF assms(5,6) n])
qed

lemma identical_bytesD:
  "identical_bytes (Some v) cs b \<Longrightarrow> Some c \<in> set cs \<Longrightarrow> c ! b = v"
  by (induction "Some v" cs b rule: identical_bytes.induct) (auto split: if_splits)

lemma identical_bytes_None:
  "identical_bytes None cs b \<Longrightarrow> \<exists>v. \<forall>c. Some c \<in> set cs \<longrightarrow> c ! b = v"
  by (induction "None :: u8 option" cs b rule: identical_bytes.induct) (auto dest: identical_bytesD)

lemma identical_same_val:
  assumes "field_codes f w sz code" and "field_ok f sz" and "b < sz" and "\<not> f_prefix f b"
    and "is_identical_byte code b" and "allowed (f_type f) (f_tag f) r" and "allowed (f_type f) (f_tag f) r'"
  shows "field_val f r b = field_val f r' b"
proof -
  obtain v where v: "\<forall>c. Some c \<in> set (take 6 code) \<longrightarrow> c ! b = v"
    using identical_bytes_None [of "take 6 code" b] assms(5) unfolding is_identical_byte_def NUM_SEGS_def by blast
  have code: "w b OR field_val f x b = v" if "allowed (f_type f) (f_tag f) x" "x < 6" for x
  proof -
    have "take 6 code ! x = code ! x" "x < length (take 6 code)" using that assms(1) by (simp_all add: field_codes_def NUM_REGS_def)
    then have "Some (map (\<lambda>b. w b OR field_val f x b) [0..<sz]) \<in> set (take 6 code)"
      using field_codes_Some [OF assms(1) that(1)] nth_mem by metis
    then show ?thesis using v assms(3) by fastforce
  qed
  have same: "part (f_bits f) r b i = part (f_bits f) r' b i" if i: "i < 3" for i
  proof (cases "\<exists>x\<in>bases. pair_base (f_type f) (f_tag f) i x \<and> x + 2 ^ i < 6")
    case True
    then obtain x where x: "x \<in> bases" "pair_base (f_type f) (f_tag f) i x" "x + 2 ^ i < 6" by blast
    have "w b OR field_val f (x + 2 ^ i) b = w b OR field_val f x b"
      using code [of x] code [of "x + 2 ^ i"] x(2,3) by (simp add: pair_base_def)
    then have "f_bits f i b = 0" using pair_xor [OF assms(1,2,3,4) x(1) i x(2)] by simp
    then show ?thesis by (simp add: part_def)
  next
    case False
    then show ?thesis using tag_bits [OF i, of "f_type f" "f_tag f"] assms(6,7) by (auto simp: part_def)
  qed
  then show ?thesis using same [of 0] same [of 1] same [of 2] assms(4) by (simp add: field_val_def)
qed

text \<open>A byte after the tests of the three bits.\<close>

definition bits_byte :: "variant_codes \<Rightarrow> regtype \<Rightarrow> nat \<Rightarrow> nat \<Rightarrow> u8 \<Rightarrow> u8" where
  "bits_byte code t r b v =
     bit_byte code t 2 (bit r 2) b (bit_byte code t 1 (bit r 1) b (bit_byte code t 0 (bit r 0) b v))"

lemma bits_byte_field:
  assumes "field_codes f w sz code" and "field_ok f sz" and "b < sz" and "\<not> f_prefix f b"
    and "allowed (f_type f) (f_tag f) r" and "allowed (f_type f) (f_tag f) r'" and "u AND field_mask f b = 0"
  shows "bits_byte code (f_type f) r b (u OR field_val f r' b) = u OR field_val f r b"
proof (cases "is_identical_byte code b")
  case True
  then show ?thesis using identical_same_val [OF assms(1-4) True assms(5,6)] by (simp add: bits_byte_def bit_byte_def)
next
  case False
  let ?known = "\<lambda>i. regbit_pair code 3 i \<noteq> None" and ?m = "\<lambda>i. f_bits f i b"
  have fixed: "\<not> (f_type f = REGTYPE_SEG \<and> is_seg_prefix_byte code b)"
    using assms(1,3,4) by (auto simp: field_codes_def)
  have step: "bit_byte code (f_type f) i (bit r i) b v = change_part ?m ?known (bit r) i v" if i: "i < 3" for i v
  proof (cases "regbit_pair code 3 i")
    case None
    then show ?thesis by (simp add: bit_byte_def change_part_def)
  next
    case (Some p)
    from regbit_pair_Some [OF assms(1) i Some] obtain x where x: "x \<in> bases" "pair_base (f_type f) (f_tag f) i x"
      and p: "p = (map (\<lambda>b. w b OR field_val f (x + 2 ^ i) b) [0..<sz], map (\<lambda>b. w b OR field_val f x b) [0..<sz])"
      by blast
    have "fst p ! b XOR snd p ! b = f_bits f i b"
      using pair_xor [OF assms(1-4) x(1) i x(2)] p assms(3) by simp
    then show ?thesis using Some False fixed by (cases p) (auto simp: bit_byte_def change_part_def)
  qed
  have known: "\<forall>i\<in>{0, 1, 2}. ?known i \<or> bit r i = bit r' i"
  proof
    fix i :: nat assume "i \<in> {0, 1, 2}"
    then have i: "i < 3" by auto
    show "?known i \<or> bit r i = bit r' i"
      using tag_bits [OF i, of "f_type f" "f_tag f"] regbit_pair_None [OF assms(1) i] assms(5,6) by blast
  qed
  have u: "u AND (?m 0 OR ?m 1 OR ?m 2) = 0" using assms(7) field_mask_parts [of f b] assms(4) by metis
  show ?thesis
    using change_parts [OF field_apart [OF assms(2,3)] u known]
    by (simp add: bits_byte_def step field_val_parts assms(4))
qed

subsection \<open>One variable\<close>

lemma collect_append: "collect f (xs @ ys) = Option.bind (collect f xs) (\<lambda>a. map_option (append a) (collect f ys))"
  by (induction xs) (auto split: bind_splits simp: map_option_case split: option.splits)

lemma collect3:
  "collect f [0..<3] = Some ss \<longleftrightarrow> (\<exists>a b c. f 0 = Some a \<and> f 1 = Some b \<and> f 2 = Some c \<and> ss = a @ b @ c)"
  by (auto simp: upt_rec numeral_3_eq_3 numeral_2_eq_2 split: bind_splits)

lemma map_of_map_nth: "map (\<lambda>b. f b (map g [0..<n] ! b)) [0..<n] = map (\<lambda>b. f b (g b)) [0..<n]"
  by (rule map_cong) auto

lemma run_three_tests:
  assumes "collect (regbit_tests regname code sz t cs) [0..<3] = Some ss" and "laid_out cs sz st"
    and "eval_name env regname st = Some (of_nat r)" and "r < 8"
  shows "run_all (exec env) ss st = Some (set_out cs (map (\<lambda>b. bits_byte code t r b (out st ! b)) [0..<sz]) st)"
proof -
  obtain a b c where abc: "regbit_tests regname code sz t cs 0 = Some a" "regbit_tests regname code sz t cs 1 = Some b"
      "regbit_tests regname code sz t cs 2 = Some c" and ss: "ss = a @ b @ c"
    using assms(1) by (auto simp: collect3)
  have "unat (of_nat r :: u32) = r" using assms(4) by (simp add: unat_of_nat)
  then have bit: "bit (of_nat r :: u32) i \<longleftrightarrow> bit r i" for i
    using bit_unsigned_iff [where 'a = nat and w = "of_nat r :: u32" and n = i] by simp
  let ?step = "\<lambda>i st. set_out cs (map (\<lambda>b. bit_byte code t i (bit r i) b (out st ! b)) [0..<sz]) st"
  have "run_all (exec env) a st = Some (?step 0 st)"
    using run_regbit_tests [OF abc(1) assms(2,3)] bit by simp
  moreover have "run_all (exec env) b (?step 0 st) = Some (?step 1 (?step 0 st))"
    using run_regbit_tests [OF abc(2), of "?step 0 st" env] assms(2,3) bit by simp
  moreover have "run_all (exec env) c (?step 1 (?step 0 st)) = Some (?step 2 (?step 1 (?step 0 st)))"
    using run_regbit_tests [OF abc(3), of "?step 1 (?step 0 st)" env] assms(2,3) bit by simp
  moreover have "?step 2 (?step 1 (?step 0 st)) = set_out cs (map (\<lambda>b. bits_byte code t r b (out st ! b)) [0..<sz]) st"
    unfolding bits_byte_def out_set_out set_out_twice
    by (rule arg_cong [where f = "\<lambda>x. set_out cs x st"]) (auto intro!: map_cong)
  ultimately show ?thesis by (simp only: ss run_all_append Option.bind.bind_lunit)
qed

lemma run_set_bytes:
  assumes "laid_out cs sz st" and "\<forall>b\<in>set bs. b < sz"
  shows "run_all run_bstmt (map (\<lambda>b. let (a, k) = place cs b in Set_byte a k (g b)) bs) st =
    Some (set_out cs (fold (\<lambda>b xs. xs[b := g b]) bs (out st)) st)"
  using assms
proof (induction bs arbitrary: st)
  case Nil
  then show ?case by (simp add: set_out_same)
next
  case (Cons b bs)
  obtain a k where ak: "place cs b = (a, k)" by fastforce
  have b: "b < sz" using Cons.prems(2) by simp
  have l: "laid_out cs sz (set_out cs ((out st)[b := g b]) st)" using Cons.prems(1) length_out by simp
  show ?case using Cons.IH [OF l] Cons.prems(2) change_byte_place [OF Cons.prems(1) b ak, of "\<lambda>_. g b"] ak by simp
qed

lemma fold_filter_update:
  assumes "length o1 = n"
  shows "fold (\<lambda>b xs. xs[b := g b]) (filter P [0..<n]) o1 = map (\<lambda>b. if P b then g b else o1 ! b) [0..<n]"
proof -
  have "(\<lambda>b. if P b then \<lambda>xs. xs[b := g b] else id) = (\<lambda>b xs. xs[b := (if P b then g b else xs ! b)])"
    by (auto simp: fun_eq_iff)
  then have "fold (\<lambda>b xs. xs[b := g b]) (filter P [0..<n]) o1 = fold (\<lambda>b xs. xs[b := (if P b then g b else xs ! b)]) [0..<n] o1"
    by (simp only: fold_filter)
  also have "\<dots> = map (\<lambda>b. if P b then g b else o1 ! b) [0..<n]"
    using fold_update_all [OF assms, of "\<lambda>b v. if P b then g b else v"] .
  finally show ?thesis .
qed

text \<open>The switch over the segments assigns the prefixes.\<close>

lemma run_seg_switch:
  assumes "laid_out cs sz st" and "eval_name env regname st = Some (of_nat r)" and "r < NUM_SEGS"
    and "length code = NUM_REGS" and "code ! r = Some c"
  shows "run_all (exec env) (seg_switch regname code sz cs) st =
    Some (set_out cs (map (\<lambda>b. if is_seg_prefix_byte code b then c ! b else out st ! b) [0..<sz]) st)"
proof (cases "seg_prefix_present code sz")
  case True
  have r: "unat (of_nat r :: u32) = r" using assms(3) by (simp add: unat_of_nat NUM_SEGS_def)
  have n: "r < length code" "NUM_SEGS \<le> length code" using assms(3,4) by (simp_all add: NUM_SEGS_def NUM_REGS_def)
  have "run_all (exec env) (seg_switch regname code sz cs) st = run_all run_bstmt (set_prefixes code sz cs c) st"
    using True assms(2,3,5) n r by (simp add: seg_switch_def split: bind_splits)
  also have "\<dots> = Some (set_out cs (fold (\<lambda>b xs. xs[b := c ! b]) (filter (is_seg_prefix_byte code) [0..<sz]) (out st)) st)"
    unfolding set_prefixes_def by (rule run_set_bytes [OF assms(1)]) auto
  also have "\<dots> = Some (set_out cs (map (\<lambda>b. if is_seg_prefix_byte code b then c ! b else out st ! b) [0..<sz]) st)"
    by (simp only: fold_filter_update [OF length_out [OF assms(1)]])
  finally show ?thesis .
next
  case False
  then have "\<not> is_seg_prefix_byte code b" if "b < sz" for b
    using that assms(3,5) by (auto simp: seg_prefix_present_def list_ex_iff)
  then have "map (\<lambda>b. if is_seg_prefix_byte code b then c ! b else out st ! b) [0..<sz] = map (\<lambda>b. out st ! b) [0..<sz]"
    by (intro map_cong) auto
  also have "\<dots> = out st" using length_out [OF assms(1)] map_nth [of "out st"] by simp
  finally show ?thesis using False set_out_same [OF assms(1)] by (simp add: seg_switch_def)
qed

lemma run_output_regvar_code:
  assumes gen: "output_regvar_code variants name sz (f_type f) (f_no f) cs = Some ss"
    and codes: "codes_for variants name (f_type f) (f_no f) (replicate NUM_REGS None) = Some code"
    and f: "field_codes f w sz code" "field_ok f sz"
    and st: "laid_out cs sz st" "var_name (f_type f) (f_no f) = Some nm" "eval_name env nm st = Some (of_nat r)"
    and r: "allowed (f_type f) (f_tag f) r" "allowed (f_type f) (f_tag f) r'"
    and out: "out st = map (\<lambda>b. u b OR field_val f r' b) [0..<sz]" "\<forall>b < sz. u b AND field_mask f b = 0"
  shows "run_all (exec env) ss st = Some (set_out cs (map (\<lambda>b. u b OR field_val f r b) [0..<sz]) st)"
proof -
  obtain tests where tests: "collect (regbit_tests nm code sz (f_type f) cs) [0..<3] = Some tests"
    and ss: "ss = tests @ (if f_type f = REGTYPE_SEG then seg_switch nm code sz cs else [])"
    using gen codes st(2) by (auto simp: output_regvar_code_def num_regbits split: bind_splits)
  let ?g = "\<lambda>b. bits_byte code (f_type f) r b (u b OR field_val f r' b)"
  have t: "run_all (exec env) tests st = Some (set_out cs (map ?g [0..<sz]) st)"
    using run_three_tests [OF tests st(1,3) allowed_small [OF r(1)]] map_of_map_nth [of "bits_byte code (f_type f) r"]
    by (simp add: out(1))
  have plain: "?g b = u b OR field_val f r b" if "b < sz" "\<not> f_prefix f b" for b
    using bits_byte_field [OF f that r, of "u b"] out(2) that(1) by simp
  show ?thesis
  proof (cases "f_type f")
    case REGTYPE_REG
    then have "\<not> f_prefix f b" if "b < sz" for b using f(2) that by (simp add: field_ok_def)
    then have eq: "map ?g [0..<sz] = map (\<lambda>b. u b OR field_val f r b) [0..<sz]" using plain by simp
    show ?thesis using t ss unfolding eq by (simp add: REGTYPE_REG)
  next
    case REGTYPE_SEG
    have pre: "is_seg_prefix_byte code b = f_prefix f b" if "b < sz" for b
      using f(1) that REGTYPE_SEG by (simp add: field_codes_def)
    have c: "code ! r = Some (map (\<lambda>b. w b OR field_val f r b) [0..<sz])" by (rule field_codes_Some [OF f(1) r(1)])
    have zero: "u b = 0 \<and> w b = 0" if "b < sz" "f_prefix f b" for b
      using out(2) [THEN spec, of b] field_codes_mask [OF f(1), of b] that by (simp add: field_mask_def)
    have l: "laid_out cs sz (set_out cs (map ?g [0..<sz]) st)" using st(1) by simp
    have rs: "r < NUM_SEGS" using r(1) REGTYPE_SEG by (simp add: allowed_def num_values_def)
    have len: "length code = NUM_REGS" using f(1) by (simp add: field_codes_def)
    have eq: "map (\<lambda>b. if is_seg_prefix_byte code b then map (\<lambda>b. w b OR field_val f r b) [0..<sz] ! b else map ?g [0..<sz] ! b) [0..<sz]
        = map (\<lambda>b. u b OR field_val f r b) [0..<sz]"
      by (rule map_cong) (use pre plain zero in auto)
    have ev: "eval_name env nm (set_out cs (map ?g [0..<sz]) st) = Some (of_nat r)" using st(3) by simp
    have "run_all (exec env) (seg_switch nm code sz cs) (set_out cs (map ?g [0..<sz]) st) =
        Some (set_out cs (map (\<lambda>b. u b OR field_val f r b) [0..<sz]) st)"
      using run_seg_switch [OF l ev rs len c] by (simp only: out_set_out set_out_twice eq)
    then show ?thesis using t by (simp add: ss REGTYPE_SEG run_all_append)
  qed
qed

section \<open>All variables of an entry\<close>

text \<open>The code of an entry whose variables have the values \<open>rs\<close>.\<close>

fun vals :: "field list \<Rightarrow> nat list \<Rightarrow> nat \<Rightarrow> u8" where
  "vals (f # fs) (r # rs) b = field_val f r b OR vals fs rs b"
| "vals _ _ b = 0"

definition entry_code :: "(nat \<Rightarrow> u8) \<Rightarrow> field list \<Rightarrow> nat list \<Rightarrow> nat \<Rightarrow> u8" where
  "entry_code base fs rs b = base b OR vals fs rs b"

lemma field_val_mask: "x AND field_mask f b = 0 \<Longrightarrow> x AND field_val f r b = 0"
  by (cases "f_prefix f b") (auto simp: field_val_def field_mask_def, auto simp: and_zero_iff part_def bit_simps)

lemma vals_mask: "\<forall>g\<in>set fs. field_mask f b AND field_mask g b = 0 \<Longrightarrow> vals fs rs b AND field_mask f b = 0"
proof (induction fs rs b rule: vals.induct)
  case (1 g fs r rs b)
  then have "field_mask f b AND field_val g r b = 0" using field_val_mask by simp
  moreover have "vals fs rs b AND field_mask f b = 0" using 1 by simp
  ultimately show ?case by (simp add: bit.conj_disj_distrib and.commute)
qed simp_all

lemma vals_split:
  "i < length fs \<Longrightarrow> length rs = length fs \<Longrightarrow>
   vals fs rs b = (vals (take i fs) (take i rs) b OR vals (drop (Suc i) fs) (drop (Suc i) rs) b) OR
     field_val (fs ! i) (rs ! i) b"
proof (induction fs rs b arbitrary: i rule: vals.induct)
  case (1 f fs r rs b)
  then show ?case by (cases i) (simp_all add: or.commute or.left_commute or.assoc)
qed simp_all

definition masks_apart :: "(nat \<Rightarrow> u8) \<Rightarrow> field list \<Rightarrow> nat \<Rightarrow> bool" where
  "masks_apart base fs sz \<longleftrightarrow>
     (\<forall>b\<in>set [0..<sz]. (\<forall>f\<in>set fs. base b AND field_mask f b = 0) \<and>
        sorted_wrt (\<lambda>f g. field_mask f b AND field_mask g b = 0) fs)"

text \<open>
  The variants of an entry: for each variable in turn its allowed values, the other variables as
  in the entry itself. The segment prefixes are at the bytes that hold prefixes.
\<close>

definition variants_of ::
    "(string \<times> u8 list) list \<Rightarrow> string \<Rightarrow> (nat \<Rightarrow> u8) \<Rightarrow> field list \<Rightarrow> nat list \<Rightarrow> nat \<Rightarrow> nat \<Rightarrow> bool" where
  "variants_of variants name base fs r0s sz i \<longleftrightarrow>
     (\<exists>code. codes_for variants name (f_type (fs ! i)) (f_no (fs ! i)) (replicate NUM_REGS None) = Some code \<and>
        length code = NUM_REGS \<and>
        (\<forall>r\<in>set [0..<NUM_REGS]. code ! r =
           (if allowed (f_type (fs ! i)) (f_tag (fs ! i)) r
            then Some (map (entry_code base fs (r0s[i := r])) [0..<sz]) else None)) \<and>
        (f_type (fs ! i) = REGTYPE_SEG \<longrightarrow>
           (\<forall>b\<in>set [0..<sz]. is_seg_prefix_byte code b = f_prefix (fs ! i) b)))"

text \<open>The variables in the order of their first variants.\<close>

fun var_keys :: "(string \<times> u8 list) list \<Rightarrow> string \<Rightarrow> (regtype \<times> int) list \<Rightarrow> (regtype \<times> int) list" where
  "var_keys [] name seen = []"
| "var_keys ((vname, c) # vs) name seen =
     (case parse_vname vname name of
        None \<Rightarrow> []
      | Some (t, regno, _) \<Rightarrow>
          if (t, regno) \<in> set seen then var_keys vs name seen else (t, regno) # var_keys vs name ((t, regno) # seen))"

lemma regvars_loop_keys:
  "regvars_loop variants vs name sz cs seen = Some ss \<Longrightarrow>
   collect (\<lambda>(t, n). output_regvar_code variants name sz t n cs) (var_keys vs name seen) = Some ss"
proof (induction variants vs name sz cs seen arbitrary: ss rule: regvars_loop.induct)
  case (2 variants vname c vs name sz cs seen)
  then show ?case
    by (cases "parse_vname vname name") (auto split: if_splits bind_splits prod.splits)
qed simp

lemma run_fields:
  assumes "collect (\<lambda>(t, n). output_regvar_code variants name sz t n cs) (map (\<lambda>f. (f_type f, f_no f)) fs) = Some ss"
    and "\<forall>f\<in>set fs. field_ok f sz \<and> (\<exists>code w. field_codes f w sz code \<and>
       codes_for variants name (f_type f) (f_no f) (replicate NUM_REGS None) = Some code)"
    and "laid_out cs sz st"
    and "list_all2 (\<lambda>f r. allowed (f_type f) (f_tag f) r \<and>
       (\<exists>nm. var_name (f_type f) (f_no f) = Some nm \<and> eval_name env nm st = Some (of_nat r))) fs rs"
    and "list_all2 (\<lambda>f r. allowed (f_type f) (f_tag f) r) fs r0s"
    and "out st = map (entry_code u fs r0s) [0..<sz]" and "masks_apart u fs sz"
  shows "run_all (exec env) ss st = Some (set_out cs (map (entry_code u fs rs) [0..<sz]) st)"
  using assms
proof (induction fs arbitrary: ss rs r0s u st)
  case Nil
  then show ?case using set_out_same [OF Nil.prems(3)] by (simp add: entry_code_def)
next
  case (Cons f fs)
  obtain r rs' where rs: "rs = r # rs'" using Cons.prems(4) by (cases rs) auto
  obtain r0 r0s' where r0s: "r0s = r0 # r0s'" using Cons.prems(5) by (cases r0s) auto
  obtain s1 s2 where s1: "output_regvar_code variants name sz (f_type f) (f_no f) cs = Some s1"
    and s2: "collect (\<lambda>(t, n). output_regvar_code variants name sz t n cs) (map (\<lambda>f. (f_type f, f_no f)) fs) = Some s2"
    and ss: "ss = s1 @ s2" using Cons.prems(1) by (auto split: bind_splits)
  obtain code w where code: "field_codes f w sz code" "codes_for variants name (f_type f) (f_no f) (replicate NUM_REGS None) = Some code"
    using Cons.prems(2) by auto
  obtain nm where nm: "var_name (f_type f) (f_no f) = Some nm" "eval_name env nm st = Some (of_nat r)"
    and r: "allowed (f_type f) (f_tag f) r" using Cons.prems(4) rs by auto
  have r0: "allowed (f_type f) (f_tag f) r0" using Cons.prems(5) r0s by auto
  let ?u = "\<lambda>b. u b OR vals fs r0s' b" and ?v = "\<lambda>b. u b OR field_val f r b"
  have apart: "u b AND field_mask g b = 0" "\<forall>g\<in>set fs. field_mask f b AND field_mask g b = 0"
      "sorted_wrt (\<lambda>f g. field_mask f b AND field_mask g b = 0) fs" if "b < sz" "g \<in> set (f # fs)" for b g
    using Cons.prems(7) that by (auto simp: masks_apart_def)
  have u: "\<forall>b < sz. ?u b AND field_mask f b = 0"
  proof (intro allI impI)
    fix b assume b: "b < sz"
    show "?u b AND field_mask f b = 0"
      using apart(1) [OF b, of f] vals_mask [OF apart(2) [OF b, of f]] by (simp add: bit.conj_disj_distrib2)
  qed
  have o: "out st = map (\<lambda>b. ?u b OR field_val f r0 b) [0..<sz]"
    using Cons.prems(6) r0s by (simp add: entry_code_def or.commute or.left_commute or.assoc)
  note run1 = run_output_regvar_code [OF s1 code(2) code(1) _ Cons.prems(3) nm r r0 o u]
  let ?st = "set_out cs (map (\<lambda>b. ?u b OR field_val f r b) [0..<sz]) st"
  have v: "masks_apart ?v fs sz"
    unfolding masks_apart_def
  proof (intro ballI conjI)
    fix b assume b: "b \<in> set [0..<sz]"
    show "sorted_wrt (\<lambda>f g. field_mask f b AND field_mask g b = 0) fs" using apart(3) [of b f] b by simp
    fix g assume g: "g \<in> set fs"
    have "field_mask f b AND field_mask g b = 0" using apart(2) [of b f] b g by simp
    then have "field_mask g b AND field_mask f b = 0" by (simp only: and.commute)
    then have "field_val f r b AND field_mask g b = 0" using field_val_mask by (metis and.commute)
    then show "?v b AND field_mask g b = 0" using apart(1) [of b g] b g by (simp add: bit.conj_disj_distrib2)
  qed
  have l: "laid_out cs sz ?st" using Cons.prems(3) by simp
  have o2: "out ?st = map (entry_code ?v fs r0s') [0..<sz]"
    by (simp add: entry_code_def or.commute or.left_commute or.assoc)
  have run2: "run_all (exec env) s2 ?st = Some (set_out cs (map (entry_code ?v fs rs') [0..<sz]) ?st)"
    by (rule Cons.IH [OF s2 _ l _ _ o2 v]) (use Cons.prems(2,4,5) rs r0s in simp_all)
  show ?case using run1 run2 Cons.prems(2)
    by (simp add: ss rs run_all_append entry_code_def [abs_def] or.commute or.left_commute or.assoc)
qed

lemma masks_apart_other:
  assumes "masks_apart base fs sz" and "b < sz" and "i < length fs" and "g \<in> set (take i fs) \<union> set (drop (Suc i) fs)"
  shows "field_mask (fs ! i) b AND field_mask g b = 0"
proof -
  have s: "sorted_wrt (\<lambda>f g. field_mask f b AND field_mask g b = 0) fs"
    using assms(1,2) by (simp add: masks_apart_def)
  have "\<exists>j. j < length fs \<and> j \<noteq> i \<and> g = fs ! j"
  proof (cases "g \<in> set (take i fs)")
    case True
    then show ?thesis by (auto simp: in_set_conv_nth)
  next
    case False
    then obtain k where "k < length fs - Suc i" "g = fs ! (Suc i + k)" using assms(4) by (auto simp: in_set_conv_nth)
    then show ?thesis by (intro exI [of _ "Suc i + k"]) simp
  qed
  then obtain j where j: "j < length fs" "j \<noteq> i" "g = fs ! j" by blast
  show ?thesis
  proof (cases "j < i")
    case True
    then show ?thesis using sorted_wrt_nth_less [OF s True assms(3)] j(3) by (simp add: and.commute)
  next
    case False
    then show ?thesis using sorted_wrt_nth_less [OF s _ j(1), of i] j by simp
  qed
qed

lemma variants_field_codes:
  assumes "variants_of variants name base fs r0s sz i" and "i < length fs" and "length r0s = length fs"
    and "masks_apart base fs sz"
  shows "\<exists>code w. field_codes (fs ! i) w sz code \<and>
    codes_for variants name (f_type (fs ! i)) (f_no (fs ! i)) (replicate NUM_REGS None) = Some code"
proof -
  let ?w = "\<lambda>b. base b OR (vals (take i fs) (take i r0s) b OR vals (drop (Suc i) fs) (drop (Suc i) r0s) b)"
  obtain code where code: "codes_for variants name (f_type (fs ! i)) (f_no (fs ! i)) (replicate NUM_REGS None) = Some code"
      "length code = NUM_REGS"
      "\<forall>r\<in>set [0..<NUM_REGS]. code ! r =
           (if allowed (f_type (fs ! i)) (f_tag (fs ! i)) r
            then Some (map (entry_code base fs (r0s[i := r])) [0..<sz]) else None)"
      "f_type (fs ! i) = REGTYPE_SEG \<longrightarrow> (\<forall>b\<in>set [0..<sz]. is_seg_prefix_byte code b = f_prefix (fs ! i) b)"
    using assms(1) unfolding variants_of_def by blast
  have "entry_code base fs (r0s[i := r]) b = ?w b OR field_val (fs ! i) r b" for r b
    using vals_split [OF assms(2), of "r0s[i := r]" b] assms(2,3)
    by (simp add: entry_code_def or.assoc drop_update_cancel)
  moreover have "?w b AND field_mask (fs ! i) b = 0" if "b < sz" for b
  proof -
    have "base b AND field_mask (fs ! i) b = 0" using assms(2,4) that by (simp add: masks_apart_def)
    moreover have "vals (take i fs) (take i r0s) b AND field_mask (fs ! i) b = 0"
      by (rule vals_mask) (use masks_apart_other [OF assms(4) that assms(2)] in blast)
    moreover have "vals (drop (Suc i) fs) (drop (Suc i) r0s) b AND field_mask (fs ! i) b = 0"
      by (rule vals_mask) (use masks_apart_other [OF assms(4) that assms(2)] in blast)
    ultimately show ?thesis by (simp add: bit.conj_disj_distrib2)
  qed
  ultimately have "field_codes (fs ! i) ?w sz code"
    using code(2-4) by (simp add: field_codes_def comp_def entry_code_def [abs_def])
  then show ?thesis using code(1) by blast
qed

end
