(* ===== verification/Gen_Entry.thy ===== *)
theory Gen_Entry
  imports Gen_Regs
begin

text \<open>
  The code of a rule as a whole: the case that the generator prints for it appends the code that
  the assembler would have produced for the registers at hand, with the relocations resolved.
\<close>

section \<open>Relocations\<close>

text \<open>The address a byte of the entry is written to, and the bytes of a resolved relocation.\<close>

definition byte_address :: "cenv \<Rightarrow> nat \<Rightarrow> nat \<Rightarrow> u32" where
  "byte_address env cs off =
     (if off < cs then ce_optr env + of_nat off else ce_eptr env + of_nat (off - cs))"

definition resolved :: "object_file \<Rightarrow> cenv \<Rightarrow> nat \<Rightarrow> elf_sym \<Rightarrow> cstate \<Rightarrow> elf_rel \<Rightarrow> u8 list option" where
  "resolved obj env cs s st r =
     do {
       x \<leftarrow> eval_name env (take 57 (r_sym r)) st;
       bs \<leftarrow> text_bytes obj (r_offset r) (if r_type r = R_386_16 then 2 else 4);
       let addend = le_bytes bs in
       Some (if r_type r = R_386_16 then bytes16 (x + addend)
             else if r_type r = R_386_PC32 then bytes32 (x - byte_address env cs (unat (r_offset r - st_value s)) + addend)
             else bytes32 (x + addend))
     }"

definition reloc_len :: "elf_rel \<Rightarrow> nat" where "reloc_len r = (if r_type r = R_386_16 then 2 else 4)"

text \<open>The field lies in the code or in the edge code.\<close>

definition in_one_area :: "nat \<Rightarrow> nat \<Rightarrow> nat \<Rightarrow> nat \<Rightarrow> bool" where
  "in_one_area cs sz off n \<longleftrightarrow> off + n \<le> cs \<or> cs \<le> off \<and> off + n \<le> sz"

definition resolve_all :: "object_file \<Rightarrow> cenv \<Rightarrow> nat \<Rightarrow> elf_sym \<Rightarrow> cstate \<Rightarrow> elf_rel list \<Rightarrow> u8 list \<Rightarrow> u8 list" where
  "resolve_all obj env cs s st rs xs =
     fold (\<lambda>r. put_bytes (unat (r_offset r - st_value s)) (the (resolved obj env cs s st r))) rs xs"

lemma length_put_bytes [simp]: "n + length bs \<le> length xs \<Longrightarrow> length (put_bytes n bs xs) = length xs"
  by (simp add: put_bytes_def)

lemma store_bytes_place:
  assumes "laid_out cs sz st" and "in_one_area cs sz off (length bs)" and "place cs off = (a, k)" and "bs \<noteq> []"
  shows "store_bytes a (int k) bs st = Some (set_out cs (put_bytes off bs (out st)) st)"
proof (cases "off < cs")
  case True
  then have "off + length bs \<le> cs" using assms(2) by (auto simp: in_one_area_def)
  then show ?thesis using assms(1,3) True
    by (auto simp: place_def store_bytes_def laid_out_def set_out_def out_def put_bytes_def)
next
  case False
  then have "cs \<le> off" "off + length bs \<le> sz" using assms(2,4) by (cases bs; auto simp: in_one_area_def)+
  then show ?thesis using assms(1,3) False
    by (auto simp: place_def store_bytes_def laid_out_def set_out_def out_def put_bytes_def Suc_diff_le)
qed

lemma resolved_length: "resolved obj env cs s st r = Some bs \<Longrightarrow> length bs = reloc_len r"
  by (auto simp: resolved_def reloc_len_def bytes32_def bytes16_def Let_def split: bind_splits if_splits)

lemma reloc_symbol_take: "reloc_symbol (take 63 (''(long)'' @ name)) = take 57 name"
  by (simp add: reloc_symbol_def)

lemma pointer_place:
  "laid_out cs sz st \<Longrightarrow> place cs off = (a, k) \<Longrightarrow> pointer env a st + of_int (int k) = byte_address env cs off"
  by (auto simp: laid_out_def place_def byte_address_def split: if_splits)

lemma run_reloc_stmt:
  assumes "reloc_stmt obj as s cs r = Some ss" and "laid_out cs sz st"
    and "in_one_area cs sz (unat (r_offset r - st_value s)) (reloc_len r)"
    and "resolved obj env cs s st r = Some bs"
  shows "run_all (exec env) ss st = Some (set_out cs (put_bytes (unat (r_offset r - st_value s)) bs (out st)) st)"
proof -
  obtain a k where ak: "place cs (unat (r_offset r - st_value s)) = (a, k)" by fastforce
  have n: "length bs = reloc_len r" by (rule resolved_length [OF assms(4)])
  have ne: "bs \<noteq> []" using n by (auto simp: reloc_len_def split: if_splits)
  have st: "store_bytes a (int k) bs st = Some (set_out cs (put_bytes (unat (r_offset r - st_value s)) bs (out st)) st)"
    using store_bytes_place [OF assms(2) _ ak ne] assms(3) n by simp
  obtain e d where e: "get_reloc_expr 64 (r_sym r) as = Some (e, d)" and sym: "reloc_symbol e = take 57 (r_sym r)"
    using assms(1) reloc_symbol_take by (auto simp: reloc_stmt_def get_reloc_expr_def split: bind_splits)
  show ?thesis
    using assms(1,4) e sym st ak pointer_place [OF assms(2) ak]
    by (auto simp: reloc_stmt_def resolved_def R_386_32_def R_386_16_def R_386_PC32_def split: bind_splits if_splits)
qed

lemma resolved_set_out [simp]: "resolved obj env cs s (set_out cs' xs st) r = resolved obj env cs s st r"
  by (simp add: resolved_def)

lemma resolve_all_set_out [simp]: "resolve_all obj env cs s (set_out cs' xs st) rs = resolve_all obj env cs s st rs"
  by (simp add: resolve_all_def fun_eq_iff)

lemma run_relocs:
  assumes "collect (reloc_stmt obj as s cs) rs = Some ss" and "laid_out cs sz st"
    and "\<forall>r\<in>set rs. in_one_area cs sz (unat (r_offset r - st_value s)) (reloc_len r) \<and> resolved obj env cs s st r \<noteq> None"
  shows "run_all (exec env) ss st = Some (set_out cs (resolve_all obj env cs s st rs (out st)) st)"
  using assms
proof (induction rs arbitrary: ss st)
  case Nil
  then show ?case by (simp add: resolve_all_def set_out_same)
next
  case (Cons r rs)
  obtain s1 s2 where s1: "reloc_stmt obj as s cs r = Some s1" and s2: "collect (reloc_stmt obj as s cs) rs = Some s2"
    and ss: "ss = s1 @ s2" using Cons.prems(1) by (auto split: bind_splits)
  obtain bs where bs: "resolved obj env cs s st r = Some bs" using Cons.prems(3) by auto
  let ?off = "unat (r_offset r - st_value s)"
  have area: "in_one_area cs sz ?off (reloc_len r)" using Cons.prems(3) by simp
  note run1 = run_reloc_stmt [OF s1 Cons.prems(2) area bs]
  let ?st = "set_out cs (put_bytes ?off bs (out st)) st"
  have "?off + length bs \<le> sz" using area resolved_length [OF bs] Cons.prems(2) by (auto simp: in_one_area_def laid_out_def)
  then have l: "laid_out cs sz ?st" using Cons.prems(2) length_out by simp
  have "run_all (exec env) s2 ?st = Some (set_out cs (resolve_all obj env cs s ?st rs (out ?st)) ?st)"
    by (rule Cons.IH [OF s2 l]) (use Cons.prems(3) in simp)
  then show ?case using run1 bs by (simp add: ss run_all_append resolve_all_def)
qed

section \<open>Statements on variables\<close>

fun var_stmt :: "cstmt \<Rightarrow> bool" where
  "var_stmt (Take_param v) = True"
| "var_stmt (Set_ptr v a k) = True"
| "var_stmt (Set_plus4 v w) = True"
| "var_stmt Clear_terminating = True"
| "var_stmt _ = False"

definition set_mems :: "u8 list \<Rightarrow> u8 list \<Rightarrow> cstate \<Rightarrow> cstate" where
  "set_mems c e st = st\<lparr>cs_code := c, cs_edge := e\<rparr>"

lemma pointer_set_mems [simp]: "pointer env a (set_mems c e st) = pointer env a st"
  by (cases a) (simp_all add: set_mems_def)

lemma eval_set_mems [simp]: "eval_name env v (set_mems c e st) = eval_name env v st"
  by (simp add: eval_name_def set_mems_def)

lemma var_stmt_exec:
  assumes "var_stmt s" and "exec env s st = Some st'"
  shows "exec env s (set_mems c e st) = Some (set_mems c e st') \<and> cs_coff st' = cs_coff st \<and> cs_eoff st' = cs_eoff st \<and>
    cs_code st' = cs_code st \<and> cs_edge st' = cs_edge st"
  using assms
  by (cases s) (auto simp: set_var_def split: list.splits bind_splits if_splits, auto simp: set_mems_def)

lemma var_stmts_run:
  assumes "list_all var_stmt ss" and "run_all (exec env) ss st = Some st'"
  shows "run_all (exec env) ss (set_mems c e st) = Some (set_mems c e st') \<and> cs_coff st' = cs_coff st \<and>
    cs_eoff st' = cs_eoff st \<and> cs_code st' = cs_code st \<and> cs_edge st' = cs_edge st"
  using assms
proof (induction ss arbitrary: st)
  case (Cons s ss)
  obtain st1 where st1: "exec env s st = Some st1" "run_all (exec env) ss st1 = Some st'"
    using Cons.prems(2) by (auto split: bind_splits)
  show ?case using var_stmt_exec [of s env st st1 c e] Cons.IH [OF _ st1(2)] Cons.prems(1) st1(1) by simp
qed simp

lemma set_out_mems: "set_out cs xs st = set_mems (take cs xs) (drop cs xs) st"
  by (simp add: set_out_def set_mems_def)

text \<open>Which statements are of that kind.\<close>

lemma collect_all_set:
  "collect f xs = Some ys \<Longrightarrow> \<forall>x\<in>set xs. \<forall>zs. f x = Some zs \<longrightarrow> list_all P zs \<Longrightarrow> list_all P ys"
  by (induction xs arbitrary: ys) (auto split: bind_splits)

lemma collect_all: "collect f xs = Some ys \<Longrightarrow> (\<And>x zs. x \<in> set xs \<Longrightarrow> f x = Some zs \<Longrightarrow> list_all P zs) \<Longrightarrow> list_all P ys"
  using collect_all_set [of f xs ys P] by blast

lemma take_params_vars: "take_params as = Some ss \<Longrightarrow> list_all var_stmt ss"
  by (induction as arbitrary: ss rule: take_params.induct) (auto split: bind_splits)

lemma edge_targets_vars: "list_all var_stmt (edge_targets edges cs)"
  by (auto simp: edge_targets_def list_all_iff in_set_zip split: if_splits)

lemma joFF_vars: "output_joFF_values obj s s' as cs = Some ss \<Longrightarrow> list_all var_stmt ss"
  unfolding output_joFF_values_def
  by (erule collect_all) (auto simp: joFF_values_def Let_def split: bind_splits prod.splits)

lemma regvar_no_vars: "output_regvar_code variants name sz t n cs = Some ss \<Longrightarrow> list_all (\<lambda>s. \<not> var_stmt s) ss"
proof -
  have "regbit_tests nm code sz t cs i = Some zs \<Longrightarrow> list_all (\<lambda>s. \<not> var_stmt s) zs" for nm code i zs
    by (auto simp: regbit_tests_def split: bind_splits if_splits)
  then have "collect (regbit_tests nm code sz t cs) is = Some zs \<Longrightarrow> list_all (\<lambda>s. \<not> var_stmt s) zs" for nm code "is" zs
    using collect_all by metis
  moreover assume "output_regvar_code variants name sz t n cs = Some ss"
  ultimately show ?thesis by (auto simp: output_regvar_code_def seg_switch_def split: bind_splits if_splits)
qed

lemma regs_no_vars: "output_register_variable_code variants name sz cs = Some ss \<Longrightarrow> list_all (\<lambda>s. \<not> var_stmt s) ss"
  unfolding output_register_variable_code_def
  by (drule regvars_loop_keys, erule collect_all) (auto dest: regvar_no_vars)

lemma consts_no_vars: "output_constant_variable_code obj s s' as cs = Some ss \<Longrightarrow> list_all (\<lambda>s. \<not> var_stmt s) ss"
  unfolding output_constant_variable_code_def
  by (erule collect_all) (auto simp: reloc_stmt_def Let_def split: bind_splits prod.splits if_splits)

section \<open>An entry\<close>

definition code_end :: "sym_sort \<Rightarrow> object_file \<Rightarrow> elf_sym \<Rightarrow> nat \<Rightarrow> nat" where
  "code_end srt obj s sz =
     (let n = first_edge (output_edge_offsets srt obj s sz) in if n = 0xffff then sz else n)"

text \<open>
  The entry and its variants are the assembler's output of one text whose variables have the
  values \<open>r0s\<close> in the entry: the part of the code that belongs to a variable depends on its
  value in the way the encoding of the machine has it.
\<close>

definition assembled ::
    "object_file \<Rightarrow> elf_sym list \<Rightarrow> nat \<Rightarrow> (nat \<Rightarrow> u8) \<Rightarrow> field list \<Rightarrow> nat list \<Rightarrow> nat \<Rightarrow> bool" where
  "assembled obj entries n base fs r0s sz \<longleftrightarrow>
     length r0s = length fs \<and> masks_apart base fs sz \<and>
     (\<exists>name variants. entry_codes obj entries n = Some ((name, map (entry_code base fs r0s) [0..<sz]) # variants) \<and>
        var_keys variants name [] = map (\<lambda>f. (f_type f, f_no f)) fs \<and>
        (\<forall>i\<in>set [0..<length fs]. field_ok (fs ! i) sz \<and> allowed (f_type (fs ! i)) (f_tag (fs ! i)) (r0s ! i) \<and>
           variants_of variants name base fs r0s sz i))"

text \<open>The variables hold allowed register numbers.\<close>

definition params_allowed :: "cenv \<Rightarrow> cstate \<Rightarrow> field list \<Rightarrow> nat list \<Rightarrow> bool" where
  "params_allowed env st fs rs \<longleftrightarrow>
     list_all2 (\<lambda>f r. allowed (f_type f) (f_tag f) r \<and>
       (\<exists>nm. var_name (f_type f) (f_no f) = Some nm \<and> eval_name env nm st = Some (of_nat r))) fs rs"

definition relocs_ok :: "object_file \<Rightarrow> cenv \<Rightarrow> nat \<Rightarrow> nat \<Rightarrow> elf_sym \<Rightarrow> cstate \<Rightarrow> elf_rel list \<Rightarrow> bool" where
  "relocs_ok obj env cs sz s st rs \<longleftrightarrow>
     (\<forall>r\<in>set rs. in_one_area cs sz (unat (r_offset r - st_value s)) (reloc_len r) \<and> resolved obj env cs s st r \<noteq> None)"

lemma entry_codes_name: "entry_codes obj (s # ss) n = Some ((name, c) # variants) \<Longrightarrow> name = st_name s"
  by (cases ss; cases n) (auto split: bind_splits)

lemma filter_var_stmts:
  "list_all var_stmt ss \<Longrightarrow> filter var_stmt ss = ss" "list_all (\<lambda>s. \<not> var_stmt s) ss \<Longrightarrow> filter var_stmt ss = []"
  by (induction ss) auto

lemma run_copies:
  assumes "length root = sz" and "cs \<le> sz" and "ce_bytes env name = root"
    and "cs_code st = []" "cs_edge st = []" "cs_coff st = 0" "cs_eoff st = 0"
  shows "run_all (exec env) (Memcpy gen_code_ptr name 0 cs #
      (if sz - cs \<noteq> 0 then [Memcpy gen_edge_ptr name cs (sz - cs)] else [])) st = Some (set_out cs root st)"
  using assms by (simp add: copy_bytes_def put_bytes_def set_out_def)

lemma length_resolve_all:
  "relocs_ok obj env cs sz s st rs \<Longrightarrow> cs \<le> sz \<Longrightarrow> length xs = sz \<Longrightarrow>
   length (resolve_all obj env cs s st rs xs) = sz"
proof (induction rs arbitrary: xs)
  case Nil
  then show ?case by (simp add: resolve_all_def)
next
  case (Cons r rs)
  let ?off = "unat (r_offset r - st_value s)"
  obtain bs where bs: "resolved obj env cs s st r = Some bs" using Cons.prems(1) by (auto simp: relocs_ok_def)
  have "?off + length bs \<le> sz"
    using Cons.prems(1,2) resolved_length [OF bs] by (auto simp: relocs_ok_def in_one_area_def)
  then have "length (put_bytes ?off bs xs) = sz" using Cons.prems(3) by simp
  from Cons.IH [OF _ Cons.prems(2) this] show ?case using Cons.prems(1) bs by (simp add: relocs_ok_def resolve_all_def)
qed

text \<open>The statements for all variables, run on the code of the entry.\<close>

lemma run_family:
  assumes "output_register_variable_code variants name sz cs = Some ss"
    and "var_keys variants name [] = map (\<lambda>f. (f_type f, f_no f)) fs"
    and "\<And>i. i < length fs \<Longrightarrow> field_ok (fs ! i) sz" "\<And>i. i < length fs \<Longrightarrow> allowed (f_type (fs ! i)) (f_tag (fs ! i)) (r0s ! i)"
      "\<And>i. i < length fs \<Longrightarrow> variants_of variants name base fs r0s sz i"
    and "length r0s = length fs" and "masks_apart base fs sz"
    and "cs \<le> sz" "cs_coff st = 0" "cs_eoff st = 0" and "params_allowed env st fs rs"
  shows "run_all (exec env) ss (set_out cs (map (entry_code base fs r0s) [0..<sz]) st) =
    Some (set_out cs (map (entry_code base fs rs) [0..<sz]) st)"
proof -
  let ?st = "set_out cs (map (entry_code base fs r0s) [0..<sz]) st"
  have l: "laid_out cs sz ?st" using assms(8-10) by (simp add: laid_out_def set_out_def)
  have "run_all (exec env) ss ?st = Some (set_out cs (map (entry_code base fs rs) [0..<sz]) ?st)"
  proof (rule run_fields [OF _ _ l _ _ _ assms(7)])
    show "collect (\<lambda>(t, n). output_regvar_code variants name sz t n cs) (map (\<lambda>f. (f_type f, f_no f)) fs) = Some ss"
      using regvars_loop_keys [OF assms(1) [unfolded output_register_variable_code_def]] assms(2) by simp
    show "\<forall>f\<in>set fs. field_ok f sz \<and> (\<exists>code w. field_codes f w sz code \<and>
        codes_for variants name (f_type f) (f_no f) (replicate NUM_REGS None) = Some code)"
      using assms(3) variants_field_codes [OF assms(5) _ assms(6,7)] by (metis in_set_conv_nth)
    show "list_all2 (\<lambda>f r. allowed (f_type f) (f_tag f) r \<and>
        (\<exists>nm. var_name (f_type f) (f_no f) = Some nm \<and> eval_name env nm ?st = Some (of_nat r))) fs rs"
      using assms(11) by (simp add: params_allowed_def)
    show "list_all2 (\<lambda>f r. allowed (f_type f) (f_tag f) r) fs r0s"
      using assms(4,6) by (simp add: list_all2_conv_all_nth)
  qed simp
  then show ?thesis by simp
qed

lemma gen_case_shape:
  assumes "gen_case_for srt obj (s # s' # rest) as = Some (n, c)" and "sz = sym_size s s'" and "0 < sz"
    and "entry_codes obj (s # s' # rest) n = Some ((name, root) # variants)"
  shows "\<exists>vs joFF regs constants cs. cs = code_end srt obj s sz \<and> cs \<le> sz \<and> gc_name c = name \<and> gc_code c = root \<and>
    list_all var_stmt vs \<and> list_all var_stmt joFF \<and> filter var_stmt (gc_body c) = vs @ joFF \<and>
    output_register_variable_code variants name sz cs = Some regs \<and>
    collect (reloc_stmt obj as s cs) (relocs_in obj s s') = Some constants \<and>
    gc_body c = vs @ (Memcpy gen_code_ptr name 0 cs # (if sz - cs \<noteq> 0 then [Memcpy gen_edge_ptr name cs (sz - cs)] else [])) @
      joFF @ regs @ constants @ Advance gen_code_ptr cs # (if sz - cs \<noteq> 0 then [Advance gen_edge_ptr (sz - cs)] else [])"
proof -
  let ?edges = "output_edge_offsets srt obj s sz" and ?n = "first_edge (output_edge_offsets srt obj s sz)"
  let ?cs = "code_end srt obj s sz"
  have name: "name = st_name s" by (rule entry_codes_name [OF assms(4)])
  obtain params bytes body where g: "take_params as = Some params"
    "output_gencode_for_entry obj (s # s' # rest) as ?n = Some (n, bytes, body)"
    "c = \<lparr>gc_name = st_name s, gc_code = bytes, gc_body = params @ edge_targets ?edges ?n @ body\<rparr>"
    using assms(1,2) by (auto simp: gen_case_for_def Let_def split: bind_splits)
  have cs: "?cs \<le> sz" "?n = 0xffff \<or> ?n < sz"
    using g(2) assms(2,3) by (auto simp: output_gencode_for_entry_def code_end_def Let_def split: if_splits)
  obtain codes joFF regs constants where h: "entry_codes obj (s # s' # rest) n = Some codes"
    "output_joFF_values obj s s' as ?cs = Some joFF"
    "output_register_variable_code (tl codes) (st_name s) sz ?cs = Some regs"
    "output_constant_variable_code obj s s' as ?cs = Some constants"
    "bytes = snd (hd codes)"
    "body = [Memcpy gen_code_ptr (st_name s) 0 ?cs] @
       (if sz - ?cs \<noteq> 0 then [Memcpy gen_edge_ptr (st_name s) ?cs (sz - ?cs)] else []) @ joFF @ regs @ constants @
       [Advance gen_code_ptr ?cs] @ (if sz - ?cs \<noteq> 0 then [Advance gen_edge_ptr (sz - ?cs)] else [])"
    using g(2) assms(2,3) cs by (auto simp: output_gencode_for_entry_def code_end_def Let_def split: bind_splits if_splits)
  have codes: "codes = (name, root) # variants" using h(1) assms(4) by simp
  have vars: "list_all var_stmt (params @ edge_targets ?edges ?n)" "list_all var_stmt joFF"
    "list_all (\<lambda>s. \<not> var_stmt s) regs" "list_all (\<lambda>s. \<not> var_stmt s) constants"
    using take_params_vars [OF g(1)] edge_targets_vars joFF_vars [OF h(2)] regs_no_vars [OF h(3)] consts_no_vars [OF h(4)]
    by simp_all
  have "filter var_stmt (gc_body c) = (params @ edge_targets ?edges ?n) @ joFF"
    using filter_var_stmts(1) [OF vars(1)] filter_var_stmts(1) [OF vars(2)] filter_var_stmts(2) [OF vars(3)]
      filter_var_stmts(2) [OF vars(4)] by (simp add: g(3) h(6))
  then show ?thesis
    using cs(1) vars h codes g(3) name
    by (intro exI [of _ "params @ edge_targets ?edges ?n"] exI [of _ joFF] exI [of _ regs] exI [of _ constants] exI [of _ ?cs])
      (simp add: output_constant_variable_code_def)
qed

lemma start_state_fields [simp]:
  "cs_code (start_state ps f) = []" "cs_edge (start_state ps f) = []" "cs_coff (start_state ps f) = 0"
  "cs_eoff (start_state ps f) = 0"
  by (simp_all add: start_state_def)

text \<open>
  C32. The case of \<^verbatim>\<open>peepgen_code\<close> for a rule, run for any allowed registers, appends the code
  that the assembler would have produced for these registers, split into code and edge code,
  with every relocation resolved for the place where the code is put. The entry is not empty,
  its relocations lie within the code or the edge code, and the symbols they name have values
  once the statements on variables have run.
\<close>

theorem gen_case_correct:
  assumes case_for: "gen_case_for srt obj (s # s' # rest) as = Some (n, c)"
    and sz: "sz = sym_size s s'" "0 < sz" and cs: "cs = code_end srt obj s sz"
    and family: "assembled obj (s # s' # rest) n base fs r0s sz"
    and env: "env = \<lparr>ce_optr = o_ptr, ce_eptr = e_ptr, ce_extern = extern, ce_bytes = code_of cases\<rparr>"
      "code_of cases (gc_name c) = gc_code c"
    and vars: "run_all (exec env) (filter var_stmt (gc_body c)) (start_state params f) = Some st1"
    and regs: "params_allowed env st1 fs rs" and relocs: "relocs_ok obj env cs sz s st1 (relocs_in obj s s')"
  shows "\<exists>st'. run_case cases extern c params o_ptr e_ptr f = Some st' \<and>
    (let code = resolve_all obj env cs s st1 (relocs_in obj s s') (map (entry_code base fs rs) [0..<sz])
     in appended st' = (take cs code, drop cs code, cs_clears st1) \<and> length code = sz)"
proof -
  let ?root = "map (entry_code base fs r0s) [0..<sz]"
  obtain name variants where fam: "length r0s = length fs" "masks_apart base fs sz"
    "entry_codes obj (s # s' # rest) n = Some ((name, ?root) # variants)"
    "var_keys variants name [] = map (\<lambda>f. (f_type f, f_no f)) fs"
    "\<And>i. i < length fs \<Longrightarrow> field_ok (fs ! i) sz" "\<And>i. i < length fs \<Longrightarrow> allowed (f_type (fs ! i)) (f_tag (fs ! i)) (r0s ! i)"
    "\<And>i. i < length fs \<Longrightarrow> variants_of variants name base fs r0s sz i"
    using family by (auto simp: assembled_def)
  obtain vs joFF rg constants where sh: "cs \<le> sz" "gc_name c = name" "gc_code c = ?root" "list_all var_stmt vs" "list_all var_stmt joFF"
    "filter var_stmt (gc_body c) = vs @ joFF" "output_register_variable_code variants name sz cs = Some rg"
    "collect (reloc_stmt obj as s cs) (relocs_in obj s s') = Some constants"
    "gc_body c = vs @ (Memcpy gen_code_ptr name 0 cs # (if sz - cs \<noteq> 0 then [Memcpy gen_edge_ptr name cs (sz - cs)] else [])) @
      joFF @ rg @ constants @ Advance gen_code_ptr cs # (if sz - cs \<noteq> 0 then [Advance gen_edge_ptr (sz - cs)] else [])"
    using gen_case_shape [OF case_for sz fam(3)] cs by blast
  obtain stA where stA: "run_all (exec env) vs (start_state params f) = Some stA" "run_all (exec env) joFF stA = Some st1"
    using vars sh(6) by (auto simp: run_all_append split: bind_splits)
  note A = var_stmts_run [OF sh(4) stA(1)]
  have B: "run_all (exec env) joFF (set_out cs ?root stA) = Some (set_out cs ?root st1)"
    using var_stmts_run [OF sh(5) stA(2)] by (simp add: set_out_mems)
  have offs: "cs_coff st1 = 0" "cs_eoff st1 = 0" using A var_stmts_run [OF sh(5) stA(2)] by simp_all
  have copies: "run_all (exec env) (Memcpy gen_code_ptr name 0 cs # (if sz - cs \<noteq> 0 then [Memcpy gen_edge_ptr name cs (sz - cs)] else [])) stA
      = Some (set_out cs ?root stA)"
    by (rule run_copies) (use sh(1,2,3) env A in simp_all)
  let ?new = "map (entry_code base fs rs) [0..<sz]"
  have C: "run_all (exec env) rg (set_out cs ?root st1) = Some (set_out cs ?new st1)"
    by (rule run_family [OF sh(7) fam(4-7) fam(1,2) sh(1) offs regs])
  let ?code = "resolve_all obj env cs s st1 (relocs_in obj s s') ?new"
  have "laid_out cs sz (set_out cs ?new st1)" using sh(1) offs by (simp add: laid_out_def set_out_def)
  then have D: "run_all (exec env) constants (set_out cs ?new st1) = Some (set_out cs ?code st1)"
    using run_relocs [OF sh(8), of sz _ env] relocs by (simp add: relocs_ok_def)
  have len: "length ?code = sz" by (rule length_resolve_all [OF relocs sh(1)]) simp
  let ?fin = "(set_out cs ?code st1)\<lparr>cs_coff := cs, cs_eoff := sz - cs\<rparr>"
  have "run_all (exec env) (Advance gen_code_ptr cs # (if sz - cs \<noteq> 0 then [Advance gen_edge_ptr (sz - cs)] else []))
      (set_out cs ?code st1) = Some ?fin"
    using sh(1) offs by (simp add: set_out_def)
  then have "run_all (exec env) (gc_body c) (start_state params f) = Some ?fin"
    by (simp only: sh(9) run_all_append stA(1) copies B C D Option.bind.bind_lunit)
  then show ?thesis using len sh(1)
    by (intro exI [of _ ?fin]) (simp add: run_case_def env(1) [symmetric] appended_def Let_def set_out_def)
qed

subsection \<open>An example\<close>

text \<open>
  A rule with one register variable and one constant: the code \<^verbatim>\<open>mov $C0, %vr0d\<close>, whose first
  byte holds the register, and its eight variants.
\<close>

definition demo_name :: "nat \<Rightarrow> string" where
  "demo_name i = (if i = 0 then ''peep_t'' else if i < 9 then ''peep_t_r_0_'' @ show_dec (i - 1) else ''peep_end'')"

definition demo_syms :: "elf_sym list" where
  "demo_syms = map (\<lambda>i. \<lparr>st_name = demo_name i, st_value = of_nat (5 * i)\<rparr>) [0..<10]"

definition demo_obj :: object_file where
  "demo_obj = \<lparr>o_text = concat (map (\<lambda>r. [0xb8 + r, 0, 0, 0, 0]) [7, 0, 1, 2, 3, 4, 5, 6, 7]), o_syms = demo_syms,
     o_relocs = [\<lparr>r_offset = 1, r_sym = ''C0'', r_type = R_386_32\<rparr>]\<rparr>"

definition demo_assignments :: assignments where
  "demo_assignments =
     [(scalar_operand op_reg 4 0 tag_var, scalar_operand op_reg 4 7 tag_const),
      (scalar_operand op_imm 4 0 tag_var, scalar_operand op_imm 0 0x70 tag_const)]"

definition no_sort :: sym_sort where "no_sort f xs = xs"

definition demo_variants :: "(string \<times> u8 list) list" where
  "demo_variants = map (\<lambda>i. (demo_name i, [0xb8 + (of_nat i - 1), 0, 0, 0, 0])) [1..<9]"

definition demo_tests :: "cstmt list" where
  "demo_tests =
     [If_bit ''vr0d'' 0 [Or_byte gen_code_ptr 0 1] [And_not_byte gen_code_ptr 0 1],
      If_bit ''vr0d'' 1 [Or_byte gen_code_ptr 0 2] [And_not_byte gen_code_ptr 0 2],
      If_bit ''vr0d'' 2 [Or_byte gen_code_ptr 0 4] [And_not_byte gen_code_ptr 0 4]]"

definition demo_case :: gen_case where
  "demo_case = \<lparr>gc_name = demo_name 0, gc_code = [0xbf, 0, 0, 0, 0],
     gc_body = [Take_param ''vr0d'', Take_param ''C0'', Memcpy gen_code_ptr (demo_name 0) 0 5] @ demo_tests @
       [Store32 gen_code_ptr 1 ''C0'' 0, Advance gen_code_ptr 5]\<rparr>"

definition demo_env :: cenv where
  "demo_env = \<lparr>ce_optr = 0x1000, ce_eptr = 0x2000, ce_extern = (\<lambda>_. 0), ce_bytes = code_of [demo_case]\<rparr>"

definition demo_field :: field where
  "demo_field = \<lparr>f_type = REGTYPE_REG, f_no = 0, f_tag = tag_var,
     f_bits = (\<lambda>i b. if b = 0 then push_bit i 1 else 0), f_prefix = (\<lambda>_. False)\<rparr>"

definition demo_base :: "nat \<Rightarrow> u8" where "demo_base b = (if b = 0 then 0xb8 else 0)"

definition demo_vars :: cstate where
  "demo_vars = (start_state [] 0)\<lparr>cs_vars := (start_vars 0)(''vr0d'' := Some 3, ''C0'' := Some 0x1234)\<rparr>"

lemma demo_syms_Cons: "demo_syms = demo_syms ! 0 # demo_syms ! 1 # drop 2 demo_syms"
  by code_simp

lemma demo_gen: "gen_case_for no_sort demo_obj demo_syms demo_assignments = Some (9, demo_case)"
proof -
  have "output_edge_offsets no_sort demo_obj (demo_syms ! 0) 5 = [0xffff, 0xffff, 0xffff]"
    and "sym_size (demo_syms ! 0) (demo_syms ! 1) = 5"
    and "get_num_variants demo_syms (demo_name 0) = Some 9"
    and "entry_codes demo_obj demo_syms 9 = Some ((demo_name 0, [0xbf, 0, 0, 0, 0]) # demo_variants)"
    and "st_name (demo_syms ! 0) = demo_name 0"
    by code_simp+
  moreover have "output_joFF_values demo_obj (demo_syms ! 0) (demo_syms ! 1) demo_assignments 5 = Some []"
    and "output_constant_variable_code demo_obj (demo_syms ! 0) (demo_syms ! 1) demo_assignments 5 =
      Some [Store32 gen_code_ptr 1 ''C0'' 0]"
    and "output_register_variable_code demo_variants (demo_name 0) 5 5 = Some demo_tests"
    and "take_params demo_assignments = Some [Take_param ''vr0d'', Take_param ''C0'']"
    by code_simp+
  ultimately show ?thesis
    by (simp add: gen_case_for_def output_gencode_for_entry_def first_edge_def edge_targets_def demo_case_def Let_def)
qed

lemma demo_assembled: "assembled demo_obj demo_syms 9 demo_base [demo_field] [7] 5"
proof -
  have "entry_codes demo_obj demo_syms 9 =
      Some ((demo_name 0, map (entry_code demo_base [demo_field] [7]) [0..<5]) # demo_variants)"
    and "var_keys demo_variants (demo_name 0) [] = map (\<lambda>f. (f_type f, f_no f)) [demo_field]"
    and "\<forall>i\<in>set [0..<length [demo_field]]. field_ok ([demo_field] ! i) 5 \<and>
      allowed (f_type ([demo_field] ! i)) (f_tag ([demo_field] ! i)) ([7] ! i)"
    and "length [7::nat] = length [demo_field] \<and> masks_apart demo_base [demo_field] 5"
    by code_simp+
  moreover have "codes_for demo_variants (demo_name 0) REGTYPE_REG 0 (replicate NUM_REGS None) =
      Some (map (\<lambda>r. Some (map (entry_code demo_base [demo_field] [r]) [0..<5])) [0..<8])"
    by code_simp
  then have "variants_of demo_variants (demo_name 0) demo_base [demo_field] [7] 5 0"
    unfolding variants_of_def
    by (intro exI [of _ "map (\<lambda>r. Some (map (entry_code demo_base [demo_field] [r]) [0..<5])) [0..<8]"])
      (simp add: demo_field_def NUM_REGS_def allowed_def num_values_def)
  ultimately show ?thesis unfolding assembled_def by (simp del: upt_Suc)
qed

lemma demo_run:
  "run_all (exec demo_env) (filter var_stmt (gc_body demo_case)) (start_state [3, 0x1234] 0) = Some demo_vars"
  by (simp add: demo_case_def demo_tests_def demo_vars_def start_state_def set_var_def is_local_def unset_locals_def set_locals_def)

theorem gen_case_correct_witness:
  "\<exists>st'. run_case [demo_case] (\<lambda>_. 0) demo_case [3, 0x1234] 0x1000 0x2000 0 = Some st' \<and>
     appended st' = ([0xbb, 0x34, 0x12, 0, 0], [], False)"
proof -
  have rel: "relocs_in demo_obj (demo_syms ! 0) (demo_syms ! 1) = [\<lparr>r_offset = 1, r_sym = ''C0'', r_type = R_386_32\<rparr>]"
    and off: "unat (1 - st_value (demo_syms ! 0)) = 1"
    and sz: "5 = sym_size (demo_syms ! 0) (demo_syms ! 1)"
    and edges: "output_edge_offsets no_sort demo_obj (demo_syms ! 0) 5 = [0xffff, 0xffff, 0xffff]"
    and code: "code_of [demo_case] (gc_name demo_case) = gc_code demo_case"
    and res: "resolved demo_obj demo_env 5 (demo_syms ! 0) demo_vars \<lparr>r_offset = 1, r_sym = ''C0'', r_type = R_386_32\<rparr> =
      Some [0x34, 0x12, 0, 0]"
    and new: "map (entry_code demo_base [demo_field] [3]) [0..<5] = [0xbb, 0, 0, 0, 0]"
    and name: "var_name REGTYPE_REG 0 = Some ''vr0d''" and ok: "allowed REGTYPE_REG tag_var 3"
    and val: "eval_name demo_env ''vr0d'' demo_vars = Some (of_nat 3)"
    by code_simp+
  have cs: "5 = code_end no_sort demo_obj (demo_syms ! 0) 5" by (simp add: code_end_def edges first_edge_def)
  have regs: "params_allowed demo_env demo_vars [demo_field] [3]"
    using name ok val by (simp add: params_allowed_def demo_field_def)
  have relocs: "relocs_ok demo_obj demo_env 5 5 (demo_syms ! 0) demo_vars (relocs_in demo_obj (demo_syms ! 0) (demo_syms ! 1))"
    unfolding rel using res off by (simp add: relocs_ok_def in_one_area_def reloc_len_def R_386_32_def R_386_16_def)
  have all: "resolve_all demo_obj demo_env 5 (demo_syms ! 0) demo_vars (relocs_in demo_obj (demo_syms ! 0) (demo_syms ! 1))
      (map (entry_code demo_base [demo_field] [3]) [0..<5]) = [0xbb, 0x34, 0x12, 0, 0]"
    unfolding rel new using res off by (simp add: resolve_all_def put_bytes_def)
  have clears: "cs_clears demo_vars = False" by (simp add: demo_vars_def start_state_def)
  have gen: "gen_case_for no_sort demo_obj (demo_syms ! 0 # demo_syms ! 1 # drop 2 demo_syms) demo_assignments = Some (9, demo_case)"
    by (simp only: demo_syms_Cons [symmetric] demo_gen)
  have fam: "assembled demo_obj (demo_syms ! 0 # demo_syms ! 1 # drop 2 demo_syms) 9 demo_base [demo_field] [7] 5"
    by (simp only: demo_syms_Cons [symmetric] demo_assembled)
  show ?thesis
    using gen_case_correct [OF gen sz _ cs fam demo_env_def code
        demo_run regs relocs, unfolded all] clears
    by simp
qed

end
