(* ===== verification/Gen_Position.thy ===== *)
theory Gen_Position
  imports Gen_Entry Codegen
begin

text \<open>
  The generated function behaves the same wherever its output is put: the lengths of what it
  appends and its effect on \<^verbatim>\<open>*is_terminating\<close> do not depend on the two pointers. This is what
  the translator assumes of \<^verbatim>\<open>peepgen_code\<close>, since it measures a block in a scratch page before
  it allocates memory for it. The loop of the generator over the entries is here as well: it ends
  when every entry has code.
\<close>

section \<open>Runs at two places\<close>

text \<open>The variables that are given addresses in the output.\<close>

definition ptr_vars :: "string set" where
  "ptr_vars = {''joFF0'', ''joFF1'', ''joFF2'', ''target_C0'', ''tc_next_eip'', ''end_Block'', ''edge1_end'', ''edge2_end'',
     ''gen_code_ptr'', ''gen_edge_ptr''}"

fun blind :: "cstmt \<Rightarrow> bool" where
  "blind (Set_ptr v a k) \<longleftrightarrow> v \<in> ptr_vars"
| "blind (Set_plus4 v w) \<longleftrightarrow> v \<in> ptr_vars"
| "blind (If_bit v i ss ts) \<longleftrightarrow> v \<notin> ptr_vars"
| "blind (Switch_on v cs) \<longleftrightarrow> v \<notin> ptr_vars"
| "blind _ \<longleftrightarrow> True"

definition alike :: "cstate \<Rightarrow> cstate \<Rightarrow> bool" where
  "alike s1 s2 \<longleftrightarrow> cs_params s1 = cs_params s2 \<and> cs_coff s1 = cs_coff s2 \<and> cs_eoff s1 = cs_eoff s2 \<and>
     cs_clears s1 = cs_clears s2 \<and> length (cs_code s1) = length (cs_code s2) \<and> length (cs_edge s1) = length (cs_edge s2) \<and>
     (\<forall>v. cs_vars s1 v = None \<longleftrightarrow> cs_vars s2 v = None) \<and> (\<forall>v. v \<notin> ptr_vars \<longrightarrow> cs_vars s1 v = cs_vars s2 v)"

definition same_names :: "cenv \<Rightarrow> cenv \<Rightarrow> bool" where
  "same_names e1 e2 \<longleftrightarrow> ce_extern e1 = ce_extern e2 \<and> ce_bytes e1 = ce_bytes e2"

lemma alike_eval:
  assumes "alike s1 s2" and "same_names e1 e2"
  shows "eval_name e1 v s1 = None \<longleftrightarrow> eval_name e2 v s2 = None"
    and "v \<notin> ptr_vars \<Longrightarrow> eval_name e1 v s1 = eval_name e2 v s2"
  using assms by (auto simp: alike_def same_names_def eval_name_def ptr_vars_def)

lemma alike_off: "alike s1 s2 \<Longrightarrow> cs_off a s1 = cs_off a s2 \<and> length (cs_mem a s1) = length (cs_mem a s2)"
  by (cases a) (simp_all add: alike_def)

lemma alike_set_mem: "alike s1 s2 \<Longrightarrow> length xs = length ys \<Longrightarrow> alike (set_mem a xs s1) (set_mem a ys s2)"
  by (cases a) (simp_all add: alike_def)

lemma alike_advance: "alike s1 s2 \<Longrightarrow> alike (advance a n s1) (advance a n s2)"
  by (cases a) (simp_all add: alike_def)

lemma alike_store:
  "alike s1 s2 \<Longrightarrow> length xs = length ys \<Longrightarrow> rel_option alike (store_bytes a k xs s1) (store_bytes a k ys s2)"
  using alike_off [of s1 s2 a] by (auto simp: store_bytes_def intro!: alike_set_mem)

lemma alike_copy: "alike s1 s2 \<Longrightarrow> rel_option alike (copy_bytes a xs s1) (copy_bytes a xs s2)"
  using alike_off [of s1 s2 a] by (auto simp: copy_bytes_def put_bytes_def intro!: alike_set_mem)

lemma alike_change: "alike s1 s2 \<Longrightarrow> rel_option alike (change_byte a k f s1) (change_byte a k g s2)"
  using alike_off [of s1 s2 a] by (auto simp: change_byte_def Let_def intro!: alike_set_mem)

lemma alike_set_var:
  "alike s1 s2 \<Longrightarrow> v \<in> ptr_vars \<or> x = y \<Longrightarrow> rel_option alike (set_var v x s1) (set_var v y s2)"
  by (auto simp: set_var_def alike_def)

lemma rel_option_bind:
  "rel_option R m1 m2 \<Longrightarrow> (\<And>x y. R x y \<Longrightarrow> rel_option S (f x) (g y)) \<Longrightarrow>
   rel_option S (Option.bind m1 f) (Option.bind m2 g)"
  by (cases m1; cases m2) auto

lemma alike_run_all:
  assumes "\<And>s s1 s2. s \<in> set ss \<Longrightarrow> alike s1 s2 \<Longrightarrow> rel_option alike (f s s1) (g s s2)" and "alike s1 s2"
  shows "rel_option alike (run_all f ss s1) (run_all g ss s2)"
  using assms
proof (induction ss arbitrary: s1 s2)
  case (Cons s ss)
  have "rel_option alike (f s s1) (g s s2)" using Cons.prems by simp
  then show ?case using Cons.IH Cons.prems(1) by (auto intro: rel_option_bind [where R = alike])
qed simp

lemma alike_bstmt: "alike s1 s2 \<Longrightarrow> rel_option alike (run_bstmt s s1) (run_bstmt s s2)"
  by (cases s) (simp_all add: alike_change)

lemma alike_bind_name:
  assumes "alike s1 s2" and "same_names e1 e2" and "\<And>x y. rel_option alike (f x) (g y)"
  shows "rel_option alike (Option.bind (eval_name e1 v s1) f) (Option.bind (eval_name e2 v s2) g)"
  using assms(3) alike_eval(1) [OF assms(1,2), of v] by (cases "eval_name e1 v s1"; cases "eval_name e2 v s2") auto

lemma exec_alike:
  assumes "alike s1 s2" and "same_names e1 e2" and "blind s"
  shows "rel_option alike (exec e1 s s1) (exec e2 s s2)"
proof (cases s)
  case (Memcpy a name k n)
  then show ?thesis using assms(1,2) by (auto simp: same_names_def intro: alike_copy)
next
  case (Take_param v)
  then show ?thesis using assms(1) by (auto simp: alike_def set_var_def split: list.splits)
next
  case (Set_plus4 v w)
  then show ?thesis using assms by (auto intro!: alike_bind_name alike_set_var)
next
  case (Store32 a k v x)
  then show ?thesis using assms by (auto intro!: alike_bind_name alike_store simp: bytes32_def)
next
  case (Store16 a k v x)
  then show ?thesis using assms by (auto intro!: alike_bind_name alike_store simp: bytes16_def)
next
  case (Store_pc32 a k v x)
  then show ?thesis using assms by (auto intro!: alike_bind_name alike_store simp: bytes32_def)
next
  case (If_bit v i ss ts)
  have eq: "eval_name e1 v s1 = eval_name e2 v s2" by (rule alike_eval(2) [OF assms(1,2)]) (use assms(3) If_bit in simp)
  show ?thesis unfolding If_bit exec.simps eq
    by (cases "eval_name e2 v s2") (auto intro!: alike_run_all alike_bstmt assms(1))
next
  case (Switch_on v cs)
  have eq: "eval_name e1 v s1 = eval_name e2 v s2" by (rule alike_eval(2) [OF assms(1,2)]) (use assms(3) Switch_on in simp)
  show ?thesis unfolding Switch_on exec.simps eq
    by (cases "eval_name e2 v s2") (auto intro!: alike_run_all alike_bstmt assms(1) split: option.split)
next
  case (Advance a n)
  then show ?thesis using assms(1) by (simp add: alike_advance)
qed (use assms in \<open>auto intro!: alike_set_var simp: alike_def\<close>)

section \<open>The generated statements\<close>

lemma entry_at_set: "entry_at t i = Some x \<Longrightarrow> x \<in> set t"
  by (auto simp: entry_at_def split: if_splits)

lemma var_name_table: "var_name t n = Some nm \<Longrightarrow> nm \<in> set vregs32 \<union> set tregs32 \<union> set vsegs"
  by (cases t) (auto simp: var_name_def get_regname_def get_segname_def operand2str_def scalar_operand_def
      set_view_def reg2str_def seg2str_def pct_def blank_operand_def Let_def split: if_splits dest: entry_at_set)

lemma var_name_not_ptr: "var_name t n = Some nm \<Longrightarrow> nm \<notin> ptr_vars"
  using var_name_table [of t n nm] by (auto simp: ptr_vars_def vregs32_def tregs32_def vsegs_def)

lemma regvar_blind: "output_regvar_code variants name sz t n cs = Some ss \<Longrightarrow> list_all blind ss"
proof -
  assume a: "output_regvar_code variants name sz t n cs = Some ss"
  then obtain nm code tests where nm: "var_name t n = Some nm"
    and tests: "collect (regbit_tests nm code sz t cs) [0..<3] = Some tests"
    and ss: "ss = tests @ (if t = REGTYPE_SEG then seg_switch nm code sz cs else [])"
    by (auto simp: output_regvar_code_def num_regbits split: bind_splits)
  have "list_all blind tests"
    by (rule collect_all [OF tests])
      (use var_name_not_ptr [OF nm] in \<open>auto simp: regbit_tests_def split: bind_splits if_splits\<close>)
  then show "list_all blind ss" using ss var_name_not_ptr [OF nm] by (auto simp: seg_switch_def)
qed

lemma regs_blind: "output_register_variable_code variants name sz cs = Some ss \<Longrightarrow> list_all blind ss"
  unfolding output_register_variable_code_def
  by (drule regvars_loop_keys, erule collect_all) (auto dest: regvar_blind)

lemma consts_blind: "output_constant_variable_code obj s s' as cs = Some ss \<Longrightarrow> list_all blind ss"
  unfolding output_constant_variable_code_def
  by (erule collect_all) (auto simp: reloc_stmt_def Let_def split: bind_splits prod.splits if_splits)

lemma joFF_blind: "output_joFF_values obj s s' as cs = Some ss \<Longrightarrow> list_all blind ss"
  unfolding output_joFF_values_def
  by (erule collect_all) (auto simp: joFF_values_def ptr_vars_def Let_def split: bind_splits prod.splits)

lemma take_params_blind: "take_params as = Some ss \<Longrightarrow> list_all blind ss"
  by (induction as arbitrary: ss rule: take_params.induct) (auto split: bind_splits)

lemma edge_targets_blind: "list_all blind (edge_targets edges cs)"
  by (auto simp: edge_targets_def ptr_vars_def list_all_iff dest!: set_zip_leftD split: if_splits)

lemma gen_case_blind: "gen_case_for srt obj entries as = Some (n, c) \<Longrightarrow> list_all blind (gc_body c)"
  by (auto simp: gen_case_for_def output_gencode_for_entry_def Let_def edge_targets_blind
      split: bind_splits if_splits dest: take_params_blind joFF_blind regs_blind consts_blind)

section \<open>The loop over the entries\<close>

lemmas gencode_loop_induct = gencode_loop.raw_induct [rotated, consumes 1, case_names step]

lemma gencode_loop_blind:
  "gencode_loop srt obj entries vars = Some r \<Longrightarrow> \<forall>cases. r = Some cases \<longrightarrow> list_all (\<lambda>c. list_all blind (gc_body c)) cases"
proof (induction rule: gencode_loop_induct)
  case (step loop srt obj entries vars r)
  show ?case
  proof (cases "length entries \<le> 1 \<or> read_assignments vars (st_name (entries ! 0)) = None")
    case True
    then show ?thesis using step(2) by (auto split: if_splits)
  next
    case False
    then obtain as vars' where as: "read_assignments vars (st_name (entries ! 0)) = Some (as, vars')" by auto
    show ?thesis
    proof (cases "gen_case_for srt obj entries as")
      case None
      then show ?thesis using step(2) False as by auto
    next
      case (Some p)
      obtain n c where p: "p = (n, c)" by fastforce
      obtain r' where r': "loop srt obj (drop n entries) vars' = Some r'" "r = map_option (Cons c) r'"
        using step(2) False as Some p by (auto split: bind_splits)
      show ?thesis using step(1) [OF r'(1)] r'(2) gen_case_blind [of srt obj entries as n c] Some p by auto
    qed
  qed
qed

text \<open>The code before each symbol and the next one is not empty.\<close>

definition all_have_code :: "elf_sym list \<Rightarrow> bool" where
  "all_have_code es \<longleftrightarrow> (\<forall>i\<in>set [0..<length es - 1]. 0 < sym_size (es ! i) (es ! (i + 1)))"

lemma get_num_variants_ge: "get_num_variants_loop name es k = Some n \<Longrightarrow> k \<le> n"
  by (induction name es k rule: get_num_variants_loop.induct) (auto split: if_splits)

lemma gen_case_advances:
  assumes "gen_case_for srt obj entries as = Some (n, c)" and "0 < sym_size (entries ! 0) (entries ! 1)"
  shows "0 < n"
  using assms get_num_variants_ge
  by (fastforce simp: gen_case_for_def output_gencode_for_entry_def get_num_variants_def Let_def split: bind_splits if_splits)

lemma all_have_code_drop: "all_have_code es \<Longrightarrow> all_have_code (drop n es)"
proof -
  assume a: "all_have_code es"
  show ?thesis
    unfolding all_have_code_def
  proof
    fix i assume "i \<in> set [0..<length (drop n es) - 1]"
    then have "n + i < length es - 1" "n \<le> length es" by auto
    then show "0 < sym_size (drop n es ! i) (drop n es ! (i + 1))"
      using a by (simp add: all_have_code_def)
  qed
qed

lemma gencode_loop_ends: "all_have_code entries \<Longrightarrow> \<exists>r. gencode_loop srt obj entries vars = Some r"
proof (induction "length entries" arbitrary: entries vars rule: less_induct)
  case less
  show ?case
  proof (cases "length entries \<le> 1 \<or> read_assignments vars (st_name (entries ! 0)) = None")
    case True
    then show ?thesis by (auto simp: gencode_loop.simps [of srt obj entries])
  next
    case False
    then obtain as vars' where as: "read_assignments vars (st_name (entries ! 0)) = Some (as, vars')" by auto
    show ?thesis
    proof (cases "gen_case_for srt obj entries as")
      case None
      then show ?thesis using as by (simp add: gencode_loop.simps [of srt obj entries])
    next
      case (Some p)
      obtain n c where p: "p = (n, c)" by fastforce
      have "0 \<in> set [0..<length entries - 1]" using False by auto
      then have "0 < sym_size (entries ! 0) (entries ! 1)" using less.prems unfolding all_have_code_def by force
      then have "0 < n" using gen_case_advances Some p by blast
      then have "length (drop n entries) < length entries" using False by auto
      from less.hyps [OF this all_have_code_drop [OF less.prems], of vars'] show ?thesis
        using as Some p by (auto simp: gencode_loop.simps [of srt obj entries])
    qed
  qed
qed

text \<open>An entry without code is tried again and again, with what is left of the file.\<close>

lemma read_assignments_end: "read_assignments [] name = Some ([], [])"
  by (simp add: read_assignments_def read_assignments_loop.simps scan_line_def str2assignments_def
      str2assignments_loop.simps assignments_init_def)

lemma gen_case_empty:
  assumes "sym_size (entries ! 0) (entries ! 1) = 0" and "take_params as \<noteq> None"
  shows "\<exists>c. gen_case_for srt obj entries as = Some (0, c)"
  using assms by (auto simp: gen_case_for_def output_gencode_for_entry_def Let_def)

lemma gencode_loop_stuck:
  "gencode_loop srt obj entries vars = Some r \<Longrightarrow> vars = [] \<Longrightarrow> 1 < length entries \<Longrightarrow>
   sym_size (entries ! 0) (entries ! 1) = 0 \<Longrightarrow> False"
proof (induction rule: gencode_loop_induct)
  case (step loop srt obj entries vars r)
  obtain c where "gen_case_for srt obj entries [] = Some (0, c)" using gen_case_empty [OF step.prems(3), of "[]" srt obj] by auto
  then obtain r' where "loop srt obj (drop 0 entries) [] = Some r'"
    using step(2) step.prems(1,2) read_assignments_end [of "st_name (entries ! 0)"]
    by (auto split: bind_splits)
  then show False using step(1) [of srt obj "drop 0 entries" "[]" r'] step.prems by simp
qed

lemma gencode_loop_again:
  assumes "read_assignments vars (st_name (entries ! 0)) = Some (as, vars')" and "take_params as \<noteq> None"
    and "1 < length entries" and "sym_size (entries ! 0) (entries ! 1) = 0"
    and "gencode_loop srt obj entries vars' = None"
  shows "gencode_loop srt obj entries vars = None"
  using assms gen_case_empty [OF assms(4,2), of srt obj] by (auto simp: gencode_loop.simps [of srt obj entries vars])

section \<open>The generated function\<close>

text \<open>
  C33. What the generated function appends has the same lengths, and the same effect on
  \<^verbatim>\<open>*is_terminating\<close>, wherever the code and the edge code are put, for every label and all
  parameters: the translator's assumption on \<^verbatim>\<open>peepgen_code\<close> holds for whatever the generator
  makes of the assembled rules.
\<close>

theorem generated_position_free:
  assumes "output_gencode srt obj vars = Some (Some cases)"
  shows "position_free (env\<lparr>e_gen := generated cases number extern\<rparr>)"
  unfolding position_free_def
proof (intro allI)
  fix label params o1 e1 o2 e2 f
  have blind: "list_all blind (gc_body c)" if "find (\<lambda>c. number (gc_name c) = label) cases = Some c" for c
    using gencode_loop_blind [OF assms [unfolded output_gencode_def]] that
    by (auto simp: find_Some_iff list_all_iff)
  have "rel_option alike (run_case cases extern c params o1 e1 f) (run_case cases extern c params o2 e2 f)"
    if "list_all blind (gc_body c)" for c
    unfolding run_case_def
    by (rule alike_run_all)
      (use that in \<open>auto simp: list_all_iff same_names_def alike_def intro!: exec_alike\<close>)
  then have "rel_option alike (run_case cases extern c params o1 e1 f) (run_case cases extern c params o2 e2 f)"
    if "find (\<lambda>c. number (gc_name c) = label) cases = Some c" for c
    using blind that by blast
  then show "let (c1, d1, t1) = e_gen (env\<lparr>e_gen := generated cases number extern\<rparr>) label params o1 e1 f;
      (c2, d2, t2) = e_gen (env\<lparr>e_gen := generated cases number extern\<rparr>) label params o2 e2 f
      in length c1 = length c2 \<and> length d1 = length d2 \<and> t1 = t2"
    by (auto simp: generated_def appended_def alike_def option_rel_Some1 option_rel_Some2 split: option.split)
qed

definition demo_vars_file :: string where
  "demo_vars_file = the (output_assignments (demo_name 0) demo_assignments)"

lemma demo_loop: "gencode_loop no_sort demo_obj demo_syms demo_vars_file = Some (Some [demo_case])"
proof -
  have "read_assignments demo_vars_file (st_name (demo_syms ! 0)) = Some (demo_assignments, [])" by code_simp
  moreover have "length demo_syms = 10" "length (drop 9 demo_syms) = 1" by (simp_all add: demo_syms_def)
  moreover have "gencode_loop no_sort demo_obj (drop 9 demo_syms) [] = Some (Some [])"
    by (subst gencode_loop.simps) (simp add: demo_syms_def)
  ultimately show ?thesis by (simp add: gencode_loop.simps [of _ _ demo_syms] demo_gen)
qed

lemma demo_output: "output_gencode no_sort demo_obj demo_vars_file = Some (Some [demo_case])"
proof -
  have "get_symtab_entries no_sort demo_obj PEEP_PREFIX_STR = demo_syms" by code_simp
  then show ?thesis by (simp add: output_gencode_def demo_loop)
qed

theorem generated_position_free_witness:
  "\<forall>env. position_free (env\<lparr>e_gen := generated [demo_case] (\<lambda>_. 1) (\<lambda>_. 0)\<rparr>)"
  by (intro allI generated_position_free [OF demo_output])

text \<open>
  C34. The loop of the generator over the symbols of the rules returns when there is code between
  each of them and the next.
\<close>

theorem output_gencode_ends:
  assumes "all_have_code (get_symtab_entries srt obj PEEP_PREFIX_STR)"
  shows "\<exists>r. output_gencode srt obj vars = Some r"
  unfolding output_gencode_def by (rule gencode_loop_ends [OF assms])

theorem output_gencode_ends_witness: "\<exists>r. output_gencode no_sort demo_obj demo_vars_file = Some r"
  by (rule output_gencode_ends) code_simp

text \<open>Otherwise it may run forever: a rule whose code is empty stops the build.\<close>

lemma output_gencode_hangs:
  assumes "get_symtab_entries srt obj PEEP_PREFIX_STR = s # s' # rest" and "sym_size s s' = 0"
    and "read_assignments vars (st_name s) = Some (as, [])" and "take_params as \<noteq> None"
  shows "output_gencode srt obj vars = None"
proof -
  have "gencode_loop srt obj (s # s' # rest) [] = None"
    using gencode_loop_stuck [of srt obj "s # s' # rest" "[]"] assms(2) by fastforce
  then show ?thesis
    using gencode_loop_again [of vars "s # s' # rest" as "[]" srt obj] assms by (simp add: output_gencode_def)
qed

end
