(* ===== verification/Gen_Tables.thy ===== *)
theory Gen_Tables
  imports Gen_Code Peep
begin

text \<open>
  The part of the build's generator (\<^verbatim>\<open>peepgen.c\<close>) that reads the assembled patterns of the
  rules back and prints the table of rules, the parameters of the snippets and the list of labels,
  and the part that puts the variables of a rule in the order in which the matcher will bind
  them. The disassembler is a parameter. A result \<open>None\<close> is an exit of the generator, an access
  outside an array or a use of a value that is not set.
\<close>

section \<open>Disassembly\<close>

definition MAX_PEEP_SIZE :: nat where "MAX_PEEP_SIZE = 12"

text \<open>
  \<open>dis bytes eip size\<close> is the instruction at the start of the bytes, for that address and operand
  size, and its length. It is called for the length first, then with the address that makes the
  instruction end at 0. An instruction of length 0 ends the loop without any instructions.
\<close>

type_synonym disassembler = "u8 list \<Rightarrow> u32 \<Rightarrow> nat \<Rightarrow> insn \<times> nat"

fun disas_loop :: "disassembler \<Rightarrow> nat \<Rightarrow> nat \<Rightarrow> u8 list \<Rightarrow> nat \<Rightarrow> insn list \<Rightarrow> insn list option" where
  "disas_loop dis operand_size 0 ptr left insns = (if left = 0 then Some insns else None)"
| "disas_loop dis operand_size (Suc room) ptr left insns =
     (if left = 0 then Some insns
      else
        let (_, len) = dis ptr 0 operand_size;
            (insn, len) = dis ptr (- of_nat len) operand_size
        in if len = 0 then Some []
           else disas_loop dis operand_size room (drop len ptr) (left - len) (insns @ [insn]))"

definition disas_insns :: "disassembler \<Rightarrow> nat \<Rightarrow> u8 list \<Rightarrow> nat \<Rightarrow> nat \<Rightarrow> insn list option" where
  "disas_insns dis insns_size code codesize operand_size =
     (if codesize \<le> length code then disas_loop dis operand_size insns_size code codesize [] else None)"

text \<open>The text section from a symbol on.\<close>

definition text_at :: "object_file \<Rightarrow> u32 \<Rightarrow> u8 list" where
  "text_at obj val = drop (unat val) (o_text obj)"

definition insns_rename_constants :: "insn list \<Rightarrow> assignments \<Rightarrow> insn list" where
  "insns_rename_constants insns as = map (\<lambda>i. insn_rename_constants i as) insns"

text \<open>The operand size that the name of a rule asks for.\<close>

definition mode_size :: "string \<Rightarrow> nat option" where
  "mode_size name = map_option (\<lambda>rest. if starts rest MODE16_STR then 2 else 4) (strstart name PEEP_PREFIX_STR)"

fun add_assignments :: "assignments \<Rightarrow> assignments \<Rightarrow> assignments option" where
  "add_assignments as [] = Some as"
| "add_assignments as ((var, v) # new) = do { as \<leftarrow> assignments_add as var v; add_assignments as new }"

definition get_assignments_without_temps :: "assignments \<Rightarrow> assignments option" where
  "get_assignments_without_temps as =
     add_assignments assignments_init (filter (\<lambda>(var, _). \<not> var_is_temporary var) as)"

text \<open>The pattern of a rule, with its constants replaced by the variables.\<close>

definition templ_of :: "disassembler \<Rightarrow> string \<Rightarrow> u8 list \<Rightarrow> nat \<Rightarrow> assignments \<Rightarrow> insn list option" where
  "templ_of dis name code codesize as =
     do {
       sz \<leftarrow> mode_size name;
       insns \<leftarrow> disas_insns dis MAX_PEEP_SIZE code codesize sz;
       as_no_temps \<leftarrow> get_assignments_without_temps as;
       Some (insns_rename_constants insns as_no_temps)
     }"

section \<open>The order of the variables\<close>

text \<open>
  A variable is added with its value unless it was added before. The fields of a memory operand
  are variables of their own; \<^verbatim>\<open>gen_mem_ord_assn\<close> gives them the size 4, segments the size 0.
\<close>

definition order_var :: "assignments \<Rightarrow> operand \<Rightarrow> assignments \<Rightarrow> assignments option" where
  "order_var as op ordered =
     do {
       v \<leftarrow> assignments_getval as op;
       (case assignments_getval ordered op of
          None \<Rightarrow> assignments_add ordered op v
        | Some _ \<Rightarrow> Some ordered)
     }"

definition gen_mem_ord_assn ::
    "assignments \<Rightarrow> opertype \<Rightarrow> u64 \<Rightarrow> tag_t \<Rightarrow> assignments \<Rightarrow> assignments option" where
  "gen_mem_ord_assn as t val tag ordered =
     (if tag \<noteq> tag_const then order_var as (scalar_operand t (if t = op_seg then 0 else 4) val tag) ordered
      else Some ordered)"

definition order_mem :: "assignments \<Rightarrow> operand \<Rightarrow> assignments \<Rightarrow> assignments option" where
  "order_mem as op ordered =
     do {
       ordered \<leftarrow>
         (if m_segtype (omem op) = segtype_sel
          then gen_mem_ord_assn as op_seg (of_int (seg_sel (omem op))) (mt_seg (omtag op)) ordered
          else gen_mem_ord_assn as op_imm (ucast (m_seg (omem op))) (mt_seg (omtag op)) ordered);
       ordered \<leftarrow> gen_mem_ord_assn as op_reg (of_int (m_base (omem op))) (mt_base (omtag op)) ordered;
       ordered \<leftarrow> gen_mem_ord_assn as op_reg (of_int (m_index (omem op))) (mt_index (omtag op)) ordered;
       gen_mem_ord_assn as op_imm (m_disp (omem op)) (mt_disp (omtag op)) ordered
     }"

definition order_operand :: "assignments \<Rightarrow> operand \<Rightarrow> assignments \<Rightarrow> assignments option" where
  "order_operand as op ordered =
     do {
       _ \<leftarrow> operand2str op;
       if otag op \<noteq> tag_const then order_var as op ordered
       else if otype op = op_mem then order_mem as op ordered
       else Some ordered
     }"

fun order_operands :: "assignments \<Rightarrow> operand list \<Rightarrow> assignments \<Rightarrow> assignments option" where
  "order_operands as [] ordered = Some ordered"
| "order_operands as (op # ops) ordered =
     do { ordered \<leftarrow> order_operand as op ordered; order_operands as ops ordered }"

fun order_insns :: "assignments \<Rightarrow> insn list \<Rightarrow> assignments \<Rightarrow> assignments option" where
  "order_insns as [] ordered = Some ordered"
| "order_insns as (i # is) ordered =
     do { ordered \<leftarrow> order_operands as (take 3 (i_op i)) ordered; order_insns as is ordered }"

text \<open>The temporaries come last; any other variable has to be in the pattern.\<close>

fun order_temporaries :: "assignments \<Rightarrow> assignments \<Rightarrow> assignments option" where
  "order_temporaries [] ordered = Some ordered"
| "order_temporaries ((var, v) # as) ordered =
     (case assignments_getval ordered var of
        Some _ \<Rightarrow> order_temporaries as ordered
      | None \<Rightarrow>
          if \<not> var_is_temporary var then None
          else do { ordered \<leftarrow> assignments_add ordered var v; order_temporaries as ordered })"

definition order_variables :: "assignments \<Rightarrow> insn list \<Rightarrow> assignments option" where
  "order_variables as templ =
     do { ordered \<leftarrow> order_insns as templ assignments_init; order_temporaries as ordered }"

definition gen_vars_ordered_for_entry ::
    "disassembler \<Rightarrow> string \<Rightarrow> u8 list \<Rightarrow> nat \<Rightarrow> assignments \<Rightarrow> string option" where
  "gen_vars_ordered_for_entry dis name code codesize as =
     do {
       templ \<leftarrow> templ_of dis name code codesize as;
       ordered \<leftarrow> order_variables as templ;
       output_assignments name ordered
     }"

fun vars_ordered_loop :: "disassembler \<Rightarrow> object_file \<Rightarrow> elf_sym list \<Rightarrow> string \<Rightarrow> string option" where
  "vars_ordered_loop dis obj (s # s' # ss) vars =
     do {
       (as, vars) \<leftarrow> read_assignments vars (st_name s);
       out \<leftarrow>
         (if starts (st_name s) SNIPPET_PREFIX_STR then output_assignments (st_name s) as
          else gen_vars_ordered_for_entry dis (st_name s) (text_at obj (st_value s)) (sym_size s s') as);
       rest \<leftarrow> vars_ordered_loop dis obj (s' # ss) vars;
       Some (out @ rest)
     }"
| "vars_ordered_loop dis obj _ vars = Some []"

definition gen_vars_ordered :: "disassembler \<Rightarrow> sym_sort \<Rightarrow> object_file \<Rightarrow> string \<Rightarrow> string option" where
  "gen_vars_ordered dis srt obj vars =
     vars_ordered_loop dis obj (get_symtab_entries srt obj PEEP_PREFIX_STR) vars"

section \<open>The table of rules\<close>

definition quoted :: "string \<Rightarrow> string" where "quoted s = [CHR 0x22] @ s @ [CHR 0x22]"

text \<open>The format \<^verbatim>\<open>%#llx\<close>.\<close>

definition alt_hex64 :: "u64 \<Rightarrow> string" where
  "alt_hex64 x = (if x = 0 then ''0'' else ''0x'' @ show_hex (unat x))"

definition braces :: "string \<Rightarrow> string" where "braces s = ''{'' @ s @ ''}''"

definition segtype_num :: "segtype \<Rightarrow> nat" where
  "segtype_num t = (case t of segtype_sel \<Rightarrow> 0 | segtype_desc \<Rightarrow> 1)"

definition mem_entry_text :: "operand \<Rightarrow> string" where
  "mem_entry_text op =
     (let v = omem op; tag = omtag op in
      ''{.mem={'' @ show_dec (m_addrsize v) @ '','' @ show_dec (segtype_num (m_segtype v)) @ '',{'' @
      show_dec (unat (m_seg v)) @ ''},'' @ show_int (m_base v) @ '','' @ show_dec (m_scale v) @ '','' @
      show_int (m_index v) @ '','' @ show_dec (unat (m_disp v)) @ ''}},{.mem={'' @ tag2str (otag op) @ '',{'' @
      tag2str (mt_seg tag) @ ''},'' @ tag2str (mt_base tag) @ '','' @ tag2str (mt_index tag) @ '','' @
      tag2str (mt_disp tag) @ ''}}'')"

definition scalar_entry_text :: "operand \<Rightarrow> string \<Rightarrow> string" where
  "scalar_entry_text op t =
     (let v = view (otype op) op in
      ''{.'' @ t @ ''='' @ (if otype op = op_imm then alt_hex64 v else show_dec (unat v)) @ ''},{.'' @ t @ ''='' @
      tag2str (otag op) @ ''}'')"

text \<open>The types without a value in the switch are printed with a value that is not set.\<close>

definition operand_entry_text :: "operand \<Rightarrow> string option" where
  "operand_entry_text op =
     do {
       t \<leftarrow> get_opertype_str (otype op);
       body \<leftarrow> (if otype op = op_mem then Some (mem_entry_text op)
                else if otype op = op_pcrel \<or> otype op = op_st then None
                else Some (scalar_entry_text op t));
       Some (''{op_'' @ t @ '','' @ show_dec (osize op) @ '','' @ show_dec (if orex op then 1 else 0) @ '','' @
         body @ ''},'')
     }"

fun operand_entries :: "operand list \<Rightarrow> string option" where
  "operand_entries [] = Some []"
| "operand_entries (op # ops) =
     (if otype op = invalid then Some []
      else do { s \<leftarrow> operand_entry_text op; r \<leftarrow> operand_entries ops; Some (s @ r) })"

fun insn_entries :: "btmod_opctable \<Rightarrow> insn list \<Rightarrow> string option" where
  "insn_entries ot [] = Some []"
| "insn_entries ot (i # is) =
     do {
       ops \<leftarrow> operand_entries (take 3 (i_op i));
       rest \<leftarrow> insn_entries ot is;
       Some (''{'' @ show_int (i_opc i) @ '', '' @ quoted (opctable_name ot (i_opc i)) @ '',{'' @ ops @ ''}},'' @ rest)
     }"

definition pair_entry :: "nomatch_pair \<Rightarrow> string" where
  "pair_entry p =
     braces (show_int (np_reg1 p) @ '','' @ show_int (np_reg2 p) @ '','' @ tag2str (np_tag1 p) @ '','' @
       tag2str (np_tag2 p)) @ '',''"

definition tag_entries :: "tag_t list \<Rightarrow> string" where
  "tag_entries tags = concat (map (\<lambda>t. tag2str t @ '','') tags)"

definition gen_peeptab_entry ::
    "disassembler \<Rightarrow> btmod_opctable \<Rightarrow> string \<Rightarrow> u8 list \<Rightarrow> nat \<Rightarrow> assignments \<Rightarrow> u64 \<Rightarrow> nomatch_pair list \<Rightarrow>
     string option" where
  "gen_peeptab_entry dis ot index_name code codesize as cpu_constraints pairs =
     do {
       templ \<leftarrow> templ_of dis index_name code codesize as;
       let temporaries = assignments_get_temporaries as;
       insns \<leftarrow> insn_entries ot templ;
       Some (''{'' @ show_dec (length templ) @ '',{'' @ insns @ ''},'' @ index_name @ '','' @
         show_dec (length temporaries) @ '',{'' @ tag_entries temporaries @ ''},'' @ alt_hex64 cpu_constraints @
         '','' @ show_dec (length pairs) @ '',{'' @ concat (map pair_entry pairs) @ ''},'' @ quoted index_name @
         '',},'' @ nl)
     }"

definition gen_snippet_entry :: "string \<Rightarrow> assignments \<Rightarrow> nomatch_pair list \<Rightarrow> string" where
  "gen_snippet_entry index_name as pairs =
     ''tag_t const '' @ index_name @ ''_temporary_tags[] = {'' @ tag_entries (assignments_get_temporaries as) @
     ''};'' @ nl @
     ''int '' @ index_name @ ''_num_nomatch_pairs = '' @ show_dec (length pairs) @ '';'' @ nl @
     ''nomatch_pair_t const '' @ index_name @ ''_nomatch_pairs[] =  {'' @ concat (map pair_entry pairs) @ ''};'' @ nl"

text \<open>The three files are read in parallel; the results are the table and the file of the snippets.\<close>

fun peep_tab_loop ::
    "disassembler \<Rightarrow> btmod_opctable \<Rightarrow> object_file \<Rightarrow> elf_sym list \<Rightarrow> string \<Rightarrow> string \<Rightarrow> string \<Rightarrow>
     (string \<times> string) option" where
  "peep_tab_loop dis ot obj (s # s' # ss) vars constraints nomatch =
     do {
       (as, vars) \<leftarrow> read_assignments vars (st_name s);
       (c, constraints) \<leftarrow> read_cpu_constraints constraints (st_name s);
       (pairs, nomatch) \<leftarrow> read_nomatch_pairs nomatch (st_name s);
       (entry, snippet) \<leftarrow>
         (if starts (st_name s) SNIPPET_PREFIX_STR then Some ([], gen_snippet_entry (st_name s) as pairs)
          else map_option (\<lambda>e. (e, []))
                 (gen_peeptab_entry dis ot (st_name s) (text_at obj (st_value s)) (sym_size s s') as c pairs));
       (tab, snippets) \<leftarrow> peep_tab_loop dis ot obj (s' # ss) vars constraints nomatch;
       Some (entry @ tab, snippet @ snippets)
     }"
| "peep_tab_loop dis ot obj _ vars constraints nomatch = Some ([], [])"

definition gen_peep_tab ::
    "disassembler \<Rightarrow> btmod_opctable \<Rightarrow> sym_sort \<Rightarrow> object_file \<Rightarrow> string \<Rightarrow> string \<Rightarrow> string \<Rightarrow>
     (string \<times> string) option" where
  "gen_peep_tab dis ot srt obj vars constraints nomatch =
     peep_tab_loop dis ot obj (get_symtab_entries srt obj PEEP_PREFIX_STR) vars constraints nomatch"

section \<open>The list of labels\<close>

definition gen_defs_from_file :: "sym_sort \<Rightarrow> object_file \<Rightarrow> string" where
  "gen_defs_from_file srt obj =
     concat (map (\<lambda>s. ''DEF('' @ drop (length PEEP_PREFIX_STR) (st_name s) @ '')'' @ nl)
       (butlast (get_symtab_entries srt obj PEEP_PREFIX_STR)))"

end
