(* ===== verification/Gen_Nomatch.thy ===== *)
theory Gen_Nomatch
  imports Gen_Tables
begin

text \<open>
  The part of the build's generator (\<^verbatim>\<open>peepgen.c\<close>) that computes the conflict pairs of a rule:
  the assembled output of the rule is disassembled, its registers are named after the variables
  by comparing the variants of the entry, and a pass from the last instruction to the first
  collects, for every variable that an instruction sets, the registers that are used later. A
  result \<open>None\<close> is a failed ASSERT, an access outside an array, a use of a value that is not set
  or a loop that does not end.
\<close>

section \<open>Comparing instructions\<close>

definition MAX_OUT_N_INSNS :: nat where "MAX_OUT_N_INSNS = 512"

text \<open>The test of the address sizes compares an operand with itself.\<close>

definition insns_are_isomorphic :: "insn \<Rightarrow> insn \<Rightarrow> bool" where
  "insns_are_isomorphic a b \<longleftrightarrow>
     i_opc a = i_opc b \<and>
     list_all2 (\<lambda>x y. otype x = otype y \<and> osize x = osize y \<and>
         (otype x = op_mem \<longrightarrow> m_addrsize (omem x) = m_addrsize (omem x)))
       (take 3 (i_op a)) (take 3 (i_op b))"

definition insn_seqs_are_isomorphic :: "insn list \<Rightarrow> insn list \<Rightarrow> bool" where
  "insn_seqs_are_isomorphic a b \<longleftrightarrow> length a = length b \<and> list_all2 insns_are_isomorphic a b"

fun tag_num :: "tag_t \<Rightarrow> int" where
  "tag_num tag_const = 0"
| "tag_num tag_var = 1"
| "tag_num tag_eax = 2"
| "tag_num tag_abcd = 3"
| "tag_num tag_no_esp = 4"
| "tag_num tag_no_eax = 5"
| "tag_num tag_no_eax_esp = 6"
| "tag_num tag_no_cs_gs = 7"
| "tag_num tag_cs_gs = 8"

text \<open>
  The macro \<^verbatim>\<open>pattern_match_field\<close>, for the tag and the value of a field and those of the field it
  is compared with. Both come from the same operand, since both pointers are taken from the first
  instruction: a variable with the number of the register fails the first ASSERT, and the tag of
  the second is compared with a register number.
\<close>

definition pattern_match_field ::
    "tag_t \<times> int \<Rightarrow> tag_t \<times> int \<Rightarrow> int \<Rightarrow> int \<Rightarrow> int \<Rightarrow> (tag_t \<times> int) option" where
  "pattern_match_field f c regnum default_regval cur_regval =
     (if fst f \<noteq> tag_const \<and> snd f = regnum then
        (if fst c \<noteq> tag_const then None
         else if snd c = cur_regval then Some f
         else if tag_num (fst c) \<noteq> default_regval then None
         else Some (tag_const, default_regval))
      else if fst f = tag_const then (if snd f = snd c then Some f else None)
      else Some f)"

definition operand_pattern_match_regvar :: "int \<Rightarrow> int \<Rightarrow> int \<Rightarrow> operand \<Rightarrow> operand option" where
  "operand_pattern_match_regvar regnum default_regval cur_regval op =
     (if otype op = op_mem then
        (let b = (mt_base (omtag op), m_base (omem op)); x = (mt_index (omtag op), m_index (omem op)) in
         do {
           (bt, bv) \<leftarrow> pattern_match_field b b regnum default_regval cur_regval;
           (xt, xv) \<leftarrow> pattern_match_field x x regnum default_regval cur_regval;
           Some (op\<lparr>omem := (omem op)\<lparr>m_base := bv, m_index := xv\<rparr>, omtag := (omtag op)\<lparr>mt_base := bt, mt_index := xt\<rparr>\<rparr>)
         })
      else if otype op = op_reg then
        (let r = (otag op, int (val_reg op)) in
         do {
           (t, v) \<leftarrow> pattern_match_field r r regnum default_regval cur_regval;
           Some (if (t, v) = r then op else (set_view op_reg (of_int v) op)\<lparr>otag := t\<rparr>)
         })
      else Some op)"

fun operands_pattern_match_regvar :: "int \<Rightarrow> int \<Rightarrow> int \<Rightarrow> operand list \<Rightarrow> operand list option" where
  "operands_pattern_match_regvar regnum default_regval cur_regval [] = Some []"
| "operands_pattern_match_regvar regnum default_regval cur_regval (op # ops) =
     do {
       op \<leftarrow> operand_pattern_match_regvar regnum default_regval cur_regval op;
       ops \<leftarrow> operands_pattern_match_regvar regnum default_regval cur_regval ops;
       Some (op # ops)
     }"

definition insn_pattern_match_regvar :: "insn \<Rightarrow> insn \<Rightarrow> int \<Rightarrow> int \<Rightarrow> int \<Rightarrow> insn option" where
  "insn_pattern_match_regvar insn c_insn regnum default_regval cur_regval =
     map_option (\<lambda>ops. insn\<lparr>i_op := ops\<rparr>)
       (operands_pattern_match_regvar regnum default_regval cur_regval (i_op insn))"

text \<open>The caller has checked that the two codes have as many instructions.\<close>

fun insn_seq_pattern_match_regvar ::
    "insn list \<Rightarrow> insn list \<Rightarrow> int \<Rightarrow> int \<Rightarrow> int \<Rightarrow> insn list option" where
  "insn_seq_pattern_match_regvar (i # is) (c # cs) regnum default_regval cur_regval =
     do {
       i \<leftarrow> insn_pattern_match_regvar i c regnum default_regval cur_regval;
       is \<leftarrow> insn_seq_pattern_match_regvar is cs regnum default_regval cur_regval;
       Some (i # is)
     }"
| "insn_seq_pattern_match_regvar is [] regnum default_regval cur_regval = Some is"
| "insn_seq_pattern_match_regvar [] (c # cs) regnum default_regval cur_regval = None"

section \<open>Naming the registers\<close>

text \<open>
  The macro \<^verbatim>\<open>regvar_union_on_memfield\<close>: a field that is a variable in the second operand and
  constant in the first becomes this variable. The types have to agree.
\<close>

definition operand_regvar_union :: "operand \<Rightarrow> operand \<Rightarrow> operand option" where
  "operand_regvar_union op v_op =
     (if otype op \<noteq> otype v_op then None
      else if otype v_op = op_reg then
        Some (if otag v_op \<noteq> tag_const \<and> otag op = tag_const
              then (set_view op_reg (view op_reg v_op) op)\<lparr>otag := otag v_op\<rparr> else op)
      else if otype v_op = op_mem then
        (let vt = omtag v_op; v = omem v_op;
             op = (if mt_base vt \<noteq> tag_const \<and> mt_base (omtag op) = tag_const
                   then op\<lparr>omem := (omem op)\<lparr>m_base := m_base v\<rparr>, omtag := (omtag op)\<lparr>mt_base := mt_base vt\<rparr>\<rparr> else op)
         in Some (if mt_index vt \<noteq> tag_const \<and> mt_index (omtag op) = tag_const
                  then op\<lparr>omem := (omem op)\<lparr>m_index := m_index v\<rparr>, omtag := (omtag op)\<lparr>mt_index := mt_index vt\<rparr>\<rparr> else op))
      else Some op)"

fun operands_regvar_union :: "operand list \<Rightarrow> operand list \<Rightarrow> operand list option" where
  "operands_regvar_union (op # ops) (v # vs) =
     do { op \<leftarrow> operand_regvar_union op v; ops \<leftarrow> operands_regvar_union ops vs; Some (op # ops) }"
| "operands_regvar_union ops vs = Some ops"

definition insn_regvar_union :: "insn \<Rightarrow> insn \<Rightarrow> insn option" where
  "insn_regvar_union insn v_insn =
     map_option (\<lambda>ops. insn\<lparr>i_op := ops\<rparr>) (operands_regvar_union (i_op insn) (take 3 (i_op v_insn)))"

fun insns_regvar_union :: "insn list \<Rightarrow> insn list \<Rightarrow> insn list option" where
  "insns_regvar_union [] r_insns = Some []"
| "insns_regvar_union (i # is) [] = None"
| "insns_regvar_union (i # is) (r # rs) =
     do { i \<leftarrow> insn_regvar_union i r; is \<leftarrow> insns_regvar_union is rs; Some (i # is) }"

text \<open>
  The other variants of the variable are disassembled and compared, which changes only the copy
  that is compared; the result is the number of variants. A variant has to differ from the
  first in its register and to have as many instructions.
\<close>

fun reg_variants_loop ::
    "disassembler \<Rightarrow> object_file \<Rightarrow> insn list \<Rightarrow> string \<Rightarrow> int \<Rightarrow> int \<Rightarrow> elf_sym list \<Rightarrow> nat \<Rightarrow> nat option" where
  "reg_variants_loop dis obj insns rname regnum regval [] num_variants = None"
| "reg_variants_loop dis obj insns rname regnum regval (s # ss) num_variants =
     (case strstart (st_name s) rname of
        None \<Rightarrow> Some num_variants
      | Some rval_str \<Rightarrow>
          if ss = [] \<or> atoi rval_str = regval then None
          else do {
            rv_insns \<leftarrow> disas_insns dis MAX_OUT_N_INSNS (text_at obj (st_value s)) (sym_size s (hd ss)) 4;
            _ \<leftarrow> (if length rv_insns = length insns then Some () else None);
            _ \<leftarrow> insn_seq_pattern_match_regvar rv_insns insns regnum regval (atoi rval_str);
            reg_variants_loop dis obj insns rname regnum regval ss (num_variants + 1)
          })"

text \<open>
  The number of entries done and the instructions with the registers of one variable named.
  Segment variables end the search: the rest of the variants is skipped. When the variant cannot
  be disassembled nothing is done, and the caller tries it again.
\<close>

definition identify_reg_variables_in_outcode ::
    "disassembler \<Rightarrow> object_file \<Rightarrow> string \<Rightarrow> insn list \<Rightarrow> elf_sym list \<Rightarrow> (nat \<times> insn list) option" where
  "identify_reg_variables_in_outcode dis obj name insns entries =
     (case entries of
        s # s' # ss \<Rightarrow>
          do {
            (t, regnum, regval) \<leftarrow> parse_vname (st_name s) name;
            num_variants \<leftarrow> get_num_variants entries name;
            if t = REGTYPE_SEG then Some (num_variants, insns)
            else if \<not> starts (st_name s) (name @ ''_r_'' @ show_int regnum @ ''_'') then None
            else do {
              r_insns \<leftarrow> disas_insns dis MAX_OUT_N_INSNS (text_at obj (st_value s)) (sym_size s s') 4;
              if r_insns = [] then Some (0, insns)
              else if \<not> insn_seqs_are_isomorphic insns r_insns \<or> regval < 0 \<or> int NUM_REGS \<le> regval then None
              else do {
                as \<leftarrow> assignments_add assignments_init (scalar_operand op_reg 4 (of_int regnum) tag_var)
                       (scalar_operand op_reg 4 (of_int regval) tag_const);
                insns \<leftarrow> insns_regvar_union insns (insns_rename_constants r_insns as);
                n \<leftarrow> reg_variants_loop dis obj insns (name @ ''_r_'' @ show_int regnum @ ''_'') regnum regval
                      (s' # ss) 1;
                Some (n, insns)
              }
            }
          }
      | _ \<Rightarrow> None)"

function variants_loop ::
    "disassembler \<Rightarrow> object_file \<Rightarrow> string \<Rightarrow> insn list \<Rightarrow> elf_sym list \<Rightarrow> nat \<Rightarrow> (nat \<times> insn list) option" where
  "variants_loop dis obj name insns [] num_variants = None"
| "variants_loop dis obj name insns (s # ss) num_variants =
     (if starts (st_name s) (name @ ''_'') then
        (case identify_reg_variables_in_outcode dis obj name insns (s # ss) of
           None \<Rightarrow> None
         | Some (k, insns) \<Rightarrow>
             if k = 0 then None else variants_loop dis obj name insns (drop k (s # ss)) (num_variants + k))
      else Some (num_variants, insns))"
  by pat_completeness auto

termination
  by (relation "measure (\<lambda>(_, _, _, _, entries, _). length entries)") auto

declare variants_loop.simps [simp del]

section \<open>The pass over the instructions\<close>

text \<open>From the last instruction to the first: the registers in use and the pairs so far.\<close>

fun nomatch_loop :: "insn list \<Rightarrow> (regset \<times> nomatch_pair list) option" where
  "nomatch_loop [] = Some (regset_clear_all, [])"
| "nomatch_loop (insn # insns) =
     do {
       (use, pairs) \<leftarrow> nomatch_loop insns;
       (iuse, idef) \<leftarrow> insn_get_usedef insn;
       pairs \<leftarrow> regset_output_nomatch_pairs pairs MAX_NOMATCH_PAIRS idef use;
       Some (regset_union (regset_diff use idef) iuse, pairs)
     }"

definition output_nomatch_pairs_for_entry ::
    "disassembler \<Rightarrow> object_file \<Rightarrow> elf_sym list \<Rightarrow> (nat \<times> string) option" where
  "output_nomatch_pairs_for_entry dis obj entries =
     (let s = entries ! 0; s' = entries ! 1; sz = sym_size s s'; name = st_name s in
      if sz = 0 then Some (0, [])
      else do {
        insns \<leftarrow> disas_insns dis MAX_OUT_N_INSNS (text_at obj (st_value s)) sz 4;
        (num_variants, insns) \<leftarrow> variants_loop dis obj name insns (tl entries) 1;
        (_, pairs) \<leftarrow> nomatch_loop insns;
        line \<leftarrow> nomatch_pairs_line pairs;
        Some (num_variants, name @ '':'' @ nl @ line @ nl)
      })"

text \<open>An entry without code stops the loop as it does in the generation of the code.\<close>

function nomatch_entries_loop :: "disassembler \<Rightarrow> object_file \<Rightarrow> elf_sym list \<Rightarrow> string \<Rightarrow> string option" where
  "nomatch_entries_loop dis obj entries vars =
     (if length entries \<le> 1 then Some []
      else
        case read_assignments vars (st_name (entries ! 0)) of
          None \<Rightarrow> None
        | Some (_, vars) \<Rightarrow>
            (case output_nomatch_pairs_for_entry dis obj entries of
               None \<Rightarrow> None
             | Some (num_variants, out) \<Rightarrow>
                 if num_variants = 0 then None
                 else map_option ((@) out) (nomatch_entries_loop dis obj (drop num_variants entries) vars)))"
  by pat_completeness auto

termination
  by (relation "measure (\<lambda>(_, _, entries, _). length entries)") auto

declare nomatch_entries_loop.simps [simp del]

definition output_nomatch_pairs :: "disassembler \<Rightarrow> sym_sort \<Rightarrow> object_file \<Rightarrow> string \<Rightarrow> string option" where
  "output_nomatch_pairs dis srt obj vars =
     nomatch_entries_loop dis obj (get_symtab_entries srt obj PEEP_PREFIX_STR) vars"

text \<open>
  An operand is compared with itself, so the comparison of the variants changes nothing: it
  leaves the instructions as they are or fails an ASSERT.
\<close>

lemma pattern_match_self: "pattern_match_field f f regnum default_regval cur_regval = Some g \<Longrightarrow> g = f"
  by (auto simp: pattern_match_field_def split: if_splits)

lemma operand_pattern_match_same:
  assumes "operand_pattern_match_regvar regnum default_regval cur_regval op = Some op'"
  shows "op' = op"
proof -
  have "(omem op)\<lparr>m_base := m_base (omem op), m_index := m_index (omem op)\<rparr> = omem op"
    "(omtag op)\<lparr>mt_base := mt_base (omtag op), mt_index := mt_index (omtag op)\<rparr> = omtag op" by simp_all
  then have "op\<lparr>omem := (omem op)\<lparr>m_base := m_base (omem op), m_index := m_index (omem op)\<rparr>,
      omtag := (omtag op)\<lparr>mt_base := mt_base (omtag op), mt_index := mt_index (omtag op)\<rparr>\<rparr> = op" by simp
  with assms show ?thesis
    by (auto simp: operand_pattern_match_regvar_def Let_def split: if_splits Option.bind_splits dest!: pattern_match_self)
qed

end
