(* ===== verification/Gen_Nomatch_Props.thy ===== *)
theory Gen_Nomatch_Props
  imports Gen_Nomatch Regset_Props Peep_Props Insn_Reads
begin

text \<open>
  The conflict pairs of a rule are exactly the interferences of its code as \<^verbatim>\<open>insn_get_usedef\<close>
  sees them, and so a temporary is never given a machine register whose value its code still
  needs, as long as this value is not read by an instruction that also sets the register.
\<close>

section \<open>Pairs as sets\<close>

definition upairs :: "nomatch_pair list \<Rightarrow> rname set set" where
  "upairs ps = (\<lambda>p. {(np_reg1 p, np_tag1 p), (np_reg2 p, np_tag2 p)}) ` set ps"

lemma pair_matches_iff:
  "pair_matches p (fst x) (snd x) (fst y) (snd y) \<longleftrightarrow> {(np_reg1 p, np_tag1 p), (np_reg2 p, np_tag2 p)} = {x, y}"
  by (cases x, cases y) (simp add: pair_matches_def doubleton_eq_iff, blast)

lemma conflict_upairs: "conflict ps x y \<longleftrightarrow> {x, y} \<in> upairs ps"
  by (auto simp: conflict_def upairs_def pair_matches_iff image_iff)

lemma upairs_eqI:
  assumes "\<And>x y. conflict ps x y \<longleftrightarrow> {x, y} \<in> S" and "\<And>s. s \<in> S \<Longrightarrow> \<exists>x y. s = {x, y}"
  shows "upairs ps = S"
proof (rule set_eqI)
  fix s
  show "s \<in> upairs ps \<longleftrightarrow> s \<in> S"
  proof
    assume "s \<in> upairs ps"
    then obtain x y where "s = {x, y}" by (auto simp: upairs_def)
    with \<open>s \<in> upairs ps\<close> show "s \<in> S" using assms(1) conflict_upairs by blast
  next
    assume "s \<in> S"
    then obtain x y where "s = {x, y}" using assms(2) by blast
    with \<open>s \<in> S\<close> show "s \<in> upairs ps" using assms(1) conflict_upairs by blast
  qed
qed

lemma card_upairs: "pairs_ok ps \<Longrightarrow> card (upairs ps) = length ps"
proof (induction ps rule: rev_induct)
  case (snoc p ps)
  let ?f = "\<lambda>p. {(np_reg1 p, np_tag1 p), (np_reg2 p, np_tag2 p)}"
  have ok: "pairs_ok ps" and new: "\<forall>q\<in>set ps. \<not> pair_matches q (np_reg1 p) (np_tag1 p) (np_reg2 p) (np_tag2 p)"
    using snoc.prems by (auto simp: pairs_ok_def sorted_wrt_append)
  have "?f p \<notin> upairs ps"
  proof
    assume "?f p \<in> upairs ps"
    then obtain q where "q \<in> set ps" "?f q = ?f p" unfolding upairs_def by (metis (no_types, lifting) imageE)
    then show False using new pair_matches_iff [of q "(np_reg1 p, np_tag1 p)" "(np_reg2 p, np_tag2 p)"] by simp
  qed
  moreover have "upairs (ps @ [p]) = insert (?f p) (upairs ps)" by (simp add: upairs_def)
  moreover have "finite (upairs ps)" by (simp add: upairs_def)
  ultimately show ?case using snoc.IH [OF ok] by simp
qed (simp add: upairs_def)

lemma finite_upairs [simp]: "finite (upairs ps)" by (simp add: upairs_def)

section \<open>When the pairs fit\<close>

text \<open>Adding a pair works exactly as long as the pairs fit.\<close>

definition added :: "nat \<Rightarrow> nomatch_pair list \<Rightarrow> rname set set \<Rightarrow> nomatch_pair list option \<Rightarrow> bool" where
  "added m ps new res \<longleftrightarrow>
     (if card (upairs ps \<union> new) \<le> m
      then \<exists>ps'. res = Some ps' \<and> pairs_ok ps' \<and> upairs ps' = upairs ps \<union> new
      else res = None)"

lemma nomatch_pair_added:
  assumes ok: "pairs_ok ps" "length ps \<le> m" and sm: "small a" "small b"
  shows "added m ps {{(a, s), (b, t)}} (nomatch_pair_add ps m a s b t)"
proof (cases "nomatch_pair_add ps m a s b t")
  case None
  then have "\<not> conflict ps (a, s) (b, t)" "m \<le> length ps"
    by (auto simp: nomatch_pair_add_def conflict_def list_ex_iff split: if_splits)
  then have "card (insert {(a, s), (b, t)} (upairs ps)) = Suc (length ps)" "m = length ps"
    using ok by (simp_all add: conflict_upairs card_upairs)
  with None show ?thesis by (simp add: added_def)
next
  case (Some ps')
  have eq: "upairs ps' = insert {(a, s), (b, t)} (upairs ps)"
  proof (rule upairs_eqI)
    show "conflict ps' x y \<longleftrightarrow> {x, y} \<in> insert {(a, s), (b, t)} (upairs ps)" for x y
      using nomatch_pair_add_Some(1) [OF Some sm, of x y] by (simp only: conflict_upairs insert_iff) blast
    show "\<exists>x y. s = {x, y}" if "s \<in> insert {(a, s'), (b, t)} (upairs ps)" for s s'
      using that by (auto simp: upairs_def)
  qed
  have ok': "pairs_ok ps'" by (rule nomatch_pair_add_Some(2) [OF Some sm ok(1)])
  have "length ps' \<le> m" using Some ok(2) by (auto simp: nomatch_pair_add_def split: if_splits)
  with Some eq ok' card_upairs [OF ok'] show ?thesis by (simp add: added_def)
qed

lemma added_bind:
  assumes one: "added m ps new res" and two: "\<And>ps'. pairs_ok ps' \<Longrightarrow> length ps' \<le> m \<Longrightarrow> added m ps' new' (f ps')"
    and fin: "finite new" "finite new'"
  shows "added m ps (new \<union> new') (Option.bind res f)"
proof (cases "card (upairs ps \<union> new) \<le> m")
  case True
  then obtain ps' where ps': "res = Some ps'" "pairs_ok ps'" "upairs ps' = upairs ps \<union> new"
    using one by (auto simp: added_def)
  moreover have "length ps' \<le> m" using True ps' card_upairs [OF ps'(2)] by simp
  ultimately show ?thesis using two [of ps'] by (simp add: added_def Un_assoc split: if_splits)
next
  case False
  moreover have "card (upairs ps \<union> new) \<le> card (upairs ps \<union> (new \<union> new'))"
    by (rule card_mono) (use fin in auto)
  ultimately show ?thesis using one by (simp add: added_def)
qed

lemma added_none: "pairs_ok ps \<Longrightarrow> length ps \<le> m \<Longrightarrow> added m ps {} (Some ps)"
  by (simp add: added_def card_upairs)

lemma add_pairs_added:
  assumes "pairs_ok ps" "length ps \<le> m" "small i" "\<forall>(j, t)\<in>set js. small j"
  shows "added m ps ((\<lambda>w. {(i, tag_var), w}) ` set js) (add_pairs m i js ps)"
  using assms
proof (induction js arbitrary: ps)
  case (Cons w js)
  obtain j t where w: "w = (j, t)" by (cases w)
  have "added m ps ({{(i, tag_var), (j, t)}} \<union> (\<lambda>w. {(i, tag_var), w}) ` set js)
      (Option.bind (nomatch_pair_add ps m i tag_var j t) (add_pairs m i js))"
    by (rule added_bind [OF nomatch_pair_added]) (use Cons w in auto)
  then show ?case by (simp add: w)
qed (simp add: added_none)

lemma output_pairs_added:
  assumes "pairs_ok ps" "length ps \<le> m" "\<forall>i\<in>set is. small i \<and> (\<forall>(j, t)\<in>set (used_others rs i). small j)"
  shows "added m ps (\<Union>i\<in>set is. (\<lambda>w. {(i, tag_var), w}) ` set (used_others rs i)) (output_pairs m rs is ps)"
  using assms
proof (induction "is" arbitrary: ps)
  case (Cons i "is")
  have "added m ps ((\<lambda>w. {(i, tag_var), w}) ` set (used_others rs i) \<union>
      (\<Union>i\<in>set is. (\<lambda>w. {(i, tag_var), w}) ` set (used_others rs i)))
    (Option.bind (add_pairs m i (used_others rs i) ps) (output_pairs m rs is))"
    by (rule added_bind [OF add_pairs_added]) (use Cons in auto)
  then show ?case by simp
qed (simp add: added_none)

text \<open>The pairs of one instruction.\<close>

definition new_pairs :: "(bool \<times> int) set \<Rightarrow> (bool \<times> int) set \<Rightarrow> rname set set" where
  "new_pairs defs live = {{(v, tag_var), rname u} | v u. (False, v) \<in> defs \<and> u \<in> live \<and> u \<noteq> (False, v)}"

lemma output_nomatch_pairs_added:
  assumes "pairs_ok ps" "length ps \<le> m" "regset_ok idef" "regset_ok use"
  shows "added m ps (new_pairs (members idef) (members use)) (regset_output_nomatch_pairs ps m idef use)"
proof -
  have "(\<Union>i\<in>set (defined_vars idef). (\<lambda>w. {(i, tag_var), w}) ` set (used_others use i)) =
      new_pairs (members idef) (members use)"
    unfolding set_defined_vars used_others_set new_pairs_def by blast
  then show ?thesis
    using output_pairs_added [OF assms(1,2) loops_small [OF assms(3,4)]]
    by (simp add: regset_output_nomatch_pairs_def defined_vars_def)
qed

section \<open>Interferences\<close>

text \<open>The registers an instruction reads and sets, as far as \<^verbatim>\<open>insn_get_usedef\<close> tells.\<close>

definition insn_uses :: "insn \<Rightarrow> (bool \<times> int) set" where
  "insn_uses i = members (fst (the (insn_get_usedef i)))"

definition insn_defs :: "insn \<Rightarrow> (bool \<times> int) set" where
  "insn_defs i = members (snd (the (insn_get_usedef i)))"

text \<open>A register is needed by a code if an instruction reads it before one sets it.\<close>

definition needed :: "insn list \<Rightarrow> (bool \<times> int) \<Rightarrow> bool" where
  "needed insns u \<longleftrightarrow>
     (\<exists>m<length insns. u \<in> insn_uses (insns ! m) \<and> (\<forall>j<m. u \<notin> insn_defs (insns ! j)))"

text \<open>A variable is set while the value of another register is still needed.\<close>

definition interferes :: "insn list \<Rightarrow> int \<Rightarrow> (bool \<times> int) \<Rightarrow> bool" where
  "interferes insns v u \<longleftrightarrow>
     u \<noteq> (False, v) \<and>
     (\<exists>k<length insns. (False, v) \<in> insn_defs (insns ! k) \<and> needed (drop (Suc k) insns) u)"

definition interferences :: "insn list \<Rightarrow> rname set set" where
  "interferences insns = {{(v, tag_var), rname u} | v u. interferes insns v u}"

lemma needed_Nil [simp]: "\<not> needed [] u" by (simp add: needed_def)

lemma needed_Cons: "needed (i # is) u \<longleftrightarrow> u \<in> insn_uses i \<or> u \<notin> insn_defs i \<and> needed is u"
  unfolding needed_def by (auto simp: Ex_less_Suc2 All_less_Suc2)

lemma interferes_Cons:
  "interferes (i # is) v u \<longleftrightarrow>
     u \<noteq> (False, v) \<and> (False, v) \<in> insn_defs i \<and> needed is u \<or> interferes is v u"
  unfolding interferes_def by (auto simp: Ex_less_Suc2)

lemma interferences_Cons:
  "interferences (i # is) = interferences is \<union> new_pairs (insn_defs i) {u. needed is u}"
  unfolding interferences_def new_pairs_def interferes_Cons by blast

lemma interferences_Nil [simp]: "interferences [] = {}"
  by (simp add: interferences_def interferes_def)

lemma usedef_loop_ok:
  "usedef_loop i ops use def = Some (use', def') \<Longrightarrow> regset_ok use \<Longrightarrow> regset_ok def \<Longrightarrow> regset_ok use' \<and> regset_ok def'"
proof (induction i ops use "def" rule: usedef_loop.induct)
  case (2 i op ops use "def")
  have mark: "regset_ok b" if "regset_mark a t r = Some b" "regset_ok a" for a b t r
    using that by (auto simp: regset_mark_def regset_put_def set_flag_def regset_ok_def split: if_splits)
  have mem: "regset_ok b" if "mark_mem op a = Some b" "regset_ok a" for a b
    using that by (auto simp: mark_mem_def split: if_splits Option.bind_splits intro: mark)
  from 2 show ?case by (auto split: if_splits Option.bind_splits dest: mark mem)
qed simp

lemma insn_get_usedef_ok: "insn_get_usedef i = Some (use, def) \<Longrightarrow> regset_ok use \<and> regset_ok def"
  unfolding insn_get_usedef_def using regset_clear_all_correct by (auto dest!: usedef_loop_ok)

lemma finite_needed: "finite {u. needed insns u}"
proof (induction insns)
  case (Cons i "is")
  then show ?case
    by (rule_tac finite_subset [of _ "insn_uses i \<union> {u. needed is u}"])
      (auto simp: needed_Cons insn_uses_def finite_members)
qed simp

lemma finite_new_pairs: "finite D \<Longrightarrow> finite L \<Longrightarrow> finite (new_pairs D L)"
  by (rule finite_subset [of _ "(\<lambda>(d, u). {(snd d, tag_var), rname u}) ` (D \<times> L)"])
    (force simp: new_pairs_def)+

lemma finite_interferences: "finite (interferences insns)"
  by (induction insns)
    (simp_all add: interferences_Cons finite_new_pairs finite_needed insn_defs_def finite_members)

text \<open>The pass finds the interferences as long as they fit.\<close>

lemma nomatch_loop_exact:
  assumes "\<forall>i\<in>set insns. insn_get_usedef i \<noteq> None"
  shows "if card (interferences insns) \<le> MAX_NOMATCH_PAIRS
    then \<exists>use ps. nomatch_loop insns = Some (use, ps) \<and> regset_ok use \<and> members use = {u. needed insns u} \<and>
      pairs_ok ps \<and> upairs ps = interferences insns
    else nomatch_loop insns = None"
  using assms
proof (induction insns)
  case Nil
  then show ?case by (simp add: regset_clear_all_correct pairs_ok_def upairs_def)
next
  case (Cons i "is")
  let ?new = "new_pairs (insn_defs i) {u. needed is u}"
  show ?case
  proof (cases "card (interferences is) \<le> MAX_NOMATCH_PAIRS")
    case True
    then obtain use ps where IH: "nomatch_loop is = Some (use, ps)" "regset_ok use" "members use = {u. needed is u}"
      "pairs_ok ps" "upairs ps = interferences is" using Cons by auto
    obtain iuse idef where ud: "insn_get_usedef i = Some (iuse, idef)" using Cons.prems by fastforce
    note ok = insn_get_usedef_ok [OF ud]
    have mem: "insn_uses i = members iuse" "insn_defs i = members idef" by (simp_all add: insn_uses_def insn_defs_def ud)
    have len: "length ps \<le> MAX_NOMATCH_PAIRS" using True IH(5) card_upairs [OF IH(4)] by simp
    have "members (regset_union (regset_diff use idef) iuse) = {u. needed (i # is) u}"
      "regset_ok (regset_union (regset_diff use idef) iuse)"
      using ok IH(2,3) by (auto simp: regset_union_correct regset_diff_correct needed_Cons mem)
    moreover have "added MAX_NOMATCH_PAIRS ps ?new (regset_output_nomatch_pairs ps MAX_NOMATCH_PAIRS idef use)"
      using output_nomatch_pairs_added [OF IH(4) len _ IH(2), of idef] ok by (simp add: mem IH(3))
    moreover have "upairs ps \<union> ?new = interferences (i # is)" by (simp add: interferences_Cons IH(5))
    ultimately show ?thesis
      by (simp add: added_def IH(1) ud split: if_splits) (auto simp: IH(1) ud)
  next
    case False
    then have "nomatch_loop is = None" using Cons by auto
    moreover have "card (interferences is) \<le> card (interferences (i # is))"
      by (rule card_mono [OF finite_interferences]) (simp add: interferences_Cons)
    ultimately show ?thesis using False by auto
  qed
qed

lemma nomatch_loop_usedef: "nomatch_loop insns = Some r \<Longrightarrow> \<forall>i\<in>set insns. insn_get_usedef i \<noteq> None"
  by (induction insns arbitrary: r) (auto split: Option.bind_splits)

section \<open>Temporaries\<close>

text \<open>Two registers are in each other's way.\<close>

definition overlap :: "insn list \<Rightarrow> (bool \<times> int) \<Rightarrow> (bool \<times> int) \<Rightarrow> bool" where
  "overlap insns u w \<longleftrightarrow>
     \<not> fst u \<and> interferes insns (snd u) w \<or> \<not> fst w \<and> interferes insns (snd w) u"

lemma rname_eq_iff [simp]: "rname u = rname w \<longleftrightarrow> u = w"
  by (cases u, cases w) (auto simp: rname_def split: if_splits)

lemma rname_var: "(v, tag_var) = rname (False, v)"
  by (simp add: rname_def)

lemma interferences_overlap: "{rname u, rname w} \<in> interferences insns \<longleftrightarrow> overlap insns u w"
  unfolding interferences_def overlap_def rname_var
  by (cases u, cases w) (auto simp: doubleton_eq_iff)


section \<open>Properties\<close>

text \<open>
  C35. The conflict pairs of a rule: the pass over the instructions returns each pair of a variable
  or temporary that an instruction sets and another register that is needed after it, once, and
  nothing else, if these pairs fit in the array; if they do not it leaves defined behaviour.
\<close>

theorem nomatch_pairs_exact:
  assumes "\<forall>i\<in>set insns. insn_get_usedef i \<noteq> None"
  shows "(card (interferences insns) \<le> MAX_NOMATCH_PAIRS \<longrightarrow>
      (\<exists>use ps. nomatch_loop insns = Some (use, ps) \<and> pairs_ok ps \<and>
        (\<forall>u w. conflict ps (rname u) (rname w) \<longleftrightarrow> overlap insns u w))) \<and>
    (MAX_NOMATCH_PAIRS < card (interferences insns) \<longrightarrow> nomatch_loop insns = None)"
  using nomatch_loop_exact [OF assms]
  by (auto simp: conflict_upairs interferences_overlap split: if_splits)

text \<open>A temporary that is set before the second variable is read, and the pass over this code.\<close>

definition demo_out :: "insn list" where
  "demo_out = [demo_move (demo_reg 8 tag_var) (demo_reg 0 tag_var), demo_move (demo_reg 0 tag_var) (demo_reg 1 tag_var)]"

definition demo_pairs :: "nomatch_pair list" where
  "demo_pairs = [\<lparr>np_reg1 = 8, np_reg2 = 1, np_tag1 = tag_var, np_tag2 = tag_var\<rparr>]"

lemma demo_usedef: "insn_get_usedef (demo_move (demo_reg 8 tag_var) (demo_reg 0 tag_var)) \<noteq> None"
  "insn_get_usedef (demo_move (demo_reg 0 tag_var) (demo_reg 1 tag_var)) \<noteq> None"
  by code_simp+

lemma demo_loop_pairs: "map_option snd (nomatch_loop demo_out) = Some demo_pairs"
  by code_simp

lemma demo_conflict: "conflict demo_pairs (rname (False, 8)) (rname (False, 1))"
  by (simp add: conflict_def demo_pairs_def rname_def pair_matches_def)

lemma demo_overlap: "overlap demo_out (False, 8) (False, 1)"
proof -
  have "map_option snd (nomatch_loop demo_out) = Some demo_pairs" by (rule demo_loop_pairs)
  then obtain use where l: "nomatch_loop demo_out = Some (use, demo_pairs)" by auto
  then have "upairs demo_pairs = interferences demo_out"
    using nomatch_loop_exact [OF nomatch_loop_usedef [OF l]] by (auto split: if_splits)
  then have "{rname (False, 8), rname (False, 1)} \<in> interferences demo_out"
    by (metis conflict_upairs demo_conflict)
  then show ?thesis by (simp only: interferences_overlap)
qed

theorem nomatch_pairs_exact_witness:
  "\<exists>use ps. nomatch_loop [demo_move (demo_reg 8 tag_var) (demo_reg 0 tag_var)] = Some (use, ps) \<and> pairs_ok ps"
  using nomatch_pairs_exact [of "[demo_move (demo_reg 8 tag_var) (demo_reg 0 tag_var)]"] demo_usedef
  by (simp add: interferences_Cons new_pairs_def MAX_NOMATCH_PAIRS_def) blast





text \<open>The names of the opcodes of the examples.\<close>

definition demo_ot :: btmod_opctable where
  "demo_ot = opctable_init\<lparr>nametable := [''(bad)'', ''ret'', ''cmp'', ''sub'', ''add'', ''mov'']\<rparr>"


text \<open>
  With \<open>add\<close> in place of the second move the temporary gets the register of the variable that is
  still to be added to.
\<close>

lemma read_and_set_missed:
  "let insns = [demo_move (demo_reg 8 tag_var) (demo_reg 0 tag_var),
                (demo_move (demo_reg 1 tag_var) (demo_reg 0 tag_var))\<lparr>i_opc := 4\<rparr>]
   in (False, 1) \<in> set (named_reads demo_ot (insns ! 1)) \<and> \<not> only_writes_first demo_ot (insns ! 1) \<and>
      map_option (find_temporary_regs [tag_var] demo_as \<circ> snd) (nomatch_loop insns) = Some (True, [7])"
  by code_simp

text \<open>A machine register that is set while the temporary is needed is not avoided either.\<close>

lemma machine_register_missed:
  "let insns = [demo_move (demo_reg 8 tag_var) (demo_reg 0 tag_var),
                demo_move (demo_reg 7 tag_const) (demo_reg 0 tag_var),
                demo_move (demo_reg 0 tag_var) (demo_reg 8 tag_var)]
   in (True, 7) \<in> set (named_sets (insns ! 1)) \<and> (False, 8) \<in> set (named_reads demo_ot (insns ! 2)) \<and>
      map_option (find_temporary_regs [tag_var] [(demo_reg 0 tag_var, demo_reg 2 tag_const)] \<circ> snd) (nomatch_loop insns) =
        Some (True, [7])"
  by code_simp

end
