(* ===== verification/Gen_Order.thy ===== *)
theory Gen_Order
  imports Gen_Tables Gen_Exec Peep_Props
begin

text \<open>
  The generator puts the variables of a rule in the order in which the matcher of the translator
  binds them, so that the parameters the translator passes are those the generated code reads.
\<close>

section \<open>The variables of a template\<close>

text \<open>A variable is known by its type and number; the tag is the constraint on its values.\<close>

definition vkey :: "operand \<Rightarrow> opertype \<times> u64" where "vkey v = (otype v, view (otype v) v)"

definition same_var :: "operand \<Rightarrow> operand \<Rightarrow> bool" where
  "same_var a b \<longleftrightarrow> vkey a = vkey b \<and> otag a = otag b"

definition proper :: "operand \<Rightarrow> bool" where
  "proper v \<longleftrightarrow> otype v \<noteq> invalid \<and> otype v \<noteq> op_mem \<and> otag v \<noteq> tag_const"

definition tagged :: "operand list \<Rightarrow> operand list" where
  "tagged = filter (\<lambda>v. otag v \<noteq> tag_const)"

definition seg_var :: "operand \<Rightarrow> operand" where
  "seg_var op =
     (if m_segtype (omem op) = segtype_sel then scalar_operand op_seg 0 (of_int (seg_sel (omem op))) (mt_seg (omtag op))
      else scalar_operand op_imm 4 (ucast (m_seg (omem op))) (mt_seg (omtag op)))"

definition base_var :: "operand \<Rightarrow> operand" where
  "base_var op = scalar_operand op_reg 4 (of_int (m_base (omem op))) (mt_base (omtag op))"
definition index_var :: "operand \<Rightarrow> operand" where
  "index_var op = scalar_operand op_reg 4 (of_int (m_index (omem op))) (mt_index (omtag op))"
definition disp_var :: "operand \<Rightarrow> operand" where
  "disp_var op = scalar_operand op_imm 4 (m_disp (omem op)) (mt_disp (omtag op))"

definition operand_vars :: "operand \<Rightarrow> operand list" where
  "operand_vars op =
     (if otag op \<noteq> tag_const then [op]
      else if otype op = op_mem then tagged [seg_var op, base_var op, index_var op, disp_var op]
      else [])"

definition insn_vars :: "insn \<Rightarrow> operand list" where
  "insn_vars i = concat (map operand_vars (take 3 (i_op i)))"

definition template_vars :: "insn list \<Rightarrow> operand list" where
  "template_vars templ = concat (map insn_vars templ)"

text \<open>Each variable at its first place.\<close>

definition add_var :: "operand \<Rightarrow> operand list \<Rightarrow> operand list" where
  "add_var v vs = (if vkey v \<in> vkey ` set vs then vs else vs @ [v])"

definition first_vars :: "operand list \<Rightarrow> operand list" where
  "first_vars vs = fold add_var vs []"

text \<open>
  What the rules keep to: only register variables occur twice, but not as base and index of one
  operand, constants have no size, and temporaries do not occur in patterns.
\<close>

definition nonreg_distinct :: "operand list \<Rightarrow> bool" where
  "nonreg_distinct vs \<longleftrightarrow> distinct (map vkey (filter (\<lambda>v. otype v \<noteq> op_reg) vs))"

definition operand_ok :: "operand \<Rightarrow> bool" where
  "operand_ok op \<longleftrightarrow>
     (otype op = invalid \<longrightarrow> otag op = tag_const) \<and>
     (otype op = op_imm \<longrightarrow> otag op = tag_const \<longrightarrow> osize op = 0) \<and>
     (otype op = op_mem \<longrightarrow> otag op = tag_const \<and>
        (mt_base (omtag op) \<noteq> tag_const \<longrightarrow> mt_index (omtag op) \<noteq> tag_const \<longrightarrow>
           vkey (base_var op) \<noteq> vkey (index_var op)))"

definition template_ok :: "insn list \<Rightarrow> bool" where
  "template_ok templ \<longleftrightarrow>
     list_all (\<lambda>i. list_all operand_ok (take 3 (i_op i))) templ \<and> nonreg_distinct (template_vars templ) \<and>
     list_all (\<lambda>v. \<not> var_is_temporary v) (template_vars templ)"

section \<open>Lists of assignments for lists of variables\<close>

definition vars_of :: "assignments \<Rightarrow> operand list \<Rightarrow> bool" where
  "vars_of as vs \<longleftrightarrow>
     list_all2 same_var (map fst as) vs \<and> list_all proper vs \<and>
     list_all (\<lambda>a. otype (fst a) = op_reg \<longrightarrow> osize (fst a) = 4) as"

lemma vars_of_Nil [simp]: "vars_of [] []"
  by (simp add: vars_of_def)

lemma same_var_refl [simp]: "same_var v v"
  by (simp add: same_var_def)

lemma vkey_size [simp]: "vkey (v\<lparr>osize := n\<rparr>) = vkey v"
  by (simp add: vkey_def)

lemma vkey_scalar [simp]: "vkey (scalar_operand t sz x tag) = (t, take_bit (val_bits t) x)"
  by (simp add: vkey_def view_scalar) (simp add: scalar_operand_def)

lemma scalar_fields [simp]:
  "otype (scalar_operand t sz x tag) = t" "osize (scalar_operand t sz x tag) = sz" "otag (scalar_operand t sz x tag) = tag"
  by (simp_all add: scalar_operand_def)

lemma vars_of_keys: "vars_of as vs \<Longrightarrow> vkey ` fst ` set as = vkey ` set vs"
proof -
  assume "vars_of as vs"
  then have "list_all2 same_var (map fst as) vs" by (simp add: vars_of_def)
  then have "map vkey (map fst as) = map vkey vs"
    by (induction rule: list_all2_induct) (simp_all add: same_var_def)
  then show ?thesis by (metis list.set_map)
qed

lemma assignments_add_entry:
  assumes "assignments_add as t x = Some as'"
  shows "\<exists>t' x'. as' = as @ [(t', x')] \<and> (t' = t \<or> t' = t\<lparr>osize := 4\<rparr>) \<and> (otype t' = op_reg \<longrightarrow> osize t' = 4)"
  using assms by (fastforce simp: assignments_add_def split: if_splits)

lemma vars_of_snoc:
  assumes "vars_of as vs" and "t' = t \<or> t' = t\<lparr>osize := 4\<rparr>" "otype t' = op_reg \<longrightarrow> osize t' = 4"
    and "same_var t v" and "proper v"
  shows "vars_of (as @ [(t', x')]) (vs @ [v])"
proof -
  have "same_var t' v" using assms(2,4) by (auto simp: same_var_def)
  then have "list_all2 same_var (map fst (as @ [(t', x')])) (vs @ [v])"
    using assms(1) by (simp add: vars_of_def list_all2_appendI)
  then show ?thesis using assms by (simp add: vars_of_def)
qed

lemma vars_of_add:
  assumes "vars_of as vs" and "assignments_add as t x = Some as'" and "same_var t v" and "proper v"
  shows "vars_of as' (vs @ [v])"
  using assignments_add_entry [OF assms(2)] vars_of_snoc [OF assms(1)] assms(3,4) by blast

lemma getval_key:
  assumes "assignments_getval as t \<noteq> None" and "list_all (\<lambda>(var, _). otype var \<noteq> op_mem \<and> otype var \<noteq> invalid) as"
  shows "vkey t \<in> vkey ` fst ` set as"
  using assms
proof (induction as t rule: assignments_getval.induct)
  case (2 var v as templ)
  show ?case
  proof (cases "operands_equal var templ")
    case True
    with 2 show ?thesis using operands_equal_view [of var templ] by (auto simp: vkey_def)
  next
    case False
    show ?thesis
    proof (cases "otype templ = op_reg \<and> otype var = op_reg \<and> val_reg templ = val_reg var")
      case True
      then show ?thesis by (auto simp: vkey_def val_reg_eq)
    next
      case no: False
      then have "assignments_getval as templ \<noteq> None" using 2(2) False by auto
      then show ?thesis using "2.IH" [OF False no] 2(3) by auto
    qed
  qed
qed simp

lemma getval_reg:
  "otype t = op_reg \<Longrightarrow> vkey t \<in> vkey ` fst ` set as \<Longrightarrow> assignments_getval as t \<noteq> None"
  by (induction as t rule: assignments_getval.induct) (auto simp: vkey_def val_reg_eq)

lemma vars_of_types:
  assumes "vars_of as vs"
  shows "list_all (\<lambda>(var, _). otype var \<noteq> op_mem \<and> otype var \<noteq> invalid) as"
proof -
  have "otype var \<noteq> op_mem \<and> otype var \<noteq> invalid" if "(var, x) \<in> set as" for var x
  proof -
    have "vkey var \<in> vkey ` set vs" using vars_of_keys [OF assms] that by force
    then show ?thesis using assms by (auto simp: vars_of_def proper_def vkey_def list_all_iff)
  qed
  then show ?thesis by (auto simp: list_all_iff)
qed

lemma vars_of_getval:
  assumes "vars_of as vs"
  shows "assignments_getval as t \<noteq> None \<Longrightarrow> vkey t \<in> vkey ` set vs"
    and "otype t = op_reg \<Longrightarrow> vkey t \<in> vkey ` set vs \<Longrightarrow> assignments_getval as t \<noteq> None"
  using getval_key [OF _ vars_of_types [OF assms], of t] getval_reg [of t as] vars_of_keys [OF assms] by auto

section \<open>First places\<close>

lemma first_vars_append [simp]: "first_vars (vs @ [v]) = add_var v (first_vars vs)"
  by (simp add: first_vars_def)

lemma first_vars_set: "set (first_vars vs) \<subseteq> set vs" "vkey ` set (first_vars vs) = vkey ` set vs"
  by (induction vs rule: rev_induct) (auto simp: first_vars_def add_var_def)

text \<open>A variable that is no register was not there before.\<close>

definition unseen :: "operand list \<Rightarrow> operand \<Rightarrow> bool" where
  "unseen vs v \<longleftrightarrow> (otype v \<noteq> op_reg \<longrightarrow> vkey v \<notin> vkey ` set vs)"

lemma unseen_next: "nonreg_distinct (vs @ v # ws) \<Longrightarrow> unseen vs v"
  by (auto simp: nonreg_distinct_def unseen_def vkey_def)

lemma nonreg_distinct_step: "nonreg_distinct (vs @ v # ws) \<longleftrightarrow> nonreg_distinct ((vs @ [v]) @ ws)"
  by simp

section \<open>The generator\<close>

lemma order_var_first:
  assumes "order_var as op ordered = Some ordered'" and "vars_of ordered (first_vars vs)"
    and "same_var op v" "proper v" "unseen vs v"
  shows "vars_of ordered' (first_vars (vs @ [v]))"
proof -
  have key: "vkey op = vkey v" "otype op = otype v" using assms(3) by (auto simp: same_var_def vkey_def)
  obtain x where "assignments_getval as op = Some x"
    and res: "(case assignments_getval ordered op of None \<Rightarrow> assignments_add ordered op x | Some _ \<Rightarrow> Some ordered) = Some ordered'"
    using assms(1) by (auto simp: order_var_def split: Option.bind_splits)
  show ?thesis
  proof (cases "assignments_getval ordered op")
    case None
    then have "vkey v \<notin> vkey ` set (first_vars vs)"
      using vars_of_getval(2) [OF assms(2), of op] assms(5) key first_vars_set(2) [of vs] by (auto simp: unseen_def)
    then show ?thesis using vars_of_add [OF assms(2) _ assms(3,4)] res None by (simp add: add_var_def)
  next
    case (Some y)
    then have "vkey v \<in> vkey ` set (first_vars vs)" using vars_of_getval(1) [OF assms(2), of op] key by auto
    then show ?thesis using assms(2) res Some by (simp add: add_var_def)
  qed
qed

lemma nonreg_distinct_prefix: "nonreg_distinct (vs @ ws) \<Longrightarrow> nonreg_distinct vs"
  by (simp add: nonreg_distinct_def)

lemma gen_mem_ord_assn_first:
  assumes "gen_mem_ord_assn as t x tag ordered = Some ordered'" and "vars_of ordered (first_vars vs)"
    and "v = scalar_operand t sz x tag" "t \<noteq> invalid" "t \<noteq> op_mem" "nonreg_distinct (vs @ tagged [v])"
  shows "vars_of ordered' (first_vars (vs @ tagged [v]))"
proof (cases "tag = tag_const")
  case True
  then show ?thesis using assms by (simp add: gen_mem_ord_assn_def tagged_def)
next
  case False
  then have "nonreg_distinct (vs @ v # [])" using assms by (simp add: tagged_def)
  then have "unseen vs v" by (rule unseen_next)
  then show ?thesis
    using order_var_first [of as _ ordered ordered' vs v] assms False
    by (simp add: gen_mem_ord_assn_def tagged_def same_var_def proper_def)
qed

lemma tagged_Cons: "tagged (v # vs) = tagged [v] @ tagged vs"
  by (simp add: tagged_def)

lemma order_mem_first:
  assumes "order_mem as op ordered = Some o4" and "vars_of ordered (first_vars vs)"
    and "nonreg_distinct (vs @ tagged [seg_var op, base_var op, index_var op, disp_var op])"
  shows "vars_of o4 (first_vars (vs @ tagged [seg_var op, base_var op, index_var op, disp_var op]))"
proof -
  have d4: "nonreg_distinct ((((vs @ tagged [seg_var op]) @ tagged [base_var op]) @ tagged [index_var op]) @ tagged [disp_var op])"
    using assms(3) by (simp add: tagged_Cons [of _ "_ # _"])
  note d3 = nonreg_distinct_prefix [OF d4] and d2 = nonreg_distinct_prefix [OF nonreg_distinct_prefix [OF d4]]
  note d1 = nonreg_distinct_prefix [OF d2]
  obtain o1 o2 o3 where o1: "(if m_segtype (omem op) = segtype_sel
          then gen_mem_ord_assn as op_seg (of_int (seg_sel (omem op))) (mt_seg (omtag op)) ordered
          else gen_mem_ord_assn as op_imm (ucast (m_seg (omem op))) (mt_seg (omtag op)) ordered) = Some o1"
    and o2: "gen_mem_ord_assn as op_reg (of_int (m_base (omem op))) (mt_base (omtag op)) o1 = Some o2"
    and o3: "gen_mem_ord_assn as op_reg (of_int (m_index (omem op))) (mt_index (omtag op)) o2 = Some o3"
    and o4: "gen_mem_ord_assn as op_imm (m_disp (omem op)) (mt_disp (omtag op)) o3 = Some o4"
    using assms(1) by (auto simp: order_mem_def simp del: of_int_eq_iff split: Option.bind_splits)
  have "vars_of o1 (first_vars (vs @ tagged [seg_var op]))"
    using gen_mem_ord_assn_first [OF _ assms(2), of as _ _ _ o1 "seg_var op"] o1 d1
    by (auto simp: seg_var_def split: if_splits)
  from gen_mem_ord_assn_first [OF o2 this base_var_def _ _ d2]
  have "vars_of o2 (first_vars ((vs @ tagged [seg_var op]) @ tagged [base_var op]))" by simp
  from gen_mem_ord_assn_first [OF o3 this index_var_def _ _ d3]
  have "vars_of o3 (first_vars (((vs @ tagged [seg_var op]) @ tagged [base_var op]) @ tagged [index_var op]))" by simp
  from gen_mem_ord_assn_first [OF o4 this disp_var_def _ _ d4]
  have "vars_of o4 (first_vars ((((vs @ tagged [seg_var op]) @ tagged [base_var op]) @ tagged [index_var op]) @ tagged [disp_var op]))"
    by simp
  then show ?thesis by (simp add: tagged_Cons [of _ "_ # _"])
qed

lemma order_operand_first:
  assumes "order_operand as op ordered = Some ordered'" and "vars_of ordered (first_vars vs)"
    and "operand_ok op" "nonreg_distinct (vs @ operand_vars op)"
  shows "vars_of ordered' (first_vars (vs @ operand_vars op))"
proof (cases "otag op = tag_const")
  case True
  show ?thesis
  proof (cases "otype op = op_mem")
    case mem: True
    then show ?thesis using order_mem_first [OF _ assms(2), of as op ordered'] assms True
      by (auto simp: order_operand_def operand_vars_def split: Option.bind_splits)
  next
    case False
    then show ?thesis using assms True by (auto simp: order_operand_def operand_vars_def split: Option.bind_splits)
  qed
next
  case False
  have "nonreg_distinct (vs @ op # [])" using assms(4) False by (simp add: operand_vars_def)
  then have "unseen vs op" by (rule unseen_next)
  moreover have "proper op" using False assms(3) by (auto simp: proper_def operand_ok_def)
  moreover have "order_var as op ordered = Some ordered'"
    using assms(1) False by (auto simp: order_operand_def split: Option.bind_splits)
  ultimately show ?thesis using order_var_first [OF _ assms(2) same_var_refl] False by (simp add: operand_vars_def)
qed

lemma order_operands_first:
  assumes "order_operands as ops ordered = Some ordered'" and "vars_of ordered (first_vars vs)"
    and "list_all operand_ok ops" "nonreg_distinct (vs @ concat (map operand_vars ops))"
  shows "vars_of ordered' (first_vars (vs @ concat (map operand_vars ops)))"
  using assms
proof (induction ops arbitrary: ordered vs)
  case (Cons op ops)
  then obtain o1 where o1: "order_operand as op ordered = Some o1" "order_operands as ops o1 = Some ordered'"
    by (auto split: Option.bind_splits)
  have "nonreg_distinct ((vs @ operand_vars op) @ concat (map operand_vars ops))" using Cons.prems by simp
  moreover from this have "vars_of o1 (first_vars (vs @ operand_vars op))"
    using order_operand_first [OF o1(1) Cons.prems(2)] Cons.prems(3) nonreg_distinct_prefix by auto
  ultimately show ?case using Cons.IH [OF o1(2), of "vs @ operand_vars op"] Cons.prems(3) by simp
qed simp

lemma order_insns_first:
  assumes "order_insns as templ ordered = Some ordered'" and "vars_of ordered (first_vars vs)"
    and "list_all (\<lambda>i. list_all operand_ok (take 3 (i_op i))) templ" "nonreg_distinct (vs @ template_vars templ)"
  shows "vars_of ordered' (first_vars (vs @ template_vars templ))"
  using assms
proof (induction templ arbitrary: ordered vs)
  case (Cons i templ)
  then obtain o1 where o1: "order_operands as (take 3 (i_op i)) ordered = Some o1" "order_insns as templ o1 = Some ordered'"
    by (auto split: Option.bind_splits)
  have d: "nonreg_distinct ((vs @ insn_vars i) @ template_vars templ)" using Cons.prems by (simp add: template_vars_def)
  then have "vars_of o1 (first_vars (vs @ insn_vars i))"
    using order_operands_first [OF o1(1) Cons.prems(2)] Cons.prems(3) nonreg_distinct_prefix
    by (auto simp: insn_vars_def)
  then show ?case using Cons.IH [OF o1(2) _ _ d] Cons.prems(3) by (simp add: template_vars_def)
qed (simp add: template_vars_def)

section \<open>The matcher\<close>

lemma not_seen:
  assumes "vars_of as (first_vars vs0)" and "assignments_getval as t = None" and "same_var t v" and "unseen vs v"
    and "otype v = op_reg \<longrightarrow> vkey v \<in> vkey ` set vs \<longrightarrow> vkey v \<in> vkey ` set vs0"
  shows "vkey v \<notin> vkey ` set (first_vars vs)"
proof
  have key: "vkey t = vkey v" "otype t = otype v" using assms(3) by (auto simp: same_var_def vkey_def)
  assume "vkey v \<in> vkey ` set (first_vars vs)"
  then have "vkey v \<in> vkey ` set vs" by (simp add: first_vars_set)
  then have "otype v = op_reg" "vkey v \<in> vkey ` set vs0" using assms(4,5) by (auto simp: unseen_def)
  then show False using vars_of_getval(2) [OF assms(1), of t] assms(2) key by (simp add: first_vars_set)
qed

lemma mem_match_first:
  assumes "mem_match as tag same absent t op tmp = Some (True, tmp')"
    and "vars_of as (first_vars vs0)" "vars_of (as @ tmp) (first_vars vs)" "vkey ` set vs0 \<subseteq> vkey ` set vs"
    and "same_var t v" "otag v = tag" "otype v \<noteq> invalid" "otype v \<noteq> op_mem"
    and "otype v = op_reg \<longrightarrow> tag \<noteq> tag_const \<longrightarrow> vkey v \<in> vkey ` set vs \<longrightarrow> vkey v \<in> vkey ` set vs0"
    and "nonreg_distinct (vs @ tagged [v])"
  shows "vars_of (as @ tmp') (first_vars (vs @ tagged [v]))"
proof (cases "tag = tag_const")
  case True
  then show ?thesis using assms by (simp add: mem_match_def tagged_def)
next
  case False
  then have tg: "tagged [v] = [v]" "proper v" using assms(6-8) by (simp_all add: tagged_def proper_def)
  have "unseen vs v" using assms(10) tg by (intro unseen_next [of _ _ "[]"]) simp
  show ?thesis
  proof (cases "assignments_getval as t")
    case None
    then have "assignments_add tmp t op = Some tmp'"
      using assms(1) False by (auto simp: mem_match_def split: if_splits)
    then obtain t' x' where "tmp' = tmp @ [(t', x')]" "t' = t \<or> t' = t\<lparr>osize := 4\<rparr>" "otype t' = op_reg \<longrightarrow> osize t' = 4"
      using assignments_add_entry by blast
    moreover have "vkey v \<notin> vkey ` set (first_vars vs)"
      by (rule not_seen [OF assms(2) None assms(5) \<open>unseen vs v\<close>]) (use assms(9) False in simp)
    ultimately show ?thesis using vars_of_snoc [OF assms(3) _ _ assms(5) tg(2)] tg(1) by (simp add: add_var_def)
  next
    case (Some y)
    then have "vkey t \<in> vkey ` set vs0" using vars_of_getval(1) [OF assms(2), of t] by (simp add: first_vars_set)
    then have "vkey v \<in> vkey ` set (first_vars vs)" using assms(4,5) by (auto simp: first_vars_set same_var_def)
    then show ?thesis using assms(1,3) False Some tg(1) by (simp add: mem_match_def add_var_def split: if_splits)
  qed
qed

lemma set_tagged: "set (tagged vs) = {v \<in> set vs. otag v \<noteq> tag_const}"
  by (simp add: tagged_def)

lemma mem_operands_first:
  assumes match: "mem_operands_match op templ as = Some (True, as')" and "vars_of as (first_vars vs)"
    and "nonreg_distinct (vs @ tagged [seg_var templ, base_var templ, index_var templ, disp_var templ])"
    and apart: "mt_base (omtag templ) \<noteq> tag_const \<longrightarrow> mt_index (omtag templ) \<noteq> tag_const \<longrightarrow>
      vkey (base_var templ) \<noteq> vkey (index_var templ)"
  shows "vars_of as' (first_vars (vs @ tagged [seg_var templ, base_var templ, index_var templ, disp_var templ]))"
proof -
  let ?v1 = "vs @ tagged [seg_var templ]"
  let ?v2 = "?v1 @ tagged [base_var templ]"
  let ?v3 = "?v2 @ tagged [index_var templ]"
  have d4: "nonreg_distinct (?v3 @ tagged [disp_var templ])"
    using assms(3) by (simp add: tagged_Cons [of _ "_ # _"])
  note d3 = nonreg_distinct_prefix [OF d4] and d2 = nonreg_distinct_prefix [OF nonreg_distinct_prefix [OF d4]]
  note d1 = nonreg_distinct_prefix [OF d2]
  have types: "m_segtype (omem op) = m_segtype (omem templ)" using match by (auto simp: mem_operands_match_def split: if_splits)
  obtain t1 t2 t3 t4 where t1: "match_seg op templ as assignments_init = Some (True, t1)"
    and t2: "match_base op templ as t1 = Some (True, t2)" and t3: "match_index op templ as t2 = Some (True, t3)"
    and t4: "match_disp op templ as t3 = Some (True, t4)" and as': "as' = as @ t4"
    using match by (auto simp: mem_operands_match_def and_then_True append_assignments_def split: if_splits option.splits bool.splits)
  have start: "vars_of (as @ assignments_init) (first_vars vs)" using assms(2) by (simp add: assignments_init_def)
  have 1: "vars_of (as @ t1) (first_vars ?v1)"
    using t1 mem_match_first [OF _ assms(2) start, of "mt_seg (omtag templ)" _ _ _ _ t1 "seg_var templ"] types d1
    by (auto simp: match_seg_def seg_var_def field_seg_def field_desc_def same_var_def split: if_splits)
  have 2: "vars_of (as @ t2) (first_vars ?v2)"
    by (rule mem_match_first [OF t2 [unfolded match_base_def] assms(2) 1])
      (use d2 in \<open>auto simp: base_var_def field_base_def same_var_def set_tagged seg_var_def split: if_splits\<close>)
  have 3: "vars_of (as @ t3) (first_vars ?v3)"
    by (rule mem_match_first [OF t3 [unfolded match_index_def] assms(2) 2])
      (use d3 apart in \<open>auto simp: base_var_def index_var_def field_index_def same_var_def set_tagged seg_var_def split: if_splits\<close>)
  have "vars_of (as @ t4) (first_vars (?v3 @ tagged [disp_var templ]))"
    by (rule mem_match_first [OF t4 [unfolded match_disp_def] assms(2) 3])
      (use d4 in \<open>auto simp: disp_var_def field_disp_def same_var_def\<close>)
  then show ?thesis by (simp add: as' tagged_Cons [of _ "_ # _"])
qed

lemma operands_match_first:
  assumes "operands_match op templ as = Some (True, as')" and "vars_of as (first_vars vs)"
    and "operand_ok templ" "nonreg_distinct (vs @ operand_vars templ)"
  shows "vars_of as' (first_vars (vs @ operand_vars templ))"
proof (cases "otag templ = tag_const")
  case True
  show ?thesis
  proof (cases "otype templ = op_mem")
    case mem: True
    then have "mem_operands_match op templ as = Some (True, as')"
      using assms(1) True by (auto simp: operands_match_def split: if_splits)
    from mem_operands_first [OF this assms(2)] show ?thesis
      using assms(3,4) True mem by (auto simp: operand_vars_def operand_ok_def)
  next
    case False
    then have "as' = as" using assms(1,3) True by (auto simp: operands_match_def operand_ok_def split: if_splits)
    then show ?thesis using assms(2) True False by (simp add: operand_vars_def)
  qed
next
  case False
  then have p: "proper templ" and v: "operand_vars templ = [templ]"
    using assms(3) by (auto simp: proper_def operand_ok_def operand_vars_def)
  have "unseen vs templ" using assms(4) v by (intro unseen_next [of _ _ "[]"]) simp
  have "vkey templ \<notin> vkey ` set (first_vars vs) \<and> assignments_add as templ op = Some as'"
  proof (cases "osize op \<noteq> osize templ \<and> otype op = op_imm")
    case True
    then show ?thesis using assms(1) \<open>unseen vs templ\<close>
      by (auto simp: operands_match_def unseen_def first_vars_set split: if_splits)
  next
    case no: False
    then have "assignments_getval as templ = None \<and> assignments_add as templ op = Some as'"
      using assms(1) False p by (auto simp: operands_match_def proper_def split: if_splits option.splits)
    then show ?thesis using not_seen [OF assms(2) _ same_var_refl \<open>unseen vs templ\<close>] by blast
  qed
  then show ?thesis using vars_of_add [OF assms(2) _ same_var_refl p, of op as'] v by (simp add: add_var_def)
qed

lemma operands_match_loop_first:
  assumes "operands_match_loop ops ts as = Some (True, as')" and "vars_of as (first_vars vs)"
    and "length ops = length ts" "list_all operand_ok ts" "nonreg_distinct (vs @ concat (map operand_vars ts))"
  shows "vars_of as' (first_vars (vs @ concat (map operand_vars ts)))"
  using assms(3,1,2,4,5)
proof (induction ops ts arbitrary: as vs rule: list_induct2)
  case (Cons op ops t ts)
  then obtain a1 where a1: "operands_match op t as = Some (True, a1)" "operands_match_loop ops ts a1 = Some (True, as')"
    by (auto simp: and_then_True)
  have "nonreg_distinct ((vs @ operand_vars t) @ concat (map operand_vars ts))" using Cons.prems by simp
  moreover from this have "vars_of a1 (first_vars (vs @ operand_vars t))"
    using operands_match_first [OF a1(1) Cons.prems(2)] Cons.prems(3) nonreg_distinct_prefix by auto
  ultimately show ?case using Cons.IH [OF a1(2), of "vs @ operand_vars t"] Cons.prems(3) by simp
qed simp

text \<open>The instructions have the three operands of the array.\<close>

definition three_ops :: "insn list \<Rightarrow> bool" where
  "three_ops = list_all (\<lambda>i. length (i_op i) = 3)"

lemma insns_match_first:
  assumes "insns_match_loop insns templ as = Some (True, as')" and "vars_of as (first_vars vs)"
    and "length insns = length templ" "three_ops insns" "three_ops templ"
    and "list_all (\<lambda>i. list_all operand_ok (take 3 (i_op i))) templ" "nonreg_distinct (vs @ template_vars templ)"
  shows "vars_of as' (first_vars (vs @ template_vars templ))"
  using assms(3,1,2,4-7)
proof (induction insns templ arbitrary: as vs rule: list_induct2)
  case (Cons i insns t templ)
  then obtain a1 where a1: "templ_matches_insn i t as = Some (True, a1)" "insns_match_loop insns templ a1 = Some (True, as')"
    by (auto simp: and_then_True)
  then have loop: "operands_match_loop (take 3 (i_op i)) (take 3 (i_op t)) as = Some (True, a1)"
    by (auto simp: templ_matches_insn_def split: if_splits)
  have d: "nonreg_distinct ((vs @ insn_vars t) @ template_vars templ)" using Cons.prems by (simp add: template_vars_def)
  then have "vars_of a1 (first_vars (vs @ insn_vars t))"
    using operands_match_loop_first [OF loop Cons.prems(2)] Cons.prems(3-5) nonreg_distinct_prefix
    by (auto simp: insn_vars_def three_ops_def)
  then show ?case using Cons.IH [OF a1(2) _ _ _ _ d] Cons.prems by (simp add: template_vars_def three_ops_def)
qed (simp add: template_vars_def)

section \<open>Names\<close>

lemma same_var_text:
  assumes "same_var a b" "proper b" "otype a = op_reg \<longrightarrow> osize a = osize b"
  shows "operand2str a = operand2str b"
  using assms by (cases "otype a") (auto simp: same_var_def vkey_def proper_def operand2str_def)

lemma same_vars_text:
  assumes "vars_of as vs" and "vars_of bs vs"
  shows "map (operand2str \<circ> fst) as = map (operand2str \<circ> fst) bs"
proof (rule nth_equalityI)
  have l: "length as = length vs" "length bs = length vs"
    using assms by (auto simp: vars_of_def dest: list_all2_lengthD)
  show "length (map (operand2str \<circ> fst) as) = length (map (operand2str \<circ> fst) bs)" by (simp add: l)
  fix i
  assume "i < length (map (operand2str \<circ> fst) as)"
  then have i: "i < length as" "i < length bs" "i < length vs" by (simp_all add: l)
  have a: "same_var (fst (as ! i)) (vs ! i)" "otype (fst (as ! i)) = op_reg \<longrightarrow> osize (fst (as ! i)) = 4"
    and b: "same_var (fst (bs ! i)) (vs ! i)" "otype (fst (bs ! i)) = op_reg \<longrightarrow> osize (fst (bs ! i)) = 4"
    and p: "proper (vs ! i)"
    using assms i by (auto simp: vars_of_def list_all2_conv_all_nth list_all_length)
  have "same_var (fst (as ! i)) (fst (bs ! i))" "proper (fst (bs ! i))"
    using a b p by (auto simp: same_var_def vkey_def proper_def)
  then have "operand2str (fst (as ! i)) = operand2str (fst (bs ! i))"
    using a b by (intro same_var_text) (auto simp: same_var_def vkey_def)
  then show "map (operand2str \<circ> fst) as ! i = map (operand2str \<circ> fst) bs ! i" using i by simp
qed

text \<open>Behind the variables of the pattern there are temporaries only.\<close>

lemma order_temporaries_append:
  "order_temporaries as ordered = Some ordered' \<Longrightarrow>
     \<exists>ts. ordered' = ordered @ ts \<and> list_all (\<lambda>(var, _). var_is_temporary var) ts"
proof (induction as arbitrary: ordered)
  case (Cons a as)
  obtain var v where a: "a = (var, v)" by (cases a)
  show ?case
  proof (cases "assignments_getval ordered var")
    case None
    with Cons.prems a obtain o1 where t: "var_is_temporary var" "assignments_add ordered var v = Some o1"
      "order_temporaries as o1 = Some ordered'"
      by (auto split: if_splits Option.bind_splits)
    obtain t' x' where e: "o1 = ordered @ [(t', x')]" "t' = var \<or> t' = var\<lparr>osize := 4\<rparr>"
      using assignments_add_entry [OF t(2)] by blast
    then have "var_is_temporary t'" using t(1) by (auto simp: var_is_temporary_def val_reg_def)
    with Cons.IH [OF t(3)] e(1) show ?thesis by auto
  next
    case (Some y)
    with Cons a show ?thesis by auto
  qed
qed simp

lemma temporaries_split:
  assumes "vars_of o1 (first_vars vs)" "list_all (\<lambda>v. \<not> var_is_temporary v) vs"
    and "list_all (\<lambda>(var, _). var_is_temporary var) ts"
  shows "assignments_get_temporaries (o1 @ ts) = map (otag \<circ> fst) ts"
proof -
  have "\<not> var_is_temporary var" if "(var, x) \<in> set o1" for var x
  proof -
    have "list_all2 same_var (map fst o1) (first_vars vs)" using assms(1) by (simp add: vars_of_def)
    moreover have "var \<in> set (map fst o1)" using that by force
    ultimately obtain v where "v \<in> set (first_vars vs)" "same_var var v"
      by (metis in_set_conv_nth list_all2_conv_all_nth)
    then have "\<not> var_is_temporary v" "same_var var v" using assms(2) first_vars_set(1) [of vs] by (auto simp: list_all_iff)
    then show ?thesis by (auto simp: var_is_temporary_def same_var_def vkey_def val_reg_def)
  qed
  then have "filter var_is_temporary (map fst o1) = []" by (auto simp: filter_empty_conv)
  moreover have "filter var_is_temporary (map fst ts) = map fst ts"
    using assms(3) by (auto simp: list_all_iff split_beta intro!: filter_True)
  ultimately show ?thesis by (simp add: assignments_get_temporaries_def)
qed

section \<open>Reading the parameters\<close>

text \<open>The name of the local variable for a parameter.\<close>

definition param_name :: "operand \<Rightarrow> string option" where
  "param_name var = map_option (\<lambda>s. if char_at s 0 = CHR ''%'' then tl s else s) (operand2str var)"

lemma take_params_names:
  "map (param_name \<circ> fst) as = map Some ns \<Longrightarrow> take_params as = Some (map Take_param ns)"
proof (induction as arbitrary: ns)
  case (Cons a as)
  then obtain n ns' where n: "ns = n # ns'" by (cases ns) auto
  obtain var v where a: "a = (var, v)" by (cases a)
  with Cons n show ?case by (auto simp: param_name_def)
qed simp

lemma run_take_params:
  assumes "list_all is_local ns" "distinct ns" "cs_params st = xs @ ys" "length xs = length ns"
  shows "\<exists>st'. run_all (exec env) (map Take_param ns) st = Some st' \<and> cs_params st' = ys \<and>
    (\<forall>k<length ns. cs_vars st' (ns ! k) = Some (of_int (xs ! k))) \<and> (\<forall>v. v \<notin> set ns \<longrightarrow> cs_vars st' v = cs_vars st v)"
  using assms
proof (induction ns arbitrary: st xs)
  case (Cons n ns)
  then obtain x xs' where xs: "xs = x # xs'" by (cases xs) auto
  let ?st = "st\<lparr>cs_params := xs' @ ys, cs_vars := (cs_vars st)(n := Some (of_int x))\<rparr>"
  have e: "exec env (Take_param n) st = Some ?st" using Cons.prems xs by (simp add: set_var_def)
  obtain st' where st': "run_all (exec env) (map Take_param ns) ?st = Some st'" "cs_params st' = ys"
    "\<forall>k<length ns. cs_vars st' (ns ! k) = Some (of_int (xs' ! k))" "\<forall>v. v \<notin> set ns \<longrightarrow> cs_vars st' v = cs_vars ?st v"
    using Cons.IH [of ?st xs'] Cons.prems xs by auto
  have "cs_vars st' ((n # ns) ! k) = Some (of_int (xs ! k))" if "k < length (n # ns)" for k
    using that st'(3,4) Cons.prems(2) xs by (cases k) auto
  then show ?case using e st' by (auto intro!: exI [of _ st'])
qed simp

text \<open>The rule of the examples: its assignments in another order, and in the order of its pattern.\<close>

definition demo_unordered :: assignments where
  "demo_unordered =
     [(demo_reg 8 tag_abcd, demo_reg 1 tag_const), (demo_reg 1 tag_no_esp, demo_reg 0 tag_const),
      (demo_reg 0 tag_var, demo_reg 3 tag_const)]"

lemma demo_order: "order_variables demo_unordered (pe_tmpl demo_entry) = Some (rev demo_unordered)"
  by code_simp

lemma demo_template: "template_ok (pe_tmpl demo_entry)" "three_ops (pe_tmpl demo_entry)" "three_ops demo_insns"
  by code_simp+

lemma demo_params: "map (param_name \<circ> fst) (rev demo_unordered) = map Some [''vr0d'', ''vr1d'', ''tr0d'']"
    "list_all is_local [''vr0d'', ''vr1d'', ''tr0d'']" "param_values demo_as = Some [2, 7]"
    "assignments_get_temporaries (rev demo_unordered) = [tag_abcd]"
  by code_simp+

text \<open>
  C37. The parameters of a rule. When the pattern of a rule matches, the generated code for the
  rule, whose variables are read in the order the generator put them in, gives each variable of
  the pattern the value that the matcher bound to it, and each temporary the register chosen
  for it; the temporaries of the table of rules are those behind the variables of the pattern.
\<close>

theorem parameters_in_order:
  assumes match: "templ_matches_insns insns templ = Some (True, m)" and "param_values m = Some xs"
    and order: "order_variables as templ = Some ordered"
    and ok: "template_ok templ" "three_ops insns" "three_ops templ"
    and rs: "length rs = length (assignments_get_temporaries ordered)"
    and ns: "map (param_name \<circ> fst) ordered = map Some ns" "distinct ns" "list_all is_local ns"
  shows "take_params ordered = Some (map Take_param ns) \<and>
    assignments_get_temporaries ordered = map (otag \<circ> fst) (drop (length m) ordered) \<and>
    (\<exists>st. run_all (exec env) (map Take_param ns) (start_state (xs @ map int rs) f) = Some st \<and>
      (\<forall>k<length m. param_name (fst (m ! k)) = Some (ns ! k) \<and> cs_vars st (ns ! k) = Some (of_int (xs ! k))) \<and>
      (\<forall>j<length rs. cs_vars st (ns ! (length m + j)) = Some (of_nat (rs ! j))))"
proof -
  obtain o1 where o1: "order_insns as templ assignments_init = Some o1" "order_temporaries as o1 = Some ordered"
    using order by (auto simp: order_variables_def split: Option.bind_splits)
  obtain ts where ts: "ordered = o1 @ ts" "list_all (\<lambda>(var, _). var_is_temporary var) ts"
    using order_temporaries_append [OF o1(2)] by blast
  have "list_all (\<lambda>i. list_all operand_ok (take 3 (i_op i))) templ" and d: "nonreg_distinct ([] @ template_vars templ)"
    and nt: "list_all (\<lambda>v. \<not> var_is_temporary v) (template_vars templ)"
    using ok(1) by (simp_all add: template_ok_def)
  note t = this(1)
  have start: "vars_of assignments_init (first_vars [])" by (simp add: assignments_init_def first_vars_def)
  have g: "vars_of o1 (first_vars (template_vars templ))" using order_insns_first [OF o1(1) start t d] by simp
  have "length insns = length templ" "insns_match_loop insns templ assignments_init = Some (True, m)"
    using match by (auto simp: templ_matches_insns_def split: if_splits)
  then have "vars_of m (first_vars (template_vars templ))" using insns_match_first [OF _ start _ ok(2,3) t d] by simp
  note names = same_vars_text [OF this g]
  have len: "length m = length o1" using names by (metis length_map)
  have temps: "assignments_get_temporaries ordered = map (otag \<circ> fst) ts"
    unfolding ts(1) by (rule temporaries_split [OF g nt ts(2)])
  have lx: "length xs = length m" using assms(2)
    by (induction m arbitrary: xs rule: param_values.induct) (auto split: Option.bind_splits)
  have ln: "length ns = length m + length rs" using ns(1) ts(1) len rs temps by (metis length_append length_map)
  have "cs_params (start_state (xs @ map int rs) f) = (xs @ map int rs) @ []" by (simp add: start_state_def)
  from run_take_params [OF ns(3,2) this, of env] obtain st where st:
    "run_all (exec env) (map Take_param ns) (start_state (xs @ map int rs) f) = Some st"
    "\<forall>k<length ns. cs_vars st (ns ! k) = Some (of_int ((xs @ map int rs) ! k))"
    using lx ln by auto
  have name: "param_name (fst (m ! k)) = Some (ns ! k)" if k: "k < length m" for k
  proof -
    have "operand2str (fst (m ! k)) = operand2str (fst (ordered ! k))"
      using arg_cong [OF names, of "\<lambda>xs. xs ! k"] k len ts(1) by (simp add: nth_append)
    moreover have "(param_name \<circ> fst) (ordered ! k) = Some (ns ! k)"
      using arg_cong [OF ns(1), of "\<lambda>xs. xs ! k"] k len ts(1) ln by (simp add: nth_append)
    ultimately show ?thesis by (simp add: param_name_def)
  qed
  show ?thesis
    using take_params_names [OF ns(1)] temps st name ln lx len ts(1)
    by (intro conjI exI [of _ st]) (auto simp: nth_append)
qed

theorem parameters_in_order_witness:
  "\<forall>env. \<exists>st. run_all (exec env) (map Take_param [''vr0d'', ''vr1d'', ''tr0d'']) (start_state [2, 7, 1] 0) = Some st \<and>
     cs_vars st ''vr1d'' = Some 7"
proof
  fix env
  have "distinct [''vr0d'', ''vr1d'', ''tr0d'']" by simp
  from parameters_in_order [OF demo_match demo_params(3) demo_order demo_template(1,3,2) _ demo_params(1) this demo_params(2),
      of "[1]" env 0]
  obtain st where "run_all (exec env) (map Take_param [''vr0d'', ''vr1d'', ''tr0d'']) (start_state [2, 7, 1] 0) = Some st"
    "\<forall>k<length demo_as. cs_vars st ([''vr0d'', ''vr1d'', ''tr0d''] ! k) = Some (of_int ([2, 7] ! k))"
    using demo_params(4) by auto
  then show "\<exists>st. run_all (exec env) (map Take_param [''vr0d'', ''vr1d'', ''tr0d'']) (start_state [2, 7, 1] 0) = Some st \<and>
      cs_vars st ''vr1d'' = Some 7"
    by (intro exI [of _ st]) (auto simp: demo_as_def dest: spec [of _ 1])
qed

end
