(* ===== verification/Gen_Files_Props.thy ===== *)
theory Gen_Files_Props
  imports Gen_Files Assignments_Props Regset_Props
begin

text \<open>
  A later run of the generator reads from its text files what an earlier run wrote: the
  assignments and the conflict pairs of the rules, in the order of the rules.
\<close>

section \<open>Lines\<close>

text \<open>The text without the white space at its start, where the next line begins.\<close>

definition skip_space :: "string \<Rightarrow> string" where
  "skip_space = dropWhile (\<lambda>c. isspace (ch c))"

lemma skip_space_nl [simp]: "skip_space (nl @ s) = skip_space s"
  by (simp add: skip_space_def nl_def isspace_blank)

lemma skip_space_Cons: "\<not> isspace (ch c) \<Longrightarrow> skip_space (c # s) = c # s"
  by (simp add: skip_space_def)

lemma scan_line_nl:
  assumes "line \<noteq> []" and "CHR 0x0A \<notin> set line" and "length line < n"
  shows "scan_line n (line @ nl @ s) = Line line (skip_space s)"
proof -
  have "takeWhile (\<lambda>c. c \<noteq> CHR 0x0A) (line @ nl @ s) = line" "dropWhile (\<lambda>c. c \<noteq> CHR 0x0A) (line @ nl @ s) = nl @ s"
    using assms(2) by (auto simp: nl_def takeWhile_append dropWhile_append)
  then show ?thesis
    using assms(1,3) skip_space_nl [of s] by (simp add: scan_line_def Let_def skip_space_def)
qed

text \<open>The name of an entry, with the colon behind it, fits a line.\<close>

definition entry_name :: "string \<Rightarrow> bool" where
  "entry_name label \<longleftrightarrow> starts label PEEP_PREFIX_STR \<and> CHR 0x0A \<notin> set label \<and> length label < 79"

lemma entry_name_line:
  assumes "entry_name label"
  shows "starts (label @ '':'') PEEP_PREFIX_STR" "skip_space (label @ s) = label @ s" "label \<noteq> []"
    and "80 \<le> n \<Longrightarrow> scan_line n (label @ '':'' @ nl @ s) = Line (label @ '':'') (skip_space s)"
proof -
  obtain r where l: "label = ''peep_'' @ r" using assms by (auto simp: entry_name_def starts_append PEEP_PREFIX_STR_def)
  have "\<not> isspace (ch (CHR ''p''))" by code_simp
  then show "starts (label @ '':'') PEEP_PREFIX_STR" "skip_space (label @ s) = label @ s" "label \<noteq> []"
    by (simp_all add: l starts_append PEEP_PREFIX_STR_def skip_space_Cons)
  have nn: "CHR 0x0A \<notin> set (label @ '':'')" using assms by (simp add: entry_name_def)
  show "scan_line n (label @ '':'' @ nl @ s) = Line (label @ '':'') (skip_space s)" if "80 \<le> n"
    using scan_line_nl [of "label @ '':''" n s] nn that assms by (simp add: entry_name_def)
qed

text \<open>What is left of a file starts with the next entry, or nothing is left.\<close>

definition at_entry :: "string \<Rightarrow> bool" where
  "at_entry fp \<longleftrightarrow> fp = [] \<or> (\<exists>label s. entry_name label \<and> fp = label @ '':'' @ nl @ s)"

lemma at_entry_skip: "at_entry fp \<Longrightarrow> skip_space fp = fp"
  by (auto simp: at_entry_def entry_name_line(2)) (simp add: skip_space_def)

section \<open>Assignments\<close>

lemma pct_start: "pct x = Some s \<Longrightarrow> \<exists>r. s = CHR ''%'' # r"
  by (auto simp: pct_def)

lemma operand_text_start:
  assumes "readable var" and "operand2str var = Some s"
  shows "s \<noteq> [] \<and> (hd s \<noteq> CHR ''p'' \<or> starts s ''prefix'')"
proof -
  have "\<not> isdigit (ch (CHR ''p''))" by code_simp
  then have digits: "show_dec n \<noteq> [] \<and> hd (show_dec n) \<noteq> CHR ''p''" for n
    using show_dec_digits [of n] show_dec_nonempty [of n] by (cases "show_dec n") (auto simp: list_all_iff)
  consider (reg) "otype var = op_reg" "osize var \<in> {1, 2, 4}" | (seg) "otype var = op_seg"
    | (imm) "otype var = op_imm" | (prefix) "otype var = op_prefix"
    using assms(1) by (auto simp: readable_def split: opertype.splits)
  then show ?thesis
  proof cases
    case reg
    then show ?thesis using assms(2) by (auto simp: operand2str_def reg2str_def Let_def split: if_splits dest!: pct_start)
  next
    case seg
    then show ?thesis using assms(2) by (auto simp: operand2str_def seg2str_def Let_def split: if_splits dest!: pct_start)
  next
    case imm
    then show ?thesis using assms(2) digits by (auto simp: operand2str_def imm2str_def split: if_splits)
  next
    case prefix
    then show ?thesis using assms(2) by (auto simp: operand2str_def prefix2str_def Let_def starts_append split: if_splits)
  qed
qed

lemma plain_not_peep: "readable var \<Longrightarrow> operand2str var = Some s \<Longrightarrow> \<not> starts (s @ t) PEEP_PREFIX_STR"
  using operand_text_start [of var s] by (cases s) (auto simp: starts_append PEEP_PREFIX_STR_def append_eq_Cons_conv)

lemma read_assignments_inside:
  assumes "\<forall>(var, v)\<in>set as. readable_pair var v" and "assignments2str as = Some out" and "at_entry fp"
  shows "read_assignments_loop name (skip_space (out @ nl @ fp)) True buf = Some (buf @ out, fp)"
  using assms
proof (induction as arbitrary: out buf)
  case Nil
  show ?case
  proof (cases "fp = []")
    case True
    then have "skip_space (out @ nl @ fp) = []" using Nil.prems(2) skip_space_nl [of "[]"] by (simp add: skip_space_def)
    then show ?thesis using Nil.prems(2) True by (simp add: read_assignments_loop.simps [of name "[]"] scan_line_def)
  next
    case False
    then obtain label s where fp: "entry_name label" "fp = label @ '':'' @ nl @ s" using Nil.prems(3) by (auto simp: at_entry_def)
    then have "scan_line 80 fp = Line (label @ '':'') (skip_space s)" using entry_name_line(4) [OF fp(1), of 80 s] by simp
    then show ?thesis
      using Nil.prems(2) at_entry_skip [OF Nil.prems(3)] entry_name_line(1) [OF fp(1)]
      by (simp add: read_assignments_loop.simps [of name fp])
  qed
next
  case (Cons p as)
  obtain var v where p: "p = (var, v)" by (cases p)
  then have r: "readable var" "readable v" using Cons.prems by (auto simp: readable_pair_def)
  then obtain s t where st: "operand2str var = Some s" "plain_text s" "operand2str v = Some t" "plain_text t"
    using readable_text [OF r(1)] readable_text [OF r(2)] by metis
  let ?line = "assignment_line s (otag var) t"
  obtain rest where rest: "assignments2str as = Some rest"
    using assignments2str_readable [of as] Cons.prems by auto
  have out: "out = ?line @ nl @ rest" using Cons.prems(2) st rest p by (simp add: assignment_line_def nl_def)
  note shape = assignment_line_shape [OF st(2,4), of "otag var"]
  have sk: "skip_space (out @ nl @ fp) = ?line @ nl @ rest @ nl @ fp"
    using shape(1,4) by (cases ?line) (simp_all add: out skip_space_Cons)
  have "scan_line 80 (?line @ nl @ rest @ nl @ fp) = Line ?line (skip_space (rest @ nl @ fp))"
    by (rule scan_line_nl) (use shape in auto)
  moreover have "\<not> starts ?line PEEP_PREFIX_STR" using plain_not_peep [OF r(1) st(1)] by (simp add: assignment_line_def)
  moreover have "read_assignments_loop name (skip_space (rest @ nl @ fp)) True (buf @ ?line @ nl) =
      Some ((buf @ ?line @ nl) @ rest, fp)"
    using Cons.IH [OF _ rest Cons.prems(3)] Cons.prems(1) by simp
  ultimately show ?case unfolding sk by (simp add: read_assignments_loop.simps [of name "?line @ _"] out)
qed

text \<open>The entries of a file, written one after the other and read in the same order.\<close>

fun write_assignments :: "(string \<times> assignments) list \<Rightarrow> string option" where
  "write_assignments [] = Some []"
| "write_assignments ((name, as) # es) =
     do { s \<leftarrow> output_assignments name as; r \<leftarrow> write_assignments es; Some (s @ r) }"

fun read_all_assignments :: "string \<Rightarrow> string list \<Rightarrow> assignments list option" where
  "read_all_assignments fp [] = Some []"
| "read_all_assignments fp (name # names) =
     do { (as, fp) \<leftarrow> read_assignments fp name; r \<leftarrow> read_all_assignments fp names; Some (as # r) }"

definition assignments_entry :: "string \<Rightarrow> assignments \<Rightarrow> bool" where
  "assignments_entry name as \<longleftrightarrow>
     entry_name name \<and> (\<forall>(var, v)\<in>set as. readable_pair var v) \<and> length as \<le> MAX_VARIABLES \<and>
     (case assignments2str as of Some s \<Rightarrow> length s < 512 | None \<Rightarrow> True)"

lemma read_assignments_output:
  assumes "assignments_entry name as" and "output_assignments name as = Some s" and "at_entry fp"
  shows "\<exists>as'. read_assignments (s @ fp) name = Some (as', fp) \<and> list_all2 same_pair as as'"
proof -
  have n: "entry_name name" and r: "\<forall>(var, v)\<in>set as. readable_pair var v" using assms(1) by (simp_all add: assignments_entry_def)
  obtain out where out: "assignments2str as = Some out" "s = name @ '':'' @ nl @ out @ nl"
    using assms(2) by (auto simp: output_assignments_def split: Option.bind_splits)
  then have len: "length out < 512" using assms(1) by (simp add: assignments_entry_def)
  obtain as' where as': "str2assignments_loop out [] = Parsed ([] @ as')" "list_all2 same_pair as as'"
    using str2assignments_loop_readable [OF r out(1), of "[]"] assms(1) by (auto simp: assignments_entry_def)
  have "scan_line 80 (name @ '':'' @ nl @ out @ nl @ fp) = Line (name @ '':'') (skip_space (out @ nl @ fp))"
    by (rule entry_name_line(4) [OF n]) simp
  moreover have "read_assignments_loop name (skip_space (out @ nl @ fp)) True [] = Some ([] @ out, fp)"
    by (rule read_assignments_inside [OF r out(1) assms(3)])
  ultimately have "read_assignments_loop name (s @ fp) False [] = Some (out, fp)"
    using entry_name_line(1) [OF n] by (simp add: out(2) read_assignments_loop.simps [of name "name @ _"])
  then show ?thesis
    using as' len by (auto simp: read_assignments_def str2assignments_def assignments_init_def)
qed

lemma write_assignments_start:
  "write_assignments es = Some f \<Longrightarrow> \<forall>(name, as)\<in>set es. entry_name name \<Longrightarrow> at_entry f"
proof (cases es)
  case (Cons e es')
  assume *: "write_assignments es = Some f" "\<forall>(name, as)\<in>set es. entry_name name"
  obtain name as where e: "e = (name, as)" by (cases e)
  then obtain out r where "f = name @ '':'' @ nl @ out @ nl @ r"
    using *(1) Cons by (auto simp: output_assignments_def split: Option.bind_splits)
  moreover have "entry_name name" using *(2) Cons e by simp
  ultimately show ?thesis unfolding at_entry_def by blast
qed (simp add: at_entry_def)

lemma write_assignments_defined:
  "\<forall>(name, as)\<in>set es. assignments_entry name as \<Longrightarrow> \<exists>f. write_assignments es = Some f"
proof (induction es)
  case (Cons e es)
  obtain name as where e: "e = (name, as)" by (cases e)
  then obtain out where "assignments2str as = Some out"
    using assignments2str_readable [of as] Cons.prems by (auto simp: assignments_entry_def)
  then show ?case using Cons e by (auto simp: output_assignments_def)
qed simp

lemma read_all_written:
  assumes "\<forall>(name, as)\<in>set es. assignments_entry name as" and "write_assignments es = Some f"
  shows "\<exists>ass. read_all_assignments f (map fst es) = Some ass \<and> list_all2 (list_all2 same_pair) (map snd es) ass"
  using assms
proof (induction es arbitrary: f)
  case (Cons e es)
  obtain name as where e: "e = (name, as)" by (cases e)
  then obtain s rest where s: "output_assignments name as = Some s" "write_assignments es = Some rest" "f = s @ rest"
    using Cons.prems(2) by (auto split: Option.bind_splits)
  have "at_entry rest"
    using write_assignments_start [OF s(2)] Cons.prems(1) by (auto simp: assignments_entry_def)
  then obtain as' where "read_assignments f name = Some (as', rest)" "list_all2 same_pair as as'"
    using read_assignments_output [OF _ s(1)] Cons.prems(1) e s(3) by auto
  moreover obtain ass where "read_all_assignments rest (map fst es) = Some ass" "list_all2 (list_all2 same_pair) (map snd es) ass"
    using Cons.IH [OF _ s(2)] Cons.prems(1) by auto
  ultimately show ?case by (auto simp: e)
qed simp

section \<open>Conflict pairs\<close>

text \<open>A side of a pair as the generator writes it.\<close>

definition side_ok :: "int \<Rightarrow> tag_t \<Rightarrow> bool" where
  "side_ok r tag \<longleftrightarrow> 0 \<le> r \<and> (tag = tag_const \<and> r < 8 \<or> tag = tag_var \<and> r < 16)"

definition pair_ok :: "nomatch_pair \<Rightarrow> bool" where
  "pair_ok p \<longleftrightarrow> side_ok (np_reg1 p) (np_tag1 p) \<and> side_ok (np_reg2 p) (np_tag2 p)"

lemma entry_at_member: "entry_at t i = Some x \<Longrightarrow> x \<in> set t"
  by (auto simp: entry_at_def split: if_splits)

lemma side_text:
  assumes "side_ok r tag"
  shows "\<exists>s. operand2str (pair_operand r tag) = Some s \<and> s \<noteq> [] \<and> length s < 20 \<and>
    CHR '','' \<notin> set s \<and> CHR ''}'' \<notin> set s \<and> CHR 0x0A \<notin> set s \<and>
    (\<forall>op0. \<exists>op'. str2operand op0 s = Parsed op' \<and> int (val_reg op') = r \<and> otag op' = tag)"
proof -
  have "0 \<le> r" "r < 16" using assms by (auto simp: side_ok_def)
  then obtain n where n: "r = int n" "n < 16" by (cases r) auto
  then have val: "int (val_reg (pair_operand r tag)) = r"
    by (simp add: pair_operand_def val_reg_def view_def scalar_operand_def set_view_def val_bits_def
        take_bit_of_nat take_bit_nat_eq_self unsigned_of_nat)
  have rd: "readable (pair_operand r tag)"
    using assms val by (auto simp: readable_def pair_operand_def scalar_operand_def set_view_def side_ok_def)
  obtain s where s: "operand2str (pair_operand r tag) = Some s" "plain_text s"
    "\<And>op0. \<exists>op'. str2operand op0 s = Parsed op' \<and> same_scalar op' (pair_operand r tag)"
    using str2operand_readable [OF rd] by (metis append_Nil append_Nil2 replicate_0)
  have names: "list_all (\<lambda>s. CHR '','' \<notin> set s \<and> CHR ''}'' \<notin> set s) (regs32 @ vregs32 @ tregs32)" by code_simp
  have fields: "otype (pair_operand r tag) = op_reg" "otag (pair_operand r tag) = tag" "osize (pair_operand r tag) = 4"
    by (simp_all add: pair_operand_def scalar_operand_def set_view_def)
  have "reg2str r tag 4 = Some s"
    using s(1) val by (simp add: operand2str_def fields val_reg_def)
  then obtain x where x: "s = CHR ''%'' # x" "x \<in> set (regs32 @ vregs32 @ tregs32)"
    using entry_at_member by (fastforce simp: reg2str_def pct_def split: if_splits)
  then have "CHR '','' \<notin> set s \<and> CHR ''}'' \<notin> set s"
    using names by (auto simp: list_all_iff)
  moreover have "int (val_reg op') = r \<and> otag op' = tag" if "same_scalar op' (pair_operand r tag)" for op'
    using that val assms
    by (auto simp: same_scalar_def pair_operand_def scalar_operand_def set_view_def side_ok_def norm_tag_def val_reg_def)
  moreover have "CHR 0x0A \<notin> set s" "s \<noteq> []" "length s < 20"
    using plain_text_chars [OF s(2)] s(2) by (auto simp: plain_text_def)
  ultimately show ?thesis using s(1,3) by blast
qed

lemma takeWhile_upto: "c \<notin> set a \<Longrightarrow> takeWhile (\<lambda>x. x \<noteq> c) (a @ c # b) = a \<and> dropWhile (\<lambda>x. x \<noteq> c) (a @ c # b) = c # b"
  by (induction a) auto

lemma read_pair:
  assumes "pair_ok p"
  shows "\<exists>t. nomatch_pair2str p = Some t \<and> t \<noteq> [] \<and> hd t = CHR ''{'' \<and> CHR 0x0A \<notin> set t \<and> length t < 50 \<and>
    (\<forall>r. str2nomatch_pair (t @ r) = Parsed (p, length t))"
proof -
  obtain a where a: "operand2str (pair_operand (np_reg1 p) (np_tag1 p)) = Some a" "a \<noteq> []" "length a < 20"
    "CHR '','' \<notin> set a" "CHR 0x0A \<notin> set a"
    "\<forall>op0. \<exists>op'. str2operand op0 a = Parsed op' \<and> int (val_reg op') = np_reg1 p \<and> otag op' = np_tag1 p"
    using side_text assms unfolding pair_ok_def by blast
  obtain b where b: "operand2str (pair_operand (np_reg2 p) (np_tag2 p)) = Some b" "b \<noteq> []" "length b < 20"
    "CHR ''}'' \<notin> set b" "CHR 0x0A \<notin> set b"
    "\<forall>op0. \<exists>op'. str2operand op0 b = Parsed op' \<and> int (val_reg op') = np_reg2 p \<and> otag op' = np_tag2 p"
    using side_text assms unfolding pair_ok_def by blast
  let ?t = "''{'' @ a @ '','' @ b @ ''}''"
  have "str2nomatch_pair (?t @ r) = Parsed (p, length ?t)" for r
  proof -
    have s1: "takeWhile (\<lambda>c. c \<noteq> CHR '','') (a @ CHR '','' # b @ CHR ''}'' # r) = a"
      "dropWhile (\<lambda>c. c \<noteq> CHR '','') (a @ CHR '','' # b @ CHR ''}'' # r) = CHR '','' # b @ CHR ''}'' # r"
      using takeWhile_upto [OF a(4)] by blast+
    have s2: "takeWhile (\<lambda>c. c \<noteq> CHR ''}'') (b @ CHR ''}'' # r) = b" using takeWhile_upto [OF b(4)] by blast
    have scan: "scan_pair (?t @ r) = Some (a, b, length ?t)"
      using a(2,3) b(2,3) s1 s2 by (simp add: scan_pair_def Let_def char_at_def)
    obtain op1 where op1: "str2operand blank_operand a = Parsed op1" "int (val_reg op1) = np_reg1 p" "otag op1 = np_tag1 p"
      using a(6) by blast
    obtain op2 where "str2operand op1 b = Parsed op2" "int (val_reg op2) = np_reg2 p" "otag op2 = np_tag2 p"
      using b(6) by blast
    then show ?thesis unfolding str2nomatch_pair_def scan using op1 by simp
  qed
  moreover have "nomatch_pair2str p = Some ?t" using a(1) b(1) by (simp add: nomatch_pair2str_def)
  ultimately show ?thesis using a(3,5) b(3,5) by (intro exI [of _ ?t]) auto
qed

lemma read_pairs:
  assumes "list_all pair_ok ps" and "ps \<noteq> []" and "length ps \<le> room"
  shows "\<exists>t. nomatch_pairs2str ps = Some t \<and> t \<noteq> [] \<and> hd t = CHR ''{'' \<and> CHR 0x0A \<notin> set t \<and> length t < 50 * length ps \<and>
    nomatch_pairs_loop room t = Some ps"
  using assms
proof (induction ps arbitrary: room)
  case (Cons p ps)
  obtain t where t: "nomatch_pair2str p = Some t" "t \<noteq> []" "hd t = CHR ''{''" "CHR 0x0A \<notin> set t" "length t < 50"
    "\<forall>r. str2nomatch_pair (t @ r) = Parsed (p, length t)"
    using read_pair [of p] Cons.prems(1) by auto
  obtain n where n: "room = Suc n" using Cons.prems(3) by (cases room) auto
  show ?case
  proof (cases "ps = []")
    case True
    then show ?thesis using t n t(6) [rule_format, of "[]"] by (auto intro!: exI [of _ t])
  next
    case False
    then obtain u where u: "nomatch_pairs2str ps = Some u" "u \<noteq> []" "CHR 0x0A \<notin> set u" "length u < 50 * length ps"
      "nomatch_pairs_loop n u = Some ps"
      using Cons.IH [of n] Cons.prems n by auto
    then show ?thesis using t n by (auto intro!: exI [of _ "t @ u"])
  qed
qed simp

text \<open>The file of the pairs.\<close>

fun write_pairs :: "(string \<times> nomatch_pair list) list \<Rightarrow> string option" where
  "write_pairs [] = Some []"
| "write_pairs ((name, ps) # es) =
     do { line \<leftarrow> nomatch_pairs_line ps; r \<leftarrow> write_pairs es; Some (name @ '':'' @ nl @ line @ nl @ r) }"

fun read_all_pairs :: "string \<Rightarrow> string list \<Rightarrow> nomatch_pair list list option" where
  "read_all_pairs fp [] = Some []"
| "read_all_pairs fp (name # names) =
     do { (ps, fp) \<leftarrow> read_nomatch_pairs fp name; r \<leftarrow> read_all_pairs fp names; Some (ps # r) }"

definition pairs_entry :: "string \<Rightarrow> nomatch_pair list \<Rightarrow> bool" where
  "pairs_entry name ps \<longleftrightarrow> entry_name name \<and> list_all pair_ok ps \<and> length ps \<le> MAX_NOMATCH_PAIRS"

lemma pairs_line:
  assumes "list_all pair_ok ps" and "length ps \<le> MAX_NOMATCH_PAIRS"
  shows "\<exists>t. nomatch_pairs_line ps = Some t \<and> t \<noteq> [] \<and> hd t \<in> {CHR ''{'', CHR ''n''} \<and> CHR 0x0A \<notin> set t \<and> length t < 8192 \<and>
    (if t = ''none'' then Some [] else nomatch_pairs_loop MAX_NOMATCH_PAIRS t) = Some ps"
proof (cases "ps = []")
  case False
  obtain t where "nomatch_pairs2str ps = Some t" "t \<noteq> []" "hd t = CHR ''{''" "CHR 0x0A \<notin> set t" "length t < 50 * length ps"
    "nomatch_pairs_loop MAX_NOMATCH_PAIRS t = Some ps"
    using read_pairs [OF assms(1) False assms(2)] by blast
  moreover from this have "t \<noteq> ''none''" by auto
  ultimately show ?thesis using assms(2) False by (auto simp: nomatch_pairs_line_def MAX_NOMATCH_PAIRS_def)
qed (simp add: nomatch_pairs_line_def)

lemma read_pairs_output:
  assumes "entry_name name" and "at_entry fp" and line: "t \<noteq> []" "hd t \<in> {CHR ''{'', CHR ''n''}" "CHR 0x0A \<notin> set t" "length t < 8192"
    and ps: "(if t = ''none'' then Some [] else nomatch_pairs_loop MAX_NOMATCH_PAIRS t) = Some ps"
  shows "read_nomatch_pairs (name @ '':'' @ nl @ t @ nl @ fp) name = Some (ps, fp)"
proof -
  have sp: "\<not> isspace (ch (CHR ''{''))" "\<not> isspace (ch (CHR ''n''))" by code_simp+
  then have sk: "skip_space (t @ nl @ fp) = t @ nl @ fp" using line(1,2) by (cases t) (auto simp: skip_space_Cons)
  have np: "\<not> starts t PEEP_PREFIX_STR" using line(1,2) by (auto simp: starts_append PEEP_PREFIX_STR_def)
  have "scan_line 8192 (name @ '':'' @ nl @ t @ nl @ fp) = Line (name @ '':'') (t @ nl @ fp)"
    using entry_name_line(4) [OF assms(1), of 8192 "t @ nl @ fp"] sk by simp
  moreover have "scan_line 8192 (t @ nl @ fp) = Line t fp"
    using scan_line_nl [OF line(1,3,4), of fp] at_entry_skip [OF assms(2)] by simp
  ultimately have "entry_line_loop 8192 name (name @ '':'' @ nl @ t @ nl @ fp) False None = Some (t, fp)"
    using entry_name_line(1) [OF assms(1)] np
    by (simp add: entry_line_loop.simps [of _ _ "name @ _"] entry_line_loop.simps [of _ _ "t @ _"])
  then show ?thesis using ps by (simp add: read_nomatch_pairs_def)
qed

lemma read_all_written_pairs:
  assumes "\<forall>(name, ps)\<in>set es. pairs_entry name ps"
  shows "\<exists>f. write_pairs es = Some f \<and> at_entry f \<and> read_all_pairs f (map fst es) = Some (map snd es)"
  using assms
proof (induction es)
  case (Cons e es)
  obtain name ps where e: "e = (name, ps)" by (cases e)
  then have n: "entry_name name" "list_all pair_ok ps" "length ps \<le> MAX_NOMATCH_PAIRS"
    using Cons.prems by (simp_all add: pairs_entry_def)
  obtain t where t: "nomatch_pairs_line ps = Some t" "t \<noteq> []" "hd t \<in> {CHR ''{'', CHR ''n''}" "CHR 0x0A \<notin> set t" "length t < 8192"
    "(if t = ''none'' then Some [] else nomatch_pairs_loop MAX_NOMATCH_PAIRS t) = Some ps"
    using pairs_line [OF n(2,3)] by blast
  obtain f where f: "write_pairs es = Some f" "at_entry f" "read_all_pairs f (map fst es) = Some (map snd es)"
    using Cons by auto
  have "at_entry (name @ '':'' @ nl @ t @ nl @ f)" using n(1) unfolding at_entry_def by blast
  moreover have "read_nomatch_pairs (name @ '':'' @ nl @ t @ nl @ f) name = Some (ps, f)"
    by (rule read_pairs_output [OF n(1) f(2) t(2-6)])
  ultimately show ?case using t(1) f e by simp
qed (simp add: at_entry_def)

section \<open>Properties\<close>

text \<open>
  C38. The files between the runs of the generator: entries written one after the other, with
  names of rules and with assignments and pairs that have a text, are read back in the same
  order, the assignments up to the tags of values, the pairs exactly.
\<close>

theorem rule_files_roundtrip:
  assumes "\<forall>(name, as)\<in>set es. assignments_entry name as" and "\<forall>(name, ps)\<in>set ds. pairs_entry name ps"
  shows "(\<exists>f ass. write_assignments es = Some f \<and> read_all_assignments f (map fst es) = Some ass \<and>
      list_all2 (list_all2 same_pair) (map snd es) ass) \<and>
    (\<exists>f. write_pairs ds = Some f \<and> read_all_pairs f (map fst ds) = Some (map snd ds))"
  using write_assignments_defined [OF assms(1)] read_all_written [OF assms(1)] read_all_written_pairs [OF assms(2)]
  by blast

text \<open>A register variable with the register it is assembled with.\<close>

definition demo_variable :: assignments where
  "demo_variable = [(scalar_operand op_reg 4 0 tag_no_esp, scalar_operand op_reg 4 6 tag_const)]"

theorem rule_files_roundtrip_witness:
  "\<exists>f. write_pairs [(''peep_a'', []), (''peep_b'', [\<lparr>np_reg1 = 8, np_reg2 = 1, np_tag1 = tag_var, np_tag2 = tag_const\<rparr>])] = Some f \<and>
     read_all_pairs f [''peep_a'', ''peep_b''] =
       Some [[], [\<lparr>np_reg1 = 8, np_reg2 = 1, np_tag1 = tag_var, np_tag2 = tag_const\<rparr>]]"
proof -
  have n: "entry_name ''peep_a''" "entry_name ''peep_b''" by (simp_all add: entry_name_def PEEP_PREFIX_STR_def starts_def)
  have "\<forall>(var, v)\<in>set demo_variable. readable_pair var v"
    by (simp add: demo_variable_def readable_pair_def readable_def scalar_operand_def val_reg_def val_seg_def
        val_bits_def take_bit_eq_mod)
  moreover have "length demo_variable \<le> MAX_VARIABLES" by (simp add: demo_variable_def MAX_VARIABLES_def)
  moreover have "map_option length (assignments2str demo_variable) = Some 27" by code_simp
  ultimately have "assignments_entry ''peep_a'' demo_variable"
    using n by (auto simp: assignments_entry_def split: option.splits)
  then have a: "\<forall>(name, as)\<in>set [(''peep_a'', demo_variable)]. assignments_entry name as" by simp
  have "\<forall>(name, ps)\<in>set [(''peep_a'', []), (''peep_b'', [\<lparr>np_reg1 = 8, np_reg2 = 1, np_tag1 = tag_var, np_tag2 = tag_const\<rparr>])].
      pairs_entry name ps"
    using n by (simp add: pairs_entry_def pair_ok_def side_ok_def MAX_NOMATCH_PAIRS_def)
  from rule_files_roundtrip [OF a this] show ?thesis by simp
qed

end
