(* ===== verification/Gen_Rules.thy ===== *)
theory Gen_Rules
  imports Gen_Files Gen_Code
begin

text \<open>
  The first run of the build's generator (\<^verbatim>\<open>peepgen.c\<close>): it reads the file of rules, expands the
  addressing modes and the conditions of each rule, chooses a value for each variable, and writes
  the pattern and the code of the rule as assembly under a label, with one more copy of the code
  for each value of each register and segment variable. A result \<open>None\<close> is an exit of the
  generator, a failed assertion, an access outside a buffer or a use of a value that is not set.
\<close>

definition MAX_IMM_VARS :: nat where "MAX_IMM_VARS = 8"

definition peep_vregs :: "string list" where
  "peep_vregs = [''vr0'', ''vr1'', ''vr2'', ''vr3'', ''vr4'', ''vr5'', ''vr6'', ''vr7'']"
definition peep_tregs :: "string list" where "peep_tregs = [''tr0'', ''tr1'', ''tr2'']"

definition occurs_in :: "string \<Rightarrow> string \<Rightarrow> bool" where "occurs_in p s \<longleftrightarrow> strstr s p \<noteq> None"

section \<open>The variables of a rule\<close>

text \<open>
  The array of the variables, in which the entries behind the number in use are not initialised.
\<close>

type_synonym var_array = "operand list \<times> nat"

definition add_variable :: "operand \<Rightarrow> var_array \<Rightarrow> var_array option" where
  "add_variable op = (\<lambda>(arr, n). if n < MAX_VARIABLES \<and> n < length arr then Some (arr[n := op], n + 1) else None)"

lemma strstr_drop_shorter: "strstr s p = Some i \<Longrightarrow> p \<noteq> [] \<Longrightarrow> length (drop (i + length p) s) < length s"
  using strstr_bound [of s p i] by (cases p) auto

text \<open>The name of a register occurs with one of the endings for its sizes.\<close>

function regvar_occurs :: "string \<Rightarrow> string \<Rightarrow> bool" where
  "regvar_occurs ptr r =
     (if r = [] then False
      else case strstr ptr r of
        None \<Rightarrow> False
      | Some i \<Rightarrow>
          let ptr = drop (i + length r) ptr
          in char_at ptr 0 \<in> {CHR ''b'', CHR ''w'', CHR ''d''} \<or> regvar_occurs ptr r)"
  by pat_completeness auto

termination
  by (relation "measure (\<lambda>(ptr, _). length ptr)") (auto dest: strstr_drop_shorter simp del: length_drop)

declare regvar_occurs.simps [simp del]

text \<open>
  The test whether a register is in the array already looks at the entry with the number of the
  register, once for each entry in use, rather than at the entries in use.
\<close>

fun find_regvars_loop :: "nat \<Rightarrow> string list \<Rightarrow> string \<Rightarrow> var_array \<Rightarrow> var_array option" where
  "find_regvars_loop i [] assembly vs = Some vs"
| "find_regvars_loop i (r # rs) assembly vs =
     (case str2operand blank_operand (CHR ''%'' # r @ ''d'') of
        Parsed op \<Rightarrow>
          if snd vs > 0 \<and> operands_equal (fst vs ! i) op then find_regvars_loop (i + 1) rs assembly vs
          else if regvar_occurs assembly r
          then do { vs \<leftarrow> add_variable op vs; find_regvars_loop (i + 1) rs assembly vs }
          else find_regvars_loop (i + 1) rs assembly vs
      | _ \<Rightarrow> None)"

definition find_regvars :: "string list \<Rightarrow> string \<Rightarrow> var_array \<Rightarrow> var_array option" where
  "find_regvars regvars assembly vs = find_regvars_loop 0 regvars assembly vs"

text \<open>Constants and segments: the name of the operand and the text that has to occur.\<close>

definition variable_exists :: "operand \<Rightarrow> var_array \<Rightarrow> bool" where
  "variable_exists op = (\<lambda>(arr, n). list_ex (\<lambda>v. operands_equal v op) (take n arr))"

fun scalars_loop :: "(string \<times> string) list \<Rightarrow> string \<Rightarrow> var_array \<Rightarrow> var_array option" where
  "scalars_loop [] assembly vs = Some vs"
| "scalars_loop ((name, pat) # names) assembly vs =
     (case str2operand blank_operand name of
        Parsed op \<Rightarrow>
          if variable_exists op vs then scalars_loop names assembly vs
          else if occurs_in pat assembly
          then do { vs \<leftarrow> add_variable op vs; scalars_loop names assembly vs }
          else scalars_loop names assembly vs
      | _ \<Rightarrow> None)"

definition imm_name :: "nat \<Rightarrow> string" where "imm_name i = CHR ''C'' # show_dec i"

definition imm_names :: "(string \<times> string) list" where
  "imm_names = map (\<lambda>i. (imm_name i, imm_name i)) [0..<MAX_IMM_VARS]"

definition seg_names :: "(string \<times> string) list" where
  "seg_names = map (\<lambda>s. (CHR ''%'' # s, s)) vsegs"

definition find_variables :: "string \<Rightarrow> var_array \<Rightarrow> var_array option" where
  "find_variables assembly vs =
     do {
       vs \<leftarrow> find_regvars peep_vregs assembly vs;
       vs \<leftarrow> find_regvars peep_tregs assembly vs;
       vs \<leftarrow> scalars_loop imm_names assembly vs;
       vs \<leftarrow> scalars_loop seg_names assembly vs;
       (if occurs_in ''prefix'' assembly
        then add_variable (blank_operand\<lparr>otype := op_prefix, osize := 0, orex := False, otag := tag_var\<rparr>) vs
        else Some vs)
     }"

section \<open>Constraints\<close>

text \<open>
  A line of the constraints is the name of a variable, or \<open>cpu\<close>, a colon and a constraint. A line
  whose name is only spaces is read in front of the buffer.
\<close>

definition read_constraint :: "operand list \<Rightarrow> u64 \<Rightarrow> string \<Rightarrow> (operand list \<times> u64) option" where
  "read_constraint vars constraints line =
     do {
       (name, range) \<leftarrow> split_at (CHR '':'') line;
       if dropWhile (\<lambda>c. c = CHR '' '') name = [] then None
       else if trim name = ''cpu''
       then do { c \<leftarrow> str2cpu_constraints (trim range); Some (vars, c) }
       else case str2operand blank_operand (trim name) of
         Parsed varop \<Rightarrow>
           (case find (\<lambda>i. operands_equal (vars ! i) varop) [0..<length vars] of
              None \<Rightarrow> None
            | Some i \<Rightarrow>
                if otag (vars ! i) \<noteq> tag_var then None
                else Some (vars[i := (vars ! i)\<lparr>otag := str2tag (take 63 (''tag_'' @ trim range))\<rparr>], constraints))
       | _ \<Rightarrow> None
     }"

text \<open>What stands behind the last end of a line is not read.\<close>

lemma split_at_length: "split_at c s = Some (p, q) \<Longrightarrow> length s = length p + 1 + length q"
proof -
  assume "split_at c s = Some (p, q)"
  then have c: "c \<in> set s" and pq: "p = takeWhile (\<lambda>x. x \<noteq> c) s" "q = tl (dropWhile (\<lambda>x. x \<noteq> c) s)"
    by (auto simp: split_at_def split: if_splits)
  have "dropWhile (\<lambda>x. x \<noteq> c) s \<noteq> []" using c by (auto simp: dropWhile_eq_Nil_conv)
  then have "length (dropWhile (\<lambda>x. x \<noteq> c) s) = 1 + length q" using pq by (cases "dropWhile (\<lambda>x. x \<noteq> c) s") auto
  moreover have "length s = length p + length (dropWhile (\<lambda>x. x \<noteq> c) s)"
    using pq by (metis length_append takeWhile_dropWhile_id)
  ultimately show ?thesis by simp
qed

function constraints_loop :: "operand list \<Rightarrow> u64 \<Rightarrow> string \<Rightarrow> (operand list \<times> u64) option" where
  "constraints_loop vars c ptr =
     (case split_at (CHR 0x0A) ptr of
        None \<Rightarrow> Some (vars, c)
      | Some (line, ptr) \<Rightarrow>
          (case read_constraint vars c line of
             None \<Rightarrow> None
           | Some (vars, c) \<Rightarrow> constraints_loop vars c ptr))"
  by pat_completeness auto

termination
  by (relation "measure (\<lambda>(_, _, ptr). length ptr)") (auto dest: split_at_length)

declare constraints_loop.simps [simp del]

definition read_constraints :: "operand list \<Rightarrow> string \<Rightarrow> (operand list \<times> u64) option" where
  "read_constraints vars ptr = constraints_loop vars DEFAULT_CPU_CONSTRAINTS ptr"

section \<open>The texts of a rule\<close>

text \<open>
  \<^verbatim>\<open>fscanf\<close> with a space in front of \<^verbatim>\<open>%[^\n]\n\<close>: the next line that has more than white space,
  without its indentation. \<open>None\<close> at the end of the file, which the callers do not allow.
\<close>

definition scan_trimmed :: "string \<Rightarrow> (string \<times> string) option" where
  "scan_trimmed fp =
     (let s = dropWhile (\<lambda>c. isspace (ch c)) fp
      in if s = [] then None
         else Some (takeWhile (\<lambda>c. c \<noteq> CHR 0x0A) s,
                    dropWhile (\<lambda>c. isspace (ch c)) (dropWhile (\<lambda>c. c \<noteq> CHR 0x0A) s)))"

lemma scan_trimmed_shorter: "scan_trimmed fp = Some (line, rest) \<Longrightarrow> length rest < length fp"
proof -
  let ?P = "\<lambda>c. isspace (ch c)"
  let ?s = "dropWhile ?P fp"
  assume "scan_trimmed fp = Some (line, rest)"
  then have s: "?s \<noteq> []" and rest: "rest = dropWhile ?P (dropWhile (\<lambda>c. c \<noteq> CHR 0x0A) ?s)"
    by (auto simp: scan_trimmed_def Let_def split: if_splits)
  have "\<not> ?P (hd ?s)" using s by (rule hd_dropWhile)
  moreover have "?P (CHR 0x0A)" by (simp add: isspace_def ch_def)
  ultimately have "hd ?s \<noteq> CHR 0x0A" by metis
  then have "length (dropWhile (\<lambda>c. c \<noteq> CHR 0x0A) ?s) < length ?s"
    using s by (cases ?s) (auto simp: le_imp_less_Suc length_dropWhile_le)
  then show ?thesis unfolding rest
    using length_dropWhile_le [of ?P "dropWhile (\<lambda>c. c \<noteq> CHR 0x0A) ?s"] length_dropWhile_le [of ?P fp] by linarith
qed

text \<open>
  The lines before the closing one, which is counted too. The buffer has \<open>n\<close> bytes; the reads do
  not check it.
\<close>

function text_loop :: "string \<Rightarrow> nat \<Rightarrow> string \<Rightarrow> string \<Rightarrow> nat \<Rightarrow> (string \<times> string \<times> nat) option" where
  "text_loop closing n buf fp linenum =
     (case scan_trimmed fp of
        None \<Rightarrow> None
      | Some (line, fp) \<Rightarrow>
          if length buf + length line + 1 > n then None
          else if line = closing then Some (buf, fp, linenum + 1)
          else text_loop closing n (buf @ line @ nl) fp (linenum + 1))"
  by pat_completeness auto

termination
  by (relation "measure (\<lambda>(_, _, _, fp, _). length fp)") (auto dest: scan_trimmed_shorter)

declare text_loop.simps [simp del]

definition read_in_text :: "nat \<Rightarrow> string \<Rightarrow> nat \<Rightarrow> (string \<times> string \<times> nat) option" where
  "read_in_text n fp linenum = text_loop ''--'' n [] fp linenum"

definition read_out_text :: "nat \<Rightarrow> string \<Rightarrow> nat \<Rightarrow> (string \<times> string \<times> nat) option" where
  "read_out_text n fp linenum = text_loop ''=='' n [] fp linenum"

text \<open>
  A rule without constraints has only one text between its pattern and its end; it is left in the
  file.
\<close>

function constraints_text_loop ::
    "nat \<Rightarrow> string \<times> nat \<Rightarrow> string \<Rightarrow> string \<Rightarrow> nat \<Rightarrow> (string \<times> string \<times> nat) option" where
  "constraints_text_loop n start buf fp linenum =
     (case scan_trimmed fp of
        None \<Rightarrow> None
      | Some (line, fp) \<Rightarrow>
          if length buf + length line + 1 > n then None
          else if line = ''--'' then Some (buf, fp, linenum + 1)
          else if line = ''=='' then Some ([], start)
          else if length (buf @ line @ nl) \<ge> n then None
          else constraints_text_loop n start (buf @ line @ nl) fp (linenum + 1))"
  by pat_completeness auto

termination
  by (relation "measure (\<lambda>(_, _, _, fp, _). length fp)") (auto dest: scan_trimmed_shorter)

declare constraints_text_loop.simps [simp del]

definition read_constraints_text :: "nat \<Rightarrow> string \<Rightarrow> nat \<Rightarrow> (string \<times> string \<times> nat) option" where
  "read_constraints_text n fp linenum = constraints_text_loop n (fp, linenum) [] fp linenum"

text \<open>
  \<^verbatim>\<open>fscanf\<close> with \<^verbatim>\<open>%9[^\n]\n\<close>: the first nine characters of the line at most. White space between
  them and the next text is skipped also when the line goes on. Without a character to read, the
  buffer that is compared is not set.
\<close>

definition read_debug_marker :: "string \<Rightarrow> nat \<Rightarrow> (bool \<times> string \<times> nat) option" where
  "read_debug_marker fp linenum =
     (let s = take 9 (takeWhile (\<lambda>c. c \<noteq> CHR 0x0A) fp)
      in if s = [] then None
         else if s = ''<debug>'' then Some (True, dropWhile (\<lambda>c. isspace (ch c)) (drop 7 fp), linenum + 1)
         else Some (False, fp, linenum))"

end
