(* ===== verification/Gen_Expand.thy ===== *)
theory Gen_Expand
  imports Gen_Rules
begin

text \<open>
  The assembly that the first run of the build's generator (\<^verbatim>\<open>peepgen.c\<close>) writes: the code of a
  rule under each choice of its registers and segments, the expansion of addressing modes and
  conditions into rules of their own, and the whole run over the file of rules. A file being
  written is the text that is added to it. A result \<open>None\<close> is an exit of the generator, a failed
  assertion, an access outside a buffer or a use of a value that is not set.
\<close>

text \<open>A replacement that ends and fits its buffer.\<close>

definition replaced :: "nat \<Rightarrow> string \<Rightarrow> (string \<times> string) list \<Rightarrow> string option" where
  "replaced n s prs = (case make_string_replacements n s prs of Some (Text t) \<Rightarrow> Some t | _ \<Rightarrow> None)"

fun all_texts :: "'a option list \<Rightarrow> 'a list option" where
  "all_texts [] = Some []"
| "all_texts (x # xs) = do { y \<leftarrow> x; ys \<leftarrow> all_texts xs; Some (y # ys) }"

section \<open>Code with values for variables\<close>

text \<open>
  The macros that save and restore a temporary are empty. The text that restores the temporaries
  is put where it is asked for, and behind the code of the rule unless the code forbids it. With
  no temporary its buffer has no room for the terminator, which is written behind it; the model
  takes the text to be empty then.
\<close>

definition restore_text :: "assignments \<Rightarrow> string" where
  "restore_text as = concat (replicate (length (assignments_get_temporaries as)) ''; '')"

definition augmented_text :: "string \<Rightarrow> assignments \<Rightarrow> bool \<Rightarrow> string" where
  "augmented_text text_in as is_out =
     (if is_out then concat (replicate (length (assignments_get_temporaries as)) nl) else []) @ text_in @
     (if is_out \<and> \<not> occurs_in ''no_restore_temporary'' text_in then restore_text as @ nl else [])"

definition rename_as_code :: "nat \<Rightarrow> string \<Rightarrow> assignments \<Rightarrow> bool \<Rightarrow> string option" where
  "rename_as_code out_size text_in as is_out =
     do {
       renamed \<leftarrow> replaced (2 * (length text_in + 640)) (augmented_text text_in as is_out)
                   [(''restore_temporaries'', restore_text as)];
       let augmented = take (length text_in + 640) renamed;
       prs \<leftarrow> assignments_get_text_replacements as;
       replaced out_size augmented prs
     }"

datatype cpu_mode_t = cpu_mode_16 | cpu_mode_32 | cpu_mode_any

definition code16 :: "string \<Rightarrow> cpu_mode_t \<Rightarrow> bool" where
  "code16 label mode =
     (case mode of
        cpu_mode_16 \<Rightarrow> True
      | cpu_mode_32 \<Rightarrow> False
      | cpu_mode_any \<Rightarrow>
          (case strstart label PEEP_PREFIX_STR of
             Some remaining \<Rightarrow> starts remaining MODE16_STR
           | None \<Rightarrow> False))"

definition output_as_code :: "string \<Rightarrow> string \<Rightarrow> cpu_mode_t \<Rightarrow> string" where
  "output_as_code label body mode =
     ''.global '' @ label @ nl @ label @ '':'' @ nl @
     (if code16 label mode then ''.code16'' else ''.code32'') @ nl @ body @ nl @ nl"

definition rename_and_output_as_code ::
    "string \<Rightarrow> string \<Rightarrow> assignments \<Rightarrow> cpu_mode_t \<Rightarrow> bool \<Rightarrow> string option" where
  "rename_and_output_as_code label body as mode is_out =
     do {
       renamed \<leftarrow> rename_as_code (2 * (length body + 640) + 1) body as is_out;
       Some (output_as_code label renamed mode)
     }"

definition output_code_with_rollback :: "string \<Rightarrow> string \<Rightarrow> assignments \<Rightarrow> cpu_mode_t \<Rightarrow> string option" where
  "output_code_with_rollback label out_text as mode = rename_and_output_as_code label out_text as mode True"

section \<open>The variants of a rule\<close>

text \<open>
  A variant has one variable set to another value that is coherent with it; its label names the
  kind of the variable, its number and the value, and stands in the code for the name of the rule.
\<close>

definition variant_label :: "string \<Rightarrow> opertype \<Rightarrow> operand \<Rightarrow> nat \<Rightarrow> string" where
  "variant_label index_name t var j =
     take (length index_name + 15)
       (index_name @ (if t = op_reg then ''_r_'' else ''_s_'') @ show_dec (val_reg var) @ ''_'' @ show_dec j)"

definition with_value :: "assignments \<Rightarrow> nat \<Rightarrow> opertype \<Rightarrow> nat \<Rightarrow> assignments" where
  "with_value as r t j = as[r := (fst (as ! r), set_view t (of_nat j) (snd (as ! r)))]"

definition output_variant :: "string \<Rightarrow> string \<Rightarrow> assignments \<Rightarrow> opertype \<Rightarrow> nat \<Rightarrow> nat \<Rightarrow> (string \<times> string) option" where
  "output_variant index_name out_text as t r j =
     (let label = variant_label index_name t (fst (as ! r)) j
      in do {
           renamed \<leftarrow> replaced (length out_text + 64) out_text [(take 255 index_name, take 255 label)];
           code \<leftarrow> output_code_with_rollback label renamed (with_value as r t j) cpu_mode_32;
           Some (label, code)
         })"

definition coherent_values :: "assignments \<Rightarrow> opertype \<Rightarrow> nat \<Rightarrow> nat \<Rightarrow> nat list" where
  "coherent_values as t num r =
     filter (\<lambda>j. (\<lambda>(var, v). assignment_is_coherent var v) (with_value as r t j ! r)) [0..<num]"

text \<open>
  The labels with their code: the rule itself, then the variants of its registers and then those
  of its segments, each variable set back to its value after it.
\<close>

definition output_variants :: "string \<Rightarrow> string \<Rightarrow> assignments \<Rightarrow> (string \<times> string) list option" where
  "output_variants index_name out_text as =
     do {
       root \<leftarrow> output_code_with_rollback index_name out_text as cpu_mode_32;
       regs \<leftarrow> all_texts (concat (map (\<lambda>r. map (output_variant index_name out_text as op_reg r)
                                          (coherent_values as op_reg NUM_REGS r)) (assignments_get_regs as)));
       segs \<leftarrow> all_texts (concat (map (\<lambda>s. map (output_variant index_name out_text as op_seg s)
                                          (coherent_values as op_seg NUM_SEGS s)) (assignments_get_segs as)));
       Some ((index_name, root) # regs @ segs)
     }"

definition generate_output_code :: "string \<Rightarrow> string \<Rightarrow> assignments \<Rightarrow> string option" where
  "generate_output_code index_name out_text as =
     map_option (\<lambda>vs. concat (map snd vs)) (output_variants index_name out_text as)"

section \<open>One rule\<close>

text \<open>What is added to the four files.\<close>

record as_files =
  in_S :: string
  out_S :: string
  vars_txt :: string
  cpu_constraints_txt :: string

definition append_files :: "as_files \<Rightarrow> as_files \<Rightarrow> as_files" where
  "append_files f g =
     \<lparr>in_S = in_S f @ in_S g, out_S = out_S f @ out_S g, vars_txt = vars_txt f @ vars_txt g,
      cpu_constraints_txt = cpu_constraints_txt f @ cpu_constraints_txt g\<rparr>"

text \<open>
  \<open>stale\<close> is what the array of the variables holds when the function is entered. The values of
  registers and segments are chosen before the code is written, those of constants after it.
\<close>

definition rule_assignments :: "operand list \<Rightarrow> string \<Rightarrow> string \<Rightarrow> string \<Rightarrow> (operand list \<times> u64 \<times> assignments) option" where
  "rule_assignments stale in_text out_text constraints_text =
     do {
       vs \<leftarrow> find_variables in_text (stale, 0);
       (arr, n) \<leftarrow> find_variables out_text vs;
       (vars, c) \<leftarrow> read_constraints (take n arr) constraints_text;
       (as, feasible) \<leftarrow> variables_assign_random_regs assignments_init vars [];
       if feasible then do { (as, _) \<leftarrow> variables_assign_random_segs as vars []; Some (vars, c, as) } else None
     }"

definition gen_as_entry :: "operand list \<Rightarrow> string \<Rightarrow> string \<Rightarrow> string \<Rightarrow> string \<Rightarrow> as_files option" where
  "gen_as_entry stale in_text out_text constraints_text index_name =
     do {
       (vars, c, as) \<leftarrow> rule_assignments stale in_text out_text constraints_text;
       code \<leftarrow> generate_output_code index_name out_text as;
       as \<leftarrow> variables_assign_random_consts as vars;
       as \<leftarrow> variables_assign_random_prefix as vars;
       pattern \<leftarrow> rename_and_output_as_code index_name in_text as cpu_mode_any False;
       assigned \<leftarrow> output_assignments index_name as;
       Some \<lparr>in_S = pattern, out_S = code, vars_txt = assigned,
             cpu_constraints_txt = output_cpu_constraints index_name c\<rparr>
     }"

section \<open>Addressing modes\<close>

text \<open>
  Each mode with the constraint that it adds. The registers and the constant are such as do not
  occur in the pattern; when there are no such registers the names are not set, when there is no
  such constant the last one is taken.
\<close>

definition free_imm :: "string \<Rightarrow> string" where
  "free_imm in_text =
     (case find (\<lambda>i. \<not> occurs_in (imm_name i) in_text) [0..<MAX_IMM_VARS] of
        Some i \<Rightarrow> imm_name i
      | None \<Rightarrow> imm_name (MAX_IMM_VARS - 1))"

definition no_esp_constraint :: "string \<Rightarrow> string" where
  "no_esp_constraint r = ''%'' @ r @ ''d : no_esp'' @ nl"

definition mem_modes32 :: "string \<Rightarrow> string \<Rightarrow> string \<Rightarrow> (string \<times> string) list" where
  "mem_modes32 c0 vr0 vr1 =
     [(c0 @ ''(%'' @ vr0 @ ''d,%eiz,1)'', [])] @
     map (\<lambda>scale. (c0 @ ''(%'' @ vr0 @ ''d,%'' @ vr1 @ ''d,'' @ scale @ '')'', no_esp_constraint vr1))
       [''1'', ''2'', ''4'', ''8''] @
     map (\<lambda>scale. (c0 @ ''(,%'' @ vr0 @ ''d, '' @ scale @ '')'', no_esp_constraint vr0))
       [''1'', ''2'', ''4'', ''8''] @
     [(c0 @ ''(,%eiz, 1)'', [])]"

definition gen_mem_modes32 :: "string \<Rightarrow> (string \<times> string) list option" where
  "gen_mem_modes32 in_text =
     do {
       vr0 \<leftarrow> find (\<lambda>r. \<not> occurs_in r in_text) peep_vregs;
       vr1 \<leftarrow> find (\<lambda>r. vr0 \<noteq> r \<and> \<not> occurs_in r in_text) peep_vregs;
       Some (mem_modes32 (free_imm in_text) vr0 vr1)
     }"

definition gen_mem_modes16 :: "string \<Rightarrow> (string \<times> string) list" where
  "gen_mem_modes16 in_text =
     map (\<lambda>m. (free_imm in_text @ m, []))
       [''(%bx,%si)'', ''(%bx,%di)'', ''(%bp,%si)'', ''(%bp,%di)'', ''(%si)'', ''(%di)'', ''(%bp)'', ''(%bx)'', []]"

definition gen_mem_modes :: "string \<Rightarrow> (string \<times> string) list option" where
  "gen_mem_modes in_text =
     (if occurs_in ''MEM16'' in_text then Some (gen_mem_modes16 in_text)
      else if occurs_in ''MEM32'' in_text then gen_mem_modes32 in_text
      else None)"

text \<open>The constraints of the rule and then those that come with its patterns.\<close>

definition append_constraints :: "nat \<Rightarrow> string \<Rightarrow> string option list \<Rightarrow> string option" where
  "append_constraints n constraints new_constraints =
     (let s = constraints @ concat (map (\<lambda>c. case c of None \<Rightarrow> [] | Some c \<Rightarrow> c) new_constraints)
      in if length s < n then Some s else None)"

section \<open>The rules that a rule stands for\<close>

record rule_text =
  pe_name :: string
  pe_in :: string
  pe_constraints :: string
  pe_out :: string

text \<open>A pattern, its replacement and the constraint that comes with it.\<close>

type_synonym renaming = "string \<times> string \<times> string option"

definition jcc_conds :: "string list" where
  "jcc_conds =
     [''jne'', ''je'', ''jg'', ''jle'', ''jl'', ''jge'', ''ja'', ''jbe'',
      ''jb'', ''jae'', ''jo'', ''jno'', ''js'', ''jns'', ''jp'', ''jpe'']"

definition jcc_renamings :: "nat \<Rightarrow> renaming list" where
  "jcc_renamings j =
     [(''jCC'', jcc_conds ! j, None),
      (''jNCC'', jcc_conds ! (if j mod 2 = 1 then j - 1 else j + 1), None)]"

definition mem_renaming :: "string \<Rightarrow> string \<times> string \<Rightarrow> renaming" where
  "mem_renaming in_text = (\<lambda>(mode, constraint).
     (if occurs_in ''MEM16'' in_text then ''MEM16'' else ''MEM32'', take 63 mode, Some (take 63 constraint)))"

text \<open>Labels of exits and of exceptions that occur in the code get the name of the rule.\<close>

definition edge_renamings :: "string \<Rightarrow> string \<Rightarrow> renaming list" where
  "edge_renamings out_text name =
     concat (map (\<lambda>k. if occurs_in (edge_str k) out_text
                      then [(edge_str k, take 63 (edge_str k @ ''.'' @ name), None)] else []) [0..<3])"

definition EXCP :: string where "EXCP = ''excp00''"

definition excp_renamings :: "string \<Rightarrow> string \<Rightarrow> renaming list" where
  "excp_renamings out_text name =
     (if occurs_in EXCP out_text then [(EXCP, take 255 (EXCP @ ''_'' @ name), None)] else [])"

text \<open>
  The exception labels are numbered with two digits; a third digit would be written over the text
  behind the label.
\<close>

definition two_digits :: "nat \<Rightarrow> string" where
  "two_digits num = (if num < 10 then ''0'' else []) @ show_dec num"

function renumber_rollbacks :: "nat \<Rightarrow> string \<Rightarrow> string option" where
  "renumber_rollbacks num optr =
     (case strstr optr EXCP of
        None \<Rightarrow> Some optr
      | Some i \<Rightarrow>
          if num \<ge> 100 then None
          else map_option (\<lambda>t. take i optr @ ''excp'' @ two_digits num @ t)
                 (renumber_rollbacks (num + 1) (drop (i + length EXCP) optr)))"
  by pat_completeness auto

termination
  by (relation "measure (\<lambda>(_, optr). length optr)")
    (auto dest: strstr_drop_shorter simp: EXCP_def simp del: length_drop)

declare renumber_rollbacks.simps [simp del]

definition expand_with :: "rule_text \<Rightarrow> renaming list \<Rightarrow> string \<Rightarrow> rule_text option" where
  "expand_with e renamings name =
     (let prs = renamings @ edge_renamings (pe_out e) name @ excp_renamings (pe_out e) name;
          pairs = map (\<lambda>(p, r, _). (p, r)) prs
      in do {
           renamed_in \<leftarrow> replaced 1024 (pe_in e) pairs;
           renamed_out \<leftarrow> replaced 16384 (pe_out e) pairs;
           constraints \<leftarrow> append_constraints 4096 (pe_constraints e) (map (\<lambda>(_, _, c). c) prs);
           renamed_out \<leftarrow> renumber_rollbacks 0 renamed_out;
           Some \<lparr>pe_name = name, pe_in = renamed_in, pe_constraints = constraints, pe_out = renamed_out\<rparr>
         })"

text \<open>
  The conditions under one addressing mode. After the first one all renamings are dropped, that of
  the addressing mode included.
\<close>

definition expand_conds :: "rule_text \<Rightarrow> renaming list \<Rightarrow> string \<Rightarrow> rule_text option list" where
  "expand_conds e renamings name =
     (if occurs_in ''jCC'' (pe_in e)
      then map (\<lambda>j. expand_with e ((if j = 0 then renamings else []) @ jcc_renamings j)
                      (name @ ''_'' @ jcc_conds ! j)) [0..<length jcc_conds]
      else [expand_with e renamings name])"

definition expand_rule :: "rule_text \<Rightarrow> rule_text list option" where
  "expand_rule e =
     (if occurs_in ''MEM'' (pe_in e)
      then do {
             modes \<leftarrow> gen_mem_modes (pe_in e);
             all_texts (concat (map (\<lambda>(i, m). expand_conds e [mem_renaming (pe_in e) m]
                                                (pe_name e @ ''_mem'' @ show_dec i)) (enumerate 0 modes)))
           }
      else all_texts (expand_conds e [] (pe_name e)))"

section \<open>The file of rules\<close>

text \<open>
  A rule is named after the line of its head, or of the mark behind it; a snippet has its own name.
\<close>

definition base_index_name :: "string \<Rightarrow> nat \<Rightarrow> bool \<Rightarrow> string option" where
  "base_index_name line linenum debug_marker =
     (let name = ''line'' @ show_dec linenum @ (if debug_marker then ''_debug'' else [])
      in if line = ''entry_16:'' then Some (PEEP_PREFIX_STR @ MODE16_STR @ name)
         else if line = ''entry:'' then Some (PEEP_PREFIX_STR @ name)
         else if starts line SNIPPET_PREFIX_STR then
           (let snippet_name = takeWhile (\<lambda>c. c \<noteq> CHR '':'') line
            in if length snippet_name < 80 then Some snippet_name else None)
         else None)"

definition read_rule :: "string \<Rightarrow> string \<Rightarrow> nat \<Rightarrow> (rule_text \<times> string \<times> nat) option" where
  "read_rule line fp linenum =
     do {
       (debug_marker, fp, linenum) \<leftarrow> read_debug_marker fp linenum;
       name \<leftarrow> base_index_name line linenum debug_marker;
       (in_text, fp, linenum) \<leftarrow> read_in_text 1024 fp linenum;
       (constraints_text, fp, linenum) \<leftarrow> read_constraints_text 8192 fp linenum;
       (out_text, fp, linenum) \<leftarrow> read_out_text 16384 fp linenum;
       Some (\<lparr>pe_name = name, pe_in = in_text, pe_constraints = constraints_text, pe_out = out_text\<rparr>,
             fp, linenum + 1)
     }"

lemma text_loop_shorter: "text_loop closing n buf fp k = Some (t, rest, k') \<Longrightarrow> length rest < length fp"
proof (induction closing n buf fp k rule: text_loop.induct)
  case (1 closing n buf fp k)
  from 1(2) obtain line fp' where l: "scan_trimmed fp = Some (line, fp')"
    by (subst (asm) text_loop.simps) (auto split: option.splits)
  from 1(2) have "rest = fp' \<or> length rest < length fp'"
    by (subst (asm) text_loop.simps) (auto simp: l split: if_splits dest!: 1(1) [OF l refl, unfolded Suc_eq_plus1 [symmetric]])
  then show ?case using scan_trimmed_shorter [OF l] by auto
qed

lemma nl_length: "length nl = 1" by (simp add: nl_def)

lemma constraints_text_loop_shorter:
  "constraints_text_loop n start buf fp k = Some (t, rest, k') \<Longrightarrow> length rest < length fp \<or> rest = fst start"
proof (induction n start buf fp k rule: constraints_text_loop.induct)
  case (1 n start buf fp k)
  from 1(2) obtain line fp' where l: "scan_trimmed fp = Some (line, fp')"
    by (subst (asm) constraints_text_loop.simps) (auto split: option.splits)
  note ih = 1(1) [OF l refl]
  from 1(2) have "rest = fst start \<or> rest = fp' \<or> length rest < length fp'"
    by (subst (asm) constraints_text_loop.simps) (simp only: l option.case prod.case split: if_splits; use ih in auto)
  then show ?case using scan_trimmed_shorter [OF l] by auto
qed

lemma read_rule_shorter: "read_rule line fp k = Some (e, rest, k') \<Longrightarrow> length rest < length fp"
proof -
  assume "read_rule line fp k = Some (e, rest, k')"
  then obtain dm fp1 k1 t1 fp2 k2 t2 fp3 k3 t3 k4 where
      "read_debug_marker fp k = Some (dm, fp1, k1)" "read_in_text 1024 fp1 k1 = Some (t1, fp2, k2)"
      "read_constraints_text 8192 fp2 k2 = Some (t2, fp3, k3)" "read_out_text 16384 fp3 k3 = Some (t3, rest, k4)"
    by (auto simp: read_rule_def split: bind_splits)
  moreover have "length fp1 \<le> length fp"
    using calculation(1) le_trans [OF length_dropWhile_le, of "drop 7 fp" "length fp"]
    by (auto simp: read_debug_marker_def Let_def split: if_splits)
  ultimately show ?thesis
    by (fastforce simp: read_in_text_def read_out_text_def read_constraints_text_def
        dest!: text_loop_shorter constraints_text_loop_shorter)
qed

text \<open>
  Empty lines are passed by only at the start of the file, where the buffer of the line is empty;
  later all white space is skipped together with the text before it.
\<close>

function rules_loop :: "string \<Rightarrow> string \<Rightarrow> nat \<Rightarrow> rule_text list option" where
  "rules_loop line fp linenum =
     (if fp \<noteq> [] \<and> hd fp = CHR 0x0A \<and> line = [] then rules_loop [] (tl fp) (linenum + 1)
      else case scan_line 4096 fp of
        End_of_file \<Rightarrow> Some []
      | Bad_line \<Rightarrow> None
      | Line line fp \<Rightarrow>
          if hd line = CHR ''#'' \<or> is_whitespace line then rules_loop line fp (linenum + 1)
          else case read_rule line fp (linenum + 1) of
            None \<Rightarrow> None
          | Some (e, fp, linenum) \<Rightarrow> map_option (Cons e) (rules_loop line fp linenum))"
  by pat_completeness auto

termination
  by (relation "measure (\<lambda>(_, fp, _). length fp)") (auto dest!: read_rule_shorter scan_line_shorter)

declare rules_loop.simps [simp del]

text \<open>The entries of all rules, in the order of the file.\<close>

definition rule_entries :: "string \<Rightarrow> rule_text list option" where
  "rule_entries fp =
     do { rules \<leftarrow> rules_loop [] fp 0; es \<leftarrow> all_texts (map expand_rule rules); Some (concat es) }"

definition gen_as_files :: "(string \<Rightarrow> operand list) \<Rightarrow> string \<Rightarrow> as_files option" where
  "gen_as_files stale fp =
     do {
       es \<leftarrow> rule_entries fp;
       fs \<leftarrow> all_texts (map (\<lambda>e. gen_as_entry (stale (pe_name e)) (pe_in e) (pe_out e) (pe_constraints e) (pe_name e)) es);
       let head = \<lparr>in_S = ''.allow_index_reg'' @ nl,
                   out_S = ''.allow_index_reg'' @ nl @ ''#include '' @ [CHR 0x22] @ ''peepgen_offsets.h'' @ [CHR 0x22] @ nl @
                     ''#include '' @ [CHR 0x22] @ ''peep/peeptab_defs.h'' @ [CHR 0x22] @ nl,
                   vars_txt = [], cpu_constraints_txt = []\<rparr>;
           tail = \<lparr>in_S = PEEP_PREFIX_STR @ ''end:'' @ nl,
                   out_S = PEEP_PREFIX_STR @ ''end:'' @ nl @ ''rb_'' @ PEEP_PREFIX_STR @ ''end:'' @ nl,
                   vars_txt = [], cpu_constraints_txt = []\<rparr>
       in Some (foldr append_files (head # fs) tail)
     }"

section \<open>Snippets\<close>

text \<open>
  A declaration of a snippet, with its name and what follows it from the semicolon on.
\<close>

definition snippet_declaration :: "string \<Rightarrow> (string \<times> string) option" where
  "snippet_declaration line =
     do {
       s \<leftarrow> strstart line ''extern'';
       s \<leftarrow> strstart (dropWhile (\<lambda>c. isspace (ch c)) s) ''peepgen_label_t'';
       let s = dropWhile (\<lambda>c. isspace (ch c)) s;
           code_snippet = takeWhile (\<lambda>c. c \<noteq> CHR '';'') s;
           comment = dropWhile (\<lambda>c. c \<noteq> CHR '';'') s
       in if code_snippet = [] \<or> comment = [] then None else Some (code_snippet, comment)
     }"

text \<open>
  The constraints are in the comment behind the declaration, with commas between them. The
  assertion at the end looks at the bytes behind the text, which are not set; it is not modelled.
\<close>

definition parse_snippet_constraints :: "string \<Rightarrow> string" where
  "parse_snippet_constraints comment =
     (case strstr (tl comment) ''//'' of
        None \<Rightarrow> []
      | Some i \<Rightarrow> map (\<lambda>c. if c = CHR '','' then CHR 0x0A else c) (drop (i + 2) (tl comment)) @ nl)"

definition capitals :: "string \<Rightarrow> string" where
  "capitals s = map (\<lambda>c. char_of (nat (toupper (ch c)))) s"

definition snippet_rule :: "string \<Rightarrow> string \<Rightarrow> string option" where
  "snippet_rule code_snippet comment =
     (case strstart code_snippet SNIPPET_PREFIX_STR of
        None \<Rightarrow> None
      | Some rest \<Rightarrow>
          Some (code_snippet @ '':'' @ nl @ ''  nop'' @ nl @ ''  --'' @ nl @ parse_snippet_constraints comment @
                ''  --'' @ nl @ ''    '' @ capitals rest @ nl @ ''  =='' @ nl))"

text \<open>The text that is appended to the file of rules; on an error that file is removed.\<close>

function append_code_snippets :: "string \<Rightarrow> string option" where
  "append_code_snippets fp =
     (case scan_line 512 fp of
        End_of_file \<Rightarrow> Some []
      | Bad_line \<Rightarrow> None
      | Line line fp \<Rightarrow>
          if length line + 1 \<ge> 512 then None
          else case snippet_declaration line of
            Some (code_snippet, comment) \<Rightarrow>
              do { r \<leftarrow> snippet_rule code_snippet comment; rs \<leftarrow> append_code_snippets fp; Some (r @ rs) }
          | None \<Rightarrow>
              if hd line = CHR ''#'' \<or> starts line ''typedef'' then append_code_snippets fp else None)"
  by pat_completeness auto

termination
  by (relation "measure length") (auto dest!: scan_line_shorter)

declare append_code_snippets.simps [simp del]

end
