(* ===== verification/Gen_Names.thy ===== *)
theory Gen_Names
  imports Gen_Expand Operand_Props
begin

text \<open>
  The names under which the first run of the build's generator writes its rules: the numbers of
  the lines, the addressing modes and the conditions keep them apart.
\<close>

section \<open>Names of rules\<close>

definition line_name :: "bool \<Rightarrow> nat \<Rightarrow> bool \<Rightarrow> string" where
  "line_name mode16 l debug =
     PEEP_PREFIX_STR @ (if mode16 then MODE16_STR else []) @ ''line'' @ show_dec l @ (if debug then ''_debug'' else [])"

definition name_suffix :: "string \<Rightarrow> bool" where "name_suffix s \<longleftrightarrow> s = [] \<or> hd s = CHR ''_''"

lemma name_suffix_simps [simp]: "name_suffix []" "name_suffix (c # s) \<longleftrightarrow> c = CHR ''_''"
  by (simp_all add: name_suffix_def)

lemma name_suffix_append: "name_suffix s \<Longrightarrow> name_suffix t \<Longrightarrow> name_suffix (s @ t)"
  by (cases s) auto

definition dec_value :: "string \<Rightarrow> nat" where
  "dec_value s = foldl (\<lambda>v c. v * 10 + nat (ch c - 48)) 0 s"

lemma dec_value_show_dec: "dec_value (show_dec n) = n"
proof (induction n rule: less_induct)
  case (less n)
  show ?case
  proof (cases "n < 10")
    case True
    then show ?thesis unfolding show_dec_def dec_value_def by (subst show_base.simps) (simp add: ch_digit_char)
  next
    case False
    then have "show_dec n = show_dec (n div 10) @ [digit_char (n mod 10)]"
      unfolding show_dec_def by (subst show_base.simps) simp
    then show ?thesis using False less.IH [of "n div 10"] by (simp add: dec_value_def ch_digit_char)
  qed
qed

lemma show_dec_inject: "show_dec m = show_dec n \<Longrightarrow> m = n"
  by (metis dec_value_show_dec)

lemma takeWhile_digits: "name_suffix s \<Longrightarrow> takeWhile (\<lambda>c. isdigit (ch c)) (show_dec n @ s) = show_dec n"
  by (subst takeWhile_append2) (use show_dec_digits [of n] in \<open>cases s; auto simp: isdigit_def ch_def\<close>)+

lemma show_dec_suffix: "show_dec m @ s = show_dec n @ t \<Longrightarrow> name_suffix s \<Longrightarrow> name_suffix t \<Longrightarrow> m = n"
  using takeWhile_digits [of s m] takeWhile_digits [of t n] by (metis show_dec_inject)

lemma line_name_inject:
  assumes "line_name m l d @ s = line_name m' l' d' @ s'" and "name_suffix s" and "name_suffix s'"
  shows "l = l'"
proof -
  have "show_dec l @ (if d then ''_debug'' else []) @ s = show_dec l' @ (if d' then ''_debug'' else []) @ s'"
    using assms(1) by (auto simp: line_name_def PEEP_PREFIX_STR_def MODE16_STR_def split: if_splits)
  then show ?thesis by (rule show_dec_suffix) (auto intro: name_suffix_append assms)
qed

definition snippet_name :: "string \<Rightarrow> bool" where "snippet_name n \<longleftrightarrow> starts n SNIPPET_PREFIX_STR"

lemma line_name_no_snippet: "\<not> snippet_name (line_name m l d @ s)"
  by (auto simp: snippet_name_def starts_append line_name_def SNIPPET_PREFIX_STR_def PEEP_PREFIX_STR_def MODE16_STR_def)

lemma snippet_name_append: "snippet_name n \<Longrightarrow> snippet_name (n @ s)"
  by (auto simp: snippet_name_def starts_append)

section \<open>Rules of the file\<close>

fun numbered :: "nat \<Rightarrow> rule_text list \<Rightarrow> bool" where
  "numbered k [] = True"
| "numbered k (e # es) =
     (\<exists>l>k. (snippet_name (pe_name e) \<or> (\<exists>m d. pe_name e = line_name m l d)) \<and> numbered l es)"

lemma numbered_mono: "numbered k es \<Longrightarrow> j \<le> k \<Longrightarrow> numbered j es"
  by (cases es) (auto intro: le_less_trans)

lemma text_loop_lines: "text_loop closing n buf fp k = Some (t, rest, k') \<Longrightarrow> k \<le> k'"
proof (induction closing n buf fp k rule: text_loop.induct)
  case (1 closing n buf fp k)
  from 1(2) show ?case
    by (subst (asm) text_loop.simps)
      (auto split: option.splits prod.splits if_splits dest!: 1(1) [OF _ refl, unfolded Suc_eq_plus1 [symmetric]])
qed

lemma constraints_text_loop_lines:
  "constraints_text_loop n start buf fp k = Some (t, rest, k') \<Longrightarrow> snd start \<le> k \<Longrightarrow> snd start \<le> k'"
proof (induction n start buf fp k rule: constraints_text_loop.induct)
  case (1 n start buf fp k)
  from 1(2) obtain line fp' where l: "scan_trimmed fp = Some (line, fp')"
    by (subst (asm) constraints_text_loop.simps) (auto split: option.splits)
  note ih = 1(1) [OF l refl]
  from 1(2,3) show ?case
    by (subst (asm) constraints_text_loop.simps) (simp only: l option.case prod.case split: if_splits; use ih in auto)
qed

lemma base_index_name_line:
  "base_index_name line k d = Some name \<Longrightarrow> snippet_name name \<or> (\<exists>m. name = line_name m k d)"
proof -
  assume a: "base_index_name line k d = Some name"
  have "snippet_name (takeWhile (\<lambda>c. c \<noteq> CHR '':'') line)" if "starts line SNIPPET_PREFIX_STR"
    using that by (auto simp: snippet_name_def starts_append SNIPPET_PREFIX_STR_def PEEP_PREFIX_STR_def)
  with a show ?thesis
    by (auto simp: base_index_name_def line_name_def Let_def split: if_splits intro: exI [of _ True] exI [of _ False])
qed

lemma read_rule_numbered:
  assumes "read_rule line fp k = Some (e, rest, k')"
  shows "\<exists>l\<ge>k. l < k' \<and> (snippet_name (pe_name e) \<or> (\<exists>m d. pe_name e = line_name m l d))"
proof -
  from assms obtain dm fp1 k1 name t1 fp2 k2 t2 fp3 k3 t3 k4 where
      dm: "read_debug_marker fp k = Some (dm, fp1, k1)" and n: "base_index_name line k1 dm = Some name" "pe_name e = name"
      and t: "read_in_text 1024 fp1 k1 = Some (t1, fp2, k2)" "read_constraints_text 8192 fp2 k2 = Some (t2, fp3, k3)"
        "read_out_text 16384 fp3 k3 = Some (t3, rest, k4)" and k': "k' = k4 + 1"
    by (auto simp: read_rule_def split: bind_splits)
  have "k1 \<le> k4" using t
    by (auto simp: read_in_text_def read_out_text_def read_constraints_text_def
        dest!: text_loop_lines constraints_text_loop_lines)
  moreover have "k \<le> k1" using dm by (auto simp: read_debug_marker_def Let_def split: if_splits)
  ultimately show ?thesis using base_index_name_line [OF n(1)] n(2) k' by (intro exI [of _ k1]) auto
qed

lemma rules_loop_numbered: "rules_loop line fp k = Some es \<Longrightarrow> numbered k es"
proof (induction line fp k arbitrary: es rule: rules_loop.induct)
  case (1 line fp k)
  show ?case
  proof (cases "fp \<noteq> [] \<and> hd fp = CHR 0x0A \<and> line = []")
    case True
    then have "rules_loop [] (tl fp) (k + 1) = Some es" using 1(4) by (subst (asm) rules_loop.simps) simp
    then show ?thesis using 1(1) [OF True] by (auto elim: numbered_mono)
  next
    case False
    note eq = 1(4) [unfolded rules_loop.simps [of line fp k] if_not_P [OF False]]
    show ?thesis
    proof (cases "scan_line 4096 fp")
      case (Line line' fp')
      show ?thesis
      proof (cases "hd line' = CHR ''#'' \<or> is_whitespace line'")
        case True
        then show ?thesis using eq Line 1(2) [OF False Line True, of es] by (auto elim: numbered_mono)
      next
        case no_comment: False
        then obtain e rest l where r: "read_rule line' fp' (k + 1) = Some (e, rest, l)" using eq Line
          by (auto split: option.splits)
        then obtain es' where es: "es = e # es'" "rules_loop line' rest l = Some es'" using eq Line no_comment by auto
        then have "numbered l es'" using 1(3) [OF False Line no_comment r refl refl] by simp
        moreover obtain i where i: "k + 1 \<le> i" "i < l" "snippet_name (pe_name e) \<or> (\<exists>m d. pe_name e = line_name m i d)"
          using read_rule_numbered [OF r] by blast
        ultimately have "numbered i es'" by (auto elim: numbered_mono)
        then have "\<exists>i>k. (snippet_name (pe_name e) \<or> (\<exists>m d. pe_name e = line_name m i d)) \<and> numbered i es'"
          using i by (intro exI [of _ i]) auto
        then show ?thesis using es(1) by simp
      qed
    qed (use eq in auto)
  qed
qed

section \<open>Expanded rules\<close>

lemma all_texts_map_Some [simp]: "all_texts (map Some ys) = Some ys"
  by (induction ys) auto

lemma all_texts_Some: "all_texts xs = Some ys \<longleftrightarrow> xs = map Some ys"
proof
  show "all_texts xs = Some ys \<Longrightarrow> xs = map Some ys"
    by (induction xs arbitrary: ys) (auto split: Option.bind_splits)
qed simp

lemma expand_with_name: "expand_with e rs name = Some x \<Longrightarrow> pe_name x = name"
  by (auto simp: expand_with_def Let_def split: Option.bind_splits)

definition cond_suffixes :: "string \<Rightarrow> string list" where
  "cond_suffixes in_text = (if occurs_in ''jCC'' in_text then map (\<lambda>c. ''_'' @ c) jcc_conds else [[]])"

lemma expand_with_names: "map (\<lambda>j. expand_with e (f j) (g j)) js = map Some xs \<Longrightarrow> map pe_name xs = map g js"
  by (induction js arbitrary: xs) (auto simp: Cons_eq_map_conv dest: expand_with_name)

lemma expand_conds_names:
  assumes "expand_conds e rs name = map Some xs"
  shows "map pe_name xs = map (\<lambda>s. name @ s) (cond_suffixes (pe_in e))"
proof (cases "occurs_in ''jCC'' (pe_in e)")
  case True
  have "map pe_name xs = map (\<lambda>j. name @ ''_'' @ jcc_conds ! j) [0..<length jcc_conds]"
    using assms True by (intro expand_with_names) (simp add: expand_conds_def)
  also have "\<dots> = map (\<lambda>s. name @ ''_'' @ s) jcc_conds" by (rule nth_equalityI) simp_all
  finally show ?thesis using True by (simp add: cond_suffixes_def)
next
  case False
  then show ?thesis using assms by (cases xs) (auto simp: expand_conds_def cond_suffixes_def dest: expand_with_name)
qed

lemma cond_suffixes_ok: "distinct (cond_suffixes t)" "\<forall>s\<in>set (cond_suffixes t). name_suffix s"
  by (simp_all add: cond_suffixes_def jcc_conds_def)

lemma concat_map_Some: "concat xss = map Some ys \<Longrightarrow> \<exists>yss. ys = concat yss \<and> xss = map (map Some) yss"
proof (induction xss arbitrary: ys)
  case (Cons xs xss)
  then obtain us vs where "ys = us @ vs" "xs = map Some us" "concat xss = map Some vs"
    by (auto simp: append_eq_map_conv)
  then show ?case using Cons.IH [of vs] by (metis concat.simps(2) list.simps(9))
qed auto

definition mem_suffixes :: "nat \<Rightarrow> string \<Rightarrow> string list" where
  "mem_suffixes n in_text =
     concat (map (\<lambda>i. map (\<lambda>s. ''_mem'' @ show_dec i @ s) (cond_suffixes in_text)) [0..<n])"

lemma mem_suffixes_distinct: "distinct (mem_suffixes n in_text)"
proof -
  have "distinct (concat (map (\<lambda>i. map (\<lambda>s. ''_mem'' @ show_dec i @ s) (cond_suffixes in_text)) is))"
    if "distinct is" for "is" :: "nat list"
    using that
  proof (induction "is")
    case (Cons i "is")
    have "show_dec i @ t \<noteq> show_dec j @ u" if "j \<in> set is" "t \<in> set (cond_suffixes in_text)"
        "u \<in> set (cond_suffixes in_text)" for t u j
      using that Cons.prems show_dec_suffix [of i t j u] cond_suffixes_ok(2) by fastforce
    then show ?case using Cons cond_suffixes_ok(1) [of in_text] by (fastforce simp: distinct_map inj_on_def)
  qed simp
  then show ?thesis by (simp add: mem_suffixes_def)
qed

lemma mem_conds_names:
  assumes "concat (map (\<lambda>(i, m). expand_conds e [mem_renaming (pe_in e) m] (pe_name e @ ''_mem'' @ show_dec i))
      (enumerate k modes)) = map Some xs"
  shows "map pe_name xs = map (\<lambda>s. pe_name e @ s)
      (concat (map (\<lambda>i. map (\<lambda>s. ''_mem'' @ show_dec i @ s) (cond_suffixes (pe_in e))) [k..<k + length modes]))"
  using assms
proof (induction modes arbitrary: k xs)
  case (Cons m modes)
  obtain us vs where uv: "xs = us @ vs"
      "expand_conds e [mem_renaming (pe_in e) m] (pe_name e @ ''_mem'' @ show_dec k) = map Some us"
      "concat (map (\<lambda>(i, m). expand_conds e [mem_renaming (pe_in e) m] (pe_name e @ ''_mem'' @ show_dec i))
        (enumerate (Suc k) modes)) = map Some vs"
    using Cons.prems by (auto simp: append_eq_map_conv)
  have "[k..<k + length (m # modes)] = k # [Suc k..<Suc k + length modes]" by (simp add: upt_conv_Cons del: upt_Suc)
  then show ?case using expand_conds_names [OF uv(2)] Cons.IH [OF uv(3)] uv(1)
    by (simp add: map_concat comp_def del: upt_Suc)
qed simp

lemma expand_rule_names:
  assumes "expand_rule e = Some xs"
  shows "\<exists>ss. map pe_name xs = map (\<lambda>s. pe_name e @ s) ss \<and> distinct ss \<and> (\<forall>s\<in>set ss. name_suffix s)"
proof (cases "occurs_in ''MEM'' (pe_in e)")
  case True
  then obtain modes where "concat (map (\<lambda>(i, m). expand_conds e [mem_renaming (pe_in e) m]
      (pe_name e @ ''_mem'' @ show_dec i)) (enumerate 0 modes)) = map Some xs"
    using assms by (auto simp: expand_rule_def all_texts_Some split: Option.bind_splits)
  from mem_conds_names [OF this]
  have "map pe_name xs = map (\<lambda>s. pe_name e @ s) (mem_suffixes (length modes) (pe_in e))"
    by (simp add: mem_suffixes_def)
  moreover have "\<forall>s\<in>set (mem_suffixes (length modes) (pe_in e)). name_suffix s" by (auto simp: mem_suffixes_def)
  ultimately show ?thesis using mem_suffixes_distinct by blast
next
  case False
  then have "map pe_name xs = map (\<lambda>s. pe_name e @ s) (cond_suffixes (pe_in e))"
    using assms by (intro expand_conds_names) (auto simp: expand_rule_def all_texts_Some)
  then show ?thesis using cond_suffixes_ok by blast
qed

section \<open>Properties\<close>

definition rule_names :: "rule_text list \<Rightarrow> string list" where
  "rule_names es = filter (\<lambda>n. \<not> snippet_name n) (map pe_name es)"

lemma rule_names_append: "rule_names (es @ fs) = rule_names es @ rule_names fs"
  by (simp add: rule_names_def)

lemma expanded_rule_names:
  assumes "expand_rule e = Some xs" and "snippet_name (pe_name e) \<or> (\<exists>m d. pe_name e = line_name m l d)"
  shows "distinct (rule_names xs) \<and> (\<forall>n\<in>set (rule_names xs). \<exists>m d s. n = line_name m l d @ s \<and> name_suffix s)"
proof -
  obtain ss where ss: "map pe_name xs = map (\<lambda>s. pe_name e @ s) ss" "distinct ss" "\<forall>s\<in>set ss. name_suffix s"
    using expand_rule_names [OF assms(1)] by blast
  show ?thesis
  proof (cases "snippet_name (pe_name e)")
    case True
    then show ?thesis using snippet_name_append by (auto simp: rule_names_def ss(1))
  next
    case False
    then obtain m d where "pe_name e = line_name m l d" using assms(2) by blast
    then show ?thesis using ss by (auto simp: rule_names_def ss(1) distinct_map inj_on_def intro!: distinct_filter)
  qed
qed

lemma numbered_names:
  assumes "numbered k rules" and "map expand_rule rules = map Some xss"
  shows "distinct (rule_names (concat xss)) \<and>
    (\<forall>n\<in>set (rule_names (concat xss)). \<exists>l>k. \<exists>m d s. n = line_name m l d @ s \<and> name_suffix s)"
  using assms
proof (induction rules arbitrary: k xss)
  case (Cons e rules)
  obtain xs yss where x: "xss = xs # yss" "expand_rule e = Some xs" "map expand_rule rules = map Some yss"
    using Cons.prems(2) by (cases xss) auto
  obtain l where l: "l > k" "snippet_name (pe_name e) \<or> (\<exists>m d. pe_name e = line_name m l d)" "numbered l rules"
    using Cons.prems(1) by auto
  note a = expanded_rule_names [OF x(2) l(2)] and b = Cons.IH [OF l(3) x(3)]
  have "set (rule_names xs) \<inter> set (rule_names (concat yss)) = {}"
  proof (rule ccontr)
    assume "set (rule_names xs) \<inter> set (rule_names (concat yss)) \<noteq> {}"
    then obtain n where "n \<in> set (rule_names xs)" "n \<in> set (rule_names (concat yss))" by blast
    then obtain m d s l' m' d' s' where "n = line_name m l d @ s" "name_suffix s" "l < l'"
        "n = line_name m' l' d' @ s'" "name_suffix s'" using a b by meson
    then show False using line_name_inject [of m l d s m' l' d' s'] by simp
  qed
  moreover have "\<exists>l>k. \<exists>m d s. n = line_name m l d @ s \<and> name_suffix s" if "n \<in> set (rule_names xs)" for n
    using a l(1) that by blast
  moreover have "\<exists>l>k. \<exists>m d s. n = line_name m l d @ s \<and> name_suffix s" if "n \<in> set (rule_names (concat yss))" for n
    using b l(1) that by (meson order.strict_trans)
  ultimately show ?case using a b unfolding x(1) concat.simps rule_names_append set_append distinct_append by blast
qed (simp add: rule_names_def)

text \<open>
  C40. Every name under which the generator writes a rule is the name of one rule only, whatever
  the file of rules, so that the later runs find each rule by its name. The names of snippets are
  given in the file and are not meant.
\<close>

theorem rule_names_distinct:
  assumes "rule_entries fp = Some es"
  shows "distinct (rule_names es)"
proof -
  from assms obtain rules xss where "rules_loop [] fp 0 = Some rules" "map expand_rule rules = map Some xss"
      "es = concat xss"
    by (auto simp: rule_entries_def all_texts_Some split: Option.bind_splits)
  then show ?thesis using numbered_names [OF rules_loop_numbered] by blast
qed

text \<open>Two rules, the second one with a mark behind its head.\<close>

definition demo_rules :: string where
  "demo_rules = concat (map (\<lambda>line. line @ nl)
     [''entry:'', ''a'', ''--'', ''--'', ''b'', ''=='', ''entry_16:'', ''<debug>'', ''a'', ''--'', ''b'', ''==''])"

definition demo_entry :: "string \<Rightarrow> rule_text" where
  "demo_entry name = \<lparr>pe_name = name, pe_in = ''a'' @ nl, pe_constraints = [], pe_out = ''b'' @ nl\<rparr>"

lemma demo_rules_loop:
  "rules_loop [] demo_rules 0 = Some [demo_entry ''peep_line1'', demo_entry ''peep_mode16_line9_debug'']"
  by code_simp

lemma demo_expand:
  "expand_rule (demo_entry ''peep_line1'') = Some [demo_entry ''peep_line1'']"
  "expand_rule (demo_entry ''peep_mode16_line9_debug'') = Some [demo_entry ''peep_mode16_line9_debug'']"
  by code_simp+

theorem rule_names_distinct_witness:
  "rule_entries demo_rules = Some [demo_entry ''peep_line1'', demo_entry ''peep_mode16_line9_debug''] \<and>
   distinct (rule_names [demo_entry ''peep_line1'', demo_entry ''peep_mode16_line9_debug''])"
proof -
  have "rule_entries demo_rules = Some [demo_entry ''peep_line1'', demo_entry ''peep_mode16_line9_debug'']"
    by (simp add: rule_entries_def demo_rules_loop demo_expand)
  with rule_names_distinct [OF this] show ?thesis by blast
qed

section \<open>Snippets\<close>

text \<open>A declaration becomes a rule of that name, with the constraints of its comment.\<close>

lemma snippet_rule_read:
  "append_code_snippets (''extern peepgen_label_t peep_snippet_a; //%x: y,%z'' @ nl) \<bind> (\<lambda>t. rules_loop [] t 0) =
   Some [\<lparr>pe_name = ''peep_snippet_a'', pe_in = ''nop'' @ nl,
     pe_constraints = ''%x: y'' @ nl @ ''%z'' @ nl, pe_out = ''A'' @ nl\<rparr>]"
  by code_simp

end
