(* ===== verification/Gen_Variants.thy ===== *)
theory Gen_Variants
  imports Gen_Names Assignments_Props
begin

text \<open>
  The labels that the first run of the build's generator writes for the variants of a rule, and
  how the last run reads them; and what goes wrong when the variables of a rule are not used in
  ascending order.
\<close>

section \<open>Labels\<close>

definition regtype_of :: "opertype \<Rightarrow> regtype" where
  "regtype_of t = (if t = op_reg then REGTYPE_REG else REGTYPE_SEG)"

lemma show_dec_short: "n < 10 \<Longrightarrow> length (show_dec n) = 1" "n < 100 \<Longrightarrow> length (show_dec n) \<le> 2"
proof -
  show one: "n < 10 \<Longrightarrow> length (show_dec n) = 1" for n
    unfolding show_dec_def by (subst show_base.simps) simp
  show "length (show_dec n) \<le> 2" if "n < 100"
  proof (cases "n < 10")
    case False
    then have "show_dec n = show_dec (n div 10) @ [digit_char (n mod 10)]"
      unfolding show_dec_def by (subst show_base.simps) simp
    then show ?thesis using one [of "n div 10"] that by simp
  qed (use one in simp)
qed

lemma val_reg_bound: "val_reg op < 16"
proof -
  have "unat (take_bit 4 (oval op)) < 2 ^ 4"
    by (metis take_bit_nat_less_exp unsigned_take_bit_eq)
  then show ?thesis by (simp add: val_reg_def view_def val_bits_def)
qed

lemma underscore_no_digit: "CHR ''_'' \<notin> set (show_dec n)"
  using show_dec_digits [of n] by (auto simp: isdigit_def ch_def)

lemma variant_label_text:
  assumes "j < 10"
  shows "variant_label name t var j =
    name @ (if t = op_reg then ''_r_'' else ''_s_'') @ show_dec (val_reg var) @ ''_'' @ show_dec j"
  using show_dec_short(1) [OF assms] show_dec_short(2) [of "val_reg var"] val_reg_bound [of var]
  by (simp add: variant_label_def)

lemma parse_variant_label:
  assumes "j < 10"
  shows "parse_vname (variant_label name t var j) name = Some (regtype_of t, int (val_reg var), int j)"
proof -
  have d: "drop (length name + 1) (variant_label name t var j) =
      (if t = op_reg then ''r'' else ''s'') @ CHR ''_'' # show_dec (val_reg var) @ CHR ''_'' # show_dec j"
    by (simp add: variant_label_text [OF assms])
  have "length (show_dec (val_reg var)) \<le> 2" using val_reg_bound [of var] by (intro show_dec_short) simp
  moreover have "atoi (show_dec (val_reg var)) = int (val_reg var)" "atoi (show_dec j) = int j"
    using val_reg_bound [of var] assms by (auto intro!: atoi_show_dec)
  ultimately show ?thesis
    using show_dec_short(1) [OF assms] underscore_no_digit
    unfolding parse_vname_def d
    by (auto simp: split_at_append parse_regtype_def regtype_of_def)
qed

lemma variant_label_root: "j < 10 \<Longrightarrow> variant_label name t var j \<noteq> name"
  by (simp add: variant_label_text)

section \<open>The variants\<close>

definition variant_keys :: "opertype \<Rightarrow> nat \<Rightarrow> assignments \<Rightarrow> nat list \<Rightarrow> (regtype \<times> int \<times> int) list" where
  "variant_keys t num as is =
     concat (map (\<lambda>r. map (\<lambda>j. (regtype_of t, int (val_reg (fst (as ! r))), int j)) (coherent_values as t num r)) is)"

lemma coherent_values_bound: "j \<in> set (coherent_values as t num r) \<Longrightarrow> j < num"
  by (simp add: coherent_values_def)

lemma output_variant_label:
  "output_variant name out_text as t r j = Some (l, code) \<Longrightarrow> l = variant_label name t (fst (as ! r)) j"
  by (auto simp: output_variant_def Let_def split: Option.bind_splits)

lemma variants_labels:
  assumes "num \<le> 10"
    and "concat (map (\<lambda>r. map (output_variant name out_text as t r) (coherent_values as t num r)) is) = map Some ls"
  shows "map (\<lambda>l. parse_vname l name) (map fst ls) = map Some (variant_keys t num as is) \<and> name \<notin> fst ` set ls"
  using assms(2)
proof (induction "is" arbitrary: ls)
  case (Cons r "is")
  obtain us vs where uv: "ls = us @ vs" "map (output_variant name out_text as t r) (coherent_values as t num r) = map Some us"
      "concat (map (\<lambda>r. map (output_variant name out_text as t r) (coherent_values as t num r)) is) = map Some vs"
    using Cons.prems by (auto simp: append_eq_map_conv)
  have "map (\<lambda>l. parse_vname l name) (map fst us) = map (\<lambda>j. Some (regtype_of t, int (val_reg (fst (as ! r))), int j)) js \<and>
      name \<notin> fst ` set us"
    if "map (output_variant name out_text as t r) js = map Some us" "\<forall>j\<in>set js. j < 10" for js us
    using that
  proof (induction js arbitrary: us)
    case (Cons j js)
    then obtain l code us' where "us = (l, code) # us'" "output_variant name out_text as t r j = Some (l, code)"
        "map (output_variant name out_text as t r) js = map Some us'"
      by (cases us) auto
    moreover have "l = variant_label name t (fst (as ! r)) j" "l \<noteq> name"
      using calculation(2) Cons.prems(2) by (auto dest!: output_variant_label simp: variant_label_root)
    ultimately show ?case using Cons.IH [of us'] Cons.prems(2) by (simp add: parse_variant_label)
  qed simp
  moreover have "\<forall>j\<in>set (coherent_values as t num r). j < 10"
    using assms(1) by (auto dest: coherent_values_bound)
  ultimately show ?case using uv(2) Cons.IH [OF uv(3)] uv(1) by (auto simp: variant_keys_def)
qed (simp add: variant_keys_def)

lemma variant_keys_distinct:
  assumes "distinct (map (\<lambda>r. val_reg (fst (as ! r))) is)"
  shows "distinct (variant_keys t num as is)"
  using assms
proof (induction "is")
  case (Cons r "is")
  then show ?case
    by (auto simp: variant_keys_def distinct_map inj_on_def coherent_values_def)
qed (simp add: variant_keys_def)

lemma variant_keys_kind: "(k, v, j) \<in> set (variant_keys t num as is) \<Longrightarrow> k = regtype_of t"
  by (auto simp: variant_keys_def)

section \<open>Properties\<close>

text \<open>
  C39. The labels written for a rule are its own name and, read by the parser of the last run, all
  values of its register variables and then of its segment variables that are coherent with the
  variable; when no two variables of a kind have the same number, no label is written twice.
\<close>

theorem variants_exact:
  assumes "output_variants name out_text as = Some vs"
  shows "\<exists>labels. map fst vs = name # labels \<and>
      map (\<lambda>l. parse_vname l name) labels =
        map Some (variant_keys op_reg NUM_REGS as (assignments_get_regs as) @
                  variant_keys op_seg NUM_SEGS as (assignments_get_segs as)) \<and>
      (distinct (map (\<lambda>r. val_reg (fst (as ! r))) (assignments_get_regs as)) \<and>
       distinct (map (\<lambda>s. val_reg (fst (as ! s))) (assignments_get_segs as)) \<longrightarrow> distinct (name # labels))"
proof -
  from assms obtain root regs segs where vs: "vs = (name, root) # regs @ segs"
    and regs: "concat (map (\<lambda>r. map (output_variant name out_text as op_reg r) (coherent_values as op_reg NUM_REGS r))
        (assignments_get_regs as)) = map Some regs"
    and segs: "concat (map (\<lambda>s. map (output_variant name out_text as op_seg s) (coherent_values as op_seg NUM_SEGS s))
        (assignments_get_segs as)) = map Some segs"
    by (auto simp: output_variants_def all_texts_Some split: Option.bind_splits)
  let ?keys = "variant_keys op_reg NUM_REGS as (assignments_get_regs as) @
    variant_keys op_seg NUM_SEGS as (assignments_get_segs as)"
  have parsed: "map (\<lambda>l. parse_vname l name) (map fst (regs @ segs)) = map Some ?keys" "name \<notin> fst ` set (regs @ segs)"
    using variants_labels [OF _ regs] variants_labels [OF _ segs] by (auto simp: NUM_REGS_def NUM_SEGS_def)
  have "distinct (map fst (regs @ segs))" if "distinct ?keys"
  proof -
    have "distinct (map Some ?keys)" using that by (simp add: distinct_map del: map_append)
    then have "distinct (map (\<lambda>l. parse_vname l name) (map fst (regs @ segs)))" unfolding parsed(1) .
    then show ?thesis using distinct_map by blast
  qed
  moreover have "distinct ?keys" if "distinct (map (\<lambda>r. val_reg (fst (as ! r))) (assignments_get_regs as))"
      "distinct (map (\<lambda>s. val_reg (fst (as ! s))) (assignments_get_segs as))"
    using that variant_keys_distinct by (auto dest!: variant_keys_kind simp: regtype_of_def)
  ultimately show ?thesis using parsed vs by auto
qed

text \<open>A rule without code, with one register variable that may not be the stack pointer.\<close>

definition one_register :: assignments where
  "one_register = [(scalar_operand op_reg 4 0 tag_no_esp, scalar_operand op_reg 4 7 tag_const)]"

lemma replaced_nothing:
  assumes "length s < n" and "list_all (\<lambda>(p, r). strstr s p = None) prs"
  shows "replaced n s prs = Some s"
proof -
  have "replace_patterns prs n s = Some (Text s)"
    using assms(2) by (induction prs) (auto simp: replace_loop.simps)
  then show ?thesis using assms(1) by (simp add: replaced_def make_string_replacements_def strlcpy_def Let_def)
qed

lemma demo_code:
  assumes "j < 8"
  shows "output_code_with_rollback label [] (with_value one_register 0 op_reg j) cpu_mode_32 =
    Some (output_as_code label nl cpu_mode_32)"
proof -
  let ?as = "with_value one_register 0 op_reg j"
  have "list_all (\<lambda>j. case assignments_get_text_replacements (with_value one_register 0 op_reg j) of
      None \<Rightarrow> False | Some prs \<Rightarrow> list_all (\<lambda>(p, r). strstr nl p = None) prs) [0..<8]"
    by code_simp
  then have "case assignments_get_text_replacements ?as of
      None \<Rightarrow> False | Some prs \<Rightarrow> list_all (\<lambda>(p, r). strstr nl p = None) prs"
    using assms unfolding list_all_iff [of _ "[0..<8]"] by simp
  then obtain prs where prs: "assignments_get_text_replacements ?as = Some prs"
      "list_all (\<lambda>(p, r). strstr nl p = None) prs"
    by (cases "assignments_get_text_replacements ?as") auto
  have "restore_text ?as = []"
    by (simp add: restore_text_def assignments_get_temporaries_def with_value_def one_register_def
        var_is_temporary_def val_reg_def TEMP_REG0_def scalar_operand_def view_def set_view_def)
  then have "augmented_text [] ?as True = nl"
    by (simp add: augmented_text_def restore_text_def occurs_in_def strstr.simps starts_def)
  moreover have "replaced m nl [(''restore_temporaries'', [])] = Some nl" if "m > 1" for m
    using that by (intro replaced_nothing) (simp_all add: nl_def strstr.simps starts_def)
  moreover have "replaced m nl prs = Some nl" if "m > 1" for m
    using that prs(2) by (intro replaced_nothing) (simp_all add: nl_def)
  ultimately show ?thesis using \<open>restore_text ?as = []\<close> prs(1)
    by (simp add: output_code_with_rollback_def rename_and_output_as_code_def rename_as_code_def nl_length)
qed

lemma demo_variants: "\<exists>vs. output_variants ''peep_a'' [] one_register = Some vs"
proof -
  have root: "one_register = with_value one_register 0 op_reg 7" by code_simp
  have "replaced 64 [] [(''peep_a'', r)] = Some []" for r
    by (intro replaced_nothing) (simp_all add: strstr.simps starts_def)
  then have "\<exists>x. output_variant ''peep_a'' [] one_register op_reg 0 j = Some x" if "j < 8" for j
    using demo_code [OF that] by (simp add: output_variant_def Let_def)
  then have "\<exists>f. \<forall>j<8. output_variant ''peep_a'' [] one_register op_reg 0 j = Some (f j)" by metis
  then obtain f where f: "\<forall>j<8. output_variant ''peep_a'' [] one_register op_reg 0 j = Some (f j)" ..
  have "map (output_variant ''peep_a'' [] one_register op_reg 0) (coherent_values one_register op_reg NUM_REGS 0) =
      map Some (map f (coherent_values one_register op_reg NUM_REGS 0))"
    using f by (auto simp: NUM_REGS_def dest!: coherent_values_bound)
  then have "all_texts (map (output_variant ''peep_a'' [] one_register op_reg 0)
      (coherent_values one_register op_reg NUM_REGS 0)) = Some (map f (coherent_values one_register op_reg NUM_REGS 0))"
    unfolding all_texts_Some .
  moreover have "assignments_get_regs one_register = [0]" "assignments_get_segs one_register = []" by code_simp+
  ultimately show ?thesis using demo_code [of 7 "''peep_a''"] root by (simp add: output_variants_def)
qed

theorem variants_exact_witness:
  "\<exists>vs labels. output_variants ''peep_a'' [] one_register = Some vs \<and> map fst vs = ''peep_a'' # labels \<and>
     map (\<lambda>l. parse_vname l ''peep_a'') labels =
       map (\<lambda>j. Some (REGTYPE_REG, 0, j)) [0, 1, 2, 3, 5, 6, 7] \<and> distinct (''peep_a'' # labels)"
proof -
  obtain vs where vs: "output_variants ''peep_a'' [] one_register = Some vs" using demo_variants by blast
  have regs: "assignments_get_regs one_register = [0]" "assignments_get_segs one_register = []"
      "map Some (variant_keys op_reg NUM_REGS one_register [0] @ variant_keys op_seg NUM_SEGS one_register []) =
        map (\<lambda>j. Some (REGTYPE_REG, 0, j)) [0, 1, 2, 3, 5, 6, 7]"
    by code_simp+
  show ?thesis using variants_exact [OF vs] vs unfolding regs by auto
qed

section \<open>Variables out of order\<close>

text \<open>
  The search for variables in use looks at the entry with the number of the register. A rule that
  starts with another variable than the first one gets it twice when its code uses it too.
\<close>

lemma variables_out_of_order:
  "map_option snd (find_variables ''%vr0d'' (replicate 8 blank_operand, 0) \<bind> find_variables ''%vr0d'') = Some 1"
  "map_option snd (find_variables ''%vr1d'' (replicate 8 blank_operand, 0) \<bind> find_variables ''%vr1d'') = Some 2"
  by code_simp+

end
