(* ===== verification/Spec2Isabelle.thy ===== *)
theory Spec2Isabelle
  imports Rbtree_Props Tb_Props Utils Mylist_Props Hash_Props Opctable Operand_Props
    Assignments_Props Regset_Props Cpu_constraints Peep_Props Extable Translate_Props Btfix_Props Btmod_Props
    Gen_Position Gen_Nomatch_Props Gen_Order Gen_Files_Props Gen_Variants
begin

text \<open>
  A verification library for btkernel, a dynamic binary translator for the Linux kernel on 32-bit
  x86 (the module under \<^verbatim>\<open>src/btmod/bt\<close>).

  The program. A request of a user-level tool starts the module (\<^verbatim>\<open>btmod.c\<close>). It replaces the
  interrupt table by one whose handlers are translated code. Translated code that leaves the
  translated part enters \<^verbatim>\<open>monitor_entry\<close> (\<^verbatim>\<open>bt_main.c\<close>), which looks the guest address up
  in the table of blocks (\<^verbatim>\<open>peep/jumptable2.c\<close>) and translates a new block if there is none
  (\<^verbatim>\<open>translate\<close> of \<^verbatim>\<open>peep/peep.c\<close>): it decodes one instruction after the other, adds the check of
  its memory access (\<^verbatim>\<open>peep/instrument.c\<close>) and the code of the first rule that matches, or a copy.
  A first pass measures the code, then memory is cut from the pools (\<^verbatim>\<open>mem/malloc.c\<close>, \<^verbatim>\<open>peep/tb.c\<close>),
  then a second pass writes it. The block is entered in two red-black trees (\<^verbatim>\<open>lib/rbtree.c\<close>), by
  guest and by cache address, and its target in a hashed table the generated code searches
  (\<^verbatim>\<open>peep/jumptable1.c\<close>). Rules are kept in a hash table (\<^verbatim>\<open>lib/hash.c\<close>, \<^verbatim>\<open>lib/mylist.c\<close>), and their
  templates match operands up to variables (\<^verbatim>\<open>peep/insn.c\<close>, \<^verbatim>\<open>peep/assignments.c\<close>). Cache addresses of
  instructions that may fault are added to the module's exception table; when the module is
  stopped the return addresses on all stacks are mapped back to guest addresses (\<^verbatim>\<open>btfix.c\<close>).

  Theories and files.
  \<^item> Prelude: types of machine words, the values of fallible functions, lemmas on lists and orders.
  \<^item> Rbtree (\<^verbatim>\<open>lib/rbtree.c\<close> on a heap of nodes with parent links and the sentinel), Rbtree_Shape, Rbtree_Repr
    (reading of the heap as a tree with a focus), Rbtree_Insert, Rbtree_Delete, Rbtree_Find, Rbtree_Spec (the
    interface of a sorted set of nodes, as locales), Rbtree_Props.
  \<^item> Malloc (\<^verbatim>\<open>mem/malloc.c\<close>, \<^verbatim>\<open>mem/vaddr.h\<close>): page allocator, pools, their invariant, the allocator interface.
  \<^item> Tb (\<^verbatim>\<open>peep/tb.c\<close>), Jumptable2 (\<^verbatim>\<open>peep/jumptable2.c\<close> and the tree of cache addresses), Jumptable1
    (\<^verbatim>\<open>peep/jumptable1.c\<close>), Tb_Props.
  \<^item> Utils (\<^verbatim>\<open>lib/utils.c\<close>, \<^verbatim>\<open>lib/ctype.h\<close>): conversion of numbers, prefix tests, textual replacement.
  \<^item> Mylist, Mylist_Spec, Mylist_Sort, Mylist_Props (\<^verbatim>\<open>lib/mylist.c\<close>): linked lists and their merge sort.
  \<^item> Hash, Hash_Spec, Hash_Props (\<^verbatim>\<open>lib/hash.c\<close>): the chained table and its dictionary interface.
  \<^item> Opctable (\<^verbatim>\<open>peep/opctable.c\<close>): names and numbers of opcodes.
  \<^item> Operand, Operand_Parse, Operand_Props, Insn (\<^verbatim>\<open>peep/insn.c\<close>, \<^verbatim>\<open>peep/insntypes.h\<close>): operands, their text form,
    comparison; classification of instructions, the registers they use and define. Insn_Reads: what instructions
    read and replace by their operands and the x86 mnemonics, and how far the code's tables agree with it.
  \<^item> Regset, Regset_Props (\<^verbatim>\<open>peep/regset.c\<close>, \<^verbatim>\<open>peep/nomatch_pair.c\<close>), Cpu_constraints (\<^verbatim>\<open>peep/cpu_constraints.c\<close>),
    Assignments, Assignments_Props (\<^verbatim>\<open>peep/assignments.c\<close>).
  \<^item> Peep, Peep_Spec, Peep_Props (\<^verbatim>\<open>peep/peep.c\<close>): matching, temporaries, the search of a rule.
  \<^item> Extable (\<^verbatim>\<open>btfix.c\<close>): the copy of the kernel's exception table and the module's own.
  \<^item> Codegen, Instrument, Instrument_Props (\<^verbatim>\<open>peep/peep.c\<close>, \<^verbatim>\<open>peep/instrument.c\<close>): the emitter as a parameter,
    the checks of memory accesses, the scan for dead flags and registers.
  \<^item> Translate, Translate_Props (\<^verbatim>\<open>translate\<close> of \<^verbatim>\<open>peep/peep.c\<close>): both passes.
  \<^item> Btfix, Btfix_Props (\<^verbatim>\<open>btfix.c\<close>): guest addresses of edge code, repair of the stacks.
  \<^item> Bt_main, Bt_main_Props (\<^verbatim>\<open>bt_main.c\<close>): requests for blocks, chaining, the shadow interrupt table.
  \<^item> Btmod, Btmod_Props (\<^verbatim>\<open>btmod.c\<close>, log flags of \<^verbatim>\<open>lib/debug.c\<close>): start, stop, masks, requests.
  \<^item> The generator that runs when the module is built (\<^verbatim>\<open>peepgen.c\<close>). Gen_Files, Gen_Files_Props: its intermediate
    text files and that they are read back. Gen_Code: the C function \<^verbatim>\<open>peepgen_code\<close> it prints, as a list of
    statements with their text; Gen_Exec: what running these statements does; Gen_Regs, Gen_Entry: they append what
    the assembler would have produced for the registers at hand; Gen_Position: lengths do not depend on the address,
    the loop over the rules returns. Gen_Tables, Gen_Order: the table of rules it prints, and the order it gives the
    variables of a rule, which is that of the matcher. Gen_Nomatch, Gen_Nomatch_Props: the conflict pairs of a rule
    and the temporaries chosen with them. Gen_Rules: the reading of \<^verbatim>\<open>peep.tab\<close>, the variables of a rule and their
    constraints; Gen_Expand: the rules that a rule stands for, the assembly with its variants, the whole run, and
    the rules added for the snippets; Gen_Names, Gen_Variants: the names and labels are distinct and are read back.

  State. A pointer to a node of a tree, list or table is a number (ptr), the fields of nodes are
  functions from pointers; a structure embedded in another one is not separate, so a block is
  named by the address of its descriptor and \<^verbatim>\<open>tbs p\<close> is the block there. Words have their
  width: u8, u16, u32, u64. The record bt_state gathers what \<^verbatim>\<open>btmod\<close> and its cpus hold while the
  module runs: pools, blocks, both trees, the jump table, the exception table, memory; md_state adds
  what start and stop change. Per-cpu data is a function from cpu numbers.

  Conventions. A result None is behaviour the code leaves undefined or that does not come back: an
  access outside an array, a value never set, \<^verbatim>\<open>BUG()\<close>, a loop that does not end. \<^verbatim>\<open>ASSERT\<close>,
  \<^verbatim>\<open>NOT_REACHED\<close>, \<^verbatim>\<open>PANIC\<close> and \<^verbatim>\<open>ERR\<close> only print in the module and execution continues, so they have no
  effect in the model; in the functions of the generator \<^verbatim>\<open>ASSERT\<close> stops it, which is None too. Output buffers of strings are large enough. Views of a union other than the one last
  written are not read, except where the text says so. Loops that may not end are partial functions
  with value None; a bounded loop keeps its bound: \<^verbatim>\<open>MAX_TU_SIZE\<close> (2000) instructions of a block, ten
  steps in \<^verbatim>\<open>fetch_eip_from_edge\<close>, sixty chunks of the pools. Every other loop has a measure, or
  the lemmas on it show that it returns.

  Parameters. The decoder, the emitter with its generated tables, the allocators and \<^verbatim>\<open>sort\<close> of the
  kernel, the results of copying from and to user space, the threads of the kernel and the sizes of its
  structures are arguments of the definitions. What is assumed of them is named where it is used: the
  decoder returns instructions of positive length, the emitter writes code whose length does not depend
  on where it is put (position_free, generates, decodes), \<^verbatim>\<open>__vmalloc\<close> returns disjoint areas
  (good_areas), \<^verbatim>\<open>sort\<close> sorts.

  Properties. For the containers, refinement of an abstract sequence, set or dictionary (trees
  balanced, sorts stable in the order of nodes they return). For the pools, disjointness of everything
  handed out. For blocks, that guest and cache addresses are mapped to each other and the
  trees find the right block. For texts, that printing and reading are inverse. For rules,
  that a match is an instance, that the first rule that fits is found, that temporaries do not
  collide with values still to be read, unless the reading instruction sets its register too. For
  the scan, that what it reports dead is replaced before it is read, up to the readers its tables miss (Insn_Reads
  names them). For the translator, that both passes return and agree, and that a
  request keeps the invariant of the whole state (bt_inv), with the code in memory and later
  requests finding it. For start and stop, what the start sets up, that it happens once, what
  the repair makes of every return address of a sleeping thread. For the generator, that what it
  prints has the effect of the assembled rule (gen_case_correct), that parameters and temporaries arrive where the
  generated code expects them, that no two rules have the same name (rule_names_distinct) and that the labels of
  the variants are read as what they were written for (variants_exact), and the assumption position_free of the translator.

  Not modelled. \<^verbatim>\<open>peep/i386-dis.c\<close>, \<^verbatim>\<open>peep/elf.h\<close> are adapted from GNU binutils and glibc. Of \<^verbatim>\<open>peepgen.c\<close>, the
  parsing of object files, the file of offsets and the options of \<^verbatim>\<open>main\<close>; the C preprocessor, the assembler and the
  disassembler stand between its runs. The snippets of
  assembly (\<^verbatim>\<open>peep/snippets.h\<close>, \<^verbatim>\<open>peep/peeptab_defs.h\<close>, \<^verbatim>\<open>peep/peepcode.S\<close>, inline assembly of
  \<^verbatim>\<open>bt_main.c\<close>) are not C functions. The tools \<^verbatim>\<open>launch_bt.c\<close>, \<^verbatim>\<open>terminate_bt.c\<close>, \<^verbatim>\<open>profile_bt.c\<close>, \<^verbatim>\<open>debug_bt.c\<close>,
  \<^verbatim>\<open>extable.c\<close> only open the device and make requests. Printing to the kernel log, the disassembly
  listings of blocks in \<^verbatim>\<open>peep/tb.c\<close> included, is left out. Locks only serialise the
  translation; concurrent execution of translated code on other cpus is not modelled.
\<close>

end
